(* ===== verification/Prelude.thy ===== *)
theory Prelude
  imports Complex_Main "HOL-Library.AList" "HOL-Library.Char_ord" "HOL-Library.List_Lexorder"
begin

text \<open>
  The shared vocabulary of the development: the parts of Go and of its standard library that the
  modelled sources use, written as executable HOL functions, and the generic facts about them.

  \<^item> A Go string or byte slice is a \<open>string\<close> (a list of 8-bit characters).
  \<^item> A \<open>time.Time\<close> is the number of nanoseconds since Go's zero time, so \<open>IsZero\<close> is \<open>t = 0\<close>
    and \<open>Truncate\<close> (which Go defines from the zero time) is a remainder; a \<open>time.Duration\<close> is a
    number of nanoseconds.
  \<^item> A \<open>float64\<close> amount is a rational: the amounts the code adds are whole numbers of tokens or
    characters and sums of seconds, and rounding is not modelled.
  \<^item> A Go \<open>int\<close> is an \<open>int\<close>; the places where the 64-bit range decides a branch (parsing
    a number, subtracting two times) write the range out.
\<close>

named_theorems record_defs "definitions of record-valued constants, unfolded to evaluate them"

type_synonym gotime = int
type_synonym duration = int

definition max_int64 :: int where "max_int64 = 9223372036854775807"
definition min_int64 :: int where "min_int64 = - 9223372036854775808"

definition second :: duration where "second = 1000000000"
definition minute :: duration where "minute = 60 * second"
definition day_length :: duration where "day_length = 24 * 60 * minute"

lemmas duration_defs = second_def minute_def day_length_def

definition is_zero :: "gotime \<Rightarrow> bool" where "is_zero t \<longleftrightarrow> t = 0"

text \<open>\<open>t.Sub(u)\<close> saturates at the range of a duration.\<close>

definition time_sub :: "gotime \<Rightarrow> gotime \<Rightarrow> duration" where
  "time_sub t u = max min_int64 (min max_int64 (t - u))"

text \<open>\<open>t.UTC().Truncate(24 * time.Hour)\<close>: the start of the UTC day.\<close>

definition truncate_day :: "gotime \<Rightarrow> gotime" where
  "truncate_day t = t - t mod day_length"

lemma truncate_day_le: "truncate_day t \<le> t"
  by (simp add: truncate_day_def duration_defs)

lemma truncate_day_idem [simp]: "truncate_day (truncate_day t) = truncate_day t"
  by (simp add: truncate_day_def duration_defs minus_mod_eq_mult_div)

text \<open>\<open>int(x)\<close> of a float: truncation towards zero.\<close>

definition trunc :: "rat \<Rightarrow> int" where
  "trunc x = (if 0 \<le> x then \<lfloor>x\<rfloor> else \<lceil>x\<rceil>)"

lemma trunc_of_int [simp]: "trunc (of_int n) = n"
  by (simp add: trunc_def)

lemma trunc_0 [simp]: "trunc 0 = 0"
  by (simp add: trunc_def)

lemma trunc_numeral [simp]: "trunc (numeral n) = numeral n"
  using trunc_of_int [of "numeral n"] by simp

lemma trunc_nonneg: "0 \<le> x \<Longrightarrow> 0 \<le> trunc x"
  by (simp add: trunc_def)

lemma trunc_mono: "x \<le> y \<Longrightarrow> trunc x \<le> trunc y"
proof (cases "0 \<le> x \<or> y < 0")
  case True
  assume "x \<le> y"
  with True show ?thesis unfolding trunc_def by (auto intro: floor_mono ceiling_mono)
next
  case False
  assume "x \<le> y"
  from False have "\<lceil>x\<rceil> \<le> 0" and "0 \<le> \<lfloor>y\<rfloor>" by (auto simp: ceiling_le_iff)
  then have "\<lceil>x\<rceil> \<le> \<lfloor>y\<rfloor>" by (rule order_trans)
  with False show ?thesis unfolding trunc_def by auto
qed

section \<open>Integers as decimal text\<close>

definition byte :: "char \<Rightarrow> nat" where "byte c = of_char c"

definition digit_char :: "nat \<Rightarrow> char" where "digit_char d = char_of (48 + d)"

fun digits :: "nat \<Rightarrow> string" where
  "digits n = (if n < 10 then [digit_char n] else digits (n div 10) @ [digit_char (n mod 10)])"

declare digits.simps [simp del]

text \<open>\<open>strconv.Itoa\<close> and the verb \<open>%d\<close>.\<close>

definition itoa :: "int \<Rightarrow> string" where
  "itoa i = (if i < 0 then CHR ''-'' # digits (nat (- i)) else digits (nat i))"

definition is_digit :: "char \<Rightarrow> bool" where
  "is_digit c \<longleftrightarrow> 48 \<le> byte c \<and> byte c \<le> 57"

definition digits_value :: "string \<Rightarrow> nat" where
  "digits_value s = foldl (\<lambda>n c. 10 * n + (byte c - 48)) 0 s"

text \<open>
  \<open>strconv.Atoi\<close>, and \<open>strconv.ParseInt(s, 10, 64)\<close> of a string with an optional sign: at
  least one digit, nothing but digits, and the value within 64 bits; \<open>None\<close> is the error.
\<close>

definition atoi :: "string \<Rightarrow> int option" where
  "atoi s =
     (let neg = (case s of c # _ \<Rightarrow> c = CHR ''-'' | [] \<Rightarrow> False);
          ds = (case s of c # r \<Rightarrow> if c = CHR ''-'' \<or> c = CHR ''+'' then r else s | [] \<Rightarrow> []);
          v = (if neg then - int (digits_value ds) else int (digits_value ds))
      in if ds \<noteq> [] \<and> list_all is_digit ds \<and> min_int64 \<le> v \<and> v \<le> max_int64
         then Some v else None)"

lemma byte_digit_char: "d < 10 \<Longrightarrow> byte (digit_char d) = 48 + d"
  by (simp add: byte_def digit_char_def)

lemma is_digit_digit_char: "d < 10 \<Longrightarrow> is_digit (digit_char d)"
  by (simp add: is_digit_def byte_digit_char)

lemma digits_nonempty [simp]: "digits n \<noteq> []"
  by (subst digits.simps) simp

lemma digits_all_digit: "list_all is_digit (digits n)"
proof (induction n rule: digits.induct)
  case (1 n)
  then show ?case
    by (cases "n < 10") (simp_all add: digits.simps [of n] is_digit_digit_char)
qed

lemma digits_value_digits [simp]: "digits_value (digits n) = n"
proof (induction n rule: digits.induct)
  case (1 n)
  show ?case
  proof (cases "n < 10")
    case True
    then show ?thesis by (simp add: digits.simps [of n] digits_value_def byte_digit_char)
  next
    case False
    with 1 show ?thesis
      by (simp add: digits.simps [of n] digits_value_def byte_digit_char)
  qed
qed

lemma digits_not_sign: "digits n = c # r \<Longrightarrow> c \<noteq> CHR ''-'' \<and> c \<noteq> CHR ''+''"
  using digits_all_digit [of n] by (auto simp: is_digit_def byte_def)

lemma atoi_itoa:
  assumes "min_int64 \<le> i" and "i \<le> max_int64"
  shows "atoi (itoa i) = Some i"
proof (cases "i < 0")
  case True
  then show ?thesis using assms
    by (simp add: itoa_def atoi_def digits_all_digit)
next
  case False
  obtain c r where cr: "digits (nat i) = c # r" by (cases "digits (nat i)") auto
  have ds: "list_all is_digit (c # r)" using digits_all_digit [of "nat i"] cr by simp
  have dv: "digits_value (c # r) = nat i" using cr by (metis digits_value_digits)
  have sg: "c \<noteq> CHR ''-''" "c \<noteq> CHR ''+''" using digits_not_sign [OF cr] by simp_all
  have "itoa i = c # r" using False cr by (simp add: itoa_def)
  moreover have "int (digits_value (c # r)) = i" using dv False by simp
  ultimately show ?thesis using assms ds sg by (simp add: atoi_def Let_def)
qed

section \<open>Byte strings\<close>

definition has_prefix :: "string \<Rightarrow> string \<Rightarrow> bool" where
  "has_prefix p s \<longleftrightarrow> take (length p) s = p"

lemma has_prefix_length: "has_prefix p s \<Longrightarrow> length p \<le> length s"
  unfolding has_prefix_def by (metis length_take min.cobounded1)

definition has_suffix :: "string \<Rightarrow> string \<Rightarrow> bool" where
  "has_suffix p s \<longleftrightarrow> has_prefix (rev p) (rev s)"

definition cut_prefix :: "string \<Rightarrow> string \<Rightarrow> string option" where
  "cut_prefix p s = (if has_prefix p s then Some (drop (length p) s) else None)"

fun contains_sub :: "string \<Rightarrow> string \<Rightarrow> bool" where
  "contains_sub p [] = (p = [])"
| "contains_sub p (c # s) = (has_prefix p (c # s) \<or> contains_sub p s)"

text \<open>\<open>strings.Split(s, sep)\<close> for a one-byte separator: never empty.\<close>

fun split_on :: "char \<Rightarrow> string \<Rightarrow> string list" where
  "split_on d [] = [[]]"
| "split_on d (c # s) =
     (if c = d then [] # split_on d s
      else (case split_on d s of w # ws \<Rightarrow> (c # w) # ws | [] \<Rightarrow> [[c]]))"

lemma split_on_nonempty [simp]: "split_on d s \<noteq> []"
  by (induction s) (auto split: list.splits)

lemma split_on_no_sep: "d \<notin> set w \<Longrightarrow> split_on d w = [w]"
  by (induction w) auto

lemma split_on_append: "d \<notin> set w \<Longrightarrow> split_on d (w @ d # s) = w # split_on d s"
  by (induction w) auto

lemma split_on_parts: "w \<in> set (split_on d s) \<Longrightarrow> d \<notin> set w"
  by (induction s arbitrary: w) (auto split: list.splits if_splits)

text \<open>The UTF-8 encodings of the code points \<open>unicode.IsSpace\<close> accepts.\<close>

definition space_runes :: "string list" where
  "space_runes =
     map (\<lambda>n. [char_of n]) [9, 10, 11, 12, 13, 32 :: nat]
     @ map (map char_of) [[194, 133], [194, 160], [225, 154, 128 :: nat]]
     @ map (\<lambda>n. map char_of [226, 128, n]) [128..<139 :: nat]
     @ map (map char_of) [[226, 128, 168], [226, 128, 169], [226, 128, 175], [226, 129, 159], [227, 128, 128 :: nat]]"

lemma space_runes_nonempty: "w \<in> set space_runes \<Longrightarrow> w \<noteq> []"
  by (auto simp: space_runes_def)

function strip_left :: "string list \<Rightarrow> string \<Rightarrow> string" where
  "strip_left ws s =
     (case find (\<lambda>w. w \<noteq> [] \<and> has_prefix w s) ws of
        None \<Rightarrow> s
      | Some w \<Rightarrow> strip_left ws (drop (length w) s))"
  by pat_completeness auto
termination
proof (relation "measure (\<lambda>(ws, s). length s)", simp, goal_cases)
  case (1 ws s w)
  then have "w \<noteq> []" and "has_prefix w s" by (auto simp: find_Some_iff)
  then show ?case using has_prefix_length [of w s] by (cases w) auto
qed

declare strip_left.simps [simp del]

text \<open>\<open>strings.TrimSpace\<close>.\<close>

definition trim_space :: "string \<Rightarrow> string" where
  "trim_space s = rev (strip_left (map rev space_runes) (rev (strip_left space_runes s)))"

lemma strip_left_id:
  assumes "\<And>w. w \<in> set ws \<Longrightarrow> w \<noteq> [] \<Longrightarrow> \<not> has_prefix w s"
  shows "strip_left ws s = s"
  using assms by (subst strip_left.simps) (auto split: option.splits simp: find_Some_iff)

text \<open>\<open>strings.ToLower\<close> on the ASCII letters (the only ones the callers compare with).\<close>

definition lower_char :: "char \<Rightarrow> char" where
  "lower_char c = (if 65 \<le> byte c \<and> byte c \<le> 90 then char_of (byte c + 32) else c)"

definition to_lower :: "string \<Rightarrow> string" where "to_lower s = map lower_char s"

section \<open>Formatted messages\<close>

text \<open>
  \<open>fmt.Sprintf\<close> with the verbs the sources use: \<open>%d\<close>, \<open>%s\<close>, \<open>%v\<close> and \<open>%q\<close>. An argument
  is a number or a text; a duration, an error or a list of strings arrives as the text it prints.
  \<open>%q\<close> quotes ASCII text (a quote and a backslash are escaped, control bytes are written in hex).
\<close>

datatype fmt_arg = FInt int | FStr string

definition hex_digit :: "nat \<Rightarrow> char" where
  "hex_digit d = (if d < 10 then char_of (48 + d) else char_of (87 + d))"

definition quote_char :: "char \<Rightarrow> string" where
  "quote_char c =
     (if byte c = 34 \<or> byte c = 92 then [CHR 0x5C, c]
      else if byte c = 10 then [CHR 0x5C, CHR ''n'']
      else if byte c = 13 then [CHR 0x5C, CHR ''r'']
      else if byte c = 9 then [CHR 0x5C, CHR ''t'']
      else if byte c < 32 \<or> byte c = 127
        then [CHR 0x5C, CHR ''x'', hex_digit (byte c div 16), hex_digit (byte c mod 16)]
      else [c])"

definition quote :: "string \<Rightarrow> string" where
  "quote s = CHR 0x22 # concat (map quote_char s) @ [CHR 0x22]"

fun fmt_value :: "char \<Rightarrow> fmt_arg \<Rightarrow> string" where
  "fmt_value v (FInt i) = itoa i"
| "fmt_value v (FStr s) = (if v = CHR ''q'' then quote s else s)"

fun sprintf :: "string \<Rightarrow> fmt_arg list \<Rightarrow> string" where
  "sprintf (c # v # r) (a # as) =
     (if c = CHR ''%'' then fmt_value v a @ sprintf r as else c # sprintf (v # r) (a # as))"
| "sprintf r _ = r"

section \<open>Lists and association lists\<close>

lemma filter_false_dropWhile_sorted:
  assumes "sorted (map f xs)"
  shows "dropWhile (\<lambda>x. f x \<le> (c::int)) xs = filter (\<lambda>x. c < f x) xs"
  using assms
proof (induction xs)
  case (Cons x xs)
  show ?case
  proof (cases "f x \<le> c")
    case False
    with Cons.prems have "\<forall>y \<in> set xs. c < f y" by auto
    with False show ?thesis by simp
  qed (use Cons in simp)
qed simp

lemma sum_list_dropWhile_le:
  assumes "\<And>x. x \<in> set xs \<Longrightarrow> (0::int) \<le> f x"
  shows "sum_list (map f (dropWhile P xs)) \<le> sum_list (map f xs)"
  using assms by (induction xs) (auto intro: order_trans)

lemma length_filter_dropWhile_le:
  "length (filter Q (dropWhile P xs)) \<le> length (filter Q xs)"
  by (induction xs) auto

text \<open>Removing the first element that satisfies a predicate: \<open>append(s[:i], s[i+1:]...)\<close>.\<close>

fun remove_first :: "('a \<Rightarrow> bool) \<Rightarrow> 'a list \<Rightarrow> 'a list" where
  "remove_first p [] = []"
| "remove_first p (x # xs) = (if p x then xs else x # remove_first p xs)"

lemma set_remove_first: "set (remove_first p xs) \<subseteq> set xs"
  by (induction xs) auto

lemma remove_first_none: "(\<And>x. x \<in> set xs \<Longrightarrow> \<not> p x) \<Longrightarrow> remove_first p xs = xs"
  by (induction xs) auto

lemma length_remove_first:
  "length (remove_first p xs) = (if \<exists>x \<in> set xs. p x then length xs - 1 else length xs)"
proof (induction xs)
  case (Cons x xs)
  show ?case
  proof (cases "p x")
    case False
    then show ?thesis using Cons by (cases xs) auto
  qed simp
qed simp

lemma remove_first_append_last:
  "(\<And>x. x \<in> set xs \<Longrightarrow> \<not> p x) \<Longrightarrow> p y \<Longrightarrow> remove_first p (xs @ [y]) = xs"
  by (induction xs) auto

lemma sorted_remove_first: "sorted (map f xs) \<Longrightarrow> sorted (map f (remove_first p xs))"
  by (induction xs) (auto dest: subsetD [OF set_remove_first])

lemma length_filter_mono: "(\<And>x. x \<in> set xs \<Longrightarrow> P x \<Longrightarrow> Q x) \<Longrightarrow> length (filter P xs) \<le> length (filter Q xs)"
  by (induction xs) auto

lemma remove_first_filter:
  "distinct (map f xs) \<Longrightarrow> remove_first (\<lambda>x. f x = y) xs = filter (\<lambda>x. f x \<noteq> y) xs"
proof (induction xs)
  case (Cons x xs)
  show ?case
  proof (cases "f x = y")
    case True
    with Cons.prems have "\<forall>z \<in> set xs. f z \<noteq> y" by (auto simp: image_iff)
    then have "filter (\<lambda>x. f x \<noteq> y) xs = xs" by (simp add: filter_id_conv)
    with True show ?thesis by simp
  qed (use Cons in simp)
qed simp

lemma remove_first_cong:
  "(\<And>x. x \<in> set xs \<Longrightarrow> P x = Q x) \<Longrightarrow> remove_first P xs = remove_first Q xs"
  by (induction xs) auto

end
