(* ===== verification/Json.thy ===== *)
theory Json
  imports Prelude
begin

text \<open>
  JSON values as Go decodes them into \<open>any\<close> with \<open>UseNumber\<close>: a number keeps its text. An object is
  an association list without repeated names (Go decodes into a map, whose iteration order the
  modelled code never depends on). The comma-ok type assertions and the nil-map reads of the
  sources are total functions that return Go's zero values.
\<close>

datatype json =
    JNull
  | JBool bool
  | JNum string
  | JStr string
  | JArr "json list"
  | JObj "(string \<times> json) list"

type_synonym jobject = "(string \<times> json) list"

text \<open>\<open>m[k]\<close>: \<open>None\<close> when absent; \<open>body[k] = v\<close>; \<open>delete(body, k)\<close>.\<close>

abbreviation jget :: "jobject \<Rightarrow> string \<Rightarrow> json option" where "jget \<equiv> map_of"
abbreviation jset :: "string \<Rightarrow> json \<Rightarrow> jobject \<Rightarrow> jobject" where "jset \<equiv> AList.update"
abbreviation jdel :: "string \<Rightarrow> jobject \<Rightarrow> jobject" where "jdel \<equiv> AList.delete"

fun as_string :: "json option \<Rightarrow> string" where
  "as_string (Some (JStr s)) = s"
| "as_string _ = []"

fun as_bool :: "json option \<Rightarrow> bool" where
  "as_bool (Some (JBool b)) = b"
| "as_bool _ = False"

fun as_array :: "json option \<Rightarrow> json list" where
  "as_array (Some (JArr xs)) = xs"
| "as_array _ = []"

fun as_object :: "json option \<Rightarrow> jobject" where
  "as_object (Some (JObj m)) = m"
| "as_object _ = []"

fun is_object :: "json option \<Rightarrow> bool" where
  "is_object (Some (JObj m)) = True"
| "is_object _ = False"

text \<open>\<open>v.(json.Number)\<close>.\<close>

fun as_number :: "json option \<Rightarrow> string option" where
  "as_number (Some (JNum s)) = Some s"
| "as_number _ = None"

lemma jget_jset: "jget (jset k v m) k' = (if k' = k then Some v else jget m k')"
  by (simp add: update_conv')

lemma jget_jdel: "jget (jdel k m) k' = (if k' = k then None else jget m k')"
  by (simp add: delete_conv')

lemmas jget_simps [simp] = jget_jset jget_jdel

end
