(* ===== verification/Gateway_Errors.thy ===== *)
theory Gateway_Errors
  imports Json
begin

text \<open>
  The gateway's error values (internal/gateway/errors.go): the code table with the HTTP status and the
  OpenAI-shaped type of every code a friend can see, the error value, its JSON body, and the two ways
  it is written: a whole response, or the last event of a stream whose head is already out.
\<close>

section \<open>Codes and the code table\<close>

datatype code =
    CodeStorageFailed | CodeAgentUnavailable | CodeImageAbandoned | CodeImageQueueFull
  | CodeImageBudgetExhausted | CodeInvalidKey | CodeKeyPaused | CodeKeyRevoked
  | CodeModelNotAllowed | CodeBodyTooLarge | CodeContextTooLong | CodeRateLimited
  | CodeConcurrencyLimited | CodeBudgetExhausted | CodeQueueTimeout | CodeUpstreamDown
  | CodeUpstreamError | CodeAudioBudgetExhausted | CodeSpeechBudgetExhausted
  | CodeImagesNotSupported | CodeInvalidRequest | CodeNotFound | CodeClientClosed

fun code_str :: "code \<Rightarrow> string" where
  "code_str CodeStorageFailed = ''storage_failed''"
| "code_str CodeAgentUnavailable = ''agent_unavailable''"
| "code_str CodeImageAbandoned = ''image_abandoned''"
| "code_str CodeImageQueueFull = ''image_queue_full''"
| "code_str CodeImageBudgetExhausted = ''image_budget_exhausted''"
| "code_str CodeInvalidKey = ''invalid_key''"
| "code_str CodeKeyPaused = ''key_paused''"
| "code_str CodeKeyRevoked = ''key_revoked''"
| "code_str CodeModelNotAllowed = ''model_not_allowed''"
| "code_str CodeBodyTooLarge = ''body_too_large''"
| "code_str CodeContextTooLong = ''context_too_long''"
| "code_str CodeRateLimited = ''rate_limited''"
| "code_str CodeConcurrencyLimited = ''concurrency_limited''"
| "code_str CodeBudgetExhausted = ''budget_exhausted''"
| "code_str CodeQueueTimeout = ''queue_timeout''"
| "code_str CodeUpstreamDown = ''upstream_down''"
| "code_str CodeUpstreamError = ''upstream_error''"
| "code_str CodeAudioBudgetExhausted = ''audio_budget_exhausted''"
| "code_str CodeSpeechBudgetExhausted = ''speech_budget_exhausted''"
| "code_str CodeImagesNotSupported = ''images_not_supported''"
| "code_str CodeInvalidRequest = ''invalid_request''"
| "code_str CodeNotFound = ''not_found''"
| "code_str CodeClientClosed = ''client_closed''"

record code_row =
  cr_status :: int
  cr_typ :: string

fun code_table :: "code \<Rightarrow> code_row option" where
  "code_table CodeStorageFailed = Some \<lparr>cr_status = 500, cr_typ = ''server_error''\<rparr>"
| "code_table CodeAgentUnavailable = Some \<lparr>cr_status = 503, cr_typ = ''upstream_error''\<rparr>"
| "code_table CodeImageAbandoned = Some \<lparr>cr_status = 502, cr_typ = ''upstream_error''\<rparr>"
| "code_table CodeImageQueueFull = Some \<lparr>cr_status = 429, cr_typ = ''rate_limit_error''\<rparr>"
| "code_table CodeImageBudgetExhausted = Some \<lparr>cr_status = 429, cr_typ = ''rate_limit_error''\<rparr>"
| "code_table CodeInvalidKey = Some \<lparr>cr_status = 401, cr_typ = ''authentication_error''\<rparr>"
| "code_table CodeKeyPaused = Some \<lparr>cr_status = 403, cr_typ = ''permission_error''\<rparr>"
| "code_table CodeKeyRevoked = Some \<lparr>cr_status = 403, cr_typ = ''permission_error''\<rparr>"
| "code_table CodeModelNotAllowed = Some \<lparr>cr_status = 403, cr_typ = ''permission_error''\<rparr>"
| "code_table CodeBodyTooLarge = Some \<lparr>cr_status = 413, cr_typ = ''invalid_request_error''\<rparr>"
| "code_table CodeContextTooLong = Some \<lparr>cr_status = 422, cr_typ = ''invalid_request_error''\<rparr>"
| "code_table CodeRateLimited = Some \<lparr>cr_status = 429, cr_typ = ''rate_limit_error''\<rparr>"
| "code_table CodeConcurrencyLimited = Some \<lparr>cr_status = 429, cr_typ = ''rate_limit_error''\<rparr>"
| "code_table CodeBudgetExhausted = Some \<lparr>cr_status = 429, cr_typ = ''rate_limit_error''\<rparr>"
| "code_table CodeQueueTimeout = Some \<lparr>cr_status = 503, cr_typ = ''upstream_error''\<rparr>"
| "code_table CodeUpstreamDown = Some \<lparr>cr_status = 503, cr_typ = ''upstream_error''\<rparr>"
| "code_table CodeUpstreamError = Some \<lparr>cr_status = 502, cr_typ = ''upstream_error''\<rparr>"
| "code_table CodeAudioBudgetExhausted = Some \<lparr>cr_status = 429, cr_typ = ''rate_limit_error''\<rparr>"
| "code_table CodeSpeechBudgetExhausted = Some \<lparr>cr_status = 429, cr_typ = ''rate_limit_error''\<rparr>"
| "code_table CodeImagesNotSupported = Some \<lparr>cr_status = 400, cr_typ = ''invalid_request_error''\<rparr>"
| "code_table CodeInvalidRequest = Some \<lparr>cr_status = 400, cr_typ = ''invalid_request_error''\<rparr>"
| "code_table CodeNotFound = Some \<lparr>cr_status = 404, cr_typ = ''invalid_request_error''\<rparr>"
| "code_table CodeClientClosed = None"

section \<open>The error value\<close>

text \<open>\<open>ge_limit\<close> and \<open>ge_in_flight\<close> are the concurrency snapshot; 0 when absent.\<close>

record gw_error =
  ge_code :: code
  ge_message :: string
  ge_retry_after :: int
  ge_limit :: int
  ge_in_flight :: int

definition errf :: "code \<Rightarrow> int \<Rightarrow> string \<Rightarrow> fmt_arg list \<Rightarrow> gw_error" where
  "errf c retry fmt as =
     \<lparr>ge_code = c, ge_message = sprintf fmt as, ge_retry_after = retry, ge_limit = 0, ge_in_flight = 0\<rparr>"

lemma errf_sel [simp]:
  "ge_code (errf c r f as) = c" "ge_retry_after (errf c r f as) = r"
  "ge_limit (errf c r f as) = 0" "ge_in_flight (errf c r f as) = 0"
  by (simp_all add: errf_def)

definition run_reason :: "gw_error \<Rightarrow> string" where
  "run_reason e = sprintf ''%s retry_after=%d'' [FStr (code_str (ge_code e)), FInt (ge_retry_after e)]"

definition error_text :: "gw_error \<Rightarrow> string" where
  "error_text e = code_str (ge_code e) @ '': '' @ ge_message e"

definition err_status :: "gw_error \<Rightarrow> int" where
  "err_status e = (case code_table (ge_code e) of Some row \<Rightarrow> cr_status row | None \<Rightarrow> 500)"

section \<open>The error body\<close>

text \<open>A field marked \<open>omitempty\<close> is left out when it is zero.\<close>

definition omit_zero :: "string \<Rightarrow> int \<Rightarrow> (string \<times> json) list" where
  "omit_zero k n = (if n = 0 then [] else [(k, JNum (itoa n))])"

definition code_typ :: "code \<Rightarrow> string" where
  "code_typ c = (case code_table c of Some row \<Rightarrow> cr_typ row | None \<Rightarrow> [])"

definition error_json :: "gw_error \<Rightarrow> bool \<Rightarrow> json" where
  "error_json e in_stream =
     JObj [(''error'', JObj
       ([(''message'', JStr (ge_message e))]
        @ omit_zero ''limit'' (ge_limit e) @ omit_zero ''in_flight'' (ge_in_flight e)
        @ [(''type'', JStr (code_typ (ge_code e))), (''code'', JStr (code_str (ge_code e)))]
        @ (if in_stream then omit_zero ''retry_after'' (ge_retry_after e) else [])))]"

section \<open>Writing to the friend\<close>

text \<open>
  What has been put on one response: the status line once written, the headers set before it, and the
  pieces of the body in order. A JSON piece stands for its encoding, so a \<open>Content-Length\<close> computed
  from it is kept as \<open>encoded_length\<close>, the length function of the encoder.
\<close>

datatype piece = PText string | PJson json

record writer =
  wr_status :: "int option"
  wr_headers :: "(string \<times> string) list"
  wr_body :: "piece list"

definition new_writer :: writer where
  "new_writer = \<lparr>wr_status = None, wr_headers = [], wr_body = []\<rparr>"

definition set_header :: "string \<Rightarrow> string \<Rightarrow> writer \<Rightarrow> writer" where
  "set_header k v w = w\<lparr>wr_headers := AList.update k v (wr_headers w)\<rparr>"

text \<open>\<open>WriteHeader\<close>: net/http ignores every call after the first.\<close>

definition write_status :: "int \<Rightarrow> writer \<Rightarrow> writer" where
  "write_status s w = (case wr_status w of None \<Rightarrow> w\<lparr>wr_status := Some s\<rparr> | Some _ \<Rightarrow> w)"

text \<open>\<open>Write\<close>: the first write of a response without a status sends 200.\<close>

definition write_piece :: "piece \<Rightarrow> writer \<Rightarrow> writer" where
  "write_piece p w = (let w = write_status 200 w in w\<lparr>wr_body := wr_body w @ [p]\<rparr>)"

definition write_error :: "(json \<Rightarrow> nat) \<Rightarrow> gw_error \<Rightarrow> writer \<Rightarrow> writer" where
  "write_error encoded_length e w =
     (let body = error_json e False;
          w = set_header ''Content-Type'' ''application/json'' w;
          w = set_header ''Content-Length'' (itoa (int (encoded_length body))) w;
          w = (if ge_retry_after e > 0 then set_header ''Retry-After'' (itoa (ge_retry_after e)) w else w);
          w = write_status (err_status e) w
      in write_piece (PJson body) w)"

definition nl2 :: string where "nl2 = [CHR 0x0A, CHR 0x0A]"

definition write_stream_error :: "gw_error \<Rightarrow> writer \<Rightarrow> writer" where
  "write_stream_error e w =
     write_piece (PText (nl2 @ ''data: [DONE]'' @ nl2))
       (write_piece (PJson (error_json e True)) (write_piece (PText ''data: '') w))"

section \<open>Properties\<close>

lemma code_table_none: "code_table c = None \<longleftrightarrow> c = CodeClientClosed"
  by (cases c) auto

lemma err_status_error: "400 \<le> err_status e \<and> err_status e < 600"
  by (cases "ge_code e") (auto simp: err_status_def)

lemma write_status_status [simp]:
  "wr_status (write_status s w) = (case wr_status w of None \<Rightarrow> Some s | Some x \<Rightarrow> Some x)"
  by (simp add: write_status_def split: option.splits)

lemma write_status_headers [simp]: "wr_headers (write_status s w) = wr_headers w"
  by (simp add: write_status_def split: option.splits)

lemma write_status_body [simp]: "wr_body (write_status s w) = wr_body w"
  by (simp add: write_status_def split: option.splits)

lemma write_piece_sel [simp]:
  "wr_status (write_piece p w) = (case wr_status w of None \<Rightarrow> Some 200 | Some x \<Rightarrow> Some x)"
  "wr_headers (write_piece p w) = wr_headers w"
  "wr_body (write_piece p w) = wr_body w @ [p]"
  by (simp_all add: write_piece_def Let_def)

lemma set_header_sel [simp]:
  "wr_status (set_header k v w) = wr_status w" "wr_body (set_header k v w) = wr_body w"
  "map_of (wr_headers (set_header k v w)) k' = (if k' = k then Some v else map_of (wr_headers w) k')"
  by (simp_all add: set_header_def update_conv')

text \<open>
  The response written for an error on a fresh writer: its own status, one JSON body, and a
  \<open>Retry-After\<close> header exactly when the error carries a wait.
\<close>

lemma write_error_fresh:
  assumes "w = write_error len e new_writer"
  shows "wr_status w = Some (err_status e)"
    and "wr_body w = [PJson (error_json e False)]"
    and "map_of (wr_headers w) ''Content-Length'' = Some (itoa (int (len (error_json e False))))"
    and "map_of (wr_headers w) ''Retry-After'' =
           (if ge_retry_after e > 0 then Some (itoa (ge_retry_after e)) else None)"
  using assms by (simp_all add: write_error_def new_writer_def Let_def)

end
