(* ===== verification/Keys.thy ===== *)
theory Keys
  imports Prelude
begin

text \<open>
  Per-friend keys and their limits (internal/keys/keys.go, budgets.go, hash.go, and the defaults of
  store.go): the limit record, the defaults applied to it, the budget view the limiter reads, the model
  allowlist, and how a secret is minted and hashed. The SHA-256 digest and the random source are
  parameters.
\<close>

datatype status = Active | Paused | Revoked | OtherStatus string

record limits =
  lm_search_per_day :: int
  lm_daily_images :: int
  lm_max_queued_images :: int
  lm_daily_audio_seconds :: int
  lm_daily_speech_chars :: int
  lm_rpm :: int
  lm_tpm :: int
  lm_max_concurrent :: int
  lm_max_output_tokens :: int
  lm_max_context :: int
  lm_daily_tokens :: int
  lm_models :: "string list"

definition default_limits :: limits where
  "default_limits =
     \<lparr>lm_search_per_day = 50, lm_daily_images = 20, lm_max_queued_images = 8,
      lm_daily_audio_seconds = 3600, lm_daily_speech_chars = 200000, lm_rpm = 20, lm_tpm = 20000,
      lm_max_concurrent = 1, lm_max_output_tokens = 4096, lm_max_context = 0,
      lm_daily_tokens = 200000, lm_models = []\<rparr>"

record key =
  k_agent :: bool
  k_id :: string
  k_name :: string
  k_secret_hash :: string
  k_status :: status
  k_created_at :: gotime
  k_limits :: limits

definition key_allows_model :: "key \<Rightarrow> string \<Rightarrow> bool" where
  "key_allows_model k m \<longleftrightarrow> lm_models (k_limits k) = [] \<or> m \<in> set (lm_models (k_limits k))"

section \<open>Defaults\<close>

definition image_defaults :: "limits \<Rightarrow> limits" where
  "image_defaults l =
     (let l = (if lm_search_per_day l = 0 then l\<lparr>lm_search_per_day := 50\<rparr> else l);
          l = (if lm_search_per_day l < 0 then l\<lparr>lm_search_per_day := -1\<rparr> else l);
          l = (if lm_daily_images l < 0 then l\<lparr>lm_daily_images := -1\<rparr> else l);
          l = (if lm_max_queued_images l < 0 then l\<lparr>lm_max_queued_images := -1\<rparr> else l);
          l = (if lm_daily_images l = 0 then l\<lparr>lm_daily_images := 20\<rparr> else l)
      in if lm_max_queued_images l = 0 then l\<lparr>lm_max_queued_images := 8\<rparr> else l)"

definition audio_defaults :: "limits \<Rightarrow> limits" where
  "audio_defaults l =
     (let l = (if lm_daily_audio_seconds l = 0 then l\<lparr>lm_daily_audio_seconds := 3600\<rparr> else l);
          l = (if lm_daily_speech_chars l = 0 then l\<lparr>lm_daily_speech_chars := 200000\<rparr> else l)
      in image_defaults l)"

definition with_defaults :: "limits \<Rightarrow> limits" where
  "with_defaults l =
     (let l = audio_defaults l; d = default_limits;
          l = (if lm_rpm l = 0 then l\<lparr>lm_rpm := lm_rpm d\<rparr> else l);
          l = (if lm_tpm l = 0 then l\<lparr>lm_tpm := lm_tpm d\<rparr> else l);
          l = (if lm_max_concurrent l = 0 then l\<lparr>lm_max_concurrent := lm_max_concurrent d\<rparr> else l);
          l = (if lm_max_output_tokens l = 0 then l\<lparr>lm_max_output_tokens := lm_max_output_tokens d\<rparr> else l)
      in if lm_daily_tokens l = 0 then l\<lparr>lm_daily_tokens := lm_daily_tokens d\<rparr> else l)"

section \<open>Budgets\<close>

record budget =
  bg_unit :: string
  bg_window :: string
  bg_amount :: int

type_synonym budgets = "(string \<times> budget list) list"

definition limit_budgets :: "limits \<Rightarrow> budgets" where
  "limit_budgets l =
     (let l = audio_defaults l in
      [(''search'', [\<lparr>bg_unit = ''requests'', bg_window = ''day'', bg_amount = lm_search_per_day l\<rparr>]),
       (''images'', [\<lparr>bg_unit = ''images'', bg_window = ''day'', bg_amount = lm_daily_images l\<rparr>]),
       (''tokens'', [\<lparr>bg_unit = ''tokens'', bg_window = ''minute'', bg_amount = lm_tpm l\<rparr>,
                     \<lparr>bg_unit = ''tokens'', bg_window = ''day'', bg_amount = lm_daily_tokens l\<rparr>]),
       (''audio'', [\<lparr>bg_unit = ''seconds'', bg_window = ''day'', bg_amount = lm_daily_audio_seconds l\<rparr>]),
       (''speech'', [\<lparr>bg_unit = ''characters'', bg_window = ''day'', bg_amount = lm_daily_speech_chars l\<rparr>])])"

definition budget_amount :: "budgets \<Rightarrow> string \<Rightarrow> string \<Rightarrow> int" where
  "budget_amount b cls win =
     (case map_of b cls of
        None \<Rightarrow> 0
      | Some bs \<Rightarrow> (case find (\<lambda>x. bg_window x = win) bs of None \<Rightarrow> 0 | Some x \<Rightarrow> bg_amount x))"

section \<open>Secrets\<close>

text \<open>\<open>hex.EncodeToString\<close> and unpadded base64url over bytes.\<close>

definition hex_encode :: "string \<Rightarrow> string" where
  "hex_encode s = concat (map (\<lambda>c. [hex_digit (byte c div 16), hex_digit (byte c mod 16)]) s)"

definition b64_char :: "nat \<Rightarrow> char" where
  "b64_char v =
     (if v < 26 then char_of (65 + v) else if v < 52 then char_of (71 + v)
      else if v < 62 then char_of (v - 4) else if v = 62 then CHR ''-'' else CHR ''_'')"

fun b64url :: "nat list \<Rightarrow> string" where
  "b64url (a # b # c # r) =
     b64_char (a div 4) # b64_char (a mod 4 * 16 + b div 16)
     # b64_char (b mod 16 * 4 + c div 64) # b64_char (c mod 64) # b64url r"
| "b64url [a, b] = [b64_char (a div 4), b64_char (a mod 4 * 16 + b div 16), b64_char (b mod 16 * 4)]"
| "b64url [a] = [b64_char (a div 4), b64_char (a mod 4 * 16)]"
| "b64url [] = []"

text \<open>\<open>NewSecret\<close>: the random source gives 32 bytes, or fails.\<close>

definition new_secret :: "string option \<Rightarrow> string option" where
  "new_secret rnd = map_option (\<lambda>b. b64url (map byte b)) rnd"

definition hash_secret :: "(string \<Rightarrow> string) \<Rightarrow> string \<Rightarrow> string" where
  "hash_secret sha256 secret = ''sha256:'' @ hex_encode (sha256 secret)"

section \<open>Properties\<close>

text \<open>\<open>is_b64\<close> is the alphabet of the encoder.\<close>

definition is_b64 :: "char \<Rightarrow> bool" where
  "is_b64 c \<longleftrightarrow> 65 \<le> byte c \<and> byte c \<le> 90 \<or> 97 \<le> byte c \<and> byte c \<le> 122
     \<or> 48 \<le> byte c \<and> byte c \<le> 57 \<or> c = CHR ''-'' \<or> c = CHR ''_''"

lemma byte_char_of: "n < 256 \<Longrightarrow> byte (char_of n) = n"
  by (simp add: byte_def)

lemma byte_less: "byte c < 256"
  by (simp add: byte_def)

lemma b64_char_alphabet: "is_b64 (b64_char v)"
  by (auto simp: b64_char_def is_b64_def byte_char_of)

lemma b64url_alphabet: "list_all is_b64 (b64url bs)"
  by (induction bs rule: b64url.induct) (simp_all add: b64_char_alphabet)

lemma length_b64url: "length (b64url bs) = 4 * (length bs div 3) + (if length bs mod 3 = 0 then 0 else length bs mod 3 + 1)"
proof (induction bs rule: b64url.induct)
  case (1 a b c r)
  have "length (a # b # c # r) mod 3 = length r mod 3"
    and "length (a # b # c # r) div 3 = Suc (length r div 3)" by (simp_all add: mod_simps)
  with 1 show ?case by simp
qed simp_all

lemma new_secret_shape:
  assumes "new_secret (Some b) = Some s" and "length b = 32"
  shows "length s = 43 \<and> list_all is_b64 s"
  using assms by (auto simp: new_secret_def length_b64url b64url_alphabet)

lemma image_defaults_sel:
  "lm_search_per_day (image_defaults l) =
     (if lm_search_per_day l = 0 then 50 else max (-1) (lm_search_per_day l))"
  "lm_daily_images (image_defaults l) =
     (if lm_daily_images l = 0 then 20 else max (-1) (lm_daily_images l))"
  "lm_max_queued_images (image_defaults l) =
     (if lm_max_queued_images l = 0 then 8 else max (-1) (lm_max_queued_images l))"
  "lm_daily_audio_seconds (image_defaults l) = lm_daily_audio_seconds l"
  "lm_daily_speech_chars (image_defaults l) = lm_daily_speech_chars l"
  "lm_rpm (image_defaults l) = lm_rpm l" "lm_tpm (image_defaults l) = lm_tpm l"
  "lm_max_concurrent (image_defaults l) = lm_max_concurrent l"
  "lm_max_output_tokens (image_defaults l) = lm_max_output_tokens l"
  "lm_max_context (image_defaults l) = lm_max_context l"
  "lm_daily_tokens (image_defaults l) = lm_daily_tokens l" "lm_models (image_defaults l) = lm_models l"
  by (auto simp: image_defaults_def Let_def)

lemma audio_defaults_sel:
  "lm_search_per_day (audio_defaults l) = lm_search_per_day (image_defaults l)"
  "lm_daily_images (audio_defaults l) = lm_daily_images (image_defaults l)"
  "lm_max_queued_images (audio_defaults l) = lm_max_queued_images (image_defaults l)"
  "lm_daily_audio_seconds (audio_defaults l) =
     (if lm_daily_audio_seconds l = 0 then 3600 else lm_daily_audio_seconds l)"
  "lm_daily_speech_chars (audio_defaults l) =
     (if lm_daily_speech_chars l = 0 then 200000 else lm_daily_speech_chars l)"
  "lm_rpm (audio_defaults l) = lm_rpm l" "lm_tpm (audio_defaults l) = lm_tpm l"
  "lm_max_concurrent (audio_defaults l) = lm_max_concurrent l"
  "lm_max_output_tokens (audio_defaults l) = lm_max_output_tokens l"
  "lm_max_context (audio_defaults l) = lm_max_context l"
  "lm_daily_tokens (audio_defaults l) = lm_daily_tokens l" "lm_models (audio_defaults l) = lm_models l"
  by (auto simp: audio_defaults_def Let_def image_defaults_sel)

lemma limits_eqI:
  assumes "lm_search_per_day a = lm_search_per_day b" "lm_daily_images a = lm_daily_images b"
    "lm_max_queued_images a = lm_max_queued_images b" "lm_daily_audio_seconds a = lm_daily_audio_seconds b"
    "lm_daily_speech_chars a = lm_daily_speech_chars b" "lm_rpm a = lm_rpm b" "lm_tpm a = lm_tpm b"
    "lm_max_concurrent a = lm_max_concurrent b" "lm_max_output_tokens a = lm_max_output_tokens b"
    "lm_max_context a = lm_max_context b" "lm_daily_tokens a = lm_daily_tokens b"
    "lm_models a = lm_models (b::limits)"
  shows "a = b"
  using assms by (cases a; cases b) simp

lemma audio_defaults_idem [simp]: "audio_defaults (audio_defaults l) = audio_defaults l"
  by (rule limits_eqI) (auto simp: audio_defaults_sel image_defaults_sel)

lemma with_defaults_sel:
  "lm_rpm (with_defaults l) = (if lm_rpm l = 0 then 20 else lm_rpm l)"
  "lm_tpm (with_defaults l) = (if lm_tpm l = 0 then 20000 else lm_tpm l)"
  "lm_max_concurrent (with_defaults l) = (if lm_max_concurrent l = 0 then 1 else lm_max_concurrent l)"
  "lm_max_output_tokens (with_defaults l) =
     (if lm_max_output_tokens l = 0 then 4096 else lm_max_output_tokens l)"
  "lm_daily_tokens (with_defaults l) = (if lm_daily_tokens l = 0 then 200000 else lm_daily_tokens l)"
  "lm_max_context (with_defaults l) = lm_max_context l" "lm_models (with_defaults l) = lm_models l"
  "lm_search_per_day (with_defaults l) = lm_search_per_day (audio_defaults l)"
  "lm_daily_images (with_defaults l) = lm_daily_images (audio_defaults l)"
  "lm_max_queued_images (with_defaults l) = lm_max_queued_images (audio_defaults l)"
  "lm_daily_audio_seconds (with_defaults l) = lm_daily_audio_seconds (audio_defaults l)"
  "lm_daily_speech_chars (with_defaults l) = lm_daily_speech_chars (audio_defaults l)"
  by (auto simp: with_defaults_def Let_def audio_defaults_sel default_limits_def)

lemma budget_amount_sel:
  "budget_amount (limit_budgets l) ''tokens'' ''minute'' = lm_tpm l"
  "budget_amount (limit_budgets l) ''tokens'' ''day'' = lm_daily_tokens l"
  "budget_amount (limit_budgets l) ''audio'' ''day'' = lm_daily_audio_seconds (audio_defaults l)"
  "budget_amount (limit_budgets l) ''speech'' ''day'' = lm_daily_speech_chars (audio_defaults l)"
  "budget_amount (limit_budgets l) ''images'' ''day'' = lm_daily_images (audio_defaults l)"
  "budget_amount (limit_budgets l) ''search'' ''day'' = lm_search_per_day (audio_defaults l)"
  by (simp_all add: budget_amount_def limit_budgets_def Let_def audio_defaults_sel)

end
