(* ===== verification/Invite.thy ===== *)
theory Invite
  imports Keys
begin

text \<open>
  The invite string (internal/invite/invite.go): encoding, decoding with its errors in the order the code
  checks them, and the prefix family. The parser of tailcat addresses is a parameter: \<open>None\<close> for an
  address it refuses, otherwise whether the address carries a pre-shared key.
\<close>

record invite =
  inv_addr :: string
  inv_secret :: string

text \<open>\<open>ErrNewerApp p\<close> is the error that wraps \<open>ErrPrefix\<close> with the newer-app message.\<close>

datatype invite_error =
    ErrPrefix | ErrNewerApp string | ErrParts | ErrEmptyPart | ErrAddr | ErrSecretChars

definition invite_prefix :: string where "invite_prefix = ''ic1''"

text \<open>\<open>strings.TrimRight(product.InvitePrefix, "0123456789")\<close>.\<close>

definition prefix_family :: string where
  "prefix_family = rev (dropWhile is_digit (rev invite_prefix))"

definition encode_invite :: "(string \<Rightarrow> bool option) \<Rightarrow> string \<Rightarrow> string \<Rightarrow> string" where
  "encode_invite parse_addr addr secret =
     (let prefix = (if parse_addr addr = Some True then prefix_family @ ''2'' else invite_prefix)
      in prefix @ ''.'' @ addr @ ''.'' @ secret)"

definition check_prefix :: "string \<Rightarrow> invite_error option" where
  "check_prefix p =
     (if p = invite_prefix \<or> p = prefix_family @ ''2'' then None
      else case cut_prefix prefix_family p of
        Some ds \<Rightarrow> (case atoi ds of
            Some n \<Rightarrow> if n > 2 then Some (ErrNewerApp p) else Some ErrPrefix
          | None \<Rightarrow> Some ErrPrefix)
      | None \<Rightarrow> Some ErrPrefix)"

definition is_base64url :: "string \<Rightarrow> bool" where
  "is_base64url s \<longleftrightarrow> s \<noteq> [] \<and>
     list_all (\<lambda>c. 65 \<le> byte c \<and> byte c \<le> 90 \<or> 97 \<le> byte c \<and> byte c \<le> 122
       \<or> 48 \<le> byte c \<and> byte c \<le> 57 \<or> c = CHR ''-'' \<or> c = CHR ''_'') s"

definition decode_invite :: "string \<Rightarrow> invite_error + invite" where
  "decode_invite s =
     (let parts = split_on (CHR ''.'') (trim_space s) in
      case check_prefix (hd parts) of Some e \<Rightarrow> Inl e | None \<Rightarrow>
      if length parts \<noteq> 3 then Inl ErrParts
      else (let addr = parts ! 1; secret = parts ! 2 in
        if addr = [] \<or> secret = [] then Inl ErrEmptyPart
        else if \<not> has_prefix ''tc'' addr \<or> length addr = 2 \<or> \<not> is_base64url addr then Inl ErrAddr
        else if \<not> is_base64url secret then Inl ErrSecretChars
        else Inr \<lparr>inv_addr = addr, inv_secret = secret\<rparr>))"

section \<open>Well-formed parts\<close>

definition valid_addr :: "string \<Rightarrow> bool" where
  "valid_addr a \<longleftrightarrow> has_prefix ''tc'' a \<and> length a \<noteq> 2 \<and> is_base64url a"

lemma prefix_family_ic [simp]: "prefix_family = ''ic''"
  by (simp add: prefix_family_def invite_prefix_def is_digit_def byte_def)

lemma is_base64url_is_b64: "is_base64url s \<longleftrightarrow> s \<noteq> [] \<and> list_all is_b64 s"
  by (simp add: is_base64url_def is_b64_def list_all_iff)

lemma is_b64_graphic: "is_b64 c \<Longrightarrow> 33 \<le> byte c \<and> byte c \<le> 126 \<and> c \<noteq> CHR ''.''"
  by (auto simp: is_b64_def byte_def)

text \<open>A graphic ASCII byte neither begins nor ends a white-space rune.\<close>

lemma space_runes_ends:
  "w \<in> set space_runes \<Longrightarrow> (byte (hd w) < 33 \<or> 126 < byte (hd w)) \<and> (byte (last w) < 33 \<or> 126 < byte (last w))"
  by (auto simp: space_runes_def byte_def upt_rec [of _ 139] upt_conv_Cons)

lemma has_prefix_hd: "has_prefix w (c # s) \<Longrightarrow> w \<noteq> [] \<Longrightarrow> hd w = c"
  by (cases w) (auto simp: has_prefix_def)

lemma strip_left_graphic:
  assumes "33 \<le> byte c" and "byte c \<le> 126"
  shows "strip_left space_runes (c # s) = c # s"
    and "strip_left (map rev space_runes) (c # s) = c # s"
proof -
  have "\<not> has_prefix w (c # s)" if "w \<in> set space_runes" "w \<noteq> []" for w
    using space_runes_ends [OF that(1)] has_prefix_hd [of w c s] that(2) assms by auto
  then show "strip_left space_runes (c # s) = c # s" by (intro strip_left_id) auto
  have "\<not> has_prefix (rev w) (c # s)" if "w \<in> set space_runes" "rev w \<noteq> []" for w
    using space_runes_ends [OF that(1)] has_prefix_hd [of "rev w" c s] that(2) assms
    by (auto simp: hd_rev)
  then show "strip_left (map rev space_runes) (c # s) = c # s" by (intro strip_left_id) auto
qed

lemma trim_space_graphic:
  assumes "s \<noteq> []" "33 \<le> byte (hd s)" "byte (hd s) \<le> 126" "33 \<le> byte (last s)" "byte (last s) \<le> 126"
  shows "trim_space s = s"
proof -
  obtain c r where s: "s = c # r" using assms(1) by (cases s) auto
  obtain d q where q: "rev s = d # q" using assms(1) by (cases "rev s") auto
  then have "d = last s" by (metis hd_rev list.sel(1))
  with assms s q strip_left_graphic(1) [of c r] strip_left_graphic(2) [of d q]
  show ?thesis unfolding trim_space_def by (metis list.sel(1) rev_rev_ident)
qed

lemma split_three:
  assumes "CHR ''.'' \<notin> set p" "CHR ''.'' \<notin> set a" "CHR ''.'' \<notin> set x"
  shows "split_on (CHR ''.'') (p @ CHR ''.'' # a @ CHR ''.'' # x) = [p, a, x]"
  using assms by (simp add: split_on_append split_on_no_sep)

lemma length_three: "length xs = 3 \<Longrightarrow> \<exists>a b c. xs = [a, b, c]"
  by (auto simp: numeral_3_eq_3 length_Suc_conv)

text \<open>Splitting loses nothing: joining the parts with the separator gives the string back.\<close>

fun join_with :: "char \<Rightarrow> string list \<Rightarrow> string" where
  "join_with d [] = []"
| "join_with d [w] = w"
| "join_with d (w # ws) = w @ d # join_with d ws"

lemma join_split [simp]: "join_with d (split_on d s) = s"
proof (induction s)
  case (Cons c s)
  obtain w ws where w: "split_on d s = w # ws" by (cases "split_on d s") auto
  with Cons show ?case by (cases ws) auto
qed simp

lemma is_base64url_no_dot: "is_base64url s \<Longrightarrow> CHR ''.'' \<notin> set s"
  using is_b64_graphic by (auto simp: is_base64url_is_b64 list_all_iff)

text \<open>The decoder accepts exactly the trimmed strings of three parts in the two known formats.\<close>

lemma decode_invite_iff:
  "decode_invite s = Inr i \<longleftrightarrow>
     (\<exists>p \<in> {''ic1'', ''ic2''}. trim_space s = p @ ''.'' @ inv_addr i @ ''.'' @ inv_secret i)
     \<and> valid_addr (inv_addr i) \<and> is_base64url (inv_secret i)" (is "?L \<longleftrightarrow> ?R")
proof
  assume L: ?L
  let ?ps = "split_on (CHR ''.'') (trim_space s)"
  have cp: "check_prefix (hd ?ps) = None"
    using L by (cases "check_prefix (hd ?ps)") (simp_all add: decode_invite_def Let_def)
  have "length ?ps = 3"
    using L cp by (simp add: decode_invite_def Let_def split: if_splits)
  then obtain p a x where ps: "?ps = [p, a, x]"
    using length_three by blast
  have i: "inv_addr i = a" "inv_secret i = x" "valid_addr a" "is_base64url x"
    using L cp by (cases i, simp_all add: decode_invite_def Let_def ps valid_addr_def split: if_splits)+
  have p: "p \<in> {''ic1'', ''ic2''}"
    using cp by (simp add: ps check_prefix_def invite_prefix_def split: if_splits option.splits)
  have "trim_space s = join_with (CHR ''.'') [p, a, x]" by (metis ps join_split)
  with p i show ?R by simp
next
  assume R: ?R
  then obtain p where p: "p \<in> {''ic1'', ''ic2''}"
    and t0: "trim_space s = p @ ''.'' @ inv_addr i @ ''.'' @ inv_secret i" by (elim conjE bexE)
  from t0 have t: "trim_space s = p @ CHR ''.'' # inv_addr i @ CHR ''.'' # inv_secret i" by simp
  from R have v: "valid_addr (inv_addr i)" "is_base64url (inv_secret i)" by auto
  have nd: "CHR ''.'' \<notin> set p" using p by auto
  have ps: "split_on (CHR ''.'') (trim_space s) = [p, inv_addr i, inv_secret i]"
    unfolding t using nd v by (simp add: split_three is_base64url_no_dot valid_addr_def)
  have "check_prefix p = None" using p by (auto simp: check_prefix_def invite_prefix_def)
  moreover have "inv_addr i \<noteq> []" "inv_secret i \<noteq> []" using v by (auto simp: valid_addr_def is_base64url_def)
  ultimately show ?L using v
    by (simp add: decode_invite_def Let_def ps valid_addr_def)
qed

text \<open>
  C38. Round trip: decoding an encoded invite gives the address and the secret back, whichever of the two
  formats the address calls for.
\<close>

theorem decode_encode_invite:
  assumes "valid_addr addr" and "is_base64url secret"
  shows "decode_invite (encode_invite parse_addr addr secret) = Inr \<lparr>inv_addr = addr, inv_secret = secret\<rparr>"
proof -
  let ?p = "if parse_addr addr = Some True then ''ic2'' else ''ic1''"
  have e: "encode_invite parse_addr addr secret = ?p @ ''.'' @ addr @ ''.'' @ secret"
    by (simp add: encode_invite_def invite_prefix_def)
  have "is_b64 (last secret)" using assms(2) by (auto simp: is_base64url_is_b64 list_all_iff)
  then have "trim_space (?p @ ''.'' @ addr @ ''.'' @ secret) = ?p @ ''.'' @ addr @ ''.'' @ secret"
    using is_b64_graphic [of "last secret"] assms(2)
    by (intro trim_space_graphic) (auto simp: byte_def is_base64url_is_b64)
  then show ?thesis using assms unfolding e by (subst decode_invite_iff) auto
qed

theorem decode_encode_invite_witness:
  "decode_invite (encode_invite (\<lambda>a. Some True) ''tcAb-9'' ''s3cr_T'') = Inr \<lparr>inv_addr = ''tcAb-9'', inv_secret = ''s3cr_T''\<rparr>"
  by (rule decode_encode_invite) (simp_all add: valid_addr_def is_base64url_def has_prefix_def byte_def)

text \<open>
  An invite made by a newer build is reported as such, whatever the rest of it looks like: the version in
  front of the first dot is read before the layout is, and only versions above 2 are newer.
\<close>

theorem newer_invite_reported:
  assumes "trim_space s = ''ic'' @ itoa n @ rest" and "rest = [] \<or> hd rest = CHR ''.''"
    and "2 < n" and "n \<le> max_int64"
  shows "decode_invite s = Inl (ErrNewerApp (''ic'' @ itoa n))"
proof -
  have "CHR ''.'' \<notin> set (itoa n)"
    using digits_all_digit [of "nat n"] \<open>2 < n\<close> by (auto simp: itoa_def list_all_iff is_digit_def byte_def)
  then have nd: "CHR ''.'' \<notin> set (''ic'' @ itoa n)" by simp
  have hd: "hd (split_on (CHR ''.'') (trim_space s)) = ''ic'' @ itoa n"
  proof (cases rest)
    case Nil
    then show ?thesis using assms(1) split_on_no_sep [OF nd] by simp
  next
    case (Cons c r)
    with assms(2) have "trim_space s = (''ic'' @ itoa n) @ CHR ''.'' # r" using assms(1) by simp
    then show ?thesis using split_on_append [OF nd, of r] by simp
  qed
  have n: "atoi (itoa n) = Some n" using assms(3,4) by (intro atoi_itoa) (auto simp: min_int64_def)
  have "itoa n \<noteq> ''1''" and "itoa n \<noteq> ''2''"
    using n \<open>2 < n\<close> by (auto simp: atoi_def digits_value_def byte_def Let_def split: if_splits)
  with n \<open>2 < n\<close> have "check_prefix (''ic'' @ itoa n) = Some (ErrNewerApp (''ic'' @ itoa n))"
    by (simp add: check_prefix_def invite_prefix_def cut_prefix_def has_prefix_def)
  then show ?thesis by (simp add: decode_invite_def hd Let_def)
qed

theorem newer_invite_reported_witness: "decode_invite ''ic3'' = Inl (ErrNewerApp ''ic3'')"
proof -
  have i: "itoa 3 = ''3''" by code_simp
  have "trim_space ''ic3'' = ''ic'' @ itoa 3 @ []"
    unfolding i by (subst trim_space_graphic) (simp_all add: byte_def)
  from newer_invite_reported [OF this] show ?thesis by (simp add: max_int64_def i)
qed

end
