(* ===== verification/Key_Store.thy ===== *)
theory Key_Store
  imports Keys Invite
begin

text \<open>
  The file store of friend keys (internal/keys/store.go). Its state is the in-memory snapshot with the
  change detector of keys.json; the file itself is a \<open>disk\<close> value, so an edit by another process is a
  change of that value between two operations. One operation reads the clock once. Decoding keys.json
  may leave a \<open>nil\<close> entry (a JSON \<open>null\<close>), so an entry is a \<open>key option\<close> and the scans
  that dereference it yield \<open>NilKey\<close>, the run-time panic.
\<close>

datatype store_error =
    StatErr | ReadErr | ParseErr | VersionErr int | NotFound string | Ambiguous string bool nat
  | BadStatus status | NeedName | RandErr | NoFreeId | WriteErr | NilKey

record stamp =
  st_mod :: gotime
  st_size :: int

definition zero_stamp :: stamp where "zero_stamp = \<lparr>st_mod = 0, st_size = 0\<rparr>"

record file_doc =
  fd_version :: int
  fd_keys :: "key option list"

datatype file_body = Unreadable | Malformed | Doc file_doc
datatype disk = Missing | StatFails | File stamp file_body

definition file_version :: int where "file_version = 1"

text \<open>\<open>fs_changes\<close> is the notification channel: absent, or whether a notification is pending.\<close>

record file_store =
  fs_keys :: "key option list"
  fs_st :: stamp
  fs_loaded :: bool
  fs_last_check :: gotime
  fs_changes :: "bool option"

definition default_key_limits :: "key \<Rightarrow> key" where
  "default_key_limits k = k\<lparr>k_limits := audio_defaults (k_limits k)\<rparr>"

definition reload :: "bool \<Rightarrow> gotime \<Rightarrow> disk \<Rightarrow> file_store \<Rightarrow> store_error option \<times> file_store" where
  "reload force now d s =
     (if \<not> force \<and> fs_loaded s \<and> time_sub now (fs_last_check s) < second then (None, s)
      else (let s = s\<lparr>fs_last_check := now\<rparr> in
        case d of
          Missing \<Rightarrow> (None, s\<lparr>fs_keys := [], fs_st := zero_stamp, fs_loaded := True\<rparr>)
        | StatFails \<Rightarrow> (Some StatErr, s)
        | File cur body \<Rightarrow>
            if fs_loaded s \<and> cur = fs_st s then (None, s)
            else (case body of
                Unreadable \<Rightarrow> (Some ReadErr, s)
              | Malformed \<Rightarrow> (Some ParseErr, s)
              | Doc doc \<Rightarrow>
                  if fd_version doc \<noteq> file_version then (Some (VersionErr (fd_version doc)), s)
                  else (None, s\<lparr>fs_keys := map (map_option default_key_limits) (fd_keys doc),
                                fs_st := cur, fs_loaded := True\<rparr>))))"

definition empty_store :: file_store where
  "empty_store = \<lparr>fs_keys = [], fs_st = zero_stamp, fs_loaded = False, fs_last_check = 0, fs_changes = None\<rparr>"

definition new_file_store :: "gotime \<Rightarrow> disk \<Rightarrow> store_error option \<times> file_store" where
  "new_file_store now d = reload True now d empty_store"

definition store_changes :: "file_store \<Rightarrow> file_store" where
  "store_changes s = (case fs_changes s of None \<Rightarrow> s\<lparr>fs_changes := Some False\<rparr> | Some _ \<Rightarrow> s)"

definition store_reload :: "gotime \<Rightarrow> disk \<Rightarrow> file_store \<Rightarrow> store_error option \<times> file_store" where
  "store_reload now d s = reload True now d s"

section \<open>Lookup\<close>

text \<open>The scan visits every key; the last one that matches wins.\<close>

fun match_from :: "key option \<Rightarrow> string \<Rightarrow> key option list \<Rightarrow> store_error + key option" where
  "match_from found want [] = Inr found"
| "match_from found want (None # ks) = Inl NilKey"
| "match_from found want (Some k # ks) =
     match_from (if k_secret_hash k = want then Some k else found) want ks"

definition store_match :: "string \<Rightarrow> file_store \<Rightarrow> store_error + key option" where
  "store_match want s = match_from None want (fs_keys s)"

text \<open>
  \<open>Lookup\<close>: a miss re-reads the file past the throttle. The clock and the disk of the second look are
  arguments of their own, because the file may change in between.
\<close>

definition store_lookup ::
    "(string \<Rightarrow> string) \<Rightarrow> gotime \<times> disk \<Rightarrow> gotime \<times> disk \<Rightarrow> file_store \<Rightarrow> string
     \<Rightarrow> (store_error + key option) \<times> file_store" where
  "store_lookup sha look1 look2 s secret =
     (case reload False (fst look1) (snd look1) s of
        (Some e, s) \<Rightarrow> (Inl e, s)
      | (None, s) \<Rightarrow>
          (let want = hash_secret sha secret in
           case store_match want s of
             Inl e \<Rightarrow> (Inl e, s)
           | Inr (Some k) \<Rightarrow> (Inr (Some k), s)
           | Inr None \<Rightarrow>
               (case reload True (fst look2) (snd look2) s of
                  (Some e, s) \<Rightarrow> (Inl e, s)
                | (None, s) \<Rightarrow> (store_match want s, s))))"

section \<open>Listing and finding\<close>

fun all_keys :: "key option list \<Rightarrow> store_error + key list" where
  "all_keys [] = Inr []"
| "all_keys (None # ks) = Inl NilKey"
| "all_keys (Some k # ks) = (case all_keys ks of Inl e \<Rightarrow> Inl e | Inr r \<Rightarrow> Inr (k # r))"

definition store_list :: "gotime \<Rightarrow> disk \<Rightarrow> file_store \<Rightarrow> (store_error + key list) \<times> file_store" where
  "store_list now d s =
     (case reload False now d s of
        (Some e, s) \<Rightarrow> (Inl e, s)
      | (None, s) \<Rightarrow>
          (case all_keys (fs_keys s) of Inl e \<Rightarrow> (Inl e, s) | Inr ks \<Rightarrow> (Inr (sort_key k_created_at ks), s)))"

fun find_id :: "string \<Rightarrow> nat \<Rightarrow> key option list \<Rightarrow> store_error + nat option" where
  "find_id ref i [] = Inr None"
| "find_id ref i (None # ks) = Inl NilKey"
| "find_id ref i (Some k # ks) = (if k_id k = ref then Inr (Some i) else find_id ref (Suc i) ks)"

text \<open>The second loop: the last position and the count of the keys with this name, live and all.\<close>

record name_scan =
  ns_live :: nat
  ns_all :: nat
  ns_n_live :: nat
  ns_n_all :: nat

fun scan_names :: "string \<Rightarrow> nat \<Rightarrow> name_scan \<Rightarrow> key option list \<Rightarrow> name_scan" where
  "scan_names ref i n [] = n"
| "scan_names ref i n (None # ks) = scan_names ref (Suc i) n ks"
| "scan_names ref i n (Some k # ks) =
     scan_names ref (Suc i)
       (if k_name k \<noteq> ref then n
        else (let n = n\<lparr>ns_all := i, ns_n_all := ns_n_all n + 1\<rparr> in
              if k_status k \<noteq> Revoked then n\<lparr>ns_live := i, ns_n_live := ns_n_live n + 1\<rparr> else n)) ks"

definition store_index :: "string \<Rightarrow> key option list \<Rightarrow> store_error + nat" where
  "store_index ref ks =
     (case find_id ref 0 ks of
        Inl e \<Rightarrow> Inl e
      | Inr (Some i) \<Rightarrow> Inr i
      | Inr None \<Rightarrow>
          (let n = scan_names ref 0 \<lparr>ns_live = 0, ns_all = 0, ns_n_live = 0, ns_n_all = 0\<rparr> ks in
           if ns_n_live n = 1 then Inr (ns_live n)
           else if ns_n_live n > 1 then Inl (Ambiguous ref True (ns_n_live n))
           else if ns_n_all n = 1 then Inr (ns_all n)
           else if ns_n_all n > 1 then Inl (Ambiguous ref False (ns_n_all n))
           else Inl (NotFound ref)))"

definition store_find :: "gotime \<Rightarrow> disk \<Rightarrow> file_store \<Rightarrow> string \<Rightarrow> (store_error + key) \<times> file_store" where
  "store_find now d s ref =
     (case reload False now d s of
        (Some e, s) \<Rightarrow> (Inl e, s)
      | (None, s) \<Rightarrow>
          (case store_index ref (fs_keys s) of
             Inl e \<Rightarrow> (Inl e, s)
           | Inr i \<Rightarrow> (case fs_keys s ! i of Some k \<Rightarrow> (Inr k, s) | None \<Rightarrow> (Inl NilKey, s))))"

section \<open>Saving\<close>

text \<open>
  What the file system does with one save: refuse it, or write the file (atomically, by rename) with a
  new stamp, which the \<open>Stat\<close> that follows may fail to read back.
\<close>

datatype save_effect = SaveFails | SaveOk stamp bool

definition save :: "gotime \<Rightarrow> save_effect \<Rightarrow> file_store \<Rightarrow> disk \<Rightarrow> store_error option \<times> file_store \<times> disk" where
  "save now fx s d =
     (case fx of
        SaveFails \<Rightarrow> (Some WriteErr, s, d)
      | SaveOk st readable \<Rightarrow>
          (let s = (if readable then s\<lparr>fs_st := st\<rparr> else s);
               s = s\<lparr>fs_last_check := now, fs_loaded := True\<rparr>;
               s = (case fs_changes s of Some _ \<Rightarrow> s\<lparr>fs_changes := Some True\<rparr> | None \<Rightarrow> s)
           in (None, s, File st (Doc \<lparr>fd_version = file_version, fd_keys = fs_keys s\<rparr>))))"

text \<open>\<open>newID\<close>: up to 100 draws of three random bytes; \<open>None\<close> (or no draw left) is a failing source.\<close>

fun new_id :: "nat \<Rightarrow> key option list \<Rightarrow> string option list \<Rightarrow> store_error + string" where
  "new_id 0 ks draws = Inl NoFreeId"
| "new_id (Suc tries) ks [] = Inl RandErr"
| "new_id (Suc tries) ks (None # draws) = Inl RandErr"
| "new_id (Suc tries) ks (Some b # draws) =
     (let kid = ''k_'' @ hex_encode b in
      case store_index kid ks of
        Inl (NotFound _) \<Rightarrow> Inr kid
      | Inl NilKey \<Rightarrow> Inl NilKey
      | _ \<Rightarrow> new_id tries ks draws)"

definition store_add ::
    "(string \<Rightarrow> string) \<Rightarrow> gotime \<Rightarrow> string option \<Rightarrow> string option list \<Rightarrow> save_effect
     \<Rightarrow> string \<Rightarrow> limits \<Rightarrow> bool \<Rightarrow> file_store \<Rightarrow> disk
     \<Rightarrow> (store_error + key \<times> string) \<times> file_store \<times> disk" where
  "store_add sha now rnd draws fx name l agent s d =
     (let name = trim_space name in
      if name = [] then (Inl NeedName, s, d)
      else case reload True now d s of
        (Some e, s) \<Rightarrow> (Inl e, s, d)
      | (None, s) \<Rightarrow>
          (case new_secret rnd of
             None \<Rightarrow> (Inl RandErr, s, d)
           | Some secret \<Rightarrow>
               (case new_id 100 (fs_keys s) draws of
                  Inl e \<Rightarrow> (Inl e, s, d)
                | Inr kid \<Rightarrow>
                    (let k = \<lparr>k_agent = agent, k_id = kid, k_name = name, k_secret_hash = hash_secret sha secret,
                              k_status = Active, k_created_at = now - now mod second,
                              k_limits = with_defaults l\<rparr>;
                         prev = fs_keys s;
                         s = s\<lparr>fs_keys := fs_keys s @ [Some k]\<rparr>
                     in case save now fx s d of
                          (Some e, s, d) \<Rightarrow> (Inl e, s\<lparr>fs_keys := prev\<rparr>, d)
                        | (None, s, d) \<Rightarrow> (Inr (k, secret), s, d)))))"

definition mutate ::
    "gotime \<Rightarrow> save_effect \<Rightarrow> string \<Rightarrow> (key \<Rightarrow> key) \<Rightarrow> file_store \<Rightarrow> disk
     \<Rightarrow> store_error option \<times> file_store \<times> disk" where
  "mutate now fx ref f s d =
     (case reload True now d s of
        (Some e, s) \<Rightarrow> (Some e, s, d)
      | (None, s) \<Rightarrow>
          (case store_index ref (fs_keys s) of
             Inl e \<Rightarrow> (Some e, s, d)
           | Inr i \<Rightarrow>
               (case fs_keys s ! i of
                  None \<Rightarrow> (Some NilKey, s, d)
                | Some before \<Rightarrow>
                    (let s = s\<lparr>fs_keys := (fs_keys s)[i := Some (f before)]\<rparr> in
                     case save now fx s d of
                       (Some e, s, d) \<Rightarrow> (Some e, s\<lparr>fs_keys := (fs_keys s)[i := Some before]\<rparr>, d)
                     | (None, s, d) \<Rightarrow> (None, s, d)))))"

definition set_status ::
    "gotime \<Rightarrow> save_effect \<Rightarrow> string \<Rightarrow> status \<Rightarrow> file_store \<Rightarrow> disk \<Rightarrow> store_error option \<times> file_store \<times> disk" where
  "set_status now fx ref st s d =
     (case st of
        OtherStatus _ \<Rightarrow> (Some (BadStatus st), s, d)
      | _ \<Rightarrow> mutate now fx ref (\<lambda>k. k\<lparr>k_status := st\<rparr>) s d)"

definition rotate ::
    "(string \<Rightarrow> string) \<Rightarrow> gotime \<Rightarrow> string option \<Rightarrow> save_effect \<Rightarrow> string \<Rightarrow> file_store \<Rightarrow> disk
     \<Rightarrow> (store_error + string) \<times> file_store \<times> disk" where
  "rotate sha now rnd fx ref s d =
     (case new_secret rnd of
        None \<Rightarrow> (Inl RandErr, s, d)
      | Some secret \<Rightarrow>
          (case mutate now fx ref (\<lambda>k. k\<lparr>k_secret_hash := hash_secret sha secret\<rparr>) s d of
             (Some e, s, d) \<Rightarrow> (Inl e, s, d)
           | (None, s, d) \<Rightarrow> (Inr secret, s, d)))"

definition set_limits_and_agent ::
    "gotime \<Rightarrow> save_effect \<Rightarrow> string \<Rightarrow> limits \<Rightarrow> bool option \<Rightarrow> file_store \<Rightarrow> disk
     \<Rightarrow> store_error option \<times> file_store \<times> disk" where
  "set_limits_and_agent now fx ref l agent s d =
     mutate now fx ref
       (\<lambda>k. let k = k\<lparr>k_limits := image_defaults l\<rparr> in
            case agent of Some a \<Rightarrow> k\<lparr>k_agent := a\<rparr> | None \<Rightarrow> k) s d"

definition set_limits ::
    "gotime \<Rightarrow> save_effect \<Rightarrow> string \<Rightarrow> limits \<Rightarrow> file_store \<Rightarrow> disk \<Rightarrow> store_error option \<times> file_store \<times> disk" where
  "set_limits now fx ref l s d = set_limits_and_agent now fx ref l None s d"

section \<open>The store as an authenticator: interface and interpretation\<close>

text \<open>
  What the gateway relies on when it resolves a presented secret: a key found is one the store holds and
  its stored hash is the digest of the secret; a miss means that no held key has that hash.
\<close>

locale secret_store =
  fixes lookup :: "'s \<Rightarrow> string \<Rightarrow> ('e + key option) \<times> 's"
    and digest :: "string \<Rightarrow> string"
    and held :: "'s \<Rightarrow> key set"
  assumes lookup_sound: "lookup s x = (Inr (Some k), s') \<Longrightarrow> k \<in> held s' \<and> k_secret_hash k = digest x"
    and lookup_miss: "lookup s x = (Inr None, s') \<Longrightarrow> k \<in> held s' \<Longrightarrow> k_secret_hash k \<noteq> digest x"
begin

lemma found_iff:
  assumes "lookup s x = (Inr r, s')"
  shows "r \<noteq> None \<longleftrightarrow> (\<exists>k \<in> held s'. k_secret_hash k = digest x)"
  using assms lookup_sound lookup_miss by (cases r) blast+

lemma same_key_same_digest:
  assumes "lookup s x = (Inr (Some k), s1)" and "lookup t y = (Inr (Some k), t1)"
  shows "digest x = digest y"
  using assms lookup_sound by metis

end

lemma match_from_nil: "match_from f w ks = Inr r \<Longrightarrow> None \<notin> set ks"
  by (induction f w ks rule: match_from.induct) simp_all

lemma match_from_some:
  "match_from f w ks = Inr (Some k) \<Longrightarrow> Some k \<in> set ks \<and> k_secret_hash k = w \<or> f = Some k"
proof (induction f w ks rule: match_from.induct)
  case (3 f w k' ks)
  then show ?case by (cases "k_secret_hash k' = w") auto
qed simp_all

lemma match_from_none:
  "match_from f w ks = Inr None \<Longrightarrow> f = None \<and> (\<forall>k. Some k \<in> set ks \<longrightarrow> k_secret_hash k \<noteq> w)"
proof (induction f w ks rule: match_from.induct)
  case (3 f w k' ks)
  then show ?case by (cases "k_secret_hash k' = w") auto
qed simp_all

lemma store_match_Some:
  "store_match w s = Inr (Some k) \<Longrightarrow> Some k \<in> set (fs_keys s) \<and> k_secret_hash k = w"
  unfolding store_match_def by (drule match_from_some) simp

lemma store_match_None:
  "store_match w s = Inr None \<Longrightarrow> Some k \<in> set (fs_keys s) \<Longrightarrow> k_secret_hash k \<noteq> w"
  unfolding store_match_def by (drule match_from_none) simp

lemma match_from_total: "None \<notin> set ks \<Longrightarrow> \<exists>r. match_from f w ks = Inr r"
  by (induction f w ks rule: match_from.induct) auto

lemma match_from_append:
  "None \<notin> set ks \<Longrightarrow> match_from f w (ks @ [Some k]) =
     (if k_secret_hash k = w then Inr (Some k) else match_from f w ks)"
  by (induction f w ks rule: match_from.induct) auto

text \<open>The result and the final store of a lookup belong together: one of two matches made it.\<close>

lemma store_lookup_cases:
  assumes "store_lookup sha look1 look2 s x = (Inr r, s')"
  shows "store_match (hash_secret sha x) s' = Inr r"
proof -
  obtain e1 s1 where r1: "reload False (fst look1) (snd look1) s = (e1, s1)" by fastforce
  obtain e2 s2 where r2: "reload True (fst look2) (snd look2) s1 = (e2, s2)" by fastforce
  show ?thesis
  proof (cases "store_match (hash_secret sha x) s1")
    case (Inl e)
    with assms r1 show ?thesis by (cases e1) (simp_all add: store_lookup_def Let_def)
  next
    case (Inr m)
    with assms r1 r2 show ?thesis
      by (cases e1; cases m; cases e2) (simp_all add: store_lookup_def Let_def)
  qed
qed

interpretation file_secrets: secret_store
  "store_lookup sha look1 look2" "hash_secret sha" "\<lambda>s. {k. Some k \<in> set (fs_keys s)}"
  for sha look1 look2
  by unfold_locales (auto dest!: store_lookup_cases dest: store_match_Some store_match_None)

section \<open>Lemmas on reload, save and the index\<close>

lemma default_key_limits_sel [simp]:
  "k_id (default_key_limits k) = k_id k" "k_name (default_key_limits k) = k_name k"
  "k_secret_hash (default_key_limits k) = k_secret_hash k"
  "k_status (default_key_limits k) = k_status k"
  "k_created_at (default_key_limits k) = k_created_at k" "k_agent (default_key_limits k) = k_agent k"
  "k_limits (default_key_limits k) = audio_defaults (k_limits k)"
  by (simp_all add: default_key_limits_def)

lemma audio_with_defaults [simp]: "audio_defaults (with_defaults l) = with_defaults l"
  by (rule limits_eqI) (auto simp: with_defaults_sel audio_defaults_sel image_defaults_sel)

text \<open>A reload of the file just written: the snapshot is kept, or read back with the defaults applied.\<close>

lemma reload_written:
  assumes "save now fx s d = (None, s', d')"
  shows "\<exists>s''. reload f n1 d' s' = (None, s'')
     \<and> (fs_keys s'' = fs_keys s \<or> fs_keys s'' = map (map_option default_key_limits) (fs_keys s))"
  using assms
  by (cases fx) (auto simp: save_def reload_def Let_def split: if_splits option.splits)

lemma save_None:
  assumes "save now fx s d = (None, s', d')"
  shows "fs_keys s' = fs_keys s \<and> (\<exists>st. d' = File st (Doc \<lparr>fd_version = file_version, fd_keys = fs_keys s\<rparr>))"
  using assms by (cases fx) (auto simp: save_def Let_def split: if_splits option.splits)

lemma save_Some:
  assumes "save now fx s d = (Some e, s', d')"
  shows "fx = SaveFails \<and> e = WriteErr \<and> s' = s \<and> d' = d"
  using assms by (cases fx) (auto simp: save_def Let_def split: if_splits option.splits)

lemma find_id_none: "find_id ref i ks = Inr None \<Longrightarrow> None \<notin> set ks \<and> (\<forall>k. Some k \<in> set ks \<longrightarrow> k_id k \<noteq> ref)"
  by (induction ref i ks rule: find_id.induct) (auto split: if_splits)

lemma find_id_nil: "find_id ref i ks = Inl NilKey \<Longrightarrow> None \<in> set ks"
  by (induction ref i ks rule: find_id.induct) (auto split: if_splits)

lemma find_id_some:
  "find_id ref i ks = Inr (Some j) \<Longrightarrow> \<exists>m k. j = i + m \<and> m < length ks \<and> ks ! m = Some k \<and> k_id k = ref"
proof (induction ref i ks rule: find_id.induct)
  case (3 ref i k ks)
  show ?case
  proof (cases "k_id k = ref")
    case True
    with 3 show ?thesis by (intro exI [of _ 0]) auto
  next
    case False
    with 3 obtain m k' where "j = Suc i + m" "m < length ks" "ks ! m = Some k'" "k_id k' = ref" by auto
    then show ?thesis by (intro exI [of _ "Suc m"]) auto
  qed
qed auto

lemma find_id_Inl: "find_id ref i ks = Inl e \<Longrightarrow> e = NilKey"
  by (induction ref i ks rule: find_id.induct) (auto split: if_splits)

lemma store_index_NotFound:
  assumes "store_index ref ks = Inl (NotFound r)"
  shows "find_id ref 0 ks = Inr None"
proof (cases "find_id ref 0 ks")
  case (Inl e)
  with assms find_id_Inl [OF Inl] show ?thesis by (simp add: store_index_def)
next
  case (Inr m)
  with assms show ?thesis by (cases m) (simp_all add: store_index_def)
qed

lemma find_id_absent:
  "None \<notin> set ks \<Longrightarrow> (\<And>k. Some k \<in> set ks \<Longrightarrow> k_id k \<noteq> ref) \<Longrightarrow> find_id ref i ks = Inr None"
  by (induction ref i ks rule: find_id.induct) auto

lemma new_id_step:
  "new_id (Suc n) ks (Some b # draws) = Inr i \<Longrightarrow>
     i = ''k_'' @ hex_encode b \<and> (\<exists>r. store_index i ks = Inl (NotFound r)) \<or> new_id n ks draws = Inr i"
  by (simp add: Let_def split: sum.splits store_error.splits; blast)

lemma new_id_not_found: "new_id n ks draws = Inr i \<Longrightarrow> \<exists>r. store_index i ks = Inl (NotFound r)"
proof (induction n arbitrary: draws)
  case (Suc n)
  then obtain b rest where d: "draws = Some b # rest"
    by (cases draws; cases "hd draws") auto
  show ?case using new_id_step [OF Suc.prems [unfolded d]] Suc.IH by blast
qed simp

lemma new_id_fresh:
  assumes "new_id n ks draws = Inr i"
  shows "None \<notin> set ks \<and> (\<forall>k. Some k \<in> set ks \<longrightarrow> k_id k \<noteq> i)"
proof -
  obtain r where "store_index i ks = Inl (NotFound r)" using new_id_not_found [OF assms] by blast
  then show ?thesis by (rule find_id_none [OF store_index_NotFound])
qed

section \<open>What a reference resolves to\<close>

definition positions :: "(key \<Rightarrow> bool) \<Rightarrow> nat \<Rightarrow> key option list \<Rightarrow> nat list" where
  "positions P i ks = map fst (filter (\<lambda>(_, x). case x of Some k \<Rightarrow> P k | None \<Rightarrow> False) (enumerate i ks))"

lemma positions_simps [simp]:
  "positions P i [] = []"
  "positions P i (None # ks) = positions P (Suc i) ks"
  "positions P i (Some k # ks) = (if P k then i # positions P (Suc i) ks else positions P (Suc i) ks)"
  by (simp_all add: positions_def)

lemma scan_names_eq:
  "scan_names ref i n ks =
     \<lparr>ns_live = last (ns_live n # positions (\<lambda>k. k_name k = ref \<and> k_status k \<noteq> Revoked) i ks),
      ns_all = last (ns_all n # positions (\<lambda>k. k_name k = ref) i ks),
      ns_n_live = ns_n_live n + length (positions (\<lambda>k. k_name k = ref \<and> k_status k \<noteq> Revoked) i ks),
      ns_n_all = ns_n_all n + length (positions (\<lambda>k. k_name k = ref) i ks)\<rparr>"
  by (induction ref i n ks rule: scan_names.induct) (simp_all add: Let_def)

lemma distinct_set_single: "distinct xs \<Longrightarrow> xs = [i] \<longleftrightarrow> set xs = {i}"
  by (cases xs; cases "tl xs") auto

lemma set_positions: "set (positions P 0 ks) = {j. j < length ks \<and> (\<exists>k. ks ! j = Some k \<and> P k)}"
  by (auto simp: positions_def in_set_enumerate_eq image_iff split: option.splits)

lemma distinct_positions: "distinct (positions P i ks)"
  unfolding positions_def by (rule distinct_map_filter) simp

lemmas positions_single = distinct_set_single [OF distinct_positions, of P 0 ks i for P ks i, unfolded set_positions]

lemma positions_bound: "length (positions P 0 ks) = 1 \<Longrightarrow> last (n # positions P 0 ks) < length ks"
  using set_positions [of P ks] by (cases "positions P 0 ks") auto

lemma store_index_bound:
  assumes "store_index ref ks = Inr i"
  shows "i < length ks"
proof (cases "find_id ref 0 ks")
  case (Inl e)
  with assms show ?thesis by (simp add: store_index_def)
next
  case (Inr r)
  with assms positions_bound find_id_some show ?thesis
    by (cases r) (force simp: store_index_def scan_names_eq Let_def split: if_splits)+
qed

lemma find_id_first:
  "find_id ref i ks = Inr (Some j) \<Longrightarrow> \<forall>m. i + m < j \<longrightarrow> (\<exists>k. ks ! m = Some k \<and> k_id k \<noteq> ref)"
proof (induction ref i ks rule: find_id.induct)
  case (3 ref i k ks)
  show ?case
  proof (intro allI impI)
    fix m assume m: "i + m < j"
    with 3 have ne: "k_id k \<noteq> ref" by (auto split: if_splits)
    with 3 m show "\<exists>k'. (Some k # ks) ! m = Some k' \<and> k_id k' \<noteq> ref" by (cases m) auto
  qed
qed simp_all

text \<open>
  Resolving a reference. With no null entry in the file, an id wins over any name; otherwise the
  reference is the name of the one key that is not revoked, however many revoked keys share the name;
  otherwise of the one revoked key that has it. Every other reference is refused, as ambiguous or as not
  found.
\<close>

theorem store_index_resolves:
  assumes "None \<notin> set ks"
  shows "store_index ref ks = Inr i \<longleftrightarrow>
    (i < length ks \<and> (\<exists>k. ks ! i = Some k \<and> k_id k = ref) \<and> (\<forall>j < i. \<exists>k. ks ! j = Some k \<and> k_id k \<noteq> ref))
    \<or> ((\<forall>k. Some k \<in> set ks \<longrightarrow> k_id k \<noteq> ref)
       \<and> (let named = {j. j < length ks \<and> (\<exists>k. ks ! j = Some k \<and> k_name k = ref)};
              live = {j. j < length ks \<and> (\<exists>k. ks ! j = Some k \<and> k_name k = ref \<and> k_status k \<noteq> Revoked)}
          in live = {i} \<or> live = {} \<and> named = {i}))"
    (is "_ \<longleftrightarrow> ?by_id \<or> ?no_id \<and> ?by_name")
proof (cases "find_id ref 0 ks")
  case (Inl e)
  with assms show ?thesis using find_id_Inl [OF Inl] find_id_nil by blast
next
  case (Inr r)
  show ?thesis
  proof (cases r)
    case None
    let ?L = "positions (\<lambda>k. k_name k = ref \<and> k_status k \<noteq> Revoked) 0 ks"
    let ?A = "positions (\<lambda>k. k_name k = ref) 0 ks"
    have no: ?no_id using find_id_none Inr None by blast
    then have nby: "\<not> ?by_id" by (auto simp: in_set_conv_nth)
    have "store_index ref ks = Inr i \<longleftrightarrow> ?L = [i] \<or> ?L = [] \<and> ?A = [i]"
      using Inr None
      by (cases ?L; cases "tl ?L"; cases ?A; cases "tl ?A") (auto simp: store_index_def scan_names_eq)
    moreover have "?L = [] \<longleftrightarrow> set ?L = {}" by simp
    ultimately show ?thesis using no nby unfolding Let_def positions_single set_positions by blast
  next
    case (Some j)
    with Inr have j: "store_index ref ks = Inr j" by (simp add: store_index_def)
    from find_id_some [OF Inr [unfolded Some]] obtain k where
      k: "j < length ks" "ks ! j = Some k" "k_id k = ref" by auto
    then have nid: "\<not> ?no_id" by (metis nth_mem)
    have "\<forall>m < j. \<exists>k. ks ! m = Some k \<and> k_id k \<noteq> ref" using find_id_first [OF Inr [unfolded Some]] by simp
    with k have "?by_id \<longleftrightarrow> i = j" by (metis linorder_neqE_nat option.inject)
    with j nid show ?thesis by auto
  qed
qed

text \<open>Concrete keys for the witnesses.\<close>

definition sample_key :: "string \<Rightarrow> string \<Rightarrow> string \<Rightarrow> status \<Rightarrow> key" where
  "sample_key i n h st = \<lparr>k_agent = False, k_id = i, k_name = n, k_secret_hash = h, k_status = st,
     k_created_at = 0, k_limits = with_defaults default_limits\<rparr>"

theorem store_index_resolves_witness:
  "store_index ''bob'' [Some (sample_key ''k_1'' ''bob'' ''h1'' Revoked), Some (sample_key ''k_2'' ''bob'' ''h2'' Paused)] = Inr 1"
  by (subst store_index_resolves) (auto simp: sample_key_def less_Suc_eq nth_Cons' Let_def numeral_eq_Suc)

section \<open>A minted key is usable at once\<close>

lemma lookup_in_memory:
  assumes "reload False (fst look1) (snd look1) s = (None, s1)"
    and "store_match (hash_secret sha x) s1 = Inr (Some k)"
  shows "store_lookup sha look1 look2 s x = (Inr (Some k), s1)"
  using assms by (simp add: store_lookup_def Let_def)

lemma add_result:
  assumes "store_add sha now rnd draws fx name l agent s d = (Inr (k, secret), s', d')"
  obtains s1 s2 where "reload True now d s = (None, s1)" and "new_secret rnd = Some secret"
    and "new_id 100 (fs_keys s1) draws = Inr (k_id k)" and "k_secret_hash k = hash_secret sha secret"
    and "k_status k = Active" and "k_name k = trim_space name" and "k_limits k = with_defaults l" and "k_agent k = agent"
    and "fs_keys s2 = fs_keys s1 @ [Some k]" and "save now fx s2 d = (None, s', d')"
proof -
  obtain e s1 where r: "reload True now d s = (e, s1)" by fastforce
  have e: "e = None" using assms r by (cases e) (auto simp: store_add_def Let_def split: if_splits)
  obtain sec where sec: "new_secret rnd = Some sec"
    using assms r e by (cases "new_secret rnd") (auto simp: store_add_def Let_def split: if_splits)
  obtain kid where kid: "new_id 100 (fs_keys s1) draws = Inr kid"
    using assms r e sec by (cases "new_id 100 (fs_keys s1) draws") (auto simp: store_add_def Let_def split: if_splits)
  let ?k = "\<lparr>k_agent = agent, k_id = kid, k_name = trim_space name, k_secret_hash = hash_secret sha sec,
     k_status = Active, k_created_at = now - now mod second, k_limits = with_defaults l\<rparr>"
  let ?s2 = "s1\<lparr>fs_keys := fs_keys s1 @ [Some ?k]\<rparr>"
  obtain e2 t2 d2 where sv: "save now fx ?s2 d = (e2, t2, d2)" by (cases "save now fx ?s2 d") auto
  have "e2 = None" and "k = ?k" and "secret = sec" and "t2 = s'" and "d2 = d'"
    using assms r e sec kid sv by (cases e2; auto simp: store_add_def Let_def split: if_splits)+
  then show ?thesis using that [of s1 ?s2] r e sec kid sv by simp
qed

lemma default_key_limits_minted:
  "k_limits k = with_defaults l \<Longrightarrow> default_key_limits k = k"
  by (simp add: default_key_limits_def)

text \<open>
  Minting. After \<open>Add\<close> succeeds, the secret it returned resolves to the key it returned, whenever the
  file is next read and whatever the throttle does; the key is active, has every default applied, and its id
  was not in the store.
\<close>

theorem add_then_lookup:
  assumes "store_add sha now rnd draws fx name l agent s d = (Inr (k, secret), s', d')"
  shows "(\<exists>s''. store_lookup sha (n1, d') look2 s' secret = (Inr (Some k), s''))
    \<and> k_status k = Active \<and> k_limits k = with_defaults l \<and> k_name k = trim_space name
      \<and> (\<forall>o'. Some o' \<in> set (fs_keys (snd (reload True now d s))) \<longrightarrow> k_id o' \<noteq> k_id k)"
proof -
  from assms obtain s1 s2 where
    r: "reload True now d s = (None, s1)" and kid: "new_id 100 (fs_keys s1) draws = Inr (k_id k)"
    and h: "k_secret_hash k = hash_secret sha secret"
    and sel: "k_status k = Active" "k_name k = trim_space name" "k_limits k = with_defaults l"
    and ks: "fs_keys s2 = fs_keys s1 @ [Some k]" and sv: "save now fx s2 d = (None, s', d')"
    by (rule add_result)
  note fresh = new_id_fresh [OF kid]
  have facts: "k_status k = Active \<and> k_limits k = with_defaults l \<and> k_name k = trim_space name
      \<and> (\<forall>o'. Some o' \<in> set (fs_keys (snd (reload True now d s))) \<longrightarrow> k_id o' \<noteq> k_id k)"
    using sel fresh r by simp
  from save_None [OF sv] ks have ks': "fs_keys s' = fs_keys s1 @ [Some k]" by simp
  from reload_written [OF sv, of False n1] obtain s'' where
    r2: "reload False n1 d' s' = (None, s'')"
    and k2: "fs_keys s'' = fs_keys s' \<or> fs_keys s'' = map (map_option default_key_limits) (fs_keys s')"
    using save_None [OF sv] ks by auto
  have "\<exists>xs. None \<notin> set xs \<and> fs_keys s'' = xs @ [Some k]"
    using k2 ks' fresh default_key_limits_minted [OF sel(3)] by (auto simp: image_iff)
  then have "store_match (hash_secret sha secret) s'' = Inr (Some k)"
    using h by (auto simp: store_match_def match_from_append)
  then have "\<exists>s''. store_lookup sha (n1, d') look2 s' secret = (Inr (Some k), s'')"
    using lookup_in_memory [of "(n1, d')" s' s''] r2 by auto
  with facts show ?thesis by blast
qed

text \<open>A store over a missing file, a toy digest and 32 zero bytes, for the witnesses.\<close>

definition sample_sha :: "string \<Rightarrow> string" where "sample_sha x = take 2 (rev x)"

definition sample_disk :: "key list \<Rightarrow> disk" where
  "sample_disk ks = File \<lparr>st_mod = 5, st_size = 9\<rparr> (Doc \<lparr>fd_version = 1, fd_keys = map Some ks\<rparr>)"

lemmas store_eval = store_add_def reload_def save_def empty_store_def new_secret_def sample_key_def sample_disk_def
  sample_sha_def store_index_def mutate_def rotate_def set_limits_and_agent_def file_version_def Let_def

lemma trim_single:
  assumes "33 \<le> byte c" "byte c < 128"
  shows "trim_space [c] = [c]"
proof -
  have a: "\<not> has_prefix w [c]" if "w \<in> set space_runes" for w
    using that assms by (auto simp: space_runes_def has_prefix_def byte_def)
  have b: "\<not> has_prefix w [c]" if "w \<in> set (map rev space_runes)" for w
    using that assms by (auto simp: space_runes_def has_prefix_def byte_def)
  show ?thesis unfolding trim_space_def
    using strip_left_id [of space_runes, OF a] strip_left_id [of "map rev space_runes", OF b] by simp
qed

theorem add_then_lookup_witness:
  "\<exists>k secret s' d'.
     store_add sample_sha 7 (Some ''ab'') [Some ''xyz''] (SaveOk zero_stamp True) ''b'' default_limits False empty_store Missing
       = (Inr (k, secret), s', d')
     \<and> (\<exists>s''. store_lookup sample_sha (8, d') (9, Missing) s' secret = (Inr (Some k), s''))"
proof -
  obtain k secret s' d' where
    r: "store_add sample_sha 7 (Some ''ab'') [Some ''xyz''] (SaveOk zero_stamp True) ''b'' default_limits False empty_store Missing
       = (Inr (k, secret), s', d')"
    by (simp add: store_eval trim_single byte_def numeral_eq_Suc del: b64url.simps)
  show ?thesis using r add_then_lookup [OF r, of 8 "(9, Missing)"] by blast
qed

section \<open>A refused write changes nothing\<close>

text \<open>
  A change that ends in an error leaves the key file alone, and leaves the store as the reload that
  opened the operation left it: a refused write is rolled back.
\<close>

theorem mutate_refused:
  assumes "mutate now fx ref f s d = (Some e, s', d')"
  shows "d' = d \<and> s' = snd (reload True now d s)"
proof -
  obtain e1 s1 where r: "reload True now d s = (e1, s1)" by fastforce
  show ?thesis
  proof (cases "e1 = None \<and> (\<exists>i k. store_index ref (fs_keys s1) = Inr i \<and> fs_keys s1 ! i = Some k)")
    case True
    then obtain i k where ik: "e1 = None" "store_index ref (fs_keys s1) = Inr i" "fs_keys s1 ! i = Some k" by blast
    let ?s2 = "s1\<lparr>fs_keys := (fs_keys s1)[i := Some (f k)]\<rparr>"
    obtain e2 t2 d2 where sv: "save now fx ?s2 d = (e2, t2, d2)" by (cases "save now fx ?s2 d") auto
    have "e2 \<noteq> None" using assms r ik sv by (cases e2) (auto simp: mutate_def Let_def)
    then obtain e3 where e3: "e2 = Some e3" by blast
    have "t2 = ?s2" and "d2 = d" using save_Some [OF sv [unfolded e3]] by simp_all
    moreover have "s' = t2\<lparr>fs_keys := (fs_keys t2)[i := Some k]\<rparr>" and "d' = d2"
      using assms r ik sv e3 by (auto simp: mutate_def Let_def)
    ultimately show ?thesis using r ik(3) list_update_id [of "fs_keys s1" i] by simp
  next
    case False
    with assms r show ?thesis
      by (cases e1; cases "store_index ref (fs_keys s1)"; cases "fs_keys s1 ! projr (store_index ref (fs_keys s1))")
        (auto simp: mutate_def Let_def)
  qed
qed

theorem mutate_refused_witness:
  "mutate 9 SaveFails ''k_1'' (\<lambda>k. k\<lparr>k_status := Revoked\<rparr>) empty_store (sample_disk [sample_key ''k_1'' ''a'' ''h'' Active])
     = (Some WriteErr, snd (reload True 9 (sample_disk [sample_key ''k_1'' ''a'' ''h'' Active]) empty_store),
        sample_disk [sample_key ''k_1'' ''a'' ''h'' Active])"
proof -
  let ?d = "sample_disk [sample_key ''k_1'' ''a'' ''h'' Active]"
  obtain e s' d' where r: "mutate 9 SaveFails ''k_1'' (\<lambda>k. k\<lparr>k_status := Revoked\<rparr>) empty_store ?d = (e, s', d')"
    by (cases "mutate 9 SaveFails ''k_1'' (\<lambda>k. k\<lparr>k_status := Revoked\<rparr>) empty_store ?d") auto
  moreover from r have "e = Some WriteErr" by (simp add: store_eval default_key_limits_def)
  ultimately show ?thesis using mutate_refused by blast
qed

section \<open>Rotation and edits by another process\<close>

lemma match_from_unique:
  assumes "None \<notin> set ks" and "i < length ks" and "ks ! i = Some k" and "k_secret_hash k = w"
    and "\<And>j k'. j < length ks \<Longrightarrow> j \<noteq> i \<Longrightarrow> ks ! j = Some k' \<Longrightarrow> k_secret_hash k' \<noteq> w"
  shows "match_from f w ks = Inr (Some k)"
proof -
  obtain r where r: "match_from None w ks = Inr r" using match_from_total assms(1) by blast
  obtain r' where r': "match_from f w ks = Inr r'" using match_from_total assms(1) by blast
  have mem: "Some k \<in> set ks" using assms by (metis nth_mem)
  have uniq: "k' = k" if "Some k' \<in> set ks" "k_secret_hash k' = w" for k'
    using that assms(3,5) by (metis in_set_conv_nth option.inject)
  have "match_from g w ks = Inr (Some k)" if "\<And>k'. g = Some k' \<Longrightarrow> k_secret_hash k' = w \<and> False" for g
    using that match_from_total [OF assms(1), of g w] match_from_none [of g w ks] match_from_some [of g w ks]
      mem uniq assms(4) by (metis not_Some_eq)
  moreover have "match_from f w ks = match_from None w ks"
    using mem assms(1,4)
  proof (induction ks arbitrary: f)
    case (Cons x xs)
    then obtain y where y: "x = Some y" by (cases x) auto
    show ?case
    proof (cases "Some k \<in> set xs")
      case True
      with Cons y show ?thesis by (metis match_from.simps(3) list.set_intros(2))
    next
      case False
      with Cons y show ?thesis by auto
    qed
  qed simp
  ultimately show ?thesis by auto
qed

lemma mutate_result:
  assumes "mutate now fx ref f s d = (None, s', d')"
  obtains s1 s2 i k where "reload True now d s = (None, s1)" and "store_index ref (fs_keys s1) = Inr i"
    and "i < length (fs_keys s1)" and "fs_keys s1 ! i = Some k" and "fs_keys s2 = (fs_keys s1)[i := Some (f k)]"
    and "save now fx s2 d = (None, s', d')"
proof -
  obtain e s1 where r: "reload True now d s = (e, s1)" by fastforce
  have e: "e = None" using assms r by (cases e) (auto simp: mutate_def)
  obtain i where i: "store_index ref (fs_keys s1) = Inr i"
    using assms r e by (cases "store_index ref (fs_keys s1)") (auto simp: mutate_def)
  obtain k where k: "fs_keys s1 ! i = Some k"
    using assms r e i by (cases "fs_keys s1 ! i") (auto simp: mutate_def)
  let ?s2 = "s1\<lparr>fs_keys := (fs_keys s1)[i := Some (f k)]\<rparr>"
  obtain e2 t2 d2 where sv: "save now fx ?s2 d = (e2, t2, d2)" by (cases "save now fx ?s2 d") auto
  have res: "e2 = None" "t2 = s'" "d2 = d'" using assms r e i k sv by (cases e2; auto simp: mutate_def Let_def)+
  have "i < length (fs_keys s1)" using store_index_bound [OF i] .
  then show ?thesis using that [of s1 i k ?s2] r e i k sv res by simp
qed

text \<open>A store that agrees with a readable file, up to the defaults, still does after any reload.\<close>

definition in_step :: "key option list \<Rightarrow> disk \<Rightarrow> file_store \<Rightarrow> bool" where
  "in_step ks d s \<longleftrightarrow> (\<exists>st. d = File st (Doc \<lparr>fd_version = file_version, fd_keys = ks\<rparr>))
     \<and> (fs_keys s = ks \<or> fs_keys s = map (map_option default_key_limits) ks)"

lemma reload_in_step:
  assumes "in_step ks d s"
  obtains s' where "reload f n d s = (None, s')" and "in_step ks d s'"
proof -
  obtain st where d: "d = File st (Doc \<lparr>fd_version = file_version, fd_keys = ks\<rparr>)"
    and k: "fs_keys s = ks \<or> fs_keys s = map (map_option default_key_limits) ks"
    using assms unfolding in_step_def by blast
  have "fst (reload f n d s) = None"
    and "fs_keys (snd (reload f n d s)) \<in> {fs_keys s, map (map_option default_key_limits) ks}"
    by (simp_all add: reload_def d Let_def)
  then show ?thesis using that [of "snd (reload f n d s)"] d k by (cases "reload f n d s") (auto simp: in_step_def)
qed

lemma save_in_step:
  assumes "save now fx s d = (None, s', d')"
  shows "in_step (fs_keys s) d' s'"
  using save_None [OF assms] by (auto simp: in_step_def)

lemma in_step_match:
  assumes "in_step ks d s" and "None \<notin> set ks"
    and "i < length ks" and "ks ! i = Some k" and "k_secret_hash k = w"
    and other: "\<And>j k'. j < length ks \<Longrightarrow> j \<noteq> i \<Longrightarrow> ks ! j = Some k' \<Longrightarrow> k_secret_hash k' \<noteq> w"
  shows "store_match w s = Inr (Some k) \<or> store_match w s = Inr (Some (default_key_limits k))"
proof (cases "fs_keys s = ks")
  case True
  then show ?thesis using match_from_unique [OF assms(2-5) other] by (simp add: store_match_def)
next
  case False
  let ?ks = "map (map_option default_key_limits) ks"
  have ks: "fs_keys s = ?ks" using assms(1) False by (simp add: in_step_def)
  have "match_from None w ?ks = Inr (Some (default_key_limits k))"
    by (rule match_from_unique [of _ i]) (use assms in auto)
  then show ?thesis using ks by (simp add: store_match_def)
qed

lemma in_step_miss:
  assumes "in_step ks d s" and "None \<notin> set ks" and "\<And>k. Some k \<in> set ks \<Longrightarrow> k_secret_hash k \<noteq> w"
  shows "store_match w s = Inr None"
proof -
  have no: "k_secret_hash k \<noteq> w" if "Some k \<in> set (fs_keys s)" for k
  proof -
    have "\<exists>k'. Some k' \<in> set ks \<and> k_secret_hash k' = k_secret_hash k"
    proof (cases "fs_keys s = ks")
      case False
      then have "fs_keys s = map (map_option default_key_limits) ks" using assms(1) by (simp add: in_step_def)
      with that have "Some k \<in> map_option default_key_limits ` set ks" by (metis list.set_map)
      then obtain x where x: "x \<in> set ks" "map_option default_key_limits x = Some k" by (metis imageE)
      from x(2) obtain y where "x = Some y" "default_key_limits y = k" by auto
      with x(1) show ?thesis by (intro exI [of _ y]) auto
    qed (use that in auto)
    then show ?thesis using assms(3) by metis
  qed
  have "None \<notin> set (fs_keys s)" using assms(1,2) by (auto simp: in_step_def)
  then obtain r where r: "store_match w s = Inr r" using match_from_total by (fastforce simp: store_match_def)
  with no show ?thesis using store_match_Some [of w s] by (cases r) auto
qed

lemma lookup_miss_twice:
  assumes "reload False (fst look1) (snd look1) s = (None, s1)" and "store_match (hash_secret sha x) s1 = Inr None"
    and "reload True (fst look2) (snd look2) s1 = (None, s2)"
  shows "store_lookup sha look1 look2 s x = (store_match (hash_secret sha x) s2, s2)"
  using assms by (simp add: store_lookup_def Let_def)

text \<open>
  Rotation. Once \<open>Rotate\<close> has returned the new secret, and with no two held keys sharing a digest, the new
  secret resolves to the same key (its id, name and status kept), and the old secret resolves to nothing.
\<close>

theorem rotate_replaces_secret:
  assumes rot: "rotate sha now rnd fx ref s d = (Inr secret, s', d')"
    and ks: "ks = fs_keys (snd (reload True now d s))" and ref: "store_index ref ks = Inr i" "ks ! i = Some k"
    and clean: "None \<notin> set ks"
    and fresh: "\<forall>k'. Some k' \<in> set ks \<longrightarrow> k_secret_hash k' \<noteq> hash_secret sha secret"
    and old: "hash_secret sha old = k_secret_hash k"
    and own: "\<forall>j < length ks. j \<noteq> i \<longrightarrow> (\<forall>k'. ks ! j = Some k' \<longrightarrow> k_secret_hash k' \<noteq> k_secret_hash k)"
  shows "(\<exists>k' s''. store_lookup sha (n1, d') look2 s' secret = (Inr (Some k'), s'')
            \<and> k_id k' = k_id k \<and> k_name k' = k_name k \<and> k_status k' = k_status k)
    \<and> (\<exists>s''. store_lookup sha (n1, d') (n2, d') s' old = (Inr None, s''))"
proof -
  let ?h = "hash_secret sha secret" and ?k = "k\<lparr>k_secret_hash := hash_secret sha secret\<rparr>"
  obtain sec where sec: "new_secret rnd = Some sec" using rot by (cases "new_secret rnd") (auto simp: rotate_def)
  obtain e t1 t2 where m: "mutate now fx ref (\<lambda>k. k\<lparr>k_secret_hash := hash_secret sha sec\<rparr>) s d = (e, t1, t2)"
    by (cases "mutate now fx ref (\<lambda>k. k\<lparr>k_secret_hash := hash_secret sha sec\<rparr>) s d") auto
  have e: "e = None" "sec = secret" "t1 = s'" "t2 = d'" using rot sec m by (cases e; auto simp: rotate_def)+
  from m [unfolded e] obtain s1 s2 i' k1 where r: "reload True now d s = (None, s1)" "store_index ref (fs_keys s1) = Inr i'"
    "i' < length (fs_keys s1)" "fs_keys s1 ! i' = Some k1"
    "fs_keys s2 = (fs_keys s1)[i' := Some (k1\<lparr>k_secret_hash := ?h\<rparr>)]" and sv: "save now fx s2 d = (None, s', d')"
    by (rule mutate_result)
  then have s1: "fs_keys s1 = ks" "i' = i" "k1 = k" and i: "i < length ks" using ks ref by auto
  let ?ks = "ks[i := Some ?k]"
  have st: "in_step ?ks d' s'" using save_in_step [OF sv] r s1 by simp
  have clean': "None \<notin> set ?ks" using clean set_update_subset_insert [of ks i "Some ?k"] by auto
  have new: "k_secret_hash k' \<noteq> ?h" if "j < length ?ks" "j \<noteq> i" "?ks ! j = Some k'" for j k'
    using that fresh by (metis length_list_update nth_list_update_neq nth_mem)
  have "?h \<noteq> k_secret_hash k" using fresh ref i by (metis nth_mem)
  then have gone: "k_secret_hash k' \<noteq> hash_secret sha old" if "Some k' \<in> set ?ks" for k'
    using that own old i by (auto simp: in_set_conv_nth nth_list_update split: if_splits)
  obtain u1 where u1: "reload False n1 d' s' = (None, u1)" "in_step ?ks d' u1" using reload_in_step [OF st] .
  obtain u2 where u2: "reload True n2 d' u1 = (None, u2)" "in_step ?ks d' u2" using reload_in_step [OF u1(2)] .
  have "store_match ?h u1 = Inr (Some ?k) \<or> store_match ?h u1 = Inr (Some (default_key_limits ?k))"
    by (rule in_step_match [OF u1(2) clean', of i]) (use i new in auto)
  then have "\<exists>k'. store_match ?h u1 = Inr (Some k') \<and> k_id k' = k_id k \<and> k_name k' = k_name k \<and> k_status k' = k_status k"
    by auto
  moreover have "store_lookup sha (n1, d') look2 s' secret = (Inr (Some k'), u1)" if "store_match ?h u1 = Inr (Some k')" for k'
    using lookup_in_memory [of "(n1, d')" s' u1] u1 that by simp
  moreover have "store_lookup sha (n1, d') (n2, d') s' old = (Inr None, u2)"
    using lookup_miss_twice [of "(n1, d')" s' u1 sha old "(n2, d')" u2] u1 u2 in_step_miss [OF u1(2) clean' gone]
      in_step_miss [OF u2(2) clean' gone] by simp
  ultimately show ?thesis by blast
qed

theorem rotate_replaces_secret_witness:
  "\<exists>secret s' d'.
     rotate sample_sha 9 (Some ''ab'') (SaveOk zero_stamp True) ''k_1'' empty_store
        (sample_disk [sample_key ''k_1'' ''a'' (hash_secret sample_sha ''qq'') Paused]) = (Inr secret, s', d')
     \<and> (\<exists>k' s''. store_lookup sample_sha (12, d') (12, Missing) s' secret = (Inr (Some k'), s'') \<and> k_status k' = Paused)
     \<and> (\<exists>s''. store_lookup sample_sha (12, d') (13, d') s' ''qq'' = (Inr None, s''))"
proof -
  let ?k = "sample_key ''k_1'' ''a'' (hash_secret sample_sha ''qq'') Paused"
  let ?d = "sample_disk [?k]"
  have sec: "new_secret (Some ''ab'') = Some ''YWI''"
    by (simp add: new_secret_def byte_def b64_char_def) code_simp
  obtain s' d' where
    r: "rotate sample_sha 9 (Some ''ab'') (SaveOk zero_stamp True) ''k_1'' empty_store ?d = (Inr ''YWI'', s', d')"
    unfolding rotate_def sec by (simp add: store_eval default_key_limits_def)
  have ks: "fs_keys (snd (reload True 9 ?d empty_store)) = [Some (default_key_limits ?k)]"
    by (simp add: store_eval)
  have ix: "store_index ''k_1'' (fs_keys (snd (reload True 9 ?d empty_store))) = Inr 0"
    unfolding ks by (simp add: store_index_def sample_key_def)
  have hk: "k_secret_hash ?k = hash_secret sample_sha ''qq''" "k_status ?k = Paused" by (simp_all add: sample_key_def)
  have ne: "hash_secret sample_sha ''qq'' \<noteq> hash_secret sample_sha ''YWI''"
    by (simp add: hash_secret_def sample_sha_def hex_encode_def hex_digit_def byte_def)
  show ?thesis
    using r rotate_replaces_secret [OF r refl ix, of "default_key_limits ?k" "''qq''" 12 "(12, Missing)" 13] ks hk ne
    by auto
qed

text \<open>
  A key written by another process is never refused for the throttle: when no key in memory matches, the
  file is read past the once-per-second check, and a key it now holds resolves, with the defaults applied.
\<close>

theorem lookup_sees_new_key:
  assumes "store_match (hash_secret sha x) (snd (reload False n1 d1 s)) = Inr None"
    and "fst (reload False n1 d1 s) = None"
    and "d2 = File st (Doc \<lparr>fd_version = file_version, fd_keys = ks\<rparr>)" and "st \<noteq> fs_st (snd (reload False n1 d1 s))"
    and "None \<notin> set ks" and "i < length ks" and "ks ! i = Some k" and "k_secret_hash k = hash_secret sha x"
    and "\<forall>j < length ks. j \<noteq> i \<longrightarrow> (\<forall>k'. ks ! j = Some k' \<longrightarrow> k_secret_hash k' \<noteq> k_secret_hash k)"
  shows "\<exists>s'. store_lookup sha (n1, d1) (n2, d2) s x = (Inr (Some (default_key_limits k)), s')"
proof -
  obtain s1 where s1: "reload False n1 d1 s = (None, s1)" using assms(2) by (metis prod.collapse)
  obtain s2 where s2: "reload True n2 d2 s1 = (None, s2)" and ks2: "fs_keys s2 = map (map_option default_key_limits) ks"
    using assms(3,4) s1 by (auto simp: reload_def Let_def)
  have "store_match (hash_secret sha x) s2 = Inr (Some (default_key_limits k))"
    unfolding store_match_def ks2 by (rule match_from_unique [of _ i]) (use assms in auto)
  then show ?thesis
    using lookup_miss_twice [of "(n1, d1)" s s1 sha x "(n2, d2)" s2] s1 s2 assms(1) by simp
qed

theorem lookup_sees_new_key_witness:
  "\<exists>s'. store_lookup sample_sha (1, Missing) (2, sample_disk [sample_key ''k_1'' ''a'' (hash_secret sample_sha ''qq'') Active])
      empty_store ''qq'' =
     (Inr (Some (default_key_limits (sample_key ''k_1'' ''a'' (hash_secret sample_sha ''qq'') Active))), s')"
  by (rule lookup_sees_new_key [where i = 0 and st = "\<lparr>st_mod = 5, st_size = 9\<rparr>"
        and ks = "[Some (sample_key ''k_1'' ''a'' (hash_secret sample_sha ''qq'') Active)]"])
    (simp_all add: reload_def empty_store_def store_match_def sample_disk_def file_version_def zero_stamp_def sample_key_def Let_def)

text \<open>
  A null entry in keys.json is accepted by the load (which skips it) and dereferenced by the first lookup.
\<close>

lemma null_entry_panics:
  "fst (reload True 1 (File st (Doc \<lparr>fd_version = 1, fd_keys = [None]\<rparr>)) empty_store) = None
   \<and> fst (store_lookup sha (1, File st (Doc \<lparr>fd_version = 1, fd_keys = [None]\<rparr>)) look2 empty_store x) = Inl NilKey"
  by (simp add: reload_def empty_store_def file_version_def store_lookup_def store_match_def Let_def)

end
