(* ===== verification/Admin_Key.thy ===== *)
theory Admin_Key
  imports Keys
begin

text \<open>
  The remote-console bearer (internal/adminkey/store.go): one secret, its digest on disk, a warning when the
  file is damaged, and the moment it was last used. The digest, the random source, the clock and the fate of
  each file operation are parameters.
\<close>

record admin_record =
  ar_hash :: string
  ar_since :: gotime

record admin_store =
  as_value :: admin_record
  as_seen :: gotime
  as_warning :: bool

record admin_view =
  av_warning :: bool
  av_enabled :: bool
  av_since :: gotime
  av_in_use :: bool

datatype admin_file = NoAdminFile | AdminUnreadable | AdminMalformed | AdminFile admin_record

datatype admin_error = StateChanged | NoRandom | AdminWrite | AdminRemove

definition no_record :: admin_record where "no_record = \<lparr>ar_hash = [], ar_since = 0\<rparr>"

definition sha_prefix :: string where "sha_prefix = ''sha256:''"

definition trim_prefix :: "string \<Rightarrow> string \<Rightarrow> string" where
  "trim_prefix p s = (case cut_prefix p s of Some r \<Rightarrow> r | None \<Rightarrow> s)"

text \<open>\<open>hex.DecodeString\<close>: the bytes decoded before the first error, and whether there was none.\<close>

definition hex_value :: "char \<Rightarrow> nat option" where
  "hex_value c =
     (let n = byte c in
      if 48 \<le> n \<and> n \<le> 57 then Some (n - 48) else if 97 \<le> n \<and> n \<le> 102 then Some (n - 87)
      else if 65 \<le> n \<and> n \<le> 70 then Some (n - 55) else None)"

fun hex_decode :: "string \<Rightarrow> string \<times> bool" where
  "hex_decode [] = ([], True)"
| "hex_decode [c] = ([], False)"
| "hex_decode (c # d # r) =
     (case (hex_value c, hex_value d) of
        (Some a, Some b) \<Rightarrow> (let (bs, ok) = hex_decode r in (char_of (16 * a + b) # bs, ok))
      | _ \<Rightarrow> ([], False))"

definition damaged :: "admin_store \<Rightarrow> admin_store" where
  "damaged s = s\<lparr>as_value := no_record, as_warning := True\<rparr>"

definition empty_admin :: admin_store where
  "empty_admin = \<lparr>as_value = no_record, as_seen = 0, as_warning = False\<rparr>"

definition open_admin :: "admin_file \<Rightarrow> bool \<Rightarrow> admin_store" where
  "open_admin f chmod_ok =
     (case f of
        NoAdminFile \<Rightarrow> empty_admin
      | AdminUnreadable \<Rightarrow> damaged empty_admin
      | AdminMalformed \<Rightarrow> damaged empty_admin
      | AdminFile r \<Rightarrow>
          (let s = empty_admin\<lparr>as_value := r\<rparr>;
               (h, ok) = hex_decode (trim_prefix sha_prefix (ar_hash r))
           in if \<not> ok \<or> length h \<noteq> 32 \<or> \<not> has_prefix sha_prefix (ar_hash r) then damaged s
              else if \<not> chmod_ok then damaged s else s))"

definition admin_state :: "gotime \<Rightarrow> admin_store \<Rightarrow> admin_view" where
  "admin_state now s =
     \<lparr>av_warning = as_warning s, av_enabled = (ar_hash (as_value s) \<noteq> []), av_since = ar_since (as_value s),
      av_in_use = (\<not> is_zero (as_seen s) \<and> time_sub now (as_seen s) < 10 * minute)\<rparr>"

definition admin_warning :: "string \<Rightarrow> gotime \<Rightarrow> admin_store \<Rightarrow> string" where
  "admin_warning path now s =
     (if av_warning (admin_state now s) \<and> path \<noteq> []
      then sprintf ''Remote access is off: %s is unreadable or invalid. Turn remote access on again to mint a new code.'' [FStr path]
      else [])"

definition authenticate :: "(string \<Rightarrow> string) \<Rightarrow> gotime \<Rightarrow> string \<Rightarrow> admin_store \<Rightarrow> bool \<times> admin_store" where
  "authenticate sha now secret s =
     (let stored = fst (hex_decode (trim_prefix sha_prefix (ar_hash (as_value s)))) in
      if length stored \<noteq> 32 \<or> sha secret \<noteq> stored then (False, s) else (True, s\<lparr>as_seen := now\<rparr>))"

definition mint ::
    "(string \<Rightarrow> string) \<Rightarrow> gotime \<Rightarrow> string option \<Rightarrow> bool \<Rightarrow> bool \<Rightarrow> admin_store \<Rightarrow> admin_file
     \<Rightarrow> (admin_error + string) \<times> admin_store \<times> admin_file" where
  "mint sha now rnd write_ok rot s d =
     (if (ar_hash (as_value s) \<noteq> []) \<noteq> rot then (Inl StateChanged, s, d)
      else case new_secret rnd of
        None \<Rightarrow> (Inl NoRandom, s, d)
      | Some secret \<Rightarrow>
          (let r = \<lparr>ar_hash = hash_secret sha secret, ar_since = now\<rparr> in
           if \<not> write_ok then (Inl AdminWrite, s, d)
           else (Inr secret, s\<lparr>as_warning := False, as_value := r, as_seen := 0\<rparr>, AdminFile r)))"

definition disable :: "bool \<Rightarrow> admin_store \<Rightarrow> admin_file \<Rightarrow> admin_error option \<times> admin_store \<times> admin_file" where
  "disable remove_ok s d =
     (if d \<noteq> NoAdminFile \<and> \<not> remove_ok then (Some AdminRemove, s, d)
      else (None, s\<lparr>as_warning := False, as_value := no_record, as_seen := 0\<rparr>, NoAdminFile))"

section \<open>Properties\<close>

lemma hex_value_digit: "n < 16 \<Longrightarrow> hex_value (hex_digit n) = Some n"
  by (auto simp: hex_value_def hex_digit_def byte_char_of Let_def)

lemma hex_decode_encode: "hex_decode (hex_encode s) = (s, True)"
proof (induction s)
  case (Cons c s)
  have "byte c div 16 < 16" using byte_less [of c] by simp
  moreover have "char_of (16 * (byte c div 16) + byte c mod 16) = c" by (simp add: byte_def)
  ultimately show ?case using Cons by (simp add: hex_encode_def hex_value_digit)
qed (simp add: hex_encode_def)

lemma stored_digest: "trim_prefix sha_prefix (hash_secret sha x) = hex_encode (sha x)"
  by (simp add: trim_prefix_def sha_prefix_def cut_prefix_def has_prefix_def hash_secret_def)

lemma authenticate_iff:
  "fst (authenticate sha now x s) \<longleftrightarrow>
     (let stored = fst (hex_decode (trim_prefix sha_prefix (ar_hash (as_value s)))) in length stored = 32 \<and> sha x = stored)"
  by (simp add: authenticate_def Let_def)

text \<open>
  The remote code. A minted code is accepted at once and after a restart, by exactly the secrets of its
  digest; the code it replaces stops working with it unless the digests agree; and a mint that fails for any
  reason leaves the store and the file alone.
\<close>

theorem mint_governs_access:
  assumes digest: "\<forall>x. length (sha x) = 32"
    and m: "mint sha now rnd write_ok rot s d = (r, s', d')"
  shows "(case r of
      Inr secret \<Rightarrow>
        (\<forall>x t. (fst (authenticate sha t x s') \<longleftrightarrow> sha x = sha secret)
             \<and> (fst (authenticate sha t x (open_admin d' True)) \<longleftrightarrow> sha x = sha secret))
        \<and> av_enabled (admin_state now s') \<and> \<not> av_warning (admin_state now s') \<and> \<not> av_in_use (admin_state now s')
    | Inl e \<Rightarrow> s' = s \<and> d' = d)"
proof (cases r)
  case (Inl e)
  with m show ?thesis by (auto simp: mint_def Let_def split: if_splits option.splits)
next
  case (Inr secret)
  let ?r = "\<lparr>ar_hash = hash_secret sha secret, ar_since = now\<rparr>"
  from Inr m have s': "s' = s\<lparr>as_warning := False, as_value := ?r, as_seen := 0\<rparr>" and d': "d' = AdminFile ?r"
    by (auto simp: mint_def Let_def split: if_splits option.splits)
  have "has_prefix sha_prefix (hash_secret sha secret)"
    by (simp add: sha_prefix_def has_prefix_def hash_secret_def)
  with digest have "open_admin d' True = empty_admin\<lparr>as_value := ?r\<rparr>"
    by (simp add: open_admin_def d' stored_digest hex_decode_encode Let_def)
  moreover have "hash_secret sha secret \<noteq> []" by (simp add: hash_secret_def)
  ultimately show ?thesis using Inr digest
    by (simp add: s' authenticate_iff stored_digest hex_decode_encode Let_def admin_state_def is_zero_def)
qed

theorem mint_governs_access_witness:
  "\<exists>secret s' d'. mint (\<lambda>x. replicate 32 (hd (x @ [CHR ''0'']))) 5 (Some ''abc'') True False empty_admin NoAdminFile = (Inr secret, s', d')
     \<and> fst (authenticate (\<lambda>x. replicate 32 (hd (x @ [CHR ''0'']))) 6 secret s')"
proof -
  let ?sha = "\<lambda>x. replicate 32 (hd (x @ [CHR ''0'']))"
  obtain secret s' d' where m: "mint ?sha 5 (Some ''abc'') True False empty_admin NoAdminFile = (Inr secret, s', d')"
    by (simp add: mint_def empty_admin_def no_record_def new_secret_def Let_def)
  then show ?thesis using mint_governs_access [of ?sha, OF _ m] by auto
qed

text \<open>
  Nobody is let in without a code: a missing, unreadable, malformed or invalid admin.json, or one whose
  mode could not be restricted, opens as a disabled store that refuses every secret, and so does a store
  that was disabled. Only the invalid ones carry the warning.
\<close>

theorem no_code_no_access:
  assumes "case f of AdminFile r \<Rightarrow> \<not> chmod_ok \<or> (\<forall>h. length h = 32 \<longrightarrow> hex_decode (trim_prefix sha_prefix (ar_hash r)) \<noteq> (h, True))
      \<or> \<not> has_prefix sha_prefix (ar_hash r) | _ \<Rightarrow> True"
  shows "\<not> fst (authenticate sha t x (open_admin f chmod_ok))
     \<and> \<not> av_enabled (admin_state t (open_admin f chmod_ok))
     \<and> (av_warning (admin_state t (open_admin f chmod_ok)) \<longleftrightarrow> f \<noteq> NoAdminFile)
     \<and> (\<forall>ok s d s' d'. disable ok s d = (None, s', d') \<longrightarrow> \<not> fst (authenticate sha t x s') \<and> d' = NoAdminFile)"
proof -
  have e: "trim_prefix sha_prefix [] = []"
    by (simp add: trim_prefix_def cut_prefix_def has_prefix_def sha_prefix_def)
  have "open_admin f chmod_ok = (if f = NoAdminFile then empty_admin else damaged empty_admin)"
    using assms by (auto simp: open_admin_def damaged_def empty_admin_def Let_def split: admin_file.splits prod.splits)
  then show ?thesis
    by (auto simp: authenticate_iff e admin_state_def damaged_def empty_admin_def no_record_def disable_def Let_def
        split: if_splits)
qed

theorem no_code_no_access_witness:
  "\<not> fst (authenticate (\<lambda>x. replicate 32 (CHR ''0'')) 9 ''x'' (open_admin (AdminFile \<lparr>ar_hash = ''sha256:00'', ar_since = 3\<rparr>) True))"
proof -
  have "hex_decode (trim_prefix sha_prefix ''sha256:00'') = ([char_of (0::nat)], True)"
    by (simp add: trim_prefix_def cut_prefix_def has_prefix_def sha_prefix_def hex_value_def byte_def)
  then have h: "\<forall>h. length h = 32 \<longrightarrow> hex_decode (trim_prefix sha_prefix ''sha256:00'') \<noteq> (h, True)" by auto
  show ?thesis
    by (rule conjunct1, rule no_code_no_access) (use h in simp)
qed

end
