(* ===== verification/Usage.thy ===== *)
theory Usage
  imports Prelude
begin

text \<open>
  Usage accounting (internal/usage): the event of one request, the meters it charges, the per-key
  statistics, the line reader and the aggregation of usage.jsonl, and the recorder that writes it. Decoding
  one line is a parameter; a stream is its remaining bytes and whether reading past them fails.
\<close>

record usage_meter =
  um_class :: string
  um_unit :: string
  um_measured :: rat
  um_charged :: rat

text \<open>\<open>ev_meters\<close> is \<open>None\<close> for the nil slice of a row written before meters existed.\<close>

record event =
  ev_settled_at :: gotime
  ev_meters :: "usage_meter list option"
  ev_destination :: string
  ev_kind :: string
  ev_seconds :: rat
  ev_reserved_seconds :: rat
  ev_overrun_seconds :: rat
  ev_seconds_estimated :: bool
  ev_characters :: int
  ev_via :: string
  ev_ts :: gotime
  ev_key_id :: string
  ev_endpoint :: string
  ev_model :: string
  ev_status :: int
  ev_code :: string
  ev_stream :: bool
  ev_prompt_tokens :: int
  ev_completion_tokens :: int
  ev_queued_ms :: int
  ev_ttft_ms :: int
  ev_total_ms :: int
  ev_prompt :: string
  ev_completion :: string

definition empty_event :: event where
  "empty_event = \<lparr>ev_settled_at = 0, ev_meters = None, ev_destination = [], ev_kind = [], ev_seconds = 0,
     ev_reserved_seconds = 0, ev_overrun_seconds = 0, ev_seconds_estimated = False, ev_characters = 0,
     ev_via = [], ev_ts = 0, ev_key_id = [], ev_endpoint = [], ev_model = [], ev_status = 0, ev_code = [],
     ev_stream = False, ev_prompt_tokens = 0, ev_completion_tokens = 0, ev_queued_ms = 0, ev_ttft_ms = 0,
     ev_total_ms = 0, ev_prompt = [], ev_completion = []\<rparr>"

record key_counters =
  kc_today_searches :: int
  kc_today_images :: int
  kc_today_audio_seconds :: rat
  kc_today_speech_chars :: int
  kc_in_flight :: int
  kc_rpm_used :: int
  kc_tpm_used :: int
  kc_today_tokens :: int
  kc_last_seen :: gotime

section \<open>Classification and meters\<close>

definition model_endpoint :: "string \<Rightarrow> string \<times> string" where
  "model_endpoint path =
     (if path = ''/v1/chat/completions'' then (''chat'', ''tokens'')
      else if path = ''/v1/responses'' then (''responses'', ''tokens'')
      else if path = ''/v1/embeddings'' then (''embed'', ''tokens'')
      else if path = ''/v1/audio/transcriptions'' then (''transcribe'', ''audio'')
      else if path = ''/v1/images/generations'' then (''images'', ''images'')
      else if path = ''/v1/audio/speech'' then (''speech'', ''speech'')
      else ([], []))"

definition resource_meters :: "event \<Rightarrow> usage_meter list" where
  "resource_meters e =
     (case ev_meters e of Some ms \<Rightarrow> ms
      | None \<Rightarrow>
        (let cls = snd (model_endpoint (ev_endpoint e));
             n = of_int (ev_prompt_tokens e) + of_int (ev_completion_tokens e);
             ms = (if ev_prompt_tokens e \<noteq> 0 \<or> ev_completion_tokens e \<noteq> 0 \<or> cls = ''tokens''
                   then [\<lparr>um_class = ''tokens'', um_unit = ''tokens'', um_measured = n, um_charged = n\<rparr>] else []);
             ms = (if ev_seconds e \<noteq> 0 \<or> ev_kind e = ''transcription'' \<or> cls = ''audio''
                   then ms @ [\<lparr>um_class = ''audio'', um_unit = ''seconds'', um_measured = ev_seconds e,
                               um_charged = ev_seconds e\<rparr>] else ms)
         in if ev_characters e \<noteq> 0 \<or> ev_kind e = ''speech'' \<or> cls = ''speech''
            then (let n = of_int (ev_characters e)
                  in ms @ [\<lparr>um_class = ''speech'', um_unit = ''characters'', um_measured = n, um_charged = n\<rparr>])
            else ms))"

definition accounting_time :: "event \<Rightarrow> gotime" where
  "accounting_time e = (if is_zero (ev_settled_at e) then ev_ts e else ev_settled_at e)"

definition run_handoff :: string where "run_handoff = ''run_handoff''"

definition model_call :: "event \<Rightarrow> bool" where
  "model_call e \<longleftrightarrow> ev_code e \<noteq> run_handoff \<and> snd (model_endpoint (ev_endpoint e)) \<noteq> []"

section \<open>Statistics\<close>

text \<open>
  A \<open>Stats\<close> value inside a \<open>by_via\<close> map never has one of its own, so the flat part is a record and
  the full one extends it. A Go map is an association list.
\<close>

record tally =
  ta_meters :: "usage_meter list"
  ta_key_id :: string
  ta_models :: "(string \<times> int) list"
  ta_seconds :: rat
  ta_characters :: int
  ta_requests :: int
  ta_model_calls :: int
  ta_app_polls :: int
  ta_errors :: int
  ta_errors_by_code :: "(string \<times> int) list"
  ta_prompt_tokens :: int
  ta_completion_tokens :: int
  ta_ttft_median :: int
  ta_ttft_p95 :: int
  ta_total_median :: int
  ta_total_p95 :: int
  ta_first_seen :: gotime
  ta_last_seen :: gotime
  ta_last_call :: gotime
  ta_ttfts :: "int list"
  ta_totals :: "int list"

record stats = tally +
  ta_by_via :: "(string \<times> tally) list"

definition empty_tally :: "string \<Rightarrow> tally" where
  "empty_tally k = \<lparr>ta_meters = [], ta_key_id = k, ta_models = [], ta_seconds = 0, ta_characters = 0,
     ta_requests = 0, ta_model_calls = 0, ta_app_polls = 0, ta_errors = 0, ta_errors_by_code = [],
     ta_prompt_tokens = 0, ta_completion_tokens = 0, ta_ttft_median = 0, ta_ttft_p95 = 0,
     ta_total_median = 0, ta_total_p95 = 0, ta_first_seen = 0, ta_last_seen = 0, ta_last_call = 0,
     ta_ttfts = [], ta_totals = []\<rparr>"

definition empty_stats :: "string \<Rightarrow> stats" where
  "empty_stats k = tally.extend (empty_tally k) \<lparr>ta_by_via = []\<rparr>"

definition bump :: "string \<Rightarrow> (string \<times> int) list \<Rightarrow> (string \<times> int) list" where
  "bump k m = AList.update k ((case map_of m k of Some n \<Rightarrow> n | None \<Rightarrow> 0) + 1) m"

text \<open>\<open>addMeters\<close>: each meter joins the first one of its class, or is appended.\<close>

fun merge_meter :: "usage_meter \<Rightarrow> usage_meter list \<Rightarrow> usage_meter list" where
  "merge_meter m [] = [m]"
| "merge_meter m (x # xs) =
     (if um_class x = um_class m
      then x\<lparr>um_measured := um_measured x + um_measured m, um_charged := um_charged x + um_charged m\<rparr> # xs
      else x # merge_meter m xs)"

definition add_meters :: "event \<Rightarrow> usage_meter list \<Rightarrow> usage_meter list" where
  "add_meters e ms = fold merge_meter (resource_meters e) ms"

definition count_call :: "event \<Rightarrow> 'a tally_scheme \<Rightarrow> 'a tally_scheme" where
  "count_call e s =
     (let s = s\<lparr>ta_requests := ta_requests s + 1\<rparr> in
      if model_call e
      then (let s = s\<lparr>ta_model_calls := ta_model_calls s + 1\<rparr>
            in if ev_model e \<noteq> [] then s\<lparr>ta_models := bump (ev_model e) (ta_models s)\<rparr> else s)
      else s\<lparr>ta_app_polls := ta_app_polls s + 1\<rparr>)"

definition count_error :: "event \<Rightarrow> 'a tally_scheme \<Rightarrow> 'a tally_scheme" where
  "count_error e s =
     (if ev_status e \<ge> 400
      then (let s = s\<lparr>ta_errors := ta_errors s + 1\<rparr>;
                code = (if ev_code e = [] then ''(none)'' else ev_code e)
            in s\<lparr>ta_errors_by_code := bump code (ta_errors_by_code s)\<rparr>)
      else s)"

definition add_amounts :: "event \<Rightarrow> 'a tally_scheme \<Rightarrow> 'a tally_scheme" where
  "add_amounts e s =
     s\<lparr>ta_seconds := ta_seconds s + ev_seconds e, ta_characters := ta_characters s + ev_characters e,
       ta_prompt_tokens := ta_prompt_tokens s + ev_prompt_tokens e,
       ta_completion_tokens := ta_completion_tokens s + ev_completion_tokens e\<rparr>"

definition add_samples :: "event \<Rightarrow> 'a tally_scheme \<Rightarrow> 'a tally_scheme" where
  "add_samples e s =
     (if model_call e \<and> ev_status e < 400
      then (let s = (if ev_ttft_ms e > 0 then s\<lparr>ta_ttfts := ta_ttfts s @ [ev_ttft_ms e]\<rparr> else s)
            in if ev_total_ms e > 0 then s\<lparr>ta_totals := ta_totals s @ [ev_total_ms e]\<rparr> else s)
      else s)"

definition add_span :: "event \<Rightarrow> 'a tally_scheme \<Rightarrow> 'a tally_scheme" where
  "add_span e s =
     (let s = (if is_zero (ta_first_seen s) \<or> ev_ts e < ta_first_seen s
               then s\<lparr>ta_first_seen := ev_ts e\<rparr> else s);
          s = (if ev_ts e > ta_last_seen s then s\<lparr>ta_last_seen := ev_ts e\<rparr> else s)
      in if model_call e \<and> ev_ts e > ta_last_call s then s\<lparr>ta_last_call := ev_ts e\<rparr> else s)"

definition add_telemetry :: "event \<Rightarrow> 'a tally_scheme \<Rightarrow> 'a tally_scheme" where
  "add_telemetry e s =
     (if ev_kind e = ''search'' then s
      else add_span e (add_samples e (add_amounts e (count_error e (count_call e s)))))"

definition stats_add :: "event \<Rightarrow> bool \<Rightarrow> 'a tally_scheme \<Rightarrow> 'a tally_scheme" where
  "stats_add e meters s =
     (if meters then s\<lparr>ta_meters := add_meters e (ta_meters s)\<rparr> else add_telemetry e s)"

definition percentile :: "int list \<Rightarrow> int \<Rightarrow> int" where
  "percentile v p =
     (if v = [] then 0
      else let s = sort v;
               rank = (p * int (length s) + 99) div 100;
               rank = (if rank < 1 then 1 else rank);
               rank = (if rank > int (length s) then int (length s) else rank)
           in s ! nat (rank - 1))"

definition stats_finish :: "'a tally_scheme \<Rightarrow> 'a tally_scheme" where
  "stats_finish s =
     (let s = s\<lparr>ta_meters := sort_key um_class (ta_meters s)\<rparr>;
          s = s\<lparr>ta_ttft_median := percentile (ta_ttfts s) 50, ta_ttft_p95 := percentile (ta_ttfts s) 95\<rparr>;
          s = s\<lparr>ta_total_median := percentile (ta_totals s) 50, ta_total_p95 := percentile (ta_totals s) 95\<rparr>
      in s\<lparr>ta_ttfts := [], ta_totals := []\<rparr>)"

section \<open>Reading lines\<close>

record stream =
  sr_rest :: string
  sr_fails :: bool

datatype slice_end = SliceLine | SliceFull | SliceEof | SliceErr

definition newline :: char where "newline = CHR 0x0A"

text \<open>
  \<open>bufio.Reader.ReadSlice\<close> with a buffer of n bytes: up to the newline, the whole buffer when it
  has none, or what is left at the end of the stream.
\<close>

definition read_slice :: "nat \<Rightarrow> stream \<Rightarrow> string \<times> slice_end \<times> stream" where
  "read_slice n r =
     (let line = takeWhile (\<lambda>c. c \<noteq> newline) (sr_rest r) in
      if length line < n \<and> length line < length (sr_rest r)
        then (line @ [newline], SliceLine, r\<lparr>sr_rest := drop (length line + 1) (sr_rest r)\<rparr>)
      else if n \<le> length (sr_rest r)
        then (take n (sr_rest r), SliceFull, r\<lparr>sr_rest := drop n (sr_rest r)\<rparr>)
      else (sr_rest r, (if sr_fails r then SliceErr else SliceEof), r\<lparr>sr_rest := []\<rparr>))"

definition trim_eol :: "string \<Rightarrow> string" where
  "trim_eol b = rev (dropWhile (\<lambda>c. c = newline \<or> c = CHR 0x0D) (rev b))"

text \<open>\<open>readLine\<close>: \<open>None\<close> is the nil slice of an over-long line. The buffer is not empty.\<close>

function read_line_from :: "nat \<Rightarrow> nat \<Rightarrow> string \<Rightarrow> bool \<Rightarrow> stream \<Rightarrow> string option \<times> slice_end \<times> stream" where
  "read_line_from n mx acc over r =
     (if n = 0 then (None, SliceErr, r)
      else case read_slice n r of (chunk, fin, r') \<Rightarrow>
        if fin = SliceFull then
          (if \<not> over then
             (let acc = acc @ chunk in
              if length acc > mx then read_line_from n mx [] True r' else read_line_from n mx acc False r')
           else read_line_from n mx acc True r')
        else if over then (None, fin, r')
        else (Some (trim_eol (acc @ chunk)), fin, r'))"
  by pat_completeness auto

termination
  by (relation "measure (\<lambda>(n, mx, acc, over, r). length (sr_rest r))")
    (auto simp: read_slice_def Let_def split: if_splits)

declare read_line_from.simps [simp del]

definition max_line :: nat where "max_line = 8 * 1024 * 1024"
definition reader_size :: nat where "reader_size = 64 * 1024"

definition read_line :: "stream \<Rightarrow> string option \<times> slice_end \<times> stream" where
  "read_line r = read_line_from reader_size max_line [] False r"

section \<open>Aggregation\<close>

record filter_spec =
  fl_key_id :: string
  fl_since :: gotime
  fl_until :: gotime
  fl_days :: nat

definition filter_match :: "filter_spec \<Rightarrow> event \<Rightarrow> gotime \<Rightarrow> bool" where
  "filter_match f e tm \<longleftrightarrow>
     \<not> (\<not> is_zero (fl_until f) \<and> \<not> tm < fl_until f)
     \<and> \<not> (fl_key_id f \<noteq> [] \<and> ev_key_id e \<noteq> fl_key_id f)
     \<and> \<not> (\<not> is_zero (fl_since f) \<and> tm < fl_since f)"

record day_report =
  dr_by_via :: "(string \<times> tally) list"
  dr_date :: gotime
  dr_total :: tally
  dr_keys :: "(string \<times> stats) list"

record report =
  rp_by_via :: "(string \<times> tally) list"
  rp_daily :: "day_report list"
  rp_total :: tally
  rp_keys :: "(string \<times> stats) list"
  rp_malformed :: nat

text \<open>The date of a bucket is kept as the instant its text is printed from.\<close>

definition empty_report :: "filter_spec \<Rightarrow> report" where
  "empty_report f =
     \<lparr>rp_by_via = [],
      rp_daily = map (\<lambda>i. \<lparr>dr_by_via = [], dr_date = fl_since f + int i * day_length, dr_total = empty_tally [],
                           dr_keys = []\<rparr>) [0..<fl_days f],
      rp_total = empty_tally [], rp_keys = [], rp_malformed = 0\<rparr>"

definition add_via :: "event \<Rightarrow> bool \<Rightarrow> (string \<times> tally) list \<Rightarrow> (string \<times> tally) list" where
  "add_via e meters by =
     (let via = (if ev_via e = [] then ''direct'' else ev_via e);
          s = (case map_of by via of Some s \<Rightarrow> s | None \<Rightarrow> empty_tally [])
      in AList.update via (stats_add e meters s) by)"

definition add_to_key :: "event \<Rightarrow> bool \<Rightarrow> (string \<times> stats) list \<Rightarrow> (string \<times> stats) list" where
  "add_to_key e meters ks =
     (let s = (case map_of ks (ev_key_id e) of Some s \<Rightarrow> s | None \<Rightarrow> empty_stats (ev_key_id e));
          s = stats_add e meters s;
          s = s\<lparr>ta_by_via := add_via e meters (ta_by_via s)\<rparr>
      in AList.update (ev_key_id e) s ks)"

definition day_index :: "filter_spec \<Rightarrow> gotime \<Rightarrow> int" where
  "day_index f tm =
     (let d = time_sub (truncate_day tm) (truncate_day (fl_since f))
      in if d < 0 then - ((- d) div day_length) else d div day_length)"

definition add_to_day :: "event \<Rightarrow> bool \<Rightarrow> day_report \<Rightarrow> day_report" where
  "add_to_day e meters d =
     d\<lparr>dr_total := stats_add e meters (dr_total d), dr_by_via := add_via e meters (dr_by_via d),
       dr_keys := add_to_key e meters (dr_keys d)\<rparr>"

definition add_pass :: "filter_spec \<Rightarrow> event \<Rightarrow> bool \<Rightarrow> report \<Rightarrow> report" where
  "add_pass f e meters rep =
     (if meters \<and> resource_meters e = [] then rep
      else let tm = (if meters then accounting_time e else ev_ts e) in
        if \<not> filter_match f e tm then rep
        else let rep = rep\<lparr>rp_total := stats_add e meters (rp_total rep),
                          rp_by_via := add_via e meters (rp_by_via rep),
                          rp_keys := add_to_key e meters (rp_keys rep)\<rparr>;
                 day = day_index f tm
             in if day \<ge> 0 \<and> day < int (length (rp_daily rep))
                then rep\<lparr>rp_daily := (rp_daily rep)[nat day := add_to_day e meters (rp_daily rep ! nat day)]\<rparr>
                else rep)"

definition add_event :: "filter_spec \<Rightarrow> event \<Rightarrow> report \<Rightarrow> report" where
  "add_event f e rep = add_pass f e True (add_pass f e False rep)"

definition finish_via :: "(string \<times> tally) list \<Rightarrow> (string \<times> tally) list" where
  "finish_via by = map (\<lambda>(k, s). (k, stats_finish s)) by"

definition finish_keys :: "(string \<times> stats) list \<Rightarrow> (string \<times> stats) list" where
  "finish_keys ks =
     sort_key fst (map (\<lambda>(k, s). (k, (stats_finish s)\<lparr>ta_by_via := finish_via (ta_by_via s)\<rparr>)) ks)"

definition finish_day :: "day_report \<Rightarrow> day_report" where
  "finish_day d = d\<lparr>dr_total := stats_finish (dr_total d), dr_by_via := finish_via (dr_by_via d),
                    dr_keys := finish_keys (dr_keys d)\<rparr>"

definition finish_report :: "report \<Rightarrow> report" where
  "finish_report rep = rep\<lparr>rp_daily := map finish_day (rp_daily rep), rp_total := stats_finish (rp_total rep),
     rp_by_via := finish_via (rp_by_via rep), rp_keys := finish_keys (rp_keys rep)\<rparr>"

lemma read_slice_shrinks:
  "read_slice n r = (chunk, fin, r') \<Longrightarrow> n \<noteq> 0 \<Longrightarrow> fin = SliceLine \<or> fin = SliceFull \<Longrightarrow> length (sr_rest r') < length (sr_rest r)"
  by (auto simp: read_slice_def Let_def split: if_splits)

lemma read_line_shrinks:
  "read_line_from n mx acc over r = (line, SliceLine, r') \<Longrightarrow> length (sr_rest r') < length (sr_rest r)"
proof (induction n mx acc over r rule: read_line_from.induct)
  case (1 n mx acc over r)
  obtain chunk fin r1 where sl: "read_slice n r = (chunk, fin, r1)" by (cases "read_slice n r") auto
  show ?case
  proof (cases "n = 0 \<or> fin \<noteq> SliceFull")
    case True
    with 1(4) sl read_slice_shrinks [OF sl] show ?thesis
      by (subst (asm) read_line_from.simps) (auto split: if_splits)
  next
    case False
    then have n: "n \<noteq> 0" and fin: "fin = SliceFull" by auto
    have "length (sr_rest r1) < length (sr_rest r)" using read_slice_shrinks [OF sl n] fin by simp
    moreover have "length (sr_rest r') < length (sr_rest r1)"
      using 1(1,2,3) [OF n sl [symmetric] refl fin] 1(4) sl n fin read_line_from.simps [of n mx acc over r]
      by (auto simp: Let_def split: if_splits)
    ultimately show ?thesis by simp
  qed
qed

text \<open>\<open>Aggregate\<close>'s loop; \<open>None\<close> is a read error. \<open>decode\<close> is the JSON decoder of one line.\<close>

function aggregate_loop :: "(string \<Rightarrow> event option) \<Rightarrow> filter_spec \<Rightarrow> report \<Rightarrow> stream \<Rightarrow> report option" where
  "aggregate_loop decode f rep r =
     (case read_line r of (line, fin, r') \<Rightarrow>
        if fin = SliceErr then None
        else
          (let rep = (case line of
                 None \<Rightarrow> rep\<lparr>rp_malformed := rp_malformed rep + 1\<rparr>
               | Some l \<Rightarrow>
                   if l = [] then rep
                   else (case decode l of
                       None \<Rightarrow> rep\<lparr>rp_malformed := rp_malformed rep + 1\<rparr>
                     | Some e \<Rightarrow> add_event f e rep))
           in if fin = SliceLine then aggregate_loop decode f rep r' else Some rep))"
  by pat_completeness auto

termination
  by (relation "measure (\<lambda>(decode, f, rep, r). length (sr_rest r))")
    (auto simp: read_line_def dest: read_line_shrinks [OF sym])

declare aggregate_loop.simps [simp del]

definition aggregate :: "(string \<Rightarrow> event option) \<Rightarrow> filter_spec \<Rightarrow> stream \<Rightarrow> report option" where
  "aggregate decode f r = map_option finish_report (aggregate_loop decode f (empty_report f) r)"

datatype usage_file = UsageMissing | UsageOpenFails | UsageFile stream

definition aggregate_file :: "(string \<Rightarrow> event option) \<Rightarrow> filter_spec \<Rightarrow> usage_file \<Rightarrow> report option" where
  "aggregate_file decode f u =
     (case u of UsageMissing \<Rightarrow> Some (empty_report f) | UsageOpenFails \<Rightarrow> None | UsageFile r \<Rightarrow> aggregate decode f r)"

definition report_last_seen :: "report \<Rightarrow> (string \<times> gotime) list" where
  "report_last_seen rep = map (\<lambda>(k, s). (ta_key_id s, ta_last_call s)) (rp_keys rep)"

section \<open>Reading back what was written\<close>

lemma read_slice_line:
  assumes "newline \<notin> set l" and "length l < n"
  shows "read_slice n \<lparr>sr_rest = l @ newline # rest, sr_fails = b\<rparr>
     = (l @ [newline], SliceLine, \<lparr>sr_rest = rest, sr_fails = b\<rparr>)"
proof -
  have "takeWhile (\<lambda>c. c \<noteq> newline) (l @ newline # rest) = l"
    using assms(1) by (subst takeWhile_append2) auto
  with assms(2) show ?thesis by (simp add: read_slice_def Let_def)
qed

lemma read_slice_full:
  assumes "newline \<notin> set l" and "n \<le> length l"
  shows "read_slice n \<lparr>sr_rest = l @ r, sr_fails = b\<rparr> = (take n l, SliceFull, \<lparr>sr_rest = drop n l @ r, sr_fails = b\<rparr>)"
proof -
  have "takeWhile (\<lambda>c. c \<noteq> newline) (l @ r) = l @ takeWhile (\<lambda>c. c \<noteq> newline) r"
    using assms(1) by (subst takeWhile_append2) auto
  with assms(2) show ?thesis by (simp add: read_slice_def Let_def)
qed

lemma read_slice_eof:
  assumes "newline \<notin> set l" and "length l < n"
  shows "read_slice n \<lparr>sr_rest = l, sr_fails = False\<rparr> = (l, SliceEof, \<lparr>sr_rest = [], sr_fails = False\<rparr>)"
proof -
  have tw: "takeWhile (\<lambda>c. c \<noteq> newline) l = l"
    using assms(1) by (intro takeWhile_eq_all_conv [THEN iffD2]) auto
  show ?thesis using assms(2) by (simp add: read_slice_def Let_def tw del: takeWhile_eq_all_conv)
qed

lemma read_line_from_whole:
  assumes "n \<noteq> 0" and "newline \<notin> set l" and "length acc + length l \<le> mx"
  shows "read_line_from n mx acc False \<lparr>sr_rest = l @ newline # rest, sr_fails = b\<rparr>
      = (Some (trim_eol (acc @ l @ [newline])), SliceLine, \<lparr>sr_rest = rest, sr_fails = b\<rparr>)"
  using assms
proof (induction "length l" arbitrary: l acc rule: less_induct)
  case less
  have nl: "newline \<notin> set l" and n: "n \<noteq> 0" by (use less.prems in auto)
  show ?case
  proof (cases "length l < n")
    case True
    then show ?thesis using n by (subst read_line_from.simps) (simp add: read_slice_line [OF nl])
  next
    case False
    then have le: "n \<le> length l" by simp
    have td: "take n l @ drop n l @ xs = l @ xs" for xs by (metis append.assoc append_take_drop_id)
    have "newline \<notin> set (drop n l)" using nl by (meson in_set_dropD)
    with less.hyps [of "drop n l" "acc @ take n l"] less.prems le n read_slice_full [OF nl le, of "newline # rest" b]
    show ?thesis by (subst read_line_from.simps) (simp add: Let_def td)
  qed
qed

lemma read_line_from_tail:
  assumes "n \<noteq> 0" and "newline \<notin> set l" and "length acc + length l \<le> mx"
  shows "read_line_from n mx acc False \<lparr>sr_rest = l, sr_fails = False\<rparr>
      = (Some (trim_eol (acc @ l)), SliceEof, \<lparr>sr_rest = [], sr_fails = False\<rparr>)"
  using assms
proof (induction "length l" arbitrary: l acc rule: less_induct)
  case less
  have nl: "newline \<notin> set l" and n: "n \<noteq> 0" by (use less.prems in auto)
  show ?case
  proof (cases "length l < n")
    case True
    then show ?thesis using n by (subst read_line_from.simps) (simp add: read_slice_eof [OF nl])
  next
    case False
    then have le: "n \<le> length l" by simp
    have td: "take n l @ drop n l @ xs = l @ xs" for xs by (metis append.assoc append_take_drop_id)
    have "newline \<notin> set (drop n l)" using nl by (meson in_set_dropD)
    with less.hyps [of "drop n l" "acc @ take n l"] less.prems le n read_slice_full [OF nl le, of "[]" False]
    show ?thesis by (subst read_line_from.simps) (simp add: Let_def td)
  qed
qed

text \<open>The lines of a log: each event encoded, then a newline.\<close>

definition log_text :: "(event \<Rightarrow> string) \<Rightarrow> event list \<Rightarrow> string" where
  "log_text enc es = concat (map (\<lambda>e. enc e @ [newline]) es)"

definition good_line :: "string \<Rightarrow> bool" where
  "good_line l \<longleftrightarrow> l \<noteq> [] \<and> newline \<notin> set l \<and> last l \<noteq> CHR 0x0D \<and> length l \<le> max_line"

lemma trim_eol_good: "good_line l \<Longrightarrow> trim_eol (l @ [newline]) = l \<and> trim_eol l = l"
  by (cases l rule: rev_cases) (auto simp: trim_eol_def good_line_def)

lemma reader_size_pos: "reader_size \<noteq> 0" by (simp add: reader_size_def)

lemma read_line_good:
  assumes "good_line l"
  shows "read_line \<lparr>sr_rest = l @ newline # rest, sr_fails = b\<rparr> = (Some l, SliceLine, \<lparr>sr_rest = rest, sr_fails = b\<rparr>)"
    and "read_line \<lparr>sr_rest = l, sr_fails = False\<rparr> = (Some l, SliceEof, \<lparr>sr_rest = [], sr_fails = False\<rparr>)"
  using assms trim_eol_good [OF assms] read_line_from_whole [OF reader_size_pos, of l "[]" max_line rest b]
    read_line_from_tail [OF reader_size_pos, of l "[]" max_line]
  by (simp_all add: read_line_def good_line_def)

lemma read_line_empty: "read_line \<lparr>sr_rest = [], sr_fails = False\<rparr> = (Some [], SliceEof, \<lparr>sr_rest = [], sr_fails = False\<rparr>)"
  using read_line_from_tail [OF reader_size_pos, of "[]" "[]" max_line] by (simp add: read_line_def trim_eol_def)

lemma aggregate_loop_log:
  assumes "\<And>e. e \<in> set es \<Longrightarrow> good_line (enc e) \<and> decode (enc e) = Some e"
  shows "aggregate_loop decode f rep \<lparr>sr_rest = log_text enc es @ rest, sr_fails = b\<rparr>
       = aggregate_loop decode f (fold (add_event f) es rep) \<lparr>sr_rest = rest, sr_fails = b\<rparr>"
  using assms
proof (induction es arbitrary: rep)
  case (Cons e es)
  then have g: "good_line (enc e)" "decode (enc e) = Some e" by auto
  then have ne: "enc e \<noteq> []" by (simp add: good_line_def)
  have "aggregate_loop decode f rep \<lparr>sr_rest = enc e @ newline # log_text enc es @ rest, sr_fails = b\<rparr>
      = aggregate_loop decode f (add_event f e rep) \<lparr>sr_rest = log_text enc es @ rest, sr_fails = b\<rparr>"
    by (subst aggregate_loop.simps) (simp add: read_line_good(1) [OF g(1)] g(2) ne Let_def)
  with Cons show ?case by (simp add: log_text_def)
qed (simp add: log_text_def)

text \<open>
  C39. Round trip of the log: aggregating the lines written for a list of events gives the report of exactly
  those events, in order, whatever the buffer boundaries; a torn last line that does not decode is counted as
  malformed and loses nothing else.
\<close>

theorem aggregate_log:
  assumes "\<forall>e \<in> set es. good_line (enc e) \<and> decode (enc e) = Some e"
    and "torn = [] \<or> good_line torn \<and> decode torn = None"
  shows "aggregate decode f \<lparr>sr_rest = log_text enc es @ torn, sr_fails = False\<rparr> =
     Some (finish_report (let rep = fold (add_event f) es (empty_report f) in
        if torn = [] then rep else rep\<lparr>rp_malformed := rp_malformed rep + 1\<rparr>))"
proof -
  let ?rep = "fold (add_event f) es (empty_report f)"
  have "aggregate_loop decode f ?rep \<lparr>sr_rest = torn, sr_fails = False\<rparr> =
     Some (if torn = [] then ?rep else ?rep\<lparr>rp_malformed := rp_malformed ?rep + 1\<rparr>)"
  proof (cases "torn = []")
    case True
    then show ?thesis by (subst aggregate_loop.simps) (simp add: read_line_empty Let_def)
  next
    case False
    with assms(2) have t: "good_line torn" "decode torn = None" by auto
    show ?thesis using False
      by (subst aggregate_loop.simps) (simp add: read_line_good(2) [OF t(1)] t(2) Let_def)
  qed
  with aggregate_loop_log [of es enc decode f "empty_report f" torn False] assms(1)
  show ?thesis by (simp add: aggregate_def Let_def)
qed

theorem aggregate_log_witness:
  "aggregate (\<lambda>l. if l = ''x'' then Some empty_event else None) \<lparr>fl_key_id = [], fl_since = 0, fl_until = 0, fl_days = 1\<rparr>
      \<lparr>sr_rest = log_text (\<lambda>_. ''x'') [empty_event, empty_event] @ ''{'', sr_fails = False\<rparr>
     = Some (finish_report (let rep = fold (add_event \<lparr>fl_key_id = [], fl_since = 0, fl_until = 0, fl_days = 1\<rparr>)
          [empty_event, empty_event] (empty_report \<lparr>fl_key_id = [], fl_since = 0, fl_until = 0, fl_days = 1\<rparr>)
        in rep\<lparr>rp_malformed := rp_malformed rep + 1\<rparr>))"
proof -
  have g: "good_line ''x''" "good_line ''{''" by (simp_all add: good_line_def newline_def max_line_def)
  show ?thesis
    by (subst aggregate_log) (simp_all add: g)
qed

section \<open>What a report adds up to\<close>

text \<open>
  \<open>percentile\<close> is the nearest rank: a value of the sample such that at least p percent of the sample
  is at most it, and less than p percent lies below it.
\<close>

theorem percentile_nearest_rank:
  assumes "v \<noteq> []" and "1 \<le> p" and "p \<le> 100"
  shows "percentile v p \<in> set v
     \<and> p * int (length v) \<le> 100 * int (length (filter (\<lambda>x. x \<le> percentile v p) v))
     \<and> 100 * int (length (filter (\<lambda>x. x < percentile v p) v)) < p * int (length v)"
proof -
  let ?n = "length v" and ?s = "sort v"
  define k where "k = nat ((p * int ?n + 99) div 100)"
  have n: "0 < int ?n" using assms(1) by simp
  have pn: "p * int ?n \<le> 100 * int ?n" "1 \<le> p * int ?n"
    using assms n mult_mono [of 1 p 1 "int ?n"] by (auto intro: mult_right_mono simp: Suc_le_eq)
  then have k1: "1 \<le> (p * int ?n + 99) div 100" "(p * int ?n + 99) div 100 \<le> int ?n" by linarith+
  then have k: "1 \<le> k" "k \<le> ?n" "int k = (p * int ?n + 99) div 100" unfolding k_def by linarith+
  have pk: "percentile v p = ?s ! (k - 1)"
    using assms(1) k1 unfolding k_def by (simp add: percentile_def Let_def nat_diff_distrib)
  have len: "length (filter P v) = length (filter P ?s)" for P
    by (simp add: filter_sort)
  have "?s ! (k - 1) \<in> set ?s" using k by (intro nth_mem) auto
  moreover have "k \<le> length (filter (\<lambda>x. x \<le> ?s ! (k - 1)) ?s)"
  proof -
    have "\<forall>x \<in> set (take k ?s). x \<le> ?s ! (k - 1)"
      using k sorted_nth_mono [OF sorted_sort, of _ "k - 1" v] by (auto simp: in_set_conv_nth)
    then have "filter (\<lambda>x. x \<le> ?s ! (k - 1)) (take k ?s) = take k ?s" by (simp add: filter_id_conv)
    then have "k = length (filter (\<lambda>x. x \<le> ?s ! (k - 1)) (take k ?s))" using k by simp
    also have "\<dots> \<le> length (filter (\<lambda>x. x \<le> ?s ! (k - 1)) (take k ?s @ drop k ?s))"
      by (simp only: filter_append length_append le_add1)
    finally show ?thesis by simp
  qed
  moreover have "length (filter (\<lambda>x. x < ?s ! (k - 1)) ?s) \<le> k - 1"
  proof -
    have "\<forall>x \<in> set (drop (k - 1) ?s). \<not> x < ?s ! (k - 1)"
      using k sorted_nth_mono [OF sorted_sort, of "k - 1" _ v] by (auto simp: in_set_conv_nth not_less)
    then have "filter (\<lambda>x. x < ?s ! (k - 1)) (drop (k - 1) ?s) = []" by (simp add: filter_empty_conv)
    then have "filter (\<lambda>x. x < ?s ! (k - 1)) (take (k - 1) ?s @ drop (k - 1) ?s)
        = filter (\<lambda>x. x < ?s ! (k - 1)) (take (k - 1) ?s)" by (simp only: filter_append append_Nil2)
    then show ?thesis using length_filter_le [of _ "take (k - 1) ?s"] by (metis append_take_drop_id length_take min.cobounded2 order_trans)
  qed
  ultimately show ?thesis unfolding pk len using k by (auto simp flip: of_nat_le_iff)
qed

theorem percentile_nearest_rank_witness: "percentile [30, 10, 20, 40] 50 \<in> set [30, 10, 20, 40]"
  using percentile_nearest_rank [of "[30, 10, 20, 40]" 50] by simp

text \<open>A tally is balanced when its calls and polls make up its requests.\<close>

definition balanced :: "'a tally_scheme \<Rightarrow> bool" where
  "balanced s \<longleftrightarrow> ta_requests s = ta_model_calls s + ta_app_polls s
     \<and> ta_errors s = sum_list (map snd (ta_errors_by_code s)) \<and> distinct (map fst (ta_errors_by_code s))
     \<and> 0 \<le> ta_model_calls s \<and> 0 \<le> ta_app_polls s"

lemma sum_update_by:
  "distinct (map fst m) \<Longrightarrow> sum_list (map (\<lambda>x. f (snd x)) (AList.update k v m)) =
     sum_list (map (\<lambda>x. f (snd x)) m) - (case map_of m k of Some n \<Rightarrow> f n | None \<Rightarrow> 0) + (f v :: 'c :: ab_group_add)"
  by (induction m) (auto split: option.splits simp: map_of_eq_None_iff)

lemma sum_update:
  "distinct (map fst m) \<Longrightarrow> sum_list (map snd (AList.update k v m)) =
     sum_list (map snd m) - (case map_of m k of Some n \<Rightarrow> n | None \<Rightarrow> 0) + (v :: int)"
  using sum_update_by [of m "\<lambda>x. x" k v] by (simp add: case_prod_unfold)

lemma sum_bump: "distinct (map fst m) \<Longrightarrow> sum_list (map snd (bump k m)) = sum_list (map snd m) + 1"
  by (simp add: bump_def sum_update split: option.splits)

lemma distinct_bump: "distinct (map fst m) \<Longrightarrow> distinct (map fst (bump k m))"
  by (simp add: bump_def distinct_update)

lemma balanced_empty [simp]: "balanced (empty_tally k)" "balanced (empty_stats k)"
  by (simp_all add: balanced_def empty_tally_def empty_stats_def tally.defs)

lemmas telemetry_defs = add_span_def add_samples_def add_amounts_def count_error_def count_call_def Let_def

lemma balanced_stages:
  "balanced (add_span e s) = balanced s" "balanced (add_samples e s) = balanced s"
  "balanced (add_amounts e s) = balanced s"
  "balanced s \<Longrightarrow> balanced (count_error e s)" "balanced s \<Longrightarrow> balanced (count_call e s)"
  by (auto simp: balanced_def telemetry_defs sum_bump distinct_bump)

lemma balanced_add: "balanced s \<Longrightarrow> balanced (stats_add e m s)"
  by (simp add: stats_add_def add_telemetry_def balanced_stages) (simp add: balanced_def)

lemma balanced_finish: "balanced (stats_finish s) = balanced s"
  by (simp add: balanced_def stats_finish_def Let_def)

lemma by_via_stages [simp]:
  "ta_by_via (add_span e s) = ta_by_via s" "ta_by_via (add_samples e s) = ta_by_via s"
  "ta_by_via (add_amounts e s) = ta_by_via s" "ta_by_via (count_error e s) = ta_by_via s"
  "ta_by_via (count_call e s) = ta_by_via s"
  by (simp_all add: telemetry_defs)

lemma stats_add_by_via [simp]: "ta_by_via (stats_add e m s) = ta_by_via s"
  by (simp add: stats_add_def add_telemetry_def)

lemma balanced_by_via: "balanced (s\<lparr>ta_by_via := b\<rparr>) = balanced s"
  by (simp add: balanced_def)

definition balanced_via :: "(string \<times> tally) list \<Rightarrow> bool" where
  "balanced_via by = list_all (\<lambda>(_, s). balanced s) by"

definition balanced_keys :: "(string \<times> stats) list \<Rightarrow> bool" where
  "balanced_keys ks = list_all (\<lambda>(_, s). balanced s \<and> balanced_via (ta_by_via s)) ks"

definition balanced_report :: "report \<Rightarrow> bool" where
  "balanced_report r \<longleftrightarrow> balanced (rp_total r) \<and> balanced_via (rp_by_via r) \<and> balanced_keys (rp_keys r)
     \<and> list_all (\<lambda>d. balanced (dr_total d) \<and> balanced_via (dr_by_via d) \<and> balanced_keys (dr_keys d)) (rp_daily r)"

lemma list_all_update_alist:
  "list_all P m \<Longrightarrow> P (k, v) \<Longrightarrow> list_all P (AList.update k v m)"
  by (induction m) auto

lemma list_all_map_of: "list_all P m \<Longrightarrow> map_of m k = Some v \<Longrightarrow> P (k, v)"
  by (metis list_all_iff map_of_SomeD)

lemma balanced_add_via: "balanced_via by \<Longrightarrow> balanced_via (add_via e m by)"
  by (auto simp: balanced_via_def add_via_def Let_def intro!: list_all_update_alist balanced_add split: option.splits
      dest: list_all_map_of)

lemma balanced_add_to_key:
  assumes "balanced_keys ks"
  shows "balanced_keys (add_to_key e m ks)"
proof -
  let ?s = "case map_of ks (ev_key_id e) of Some s \<Rightarrow> s | None \<Rightarrow> empty_stats (ev_key_id e)"
  have "balanced ?s \<and> balanced_via (ta_by_via ?s)"
  proof (cases "map_of ks (ev_key_id e)")
    case None
    then show ?thesis by (simp add: empty_stats_def tally.defs balanced_def empty_tally_def balanced_via_def)
  next
    case (Some s)
    then show ?thesis using assms list_all_map_of [of _ ks] unfolding balanced_keys_def by fastforce
  qed
  then have "balanced (stats_add e m ?s)" "balanced_via (add_via e m (ta_by_via (stats_add e m ?s)))"
    by (auto intro!: balanced_add balanced_add_via simp: stats_add_by_via)
  then show ?thesis using assms
    unfolding balanced_keys_def add_to_key_def Let_def
    by (intro list_all_update_alist) (auto simp: balanced_by_via)
qed

lemma balanced_add_pass:
  assumes "balanced_report r"
  shows "balanced_report (add_pass f e m r)"
proof -
  have day: "balanced (dr_total d) \<and> balanced_via (dr_by_via d) \<and> balanced_keys (dr_keys d) \<Longrightarrow>
     balanced (dr_total (add_to_day e m d)) \<and> balanced_via (dr_by_via (add_to_day e m d))
       \<and> balanced_keys (dr_keys (add_to_day e m d))" for d
    by (simp add: add_to_day_def balanced_add balanced_add_via balanced_add_to_key)
  show ?thesis using assms day
    by (auto simp: balanced_report_def add_pass_def Let_def balanced_add balanced_add_via balanced_add_to_key
        list_all_length nth_list_update)
qed

lemma balanced_malformed: "balanced_report (r\<lparr>rp_malformed := n\<rparr>) = balanced_report r"
  by (simp add: balanced_report_def)

lemma aggregate_loop_invariant:
  assumes step: "\<And>f r e m. P r \<Longrightarrow> P (add_pass f e m r)" and mal: "\<And>r n. P r \<Longrightarrow> P (r\<lparr>rp_malformed := n\<rparr>)"
  shows "aggregate_loop decode f rep r = Some rep' \<Longrightarrow> P rep \<Longrightarrow> P rep'"
proof (induction decode f rep r rule: aggregate_loop.induct)
  case (1 decode f rep r)
  obtain line fin r' where rl: "read_line r = (line, fin, r')" by (cases "read_line r") auto
  let ?rep = "case line of None \<Rightarrow> rep\<lparr>rp_malformed := rp_malformed rep + 1\<rparr>
      | Some l \<Rightarrow> if l = [] then rep
        else (case decode l of None \<Rightarrow> rep\<lparr>rp_malformed := rp_malformed rep + 1\<rparr> | Some e \<Rightarrow> add_event f e rep)"
  have P: "P ?rep" using 1(3) step mal by (auto simp: add_event_def split: option.splits)
  show ?case
  proof (cases "fin = SliceLine")
    case True
    with 1(2) rl have "aggregate_loop decode f ?rep r' = Some rep'"
      by (subst (asm) aggregate_loop.simps) (simp add: Let_def)
    then show ?thesis using 1(1) [OF rl [symmetric] refl _ refl] True P by simp
  next
    case False
    with 1(2) rl have "rep' = ?rep"
      by (subst (asm) aggregate_loop.simps) (auto simp: Let_def split: if_splits)
    with P show ?thesis by simp
  qed
qed

lemma balanced_finish_via: "balanced_via (finish_via by) = balanced_via by"
  by (auto simp: balanced_via_def finish_via_def list_all_iff balanced_finish)

lemma by_via_finish [simp]: "ta_by_via (stats_finish s) = ta_by_via s"
  by (simp add: stats_finish_def Let_def)

lemma balanced_finish_keys: "balanced_keys ks \<Longrightarrow> balanced_keys (finish_keys ks)"
  by (auto simp: balanced_keys_def finish_keys_def list_all_iff balanced_finish balanced_by_via balanced_finish_via)

lemma balanced_finish_report: "balanced_report r \<Longrightarrow> balanced_report (finish_report r)"
  by (auto simp: balanced_report_def finish_report_def finish_day_def list_all_iff balanced_finish balanced_finish_via
      balanced_finish_keys)

lemma balanced_empty_report: "balanced_report (empty_report f)"
  by (simp add: balanced_report_def empty_report_def balanced_via_def balanced_keys_def list_all_iff)

text \<open>
  In every report, whatever the input: each tally (the total, each key, each day, each way in) counts as
  requests exactly its model calls and its app polls, and its errors are the sum of its errors by code.
\<close>

theorem report_is_balanced:
  assumes "aggregate decode f r = Some rep"
  shows "balanced_report rep"
proof -
  from assms obtain rep' where "aggregate_loop decode f (empty_report f) r = Some rep'" "rep = finish_report rep'"
    by (auto simp: aggregate_def)
  then show ?thesis
    using aggregate_loop_invariant [of balanced_report decode f "empty_report f" r rep']
    by (simp add: balanced_add_pass balanced_malformed balanced_empty_report balanced_finish_report)
qed

definition sample_filter :: filter_spec where
  "sample_filter = \<lparr>fl_key_id = [], fl_since = 0, fl_until = 0, fl_days = 1\<rparr>"

theorem report_is_balanced_witness:
  "\<exists>rep. aggregate (\<lambda>l. if l = ''x'' then Some empty_event else None) sample_filter
       \<lparr>sr_rest = ''x'', sr_fails = False\<rparr> = Some rep \<and> balanced_report rep"
proof -
  have "good_line ''x''" by (simp add: good_line_def newline_def max_line_def)
  then obtain rep where a: "aggregate (\<lambda>l. if l = ''x'' then Some empty_event else None) sample_filter
       \<lparr>sr_rest = ''x'', sr_fails = False\<rparr> = Some rep"
    by (simp add: aggregate_def aggregate_loop.simps read_line_good(2) Let_def)
  then show ?thesis using report_is_balanced [OF a] by blast
qed

text \<open>Charges by class, and sums over the keys of a report.\<close>

definition charged_of :: "string \<Rightarrow> usage_meter list \<Rightarrow> rat" where
  "charged_of c ms = sum_list (map um_charged (filter (\<lambda>m. um_class m = c) ms))"

lemma charged_merge: "charged_of c (merge_meter m ms) = charged_of c ms + charged_of c [m]"
  by (induction m ms rule: merge_meter.induct) (auto simp: charged_of_def)

lemma charged_add_meters: "charged_of c (add_meters e ms) = charged_of c ms + charged_of c (resource_meters e)"
proof -
  have "charged_of c (fold merge_meter xs ms) = charged_of c ms + charged_of c xs" for xs
    by (induction xs arbitrary: ms) (simp_all add: charged_merge, simp_all add: charged_of_def)
  then show ?thesis by (simp add: add_meters_def)
qed

definition keys_charged :: "string \<Rightarrow> (string \<times> stats) list \<Rightarrow> rat" where
  "keys_charged c ks = sum_list (map (\<lambda>x. charged_of c (ta_meters (snd x))) ks)"

definition keys_requests :: "(string \<times> stats) list \<Rightarrow> int" where
  "keys_requests ks = sum_list (map (\<lambda>x. ta_requests (snd x)) ks)"

lemma requests_stages:
  "ta_requests (add_span e s) = ta_requests s" "ta_requests (add_samples e s) = ta_requests s"
  "ta_requests (add_amounts e s) = ta_requests s" "ta_requests (count_error e s) = ta_requests s"
  "ta_requests (count_call e s) = ta_requests s + 1"
  by (simp_all add: telemetry_defs)

lemma meters_stages:
  "ta_meters (add_span e s) = ta_meters s" "ta_meters (add_samples e s) = ta_meters s"
  "ta_meters (add_amounts e s) = ta_meters s" "ta_meters (count_error e s) = ta_meters s"
  "ta_meters (count_call e s) = ta_meters s"
  by (simp_all add: telemetry_defs)

lemma stats_add_amounts:
  "charged_of c (ta_meters (stats_add e m s)) = charged_of c (ta_meters s) + (if m then charged_of c (resource_meters e) else 0)"
  "ta_requests (stats_add e m s) = ta_requests s + (if m \<or> ev_kind e = ''search'' then 0 else 1)"
  by (simp_all add: stats_add_def add_telemetry_def charged_add_meters requests_stages meters_stages)

lemma empty_amounts [simp]:
  "charged_of c (ta_meters (empty_stats k)) = 0" "ta_requests (empty_stats k) = 0"
  "charged_of c (ta_meters (empty_tally k)) = 0" "ta_requests (empty_tally k) = 0"
  by (simp_all add: empty_stats_def empty_tally_def tally.defs charged_of_def)

lemma add_to_key_sums:
  assumes "distinct (map fst ks)"
  shows "keys_charged c (add_to_key e m ks) = keys_charged c ks + (if m then charged_of c (resource_meters e) else 0)"
    and "keys_requests (add_to_key e m ks) = keys_requests ks + (if m \<or> ev_kind e = ''search'' then 0 else 1)"
    and "distinct (map fst (add_to_key e m ks))"
  using assms
  by (simp_all add: add_to_key_def keys_charged_def keys_requests_def Let_def distinct_update stats_add_amounts
      sum_update_by [where f = "\<lambda>s. charged_of c (ta_meters s)"] sum_update_by [where f = ta_requests]
      split: option.splits)

definition sums_agree :: "report \<Rightarrow> bool" where
  "sums_agree r \<longleftrightarrow> distinct (map fst (rp_keys r)) \<and> ta_requests (rp_total r) = keys_requests (rp_keys r)
     \<and> (\<forall>c. charged_of c (ta_meters (rp_total r)) = keys_charged c (rp_keys r))"

lemma sums_agree_pass:
  assumes "sums_agree r"
  shows "sums_agree (add_pass f e m r)"
proof -
  have "distinct (map fst (rp_keys r))" using assms by (simp add: sums_agree_def)
  note s = add_to_key_sums [OF this]
  show ?thesis using assms
    by (simp add: sums_agree_def add_pass_def Let_def s stats_add_amounts)
qed

lemma sum_list_sort_key: "sum_list (map h (sort_key g xs)) = (sum_list (map h xs) :: 'c :: comm_monoid_add)"
proof -
  have "sum_list (map h (insort_key g x ys)) = h x + sum_list (map h ys)" for x ys
    by (induction ys) (simp_all add: ac_simps)
  then show ?thesis by (induction xs) simp_all
qed

lemma distinct_map_sort_key: "distinct (map h (sort_key g xs)) = distinct (map h xs)"
proof -
  have "distinct (map h (insort_key g x ys)) = distinct (map h (x # ys))" for x ys
    by (induction ys) (auto simp: set_insort_key)
  then show ?thesis by (induction xs) auto
qed

lemma charged_sort: "charged_of c (sort_key g ms) = charged_of c ms"
  by (simp add: charged_of_def filter_sort sum_list_sort_key)

lemma finish_amounts [simp]:
  "charged_of c (ta_meters (stats_finish s)) = charged_of c (ta_meters s)" "ta_requests (stats_finish s) = ta_requests s"
  by (simp_all add: stats_finish_def Let_def charged_sort)

lemma sums_agree_finish: "sums_agree r \<Longrightarrow> sums_agree (finish_report r)"
proof -
  have "keys_charged c (finish_keys ks) = keys_charged c ks" "keys_requests (finish_keys ks) = keys_requests ks" for c ks
    by (simp_all add: keys_charged_def keys_requests_def finish_keys_def sum_list_sort_key comp_def case_prod_unfold)
  moreover have "distinct (map fst (finish_keys ks)) = distinct (map fst ks)" for ks
    by (simp add: finish_keys_def distinct_map_sort_key comp_def case_prod_unfold)
  ultimately show "sums_agree r \<Longrightarrow> sums_agree (finish_report r)"
    by (simp add: sums_agree_def finish_report_def)
qed

text \<open>
  Nothing is charged twice or lost between the rows of a report: in every class of resource the amounts
  charged to the keys add up to the amount charged in total, each key has one row, and so do the requests.
\<close>

theorem report_sums_agree:
  assumes "aggregate decode f r = Some rep"
  shows "sums_agree rep"
proof -
  from assms obtain rep' where "aggregate_loop decode f (empty_report f) r = Some rep'" "rep = finish_report rep'"
    by (auto simp: aggregate_def)
  moreover have "sums_agree (empty_report f)"
    by (simp add: sums_agree_def empty_report_def keys_requests_def keys_charged_def)
  moreover have "sums_agree (r\<lparr>rp_malformed := n\<rparr>) = sums_agree r" for r n
    by (simp add: sums_agree_def)
  ultimately show ?thesis
    using aggregate_loop_invariant [of sums_agree decode f "empty_report f" r rep']
    by (simp add: sums_agree_pass sums_agree_finish)
qed

theorem report_sums_agree_witness:
  "\<exists>rep. aggregate (\<lambda>l. if l = ''x'' then Some empty_event else None) sample_filter
       \<lparr>sr_rest = ''x'', sr_fails = False\<rparr> = Some rep \<and> sums_agree rep"
proof -
  have "good_line ''x''" by (simp add: good_line_def newline_def max_line_def)
  then obtain rep where a: "aggregate (\<lambda>l. if l = ''x'' then Some empty_event else None) sample_filter
       \<lparr>sr_rest = ''x'', sr_fails = False\<rparr> = Some rep"
    by (simp add: aggregate_def aggregate_loop.simps read_line_good(2) Let_def)
  then show ?thesis using report_sums_agree [OF a] by blast
qed

end
