(* ===== verification/Limiter.thy ===== *)
theory Limiter
  imports Gateway_Errors Keys Usage
begin

text \<open>
  The per-key limiter (internal/gateway/limits.go) and the audio half of its ledger (reserveAudio and
  settleAudio of internal/gateway/audio.go). Every operation holds the key's lock and reads the clock
  once, so it is one function from the key's state to the key's state with the time as an argument. The map
  of meters is total: the code makes an absent meter on its first use, all zero.
\<close>

definition window :: duration where "window = 60 * second"

record log_entry =
  le_t :: gotime
  le_req :: int
  le_seq :: nat

record meter_charge =
  mc_t :: gotime
  mc_amount :: rat

record meter_state =
  ms_today :: rat
  ms_reserved :: rat
  ms_log :: "meter_charge list"

definition zero_meter :: meter_state where
  "zero_meter = \<lparr>ms_today = 0, ms_reserved = 0, ms_log = []\<rparr>"

record key_state =
  ks_image_holds :: "string list"
  ks_image_reads :: int
  ks_log :: "log_entry list"
  ks_seq :: nat
  ks_in_flight :: int
  ks_day :: gotime
  ks_last_seen :: gotime
  ks_meters :: "string \<Rightarrow> meter_state"

definition new_key_state :: key_state where
  "new_key_state = \<lparr>ks_image_holds = [], ks_image_reads = 0, ks_log = [], ks_seq = 0, ks_in_flight = 0,
     ks_day = 0, ks_last_seen = 0, ks_meters = (\<lambda>_. zero_meter)\<rparr>"

definition meter :: "string \<Rightarrow> key_state \<Rightarrow> meter_state" where "meter c st = ks_meters st c"

definition set_meter :: "string \<Rightarrow> meter_state \<Rightarrow> key_state \<Rightarrow> key_state" where
  "set_meter c m st = st\<lparr>ks_meters := (ks_meters st)(c := m)\<rparr>"

definition tokens_today :: "key_state \<Rightarrow> int" where "tokens_today st = trunc (ms_today (meter ''tokens'' st))"
definition tokens_reserved :: "key_state \<Rightarrow> int" where
  "tokens_reserved st = trunc (ms_reserved (meter ''tokens'' st))"

record admission =
  ad_detached :: bool
  ad_audio_seconds :: rat
  ad_speech_chars :: int
  ad_key :: string
  ad_seq :: nat
  ad_reserved :: int

type_synonym limiter = "string \<rightharpoonup> key_state"

definition new_limiter :: limiter where "new_limiter = (\<lambda>_. None)"

text \<open>\<open>limiter.state\<close>: the state of a key, made on first use.\<close>

definition key_state_of :: "limiter \<Rightarrow> string \<Rightarrow> key_state" where
  "key_state_of l kid = (case l kid of Some st \<Rightarrow> st | None \<Rightarrow> new_key_state)"

section \<open>Pruning and counting\<close>

definition prune_meter :: "gotime \<Rightarrow> bool \<Rightarrow> meter_state \<Rightarrow> meter_state" where
  "prune_meter cutoff same_day m =
     (let m = m\<lparr>ms_log := dropWhile (\<lambda>e. \<not> mc_t e > cutoff) (ms_log m)\<rparr>
      in if \<not> same_day then m\<lparr>ms_today := 0\<rparr> else m)"

definition prune :: "gotime \<Rightarrow> key_state \<Rightarrow> key_state" where
  "prune now st =
     (let cutoff = now - window; day = truncate_day now in
      st\<lparr>ks_log := dropWhile (\<lambda>e. \<not> le_t e > cutoff) (ks_log st),
         ks_meters := (\<lambda>c. prune_meter cutoff (day = ks_day st) (ks_meters st c)),
         ks_day := day\<rparr>)"

definition used_reqs :: "key_state \<Rightarrow> int" where "used_reqs st = sum_list (map le_req (ks_log st))"

definition used_tokens :: "key_state \<Rightarrow> int" where
  "used_tokens st = sum_list (map (\<lambda>e. trunc (mc_amount e)) (ms_log (meter ''tokens'' st)))"

text \<open>\<open>int(math.Ceil(t.Sub(now).Seconds()))\<close>, at least 1.\<close>

definition seconds_until :: "gotime \<Rightarrow> gotime \<Rightarrow> int" where
  "seconds_until t now = (let s = - ((- time_sub t now) div second) in if s < 1 then 1 else s)"

section \<open>Admission\<close>

definition key_touch :: "gotime \<Rightarrow> key_state \<Rightarrow> key_state" where
  "key_touch now st = st\<lparr>ks_last_seen := now\<rparr>"

definition touch :: "gotime \<Rightarrow> string \<Rightarrow> limiter \<Rightarrow> limiter" where
  "touch now kid l = l(kid \<mapsto> key_touch now (key_state_of l kid))"

definition key_admit ::
    "gotime \<Rightarrow> string \<Rightarrow> limits \<Rightarrow> bool \<Rightarrow> key_state \<Rightarrow> (gw_error + admission) \<times> key_state" where
  "key_admit now kid lims detached st =
     (let st = (prune now st)\<lparr>ks_last_seen := now\<rparr> in
      if \<not> detached \<and> lm_max_concurrent lims > 0 \<and> ks_in_flight st \<ge> lm_max_concurrent lims then
        (let e = errf CodeConcurrencyLimited 1 ''this key allows %d request(s) at a time; %d in flight''
                   [FInt (lm_max_concurrent lims), FInt (ks_in_flight st)]
         in (Inl (e\<lparr>ge_limit := lm_max_concurrent lims, ge_in_flight := ks_in_flight st\<rparr>), st))
      else let reqs = used_reqs st in
      if lm_rpm lims > 0 \<and> reqs \<ge> lm_rpm lims then
        (let oldest = (case find (\<lambda>e. le_req e = 1) (ks_log st) of Some e \<Rightarrow> le_t e | None \<Rightarrow> 0)
         in (Inl (errf CodeRateLimited (seconds_until (oldest + window) now)
                    ''rate limit: %d requests per minute; %d used'' [FInt (lm_rpm lims), FInt reqs]), st))
      else
        (let st = (if \<not> detached then st\<lparr>ks_in_flight := ks_in_flight st + 1\<rparr> else st);
             st = st\<lparr>ks_seq := ks_seq st + 1\<rparr>;
             st = st\<lparr>ks_log := ks_log st @ [\<lparr>le_t = now, le_req = 1, le_seq = ks_seq st\<rparr>]\<rparr>
         in (Inr \<lparr>ad_detached = detached, ad_audio_seconds = 0, ad_speech_chars = 0, ad_key = kid,
                  ad_seq = ks_seq st, ad_reserved = 0\<rparr>, st)))"

definition admit_resource ::
    "gotime \<Rightarrow> string \<Rightarrow> limits \<Rightarrow> bool \<Rightarrow> limiter \<Rightarrow> (gw_error + admission) \<times> limiter" where
  "admit_resource now kid lims detached l =
     (let (r, st) = key_admit now kid lims detached (key_state_of l kid) in (r, l(kid \<mapsto> st)))"

definition admit :: "gotime \<Rightarrow> string \<Rightarrow> limits \<Rightarrow> limiter \<Rightarrow> (gw_error + admission) \<times> limiter" where
  "admit now kid lims l = admit_resource now kid lims False l"

section \<open>Reservation\<close>

definition min_output_tokens :: int where "min_output_tokens = 16"

definition fit_budget :: "int \<Rightarrow> int \<Rightarrow> int \<Rightarrow> int \<Rightarrow> int \<times> bool" where
  "fit_budget limit used prompt out =
     (if limit \<le> 0 then (out, True)
      else (let room = limit - used - prompt in
        if out = 0 then (0, room \<ge> 0)
        else if out > 0 \<and> out \<le> room then (out, True)
        else if room \<ge> min_output_tokens then (room, True)
        else (0, False)))"

definition floor_for :: "int \<Rightarrow> int" where
  "floor_for out = (if out = 0 then 0 else if out < 0 then min_output_tokens else min out min_output_tokens)"

text \<open>
  The walk of the charge log that finds when enough tokens will have expired: the wait of the first entry
  after which the request fits (if any), and the tokens left when the walk stops.
\<close>

fun retry_walk :: "gotime \<Rightarrow> int \<Rightarrow> int \<Rightarrow> int \<Rightarrow> meter_charge list \<Rightarrow> int option \<times> int" where
  "retry_walk now need minute_limit remaining [] = (None, remaining)"
| "retry_walk now need minute_limit remaining (e # es) =
     (let remaining = remaining - trunc (mc_amount e) in
      if remaining + need \<le> minute_limit then (Some (seconds_until (mc_t e + window) now), remaining)
      else retry_walk now need minute_limit remaining es)"

definition tpm_retry :: "gotime \<Rightarrow> int \<Rightarrow> int \<Rightarrow> int \<Rightarrow> meter_charge list \<Rightarrow> int" where
  "tpm_retry now need minute_limit live cs =
     (let (r, remaining) = retry_walk now need minute_limit live cs;
          retry = (case r of Some w \<Rightarrow> w | None \<Rightarrow> 1)
      in if remaining + need > minute_limit then seconds_until (now + window) now else retry)"

definition key_reserve ::
    "gotime \<Rightarrow> limits \<Rightarrow> int \<Rightarrow> int \<Rightarrow> admission \<Rightarrow> key_state
     \<Rightarrow> (gw_error + int) \<times> admission \<times> key_state" where
  "key_reserve now lims prompt out a st =
     (let st = prune now st;
          m = meter ''tokens'' st;
          minute_limit = budget_amount (limit_budgets lims) ''tokens'' ''minute'';
          daily = budget_amount (limit_budgets lims) ''tokens'' ''day'';
          live = used_tokens st + trunc (ms_reserved m);
          need = prompt + floor_for out;
          (fitted, ok) = fit_budget minute_limit live prompt out
      in if \<not> ok then
           (Inl (errf CodeRateLimited (tpm_retry now need minute_limit live (ms_log m))
                  ''token limit: %d tokens per minute; %d used, this request needs at least %d''
                  [FInt minute_limit, FInt live, FInt need]), a, st)
         else let out = fitted;
                  today = trunc (ms_today m + ms_reserved m);
                  (fitted, ok) = fit_budget daily today prompt out
         in if \<not> ok then
           (Inl (errf CodeBudgetExhausted (seconds_until (ks_day st + day_length) now)
                  ''daily budget: %d tokens per day (UTC); %d used, this request needs at least %d''
                  [FInt daily, FInt today, FInt need]), a, st)
         else let out = fitted;
                  a = a\<lparr>ad_reserved := prompt + max out 0\<rparr>
         in (Inr out, a, set_meter ''tokens'' (m\<lparr>ms_reserved := ms_reserved m + of_int (ad_reserved a)\<rparr>) st))"

definition reserve ::
    "gotime \<Rightarrow> limits \<Rightarrow> int \<Rightarrow> int \<Rightarrow> admission \<Rightarrow> limiter \<Rightarrow> (gw_error + int) \<times> admission \<times> limiter" where
  "reserve now lims prompt out a l =
     (let (r, a', st) = key_reserve now lims prompt out a (key_state_of l (ad_key a))
      in (r, a', l(ad_key a \<mapsto> st)))"

section \<open>Settlement\<close>

definition key_settle :: "gotime \<Rightarrow> admission \<Rightarrow> bool \<Rightarrow> int \<Rightarrow> key_state \<Rightarrow> key_state" where
  "key_settle now a counted charged st =
     (let st = prune now st;
          st = (if \<not> ad_detached a then st\<lparr>ks_in_flight := ks_in_flight st - 1\<rparr> else st);
          m = meter ''tokens'' st;
          m = m\<lparr>ms_reserved := ms_reserved m - of_int (ad_reserved a)\<rparr>;
          st = (if \<not> counted
                then st\<lparr>ks_log := remove_first (\<lambda>e. le_req e = 1 \<and> le_seq e = ad_seq a) (ks_log st)\<rparr> else st);
          m = (if charged > 0
               then m\<lparr>ms_log := ms_log m @ [\<lparr>mc_t = now, mc_amount = of_int charged\<rparr>],
                      ms_today := ms_today m + of_int charged\<rparr> else m)
      in set_meter ''tokens'' m st)"

definition settle :: "gotime \<Rightarrow> admission \<Rightarrow> bool \<Rightarrow> int \<Rightarrow> limiter \<Rightarrow> gotime \<times> limiter" where
  "settle now a counted charged l =
     (now, l(ad_key a \<mapsto> key_settle now a counted charged (key_state_of l (ad_key a))))"

section \<open>Counters and the seed of the day\<close>

definition key_counts :: "key_state \<Rightarrow> key_counters" where
  "key_counts st =
     (let reqs = used_reqs st; tokens = used_tokens st;
          text_m = meter ''tokens'' st; audio = meter ''audio'' st; speech = meter ''speech'' st
      in \<lparr>kc_today_searches = trunc (ms_today (meter ''search'' st) + ms_reserved (meter ''search'' st)),
          kc_today_images = trunc (ms_today (meter ''images'' st)) + int (length (ks_image_holds st)),
          kc_today_audio_seconds = ms_today audio + ms_reserved audio,
          kc_today_speech_chars = trunc (ms_today speech + ms_reserved speech),
          kc_in_flight = ks_in_flight st, kc_rpm_used = reqs,
          kc_tpm_used = tokens + trunc (ms_reserved text_m),
          kc_today_tokens = trunc (ms_today text_m + ms_reserved text_m), kc_last_seen = ks_last_seen st\<rparr>)"

definition zero_counters :: key_counters where
  "zero_counters = \<lparr>kc_today_searches = 0, kc_today_images = 0, kc_today_audio_seconds = 0,
     kc_today_speech_chars = 0, kc_in_flight = 0, kc_rpm_used = 0, kc_tpm_used = 0, kc_today_tokens = 0,
     kc_last_seen = 0\<rparr>"

definition counters :: "gotime \<Rightarrow> string \<Rightarrow> limiter \<Rightarrow> key_counters \<times> limiter" where
  "counters now kid l =
     (case l kid of
        None \<Rightarrow> (zero_counters, l)
      | Some st \<Rightarrow> (let st = prune now st in (key_counts st, l(kid \<mapsto> st))))"

text \<open>\<open>allCounters\<close>: \<open>ids\<close> are the keys of the map in the order the iteration gives them.\<close>

fun all_counters :: "gotime \<Rightarrow> string list \<Rightarrow> limiter \<Rightarrow> (string \<times> key_counters) list \<times> limiter" where
  "all_counters now [] l = ([], l)"
| "all_counters now (kid # ids) l =
     (let (c, l) = counters now kid l; (cs, l) = all_counters now ids l in ((kid, c) # cs, l))"

fun seed_meters :: "usage_meter list \<Rightarrow> key_state \<Rightarrow> key_state" where
  "seed_meters [] st = st"
| "seed_meters (m # ms) st =
     seed_meters ms (set_meter (um_class m) ((meter (um_class m) st)\<lparr>ms_today := um_charged m\<rparr>) st)"

definition seed_key :: "gotime \<Rightarrow> 'a tally_scheme \<Rightarrow> key_state \<Rightarrow> key_state" where
  "seed_key day s st = seed_meters (ta_meters s) (st\<lparr>ks_day := day, ks_last_seen := ta_last_seen s\<rparr>)"

definition seed_today :: "report \<Rightarrow> gotime \<Rightarrow> limiter \<Rightarrow> limiter" where
  "seed_today rep day l =
     fold (\<lambda>(_, s) l. if ta_key_id s = [] then l
                      else l(ta_key_id s \<mapsto> seed_key day s (key_state_of l (ta_key_id s)))) (rp_keys rep) l"

section \<open>The audio ledger\<close>

datatype outcome = OutcomeNone | OutcomeRejected | OutcomeQueueLost | OutcomeEngineErr | OutcomeServed | OutcomeCut

text \<open>
  \<open>reserveAudio\<close>: \<open>need\<close> is the seconds of a transcription (\<open>ev.ReservedSeconds\<close>), \<open>chars\<close> the
  characters of a speech request; \<open>g3\<close> prints a number with \<open>%.3g\<close>.
\<close>

definition key_reserve_audio ::
    "(rat \<Rightarrow> string) \<Rightarrow> gotime \<Rightarrow> limits \<Rightarrow> bool \<Rightarrow> rat \<Rightarrow> int \<Rightarrow> admission \<Rightarrow> key_state
     \<Rightarrow> gw_error option \<times> admission \<times> key_state" where
  "key_reserve_audio g3 now lims transcribe need chars a st =
     (let st = prune now st;
          retry = seconds_until (ks_day st + day_length) now
      in if transcribe then
           (let m = meter ''audio'' st;
                limit = of_int (budget_amount (limit_budgets lims) ''audio'' ''day'')
            in if limit > 0 \<and> ms_today m + ms_reserved m + need > limit
               then (Some (errf CodeAudioBudgetExhausted retry
                       ''daily audio budget: %s seconds remaining; this request reserves %s''
                       [FStr (g3 (max 0 (limit - ms_today m - ms_reserved m))), FStr (g3 need)]), a, st)
               else (None, a\<lparr>ad_audio_seconds := need\<rparr>,
                     set_meter ''audio'' (m\<lparr>ms_reserved := ms_reserved m + need\<rparr>) st))
         else
           (let m = meter ''speech'' st;
                limit = of_int (budget_amount (limit_budgets lims) ''speech'' ''day'');
                need = of_int chars
            in if limit > 0 \<and> ms_today m + ms_reserved m + need > limit
               then (Some (errf CodeSpeechBudgetExhausted retry ''daily speech character budget is exhausted'' []), a, st)
               else (None, a\<lparr>ad_speech_chars := chars\<rparr>,
                     set_meter ''speech'' (m\<lparr>ms_reserved := ms_reserved m + need\<rparr>) st)))"

text \<open>What \<open>settleAudio\<close> reads of the finished request.\<close>

record audio_end =
  ae_speech :: bool
  ae_dispatched :: bool
  ae_outcome :: outcome
  ae_client_cut :: bool
  ae_delivered :: bool
  ae_measured :: bool
  ae_duration :: "rat option"
  ae_gone :: bool

text \<open>The seconds a dispatched transcription settles to: the engine's own measure when it is trusted.\<close>

definition settled_seconds :: "audio_end \<Rightarrow> admission \<Rightarrow> event \<Rightarrow> event" where
  "settled_seconds x a e =
     (let e = e\<lparr>ev_seconds := ad_audio_seconds a, ev_seconds_estimated := \<not> ae_measured x\<rparr>;
          e = (case ae_duration x of
                 Some d \<Rightarrow> if ae_outcome x \<noteq> OutcomeCut \<and> \<not> ae_gone x
                           then e\<lparr>ev_seconds := d, ev_seconds_estimated := False\<rparr> else e
               | None \<Rightarrow> e)
      in e\<lparr>ev_overrun_seconds := max 0 (ev_seconds e - ev_reserved_seconds e)\<rparr>)"

text \<open>The result is the event with the settled amounts, the speech characters charged, and the key's state.\<close>

definition key_settle_audio ::
    "gotime \<Rightarrow> audio_end \<Rightarrow> admission \<Rightarrow> event \<Rightarrow> key_state \<Rightarrow> event \<times> int \<times> key_state" where
  "key_settle_audio now x a e st =
     (let st = prune now st;
          au = meter ''audio'' st;
          st = set_meter ''audio'' (au\<lparr>ms_reserved := ms_reserved au - ad_audio_seconds a\<rparr>) st;
          sp = meter ''speech'' st;
          st = set_meter ''speech'' (sp\<lparr>ms_reserved := ms_reserved sp - of_int (ad_speech_chars a)\<rparr>) st;
          e = e\<lparr>ev_settled_at := now\<rparr>
      in if \<not> ae_dispatched x then (e, 0, st)
         else if ae_speech x then
           (let e = e\<lparr>ev_characters := ad_speech_chars a\<rparr> in
            if ae_outcome x = OutcomeServed \<or> ae_client_cut x \<and> ae_delivered x
            then (let sp = meter ''speech'' st
                  in (e, ev_characters e,
                      set_meter ''speech'' (sp\<lparr>ms_today := ms_today sp + of_int (ev_characters e)\<rparr>) st))
            else (e, 0, st))
         else
           (let e = settled_seconds x a e;
                au = meter ''audio'' st
            in (e, 0, set_meter ''audio'' (au\<lparr>ms_today := ms_today au + ev_seconds e\<rparr>) st)))"

section \<open>Facts on pruning, meters and fitting\<close>

lemma meter_set_meter [simp]: "meter c (set_meter d m st) = (if c = d then m else meter c st)"
  by (simp add: meter_def set_meter_def)

lemma set_meter_sel [simp]:
  "ks_log (set_meter c m st) = ks_log st" "ks_seq (set_meter c m st) = ks_seq st"
  "ks_in_flight (set_meter c m st) = ks_in_flight st" "ks_day (set_meter c m st) = ks_day st"
  "ks_image_holds (set_meter c m st) = ks_image_holds st" "ks_last_seen (set_meter c m st) = ks_last_seen st"
  by (simp_all add: set_meter_def)

lemma meter_update [simp]:
  "meter c (st\<lparr>ks_log := l\<rparr>) = meter c st" "meter c (st\<lparr>ks_seq := q\<rparr>) = meter c st"
  "meter c (st\<lparr>ks_in_flight := n\<rparr>) = meter c st" "meter c (st\<lparr>ks_last_seen := t\<rparr>) = meter c st"
  "meter c (st\<lparr>ks_image_holds := h\<rparr>) = meter c st"
  by (simp_all add: meter_def)

lemma prune_sel [simp]:
  "ks_log (prune now st) = dropWhile (\<lambda>e. \<not> now - window < le_t e) (ks_log st)"
  "ks_seq (prune now st) = ks_seq st" "ks_in_flight (prune now st) = ks_in_flight st"
  "ks_day (prune now st) = truncate_day now" "ks_image_holds (prune now st) = ks_image_holds st"
  "ks_last_seen (prune now st) = ks_last_seen st"
  "meter c (prune now st) = prune_meter (now - window) (truncate_day now = ks_day st) (meter c st)"
  by (simp_all add: prune_def Let_def meter_def)

lemma prune_meter_sel [simp]:
  "ms_reserved (prune_meter c d m) = ms_reserved m"
  "ms_today (prune_meter c d m) = (if d then ms_today m else 0)"
  "ms_log (prune_meter c d m) = dropWhile (\<lambda>e. \<not> c < mc_t e) (ms_log m)"
  by (simp_all add: prune_meter_def Let_def)

lemma seconds_until_ge: "1 \<le> seconds_until t now"
  by (simp add: seconds_until_def Let_def)

text \<open>The wait is long enough, and a second less would not be (unless it is the least wait).\<close>

lemma seconds_until_enough:
  assumes "t - now \<le> max_int64" and "now + seconds_until t now * second \<le> now'"
  shows "t \<le> now'"
  using assms by (simp add: seconds_until_def Let_def time_sub_def second_def max_int64_def min_int64_def split: if_splits)

lemma seconds_until_exact:
  assumes "t - now \<le> max_int64" and "1 < seconds_until t now" and "now' \<le> now + (seconds_until t now - 1) * second"
  shows "now' < t"
  using assms by (simp add: seconds_until_def Let_def time_sub_def second_def max_int64_def min_int64_def split: if_splits)

text \<open>
  The shrink-to-fit rule. Under a positive ceiling a request is granted exactly when the prompt and the
  least acceptable output fit in what the ceiling has left; what is granted then fits, is at least that
  floor, is never more than was asked for, and is the most that fits. With no ceiling the output is returned as it came.
\<close>

theorem fit_budget_spec:
  "(limit \<le> 0 \<longrightarrow> fit_budget limit used prompt out = (out, True))
   \<and> (0 < limit \<longrightarrow>
       (snd (fit_budget limit used prompt out) \<longleftrightarrow> used + prompt + floor_for out \<le> limit)
     \<and> (snd (fit_budget limit used prompt out) \<longrightarrow>
         (let r = fst (fit_budget limit used prompt out) in
            used + prompt + r \<le> limit \<and> floor_for out \<le> r \<and> (0 \<le> out \<longrightarrow> r \<le> out)
          \<and> (\<forall>r'. used + prompt + r' \<le> limit \<and> (0 \<le> out \<longrightarrow> r' \<le> out) \<longrightarrow> r' \<le> r))))"
  by (auto simp: fit_budget_def floor_for_def min_output_tokens_def Let_def)

theorem fit_budget_spec_witness:
  "fit_budget 100 60 10 50 = (30, True) \<and> fit_budget 100 60 30 50 = (0, False)"
  using fit_budget_spec [of 100 60 10 50] fit_budget_spec [of 100 60 30 50]
  by (simp add: fit_budget_def min_output_tokens_def)

section \<open>What a reservation guarantees\<close>

definition tpm_live :: "key_state \<Rightarrow> int" where
  "tpm_live st = used_tokens st + trunc (ms_reserved (meter ''tokens'' st))"

definition day_live :: "key_state \<Rightarrow> int" where
  "day_live st = trunc (ms_today (meter ''tokens'' st) + ms_reserved (meter ''tokens'' st))"

lemma tpm_live_def2: "used_tokens st + trunc (ms_reserved (meter ''tokens'' st)) = tpm_live st"
  by (simp add: tpm_live_def)

lemma day_live_def2: "trunc (ms_today (meter ''tokens'' st) + ms_reserved (meter ''tokens'' st)) = day_live st"
  by (simp add: day_live_def)

lemma key_reserve_cases:
  fixes now :: gotime and st :: key_state
  defines "st1 \<equiv> prune now st"
  defines "m \<equiv> meter ''tokens'' st1"
  shows "(\<exists>e. key_reserve now lims prompt out a st = (Inl e, a, st1)
        \<and> (ge_code e = CodeRateLimited
             \<and> \<not> snd (fit_budget (lm_tpm lims) (tpm_live st1) prompt out)
             \<and> ge_retry_after e = tpm_retry now (prompt + floor_for out) (lm_tpm lims) (tpm_live st1) (ms_log m)
           \<or> ge_code e = CodeBudgetExhausted
             \<and> snd (fit_budget (lm_tpm lims) (tpm_live st1) prompt out)
             \<and> \<not> snd (fit_budget (lm_daily_tokens lims) (day_live st1) prompt
                        (fst (fit_budget (lm_tpm lims) (tpm_live st1) prompt out)))
             \<and> ge_retry_after e = seconds_until (ks_day st1 + day_length) now))
    \<or> (\<exists>o1 o2. fit_budget (lm_tpm lims) (tpm_live st1) prompt out = (o1, True)
        \<and> fit_budget (lm_daily_tokens lims) (day_live st1) prompt o1 = (o2, True)
        \<and> key_reserve now lims prompt out a st =
            (Inr o2, a\<lparr>ad_reserved := prompt + max o2 0\<rparr>,
             set_meter ''tokens'' (m\<lparr>ms_reserved := ms_reserved m + of_int (prompt + max o2 0)\<rparr>) st1))"
proof -
  obtain o1 ok1 where f1: "fit_budget (lm_tpm lims) (tpm_live st1) prompt out = (o1, ok1)"
    by (cases "fit_budget (lm_tpm lims) (tpm_live st1) prompt out") auto
  obtain o2 ok2 where f2: "fit_budget (lm_daily_tokens lims) (day_live st1) prompt o1 = (o2, ok2)"
    by (cases "fit_budget (lm_daily_tokens lims) (day_live st1) prompt o1") auto
  have eq: "key_reserve now lims prompt out a st =
     (if \<not> ok1 then (Inl (errf CodeRateLimited (tpm_retry now (prompt + floor_for out) (lm_tpm lims) (tpm_live st1) (ms_log m))
                  ''token limit: %d tokens per minute; %d used, this request needs at least %d''
                  [FInt (lm_tpm lims), FInt (tpm_live st1), FInt (prompt + floor_for out)]), a, st1)
      else if \<not> ok2 then (Inl (errf CodeBudgetExhausted (seconds_until (ks_day st1 + day_length) now)
                  ''daily budget: %d tokens per day (UTC); %d used, this request needs at least %d''
                  [FInt (lm_daily_tokens lims), FInt (day_live st1), FInt (prompt + floor_for out)]), a, st1)
      else (Inr o2, a\<lparr>ad_reserved := prompt + max o2 0\<rparr>,
             set_meter ''tokens'' (m\<lparr>ms_reserved := ms_reserved m + of_int (prompt + max o2 0)\<rparr>) st1))"
    unfolding key_reserve_def Let_def budget_amount_sel st1_def [symmetric] m_def [symmetric]
    using f1 f2 by (simp add: tpm_live_def day_live_def m_def)
  show ?thesis
  proof (cases "ok1 \<and> ok2")
    case True
    with f1 f2 eq show ?thesis by simp
  next
    case False
    with f1 f2 eq show ?thesis by (cases ok1) simp_all
  qed
qed

text \<open>What both ceilings leave room for: the abstract decision.\<close>

definition fits :: "limits \<Rightarrow> key_state \<Rightarrow> int \<Rightarrow> bool" where
  "fits lims st n \<longleftrightarrow> (0 < lm_tpm lims \<longrightarrow> tpm_live st + n \<le> lm_tpm lims)
     \<and> (0 < lm_daily_tokens lims \<longrightarrow> day_live st + n \<le> lm_daily_tokens lims)"

lemma floor_for_le: "0 \<le> out \<Longrightarrow> floor_for out \<le> out"
  by (simp add: floor_for_def)

lemma fit_budget_ok:
  assumes "fit_budget limit used prompt out = (r, True)"
  shows "(0 < limit \<longrightarrow> used + prompt + r \<le> limit) \<and> (limit \<le> 0 \<longrightarrow> r = out)
    \<and> (r = out \<or> floor_for out \<le> r) \<and> (0 \<le> out \<longrightarrow> 0 \<le> r \<and> r \<le> out) \<and> (r < 0 \<longrightarrow> out < 0 \<and> limit \<le> 0)
    \<and> floor_for r = floor_for out"
  using assms by (auto simp: fit_budget_def floor_for_def min_output_tokens_def Let_def split: if_splits)

lemma fit_budget_iff: "snd (fit_budget limit used prompt out) \<longleftrightarrow> limit \<le> 0 \<or> used + (prompt + floor_for out) \<le> limit"
  by (auto simp: fit_budget_def floor_for_def min_output_tokens_def Let_def)

lemma trunc_add_int [simp]: "x \<in> \<int> \<Longrightarrow> trunc (x + of_int n) = trunc x + n"
  by (auto simp: trunc_def elim!: Ints_cases)

lemma used_tokens_set_meter:
  "used_tokens (set_meter ''tokens'' m st) = sum_list (map (\<lambda>e. trunc (mc_amount e)) (ms_log m))"
  by (simp add: used_tokens_def)

lemma reserve_decides_int:
  assumes "0 \<le> prompt" and "st1 = prune now st" and "need = prompt + floor_for out"
    and whole: "ms_reserved (meter ''tokens'' st) \<in> \<int>" "ms_today (meter ''tokens'' st) \<in> \<int>"
  shows "(case key_reserve now lims prompt out a st of
      (Inr out', a', st') \<Rightarrow>
         fits lims st1 need
         \<and> (0 \<le> out \<longrightarrow> 0 \<le> out' \<and> out' \<le> out) \<and> (0 \<le> out' \<longrightarrow> floor_for out \<le> out')
         \<and> (out' < 0 \<longrightarrow> lm_tpm lims \<le> 0 \<and> lm_daily_tokens lims \<le> 0)
         \<and> a' = a\<lparr>ad_reserved := prompt + max out' 0\<rparr>
         \<and> tpm_live st' = tpm_live st1 + ad_reserved a' \<and> day_live st' = day_live st1 + ad_reserved a'
         \<and> fits lims st' 0
    | (Inl e, a', st') \<Rightarrow>
         \<not> fits lims st1 need \<and> a' = a \<and> st' = st1
         \<and> ge_code e = (if 0 < lm_tpm lims \<and> lm_tpm lims < tpm_live st1 + need then CodeRateLimited
                        else CodeBudgetExhausted))"
  using key_reserve_cases [of now lims prompt out a st]
proof (elim disjE exE conjE)
  fix e assume e: "key_reserve now lims prompt out a st = (Inl e, a, prune now st)" "ge_code e = CodeRateLimited"
    "\<not> snd (fit_budget (lm_tpm lims) (tpm_live (prune now st)) prompt out)"
  then show ?thesis using assms by (simp add: fit_budget_iff fits_def)
next
  fix e assume e: "key_reserve now lims prompt out a st = (Inl e, a, prune now st)" "ge_code e = CodeBudgetExhausted"
    "snd (fit_budget (lm_tpm lims) (tpm_live (prune now st)) prompt out)"
    "\<not> snd (fit_budget (lm_daily_tokens lims) (day_live (prune now st)) prompt
               (fst (fit_budget (lm_tpm lims) (tpm_live (prune now st)) prompt out)))"
  then have "floor_for (fst (fit_budget (lm_tpm lims) (tpm_live (prune now st)) prompt out)) = floor_for out"
    by (metis fit_budget_ok prod.collapse)
  with e assms show ?thesis by (auto simp: fit_budget_iff fits_def)
next
  fix o1 o2
  let ?m = "meter ''tokens'' (prune now st)"
  assume o: "fit_budget (lm_tpm lims) (tpm_live (prune now st)) prompt out = (o1, True)"
    "fit_budget (lm_daily_tokens lims) (day_live (prune now st)) prompt o1 = (o2, True)"
    "key_reserve now lims prompt out a st =
            (Inr o2, a\<lparr>ad_reserved := prompt + max o2 0\<rparr>,
             set_meter ''tokens'' (?m\<lparr>ms_reserved := ms_reserved ?m + of_int (prompt + max o2 0)\<rparr>) (prune now st))"
  let ?st' = "set_meter ''tokens'' (?m\<lparr>ms_reserved := ms_reserved ?m + of_int (prompt + max o2 0)\<rparr>) (prune now st)"
  note f1 = fit_budget_ok [OF o(1)] and f2 = fit_budget_ok [OF o(2)]
  have i: "snd (fit_budget (lm_tpm lims) (tpm_live (prune now st)) prompt out)"
    "snd (fit_budget (lm_daily_tokens lims) (day_live (prune now st)) prompt o1)" using o by simp_all
  have w: "ms_reserved ?m \<in> \<int>" "ms_today ?m + ms_reserved ?m \<in> \<int>" using whole by auto
  have live: "tpm_live ?st' = tpm_live (prune now st) + (prompt + max o2 0)"
    "day_live ?st' = day_live (prune now st) + (prompt + max o2 0)"
    using trunc_add_int [OF w(1)] trunc_add_int [OF w(2)]
    by (simp_all add: tpm_live_def day_live_def used_tokens_def add.assoc del: of_int_add trunc_add_int)
  have need: "fits lims (prune now st) need"
    using i f1 assms(3) by (auto simp: fits_def fit_budget_iff)
  have a1: "0 < lm_tpm lims \<longrightarrow> tpm_live (prune now st) + prompt + o1 \<le> lm_tpm lims" using f1 by blast
  have a2: "0 < lm_daily_tokens lims \<longrightarrow> day_live (prune now st) + prompt + o2 \<le> lm_daily_tokens lims" using f2 by blast
  have a3: "0 \<le> o1 \<longrightarrow> 0 \<le> o2 \<and> o2 \<le> o1" using f2 by blast
  have a4: "o1 < 0 \<longrightarrow> lm_tpm lims \<le> 0" using f1 by blast
  have a5: "o2 < 0 \<longrightarrow> lm_daily_tokens lims \<le> 0" "o2 < 0 \<longrightarrow> o1 < 0" using f2 by blast+
  have "0 < lm_tpm lims \<longrightarrow> tpm_live (prune now st) + (prompt + max o2 0) \<le> lm_tpm lims"
    using a1 a3 a4 by (cases "0 \<le> o1") linarith+
  moreover have "0 < lm_daily_tokens lims \<longrightarrow> day_live (prune now st) + (prompt + max o2 0) \<le> lm_daily_tokens lims"
    using a2 a5 by (cases "0 \<le> o2") linarith+
  moreover have "0 \<le> o2 \<longrightarrow> floor_for out \<le> o2" using f1 f2 floor_for_le [of o2] by linarith
  moreover have "o2 < 0 \<longrightarrow> lm_tpm lims \<le> 0 \<and> lm_daily_tokens lims \<le> 0" using a4 a5 by blast
  moreover have "0 \<le> out \<longrightarrow> 0 \<le> o2 \<and> o2 \<le> out" using f1 a3 by linarith
  ultimately show ?thesis using o(3) need live assms(2) by (simp add: fits_def)
qed

text \<open>
  Reservation. A request is granted exactly when its prompt and least output fit under both the minute and
  the day ceiling, counting charges and live reservations. Granted, the output is no more than was asked for
  and at least the floor, exactly prompt and output are reserved, and both ceilings still hold. Refused,
  nothing is reserved: the state is only pruned, and the code names the ceiling.
\<close>

theorem reserve_decides:
  assumes "0 \<le> prompt" and "st1 = prune now st" and "need = prompt + floor_for out"
    and whole: "ms_reserved (meter ''tokens'' st) \<in> \<int>" "ms_today (meter ''tokens'' st) \<in> \<int>"
  shows "(case key_reserve now lims prompt out a st of
      (Inr out', a', st') \<Rightarrow>
         fits lims st1 need
         \<and> (0 \<le> out \<longrightarrow> 0 \<le> out' \<and> out' \<le> out) \<and> (0 \<le> out' \<longrightarrow> floor_for out \<le> out')
         \<and> (out' < 0 \<longrightarrow> lm_tpm lims \<le> 0 \<and> lm_daily_tokens lims \<le> 0)
         \<and> a' = a\<lparr>ad_reserved := prompt + max out' 0\<rparr>
         \<and> tpm_live st' = tpm_live st1 + ad_reserved a' \<and> day_live st' = day_live st1 + ad_reserved a'
         \<and> fits lims st' 0
    | (Inl e, a', st') \<Rightarrow>
         \<not> fits lims st1 need \<and> a' = a \<and> st' = st1
         \<and> ge_code e = (if 0 < lm_tpm lims \<and> lm_tpm lims < tpm_live st1 + need then CodeRateLimited
                        else CodeBudgetExhausted))"
  by (rule reserve_decides_int [OF assms])

text \<open>A key of the host's, and a state with 150 tokens charged this minute, for the witnesses.\<close>

definition sample_limits :: limits where
  "sample_limits = default_limits\<lparr>lm_tpm := 1000, lm_rpm := 2, lm_max_concurrent := 1, lm_daily_tokens := 5000\<rparr>"

definition sample_admission :: admission where
  "sample_admission = \<lparr>ad_detached = False, ad_audio_seconds = 0, ad_speech_chars = 0, ad_key = ''k_1'', ad_seq = 1, ad_reserved = 0\<rparr>"

theorem reserve_decides_witness:
  "\<exists>out' a' st'. key_reserve 7 sample_limits 100 (-1) sample_admission new_key_state = (Inr out', a', st')
     \<and> a' = sample_admission\<lparr>ad_reserved := 100 + max out' 0\<rparr> \<and> fits sample_limits st' 0"
proof -
  have f: "fits sample_limits (prune 7 new_key_state) (100 + floor_for (-1))"
    by (simp add: fits_def tpm_live_def day_live_def used_tokens_def sample_limits_def new_key_state_def zero_meter_def
        meter_def prune_def prune_meter_def floor_for_def min_output_tokens_def Let_def)
  note d = reserve_decides [of 100 "prune 7 new_key_state" 7 new_key_state "100 + floor_for (-1)" "-1" sample_limits sample_admission]
  show ?thesis
    using d f by (cases "key_reserve 7 sample_limits 100 (-1) sample_admission new_key_state")
      (auto simp: new_key_state_def zero_meter_def meter_def split: sum.splits)
qed

section \<open>The ledger of one key\<close>

text \<open>
  Every sequence of operations on one key under fixed limits, with the admissions that are live. An
  operation may come at any time; a settlement charges no more than was reserved (an engine that honours the cap).
\<close>

inductive ledger :: "limits \<Rightarrow> string \<Rightarrow> key_state \<Rightarrow> admission list \<Rightarrow> bool" for lims kid where
  start: "ledger lims kid new_key_state []"
| admit_ok: "ledger lims kid st live \<Longrightarrow> key_admit now kid lims detached st = (Inr a, st') \<Longrightarrow>
     ledger lims kid st' (live @ [a])"
| admit_refused: "ledger lims kid st live \<Longrightarrow> key_admit now kid lims detached st = (Inl e, st') \<Longrightarrow>
     ledger lims kid st' live"
| reserve: "ledger lims kid st (l1 @ a # l2) \<Longrightarrow> ad_reserved a = 0 \<Longrightarrow> 0 \<le> prompt \<Longrightarrow>
     key_reserve now lims prompt out a st = (r, a', st') \<Longrightarrow> ledger lims kid st' (l1 @ a' # l2)"
| settle: "ledger lims kid st (l1 @ a # l2) \<Longrightarrow> charged \<le> ad_reserved a \<Longrightarrow>
     ledger lims kid (key_settle now a counted charged st) (l1 @ l2)"
| read: "ledger lims kid st live \<Longrightarrow> ledger lims kid (prune now st) live"
| touch: "ledger lims kid st live \<Longrightarrow> ledger lims kid (key_touch now st) live"

definition reserved_sum :: "admission list \<Rightarrow> int" where "reserved_sum live = sum_list (map ad_reserved live)"

definition attached :: "admission list \<Rightarrow> nat" where "attached live = length (filter (\<lambda>a. \<not> ad_detached a) live)"

text \<open>The meter part of the invariant.\<close>

definition meter_ok :: "meter_state \<Rightarrow> bool" where
  "meter_ok m \<longleftrightarrow> ms_today m \<in> \<int> \<and> 0 \<le> ms_today m \<and> (\<forall>e \<in> set (ms_log m). 0 \<le> mc_amount e)"

definition ledger_ok :: "limits \<Rightarrow> key_state \<Rightarrow> admission list \<Rightarrow> bool" where
  "ledger_ok lims st live \<longleftrightarrow>
     meter_ok (meter ''tokens'' st)
     \<and> ms_reserved (meter ''tokens'' st) = of_int (reserved_sum live)
     \<and> (\<forall>a \<in> set live. 0 \<le> ad_reserved a)
     \<and> fits lims st 0
     \<and> ks_in_flight st = int (attached live)
     \<and> (0 < lm_max_concurrent lims \<longrightarrow> int (attached live) \<le> lm_max_concurrent lims)"

lemma used_update [simp]:
  "used_tokens (st\<lparr>ks_log := l\<rparr>) = used_tokens st" "used_tokens (st\<lparr>ks_seq := q\<rparr>) = used_tokens st"
  "used_tokens (st\<lparr>ks_in_flight := n\<rparr>) = used_tokens st" "used_tokens (st\<lparr>ks_last_seen := t\<rparr>) = used_tokens st"
  "used_reqs (st\<lparr>ks_last_seen := t\<rparr>) = used_reqs st" "used_reqs (st\<lparr>ks_in_flight := n\<rparr>) = used_reqs st"
  "used_reqs (set_meter c m st) = used_reqs st"
  by (simp_all add: used_tokens_def used_reqs_def)

lemma live_update [simp]:
  "tpm_live (st\<lparr>ks_log := l\<rparr>) = tpm_live st" "tpm_live (st\<lparr>ks_seq := q\<rparr>) = tpm_live st"
  "tpm_live (st\<lparr>ks_in_flight := n\<rparr>) = tpm_live st" "tpm_live (st\<lparr>ks_last_seen := t\<rparr>) = tpm_live st"
  "day_live (st\<lparr>ks_log := l\<rparr>) = day_live st" "day_live (st\<lparr>ks_seq := q\<rparr>) = day_live st"
  "day_live (st\<lparr>ks_in_flight := n\<rparr>) = day_live st" "day_live (st\<lparr>ks_last_seen := t\<rparr>) = day_live st"
  by (simp_all add: tpm_live_def day_live_def)

lemma key_admit_Inr:
  assumes "key_admit now kid lims detached st = (Inr a, st')"
  shows "(detached \<or> lm_max_concurrent lims \<le> 0 \<or> ks_in_flight st < lm_max_concurrent lims)
    \<and> (lm_rpm lims \<le> 0 \<or> used_reqs (prune now st) < lm_rpm lims)
    \<and> a = \<lparr>ad_detached = detached, ad_audio_seconds = 0, ad_speech_chars = 0, ad_key = kid,
            ad_seq = ks_seq st + 1, ad_reserved = 0\<rparr>
    \<and> st' = (prune now st)\<lparr>ks_last_seen := now,
         ks_in_flight := (if detached then ks_in_flight st else ks_in_flight st + 1), ks_seq := ks_seq st + 1,
         ks_log := ks_log (prune now st) @ [\<lparr>le_t = now, le_req = 1, le_seq = ks_seq st + 1\<rparr>]\<rparr>"
  using assms by (cases detached) (auto simp: key_admit_def Let_def not_le split: if_splits)

lemma key_admit_Inl:
  assumes "key_admit now kid lims detached st = (Inl e, st')"
  shows "st' = (prune now st)\<lparr>ks_last_seen := now\<rparr>
    \<and> (ge_code e = CodeConcurrencyLimited \<and> \<not> detached \<and> 0 < lm_max_concurrent lims
          \<and> lm_max_concurrent lims \<le> ks_in_flight st \<and> ge_retry_after e = 1
      \<or> ge_code e = CodeRateLimited \<and> 0 < lm_rpm lims \<and> lm_rpm lims \<le> used_reqs (prune now st)
          \<and> ge_retry_after e = seconds_until
              ((case find (\<lambda>e. le_req e = 1) (ks_log (prune now st)) of Some e \<Rightarrow> le_t e | None \<Rightarrow> 0) + window) now)"
  using assms by (cases detached) (auto simp: key_admit_def Let_def split: if_splits)

lemma meter_ok_prune: "meter_ok m \<Longrightarrow> meter_ok (prune_meter c d m)"
  by (auto simp: meter_ok_def dest: set_dropWhileD)

lemma prune_live_le:
  assumes "meter_ok (meter ''tokens'' st)"
  shows "tpm_live (prune now st) \<le> tpm_live st" and "day_live (prune now st) \<le> day_live st"
proof -
  let ?m = "meter ''tokens'' st"
  have "sum_list (map (\<lambda>e. trunc (mc_amount e)) (dropWhile P (ms_log ?m))) \<le> sum_list (map (\<lambda>e. trunc (mc_amount e)) (ms_log ?m))" for P
    using assms by (intro sum_list_dropWhile_le trunc_nonneg) (simp add: meter_ok_def)
  then show "tpm_live (prune now st) \<le> tpm_live st" by (simp add: tpm_live_def used_tokens_def)
  show "day_live (prune now st) \<le> day_live st"
    using assms by (auto simp: day_live_def meter_ok_def intro: trunc_mono)
qed

lemma ledger_ok_prune:
  assumes "ledger_ok lims st live"
  shows "ledger_ok lims (prune now st) live"
  using assms prune_live_le [of st now] meter_ok_prune
  by (auto simp: ledger_ok_def fits_def)

lemma ledger_ok_seen: "ledger_ok lims (st\<lparr>ks_last_seen := now\<rparr>) live = ledger_ok lims st live"
  by (simp add: ledger_ok_def fits_def)

lemma ledger_ok_admit:
  assumes ok: "ledger_ok lims st live" and a: "key_admit now kid lims detached st = (Inr a, st')"
  shows "ledger_ok lims st' (live @ [a])"
proof -
  note p = ledger_ok_prune [OF ok, of now] and k = key_admit_Inr [OF a]
  then show ?thesis using ok
    by (auto simp: ledger_ok_def fits_def attached_def reserved_sum_def split: if_splits)
qed

lemma ledger_ok_reserve:
  assumes ok: "ledger_ok lims st (l1 @ a # l2)" and z: "ad_reserved a = 0" and pr: "0 \<le> prompt"
    and r: "key_reserve now lims prompt out a st = (r, a', st')"
  shows "ledger_ok lims st' (l1 @ a' # l2)"
proof -
  let ?p = "prune now st" and ?m = "meter ''tokens'' (prune now st)"
  have w: "ms_reserved (meter ''tokens'' st) \<in> \<int>" "ms_today (meter ''tokens'' st) \<in> \<int>"
    using ok by (simp_all add: ledger_ok_def meter_ok_def)
  note p = ledger_ok_prune [OF ok, of now]
  note d = reserve_decides_int [OF pr refl refl w, where lims = lims and out = out and a = a and now = now, unfolded r]
  show ?thesis
  proof (cases r)
    case (Inl e)
    with d r have "st' = ?p" "a' = a" by simp_all
    with p show ?thesis by simp
  next
    case (Inr o2)
    with key_reserve_cases [of now lims prompt out a st] r
    have st': "st' = set_meter ''tokens'' (?m\<lparr>ms_reserved := ms_reserved ?m + of_int (prompt + max o2 0)\<rparr>) ?p"
      and a': "a' = a\<lparr>ad_reserved := prompt + max o2 0\<rparr>" by auto
    have "fits lims st' 0" using d Inr by simp
    with p z pr show ?thesis
      by (auto simp: ledger_ok_def st' a' reserved_sum_def attached_def meter_ok_def)
  qed
qed

lemma ledger_ok_settle:
  assumes ok: "ledger_ok lims st (l1 @ a # l2)" and ch: "charged \<le> ad_reserved a"
  shows "ledger_ok lims (key_settle now a counted charged st) (l1 @ l2)"
proof -
  let ?p = "prune now st" and ?m = "meter ''tokens'' (prune now st)" and ?s = "key_settle now a counted charged st"
  note p = ledger_ok_prune [OF ok, of now]
  have m: "meter ''tokens'' ?s = (if 0 < charged
     then ?m\<lparr>ms_reserved := ms_reserved ?m - of_int (ad_reserved a), ms_log := ms_log ?m @ [\<lparr>mc_t = now, mc_amount = of_int charged\<rparr>],
             ms_today := ms_today ?m + of_int charged\<rparr>
     else ?m\<lparr>ms_reserved := ms_reserved ?m - of_int (ad_reserved a)\<rparr>)"
    and f: "ks_in_flight ?s = (if ad_detached a then ks_in_flight st else ks_in_flight st - 1)"
    by (simp_all add: key_settle_def Let_def)
  have res: "ms_reserved ?m = of_int (reserved_sum (l1 @ a # l2))" using p by (simp add: ledger_ok_def)
  have int: "ms_today ?m \<in> \<int>" using p by (simp add: ledger_ok_def meter_ok_def)
  have a0: "0 \<le> ad_reserved a" using ok by (simp add: ledger_ok_def)
  obtain T where T: "ms_today ?m = of_int T" using int by (auto elim: Ints_cases)
  let ?R = "reserved_sum (l1 @ a # l2)"
  have s1: "ms_reserved (meter ''tokens'' ?s) = of_int (?R - ad_reserved a)"
    and s2: "ms_today (meter ''tokens'' ?s) = of_int (T + max charged 0)"
    and s3: "used_tokens ?s = used_tokens ?p + max charged 0"
    using T res by (simp_all add: m used_tokens_def del: prune_sel)
  have t: "tpm_live ?s = tpm_live ?p - ad_reserved a + max charged 0"
    unfolding tpm_live_def s1 s3 res by (simp only: trunc_of_int)
  have y: "day_live ?s = day_live ?p - ad_reserved a + max charged 0"
    unfolding day_live_def s1 s2 res T by (simp only: trunc_of_int flip: of_int_add)
  have c1: "meter_ok (meter ''tokens'' ?s)"
    using p unfolding m by (auto simp: ledger_ok_def meter_ok_def simp del: prune_sel)
  have c2: "?R - ad_reserved a = reserved_sum (l1 @ l2)" by (simp add: reserved_sum_def)
  have c4: "fits lims ?s 0" using p ch a0 by (auto simp: ledger_ok_def fits_def t y simp del: prune_sel)
  have at: "attached (l1 @ a # l2) = attached (l1 @ l2) + (if ad_detached a then 0 else 1)"
    by (simp add: attached_def)
  show ?thesis
    unfolding ledger_ok_def s1 c2 f using ok c1 c4 by (auto simp: ledger_ok_def at split: if_splits)
qed

lemma ledger_invariant: "ledger lims kid st live \<Longrightarrow> ledger_ok lims st live"
proof (induction rule: ledger.induct)
  case start
  show ?case
    by (simp add: ledger_ok_def new_key_state_def meter_def zero_meter_def meter_ok_def reserved_sum_def attached_def fits_def
        tpm_live_def day_live_def used_tokens_def)
next
  case (admit_refused st live now detached e st')
  then show ?case using key_admit_Inl ledger_ok_prune ledger_ok_seen by metis
next
  case (touch st live now)
  then show ?case by (simp add: key_touch_def ledger_ok_seen)
qed (auto intro: ledger_ok_admit ledger_ok_reserve ledger_ok_settle ledger_ok_prune)


lemma sample_admit:
  "key_admit 7 ''k_1'' sample_limits False new_key_state =
     (Inr sample_admission, (prune 7 new_key_state)\<lparr>ks_last_seen := 7, ks_in_flight := 1, ks_seq := 1,
        ks_log := [\<lparr>le_t = 7, le_req = 1, le_seq = 1\<rparr>]\<rparr>)"
  by (simp add: key_admit_def sample_limits_def new_key_state_def used_reqs_def sample_admission_def Let_def)


text \<open>
  The hypothesis on charges is needed: an engine that reports more tokens than were reserved takes the
  minute's charge past the ceiling.
\<close>

lemma overcharge_breaks_ceiling:
  "lm_tpm sample_limits = 1000
   \<and> tpm_live (key_settle 7 (sample_admission\<lparr>ad_reserved := 100\<rparr>) True 5000
       (set_meter ''tokens'' \<lparr>ms_today = 0, ms_reserved = 100, ms_log = []\<rparr> new_key_state)) = 5000"
  by (simp add: sample_limits_def tpm_live_def used_tokens_def key_settle_def sample_admission_def Let_def)

section \<open>At most N requests in any sixty seconds\<close>

definition log_of :: "(gotime \<times> nat) list \<Rightarrow> log_entry list" where
  "log_of h = map (\<lambda>(t, q). \<lparr>le_t = t, le_req = 1, le_seq = q\<rparr>) h"

definition in_window :: "gotime \<Rightarrow> (gotime \<times> nat) list \<Rightarrow> nat" where
  "in_window u h = length (filter (\<lambda>(t, q). u - window < t \<and> t \<le> u) h)"

text \<open>
  Runs of one key with a clock that does not go back, and the history of the admissions that counted: an
  admission joins it, a settlement that does not count takes its own out.
\<close>

inductive rpm_run :: "limits \<Rightarrow> string \<Rightarrow> key_state \<Rightarrow> gotime \<Rightarrow> (gotime \<times> nat) list \<Rightarrow> bool" for lims kid where
  start: "rpm_run lims kid new_key_state now []"
| admit_ok: "rpm_run lims kid st t h \<Longrightarrow> t \<le> now \<Longrightarrow> key_admit now kid lims detached st = (Inr a, st') \<Longrightarrow>
     rpm_run lims kid st' now (h @ [(now, ad_seq a)])"
| admit_refused: "rpm_run lims kid st t h \<Longrightarrow> t \<le> now \<Longrightarrow> key_admit now kid lims detached st = (Inl e, st') \<Longrightarrow>
     rpm_run lims kid st' now h"
| reserve: "rpm_run lims kid st t h \<Longrightarrow> t \<le> now \<Longrightarrow> key_reserve now lims prompt out a st = (r, a', st') \<Longrightarrow>
     rpm_run lims kid st' now h"
| settle: "rpm_run lims kid st t h \<Longrightarrow> t \<le> now \<Longrightarrow> st' = key_settle now a counted charged st \<Longrightarrow>
     rpm_run lims kid st' now (if counted then h else filter (\<lambda>(_, q). q \<noteq> ad_seq a) h)"
| read: "rpm_run lims kid st t h \<Longrightarrow> t \<le> now \<Longrightarrow> rpm_run lims kid (prune now st) now h"

definition rpm_ok :: "limits \<Rightarrow> key_state \<Rightarrow> gotime \<Rightarrow> (gotime \<times> nat) list \<Rightarrow> bool" where
  "rpm_ok lims st t h \<longleftrightarrow>
     (\<exists>c \<le> t - window. ks_log st = log_of (filter (\<lambda>(x, q). c < x) h))
     \<and> sorted (map fst h) \<and> (\<forall>(x, q) \<in> set h. x \<le> t \<and> q \<le> ks_seq st) \<and> distinct (map snd h)
     \<and> (0 < lm_rpm lims \<longrightarrow> (\<forall>u. int (in_window u h) \<le> lm_rpm lims))"

lemma log_of_append: "log_of (h @ [(t, q)]) = log_of h @ [\<lparr>le_t = t, le_req = 1, le_seq = q\<rparr>]"
  by (simp add: log_of_def)

lemma used_log_of: "ks_log st = log_of h \<Longrightarrow> used_reqs st = int (length h)"
  by (simp add: used_reqs_def log_of_def comp_def case_prod_unfold sum_list_triv)

lemma filter_log_of: "filter (\<lambda>e. c < le_t e) (log_of h) = log_of (filter (\<lambda>(x, q). c < x) h)"
  by (induction h) (auto simp: log_of_def)

lemma rpm_prune:
  assumes ok: "rpm_ok lims st t h" and le: "t \<le> now"
  shows "ks_log (prune now st) = log_of (filter (\<lambda>(x, q). now - window < x) h)" and "rpm_ok lims (prune now st) now h"
proof -
  obtain c where c: "c \<le> t - window" "ks_log st = log_of (filter (\<lambda>(x, q). c < x) h)"
    using ok unfolding rpm_ok_def by blast
  have srt: "sorted (map fst h)" using ok by (simp add: rpm_ok_def)
  then have "sorted (map fst (filter (\<lambda>(x, q). c < x) h))" by (rule sorted_filter)
  then have "sorted (map le_t (ks_log st))" by (simp add: c log_of_def comp_def case_prod_unfold)
  then have "dropWhile (\<lambda>e. le_t e \<le> now - window) (ks_log st) = filter (\<lambda>e. now - window < le_t e) (ks_log st)"
    by (rule filter_false_dropWhile_sorted)
  moreover have "filter (\<lambda>(x, q). now - window < x) (filter (\<lambda>(x, q). c < x) h) = filter (\<lambda>(x, q). now - window < x) h"
    using c le by (auto simp: intro!: filter_cong)
  ultimately show l: "ks_log (prune now st) = log_of (filter (\<lambda>(x, q). now - window < x) h)"
    by (simp add: c(2) filter_log_of not_less)
  show "rpm_ok lims (prune now st) now h"
    using ok le l unfolding rpm_ok_def by (auto intro!: exI [of _ "now - window"])
qed

lemma in_window_append: "in_window u (h @ [(now, q)]) = in_window u h + (if u - window < now \<and> now \<le> u then 1 else 0)"
  by (simp add: in_window_def)

lemma in_window_filter: "in_window u (filter P h) \<le> in_window u h"
  by (simp add: in_window_def) (intro length_filter_mono, auto)

lemma rpm_ok_admit:
  assumes ok: "rpm_ok lims st t h" and le: "t \<le> now" and a: "key_admit now kid lims detached st = (Inr a, st')"
  shows "rpm_ok lims st' now (h @ [(now, ad_seq a)])"
proof -
  let ?f = "filter (\<lambda>(x, q). now - window < x) h" and ?h = "h @ [(now, ad_seq a)]"
  note l = rpm_prune(1) [OF ok le] and k = key_admit_Inr [OF a]
  have seq: "ad_seq a = ks_seq st + 1" "ks_seq st' = ks_seq st + 1" using k by simp_all
  have le_h: "\<forall>(x, q) \<in> set h. x \<le> now \<and> q \<le> ks_seq st" using ok le by (auto simp: rpm_ok_def)
  have "ks_log st' = log_of ?f @ [\<lparr>le_t = now, le_req = 1, le_seq = ad_seq a\<rparr>]" using k l by simp
  then have c1: "ks_log st' = log_of (filter (\<lambda>(x, q). now - window < x) ?h)"
    by (simp add: log_of_append window_def duration_defs)
  have c2: "sorted (map fst ?h)" using ok le_h by (auto simp: rpm_ok_def sorted_append)
  have c3: "\<forall>(x, q) \<in> set ?h. x \<le> now \<and> q \<le> ks_seq st'" using le_h seq by auto
  have c4: "distinct (map snd ?h)" using ok le_h seq by (auto simp: rpm_ok_def)
  have c5: "int (in_window u ?h) \<le> lm_rpm lims" if "0 < lm_rpm lims" for u
  proof (cases "u - window < now \<and> now \<le> u")
    case True
    have "in_window u h \<le> length ?f" unfolding in_window_def using True by (intro length_filter_mono) auto
    moreover have "int (length ?f) < lm_rpm lims" using k that used_log_of [OF l] by auto
    ultimately show ?thesis using True by (simp add: in_window_append)
  next
    case False
    then show ?thesis using ok that by (auto simp: in_window_append rpm_ok_def)
  qed
  show ?thesis unfolding rpm_ok_def using c1 c2 c3 c4 c5 by blast
qed

lemma rpm_ok_log: "ks_log st' = ks_log st \<Longrightarrow> ks_seq st' = ks_seq st \<Longrightarrow> rpm_ok lims st' t h = rpm_ok lims st t h"
  by (simp add: rpm_ok_def)

lemma key_settle_log:
  "ks_log (key_settle now a counted charged st) =
     (if counted then ks_log (prune now st)
      else remove_first (\<lambda>e. le_req e = 1 \<and> le_seq e = ad_seq a) (ks_log (prune now st)))"
  "ks_seq (key_settle now a counted charged st) = ks_seq st"
  by (simp_all add: key_settle_def Let_def)

lemma remove_log_of:
  assumes "distinct (map snd h)"
  shows "remove_first (\<lambda>e. le_req e = 1 \<and> le_seq e = n) (log_of h) = log_of (filter (\<lambda>(x, q). q \<noteq> n) h)"
proof -
  have "remove_first (\<lambda>e. le_req e = 1 \<and> le_seq e = n) (log_of h) = remove_first (\<lambda>e. le_seq e = n) (log_of h)"
    by (rule remove_first_cong) (auto simp: log_of_def)
  also have "\<dots> = filter (\<lambda>e. le_seq e \<noteq> n) (log_of h)"
    by (rule remove_first_filter) (use assms in \<open>simp add: log_of_def comp_def case_prod_unfold\<close>)
  also have "\<dots> = log_of (filter (\<lambda>(x, q). q \<noteq> n) h)"
    by (induction h) (auto simp: log_of_def)
  finally show ?thesis .
qed

lemma rpm_ok_uncount:
  assumes ok: "rpm_ok lims st t h" and le: "t \<le> now"
  shows "rpm_ok lims (key_settle now a False charged st) now (filter (\<lambda>(_, q). q \<noteq> ad_seq a) h)"
proof -
  let ?h = "filter (\<lambda>(_, q). q \<noteq> ad_seq a) h" and ?s = "key_settle now a False charged st"
  have d: "distinct (map snd h)" and s: "sorted (map fst h)" using ok by (simp_all add: rpm_ok_def)
  have "distinct (map snd (filter (\<lambda>(x, q). now - window < x) h))" using d by (rule distinct_map_filter)
  from remove_log_of [OF this, of "ad_seq a"]
  have "ks_log ?s = log_of (filter (\<lambda>(x, q). q \<noteq> ad_seq a) (filter (\<lambda>(x, q). now - window < x) h))"
    using rpm_prune(1) [OF ok le] by (simp only: key_settle_log if_False)
  also have "\<dots> = log_of (filter (\<lambda>(x, q). now - window < x) ?h)" by (simp add: case_prod_unfold conj_commute)
  finally have c1: "ks_log ?s = log_of (filter (\<lambda>(x, q). now - window < x) ?h)" .
  have c2: "sorted (map fst ?h)" using s by (rule sorted_filter)
  have c3: "\<forall>(x, q) \<in> set ?h. x \<le> now \<and> q \<le> ks_seq ?s" using ok le by (auto simp: rpm_ok_def key_settle_log)
  have c4: "distinct (map snd ?h)" using d by (rule distinct_map_filter)
  have c5: "int (in_window u ?h) \<le> lm_rpm lims" if "0 < lm_rpm lims" for u
    using ok that in_window_filter [of u _ h] unfolding rpm_ok_def by (meson of_nat_mono order_trans)
  show ?thesis unfolding rpm_ok_def using c1 c2 c3 c4 c5 by blast
qed

lemma rpm_run_ok: "rpm_run lims kid st t h \<Longrightarrow> rpm_ok lims st t h"
proof (induction rule: rpm_run.induct)
  case (start now)
  show ?case by (auto simp: rpm_ok_def new_key_state_def log_of_def in_window_def intro!: exI [of _ "now - window"])
next
  case (admit_ok st t h now detached a st')
  then show ?case using rpm_ok_admit by blast
next
  case (admit_refused st t h now detached e st')
  then have "rpm_ok lims (prune now st) now h" using rpm_prune(2) by blast
  then show ?case using key_admit_Inl [OF admit_refused(3)] rpm_ok_log [of st' "prune now st"] by auto
next
  case (reserve st t h now prompt out a r a' st')
  then have "rpm_ok lims (prune now st) now h" using rpm_prune(2) by blast
  moreover have "ks_log st' = ks_log (prune now st)" "ks_seq st' = ks_seq (prune now st)"
    using key_reserve_cases [of now lims prompt out a st] reserve(3) by (auto simp del: prune_sel)
  ultimately show ?case using rpm_ok_log by blast
next
  case (settle st t h now st' a counted charged)
  show ?case
  proof (cases counted)
    case True
    have "rpm_ok lims (prune now st) now h" using rpm_prune(2) settle by blast
    with True settle show ?thesis using rpm_ok_log [of st' "prune now st"] by (simp add: key_settle_log)
  next
    case False
    with settle show ?thesis using rpm_ok_uncount by simp
  qed
next
  case (read st t h now)
  then show ?case using rpm_prune(2) by blast
qed

text \<open>
  C28. The request rate is exact: with a limit of N requests per minute, and whatever is admitted, refused,
  settled or taken back as not counted, no sixty seconds ever hold more than N counted admissions.
\<close>

theorem rpm_exact:
  assumes "rpm_run lims kid st t h" and "0 < lm_rpm lims"
  shows "int (length (filter (\<lambda>(x, q). u - window < x \<and> x \<le> u) h)) \<le> lm_rpm lims"
  using rpm_run_ok [OF assms(1)] assms(2) unfolding rpm_ok_def in_window_def by blast

theorem rpm_exact_witness:
  "\<exists>st. rpm_run sample_limits ''k_1'' st 7 [(7, 1)]
     \<and> int (length (filter (\<lambda>(x, q). 10 - window < x \<and> x \<le> (10 :: int)) [(7 :: int, 1 :: nat)])) \<le> lm_rpm sample_limits"
proof -
  obtain st where r: "rpm_run sample_limits ''k_1'' st 7 ([] @ [(7, ad_seq sample_admission)])"
    using rpm_run.admit_ok [OF rpm_run.start _ sample_admit, of 7] by auto
  then have r: "rpm_run sample_limits ''k_1'' st 7 [(7, 1)]" by (simp add: sample_admission_def)
  then show ?thesis using rpm_exact [OF r, of 10] by (auto simp: sample_limits_def)
qed

section \<open>The wait a refusal names\<close>

definition charge_sum :: "meter_charge list \<Rightarrow> int" where
  "charge_sum cs = sum_list (map (\<lambda>e. trunc (mc_amount e)) cs)"

lemma charge_sum_simps [simp]:
  "charge_sum [] = 0" "charge_sum (e # cs) = trunc (mc_amount e) + charge_sum cs"
  "charge_sum (cs @ ds) = charge_sum cs + charge_sum ds"
  by (simp_all add: charge_sum_def)

lemma charge_sum_nonneg: "\<forall>e \<in> set cs. 0 \<le> mc_amount e \<Longrightarrow> 0 \<le> charge_sum cs"
  by (induction cs) (auto intro: add_nonneg_nonneg trunc_nonneg)

lemma sorted_dropWhile_map: "sorted (map f xs) \<Longrightarrow> sorted (map f (dropWhile P xs))"
  by (induction xs) auto

text \<open>The walk stops at the first entry after which the request fits.\<close>

lemma retry_walk_finds:
  assumes "rem - charge_sum cs + need \<le> L" and "L < rem + need"
  shows "\<exists>c1 e c2. cs = c1 @ e # c2 \<and> L < rem - charge_sum c1 + need
     \<and> rem - charge_sum (c1 @ [e]) + need \<le> L
     \<and> retry_walk now need L rem cs = (Some (seconds_until (mc_t e + window) now), rem - charge_sum (c1 @ [e]))"
  using assms
proof (induction cs arbitrary: rem)
  case (Cons e cs)
  show ?case
  proof (cases "rem - trunc (mc_amount e) + need \<le> L")
    case True
    with Cons.prems show ?thesis by (intro exI [of _ "[]"] exI [of _ e] exI [of _ cs]) (simp add: Let_def)
  next
    case False
    with Cons.IH [of "rem - trunc (mc_amount e)"] Cons.prems obtain c1 x c2 where
      "cs = c1 @ x # c2" "L < rem - trunc (mc_amount e) - charge_sum c1 + need"
      "rem - trunc (mc_amount e) - charge_sum (c1 @ [x]) + need \<le> L"
      "retry_walk now need L (rem - trunc (mc_amount e)) cs
         = (Some (seconds_until (mc_t x + window) now), rem - trunc (mc_amount e) - charge_sum (c1 @ [x]))"
      by (auto simp: algebra_simps)
    with False show ?thesis
      by (intro exI [of _ "e # c1"] exI [of _ x] exI [of _ c2]) (simp add: Let_def algebra_simps)
  qed
qed simp

lemma dropWhile_passes:
  assumes "sorted (map f (c1 @ e # c2))" and "f e \<le> (c :: int)"
  shows "\<exists>d1 d2. c2 = d1 @ d2 \<and> dropWhile (\<lambda>x. \<not> c < f x) (c1 @ e # c2) = d2"
proof -
  have "\<forall>x \<in> set (c1 @ [e]). \<not> c < f x" using assms by (fastforce simp: sorted_append not_less)
  then have "dropWhile (\<lambda>x. \<not> c < f x) ((c1 @ [e]) @ c2) = dropWhile (\<lambda>x. \<not> c < f x) c2" by (simp add: dropWhile_append3)
  then have "dropWhile (\<lambda>x. \<not> c < f x) (c1 @ e # c2) = dropWhile (\<lambda>x. \<not> c < f x) c2" by simp
  then show ?thesis by (metis takeWhile_dropWhile_id)
qed

lemma dropWhile_keeps:
  assumes "(c :: int) < f e"
  shows "\<exists>d1 d2. c1 = d1 @ d2 \<and> dropWhile (\<lambda>x. \<not> c < f x) (c1 @ e # c2) = d2 @ e # c2"
  using assms
proof (induction c1)
  case (Cons x c1)
  then obtain d1 d2 where d: "c1 = d1 @ d2" "dropWhile (\<lambda>x. \<not> c < f x) (c1 @ e # c2) = d2 @ e # c2" by auto
  show ?case
  proof (cases "c < f x")
    case True
    then show ?thesis by (intro exI [of _ "[]"] exI [of _ "x # c1"]) simp
  next
    case False
    with d show ?thesis by (intro exI [of _ "x # d1"] exI [of _ d2]) simp
  qed
qed simp

text \<open>
  The wait for the minute ceiling is exact. When a reservation is refused for TPM, the live reservations
  leave room for the request, and nothing else happens on the key: after the named number of
  seconds the minute ceiling no longer refuses it, and a second earlier it still would.
\<close>

theorem tpm_retry_exact:
  assumes refused: "key_reserve now lims prompt out a st = (Inl e, a, st1)" "ge_code e = CodeRateLimited"
    and room: "tokens_reserved st + (prompt + floor_for out) \<le> lm_tpm lims"
    and charges: "sorted (map mc_t (ms_log (meter ''tokens'' st)))"
      "\<forall>c \<in> set (ms_log (meter ''tokens'' st)). mc_t c \<le> now \<and> 0 \<le> mc_amount c"
  shows "(now + ge_retry_after e * second \<le> now' \<longrightarrow>
            snd (fit_budget (lm_tpm lims) (tpm_live (prune now' st1)) prompt out))
     \<and> (1 < ge_retry_after e \<and> now' \<le> now + (ge_retry_after e - 1) * second \<longrightarrow>
            \<not> snd (fit_budget (lm_tpm lims) (tpm_live (prune now' st1)) prompt out))"
proof -
  let ?m = "meter ''tokens'' (prune now st)" and ?need = "prompt + floor_for out"
  let ?cs = "ms_log ?m" and ?R = "trunc (ms_reserved ?m)"
  from refused key_reserve_cases [of now lims prompt out a st] have
    st1: "st1 = prune now st" and nofit: "\<not> snd (fit_budget (lm_tpm lims) (tpm_live (prune now st)) prompt out)"
    and wait: "ge_retry_after e = tpm_retry now ?need (lm_tpm lims) (tpm_live (prune now st)) ?cs" by auto
  have live: "tpm_live (prune now st) = charge_sum ?cs + ?R"
    by (simp add: tpm_live_def used_tokens_def charge_sum_def)
  have R: "?R + ?need \<le> lm_tpm lims" using room by (simp add: tokens_reserved_def)
  have pos: "0 < lm_tpm lims" and over: "lm_tpm lims < charge_sum ?cs + ?R + ?need"
    using nofit by (auto simp: fit_budget_iff live)
  obtain c1 x c2 where cs: "?cs = c1 @ x # c2" "lm_tpm lims < charge_sum ?cs + ?R - charge_sum c1 + ?need"
    "charge_sum ?cs + ?R - charge_sum (c1 @ [x]) + ?need \<le> lm_tpm lims"
    "retry_walk now ?need (lm_tpm lims) (charge_sum ?cs + ?R) ?cs
       = (Some (seconds_until (mc_t x + window) now), charge_sum ?cs + ?R - charge_sum (c1 @ [x]))"
    using retry_walk_finds [of "charge_sum ?cs + ?R" ?cs ?need "lm_tpm lims" now] R over by auto
  have total: "charge_sum ?cs = charge_sum c1 + trunc (mc_amount x) + charge_sum c2" by (simp only: cs(1) charge_sum_simps)
  then have k2: "lm_tpm lims < trunc (mc_amount x) + charge_sum c2 + ?R + ?need"
    and k3: "charge_sum c2 + ?R + ?need \<le> lm_tpm lims" using cs(2,3) by simp_all
  have w: "ge_retry_after e = seconds_until (mc_t x + window) now"
    using wait cs(3,4) by (simp add: tpm_retry_def live)
  have sub: "set ?cs \<subseteq> set (ms_log (meter ''tokens'' st))" by (auto dest: set_dropWhileD)
  have srt: "sorted (map mc_t (c1 @ x # c2))" using charges(1) cs(1) sorted_dropWhile_map by (metis prune_meter_sel(3) prune_sel(7))
  have xin: "x \<in> set ?cs" using cs(1) by simp
  then have x: "mc_t x + window - now \<le> max_int64"
  proof -
    have "mc_t x \<le> now" using charges(2) sub xin by (meson subsetD)
    then show ?thesis by (simp add: window_def duration_defs max_int64_def)
  qed
  have nn: "\<forall>c \<in> set (c1 @ x # c2). 0 \<le> mc_amount c" using charges(2) sub cs(1) by auto
  have after: "tpm_live (prune now' st1) = charge_sum (dropWhile (\<lambda>c. \<not> now' - window < mc_t c) (c1 @ x # c2)) + ?R" for now'
    unfolding st1 cs(1) [symmetric] by (simp add: tpm_live_def used_tokens_def charge_sum_def)
  have "snd (fit_budget (lm_tpm lims) (tpm_live (prune now' st1)) prompt out)"
    if "now + ge_retry_after e * second \<le> now'"
  proof -
    have "mc_t x \<le> now' - window" using seconds_until_enough [OF x, of now'] that w by simp
    then obtain d1 d2 where d: "c2 = d1 @ d2" "dropWhile (\<lambda>c. \<not> now' - window < mc_t c) (c1 @ x # c2) = d2"
      using dropWhile_passes [OF srt] by blast
    then have "0 \<le> charge_sum d1" using nn by (intro charge_sum_nonneg) auto
    then show ?thesis using k3 d by (simp add: fit_budget_iff after)
  qed
  moreover have "\<not> snd (fit_budget (lm_tpm lims) (tpm_live (prune now' st1)) prompt out)"
    if "1 < ge_retry_after e" "now' \<le> now + (ge_retry_after e - 1) * second"
  proof -
    have "now' - window < mc_t x" using seconds_until_exact [OF x, of now'] that w by simp
    then obtain d1 d2 where d: "c1 = d1 @ d2" "dropWhile (\<lambda>c. \<not> now' - window < mc_t c) (c1 @ x # c2) = d2 @ x # c2"
      using dropWhile_keeps [of "now' - window" mc_t x c1 c2] by blast
    then have "0 \<le> charge_sum d2" using nn by (intro charge_sum_nonneg) auto
    then show ?thesis using k2 d pos by (simp add: fit_budget_iff after)
  qed
  ultimately show ?thesis by blast
qed

definition sample_busy :: key_state where
  "sample_busy = set_meter ''tokens'' \<lparr>ms_today = 900, ms_reserved = 0, ms_log = [\<lparr>mc_t = 10 * second, mc_amount = 900\<rparr>]\<rparr>
     new_key_state"

theorem tpm_retry_exact_witness:
  "\<exists>e a st1. key_reserve (20 * second) sample_limits 200 0 sample_admission sample_busy = (Inl e, a, st1)
     \<and> ge_retry_after e = 50 \<and> snd (fit_budget (lm_tpm sample_limits) (tpm_live (prune (70 * second) st1)) 200 0)"
proof -
  obtain e a st1 where r: "key_reserve (20 * second) sample_limits 200 0 sample_admission sample_busy = (Inl e, a, st1)"
    and e: "ge_code e = CodeRateLimited" "ge_retry_after e = 50" "a = sample_admission"
    by (simp add: key_reserve_def budget_amount_sel sample_busy_def sample_limits_def used_tokens_def fit_budget_def
        min_output_tokens_def tpm_retry_def floor_for_def seconds_until_def time_sub_def window_def duration_defs
        max_int64_def min_int64_def Let_def)
  have "snd (fit_budget (lm_tpm sample_limits) (tpm_live (prune (70 * second) st1)) 200 0)"
    using tpm_retry_exact [OF r [unfolded e(3)] e(1), of "70 * second"] e(2)
    by (simp add: sample_busy_def tokens_reserved_def sample_limits_def floor_for_def second_def)
  with r e show ?thesis by blast
qed

lemma sum_req_ones: "\<forall>e \<in> set xs. le_req e = 1 \<Longrightarrow> sum_list (map le_req xs) = int (length xs)"
  by (induction xs) auto

text \<open>
  The wait for the request rate. When an admission is refused for the rate and the key has used exactly its
  limit, then after the named number of seconds the rate no longer refuses it.
\<close>

theorem rpm_retry_enough:
  assumes run: "rpm_run lims kid st t h" and "t \<le> now"
    and refused: "key_admit now kid lims detached st = (Inl e, st1)" "ge_code e = CodeRateLimited"
    and exact: "used_reqs (prune now st) = lm_rpm lims"
    and later: "now + ge_retry_after e * second \<le> now'"
  shows "used_reqs (prune now' st1) < lm_rpm lims"
proof -
  let ?f = "filter (\<lambda>(x, q). now - window < x) h"
  note ok = rpm_run_ok [OF run]
  have l: "ks_log (prune now st) = log_of ?f" using rpm_prune(1) [OF ok \<open>t \<le> now\<close>] .
  have st1: "st1 = (prune now st)\<lparr>ks_last_seen := now\<rparr>" and pos: "0 < lm_rpm lims"
    and w: "ge_retry_after e = seconds_until
              ((case find (\<lambda>e. le_req e = 1) (ks_log (prune now st)) of Some e \<Rightarrow> le_t e | None \<Rightarrow> 0) + window) now"
    using key_admit_Inl [OF refused(1)] refused(2) by auto
  have "length ?f \<noteq> 0" using used_log_of [OF l] exact pos by auto
  then obtain x q r where f: "?f = (x, q) # r" by (cases ?f) auto
  have xin: "(x, q) \<in> set ?f" by (simp only: f list.set_intros)
  have x: "x \<le> now" using ok xin \<open>t \<le> now\<close> unfolding rpm_ok_def by fastforce
  have "ge_retry_after e = seconds_until (x + window) now" by (simp only: w l f) (simp add: log_of_def)
  then have cut: "x \<le> now' - window"
    using seconds_until_enough [of "x + window" now now'] later x by (simp add: window_def duration_defs max_int64_def)
  have "ks_log st1 = log_of ((x, q) # r)" using st1 l f by simp
  then have "ks_log (prune now' st1) = dropWhile (\<lambda>e. \<not> now' - window < le_t e) (log_of r)"
    using cut by (simp add: log_of_def)
  moreover have "length (dropWhile (\<lambda>e. \<not> now' - window < le_t e) (log_of r)) \<le> length r"
    by (metis length_dropWhile_le length_map log_of_def)
  moreover have "used_reqs s = int (length (ks_log s))" if "set (ks_log s) \<subseteq> set (log_of r)" for s
    unfolding used_reqs_def by (rule sum_req_ones) (use that in \<open>auto simp: log_of_def\<close>)
  ultimately have "used_reqs (prune now' st1) \<le> int (length r)"
    using set_dropWhileD by (metis of_nat_mono subsetI)
  moreover have "lm_rpm lims = int (length r) + 1" using used_log_of [OF l] exact f by simp
  ultimately show ?thesis by simp
qed

definition sample_slow :: limits where
  "sample_slow = sample_limits\<lparr>lm_rpm := 1, lm_max_concurrent := 0\<rparr>"

lemma sample_slow_admit:
  "key_admit 7 ''k_1'' sample_slow False new_key_state =
     (Inr sample_admission, (prune 7 new_key_state)\<lparr>ks_last_seen := 7, ks_in_flight := 1, ks_seq := 1,
        ks_log := [\<lparr>le_t = 7, le_req = 1, le_seq = 1\<rparr>]\<rparr>)"
  by (simp add: key_admit_def sample_slow_def sample_limits_def new_key_state_def used_reqs_def sample_admission_def Let_def)

theorem rpm_retry_enough_witness:
  "\<exists>st e st1. key_admit 8 ''k_1'' sample_slow False st = (Inl e, st1) \<and> ge_retry_after e = 60
     \<and> used_reqs (prune (8 + 60 * second) st1) < 1"
proof -
  let ?st = "(prune 7 new_key_state)\<lparr>ks_last_seen := 7, ks_in_flight := 1, ks_seq := 1,
        ks_log := [\<lparr>le_t = 7, le_req = 1, le_seq = 1\<rparr>]\<rparr>"
  have run: "rpm_run sample_slow ''k_1'' ?st 7 ([] @ [(7, ad_seq sample_admission)])"
    by (rule rpm_run.admit_ok [OF rpm_run.start _ sample_slow_admit, of 7]) simp
  obtain e st1 where r: "key_admit 8 ''k_1'' sample_slow False ?st = (Inl e, st1)"
    and e: "ge_code e = CodeRateLimited" "ge_retry_after e = 60"
    by (simp add: key_admit_def sample_slow_def sample_limits_def used_reqs_def seconds_until_def time_sub_def
        window_def duration_defs max_int64_def min_int64_def Let_def)
  have "used_reqs (prune (8 + 60 * second) st1) < lm_rpm sample_slow"
    by (rule rpm_retry_enough [OF run _ r e(1)]) (simp_all add: e(2) used_reqs_def sample_slow_def window_def duration_defs)
  with r e show ?thesis by (auto simp: sample_slow_def)
qed

text \<open>
  When the host has lowered the limit below what the key has used, the named wait is not enough: the oldest
  admission leaving the window admits nothing.
\<close>

lemma rpm_retry_short_after_lowering:
  assumes "st = new_key_state\<lparr>ks_log := [\<lparr>le_t = 7, le_req = 1, le_seq = 1\<rparr>, \<lparr>le_t = 20 * second, le_req = 1, le_seq = 2\<rparr>]\<rparr>"
  shows "\<exists>e st1. key_admit (30 * second) ''k_1'' sample_slow False st = (Inl e, st1) \<and> ge_retry_after e = 31
     \<and> (\<exists>e2 st2. key_admit (30 * second + ge_retry_after e * second) ''k_1'' sample_slow False st1 = (Inl e2, st2))"
  by (simp add: assms key_admit_def sample_slow_def sample_limits_def used_reqs_def seconds_until_def time_sub_def
      window_def duration_defs max_int64_def min_int64_def Let_def)

section \<open>A request that did not count leaves no trace\<close>

text \<open>
  Admitting a request and settling it as not counted, with nothing reserved or charged, restores the key's
  ledger: the log, the meters and the slots in flight are as if the request had not come (the log pruned to now).
\<close>

theorem uncounted_restores:
  assumes "key_admit now kid lims detached st = (Inr a, st1)" and "now \<le> now'"
    and "\<forall>e \<in> set (ks_log st). le_seq e \<le> ks_seq st" and "sorted (map le_t (ks_log st))" and "\<forall>e \<in> set (ks_log st). le_t e \<le> now"
  shows "ks_log (key_settle now' a False 0 st1) = ks_log (prune now' st)
    \<and> ks_in_flight (key_settle now' a False 0 st1) = ks_in_flight st
    \<and> ms_reserved (meter c (key_settle now' a False 0 st1)) = ms_reserved (meter c st)
    \<and> ms_log (meter c (key_settle now' a False 0 st1)) = ms_log (meter c (prune now' st))
    \<and> used_reqs (key_settle now' a False 0 st1) = used_reqs (prune now' st)"
proof -
  note k = key_admit_Inr [OF assms(1)]
  let ?e = "\<lparr>le_t = now, le_req = 1, le_seq = ks_seq st + 1\<rparr>" and ?s = "key_settle now' a False 0 st1"
  have a: "ad_seq a = ks_seq st + 1" "ad_detached a = detached" "ad_reserved a = 0" using k by simp_all
  have l1: "ks_log st1 = ks_log (prune now st) @ [?e]" using k by simp
  have s0: "sorted (map le_t (ks_log st))" using assms(4) .
  have dw: "dropWhile (\<lambda>e. \<not> c < le_t e) xs = filter (\<lambda>e. c < le_t e) xs" if "sorted (map le_t xs)" for c xs
    using filter_false_dropWhile_sorted [OF that, of c] by (simp add: not_less)
  have p0: "ks_log (prune now st) = filter (\<lambda>e. now - window < le_t e) (ks_log st)"
    and p1: "ks_log (prune now' st) = filter (\<lambda>e. now' - window < le_t e) (ks_log st)"
    using dw [OF s0] by simp_all
  have "sorted (map le_t (ks_log st1))"
    unfolding l1 p0 using s0 assms(5) by (auto simp: sorted_append intro: sorted_filter)
  from dw [OF this] have p2: "ks_log (prune now' st1) = filter (\<lambda>e. now' - window < le_t e) (ks_log st1)" by simp
  have p3: "ks_log (prune now' st1) = ks_log (prune now' st) @ filter (\<lambda>e. now' - window < le_t e) [?e]"
    unfolding p2 l1 p0 p1 using assms(2) by (simp add: conj_commute) (rule filter_cong, auto)
  have new: "\<not> (le_req e = 1 \<and> le_seq e = ad_seq a)" if "e \<in> set (ks_log (prune now' st))" for e
  proof -
    have "e \<in> set (ks_log st)" using that unfolding p1 by simp
    then show ?thesis using assms(3) a by auto
  qed
  have log: "ks_log ?s = ks_log (prune now' st)"
    unfolding key_settle_log if_False p3
    using new remove_first_append_last [of "ks_log (prune now' st)" "\<lambda>e. le_req e = 1 \<and> le_seq e = ad_seq a" ?e] a
      remove_first_none [of "ks_log (prune now' st)" "\<lambda>e. le_req e = 1 \<and> le_seq e = ad_seq a"]
    by (cases "now' - window < now") (simp_all del: prune_sel)
  have m: "ms_reserved (meter c ?s) = ms_reserved (meter c st)" "ms_log (meter c ?s) = ms_log (meter c (prune now' st))"
  proof -
    have "dropWhile (\<lambda>e. \<not> now' - window < mc_t e) (dropWhile (\<lambda>e. \<not> now - window < mc_t e) cs)
        = dropWhile (\<lambda>e. \<not> now' - window < mc_t e) cs" for cs
      using assms(2) by (induction cs) auto
    then show "ms_log (meter c ?s) = ms_log (meter c (prune now' st))"
      using k a by (auto simp: key_settle_def Let_def)
    show "ms_reserved (meter c ?s) = ms_reserved (meter c st)" using k a by (auto simp: key_settle_def Let_def)
  qed
  have f: "ks_in_flight ?s = ks_in_flight st" using k a by (simp add: key_settle_def Let_def)
  show ?thesis using log m f by (simp add: used_reqs_def del: prune_sel)
qed

theorem uncounted_restores_witness:
  "ks_in_flight (key_settle 9 sample_admission False 0 ((prune 7 new_key_state)\<lparr>ks_last_seen := 7, ks_in_flight := 1, ks_seq := 1,
        ks_log := [\<lparr>le_t = 7, le_req = 1, le_seq = 1\<rparr>]\<rparr>)) = 0"
  using uncounted_restores [OF sample_admit, of 9 undefined] by (simp add: new_key_state_def)

section \<open>Budgets as ceilings: interface and interpretations\<close>

text \<open>
  What any metered resource promises its users: a grant leaves the total of charges and reservations within
  the limit, and everything else leaves it no larger. The total then stays within the limit for good.
\<close>

locale ceiling =
  fixes total :: "'s \<Rightarrow> rat" and limit :: rat and inv :: "'s \<Rightarrow> bool"
    and grant :: "'s \<Rightarrow> 's \<Rightarrow> bool" and release :: "'s \<Rightarrow> 's \<Rightarrow> bool"
  assumes grant_within: "inv s \<Longrightarrow> grant s s' \<Longrightarrow> inv s' \<and> total s' \<le> limit"
    and release_no_more: "inv s \<Longrightarrow> release s s' \<Longrightarrow> inv s' \<and> total s' \<le> total s"
begin

lemma stays_within:
  assumes "rtranclp (\<lambda>s s'. grant s s' \<or> release s s') s s'" and "inv s" and "total s \<le> limit"
  shows "inv s' \<and> total s' \<le> limit"
  using assms(1)
proof (induction rule: rtranclp_induct)
  case base
  show ?case using assms by simp
next
  case (step t u)
  then show ?case using grant_within [of t u] release_no_more [of t u] by auto
qed

end

definition meter_total :: "string \<Rightarrow> key_state \<Rightarrow> rat" where
  "meter_total c st = ms_today (meter c st) + ms_reserved (meter c st)"

definition meter_nonneg :: "string \<Rightarrow> key_state \<Rightarrow> bool" where "meter_nonneg c st \<longleftrightarrow> 0 \<le> ms_today (meter c st)"

definition speech_limit :: "limits \<Rightarrow> int" where "speech_limit lims = lm_daily_speech_chars (audio_defaults lims)"
definition audio_limit :: "limits \<Rightarrow> int" where "audio_limit lims = lm_daily_audio_seconds (audio_defaults lims)"

text \<open>
  A reservation of one kind, and everything else that touches the meters: reservations of the other kind,
  settlements and pruning. A transcription that ends charges no more than it reserved unless it overran.
\<close>

definition audio_grant :: "(rat \<Rightarrow> string) \<Rightarrow> limits \<Rightarrow> bool \<Rightarrow> key_state \<Rightarrow> key_state \<Rightarrow> bool" where
  "audio_grant g3 lims transcribe s s' \<longleftrightarrow>
     (\<exists>now need chars a a'. key_reserve_audio g3 now lims transcribe need chars a s = (None, a', s'))"

definition audio_release :: "(rat \<Rightarrow> string) \<Rightarrow> limits \<Rightarrow> bool \<Rightarrow> key_state \<Rightarrow> key_state \<Rightarrow> bool" where
  "audio_release g3 lims transcribe s s' \<longleftrightarrow>
     audio_grant g3 lims (\<not> transcribe) s s' \<or> (\<exists>now. s' = prune now s)
     \<or> (\<exists>now x a e e' n. key_settle_audio now x a e s = (e', n, s') \<and> 0 \<le> ad_speech_chars a \<and> 0 \<le> ad_audio_seconds a
           \<and> (ae_dispatched x \<and> \<not> ae_speech x \<longrightarrow> 0 \<le> ev_seconds e' \<and> ev_seconds e' \<le> ad_audio_seconds a))"

lemma prune_total: "meter_nonneg c s \<Longrightarrow> meter_nonneg c (prune now s) \<and> meter_total c (prune now s) \<le> meter_total c s"
  by (simp add: meter_nonneg_def meter_total_def)

lemma audio_grant_within:
  assumes "meter_nonneg c s" and g: "audio_grant g3 lims transcribe s s'"
    and c: "c = (if transcribe then ''audio'' else ''speech'')" and "L = (if transcribe then audio_limit lims else speech_limit lims)"
    and "0 < L"
  shows "meter_nonneg c s' \<and> meter_total c s' \<le> of_int L"
  using assms prune_total [OF assms(1)]
  by (auto simp: audio_grant_def key_reserve_audio_def budget_amount_sel meter_total_def meter_nonneg_def
      audio_limit_def speech_limit_def Let_def not_less algebra_simps split: if_splits)

lemma audio_other_grant:
  assumes "meter_nonneg c s" and g: "audio_grant g3 lims (\<not> transcribe) s s'"
    and c: "c = (if transcribe then ''audio'' else ''speech'')"
  shows "meter_nonneg c s' \<and> meter_total c s' \<le> meter_total c s"
  using assms prune_total [OF assms(1)]
  by (auto simp: audio_grant_def key_reserve_audio_def meter_total_def meter_nonneg_def Let_def split: if_splits)

lemma settle_audio_meters:
  assumes "key_settle_audio now x a e s = (e', n, s')"
  shows "meter ''speech'' s' = (let m = meter ''speech'' (prune now s) in
      m\<lparr>ms_reserved := ms_reserved m - of_int (ad_speech_chars a),
        ms_today := ms_today m + (if ae_dispatched x \<and> ae_speech x
           \<and> (ae_outcome x = OutcomeServed \<or> ae_client_cut x \<and> ae_delivered x) then of_int (ad_speech_chars a) else 0)\<rparr>)"
    and "meter ''audio'' s' = (let m = meter ''audio'' (prune now s) in
      m\<lparr>ms_reserved := ms_reserved m - ad_audio_seconds a,
        ms_today := ms_today m + (if ae_dispatched x \<and> \<not> ae_speech x then ev_seconds e' else 0)\<rparr>)"
proof -
  have "meter ''speech'' s' = (let m = meter ''speech'' (prune now s) in
      m\<lparr>ms_reserved := ms_reserved m - of_int (ad_speech_chars a),
        ms_today := ms_today m + (if ae_dispatched x \<and> ae_speech x
           \<and> (ae_outcome x = OutcomeServed \<or> ae_client_cut x \<and> ae_delivered x) then of_int (ad_speech_chars a) else 0)\<rparr>)
    \<and> meter ''audio'' s' = (let m = meter ''audio'' (prune now s) in
      m\<lparr>ms_reserved := ms_reserved m - ad_audio_seconds a,
        ms_today := ms_today m + (if ae_dispatched x \<and> \<not> ae_speech x then ev_seconds e' else 0)\<rparr>)"
  proof (cases "ae_dispatched x")
    case False
    then show ?thesis using assms by (auto simp: key_settle_audio_def Let_def simp del: prune_sel)
  next
    case True
    then show ?thesis using assms
      by (cases "ae_speech x"; cases "ae_outcome x = OutcomeServed \<or> ae_client_cut x \<and> ae_delivered x")
        (auto simp: key_settle_audio_def Let_def simp del: prune_sel)
  qed
  then show "meter ''speech'' s' = (let m = meter ''speech'' (prune now s) in
      m\<lparr>ms_reserved := ms_reserved m - of_int (ad_speech_chars a),
        ms_today := ms_today m + (if ae_dispatched x \<and> ae_speech x
           \<and> (ae_outcome x = OutcomeServed \<or> ae_client_cut x \<and> ae_delivered x) then of_int (ad_speech_chars a) else 0)\<rparr>)"
    and "meter ''audio'' s' = (let m = meter ''audio'' (prune now s) in
      m\<lparr>ms_reserved := ms_reserved m - ad_audio_seconds a,
        ms_today := ms_today m + (if ae_dispatched x \<and> \<not> ae_speech x then ev_seconds e' else 0)\<rparr>)"
    by blast+
qed

lemma audio_settle_total:
  assumes "meter_nonneg c s" and k: "key_settle_audio now x a e s = (e', n, s')" and "c = ''audio'' \<or> c = ''speech''"
    and "0 \<le> ad_speech_chars a" "0 \<le> ad_audio_seconds a"
    and "ae_dispatched x \<and> \<not> ae_speech x \<longrightarrow> 0 \<le> ev_seconds e' \<and> ev_seconds e' \<le> ad_audio_seconds a"
  shows "meter_nonneg c s' \<and> meter_total c s' \<le> meter_total c s"
  using assms(3)
proof
  assume c: "c = ''audio''"
  let ?m = "meter ''audio'' (prune now s)"
  have r: "ms_reserved (meter ''audio'' s') = ms_reserved ?m - ad_audio_seconds a"
    and t: "ms_today (meter ''audio'' s') = ms_today ?m + (if ae_dispatched x \<and> \<not> ae_speech x then ev_seconds e' else 0)"
    by (simp_all add: settle_audio_meters [OF k] Let_def del: prune_sel)
  have p: "0 \<le> ms_today ?m" "ms_today ?m + ms_reserved ?m \<le> meter_total c s"
    using prune_total [OF assms(1), of now] unfolding c meter_nonneg_def meter_total_def by blast+
  show ?thesis
    unfolding c meter_nonneg_def meter_total_def [of _ s'] r t
  proof (cases "ae_dispatched x \<and> \<not> ae_speech x")
    case True
    then have "0 \<le> ev_seconds e'" "ev_seconds e' \<le> ad_audio_seconds a" using assms(6) by blast+
    then show "0 \<le> ms_today ?m + (if ae_dispatched x \<and> \<not> ae_speech x then ev_seconds e' else 0)
       \<and> ms_today ?m + (if ae_dispatched x \<and> \<not> ae_speech x then ev_seconds e' else 0) + (ms_reserved ?m - ad_audio_seconds a)
         \<le> meter_total ''audio'' s"
      unfolding if_P [OF True] using p [unfolded c] by linarith
  next
    case False
    then show "0 \<le> ms_today ?m + (if ae_dispatched x \<and> \<not> ae_speech x then ev_seconds e' else 0)
       \<and> ms_today ?m + (if ae_dispatched x \<and> \<not> ae_speech x then ev_seconds e' else 0) + (ms_reserved ?m - ad_audio_seconds a)
         \<le> meter_total ''audio'' s"
      unfolding if_not_P [OF False] using p [unfolded c] assms(5) by linarith
  qed
next
  assume c: "c = ''speech''"
  let ?m = "meter ''speech'' (prune now s)" and ?n = "of_int (ad_speech_chars a) :: rat"
  obtain q where q: "q = 0 \<or> q = ?n" "ms_reserved (meter ''speech'' s') = ms_reserved ?m - ?n"
    "ms_today (meter ''speech'' s') = ms_today ?m + q"
    unfolding settle_audio_meters(1) [OF k] Let_def by (cases "ae_dispatched x \<and> ae_speech x
           \<and> (ae_outcome x = OutcomeServed \<or> ae_client_cut x \<and> ae_delivered x)") (simp_all del: prune_sel)
  have p: "0 \<le> ms_today ?m" "ms_today ?m + ms_reserved ?m \<le> meter_total c s"
    using prune_total [OF assms(1), of now] unfolding c meter_nonneg_def meter_total_def by blast+
  have n: "0 \<le> ?n" using assms(4) by simp
  show ?thesis
    unfolding c meter_nonneg_def meter_total_def [of _ s'] q(2,3) using q(1) p [unfolded c] n by linarith
qed

lemma audio_release_no_more:
  assumes "meter_nonneg c s" and r: "audio_release g3 lims transcribe s s'"
    and c: "c = (if transcribe then ''audio'' else ''speech'')"
  shows "meter_nonneg c s' \<and> meter_total c s' \<le> meter_total c s"
proof -
  have cc: "c = ''audio'' \<or> c = ''speech''" using c by simp
  from r show ?thesis unfolding audio_release_def
  proof (elim disjE exE conjE)
    assume "audio_grant g3 lims (\<not> transcribe) s s'"
    then show ?thesis by (rule audio_other_grant [OF assms(1) _ c])
  next
    fix now assume "s' = prune now s"
    then show ?thesis using prune_total [OF assms(1)] by simp
  next
    fix now x a e e' n
    assume "key_settle_audio now x a e s = (e', n, s')" "0 \<le> ad_speech_chars a" "0 \<le> ad_audio_seconds a"
      "ae_dispatched x \<and> \<not> ae_speech x \<longrightarrow> 0 \<le> ev_seconds e' \<and> ev_seconds e' \<le> ad_audio_seconds a"
    then show ?thesis by (rule audio_settle_total [OF assms(1) _ cc])
  qed
qed

interpretation speech_day: ceiling "meter_total ''speech''" "of_int (speech_limit lims)" "\<lambda>s. meter_nonneg ''speech'' s \<and> 0 < speech_limit lims"
  "audio_grant g3 lims False" "audio_release g3 lims False" for lims g3
proof (unfold_locales, goal_cases)
  case (1 s s')
  then show ?case using audio_grant_within [of "''speech''" s g3 lims False s' "speech_limit lims"] by simp
next
  case (2 s s')
  then show ?case using audio_release_no_more [of "''speech''" s g3 lims False s'] by simp
qed

interpretation audio_day: ceiling "meter_total ''audio''" "of_int (audio_limit lims)" "\<lambda>s. meter_nonneg ''audio'' s \<and> 0 < audio_limit lims"
  "audio_grant g3 lims True" "audio_release g3 lims True" for lims g3
proof (unfold_locales, goal_cases)
  case (1 s s')
  then show ?case using audio_grant_within [of "''audio''" s g3 lims True s' "audio_limit lims"] by simp
next
  case (2 s s')
  then show ?case using audio_release_no_more [of "''audio''" s g3 lims True s'] by simp
qed

text \<open>
  The speech budget is a hard ceiling: from a state within it, no sequence of reservations of either kind,
  settlements and day changes takes the characters charged plus reserved past the day's limit.
\<close>

theorem speech_budget_ceiling:
  assumes "rtranclp (\<lambda>s s'. audio_grant g3 lims False s s' \<or> audio_release g3 lims False s s') s s'"
    and "0 \<le> ms_today (meter ''speech'' s)" and "0 < lm_daily_speech_chars (audio_defaults lims)"
    and "ms_today (meter ''speech'' s) + ms_reserved (meter ''speech'' s) \<le> of_int (lm_daily_speech_chars (audio_defaults lims))"
  shows "ms_today (meter ''speech'' s') + ms_reserved (meter ''speech'' s') \<le> of_int (lm_daily_speech_chars (audio_defaults lims))"
  using speech_day.stays_within [OF assms(1)] assms(2-4)
  by (simp add: meter_total_def meter_nonneg_def speech_limit_def)

lemma sample_speech_grant:
  "\<exists>s'. audio_grant (\<lambda>_. []) sample_limits False new_key_state s' \<and> ms_reserved (meter ''speech'' s') = 200"
proof -
  have "\<exists>a' s'. key_reserve_audio (\<lambda>_. []) 7 sample_limits False 0 200 sample_admission new_key_state = (None, a', s')
     \<and> ms_reserved (meter ''speech'' s') = 200"
    by (simp add: key_reserve_audio_def budget_amount_sel audio_defaults_sel sample_limits_def default_limits_def
        new_key_state_def zero_meter_def meter_def prune_def prune_meter_def set_meter_def Let_def)
  then show ?thesis unfolding audio_grant_def by blast
qed

theorem speech_budget_ceiling_witness:
  "\<exists>s'. ms_reserved (meter ''speech'' s') = 200 \<and> ms_today (meter ''speech'' s') + ms_reserved (meter ''speech'' s') \<le> 200000"
proof -
  obtain s' where g: "audio_grant (\<lambda>_. []) sample_limits False new_key_state s'" "ms_reserved (meter ''speech'' s') = 200"
    using sample_speech_grant by blast
  have "rtranclp (\<lambda>s s'. audio_grant (\<lambda>_. []) sample_limits False s s' \<or> audio_release (\<lambda>_. []) sample_limits False s s') new_key_state s'"
    using g(1) by (intro r_into_rtranclp) simp
  from speech_budget_ceiling [OF this] g(2) show ?thesis
    by (auto simp: new_key_state_def meter_def zero_meter_def sample_limits_def default_limits_def audio_defaults_sel)
qed

end
