(* ===== verification/Usage_Recorder.thy ===== *)
theory Usage_Recorder
  imports Usage
begin

text \<open>
  The recorder of usage events (internal/usage/recorder.go): a bounded channel filled by the request path
  and one writer goroutine behind it. The state is the channel, the events encoded into the buffered writer,
  the file, and the drop counter; the steps of the two sides interleave freely. \<open>rc_failed\<close> is the sticky
  error of the buffered writer after a write that failed.
\<close>

definition buffered_events :: nat where "buffered_events = 1024"

record recorder =
  rc_ch :: "event list"
  rc_buffer :: "event list"
  rc_file :: "event list"
  rc_dropped :: nat
  rc_warned :: int
  rc_warnings :: "int list"
  rc_closed :: bool
  rc_done :: bool
  rc_failed :: bool

definition new_recorder :: recorder where
  "new_recorder = \<lparr>rc_ch = [], rc_buffer = [], rc_file = [], rc_dropped = 0, rc_warned = 0, rc_warnings = [],
     rc_closed = False, rc_done = False, rc_failed = False\<rparr>"

text \<open>\<open>now\<close> is the clock in seconds since the Unix epoch; a warning logs the moment it is given.\<close>

definition rec_drop :: "int \<Rightarrow> recorder \<Rightarrow> recorder" where
  "rec_drop now r =
     (let r = r\<lparr>rc_dropped := rc_dropped r + 1\<rparr> in
      if now - rc_warned r \<ge> 10 then r\<lparr>rc_warned := now, rc_warnings := rc_warnings r @ [now]\<rparr> else r)"

definition rec_record :: "gotime \<Rightarrow> int \<Rightarrow> event \<Rightarrow> recorder \<Rightarrow> recorder" where
  "rec_record ts now e r =
     (let e = (if is_zero (ev_ts e) then e\<lparr>ev_ts := ts\<rparr> else e) in
      if rc_closed r then rec_drop now r
      else if length (rc_ch r) < buffered_events then r\<lparr>rc_ch := rc_ch r @ [e]\<rparr>
      else rec_drop now r)"

text \<open>The writer: one event into the buffer, and a flush when the channel has drained.\<close>

definition rec_write :: "event \<Rightarrow> recorder \<Rightarrow> recorder" where
  "rec_write e r = (if rc_failed r then r else r\<lparr>rc_buffer := rc_buffer r @ [e]\<rparr>)"

definition rec_take :: "recorder \<Rightarrow> recorder" where
  "rec_take r = (case rc_ch r of [] \<Rightarrow> r | e # es \<Rightarrow> rec_write e (r\<lparr>rc_ch := es\<rparr>))"

definition rec_flush :: "bool \<Rightarrow> recorder \<Rightarrow> recorder" where
  "rec_flush ok r =
     (if rc_failed r then r
      else if ok then r\<lparr>rc_file := rc_file r @ rc_buffer r, rc_buffer := []\<rparr>
      else r\<lparr>rc_failed := True\<rparr>)"

definition rec_close :: "recorder \<Rightarrow> recorder" where "rec_close r = r\<lparr>rc_closed := True\<rparr>"

text \<open>
  The steps beside Record. The writer takes while there is something to take; the buffer may spill to the file at any
  moment and is flushed when the channel is empty; after Close the writer ends once the channel is empty.
\<close>

inductive rec_step :: "recorder \<Rightarrow> recorder \<Rightarrow> bool" where
  take: "rc_ch r \<noteq> [] \<Longrightarrow> \<not> rc_done r \<Longrightarrow> rec_step r (rec_take r)"
| flush: "\<not> rc_done r \<Longrightarrow> rec_step r (rec_flush ok r)"
| close: "rec_step r (rec_close r)"
| finish: "rc_closed r \<Longrightarrow> rc_ch r = [] \<Longrightarrow> \<not> rc_done r \<Longrightarrow> rec_step r ((rec_flush ok r)\<lparr>rc_done := True\<rparr>)"

text \<open>A run, with the events presented to Record and the ones it accepted.\<close>

inductive rec_run :: "recorder \<Rightarrow> nat \<Rightarrow> event list \<Rightarrow> bool" where
  start: "rec_run new_recorder 0 []"
| present: "rec_run r n acc \<Longrightarrow> r' = rec_record ts now e r \<Longrightarrow>
     rec_run r' (n + 1) (if length (rc_ch r') = length (rc_ch r) then acc else acc @ [last (rc_ch r')])"
| other: "rec_run r n acc \<Longrightarrow> rec_step r r' \<Longrightarrow> rec_run r' n acc"

text \<open>
  What holds of every run: an event presented is accepted or counted as dropped; the file, the buffer and
  the channel hold the accepted events in the order they were accepted (unless a write failed, when the file
  holds the first of them); the channel stays within its bound; warnings are ten seconds apart.
\<close>

definition rec_ok :: "recorder \<Rightarrow> nat \<Rightarrow> event list \<Rightarrow> bool" where
  "rec_ok r n acc \<longleftrightarrow>
     n = length acc + rc_dropped r
     \<and> length (rc_ch r) \<le> buffered_events
     \<and> (\<exists>rest. acc = rc_file r @ rest)
     \<and> (\<not> rc_failed r \<longrightarrow> acc = rc_file r @ rc_buffer r @ rc_ch r)
     \<and> (rc_done r \<longrightarrow> rc_closed r \<and> rc_ch r = [] \<and> (\<not> rc_failed r \<longrightarrow> rc_buffer r = []))"

lemma rec_drop_sel [simp]:
  "rc_ch (rec_drop now r) = rc_ch r" "rc_buffer (rec_drop now r) = rc_buffer r" "rc_file (rec_drop now r) = rc_file r"
  "rc_dropped (rec_drop now r) = rc_dropped r + 1" "rc_closed (rec_drop now r) = rc_closed r"
  "rc_done (rec_drop now r) = rc_done r" "rc_failed (rec_drop now r) = rc_failed r"
  by (simp_all add: rec_drop_def Let_def)

lemma rec_ok_record:
  assumes "rec_ok r n acc" and "r' = rec_record ts now e r"
  shows "rec_ok r' (n + 1) (if length (rc_ch r') = length (rc_ch r) then acc else acc @ [last (rc_ch r')])"
  using assms by (auto simp: rec_ok_def rec_record_def Let_def)

lemma rec_ok_other:
  assumes "rec_ok r n acc" and "rec_step r r'"
  shows "rec_ok r' n acc"
  using assms(2)
proof (cases rule: rec_step.cases)
  case take
  then obtain e es where "rc_ch r = e # es" by (cases "rc_ch r") auto
  with take assms(1) show ?thesis by (auto simp: rec_ok_def rec_take_def rec_write_def)
qed (use assms in \<open>auto simp: rec_ok_def rec_flush_def rec_close_def\<close>)

lemma rec_run_ok: "rec_run r n acc \<Longrightarrow> rec_ok r n acc"
proof (induction rule: rec_run.induct)
  case start
  show ?case by (simp add: rec_ok_def new_recorder_def)
next
  case (present r n acc r' ts now e)
  then show ?case using rec_ok_record by simp
next
  case (other r n acc r')
  then show ?case using rec_ok_other by blast
qed

text \<open>
  C40. The recorder loses no event silently and reorders none: in every interleaving of requests, writer and
  shutdown, each event presented is accepted or counted as dropped, the channel never exceeds its bound, what
  is on disk is the beginning of what was accepted, and once the writer has ended without a write error
  everything accepted is on disk.
\<close>

theorem recorder_conserves:
  assumes "rec_run r n acc"
  shows "n = length acc + rc_dropped r \<and> length (rc_ch r) \<le> buffered_events
     \<and> take (length (rc_file r)) acc = rc_file r
     \<and> (rc_done r \<and> \<not> rc_failed r \<longrightarrow> rc_file r = acc)"
  using rec_run_ok [OF assms] by (auto simp: rec_ok_def)

theorem recorder_conserves_witness:
  "\<exists>r. rec_run r 1 [empty_event\<lparr>ev_ts := 5\<rparr>] \<and> rc_dropped r = 0 \<and> rc_ch r = [empty_event\<lparr>ev_ts := 5\<rparr>]"
proof -
  let ?r = "rec_record 5 0 empty_event new_recorder"
  have c: "rc_ch ?r = [empty_event\<lparr>ev_ts := 5\<rparr>]" "rc_ch new_recorder = []"
    by (simp_all add: rec_record_def new_recorder_def empty_event_def buffered_events_def is_zero_def)
  have run: "rec_run ?r 1 [empty_event\<lparr>ev_ts := 5\<rparr>]"
    using rec_run.present [OF rec_run.start refl, of 5 0 empty_event] c by simp
  then show ?thesis using recorder_conserves [OF run] c by auto
qed

end
