(* ===== verification/Body.thy ===== *)
theory Body
  imports Json Gateway_Errors Keys Limiter
begin

text \<open>
  Body shaping (the first half of internal/gateway/proxy.go, the endpoint table of request.go and the
  estimates of internal/upstream/kinds.go): what is taken out of the friend's JSON, what is put into it, and what the
  later stages read of it. A body is the decoded object; every operation returns the new one.
\<close>

definition images_endpoint :: string where "images_endpoint = ''/v1/images/generations''"
definition transcribe_endpoint :: string where "transcribe_endpoint = ''/v1/audio/transcriptions''"
definition speech_endpoint :: string where "speech_endpoint = ''/v1/audio/speech''"
definition chat_endpoint :: string where "chat_endpoint = ''/v1/chat/completions''"
definition embeddings_endpoint :: string where "embeddings_endpoint = ''/v1/embeddings''"
definition models_endpoint :: string where "models_endpoint = ''/v1/models''"
definition responses_endpoint :: string where "responses_endpoint = ''/v1/responses''"

lemmas endpoint_defs = images_endpoint_def transcribe_endpoint_def speech_endpoint_def chat_endpoint_def
  embeddings_endpoint_def models_endpoint_def responses_endpoint_def

definition counts_against_rpm :: "string \<Rightarrow> bool" where
  "counts_against_rpm e \<longleftrightarrow>
     snd (model_endpoint e) \<noteq> [] \<or> e = ''/v1/runs'' \<or> e = ''/v1/images/jobs''
     \<or> has_prefix ''/v1/images/outputs/'' e \<or> has_prefix ''/v1/runs/'' e"

section \<open>The engine as the gateway knows it\<close>

record model_info =
  mi_context :: int
  mi_state :: string
  mi_slots :: int

record engine_info =
  ei_model_details :: "(string \<times> model_info) list"
  ei_kind :: string
  ei_healthy :: bool
  ei_model_context :: int
  ei_slots :: int
  ei_models :: "string list"
  ei_vision :: "(string \<times> bool option) list"

definition estimate_tokens :: "string \<Rightarrow> int" where
  "estimate_tokens text_s = (int (length text_s) + 3) div 4"

text \<open>\<open>messages\<close> is the value whose encoding is passed: \<open>None\<close> for nil; a JSON null decodes into no messages.\<close>

fun template_allowance :: "json option \<Rightarrow> int" where
  "template_allowance None = 0"
| "template_allowance (Some (JArr ms)) = 4 * int (length ms) + 16"
| "template_allowance (Some JNull) = 16"
| "template_allowance (Some v) = 0"

section \<open>Stripping overrides\<close>

definition override_keys :: "string list" where
  "override_keys =
     [''n_predict'', ''max_new_tokens'', ''min_tokens'', ''num_predict'', ''ignore_eos'',
      ''n'', ''n_cmpl'', ''best_of'', ''use_beam_search'',
      ''n_probs'',
      ''id_slot'', ''slot_id'', ''n_keep'', ''num_keep'', ''n_discard'', ''n_ctx'', ''num_ctx'', ''priority'',
      ''lora'']"

definition cap_fields :: "string list" where "cap_fields = [''max_tokens'', ''max_completion_tokens'']"

definition strip_key :: "string \<Rightarrow> jobject \<times> string list \<Rightarrow> jobject \<times> string list" where
  "strip_key k = (\<lambda>(body, removed). if jget body k \<noteq> None then (jdel k body, removed @ [k]) else (body, removed))"

definition strip_cap :: "string \<Rightarrow> jobject \<times> string list \<Rightarrow> jobject \<times> string list" where
  "strip_cap f = (\<lambda>(body, removed).
     if jget body f \<noteq> None \<and> as_number (jget body f) = None then (jdel f body, removed @ [f]) else (body, removed))"

definition strip_overrides :: "jobject \<Rightarrow> jobject \<times> string list" where
  "strip_overrides body =
     (let (body, removed) = fold strip_cap cap_fields (fold strip_key override_keys (body, []))
      in (body, sort removed))"

section \<open>Models\<close>

definition allows_model :: "key \<Rightarrow> string list \<Rightarrow> string \<Rightarrow> bool" where
  "allows_model k pinned model \<longleftrightarrow> key_allows_model k model \<and> (pinned = [] \<or> model \<in> set pinned)"

definition resolve_model :: "jobject \<Rightarrow> key \<Rightarrow> string list \<Rightarrow> string list \<Rightarrow> (gw_error + string) \<times> jobject" where
  "resolve_model body k engine_models pinned =
     (let m = as_string (jget body ''model'');
          (m, body) =
            (if m = [] then
               (let m = (case find (allows_model k pinned) engine_models of Some i \<Rightarrow> i | None \<Rightarrow> m);
                    fallback = (if lm_models (k_limits k) = [] then pinned else lm_models (k_limits k));
                    m = fold (\<lambda>i m. if m = [] \<and> allows_model k pinned i then i else m) fallback m
                in (m, if m \<noteq> [] then jset ''model'' (JStr m) body else body))
             else (m, body))
      in if m = [] \<and> pinned \<noteq> [] then (Inl (errf CodeModelNotAllowed 0 ''no model is allowed for this key'' []), body)
         else if m \<noteq> [] \<and> \<not> allows_model k pinned m then
           (Inl (errf CodeModelNotAllowed 0 ''model %q is not allowed for this key'' [FStr m]), body)
         else (Inr m, body))"

section \<open>The output cap\<close>

definition clamp_field :: "limits \<Rightarrow> string \<Rightarrow> jobject \<times> int \<times> bool \<Rightarrow> jobject \<times> int \<times> bool" where
  "clamp_field lims f = (\<lambda>(body, in_force, present).
     case as_number (jget body f) of
       None \<Rightarrow> (body, in_force, present)
     | Some n \<Rightarrow>
         (let v = (case atoi n of Some v \<Rightarrow> if v \<le> 0 then 0 else v | None \<Rightarrow> 0);
              (v, body) = (if lm_max_output_tokens lims > 0 \<and> (v = 0 \<or> v > lm_max_output_tokens lims)
                           then (lm_max_output_tokens lims, jset f (JNum (itoa (lm_max_output_tokens lims))) body)
                           else (v, body));
              in_force = (if v > 0 \<and> (in_force = 0 \<or> v < in_force) then v else in_force)
          in (body, in_force, True)))"

definition clamp_max_tokens :: "jobject \<Rightarrow> limits \<Rightarrow> int \<times> jobject" where
  "clamp_max_tokens body lims =
     (let (body, in_force, present) = fold (clamp_field lims) cap_fields (body, 0, False)
      in if \<not> present \<and> lm_max_output_tokens lims > 0
         then (lm_max_output_tokens lims, jset ''max_tokens'' (JNum (itoa (lm_max_output_tokens lims))) body)
         else (in_force, body))"

definition set_include_usage :: "jobject \<Rightarrow> jobject" where
  "set_include_usage body =
     jset ''stream_options'' (JObj (jset ''include_usage'' (JBool True) (as_object (jget body ''stream_options'')))) body"

section \<open>Text\<close>

definition nl :: string where "nl = [CHR 0x0A]"

definition part_text :: "json \<Rightarrow> string" where
  "part_text p =
     (let pm = as_object (Some p) in
      if as_string (jget pm ''type'') = ''text'' then
        (case jget pm ''text'' of Some (JStr s) \<Rightarrow> s @ nl | _ \<Rightarrow> [])
      else [])"

definition message_text :: "json \<Rightarrow> string" where
  "message_text m =
     (case jget (as_object (Some m)) ''content'' of
        Some (JStr content) \<Rightarrow> content @ nl
      | Some (JArr ps) \<Rightarrow> concat (map part_text ps)
      | _ \<Rightarrow> [])"

definition messages_text :: "json option \<Rightarrow> string" where
  "messages_text v = concat (map message_text (as_array v))"

definition input_text :: "json option \<Rightarrow> string" where
  "input_text v =
     (case v of
        Some (JStr s) \<Rightarrow> s
      | Some (JArr ps) \<Rightarrow> concat (map (\<lambda>p. case p of JStr s \<Rightarrow> s @ nl | _ \<Rightarrow> []) ps)
      | _ \<Rightarrow> [])"

section \<open>Normalization\<close>

record normalized =
  n_body :: jobject
  n_model :: string
  n_stream :: bool
  n_text :: string
  n_messages :: "json option"
  n_max_tok :: int
  n_stripped :: "string list"

definition normalize :: "string \<Rightarrow> jobject \<Rightarrow> key \<Rightarrow> string list \<Rightarrow> string list \<Rightarrow> gw_error + normalized" where
  "normalize kind body k engine_models pinned =
     (let (body, stripped) = strip_overrides body in
      case resolve_model body k engine_models pinned of
        (Inl e, body) \<Rightarrow> Inl e
      | (Inr model, body) \<Rightarrow>
          (let n = \<lparr>n_body = body, n_model = model, n_stream = False, n_text = [], n_messages = None, n_max_tok = 0,
                    n_stripped = stripped\<rparr>
           in if kind = chat_endpoint then
                (let n = n\<lparr>n_stream := as_bool (jget body ''stream''), n_text := messages_text (jget body ''messages''),
                           n_messages := jget body ''messages''\<rparr>;
                     (cap, body) = clamp_max_tokens body (k_limits k);
                     body = (if n_stream n then set_include_usage body else body)
                 in Inr (n\<lparr>n_max_tok := cap, n_body := body\<rparr>))
              else if kind = embeddings_endpoint then Inr (n\<lparr>n_text := input_text (jget body ''input'')\<rparr>)
              else Inr n))"

section \<open>Fitting the context\<close>

definition eff_context :: "engine_info \<Rightarrow> string \<Rightarrow> limits \<Rightarrow> int" where
  "eff_context info model lims =
     (let eff = ei_model_context info;
          eff = (case map_of (ei_model_details info) model of
                   Some d \<Rightarrow> if mi_context d > 0 then mi_context d else eff | None \<Rightarrow> eff);
          k = lm_max_context lims
      in if k > 0 \<and> (eff = 0 \<or> k < eff) then k else eff)"

definition set_max_tok :: "int \<Rightarrow> normalized \<Rightarrow> normalized" where
  "set_max_tok v n =
     (let num = JNum (itoa v);
          fields = filter (\<lambda>f. jget (n_body n) f \<noteq> None) cap_fields;
          body = fold (\<lambda>f b. jset f num b) fields (n_body n);
          body = (if fields = [] then jset ''max_tokens'' num body else body)
      in n\<lparr>n_body := body, n_max_tok := v\<rparr>)"

definition fit_context :: "engine_info \<Rightarrow> limits \<Rightarrow> int \<Rightarrow> normalized \<Rightarrow> gw_error option \<times> normalized" where
  "fit_context info lims prompt n =
     (let eff = eff_context info (n_model n) lims in
      if eff = 0 then (None, n)
      else if prompt > eff then
        (Some (errf CodeContextTooLong 0 ''prompt is %d tokens but the context is %d'' [FInt prompt, FInt eff]), n)
      else if n_max_tok n > 0 \<and> prompt + n_max_tok n > eff then
        (None, set_max_tok (max (eff - prompt) min_output_tokens) n)
      else (None, n))"

section \<open>The engine's errors\<close>

text \<open>\<open>io.LimitReader(r, 512)\<close>, trimmed; \<open>decode\<close> is the JSON decoder.\<close>

definition snippet :: "string \<Rightarrow> string" where "snippet b = trim_space (take 512 b)"

definition has_image_parts :: "json option \<Rightarrow> bool" where
  "has_image_parts v =
     list_ex (\<lambda>m. list_ex (\<lambda>p. jget (as_object (Some p)) ''type'' = Some (JStr ''image_url''))
       (as_array (jget (as_object (Some m)) ''content''))) (as_array v)"

definition context_overflow :: "string \<Rightarrow> string \<Rightarrow> bool" where
  "context_overflow typ msg \<longleftrightarrow>
     typ = ''exceed_context_size_error'' \<or> contains_sub ''exceeds the available context size'' msg
     \<or> contains_sub ''maximum context length is'' msg"

definition upstream_status_err ::
    "string \<Rightarrow> string \<Rightarrow> int \<Rightarrow> engine_info \<Rightarrow> limits \<Rightarrow> int \<Rightarrow> normalized \<Rightarrow> gw_error" where
  "upstream_status_err msg typ status info lims prompt n =
     (let lower = to_lower msg in
      if 400 \<le> status \<and> status < 500 \<and> has_image_parts (jget (n_body n) ''messages'')
         \<and> (contains_sub ''image'' lower \<or> contains_sub ''multimodal'' lower \<or> contains_sub ''multi-modal'' lower)
         \<and> \<not> context_overflow typ msg
      then errf CodeImagesNotSupported 0 ''%s'' [FStr msg]
      else if status = 400 \<or> status = 422 then
        (if context_overflow typ msg then
           (let eff = eff_context info (n_model n) lims in
            if eff > 0 then
              errf CodeContextTooLong 0
                ''the prompt (%d tokens) leaves no room in the model's context (%d) for a reply; shorten the conversation''
                [FInt prompt, FInt eff]
            else errf CodeContextTooLong 0 ''the prompt does not fit the model's context; shorten the conversation'' [])
         else errf CodeInvalidRequest 0 ''the host's engine rejected this request (HTTP %d): %s'' [FInt status, FStr msg])
      else errf CodeUpstreamError 0 ''upstream returned HTTP %d: %s'' [FInt status, FStr msg])"

section \<open>What stripping leaves\<close>

lemma strip_key_get: "jget (fst (fold strip_key ks (b, r))) k = (if k \<in> set ks then None else jget b k)"
  by (induction ks arbitrary: b r) (auto simp: strip_key_def)

lemma strip_cap_get:
  "jget (fst (fold strip_cap fs (b, r))) k = (if k \<in> set fs \<and> as_number (jget b k) = None then None else jget b k)"
proof (induction fs arbitrary: b r)
  case (Cons f fs)
  show ?case
  proof (cases "jget b f \<noteq> None \<and> as_number (jget b f) = None")
    case True
    then show ?thesis using Cons [of "jdel f b"] by (auto simp: strip_cap_def)
  next
    case False
    then show ?thesis using Cons [of b] by (auto simp: strip_cap_def)
  qed
qed simp

lemma cap_not_override: "f \<in> set cap_fields \<Longrightarrow> f \<notin> set override_keys"
  by (auto simp: cap_fields_def override_keys_def)

lemma strip_get:
  "jget (fst (strip_overrides body)) k =
     (if k \<in> set override_keys then None
      else if k \<in> set cap_fields \<and> as_number (jget body k) = None then None else jget body k)"
proof -
  obtain b r where b: "fold strip_key override_keys (body, []) = (b, r)" by fastforce
  have g: "jget b k = (if k \<in> set override_keys then None else jget body k)" for k
    using strip_key_get [of override_keys body "[]" k] by (simp add: b)
  show ?thesis
    using strip_cap_get [of cap_fields b r k] cap_not_override [of k]
    by (auto simp: strip_overrides_def b g Let_def split: prod.splits)
qed

lemma resolve_model_get:
  "resolve_model body k em pinned = (r, body') \<Longrightarrow> f \<noteq> ''model'' \<Longrightarrow> jget body' f = jget body f"
  by (auto simp: resolve_model_def Let_def split: if_splits prod.splits option.splits)

lemma set_include_usage_get: "f \<noteq> ''stream_options'' \<Longrightarrow> jget (set_include_usage body) f = jget body f"
  by (simp add: set_include_usage_def)

lemma clamp_field_get: "g \<noteq> f \<Longrightarrow> jget (fst (clamp_field lims f (b, n, p))) g = jget b g"
  by (auto simp: clamp_field_def Let_def split: option.splits)

lemma clamp_max_tokens_get: "g \<notin> set cap_fields \<Longrightarrow> jget (snd (clamp_max_tokens body lims)) g = jget body g"
proof -
  assume g: "g \<notin> set cap_fields"
  have "jget (fst (fold (clamp_field lims) fs (b, n, p))) g = jget b g" if "g \<notin> set fs" for fs b n p
    using that
  proof (induction fs arbitrary: b n p)
    case (Cons f fs)
    obtain b' n' p' where s: "clamp_field lims f (b, n, p) = (b', n', p')" by (cases "clamp_field lims f (b, n, p)") auto
    then have "jget b' g = jget b g" using clamp_field_get [of g f lims b n p] Cons.prems by simp
    with Cons s show ?case by simp
  qed simp
  from this [OF g, of body 0 False] g show ?thesis
    by (auto simp: clamp_max_tokens_def cap_fields_def split: prod.splits)
qed

lemma normalize_parts:
  assumes "normalize kind body k em pinned = Inr n"
  obtains body1 body2 where "body1 = fst (strip_overrides body)"
    and "resolve_model body1 k em pinned = (Inr (n_model n), body2)"
    and "n_body n = (if kind = chat_endpoint
        then (let b = snd (clamp_max_tokens body2 (k_limits k)) in if n_stream n then set_include_usage b else b) else body2)"
    and "n_max_tok n = (if kind = chat_endpoint then fst (clamp_max_tokens body2 (k_limits k)) else 0)"
proof -
  obtain b1 st where b1: "strip_overrides body = (b1, st)" by fastforce
  obtain r b2 where b2: "resolve_model b1 k em pinned = (r, b2)" by fastforce
  obtain m where m: "r = Inr m" using assms b1 b2 by (cases r) (auto simp: normalize_def)
  obtain cap b3 where c: "clamp_max_tokens b2 (k_limits k) = (cap, b3)" by fastforce
  show ?thesis
    by (rule that [of b1 b2]) (use assms b1 b2 m c in \<open>auto simp: normalize_def Let_def split: if_splits\<close>)
qed

text \<open>
  Everything else passes through untouched: a member that is neither an engine override, an output cap, the
  model nor the stream options has the same value before and after, and no override survives.
\<close>

theorem normalize_passes_through:
  assumes "normalize kind body k em pinned = Inr n"
  shows "(g \<notin> set override_keys \<union> set cap_fields \<union> {''model'', ''stream_options''} \<longrightarrow> jget (n_body n) g = jget body g)
     \<and> (g \<in> set override_keys \<longrightarrow> jget (n_body n) g = None)"
proof -
  obtain b1 b2 where b: "b1 = fst (strip_overrides body)" "resolve_model b1 k em pinned = (Inr (n_model n), b2)"
    "n_body n = (if kind = chat_endpoint
        then (let b = snd (clamp_max_tokens b2 (k_limits k)) in if n_stream n then set_include_usage b else b) else b2)"
    using normalize_parts [OF assms] by metis
  have "jget (n_body n) g = jget b1 g" if "g \<notin> set cap_fields \<union> {''model'', ''stream_options''}"
    using that resolve_model_get [OF b(2), of g] clamp_max_tokens_get [of g b2 "k_limits k"]
    by (auto simp: b(3) Let_def set_include_usage_get)
  moreover have "g \<in> set override_keys \<Longrightarrow> g \<notin> set cap_fields \<union> {''model'', ''stream_options''}"
    by (auto simp: override_keys_def cap_fields_def)
  ultimately show ?thesis using strip_get [of body g] by (auto simp: b(1))
qed

definition sample_body :: jobject where
  "sample_body = [(''model'', JStr ''m''), (''n'', JNum ''4''), (''max_tokens'', JNum ''9000''), (''top_p'', JNum ''0.5'')]"

definition sample_body_key :: key where
  "sample_body_key = \<lparr>k_agent = False, k_id = ''k_1'', k_name = ''a'', k_secret_hash = [], k_status = Active, k_created_at = 0,
     k_limits = default_limits\<rparr>"

lemma sample_normalize:
  "\<exists>n. normalize chat_endpoint sample_body sample_body_key [''m''] [] = Inr n"
  by (simp add: normalize_def strip_overrides_def strip_key_def strip_cap_def override_keys_def cap_fields_def sample_body_def
      resolve_model_def allows_model_def key_allows_model_def sample_body_key_def default_limits_def endpoint_defs Let_def
      split: prod.splits)

theorem normalize_passes_through_witness:
  "\<exists>n. normalize chat_endpoint sample_body sample_body_key [''m''] [] = Inr n
     \<and> jget (n_body n) ''top_p'' = Some (JNum ''0.5'') \<and> jget (n_body n) ''n'' = None"
proof -
  obtain n where n: "normalize chat_endpoint sample_body sample_body_key [''m''] [] = Inr n"
    using sample_normalize by blast
  show ?thesis using n normalize_passes_through [OF n, of "''top_p''"] normalize_passes_through [OF n, of "''n''"]
    by (auto simp: override_keys_def cap_fields_def sample_body_def)
qed

section \<open>The output cap in force\<close>

definition cap_ok :: "int \<Rightarrow> json option \<Rightarrow> int \<Rightarrow> bool" where
  "cap_ok M v n \<longleftrightarrow> (\<exists>t. v = Some (JNum t) \<and> atoi t = Some n \<and> 1 \<le> n \<and> n \<le> M)"

lemma as_number_Some: "as_number v = Some t \<longleftrightarrow> v = Some (JNum t)"
  by (cases v rule: as_number.cases) auto

lemma clamp_field_present:
  assumes "as_number (jget b f) = Some s" and M: "0 < lm_max_output_tokens lims" "lm_max_output_tokens lims \<le> max_int64"
  shows "\<exists>v. cap_ok (lm_max_output_tokens lims) (jget (fst (clamp_field lims f (b, n, p))) f) v
     \<and> snd (clamp_field lims f (b, n, p)) = (if n = 0 \<or> v < n then v else n, True)"
proof -
  let ?M = "lm_max_output_tokens lims"
  let ?v = "case atoi s of Some v \<Rightarrow> if v \<le> 0 then 0 else v | None \<Rightarrow> 0"
  have M1: "atoi (itoa ?M) = Some ?M" using M by (intro atoi_itoa) (auto simp: min_int64_def)
  show ?thesis
  proof (cases "?v = 0 \<or> ?M < ?v")
    case True
    then show ?thesis using assms M1
      by (intro exI [of _ ?M]) (auto simp: clamp_field_def cap_ok_def Let_def)
  next
    case False
    then have a: "atoi s = Some ?v" "1 \<le> ?v" "?v \<le> ?M" by (auto split: option.splits if_splits)
    have "jget b f = Some (JNum s)" using assms(1) by (simp only: as_number_Some)
    with False a assms show ?thesis
      by (intro exI [of _ ?v]) (auto simp: clamp_field_def cap_ok_def Let_def)
  qed
qed

lemma clamp_field_absent: "as_number (jget b f) = None \<Longrightarrow> clamp_field lims f (b, n, p) = (b, n, p)"
  by (simp add: clamp_field_def)

text \<open>What the fold over the two fields has done: every number seen is a cap, and the least is in force.\<close>

definition clamped :: "int \<Rightarrow> string list \<Rightarrow> jobject \<Rightarrow> jobject \<times> int \<times> bool \<Rightarrow> bool" where
  "clamped M fs body r \<longleftrightarrow> (case r of (b, n, p) \<Rightarrow>
     (p \<longleftrightarrow> (\<exists>f \<in> set fs. as_number (jget body f) \<noteq> None)) \<and> (\<not> p \<longrightarrow> n = 0) \<and> (p \<longrightarrow> 1 \<le> n \<and> n \<le> M)
     \<and> (\<forall>f \<in> set fs. as_number (jget body f) \<noteq> None \<longrightarrow> (\<exists>v. cap_ok M (jget b f) v \<and> n \<le> v))
     \<and> (\<forall>f. f \<notin> set fs \<or> as_number (jget body f) = None \<longrightarrow> jget b f = jget body f))"

lemma clamped_step:
  assumes "clamped M fs body (b, n, p)" and "f \<notin> set fs" and M: "M = lm_max_output_tokens lims" "0 < M" "M \<le> max_int64"
  shows "clamped M (fs @ [f]) body (clamp_field lims f (b, n, p))"
proof (cases "as_number (jget body f)")
  case None
  then have "as_number (jget b f) = None" using assms(1,2) by (auto simp: clamped_def)
  then show ?thesis using assms None clamp_field_absent [of b f lims n p] by (auto simp: clamped_def)
next
  case (Some s)
  then have "as_number (jget b f) = Some s" using assms(1,2) by (auto simp: clamped_def)
  from clamp_field_present [OF this, of lims n p] M obtain v b' where
    v: "cap_ok M (jget b' f) v" and r: "clamp_field lims f (b, n, p) = (b', if n = 0 \<or> v < n then v else n, True)"
    by (cases "clamp_field lims f (b, n, p)") auto
  have other: "jget b' g = jget b g" if "g \<noteq> f" for g
    using clamp_field_get [OF that, of lims b n p] r by simp
  have v1: "1 \<le> v" "v \<le> M" using v by (auto simp: cap_ok_def)
  have keep: "\<exists>w. cap_ok M (jget b' g) w \<and> (if n = 0 \<or> v < n then v else n) \<le> w"
    if "g \<in> set fs" "as_number (jget body g) \<noteq> None" for g
  proof -
    from that assms(1) have p: "p" and ex: "\<exists>w. cap_ok M (jget b g) w \<and> n \<le> w"
      unfolding clamped_def prod.case by blast+
    from ex obtain w where w: "cap_ok M (jget b g) w" "n \<le> w" by blast
    from p assms(1) have "n \<noteq> 0" by (auto simp: clamped_def)
    have "g \<noteq> f" using that(1) assms(2) by blast
    from w \<open>n \<noteq> 0\<close> other [OF this] show ?thesis by (intro exI [of _ w]) auto
  qed
  have n1: "p \<longrightarrow> 1 \<le> n \<and> n \<le> M" "\<not> p \<longrightarrow> n = 0" using assms(1) by (auto simp: clamped_def)
  let ?n = "if n = 0 \<or> v < n then v else n"
  have c1: "\<exists>g \<in> set (fs @ [f]). as_number (jget body g) \<noteq> None" using Some by simp
  have c2: "1 \<le> ?n \<and> ?n \<le> M" using v1 n1 by (cases p) auto
  have c3: "\<exists>w. cap_ok M (jget b' g) w \<and> ?n \<le> w" if "g \<in> set (fs @ [f])" "as_number (jget body g) \<noteq> None" for g
  proof (cases "g = f")
    case True
    with v show ?thesis by (intro exI [of _ v]) auto
  next
    case False
    with that keep show ?thesis by simp
  qed
  have c4: "jget b' g = jget body g" if "g \<notin> set (fs @ [f]) \<or> as_number (jget body g) = None" for g
  proof -
    have "g \<noteq> f" using that Some by auto
    moreover have "jget b g = jget body g" using assms(1) that unfolding clamped_def prod.case by auto
    ultimately show ?thesis using other by simp
  qed
  show ?thesis unfolding r clamped_def prod.case using c1 c2 c3 c4 by blast
qed

lemma clamp_max_tokens_spec:
  assumes M: "M = lm_max_output_tokens lims" "0 < M" "M \<le> max_int64" and num: "\<forall>f \<in> set cap_fields. jget body f = None \<or> as_number (jget body f) \<noteq> None"
  shows "1 \<le> fst (clamp_max_tokens body lims) \<and> fst (clamp_max_tokens body lims) \<le> M
     \<and> (\<exists>f \<in> set cap_fields. jget (snd (clamp_max_tokens body lims)) f \<noteq> None)
     \<and> (\<forall>f \<in> set cap_fields. jget (snd (clamp_max_tokens body lims)) f \<noteq> None \<longrightarrow>
          (\<exists>v. cap_ok M (jget (snd (clamp_max_tokens body lims)) f) v \<and> fst (clamp_max_tokens body lims) \<le> v))"
proof -
  obtain b1 n1 p1 where s1: "clamp_field lims ''max_tokens'' (body, 0, False) = (b1, n1, p1)"
    by (cases "clamp_field lims ''max_tokens'' (body, 0, False)") auto
  obtain b n p where s2: "clamp_field lims ''max_completion_tokens'' (b1, n1, p1) = (b, n, p)"
    by (cases "clamp_field lims ''max_completion_tokens'' (b1, n1, p1)") auto
  have c0: "clamped M [] body (body, 0, False)" by (simp add: clamped_def)
  have c1: "clamped M [''max_tokens''] body (b1, n1, p1)" using clamped_step [OF c0 _ M, of "''max_tokens''"] s1 by simp
  have c2: "clamped M cap_fields body (b, n, p)" using clamped_step [OF c1 _ M, of "''max_completion_tokens''"] s2
    by (simp add: cap_fields_def)
  have eq: "clamp_max_tokens body lims = (if \<not> p then (M, jset ''max_tokens'' (JNum (itoa M)) b) else (n, b))"
    using M by (simp add: clamp_max_tokens_def cap_fields_def s1 s2)
  have M1: "atoi (itoa M) = Some M" using M by (intro atoi_itoa) (auto simp: min_int64_def)
  show ?thesis
  proof (cases p)
    case True
    have n1: "1 \<le> n" "n \<le> M" and seen: "\<exists>f \<in> set cap_fields. as_number (jget body f) \<noteq> None"
      and each: "\<And>f. f \<in> set cap_fields \<Longrightarrow> as_number (jget body f) \<noteq> None \<Longrightarrow> \<exists>v. cap_ok M (jget b f) v \<and> n \<le> v"
      and rest: "\<And>f. as_number (jget body f) = None \<Longrightarrow> jget b f = jget body f"
      using c2 True unfolding clamped_def prod.case by blast+
    from seen each have "\<exists>f \<in> set cap_fields. jget b f \<noteq> None" unfolding cap_ok_def by blast
    moreover have "\<exists>v. cap_ok M (jget b f) v \<and> n \<le> v" if "f \<in> set cap_fields" "jget b f \<noteq> None" for f
      using each [OF that(1)] rest [of f] num that by metis
    ultimately show ?thesis using n1 True unfolding eq by simp
  next
    case False
    then have "\<forall>f \<in> set cap_fields. jget b f = None" using c2 num unfolding clamped_def by auto
    with False M M1 show ?thesis unfolding eq by (auto simp: cap_ok_def cap_fields_def)
  qed
qed



section \<open>The model a request runs on\<close>

lemma fold_pick_keep: "m0 \<noteq> [] \<Longrightarrow> fold (\<lambda>i m. if m = [] \<and> P i then i else m) xs m0 = m0"
  by (induction xs) simp_all

lemma fold_pick:
  "fold (\<lambda>i m. if m = [] \<and> P i then i else m) xs [] = (case find (\<lambda>i. P i \<and> i \<noteq> []) xs of Some i \<Rightarrow> i | None \<Rightarrow> [])"
proof (induction xs)
  case (Cons x xs)
  show ?case
  proof (cases "P x \<and> x \<noteq> []")
    case True
    then show ?thesis using fold_pick_keep [of x P xs] by simp
  next
    case False
    then have "(if P x then x else []) = []" by auto
    then have "fold (\<lambda>i m. if m = [] \<and> P i then i else m) (x # xs) [] = fold (\<lambda>i m. if m = [] \<and> P i then i else m) xs []"
      by simp
    moreover have "find (\<lambda>i. P i \<and> i \<noteq> []) (x # xs) = find (\<lambda>i. P i \<and> i \<noteq> []) xs" using False by auto
    ultimately show ?thesis using Cons by simp
  qed
qed simp

lemma as_string_nonempty: "as_string v \<noteq> [] \<Longrightarrow> v = Some (JStr (as_string v))"
  by (cases v rule: as_string.cases) auto

lemma resolve_model_spec:
  assumes "resolve_model body k em pinned = (Inr m, body')"
  shows "(m \<noteq> [] \<longrightarrow> allows_model k pinned m \<and> jget body' ''model'' = Some (JStr m)) \<and> (pinned \<noteq> [] \<longrightarrow> m \<noteq> [])
     \<and> ((\<exists>i \<in> set (lm_models (k_limits k)). i \<noteq> []) \<longrightarrow> m \<noteq> [])"
proof (cases "as_string (jget body ''model'') = []")
  case False
  with assms as_string_nonempty [OF False] show ?thesis
    by (auto simp: resolve_model_def Let_def split: if_splits)
next
  case True
  define m0 where "m0 = (case find (allows_model k pinned) em of Some i \<Rightarrow> i | None \<Rightarrow> [])"
  define fb where "fb = (if lm_models (k_limits k) = [] then pinned else lm_models (k_limits k))"
  define R where "R = fold (\<lambda>i m. if m = [] \<and> allows_model k pinned i then i else m) fb m0"
  have "resolve_model body k em pinned =
      (let body = (if R \<noteq> [] then jset ''model'' (JStr R) body else body) in
       if R = [] \<and> pinned \<noteq> [] then (Inl (errf CodeModelNotAllowed 0 ''no model is allowed for this key'' []), body)
       else if R \<noteq> [] \<and> \<not> allows_model k pinned R then
         (Inl (errf CodeModelNotAllowed 0 ''model %q is not allowed for this key'' [FStr R]), body)
       else (Inr R, body))"
    unfolding resolve_model_def True Let_def m0_def [symmetric] fb_def [symmetric] R_def [symmetric] by simp
  with assms have r: "m = R" "m \<noteq> [] \<Longrightarrow> body' = jset ''model'' (JStr m) body" "m = [] \<Longrightarrow> pinned = []"
    "m \<noteq> [] \<Longrightarrow> allows_model k pinned m"
    by (auto simp: Let_def split: if_splits)
  have "i = []" if m: "m = []" and i: "i \<in> set (lm_models (k_limits k))" for i
  proof -
    have al: "allows_model k pinned i" using r(3) [OF m] i by (simp add: allows_model_def key_allows_model_def)
    have fb: "fb = lm_models (k_limits k)" using i by (auto simp: fb_def)
    have "m0 = []"
    proof (rule ccontr)
      assume "m0 \<noteq> []"
      from fold_pick_keep [OF this, of "allows_model k pinned" fb] have "R = m0" by (simp only: R_def)
      with r(1) m \<open>m0 \<noteq> []\<close> show False by simp
    qed
    then have R: "R = (case find (\<lambda>i. allows_model k pinned i \<and> i \<noteq> []) fb of Some i \<Rightarrow> i | None \<Rightarrow> [])"
      using fold_pick [of "allows_model k pinned" fb] by (simp only: R_def)
    have "find (\<lambda>i. allows_model k pinned i \<and> i \<noteq> []) fb = None"
    proof (cases "find (\<lambda>i. allows_model k pinned i \<and> i \<noteq> []) fb")
      case (Some x)
      then have "x \<noteq> []" by (auto simp: find_Some_iff)
      with Some R r(1) m show ?thesis by simp
    qed
    then show "i = []" using al i unfolding fb find_None_iff by blast
  qed
  then show ?thesis using r(2-4) by auto
qed

text \<open>
  A request only ever runs on a model its key may use: the model the gateway records is allowed by the key's list
  and the host's pins and is the one written into the body the engine sees, and when either list restricts the
  choice the engine is never left to choose a default of its own.
\<close>

theorem model_always_allowed:
  assumes "normalize kind body k em pinned = Inr n"
  shows "(n_model n \<noteq> [] \<longrightarrow> allows_model k pinned (n_model n) \<and> jget (n_body n) ''model'' = Some (JStr (n_model n)))
     \<and> (pinned \<noteq> [] \<or> (\<exists>i \<in> set (lm_models (k_limits k)). i \<noteq> []) \<longrightarrow> n_model n \<noteq> [])"
proof -
  obtain b1 b2 where b: "b1 = fst (strip_overrides body)" "resolve_model b1 k em pinned = (Inr (n_model n), b2)"
    "n_body n = (if kind = chat_endpoint
        then (let b = snd (clamp_max_tokens b2 (k_limits k)) in if n_stream n then set_include_usage b else b) else b2)"
    using normalize_parts [OF assms] by metis
  have "jget (n_body n) ''model'' = jget b2 ''model''"
    using clamp_max_tokens_get [of "''model''" b2 "k_limits k"] by (auto simp: b(3) Let_def set_include_usage_get cap_fields_def)
  with resolve_model_spec [OF b(2)] show ?thesis by auto
qed

theorem model_always_allowed_witness:
  "\<exists>n. normalize chat_endpoint sample_body sample_body_key [''m''] [] = Inr n
     \<and> (n_model n \<noteq> [] \<longrightarrow> jget (n_body n) ''model'' = Some (JStr (n_model n)))"
proof -
  obtain n where n: "normalize chat_endpoint sample_body sample_body_key [''m''] [] = Inr n"
    using sample_normalize by blast
  show ?thesis using n model_always_allowed [OF n] by blast
qed

section \<open>Fitting the context\<close>

lemma set_max_tok_get:
  "jget (n_body (set_max_tok v n)) f =
     (if jget (n_body n) f \<noteq> None \<and> f \<in> set cap_fields
         \<or> f = ''max_tokens'' \<and> (\<forall>g \<in> set cap_fields. jget (n_body n) g = None)
      then Some (JNum (itoa v)) else jget (n_body n) f)"
proof -
  have "jget (fold (\<lambda>f b. jset f x b) fs b) f = (if f \<in> set fs then Some x else jget b f)" for x fs b
    by (induction fs arbitrary: b) auto
  then show ?thesis by (auto simp: set_max_tok_def Let_def cap_fields_def)
qed

text \<open>
  The context check. A prompt over the effective context is refused; otherwise the output cap is
  left alone when the worst case fits and else set, in every cap field, to what the context has left or to the
  floor of 16 when less is left.
\<close>

theorem fit_context_spec:
  assumes "eff = eff_context info (n_model n) lims" and "fit_context info lims prompt n = (r, n')"
  shows "(r \<noteq> None \<longleftrightarrow> 0 \<noteq> eff \<and> eff < prompt)
     \<and> (r = None \<and> (eff = 0 \<or> n_max_tok n \<le> 0 \<or> prompt + n_max_tok n \<le> eff) \<longrightarrow> n' = n)
     \<and> (r = None \<and> eff \<noteq> 0 \<and> 0 < n_max_tok n \<and> eff < prompt + n_max_tok n \<longrightarrow>
          n_max_tok n' = max (eff - prompt) 16
          \<and> (\<forall>f \<in> set cap_fields. jget (n_body n') f \<noteq> None \<longrightarrow> jget (n_body n') f = Some (JNum (itoa (n_max_tok n'))))
          \<and> (\<exists>f \<in> set cap_fields. jget (n_body n') f \<noteq> None)
          \<and> (16 \<le> eff - prompt \<longrightarrow> prompt + n_max_tok n' = eff))"
proof -
  have m: "n_max_tok (set_max_tok v n) = v" for v by (simp add: set_max_tok_def Let_def)
  have caps: "''max_tokens'' \<in> set cap_fields" by (simp add: cap_fields_def)
  show ?thesis
  proof (cases "eff \<noteq> 0 \<and> \<not> prompt > eff \<and> n_max_tok n > 0 \<and> prompt + n_max_tok n > eff")
    case True
    then have n': "r = None" "n' = set_max_tok (max (eff - prompt) 16) n"
      using assms by (simp_all add: fit_context_def min_output_tokens_def Let_def)
    have e: "\<exists>f \<in> set cap_fields. jget (n_body n') f \<noteq> None"
      using caps by (cases "\<forall>g \<in> set cap_fields. jget (n_body n) g = None") (auto simp: n' set_max_tok_get)
    have a: "jget (n_body n') f = Some (JNum (itoa (n_max_tok n')))"
      if "f \<in> set cap_fields" "jget (n_body n') f \<noteq> None" for f
      using that by (auto simp: n' set_max_tok_get m split: if_splits)
    show ?thesis using True e a by (simp add: n' m)
  next
    case False
    then show ?thesis using assms by (auto simp: fit_context_def Let_def split: if_splits)
  qed
qed

definition sample_info :: engine_info where
  "sample_info = \<lparr>ei_model_details = [], ei_kind = ''llama.cpp'', ei_healthy = True, ei_model_context = 100, ei_slots = 1,
     ei_models = [''m''], ei_vision = []\<rparr>"

definition sample_normalized :: "int \<Rightarrow> normalized" where
  "sample_normalized cap = \<lparr>n_body = [(''max_tokens'', JNum (itoa cap))], n_model = ''m'', n_stream = False, n_text = [],
     n_messages = None, n_max_tok = cap, n_stripped = []\<rparr>"

theorem fit_context_spec_witness:
  "n_max_tok (snd (fit_context sample_info default_limits 60 (sample_normalized 80))) = 40"
proof -
  obtain r n' where f: "fit_context sample_info default_limits 60 (sample_normalized 80) = (r, n')" by fastforce
  have "eff_context sample_info (n_model (sample_normalized 80)) default_limits = 100"
    by (simp add: eff_context_def sample_info_def default_limits_def Let_def)
  with fit_context_spec [OF refl f] have "n_max_tok n' = 40" by (simp add: sample_normalized_def)
  then show ?thesis by (simp only: f snd_conv)
qed

text \<open>
  The floor can raise the cap: with two tokens of context left, an output cap of 8 is rewritten to 16.
\<close>

lemma fit_context_raises_cap:
  "n_max_tok (sample_normalized 8) = 8
   \<and> n_max_tok (snd (fit_context sample_info (default_limits\<lparr>lm_max_output_tokens := 8\<rparr>) 98 (sample_normalized 8))) = 16"
  by (simp add: fit_context_def eff_context_def sample_info_def default_limits_def sample_normalized_def min_output_tokens_def
      set_max_tok_def Let_def)

end
