(* ===== verification/Slot_Queue.thy ===== *)
theory Slot_Queue
  imports Gateway_Errors Limiter
begin

text \<open>
  One destination's queue in front of its engine (internal/gateway/queue.go). The state is the count of slots
  given out, the waiters in arrival order and the waiters whose channel has been closed (a slot handed over, not
  yet picked up). A waiter is a number drawn from a counter, for its pointer. Each operation holds the mutex,
  and reads the cap once where it needs it; \<open>cap\<close> is that reading.
\<close>

record slot_queue =
  sq_in_flight :: int
  sq_waiters :: "nat list"
  sq_handed :: "nat list"
  sq_next :: nat

definition new_queue :: slot_queue where
  "new_queue = \<lparr>sq_in_flight = 0, sq_waiters = [], sq_handed = [], sq_next = 0\<rparr>"

definition queue_limit :: "int \<Rightarrow> int" where "queue_limit cap = max 1 cap"

fun fill_from :: "int \<Rightarrow> int \<Rightarrow> nat list \<Rightarrow> nat list \<Rightarrow> int \<times> nat list \<times> nat list" where
  "fill_from limit n [] handed = (n, [], handed)"
| "fill_from limit n (w # ws) handed =
     (if n < limit then fill_from limit (n + 1) ws (handed @ [w]) else (n, w # ws, handed))"

definition fill :: "int \<Rightarrow> slot_queue \<Rightarrow> slot_queue" where
  "fill limit q =
     (let (n, ws, handed) = fill_from limit (sq_in_flight q) (sq_waiters q) (sq_handed q)
      in q\<lparr>sq_in_flight := n, sq_waiters := ws, sq_handed := handed\<rparr>)"

definition release :: "int \<Rightarrow> slot_queue \<Rightarrow> slot_queue" where
  "release cap q = fill (queue_limit cap) (q\<lparr>sq_in_flight := sq_in_flight q - 1\<rparr>)"

definition counts :: "slot_queue \<Rightarrow> int \<times> nat" where
  "counts q = (sq_in_flight q, length (sq_waiters q))"

definition retry_after_queue_timeout :: int where "retry_after_queue_timeout = 5"

text \<open>The first half of \<open>acquire\<close>, up to the wait.\<close>

datatype entered = EnteredAtOnce | EnteredFull gw_error | EnteredWaiting nat

definition acquire_enter :: "int \<Rightarrow> slot_queue \<Rightarrow> entered \<times> slot_queue" where
  "acquire_enter cap q =
     (let limit = queue_limit cap; q = fill limit q in
      if sq_in_flight q < limit then (EnteredAtOnce, q\<lparr>sq_in_flight := sq_in_flight q + 1\<rparr>)
      else let n = int (length (sq_waiters q)) in
      if n \<ge> max 2 (2 * limit) then
        (EnteredFull (errf CodeQueueTimeout retry_after_queue_timeout
           ''the host's engine is busy; %d requests already waiting'' [FInt n]), q)
      else
        (EnteredWaiting (sq_next q), q\<lparr>sq_waiters := sq_waiters q @ [sq_next q], sq_next := sq_next q + 1\<rparr>))"

text \<open>
  The wait. Each event is what one \<open>select\<close> returned: the hand-over with whether the friend's context has
  ended by then, the timer, the context, or a keepalive tick with whether its write succeeded. The result is
  \<open>None\<close> while the wait goes on, else the value \<open>wait\<close> returns.
\<close>

datatype wait_event = HandOver bool | WaitTimeout | CtxDone | Tick "string option"

definition gone_error :: gw_error where
  "gone_error = errf CodeClientClosed 0 ''client went away while queued'' []"

definition gone_write_error :: "string \<Rightarrow> gw_error" where
  "gone_write_error err = errf CodeClientClosed 0 ''client went away while queued: %s'' [FStr err]"

fun wait_events :: "string \<Rightarrow> wait_event list \<Rightarrow> gw_error option option" where
  "wait_events waited [] = None"
| "wait_events waited (HandOver gone # es) = Some (if gone then Some gone_error else None)"
| "wait_events waited (WaitTimeout # es) =
     Some (Some (errf CodeQueueTimeout retry_after_queue_timeout
       ''the host's engine is busy; waited %s for a free slot'' [FStr waited]))"
| "wait_events waited (CtxDone # es) = Some (Some gone_error)"
| "wait_events waited (Tick (Some err) # es) = Some (Some (gone_write_error err))"
| "wait_events waited (Tick None # es) = wait_events waited es"

text \<open>\<open>joined\<close> is the first \<open>queued()\<close>: absent, written, or failed.\<close>

definition wait_slot :: "string option option \<Rightarrow> string \<Rightarrow> wait_event list \<Rightarrow> gw_error option option" where
  "wait_slot joined waited es =
     (case joined of
        Some (Some err) \<Rightarrow> Some (Some (gone_write_error err))
      | _ \<Rightarrow> wait_events waited es)"

text \<open>
  The second half of \<open>acquire\<close>: a waiter that got its slot picks it up; one that gave up takes itself out
  of the line, or, when the slot had been handed over meanwhile, hands it on.
\<close>

definition pick_up :: "nat \<Rightarrow> slot_queue \<Rightarrow> slot_queue" where
  "pick_up w q = q\<lparr>sq_handed := remove1 w (sq_handed q)\<rparr>"

definition give_up :: "int \<Rightarrow> nat \<Rightarrow> slot_queue \<Rightarrow> slot_queue" where
  "give_up cap w q =
     (if w \<in> set (sq_waiters q) then q\<lparr>sq_waiters := remove1 w (sq_waiters q)\<rparr>
      else fill (queue_limit cap)
             (q\<lparr>sq_handed := remove1 w (sq_handed q), sq_in_flight := sq_in_flight q - 1\<rparr>))"

definition acquire_finish :: "int \<Rightarrow> nat \<Rightarrow> gw_error option \<Rightarrow> slot_queue \<Rightarrow> outcome \<times> gw_error option \<times> slot_queue" where
  "acquire_finish cap w err q =
     (case err of
        None \<Rightarrow> (OutcomeNone, None, pick_up w q)
      | Some e \<Rightarrow> (OutcomeQueueLost, Some e, give_up cap w q))"

section \<open>Facts on handing over\<close>

lemma fill_from_spec:
  "fill_from limit n ws handed = (n', ws', handed') \<Longrightarrow>
     (\<exists>ts. ws = ts @ ws' \<and> handed' = handed @ ts \<and> n' = n + int (length ts))
     \<and> n' \<le> max n limit \<and> (ws' \<noteq> [] \<longrightarrow> limit \<le> n')"
proof (induction limit n ws handed rule: fill_from.induct)
  case (2 limit n w ws handed)
  show ?case
  proof (cases "n < limit")
    case True
    with 2 obtain ts where "ws = ts @ ws'" "handed' = (handed @ [w]) @ ts" "n' = n + 1 + int (length ts)"
      and b: "n' \<le> max (n + 1) limit" "ws' \<noteq> [] \<longrightarrow> limit \<le> n'" by auto
    then show ?thesis using True by (intro conjI exI [of _ "w # ts"]) auto
  next
    case False
    with 2 show ?thesis by auto
  qed
qed auto

lemma fill_spec:
  obtains ts where "sq_waiters q = ts @ sq_waiters (fill limit q)" and "sq_handed (fill limit q) = sq_handed q @ ts"
    and "sq_in_flight (fill limit q) = sq_in_flight q + int (length ts)" and "sq_next (fill limit q) = sq_next q"
    and "sq_in_flight (fill limit q) \<le> max (sq_in_flight q) limit"
    and "sq_waiters (fill limit q) \<noteq> [] \<Longrightarrow> limit \<le> sq_in_flight (fill limit q)"
proof -
  obtain n ws handed where f: "fill_from limit (sq_in_flight q) (sq_waiters q) (sq_handed q) = (n, ws, handed)"
    by (cases "fill_from limit (sq_in_flight q) (sq_waiters q) (sq_handed q)") auto
  have e: "fill limit q = q\<lparr>sq_in_flight := n, sq_waiters := ws, sq_handed := handed\<rparr>" by (simp add: fill_def f)
  show ?thesis using fill_from_spec [OF f] that by (auto simp: e)
qed

lemma fill_idle: "sq_waiters q = [] \<Longrightarrow> fill limit q = q"
  by (simp add: fill_def)

section \<open>Runs\<close>

text \<open>
  Every interleaving of requests on one queue: arrivals, pick-ups, waits that end without a slot, and
  releases by the holders, of which \<open>h\<close> is the number. The cap of each step is its own reading.
\<close>

inductive queue_run :: "(int \<Rightarrow> bool) \<Rightarrow> slot_queue \<Rightarrow> nat \<Rightarrow> bool" for caps where
  start: "queue_run caps new_queue 0"
| enter: "queue_run caps q h \<Longrightarrow> caps cap \<Longrightarrow> acquire_enter cap q = (r, q') \<Longrightarrow>
     queue_run caps q' (if r = EnteredAtOnce then h + 1 else h)"
| pick: "queue_run caps q h \<Longrightarrow> w \<in> set (sq_handed q) \<Longrightarrow> queue_run caps (pick_up w q) (h + 1)"
| give: "queue_run caps q h \<Longrightarrow> caps cap \<Longrightarrow> w \<in> set (sq_waiters q) \<union> set (sq_handed q) \<Longrightarrow>
     queue_run caps (give_up cap w q) h"
| release: "queue_run caps q (Suc h) \<Longrightarrow> caps cap \<Longrightarrow> queue_run caps (release cap q) h"

text \<open>Slots are conserved, and the line keeps its order: whoever has been handed a slot came before all who wait.\<close>

definition queue_ok :: "slot_queue \<Rightarrow> nat \<Rightarrow> bool" where
  "queue_ok q h \<longleftrightarrow> sq_in_flight q = int h + int (length (sq_handed q))
     \<and> sorted_wrt (<) (sq_waiters q) \<and> distinct (sq_handed q)
     \<and> (\<forall>w \<in> set (sq_waiters q). w < sq_next q) \<and> (\<forall>w \<in> set (sq_handed q). w < sq_next q)
     \<and> (\<forall>x \<in> set (sq_handed q). \<forall>w \<in> set (sq_waiters q). x < w)"

lemma queue_ok_fill:
  assumes "queue_ok q h"
  shows "queue_ok (fill limit q) h"
proof -
  obtain ts where t: "sq_waiters q = ts @ sq_waiters (fill limit q)" "sq_handed (fill limit q) = sq_handed q @ ts"
    "sq_in_flight (fill limit q) = sq_in_flight q + int (length ts)" "sq_next (fill limit q) = sq_next q"
    using fill_spec by metis
  have "distinct ts" using assms t(1) unfolding queue_ok_def
    by (metis distinct_append strict_sorted_iff)
  then show ?thesis using assms t
    unfolding queue_ok_def by (auto simp: sorted_wrt_append)
qed

lemma queue_ok_enter:
  assumes ok: "queue_ok q h" and e: "acquire_enter cap q = (r, q')"
  shows "queue_ok q' (if r = EnteredAtOnce then h + 1 else h)"
proof -
  have "queue_ok (fill (queue_limit cap) q) h" by (rule queue_ok_fill [OF ok])
  with e show ?thesis
    by (auto simp: acquire_enter_def Let_def queue_ok_def sorted_wrt_append less_Suc_eq split: if_splits)
qed

lemma length_remove1_mem: "w \<in> set xs \<Longrightarrow> int (length (remove1 w xs)) = int (length xs) - 1"
  using length_pos_if_in_set [of w xs] by (simp add: length_remove1 of_nat_diff Suc_le_eq)

lemma set_remove1_mem: "x \<in> set (remove1 w xs) \<Longrightarrow> x \<in> set xs"
  by (meson notin_set_remove1)

lemma sorted_wrt_remove1: "sorted_wrt P xs \<Longrightarrow> sorted_wrt P (remove1 w xs)"
  by (induction xs) (auto dest: set_remove1_mem)

lemma queue_run_ok: "queue_run caps q h \<Longrightarrow> queue_ok q h"
proof (induction rule: queue_run.induct)
  case start
  show ?case by (simp add: queue_ok_def new_queue_def)
next
  case (enter q h cap r q')
  then show ?case using queue_ok_enter by blast
next
  case (pick q h w)
  then show ?case by (auto simp: queue_ok_def pick_up_def length_remove1_mem dest: set_remove1_mem)
next
  case (give q h cap w)
  show ?case
  proof (cases "w \<in> set (sq_waiters q)")
    case True
    with give show ?thesis by (auto simp: queue_ok_def give_up_def sorted_wrt_remove1 dest: set_remove1_mem)
  next
    case False
    with give have "w \<in> set (sq_handed q)" by blast
    with give have "queue_ok (q\<lparr>sq_handed := remove1 w (sq_handed q), sq_in_flight := sq_in_flight q - 1\<rparr>) h"
      by (auto simp: queue_ok_def length_remove1_mem dest: set_remove1_mem)
    with False show ?thesis by (simp add: give_up_def queue_ok_fill)
  qed
next
  case (release q h cap)
  then have "queue_ok (q\<lparr>sq_in_flight := sq_in_flight q - 1\<rparr>) h" by (simp add: queue_ok_def)
  then show ?case by (simp add: Slot_Queue.release_def queue_ok_fill)
qed

text \<open>
  C33. No slot is lost and none is made up, and nobody overtakes: in every interleaving the count in flight is
  exactly the requests holding a slot plus the hand-overs not yet picked up, and every waiter that has been
  handed a slot arrived before every waiter still in line, which stands in arrival order.
\<close>

theorem slots_conserved:
  assumes "queue_run caps q h"
  shows "sq_in_flight q = int h + int (length (sq_handed q)) \<and> 0 \<le> sq_in_flight q
     \<and> sorted_wrt (<) (sq_waiters q) \<and> (\<forall>x \<in> set (sq_handed q). \<forall>w \<in> set (sq_waiters q). x < w)"
  using queue_run_ok [OF assms] by (simp add: queue_ok_def)

lemma sample_queue_run: "queue_run (\<lambda>c. c = 1) \<lparr>sq_in_flight = 1, sq_waiters = [0], sq_handed = [], sq_next = 1\<rparr> 1"
proof -
  have "queue_run (\<lambda>c. c = 1) (new_queue\<lparr>sq_in_flight := 1\<rparr>) (0 + 1)"
    using queue_run.enter [OF queue_run.start, of "\<lambda>c. c = 1" 1 EnteredAtOnce "new_queue\<lparr>sq_in_flight := 1\<rparr>"]
    by (simp add: acquire_enter_def fill_def new_queue_def queue_limit_def Let_def)
  then have "queue_run (\<lambda>c. c = 1) (new_queue\<lparr>sq_in_flight := 1\<rparr>) 1" by simp
  from queue_run.enter [OF this, of 1 "EnteredWaiting 0" "\<lparr>sq_in_flight = 1, sq_waiters = [0], sq_handed = [], sq_next = 1\<rparr>"]
  show ?thesis by (simp add: acquire_enter_def fill_def new_queue_def queue_limit_def Let_def)
qed

theorem slots_conserved_witness:
  "queue_run (\<lambda>c. c = 1) \<lparr>sq_in_flight = 1, sq_waiters = [0], sq_handed = [], sq_next = 1\<rparr> 1
   \<and> sq_in_flight \<lparr>sq_in_flight = 1, sq_waiters = [0 :: nat], sq_handed = [], sq_next = 1\<rparr> = int 1 + int (length ([] :: nat list))"
  using slots_conserved [OF sample_queue_run] sample_queue_run by simp

lemma release_bounds:
  "sq_in_flight (fill limit q) \<le> max (sq_in_flight q) limit" "length (sq_waiters (fill limit q)) \<le> length (sq_waiters q)"
proof -
  obtain ts where t: "sq_waiters q = ts @ sq_waiters (fill limit q)" and b: "sq_in_flight (fill limit q) \<le> max (sq_in_flight q) limit"
    using fill_spec by metis
  show "sq_in_flight (fill limit q) \<le> max (sq_in_flight q) limit" by (rule b)
  have "length (sq_waiters q) = length ts + length (sq_waiters (fill limit q))" by (subst t) simp
  then show "length (sq_waiters (fill limit q)) \<le> length (sq_waiters q)" by simp
qed

definition bounded :: "int \<Rightarrow> slot_queue \<Rightarrow> bool" where
  "bounded L q \<longleftrightarrow> sq_in_flight q \<le> L \<and> int (length (sq_waiters q)) \<le> max 2 (2 * L)"

lemma bounded_fill: "bounded L q \<Longrightarrow> l \<le> L \<Longrightarrow> bounded L (fill l q)"
  using release_bounds [of l q] by (auto simp: bounded_def)

lemma queue_run_bounded:
  assumes "\<And>c. caps c \<Longrightarrow> c \<le> L" and "1 \<le> L"
  shows "queue_run caps q h \<Longrightarrow> bounded L q"
proof (induction rule: queue_run.induct)
  case start
  show ?case using assms(2) by (simp add: bounded_def new_queue_def)
next
  case (enter q h cap r q')
  have l: "queue_limit cap \<le> L" using assms enter by (auto simp: queue_limit_def)
  have "bounded L (fill (queue_limit cap) q)" using enter l by (simp add: bounded_fill)
  then show ?case using enter(3) l
    by (auto simp: acquire_enter_def bounded_def Let_def split: if_splits)
next
  case (pick q h w)
  then show ?case by (simp add: bounded_def pick_up_def)
next
  case (give q h cap w)
  have l: "queue_limit cap \<le> L" using assms give by (auto simp: queue_limit_def)
  have "bounded L (q\<lparr>sq_handed := remove1 w (sq_handed q), sq_in_flight := sq_in_flight q - 1\<rparr>)"
    using give by (simp add: bounded_def)
  moreover have "bounded L (q\<lparr>sq_waiters := remove1 w (sq_waiters q)\<rparr>)"
    using give by (auto simp: bounded_def length_remove1)
  ultimately show ?case using l by (simp add: give_up_def bounded_fill)
next
  case (release q h cap)
  have l: "queue_limit cap \<le> L" using assms release by (auto simp: queue_limit_def)
  have "bounded L (q\<lparr>sq_in_flight := sq_in_flight q - 1\<rparr>)" using release by (simp add: bounded_def)
  then show ?case using l by (simp add: Slot_Queue.release_def bounded_fill)
qed

text \<open>
  The engine is never handed more requests than its slots, and the line is bounded: with every reading of
  the cap at most L, at most L are in flight and at most twice that (and never less than 2) are allowed to wait.
\<close>

theorem queue_bounded:
  assumes "queue_run caps q h" and "\<forall>c. caps c \<longrightarrow> c \<le> L" and "1 \<le> L"
  shows "sq_in_flight q \<le> L \<and> int h \<le> L \<and> int (length (sq_waiters q)) \<le> max 2 (2 * L)"
  using queue_run_bounded [of caps L q h] assms queue_run_ok [OF assms(1)] by (auto simp: bounded_def queue_ok_def)

theorem queue_bounded_witness:
  "sq_in_flight \<lparr>sq_in_flight = 1, sq_waiters = [0 :: nat], sq_handed = [], sq_next = 1\<rparr> \<le> 1"
  using queue_bounded [OF sample_queue_run, of 1] by simp

lemma fill_busy: "sq_waiters (fill limit q) \<noteq> [] \<Longrightarrow> limit \<le> sq_in_flight (fill limit q)"
  using fill_spec by metis

lemma queue_run_busy:
  "queue_run (\<lambda>c. c = cap) q h \<Longrightarrow> sq_waiters q \<noteq> [] \<Longrightarrow> queue_limit cap \<le> sq_in_flight q"
proof (induction rule: queue_run.induct)
  case start
  then show ?case by (simp add: new_queue_def)
next
  case (enter q h c r q')
  then show ?case using fill_busy [of "queue_limit cap" q]
    by (auto simp: acquire_enter_def Let_def split: if_splits)
next
  case (pick q h w)
  then show ?case by (simp add: pick_up_def)
next
  case (give q h c w)
  show ?case
  proof (cases "w \<in> set (sq_waiters q)")
    case True
    then have "sq_waiters q \<noteq> []" by auto
    with True give show ?thesis by (simp add: give_up_def)
  next
    case False
    with give fill_busy show ?thesis by (simp add: give_up_def)
  qed
next
  case (release q h c)
  with fill_busy show ?case by (simp add: Slot_Queue.release_def)
qed

text \<open>
  C34. Work conservation: while the number of slots does not change, nobody waits unless every slot is taken, after
  every arrival, hand-over, departure and release.
\<close>

theorem queue_work_conserving:
  assumes "queue_run (\<lambda>c. c = cap) q h" and "sq_in_flight q < max 1 cap"
  shows "sq_waiters q = []"
  using queue_run_busy [OF assms(1)] assms(2) unfolding queue_limit_def by linarith

theorem queue_work_conserving_witness: "sq_waiters (new_queue) = []"
  by (rule queue_work_conserving [OF queue_run.start, of 1]) (simp add: new_queue_def)

text \<open>
  A slot is never spent on a request that has gone. A wait ends with a slot only by a hand-over that finds the
  friend still there; in every other end the request keeps nothing: its place in the line is removed, or the slot it
  had been handed goes to the oldest waiter, or back to the pool when nobody waits.
\<close>

theorem departed_keeps_nothing:
  assumes ok: "queue_run caps q h" and w: "w \<in> set (sq_waiters q) \<union> set (sq_handed q)" 
    and cap: "sq_waiters q \<noteq> [] \<longrightarrow> sq_in_flight q = queue_limit cap"
    and ended: "wait_slot joined waited es = Some err" and fin: "acquire_finish cap w err q = (o', e', q')"
  shows "(o' = OutcomeNone \<longleftrightarrow> err = None)
     \<and> (err = None \<longrightarrow> HandOver False \<in> set es \<and> sq_in_flight q' = sq_in_flight q \<and> w \<notin> set (sq_handed q'))
     \<and> (err \<noteq> None \<longrightarrow> w \<notin> set (sq_waiters q') \<and> w \<notin> set (sq_handed q')
          \<and> (w \<in> set (sq_handed q) \<longrightarrow>
               (case sq_waiters q of [] \<Rightarrow> sq_in_flight q' = sq_in_flight q - 1
                | x # xs \<Rightarrow> x \<in> set (sq_handed q') \<and> sq_waiters q' = xs \<and> sq_in_flight q' = sq_in_flight q)))"
proof -
  have inv: "distinct (sq_waiters q)" "distinct (sq_handed q)" "\<forall>x \<in> set (sq_handed q). \<forall>w \<in> set (sq_waiters q). x < w"
    using queue_run_ok [OF ok] by (auto simp: queue_ok_def strict_sorted_iff)
  have got: "HandOver False \<in> set es" if "wait_slot joined waited es = Some None"
  proof -
    have "wait_events waited xs = Some None \<Longrightarrow> HandOver False \<in> set xs" for xs
      by (induction waited xs rule: wait_events.induct) (auto split: if_splits)
    with that show ?thesis by (auto simp: wait_slot_def split: option.splits)
  qed
  show ?thesis
  proof (cases err)
    case None
    with fin got ended inv show ?thesis by (auto simp: acquire_finish_def pick_up_def)
  next
    case (Some e)
    have q': "o' = OutcomeQueueLost" "q' = give_up cap w q" using fin Some by (simp_all add: acquire_finish_def)
    show ?thesis
    proof (cases "w \<in> set (sq_waiters q)")
      case True
      then have "w \<notin> set (sq_handed q)" using inv(3) by blast
      with True Some q' inv show ?thesis by (simp add: give_up_def)
    next
      case False
      let ?q = "q\<lparr>sq_handed := remove1 w (sq_handed q), sq_in_flight := sq_in_flight q - 1\<rparr>"
      have q2: "q' = fill (queue_limit cap) ?q" using False q' by (simp add: give_up_def)
      show ?thesis
      proof (cases "sq_waiters q")
        case Nil
        then have "q' = ?q" using q2 fill_idle [of ?q] by simp
        with Nil Some q'(1) inv show ?thesis by simp
      next
        case (Cons x xs)
        have "fill_from L L ys hs = (L, ys, hs)" for L ys hs by (cases ys) simp_all
        then have "fill (queue_limit cap) ?q = ?q\<lparr>sq_in_flight := queue_limit cap, sq_waiters := xs,
            sq_handed := remove1 w (sq_handed q) @ [x]\<rparr>"
          using cap Cons by (simp add: fill_def)
        moreover have "w \<noteq> x" "w \<notin> set xs" using False Cons by auto
        ultimately show ?thesis using q2 Cons Some q'(1) inv cap by simp
      qed
    qed
  qed
qed

theorem departed_keeps_nothing_witness:
  "sq_waiters (give_up 1 0 \<lparr>sq_in_flight = 1, sq_waiters = [0], sq_handed = [], sq_next = 1\<rparr>) = []"
proof -
  let ?q = "\<lparr>sq_in_flight = 1, sq_waiters = [0 :: nat], sq_handed = [], sq_next = 1\<rparr>"
  have "0 \<notin> set (sq_waiters (give_up 1 0 ?q))"
    using departed_keeps_nothing [OF sample_queue_run, of 0 1 None "''2s''" "[Tick None, CtxDone]" "Some gone_error"]
    by (simp add: acquire_finish_def queue_limit_def wait_slot_def)
  then show ?thesis by (simp add: give_up_def)
qed

text \<open>A request served at once has overtaken nobody: it found the line empty.\<close>

lemma at_once_empty: "acquire_enter cap q = (EnteredAtOnce, q') \<Longrightarrow> sq_waiters q' = []"
  using fill_busy [of "queue_limit cap" q] by (fastforce simp: acquire_enter_def Let_def split: if_splits)

section \<open>Slots as a ceiling\<close>

text \<open>The queue of a destination with a fixed cap keeps the contract of a ceiling: an arrival served or a
  hand-over grants a slot, a release or a departure gives one back.\<close>

definition slot_grant :: "int \<Rightarrow> slot_queue \<Rightarrow> slot_queue \<Rightarrow> bool" where
  "slot_grant cap q q' \<longleftrightarrow> (\<exists>r. acquire_enter cap q = (r, q'))"

definition slot_release :: "int \<Rightarrow> slot_queue \<Rightarrow> slot_queue \<Rightarrow> bool" where
  "slot_release cap q q' \<longleftrightarrow> (\<exists>w. q' = pick_up w q)
     \<or> (sq_waiters q \<noteq> [] \<longrightarrow> sq_in_flight q = queue_limit cap) \<and> (q' = release cap q \<or> (\<exists>w. q' = give_up cap w q))"

lemma fill_within: "sq_in_flight q \<le> limit \<Longrightarrow> sq_in_flight (fill limit q) \<le> limit"
  using release_bounds(1) [of limit q] by simp

lemma release_within:
  assumes "sq_waiters q \<noteq> [] \<longrightarrow> sq_in_flight q = limit"
  shows "sq_in_flight (fill limit (q\<lparr>sq_handed := h, sq_in_flight := sq_in_flight q - 1\<rparr>)) \<le> sq_in_flight q"
proof (cases "sq_waiters q")
  case Nil
  then show ?thesis using fill_idle [of "q\<lparr>sq_handed := h, sq_in_flight := sq_in_flight q - 1\<rparr>"] by simp
next
  case (Cons x xs)
  then show ?thesis using assms release_bounds(1) [of limit "q\<lparr>sq_handed := h, sq_in_flight := sq_in_flight q - 1\<rparr>"] by simp
qed

interpretation engine_slots: ceiling "\<lambda>q. of_int (sq_in_flight q)" "of_int (queue_limit cap)"
  "\<lambda>q. sq_in_flight q \<le> queue_limit cap" "slot_grant cap" "slot_release cap" for cap
proof (unfold_locales, goal_cases)
  case (1 s s')
  then show ?case using fill_within [of s "queue_limit cap"]
    by (auto simp: slot_grant_def acquire_enter_def Let_def split: if_splits)
next
  case (2 s s')
  have rel: "sq_in_flight (release cap s) \<le> sq_in_flight s" if "sq_waiters s \<noteq> [] \<longrightarrow> sq_in_flight s = queue_limit cap"
    using release_within [OF that, of "sq_handed s"] by (simp add: release_def)
  have giv: "sq_in_flight (give_up cap w s) \<le> sq_in_flight s" if "sq_waiters s \<noteq> [] \<longrightarrow> sq_in_flight s = queue_limit cap" for w
    using release_within [OF that, of "remove1 w (sq_handed s)"] by (simp add: give_up_def)
  from 2 consider w where "s' = pick_up w s" | "sq_in_flight s' \<le> sq_in_flight s"
    using rel giv unfolding slot_release_def by blast
  then show ?case using 2 by cases (simp_all add: pick_up_def)
qed

end
