(* ===== verification/Router.thy ===== *)
theory Router
  imports Body Slot_Queue
begin

text \<open>
  Destinations and routing (internal/gateway/destination.go, audioModel of audio.go), the request-line
  predicates of gateway.go, runs.go, images.go and host_tools.go, the CORS wrapper of the development listener,
  and the tunnel sessions (sessions.go).

  An engine is an interface: its live description is the argument \<open>infos\<close>, from the destination's
  identifier. The code compares destinations by address; their identifiers are distinct
  (\<open>destination_ids_distinct\<close>), so the model compares identifiers.
\<close>

section \<open>Destinations\<close>

record destination =
  ds_id :: string
  ds_kind :: string
  ds_origin :: string
  ds_text :: bool
  ds_audio :: bool
  ds_images :: bool
  ds_model :: string

text \<open>The engines a host configured; a flag says whether the optional engine is there.\<close>

record gw_config =
  cf_embed :: bool
  cf_images :: bool
  cf_image_model :: string
  cf_transcribe :: bool
  cf_transcribe_model :: string
  cf_speech :: bool
  cf_speech_model :: string
  cf_models_pinned :: "string list"
  cf_log_prompts :: bool

record router =
  rt_text :: destination
  rt_routes :: "(string \<times> destination) list"
  rt_destinations :: "destination list"
  rt_pinned :: "string list"

definition text_destination :: destination where
  "text_destination = \<lparr>ds_id = ''text'', ds_kind = ''engine'', ds_origin = ''local'', ds_text = True,
     ds_audio = False, ds_images = False, ds_model = []\<rparr>"

definition add_destination :: "string \<Rightarrow> destination \<Rightarrow> router \<Rightarrow> router" where
  "add_destination route d r =
     r\<lparr>rt_routes := AList.update route d (rt_routes r), rt_destinations := rt_destinations r @ [d]\<rparr>"

definition new_router :: "gw_config \<Rightarrow> router" where
  "new_router cfg =
     (let d = text_destination;
          r = \<lparr>rt_text = d,
               rt_routes = map (\<lambda>route. (route, d)) [responses_endpoint, chat_endpoint, embeddings_endpoint, models_endpoint],
               rt_destinations = [d], rt_pinned = cf_models_pinned cfg\<rparr>;
          r = (if cf_transcribe cfg then
                 add_destination transcribe_endpoint
                   (d\<lparr>ds_id := ''transcribe'', ds_text := False, ds_audio := True, ds_model := cf_transcribe_model cfg\<rparr>) r
               else r);
          r = (if cf_speech cfg then
                 add_destination speech_endpoint
                   (d\<lparr>ds_id := ''speech'', ds_text := False, ds_audio := True, ds_model := cf_speech_model cfg\<rparr>) r
               else r);
          r = (if cf_embed cfg then add_destination embeddings_endpoint (d\<lparr>ds_id := ''embed''\<rparr>) r else r)
      in if cf_images cfg then
           add_destination images_endpoint
             (d\<lparr>ds_id := ''images'', ds_text := False, ds_images := True, ds_model := cf_image_model cfg\<rparr>) r
         else r)"

text \<open>The capacity function each queue is built with; \<open>queue_limit\<close> makes it at least one when it is read.\<close>

definition queue_cap :: "destination \<Rightarrow> engine_info \<Rightarrow> int" where
  "queue_cap d info =
     (if ds_id d = ''images'' then 1
      else if ds_id d = ''embed'' then max 1 (ei_slots info)
      else ei_slots info)"

definition route :: "router \<Rightarrow> string \<Rightarrow> destination option" where "route r p = map_of (rt_routes r) p"

definition max_model_bytes :: nat where "max_model_bytes = 256"

definition resolve :: "router \<Rightarrow> key \<Rightarrow> string \<Rightarrow> string \<Rightarrow> gw_error + destination" where
  "resolve r k p model =
     (if length model > max_model_bytes then
        Inl (errf CodeInvalidRequest 0 ''model identifier exceeds %d bytes'' [FInt (int max_model_bytes)])
      else case route r p of
        None \<Rightarrow> Inl (errf CodeNotFound 0 ''no route for POST %s'' [FStr p])
      | Some d \<Rightarrow>
          (let pin = (if ds_id d \<noteq> ds_id (rt_text r) then [] else rt_pinned r) in
           if model \<noteq> [] \<and> \<not> allows_model k pin model then
             Inl (if ds_audio d then errf CodeModelNotAllowed 0 ''model is not shared with this invite'' []
                  else errf CodeModelNotAllowed 0 ''model %q is not allowed for this key'' [FStr model])
           else Inr d))"

text \<open>\<open>audioModel(engine, configured)\<close>: the host's choice, else the first name the engine reports.\<close>

definition engine_audio_model :: "engine_info option \<Rightarrow> string \<Rightarrow> string option" where
  "engine_audio_model engine configured =
     (case engine of
        None \<Rightarrow> None
      | Some info \<Rightarrow>
          if \<not> ei_healthy info then None
          else if configured \<noteq> [] then Some configured
          else find (\<lambda>i. i \<noteq> []) (ei_models info))"

definition audio_model :: "(string \<Rightarrow> engine_info) \<Rightarrow> router \<Rightarrow> string \<Rightarrow> string option" where
  "audio_model infos r p =
     (case route r p of
        Some d \<Rightarrow> engine_audio_model (if ds_audio d then Some (infos (ds_id d)) else None) (ds_model d)
      | None \<Rightarrow> None)"

definition select_audio_model :: "engine_info \<Rightarrow> string \<Rightarrow> string \<Rightarrow> string" where
  "select_audio_model info configured requested =
     (if requested \<noteq> [] \<and> requested \<in> set (ei_models info) then requested
      else case engine_audio_model (Some info) configured of Some m \<Rightarrow> m | None \<Rightarrow> [])"

record destination_status =
  dt_id :: string
  dt_kind :: string
  dt_models :: "string list"
  dt_slots :: int
  dt_in_flight :: int
  dt_waiting :: nat
  dt_image_abandons :: int
  dt_image_retry_at :: int

text \<open>\<open>images\<close> is what the destination keeps of its image engine: the abandons in a row and the retry time.\<close>

definition snapshots ::
    "(string \<Rightarrow> engine_info) \<Rightarrow> (string \<Rightarrow> slot_queue) \<Rightarrow> (string \<Rightarrow> int \<times> int) \<Rightarrow> router \<Rightarrow> destination_status list" where
  "snapshots infos queues images r =
     map (\<lambda>d.
       let models = ei_models (infos (ds_id d));
           models = (if (ds_audio d \<or> ds_images d) \<and> ds_model d \<noteq> [] \<and> ds_model d \<notin> set models
                     then models @ [ds_model d] else models);
           (in_flight, waiting) = counts (queues (ds_id d))
       in \<lparr>dt_id = ds_id d, dt_kind = ds_kind d, dt_models = models, dt_slots = max 1 (ei_slots (infos (ds_id d))),
           dt_in_flight = in_flight, dt_waiting = waiting,
           dt_image_abandons = fst (images (ds_id d)), dt_image_retry_at = snd (images (ds_id d))\<rparr>)
       (rt_destinations r)"

definition engine_routes :: "router \<Rightarrow> string list" where
  "engine_routes r = sort (remdups (map fst (rt_routes r)))"

section \<open>The request line\<close>

text \<open>
  \<open>bearer\<close>: \<open>strings.Fields\<close> cuts at white space. Folding the case of the word \<open>Bearer\<close> only ever identifies
  ASCII letters, so lower-casing both sides is exact.
\<close>

function words_from :: "string \<Rightarrow> string \<Rightarrow> string list" where
  "words_from w s =
     (case s of
        [] \<Rightarrow> if w = [] then [] else [w]
      | c # r \<Rightarrow>
          (case find (\<lambda>x. x \<noteq> [] \<and> has_prefix x s) space_runes of
             Some x \<Rightarrow> if w = [] then words_from [] (drop (length x) s) else w # words_from [] (drop (length x) s)
           | None \<Rightarrow> words_from (w @ [c]) r))"
  by pat_completeness auto
termination
  by (relation "measure (\<lambda>(w, s). length s)") (auto simp: find_Some_iff neq_Nil_conv)

declare words_from.simps [simp del]

definition string_fields :: "string \<Rightarrow> string list" where "string_fields s = words_from [] s"

definition bearer :: "string \<Rightarrow> string option" where
  "bearer h =
     (case string_fields h of
        [scheme, secret] \<Rightarrow> if to_lower scheme = to_lower ''Bearer'' then Some secret else None
      | _ \<Rightarrow> None)"

definition is_run_route :: "string \<Rightarrow> bool" where
  "is_run_route p \<longleftrightarrow> p = ''/v1/runs'' \<or> has_prefix ''/v1/runs/'' p \<or> p = ''/v1/events''"

definition is_image_route :: "string \<Rightarrow> bool" where
  "is_image_route p \<longleftrightarrow> p = images_endpoint \<or> p = ''/v1/images/jobs'' \<or> has_prefix ''/v1/images/outputs/'' p"

fun host_tool_names :: "string list \<Rightarrow> json list \<Rightarrow> bool" where
  "host_tool_names seen [] = True"
| "host_tool_names seen (t # ts) =
     (case t of
        JStr name \<Rightarrow>
          if (name \<noteq> ''make_image'' \<and> name \<noteq> ''web_search'') \<or> name \<in> set seen then False
          else host_tool_names (name # seen) ts
      | _ \<Rightarrow> False)"

definition asks_host_tools :: "jobject \<Rightarrow> gw_error + bool" where
  "asks_host_tools body =
     (case jget body ''host_tools'' of
        None \<Rightarrow> Inr False
      | Some (JArr []) \<Rightarrow> Inr False
      | Some (JArr tools) \<Rightarrow>
          if \<not> host_tool_names [] tools then
            Inl (errf CodeInvalidRequest 0 ''host_tools must name make_image or web_search without duplicates'' [])
          else if jget body ''tools'' \<noteq> None then
            Inl (errf CodeInvalidRequest 0 ''host_tools cannot be combined with caller tools'' [])
          else if jget body ''tool_choice'' \<noteq> None then
            Inl (errf CodeInvalidRequest 0 ''host_tools cannot be combined with caller tool_choice'' [])
          else Inr True
      | Some _ \<Rightarrow> Inl (errf CodeInvalidRequest 0 ''host_tools must be an array of make_image or web_search'' []))"

text \<open>The headers the development listener sets, and whether it answers the request itself.\<close>

definition cors :: "string \<Rightarrow> string \<Rightarrow> writer \<Rightarrow> writer \<times> bool" where
  "cors http_method p w =
     (let w = set_header ''Access-Control-Allow-Origin'' ''*'' w;
          w = set_header ''Access-Control-Allow-Headers'' ''authorization, content-type'' w;
          w = set_header ''Access-Control-Allow-Methods'' ''GET, POST, OPTIONS'' w;
          w = (if is_run_route p \<or> is_image_route p then
                 set_header ''Access-Control-Allow-Methods'' ''GET, POST, DELETE, OPTIONS''
                   (set_header ''Access-Control-Allow-Headers'' ''authorization, content-type, last-event-id'' w)
               else w);
          w = set_header ''Access-Control-Expose-Headers'' ''Retry-After'' w;
          w = (if is_image_route p then
                 set_header ''Access-Control-Expose-Headers'' ''Retry-After, Content-Disposition'' w else w)
      in if http_method = ''OPTIONS'' then
           (write_status 204 (set_header ''Access-Control-Max-Age'' ''600'' w), True)
         else (w, False))"

section \<open>Routing\<close>

lemma destination_ids_distinct: "distinct (map ds_id (rt_destinations (new_router cfg)))"
  by (simp add: new_router_def add_destination_def text_destination_def Let_def)

lemma router_text [simp]: "rt_text (new_router cfg) = text_destination" "rt_pinned (new_router cfg) = cf_models_pinned cfg"
  by (simp_all add: new_router_def add_destination_def Let_def)

lemma route_table:
  "route (new_router cfg) p =
     (let d = text_destination in
      if p = images_endpoint \<and> cf_images cfg then
        Some (d\<lparr>ds_id := ''images'', ds_text := False, ds_images := True, ds_model := cf_image_model cfg\<rparr>)
      else if p = embeddings_endpoint \<and> cf_embed cfg then Some (d\<lparr>ds_id := ''embed''\<rparr>)
      else if p = speech_endpoint \<and> cf_speech cfg then
        Some (d\<lparr>ds_id := ''speech'', ds_text := False, ds_audio := True, ds_model := cf_speech_model cfg\<rparr>)
      else if p = transcribe_endpoint \<and> cf_transcribe cfg then
        Some (d\<lparr>ds_id := ''transcribe'', ds_text := False, ds_audio := True, ds_model := cf_transcribe_model cfg\<rparr>)
      else if p \<in> {responses_endpoint, chat_endpoint, embeddings_endpoint, models_endpoint} then Some d
      else None)"
  by (cases "cf_images cfg"; cases "cf_embed cfg"; cases "cf_speech cfg"; cases "cf_transcribe cfg")
    (simp_all add: route_def new_router_def add_destination_def update_conv' endpoint_defs)

text \<open>
  Routing decides everything it should before a request may queue: a destination is handed out exactly when the
  model's name is at most 256 bytes, the host has an engine for the route, and the name is either empty or
  allowed by the key, and, for the text engine only, by the host-wide pins as well. The pins never restrict
  the engines of the other kinds.
\<close>

theorem resolve_decides:
  "resolve (new_router cfg) k p model = Inr d \<longleftrightarrow>
     length model \<le> 256 \<and> route (new_router cfg) p = Some d
     \<and> (model = [] \<or> key_allows_model k model
          \<and> (ds_id d = ''text'' \<and> cf_models_pinned cfg \<noteq> [] \<longrightarrow> model \<in> set (cf_models_pinned cfg)))"
proof -
  have "rt_text (new_router cfg) = text_destination" by simp
  then have t: "ds_id (rt_text (new_router cfg)) = ''text''" by (simp add: text_destination_def)
  show ?thesis
  proof (cases "route (new_router cfg) p")
    case None
    then show ?thesis by (simp add: resolve_def max_model_bytes_def)
  next
    case (Some e)
    show ?thesis unfolding resolve_def Some t
      by (auto simp: max_model_bytes_def allows_model_def Let_def split: if_splits)
  qed
qed

theorem resolve_decides_witness:
  "let cfg = \<lparr>cf_embed = True, cf_images = False, cf_image_model = [], cf_transcribe = False, cf_transcribe_model = [],
         cf_speech = False, cf_speech_model = [], cf_models_pinned = [''a''], cf_log_prompts = False\<rparr>;
       k = sample_body_key\<lparr>k_limits := (k_limits sample_body_key)\<lparr>lm_models := []\<rparr>\<rparr>
   in resolve (new_router cfg) k embeddings_endpoint ''b'' = Inr (text_destination\<lparr>ds_id := ''embed''\<rparr>)"
  unfolding Let_def
  by (subst resolve_decides) (simp add: route_table endpoint_defs key_allows_model_def Let_def text_destination_def)

section \<open>Tunnel sessions\<close>

text \<open>
  \<open>g.sessions\<close>: the key and time of the last request of each tunnel peer. A request that did not come
  through the tunnel has no peer.
\<close>

type_synonym session_map = "(string \<times> string \<times> gotime) list"

definition prune_sessions :: "gotime \<Rightarrow> session_map \<Rightarrow> session_map" where
  "prune_sessions now m = filter (\<lambda>(peer, kid, seen_at). seen_at > now - minute) m"

definition see_session :: "gotime \<Rightarrow> string option \<Rightarrow> string \<Rightarrow> session_map \<Rightarrow> session_map" where
  "see_session now peer kid m =
     (case peer of None \<Rightarrow> m | Some a \<Rightarrow> AList.update a (kid, now) (prune_sessions now m))"

definition sessions :: "gotime \<Rightarrow> session_map \<Rightarrow> (string \<Rightarrow> nat) \<times> session_map" where
  "sessions now m =
     (let m = prune_sessions now m
      in (fold (\<lambda>(peer, kid, seen_at) c. c(kid := c kid + 1)) m (\<lambda>_. 0), m))"

text \<open>A history of requests, oldest first, and the last one of a peer in it.\<close>

definition last_sighting :: "(gotime \<times> string \<times> string) list \<Rightarrow> string \<Rightarrow> (string \<times> gotime) option" where
  "last_sighting h peer = map_option (\<lambda>(t, a, kid). (kid, t)) (find (\<lambda>(t, a, kid). a = peer) (rev h))"

definition sightings :: "(gotime \<times> string \<times> string) list \<Rightarrow> session_map" where
  "sightings h = fold (\<lambda>(t, a, kid) m. see_session t (Some a) kid m) h []"

lemma last_sighting_snoc:
  "last_sighting (h @ [(t, a, kid)]) peer = (if a = peer then Some (kid, t) else last_sighting h peer)"
  by (simp add: last_sighting_def)

lemma last_sighting_time: "last_sighting h peer = Some (kid, t) \<Longrightarrow> (t, peer, kid) \<in> set h"
proof (induction h rule: rev_induct)
  case (snoc x h)
  then show ?case by (cases x) (auto simp: last_sighting_snoc split: if_splits)
qed (simp add: last_sighting_def)

lemma prune_sessions_get:
  "distinct (map fst m) \<Longrightarrow>
   map_of (prune_sessions now m) peer = (case map_of m peer of Some (kid, t) \<Rightarrow> if t > now - minute then Some (kid, t) else None | None \<Rightarrow> None)"
proof (induction m)
  case (Cons x m)
  obtain a kid t where x: "x = (a, kid, t)" by (cases x) auto
  show ?case
  proof (cases "a = peer")
    case True
    with Cons.prems x have "map_of m peer = None" by (simp add: map_of_eq_None_iff)
    then have "peer \<notin> fst ` set (prune_sessions now m)" using Cons x
      by (auto simp: prune_sessions_def map_of_eq_None_iff)
    then have "map_of (prune_sessions now m) peer = None" by (simp add: map_of_eq_None_iff)
    with True x show ?thesis by (simp add: prune_sessions_def)
  next
    case False
    with Cons x show ?thesis by (simp add: prune_sessions_def)
  qed
qed (simp add: prune_sessions_def)

lemma prune_sessions_distinct: "distinct (map fst m) \<Longrightarrow> distinct (map fst (prune_sessions now m))"
  unfolding prune_sessions_def by (rule distinct_map_filter)

lemma sightings_distinct: "distinct (map fst (sightings h))"
  by (induction h rule: rev_induct)
    (auto simp: sightings_def see_session_def split: prod.splits intro!: distinct_update prune_sessions_distinct)

lemma sightings_get:
  assumes "sorted (map fst h)"
    and "map_of (sightings h) peer = Some (kid, t)"
  shows "last_sighting h peer = Some (kid, t)"
  using assms
proof (induction h rule: rev_induct)
  case (snoc x h)
  obtain u a k where x: "x = (u, a, k)" by (cases x) auto
  have "map_of (sightings (h @ [x])) peer =
      (if a = peer then Some (k, u) else map_of (prune_sessions u (sightings h)) peer)"
    by (simp add: sightings_def see_session_def x update_conv')
  with snoc show ?case
    by (auto simp: x last_sighting_snoc sorted_append prune_sessions_get [OF sightings_distinct]
        split: option.splits if_splits)
qed (simp add: sightings_def)

lemma sightings_kept:
  assumes "sorted (map fst h)" and "\<forall>x \<in> set h. fst x \<le> now"
    and "last_sighting h peer = Some (kid, t)" and "t > now - minute"
  shows "map_of (sightings h) peer = Some (kid, t)"
  using assms
proof (induction h rule: rev_induct)
  case (snoc x h)
  obtain u a k where x: "x = (u, a, k)" by (cases x) auto
  have "map_of (sightings (h @ [x])) peer =
      (if a = peer then Some (k, u) else map_of (prune_sessions u (sightings h)) peer)"
    by (simp add: sightings_def see_session_def x update_conv')
  with snoc show ?case
    by (auto simp: x last_sighting_snoc sorted_append prune_sessions_get [OF sightings_distinct]
        split: option.splits if_splits)
qed (simp add: last_sighting_def)

lemma session_count:
  "fold (\<lambda>(peer, kid, seen_at) c. c(kid := c kid + 1)) m f kid = f kid + length (filter (\<lambda>(peer, k, t). k = kid) m)"
  by (induction m arbitrary: f) auto

lemma length_filter_card:
  assumes "distinct (map fst m)"
  shows "length (filter (\<lambda>x. P (snd x)) m) = card {a. \<exists>v. map_of m a = Some v \<and> P v}"
proof -
  have d: "distinct (map fst (filter (\<lambda>x. P (snd x)) m))" using assms by (rule distinct_map_filter)
  have "set (map fst (filter (\<lambda>x. P (snd x)) m)) = {a. \<exists>v. map_of m a = Some v \<and> P v}"
    using assms by (force simp: map_of_eq_Some_iff)
  with distinct_card [OF d] show ?thesis by simp
qed

text \<open>
  What the status page calls a session is right: after any history of requests in order of time, the
  number counted for a key is the number of tunnel peers whose latest request came with that key
  and within the last minute. A peer is counted once, and for its last key only.
\<close>

theorem sessions_count_recent_peers:
  assumes "sorted (map fst h)" and "\<forall>x \<in> set h. fst x \<le> now"
  shows "fst (sessions now (sightings h)) kid =
           card {peer. \<exists>t. last_sighting h peer = Some (kid, t) \<and> t > now - minute}"
proof -
  let ?m = "prune_sessions now (sightings h)"
  have d: "distinct (map fst ?m)" by (intro prune_sessions_distinct sightings_distinct)
  have "fst (sessions now (sightings h)) kid = length (filter (\<lambda>x. fst (snd x) = kid) ?m)"
    by (simp only: sessions_def Let_def fst_conv session_count) (simp add: case_prod_unfold)
  also have "\<dots> = card {a. \<exists>v. map_of ?m a = Some v \<and> fst v = kid}"
    using length_filter_card [OF d, of "\<lambda>v. fst v = kid"] by simp
  also have "{a. \<exists>v. map_of ?m a = Some v \<and> fst v = kid} =
      {peer. \<exists>t. last_sighting h peer = Some (kid, t) \<and> t > now - minute}"
  proof (rule Collect_cong)
    fix a
    show "(\<exists>v. map_of ?m a = Some v \<and> fst v = kid) = (\<exists>t. last_sighting h a = Some (kid, t) \<and> t > now - minute)"
    proof (cases "map_of (sightings h) a")
      case None
      then show ?thesis using sightings_kept [OF assms, of a kid]
        by (auto simp: prune_sessions_get [OF sightings_distinct])
    next
      case (Some v)
      obtain k t where v: "v = (k, t)" by (cases v)
      have "last_sighting h a = Some (k, t)" using sightings_get [OF assms(1)] Some v by simp
      then show ?thesis using Some v by (auto simp: prune_sessions_get [OF sightings_distinct])
    qed
  qed
  finally show ?thesis .
qed

theorem sessions_count_recent_peers_witness:
  "let h = [(second, ''p'', ''a''), (2 * second, ''q'', ''a''), (3 * second, ''p'', ''b'')]
   in fst (sessions (62 * second) (sightings h)) ''b''
      = card {peer. \<exists>t. last_sighting h peer = Some (''b'', t) \<and> t > 62 * second - minute}"
  unfolding Let_def by (rule sessions_count_recent_peers) (simp_all add: duration_defs)

end
