(* ===== verification/Run_Types.thy ===== *)
theory Run_Types
  imports Usage Gateway_Errors
begin

text \<open>
  The data of durable runs (internal/run/types.go, the records of retained.go, images.go, steps.go and
  store.go): a run, its attempts and what is retained for it, the event log of a key and the snapshot
  that is written to the key's \<open>state.json\<close>.

  A \<open>json.RawMessage\<close> is its text; \<open>nil\<close> and the empty text are the same. A Go map is an association
  list without duplicate keys (an absent map is the empty list), and the copies the code makes through
  \<open>deepCopy\<close> (marshal and unmarshal) are the values themselves: texts are read up to the white space
  that \<open>json.Marshal\<close> removes. A pointer to a time is an option.
\<close>

definition max_input :: nat where "max_input = 1048576"
definition max_output :: nat where "max_output = 1048576"
definition max_stored :: int where "max_stored = 67108864"
definition max_runs :: int where "max_runs = 100"
definition max_live_key :: int where "max_live_key = 16"
definition max_live_host :: int where "max_live_host = 64"
definition retention :: duration where "retention = 7 * day_length"
definition max_age :: duration where "max_age = day_length"

lemmas run_limits = max_stored_def max_runs_def max_live_key_def max_live_host_def

datatype run_state = Queued | Running | Waiting | Done | Failed | Cancelled | OtherState string

definition terminal :: "run_state \<Rightarrow> bool" where
  "terminal s \<longleftrightarrow> s = Done \<or> s = Failed \<or> s = Cancelled"

definition valid_state :: "run_state \<Rightarrow> bool" where
  "valid_state s \<longleftrightarrow> s = Queued \<or> s = Running \<or> s = Waiting \<or> terminal s"

lemma terminal_simps [simp]:
  "terminal Done" "terminal Failed" "terminal Cancelled" "\<not> terminal Queued" "\<not> terminal Running" "\<not> terminal Waiting"
  by (simp_all add: terminal_def)

lemma valid_state_simps [simp]:
  "valid_state Done" "valid_state Failed" "valid_state Cancelled" "valid_state Queued" "valid_state Running" "valid_state Waiting"
  by (simp_all add: valid_state_def)

record run_attempt =
  at_purpose :: string
  at_id :: string
  at_dispatched :: bool
  at_settled :: bool
  at_accounting_uncertain :: bool
  at_usage :: event
  at_output :: string

record run_batch =
  ba_id :: string
  ba_index :: nat
  ba_count :: nat

record run =
  rn_client_request_id :: string
  rn_started :: "gotime option"
  rn_batch :: "run_batch option"
  rn_id :: string
  rn_key_id :: string
  rn_kind :: string
  rn_priority :: string
  rn_state :: run_state
  rn_created :: gotime
  rn_updated :: gotime
  rn_expires :: gotime
  rn_cancel_requested :: bool
  rn_reason :: string
  rn_input :: string
  rn_output :: string
  rn_attempts :: "run_attempt list"

text \<open>The zero \<open>Run\<close>, which a lookup of an absent id gives.\<close>

definition no_run :: run where
  "no_run = \<lparr>rn_client_request_id = [], rn_started = None, rn_batch = None, rn_id = [], rn_key_id = [], rn_kind = [],
     rn_priority = [], rn_state = OtherState [], rn_created = 0, rn_updated = 0, rn_expires = 0, rn_cancel_requested = False,
     rn_reason = [], rn_input = [], rn_output = [], rn_attempts = []\<rparr>"

record run_summary =
  sm_created :: gotime
  sm_client_request_id :: string
  sm_id :: string
  sm_key_id :: string
  sm_kind :: string
  sm_priority :: string
  sm_state :: run_state
  sm_updated :: gotime
  sm_expires :: gotime

definition summary :: "run \<Rightarrow> run_summary" where
  "summary r = \<lparr>sm_created = rn_created r, sm_client_request_id = rn_client_request_id r, sm_id = rn_id r,
     sm_key_id = rn_key_id r, sm_kind = rn_kind r, sm_priority = rn_priority r, sm_state = rn_state r,
     sm_updated = rn_updated r, sm_expires = rn_expires r\<rparr>"

record step_event =
  se_id :: string
  se_type :: string
  se_at :: gotime
  se_kind :: string
  se_name :: string
  se_tool :: string
  se_result :: string
  se_status :: string
  se_text :: string
  se_output_id :: string

record run_event =
  re_type :: string
  re_step :: "step_event option"
  re_cursor :: string
  re_run_id :: string
  re_state :: run_state
  re_attempt_id :: string
  re_time :: gotime
  re_reset :: bool
  re_runs :: "run_summary list"

definition state_event :: "string \<Rightarrow> run_state \<Rightarrow> gotime \<Rightarrow> run_event" where
  "state_event rid s t = \<lparr>re_type = [], re_step = None, re_cursor = [], re_run_id = rid, re_state = s, re_attempt_id = [],
     re_time = t, re_reset = False, re_runs = []\<rparr>"

definition reset_event :: "string \<Rightarrow> gotime \<Rightarrow> run_summary list \<Rightarrow> run_event" where
  "reset_event cursor t rows = \<lparr>re_type = [], re_step = None, re_cursor = cursor, re_run_id = [], re_state = OtherState [],
     re_attempt_id = [], re_time = t, re_reset = True, re_runs = rows\<rparr>"

record captured =
  ca_kind :: string
  ca_name :: string
  ca_mime :: string
  ca_data :: string

record approval =
  ap_id :: string
  ap_request :: string
  ap_status :: string
  ap_allow :: "bool option"

record retained =
  rt_steps :: "step_event list"
  rt_state :: string
  rt_trajectory :: "string list"
  rt_outputs :: "(string \<times> captured) list"
  rt_cancel_note :: bool
  rt_approval :: "approval option"

definition no_retained :: retained where
  "no_retained = \<lparr>rt_steps = [], rt_state = [], rt_trajectory = [], rt_outputs = [], rt_cancel_note = False, rt_approval = None\<rparr>"

record image_output =
  io_url :: string
  io_mime :: string
  io_width :: int
  io_height :: int
  io_bytes :: int
  io_expires_at :: gotime
  io_gone :: bool

record snapshot =
  sn_cleanup :: "string list"
  sn_encoded_bytes :: int
  sn_exception_bytes :: "(string \<times> int) list"
  sn_epoch :: string
  sn_seq :: nat
  sn_runs :: "(string \<times> run) list"
  sn_events :: "run_event list"
  sn_retained :: "(string \<times> retained) list"

definition new_snapshot :: "string \<Rightarrow> snapshot" where
  "new_snapshot epoch = \<lparr>sn_cleanup = [], sn_encoded_bytes = 0, sn_exception_bytes = [], sn_epoch = epoch, sn_seq = 0,
     sn_runs = [], sn_events = [], sn_retained = []\<rparr>"

section \<open>Errors and reasons\<close>

text \<open>
  \<open>ErrOther\<close> carries the text of an error of the file system or of the JSON package, and \<open>ErrPanic\<close>
  stands for a Go panic: the operation stops there and so does every caller, up to one that recovers.
\<close>

datatype run_error =
    ErrNeedsAttention | ErrAgentUnavailable | ErrStopping | ErrQuarantined | ErrQueueLimit | ErrNotFound | ErrLimit
  | ErrInvalid | ErrConflict | ErrOther string | CommittedTerminal run | ErrPanic string
  | ErrGateway gw_error

definition committed_terminal :: "run_error \<Rightarrow> bool" where
  "committed_terminal e \<longleftrightarrow> (case e of CommittedTerminal _ \<Rightarrow> True | _ \<Rightarrow> False)"

text \<open>\<open>failureReason\<close>: a kind's error is an adapter-authored cause, a cancelled context, or something else.\<close>

datatype kind_failure = Cause string | ContextCancelled | OtherFailure

definition failure_reason :: "kind_failure \<Rightarrow> string" where
  "failure_reason e =
     (case e of
        Cause f \<Rightarrow> (if f \<in> {''cancelled'', ''runtime_lost'', ''retention_refused'', ''step_invalid'', ''key_revoked'',
                          ''approval_invalid'', ''workspace_unavailable''} then f else ''kind failed'')
      | ContextCancelled \<Rightarrow> ''cancelled''
      | OtherFailure \<Rightarrow> ''kind failed'')"

definition bounded_reason :: "string \<Rightarrow> string" where
  "bounded_reason reason = (if length reason > 128 then ''run failed'' else reason)"

text \<open>The patterns \<open>^[a-zA-Z0-9_-]{1,80}$\<close> and \<open>^[A-Za-z0-9_-]{1,128}$\<close>.\<close>

definition id_char :: "char \<Rightarrow> bool" where
  "id_char c \<longleftrightarrow> (let b = byte c in 97 \<le> b \<and> b \<le> 122 \<or> 65 \<le> b \<and> b \<le> 90 \<or> 48 \<le> b \<and> b \<le> 57 \<or> b = 95 \<or> b = 45)"

definition safe_id :: "string \<Rightarrow> bool" where
  "safe_id s \<longleftrightarrow> 1 \<le> length s \<and> length s \<le> 80 \<and> list_all id_char s"

definition correlation_id :: "string \<Rightarrow> bool" where
  "correlation_id s \<longleftrightarrow> 1 \<le> length s \<and> length s \<le> 128 \<and> list_all id_char s"

text \<open>\<open>StepEvent.Valid\<close>: the kind and the status are looked up as substrings between bars.\<close>

definition bars :: "string \<Rightarrow> string" where "bars s = ''|'' @ s @ ''|''"

definition step_valid :: "step_event \<Rightarrow> bool" where
  "step_valid s \<longleftrightarrow> safe_id (se_id s) \<and> se_type s = ''step'' \<and> \<not> is_zero (se_at s)
     \<and> contains_sub (bars (se_kind s)) ''|think|search|run|read|write|wait|other|''
     \<and> contains_sub (bars (se_status s)) ''|running|waiting|done|failed|cancelled|''
     \<and> \<not> list_ex (\<lambda>c. c = CHR 0x0D \<or> c = CHR 0x0A) (se_result s) \<and> length (se_text s) \<le> max_output"

section \<open>Rows by id\<close>

definition row :: "'a \<Rightarrow> string \<Rightarrow> (string \<times> 'a) list \<Rightarrow> 'a" where
  "row d k m = (case map_of m k of Some v \<Rightarrow> v | None \<Rightarrow> d)"

abbreviation run_row :: "string \<Rightarrow> snapshot \<Rightarrow> run" where
  "run_row rid v \<equiv> row no_run rid (sn_runs v)"

definition has_row :: "string \<Rightarrow> (string \<times> 'a) list \<Rightarrow> bool" where
  "has_row k m \<longleftrightarrow> map_of m k \<noteq> None"

definition live :: "(string \<times> run) list \<Rightarrow> (string \<times> run) list" where
  "live rows = filter (\<lambda>(rid, r). \<not> terminal (rn_state r)) rows"

lemma row_update [simp]: "row d k (AList.update k v m) = v"
  by (simp add: row_def update_conv)

lemma row_update_other [simp]: "k' \<noteq> k \<Longrightarrow> row d k' (AList.update k v m) = row d k' m"
  by (simp add: row_def update_conv)

lemma has_row_update [simp]: "has_row k' (AList.update k v m) \<longleftrightarrow> k' = k \<or> has_row k' m"
  by (simp add: has_row_def update_conv)

lemma has_row_iff: "has_row k m \<longleftrightarrow> k \<in> fst ` set m"
  by (auto simp: has_row_def map_of_eq_None_iff)

end
