(* ===== verification/Image_Ledger.thy ===== *)
theory Image_Ledger
  imports Router Run_Types
begin

text \<open>
  The image side of the gateway (internal/gateway/images.go): what a key may queue, the daily budget held
  for queued jobs and charged when one settles, how an engine's answer is judged, and the state a destination
  keeps of an engine that abandons requests. The clock of this file is in nanoseconds, so an atomic that holds
  \<open>UnixNano\<close> holds the time itself and 0 means none.
\<close>

definition max_image :: nat where "max_image = 8 * 1024 * 1024"
definition max_image_response :: nat where "max_image_response = 12 * 1024 * 1024"

record image_request =
  ir_failure :: "json option"
  ir_run_id :: string
  ir_definitive_failure :: bool
  ir_measured :: bool
  ir_suspect :: bool
  ir_oversized :: bool
  ir_charged :: rat
  ir_elapsed :: duration

definition new_image_request :: "string \<Rightarrow> image_request" where
  "new_image_request rid = \<lparr>ir_failure = None, ir_run_id = rid, ir_definitive_failure = False, ir_measured = False,
     ir_suspect = False, ir_oversized = False, ir_charged = 0, ir_elapsed = 0\<rparr>"

text \<open>The atomics of a \<open>Destination\<close> that serves images.\<close>

record image_engine =
  ie_abandons :: int
  ie_retry_at :: gotime
  ie_backoff :: duration
  ie_probe_after :: gotime

definition new_image_engine :: image_engine where
  "new_image_engine = \<lparr>ie_abandons = 0, ie_retry_at = 0, ie_backoff = 0, ie_probe_after = 0\<rparr>"

section \<open>Offers\<close>

definition image_queue_cap :: "limits \<Rightarrow> int" where
  "image_queue_cap lims =
     (let cap = lm_max_queued_images (image_defaults lims)
      in if cap < 0 \<or> cap > max_live_key then max_live_key else cap)"

record image_offer =
  io_model :: string
  io_retention_days :: int
  io_queue_cap :: int
  io_queued :: int
  io_retry_at :: "gotime option"

text \<open>
  \<open>managed\<close> is \<open>Offered()\<close> of the managed member, \<open>None\<close> when images are not managed; \<open>queued\<close> counts the
  key's image runs in state queued (0 without a run manager).
\<close>

definition image_offer_for ::
    "router \<Rightarrow> engine_info \<Rightarrow> bool option \<Rightarrow> int \<Rightarrow> gotime \<Rightarrow> image_engine \<Rightarrow> key \<Rightarrow> gw_error + image_offer" where
  "image_offer_for r info managed queued now en k =
     (let missing = Inl (errf CodeNotFound 0 ''this key has no image model'' []) in
      case route r images_endpoint of
        None \<Rightarrow> missing
      | Some d \<Rightarrow>
          (let model = (if ds_model d = [] then
                          (case find (\<lambda>i. i \<noteq> []) (ei_models info) of Some i \<Rightarrow> i | None \<Rightarrow> [])
                        else ds_model d)
           in if (model = [] \<and> lm_models (k_limits k) \<noteq> []) \<or> (model \<noteq> [] \<and> \<not> allows_model k [] model) then missing
              else if managed = Some False \<or> (managed = None \<and> \<not> ei_healthy info) then
                Inl (errf CodeUpstreamDown 3 ''image engine unavailable'' [])
              else if model = [] then missing
              else Inr \<lparr>io_model = model, io_retention_days = retention div day_length,
                        io_queue_cap = image_queue_cap (k_limits k), io_queued = queued,
                        io_retry_at = (if ie_retry_at en > now \<and> ie_abandons en \<ge> 2 then Some (ie_retry_at en) else None)\<rparr>))"

section \<open>Holds on the daily budget\<close>

definition next_day :: "gotime \<Rightarrow> gotime" where "next_day now = truncate_day now + day_length"

text \<open>The reservation of a batch, inside the submit's critical section: all of it or nothing.\<close>

definition reserve_images :: "gotime \<Rightarrow> limits \<Rightarrow> string list \<Rightarrow> key_state \<Rightarrow> gw_error option \<times> key_state" where
  "reserve_images now lims ids st =
     (let st = prune now st;
          daily = budget_amount (limit_budgets (image_defaults lims)) ''images'' ''day''
      in if daily > 0
            \<and> ms_today (meter ''images'' st) + of_nat (length (ks_image_holds st) + length ids) > of_int daily
         then (Some (errf CodeImageBudgetExhausted (seconds_until (next_day now) now) ''daily image budget exhausted'' []), st)
         else (None, st\<lparr>ks_image_holds := fold List.insert ids (ks_image_holds st)\<rparr>))"

definition release_image_reservation :: "string \<Rightarrow> key_state \<Rightarrow> key_state" where
  "release_image_reservation rid st = st\<lparr>ks_image_holds := removeAll rid (ks_image_holds st)\<rparr>"

definition reserve_image :: "string \<Rightarrow> key_state \<Rightarrow> gw_error option" where
  "reserve_image rid st =
     (if rid \<notin> set (ks_image_holds st) then Some (errf CodeInvalidRequest 0 ''image job has no reservation'' []) else None)"

text \<open>\<open>admitImageRead\<close>: at most four images of a key are being read at once; \<open>finish\<close> gives the place back.\<close>

definition admit_image_read :: "key_state \<Rightarrow> gw_error option \<times> key_state" where
  "admit_image_read st =
     (if ks_image_reads st \<ge> 4 then
        (let e = errf CodeConcurrencyLimited 1 ''too many images loading at once; retry in a second'' []
         in (Some (e\<lparr>ge_limit := 4, ge_in_flight := ks_image_reads st\<rparr>), st))
      else (None, st\<lparr>ks_image_reads := ks_image_reads st + 1\<rparr>))"

definition image_read_release :: "key_state \<Rightarrow> key_state" where
  "image_read_release st = st\<lparr>ks_image_reads := ks_image_reads st - 1\<rparr>"

text \<open>The admission of a job is detached and empty; that of an HTTP request spends a message.\<close>

definition image_key_admission :: "string \<Rightarrow> admission" where
  "image_key_admission kid = \<lparr>ad_detached = True, ad_audio_seconds = 0, ad_speech_chars = 0, ad_key = kid, ad_seq = 0,
     ad_reserved = 0\<rparr>"

definition admit_image_http :: "gotime \<Rightarrow> string \<Rightarrow> limits \<Rightarrow> limiter \<Rightarrow> (gw_error + admission) \<times> limiter" where
  "admit_image_http now kid lims l = admit_resource now kid lims True l"

section \<open>The engine's answer\<close>

definition image_abandoned :: "image_request \<Rightarrow> string \<Rightarrow> gw_error" where
  "image_abandoned im cause =
     (let charge = (if ir_suspect im then ''; the engine is suspect, so this one did not count'' else ''; this one counted'')
      in errf CodeImageAbandoned 0 ''%s%s'' [FStr cause, FStr charge])"

text \<open>
  \<open>imageTransportError\<close>: \<open>upstream_err\<close> is the error of a call that never reached the engine, and \<open>timed_out\<close>
  whether the failure is a deadline.
\<close>

definition image_transport_error ::
    "bool \<Rightarrow> gw_error \<Rightarrow> bool \<Rightarrow> gotime \<Rightarrow> image_request \<Rightarrow> image_engine \<Rightarrow> gw_error \<times> image_engine" where
  "image_transport_error dispatched upstream_err timed_out now im en =
     (if \<not> dispatched then (upstream_err, en)
      else (if timed_out then image_abandoned im ''the engine did not finish in time''
            else image_abandoned im ''the connection to the engine was lost before the image finished'',
            en\<lparr>ie_probe_after := now\<rparr>))"

text \<open>
  What the engine's bytes turn out to be. The decoders are those of the standard library: the result object
  (the \<open>b64_json\<close> texts of \<open>data\<close>, \<open>None\<close> when it is not JSON of that shape; on an error Go keeps what it
  decoded before it, which is the list beside the flag), base64, the image header and the whole image.
\<close>

record image_decoders =
  id_result :: "string \<Rightarrow> string list \<times> bool"
  id_base64 :: "string \<Rightarrow> string option"
  id_config :: "string \<Rightarrow> (string \<times> int \<times> int) option"
  id_image :: "string \<Rightarrow> bool"

datatype image_step =
    ImageStored string string int int
  | ImageFailed outcome gw_error

text \<open>
  \<open>raw\<close> is what was read (at most 12 MiB) and \<open>status_text\<close> the standard text of an HTTP status. The first component is
  the verdict: the bytes to store with their format and size, or the outcome and the error. \<open>ir_definitive_failure\<close>
  is what decides the charge.
\<close>

definition image_answer ::
    "image_decoders \<Rightarrow> (int \<Rightarrow> string) \<Rightarrow> int \<Rightarrow> string \<Rightarrow> image_request \<Rightarrow> image_step \<times> image_request" where
  "image_answer dec status_text status raw im =
     (if length raw \<ge> max_image_response then
        (ImageFailed OutcomeCut (errf CodeUpstreamError 0 ''image response incomplete or too large'' []),
         im\<lparr>ir_oversized := True, ir_definitive_failure := True\<rparr>)
      else
        (let (datas, parsed) = id_result dec raw;
             im = im\<lparr>ir_definitive_failure := \<not> list_ex (\<lambda>b. b \<noteq> []) datas\<rparr>
         in if \<not> parsed \<or> length datas \<noteq> 1 \<or> hd datas = [] then
              (let detail = (if status div 100 \<noteq> 2 then status_text status
                     else ''expected one b64_json image; URL-only or malformed image results are unsupported'')
               in (ImageFailed OutcomeEngineErr
                     (errf CodeUpstreamError 0 ''image engine HTTP %d: %s'' [FInt status, FStr detail]), im))
            else case id_base64 dec (hd datas) of
              None \<Rightarrow> (ImageFailed OutcomeEngineErr
                        (errf CodeUpstreamError 0 ''image output exceeds 8 MiB or has invalid base64'' []), im)
            | Some decoded \<Rightarrow>
                if length decoded > max_image then
                  (ImageFailed OutcomeEngineErr
                     (errf CodeUpstreamError 0 ''image output exceeds 8 MiB or has invalid base64'' []), im)
                else case id_config dec decoded of
                  None \<Rightarrow> (ImageFailed OutcomeEngineErr
                            (errf CodeUpstreamError 0 ''engine output is not a bounded PNG or JPEG'' []), im)
                | Some (format, width, height) \<Rightarrow>
                    if (format \<noteq> ''png'' \<and> format \<noteq> ''jpeg'') \<or> width < 1 \<or> height < 1 \<or> width > 4096 \<or> height > 4096 then
                      (ImageFailed OutcomeEngineErr
                         (errf CodeUpstreamError 0 ''engine output is not a bounded PNG or JPEG'' []), im)
                    else if \<not> id_image dec decoded then
                      (ImageFailed OutcomeEngineErr (errf CodeUpstreamError 0 ''image output is incomplete'' []), im)
                    else (ImageStored decoded format width height, im)))"

text \<open>After \<open>PutImage\<close>: a store that fails makes the failure the host's.\<close>

definition image_put_result :: "bool \<Rightarrow> image_request \<Rightarrow> outcome \<times> gw_error option \<times> image_request" where
  "image_put_result stored im =
     (if \<not> stored then
        (OutcomeEngineErr, Some (errf CodeStorageFailed 0 ''the host could not store this image; it did not count'' []),
         im\<lparr>ir_definitive_failure := True\<rparr>)
      else (OutcomeServed, None, im\<lparr>ir_measured := True\<rparr>))"

section \<open>Settlement\<close>

text \<open>
  \<open>recordImageResult\<close>: a stored image clears the engine's record; a generation the engine took and never
  delivered counts, and from the second in a row each one doubles the pause before the next, up to fifteen times the base.
\<close>

definition backoff_delay :: "duration \<Rightarrow> duration \<Rightarrow> duration" where
  "backoff_delay base backoff = min (max base (2 * backoff)) (15 * base)"

definition record_image_result :: "duration \<Rightarrow> gotime \<Rightarrow> bool \<Rightarrow> image_request \<Rightarrow> image_engine \<Rightarrow> image_engine" where
  "record_image_result backoff_base now dispatched im en =
     (if ir_measured im then en\<lparr>ie_abandons := 0, ie_retry_at := 0, ie_backoff := 0\<rparr>
      else
        (let counted = dispatched \<and> (\<not> ir_definitive_failure im \<or> ir_oversized im);
             en = (if counted then en\<lparr>ie_abandons := ie_abandons en + 1\<rparr> else en)
         in if ie_abandons en \<ge> 2 \<and> counted then
              (let base = (if backoff_base \<le> 0 then minute else backoff_base);
                   delay = backoff_delay base (ie_backoff en)
               in en\<lparr>ie_backoff := delay, ie_retry_at := now + delay\<rparr>)
            else en))"

definition image_charge :: "bool \<Rightarrow> image_request \<Rightarrow> bool" where
  "image_charge dispatched im \<longleftrightarrow> dispatched \<and> \<not> ir_definitive_failure im \<and> \<not> (ir_suspect im \<and> \<not> ir_measured im)"

text \<open>The ledger half of \<open>settleImage\<close>; the destination's half is \<open>record_image_result\<close>, called first.\<close>

definition drop_hold :: "string \<Rightarrow> key_state \<Rightarrow> key_state" where
  "drop_hold rid st = (if rid \<in> set (ks_image_holds st) then release_image_reservation rid st else st)"

definition charge_image :: "bool \<Rightarrow> key_state \<Rightarrow> key_state" where
  "charge_image b st =
     (if b then set_meter ''images'' (meter ''images'' st\<lparr>ms_today := ms_today (meter ''images'' st) + 1\<rparr>) st else st)"

definition key_settle_image :: "gotime \<Rightarrow> bool \<Rightarrow> image_request \<Rightarrow> event \<Rightarrow> key_state \<Rightarrow> event \<times> image_request \<times> key_state" where
  "key_settle_image now dispatched im e st =
     (let charge = image_charge dispatched im;
          st = charge_image charge (drop_hold (ir_run_id im) (prune now st));
          im = (if charge then im\<lparr>ir_charged := 1\<rparr> else im);
          measured = (if ir_measured im then 1 else 0)
      in (e\<lparr>ev_meters := Some [\<lparr>um_class = ''images'', um_unit = ''images'', um_measured = measured, um_charged = ir_charged im\<rparr>],
            ev_settled_at := now\<rparr>, im, st))"

section \<open>The daily budget is a ceiling\<close>

definition image_limit :: "limits \<Rightarrow> int" where "image_limit lims = lm_daily_images (image_defaults lims)"

definition images_total :: "key_state \<Rightarrow> rat" where
  "images_total st = ms_today (meter ''images'' st) + of_nat (length (ks_image_holds st))"

definition images_ok :: "key_state \<Rightarrow> bool" where
  "images_ok st \<longleftrightarrow> 0 \<le> ms_today (meter ''images'' st) \<and> distinct (ks_image_holds st)"

text \<open>
  A batch is reserved; or a job settles (the hold its reservation made is there until then), a hold is let
  go, a batch is refused, the day turns, or something else happens that leaves images alone.
\<close>

definition images_grant :: "limits \<Rightarrow> key_state \<Rightarrow> key_state \<Rightarrow> bool" where
  "images_grant lims s s' \<longleftrightarrow> (\<exists>now ids. reserve_images now lims ids s = (None, s'))"

definition images_release :: "limits \<Rightarrow> key_state \<Rightarrow> key_state \<Rightarrow> bool" where
  "images_release lims s s' \<longleftrightarrow>
     (\<exists>now dispatched im e e' im'. key_settle_image now dispatched im e s = (e', im', s') \<and> ir_run_id im \<in> set (ks_image_holds s))
     \<or> (\<exists>rid. s' = release_image_reservation rid s)
     \<or> (\<exists>now ids e. reserve_images now lims ids s = (Some e, s'))
     \<or> (\<exists>now. s' = prune now s)
     \<or> (ks_image_holds s' = ks_image_holds s \<and> meter ''images'' s' = meter ''images'' s)"

lemma budget_images [simp]: "budget_amount (limit_budgets (image_defaults lims)) ''images'' ''day'' = image_limit lims"
  by (auto simp: budget_amount_sel audio_defaults_sel(2) image_defaults_sel(2) image_limit_def max_def)

lemma length_fold_insert: "length (fold List.insert ids xs) \<le> length xs + length ids"
proof (induction ids arbitrary: xs)
  case (Cons i ids)
  have "length (List.insert i xs) \<le> length xs + 1" by (simp add: List.insert_def)
  with Cons [of "List.insert i xs"] show ?case by simp
qed simp

lemma distinct_fold_insert: "distinct xs \<Longrightarrow> distinct (fold List.insert ids xs)"
  by (induction ids arbitrary: xs) auto

lemma prune_images:
  "images_ok s \<Longrightarrow> images_ok (prune now s) \<and> images_total (prune now s) \<le> images_total s"
  by (simp add: images_ok_def images_total_def)

lemma images_grant_within:
  assumes "images_ok s" and "0 < image_limit lims" and "images_grant lims s s'"
  shows "images_ok s' \<and> images_total s' \<le> of_int (image_limit lims)"
proof -
  obtain now ids where r: "reserve_images now lims ids s = (None, s')" using assms(3) by (auto simp: images_grant_def)
  let ?p = "prune now s"
  have s': "s' = ?p\<lparr>ks_image_holds := fold List.insert ids (ks_image_holds ?p)\<rparr>"
    and le: "ms_today (meter ''images'' ?p) + of_nat (length (ks_image_holds ?p) + length ids) \<le> of_int (image_limit lims)"
    using r assms(2) by (auto simp: reserve_images_def Let_def simp del: prune_sel split: if_splits)
  have m: "meter ''images'' s' = meter ''images'' ?p" by (simp add: s' meter_def)
  have h: "of_nat (length (ks_image_holds s')) \<le> (of_nat (length (ks_image_holds ?p) + length ids) :: rat)"
    unfolding s' of_nat_le_iff using length_fold_insert [of ids "ks_image_holds ?p"] by simp
  have "images_total s' \<le> of_int (image_limit lims)" unfolding images_total_def m using le h by linarith
  moreover have "images_ok s'" using prune_images [OF assms(1), of now]
    unfolding images_ok_def m by (simp add: s' distinct_fold_insert)
  ultimately show ?thesis by simp
qed

lemma length_removeAll_distinct: "distinct xs \<Longrightarrow> x \<in> set xs \<Longrightarrow> length xs = length (removeAll x xs) + 1"
  by (induction xs) auto

lemma key_settle_image_ledger:
  "ks_image_holds (snd (snd (key_settle_image now d im e s))) = removeAll (ir_run_id im) (ks_image_holds s)"
  "ms_today (meter ''images'' (snd (snd (key_settle_image now d im e s)))) =
     ms_today (meter ''images'' (prune now s)) + (if image_charge d im then 1 else 0)"
  by (simp_all add: key_settle_image_def charge_image_def drop_hold_def release_image_reservation_def Let_def
      meter_def set_meter_def removeAll_id del: prune_sel(6))

lemma settle_image_total:
  assumes "images_ok s" and k: "key_settle_image now dispatched im e s = (e', im', s')" and h: "ir_run_id im \<in> set (ks_image_holds s)"
  shows "images_ok s' \<and> images_total s' \<le> images_total s"
proof -
  let ?p = "prune now s"
  have s': "s' = snd (snd (key_settle_image now dispatched im e s))" using k by simp
  have hold: "ks_image_holds s' = removeAll (ir_run_id im) (ks_image_holds ?p)"
    and today: "ms_today (meter ''images'' s') = ms_today (meter ''images'' ?p) + (if image_charge dispatched im then 1 else 0)"
    unfolding s' key_settle_image_ledger by simp_all
  have l: "length (ks_image_holds ?p) = length (removeAll (ir_run_id im) (ks_image_holds ?p)) + 1"
    using assms(1) h by (intro length_removeAll_distinct) (simp_all add: images_ok_def)
  have p: "images_ok ?p" "images_total ?p \<le> images_total s" using prune_images [OF assms(1)] by blast+
  have "images_total s' \<le> images_total ?p"
    unfolding images_total_def hold today using l by simp
  moreover have "images_ok s'" using p(1) unfolding images_ok_def hold today by (simp add: distinct_removeAll del: prune_sel)
  ultimately show ?thesis using p(2) by linarith
qed

lemma images_release_no_more:
  assumes "images_ok s" and "images_release lims s s'"
  shows "images_ok s' \<and> images_total s' \<le> images_total s"
  using assms(2) unfolding images_release_def
proof (elim disjE exE conjE)
  fix now dispatched im e e' im'
  assume "key_settle_image now dispatched im e s = (e', im', s')" "ir_run_id im \<in> set (ks_image_holds s)"
  then show ?thesis by (rule settle_image_total [OF assms(1)])
next
  fix rid assume "s' = release_image_reservation rid s"
  then show ?thesis using assms(1)
    by (simp add: release_image_reservation_def images_ok_def images_total_def meter_def distinct_removeAll)
next
  fix now ids e assume "reserve_images now lims ids s = (Some e, s')"
  then have "s' = prune now s" by (auto simp: reserve_images_def Let_def simp del: prune_sel split: if_splits)
  then show ?thesis using prune_images [OF assms(1)] by simp
next
  fix now assume "s' = prune now s"
  then show ?thesis using prune_images [OF assms(1)] by simp
next
  assume "ks_image_holds s' = ks_image_holds s" "meter ''images'' s' = meter ''images'' s"
  then show ?thesis using assms(1) by (simp add: images_ok_def images_total_def)
qed

interpretation images_day: ceiling images_total "of_int (image_limit lims)" "\<lambda>s. images_ok s \<and> 0 < image_limit lims"
  "images_grant lims" "images_release lims" for lims
proof (unfold_locales, goal_cases)
  case (1 s s')
  then show ?case using images_grant_within [of s lims s'] by simp
next
  case (2 s s')
  then show ?case using images_release_no_more [of s lims s'] by simp
qed

text \<open>
  C26. The daily image budget is a ceiling over queued and finished work together: whatever sequence of batches,
  settlements, cancellations and day changes a key goes through, the images charged today plus the jobs holding a
  reservation never exceed the key's daily number.
\<close>

theorem image_budget_ceiling:
  assumes "rtranclp (\<lambda>s s'. images_grant lims s s' \<or> images_release lims s s') new_key_state s'"
    and "0 < lm_daily_images (image_defaults lims)"
  shows "ms_today (meter ''images'' s') + of_nat (length (ks_image_holds s')) \<le> of_int (lm_daily_images (image_defaults lims))"
  using images_day.stays_within [OF assms(1)] assms(2)
  by (simp add: images_total_def images_ok_def image_limit_def new_key_state_def meter_def zero_meter_def)

lemma sample_images_grant:
  "images_grant default_limits new_key_state (snd (reserve_images 7 default_limits [''r1'', ''r2''] new_key_state))
   \<and> ks_image_holds (snd (reserve_images 7 default_limits [''r1'', ''r2''] new_key_state)) = [''r2'', ''r1'']"
proof -
  have "reserve_images 7 default_limits [''r1'', ''r2''] new_key_state
      = (None, (prune 7 new_key_state)\<lparr>ks_image_holds := [''r2'', ''r1'']\<rparr>)"
    by (simp add: reserve_images_def Let_def image_limit_def image_defaults_sel default_limits_def new_key_state_def
        zero_meter_def meter_def prune_def prune_meter_def)
  then show ?thesis unfolding images_grant_def by fastforce
qed

theorem image_budget_ceiling_witness:
  "\<exists>s'. ks_image_holds s' = [''r2'', ''r1''] \<and> ms_today (meter ''images'' s') + of_nat (length (ks_image_holds s')) \<le> 20"
proof -
  let ?s = "snd (reserve_images 7 default_limits [''r1'', ''r2''] new_key_state)"
  have "rtranclp (\<lambda>s s'. images_grant default_limits s s' \<or> images_release default_limits s s') new_key_state ?s"
    using sample_images_grant by (intro r_into_rtranclp) simp
  from image_budget_ceiling [OF this] sample_images_grant show ?thesis
    by (auto simp: image_defaults_sel default_limits_def)
qed

section \<open>What is charged, and what the friend is told\<close>

lemma image_answer_keeps [simp]:
  "ir_suspect (snd (image_answer dec st status raw im)) = ir_suspect im"
  "ir_measured (snd (image_answer dec st status raw im)) = ir_measured im"
  by (simp_all add: image_answer_def Let_def split: prod.splits option.splits)

lemma single_image:
  "length datas = 1 \<and> hd datas \<noteq> [] \<Longrightarrow> list_ex (\<lambda>b. b \<noteq> []) datas"
  by (cases datas) auto

lemma image_answer_charge:
  assumes "\<not> ir_measured im" and "\<not> ir_suspect im"
  shows "image_charge True (snd (image_answer dec st status raw im)) \<longleftrightarrow>
     length raw < max_image_response \<and> list_ex (\<lambda>b. b \<noteq> []) (fst (id_result dec raw))"
  using assms
  by (simp add: image_charge_def) (simp add: image_answer_def Let_def not_le split: prod.splits option.splits)

lemma image_answer_stored:
  assumes "fst (image_answer dec st status raw im) = ImageStored b f w h"
  shows "\<not> ir_definitive_failure (snd (image_answer dec st status raw im))"
proof -
  obtain datas parsed where r: "id_result dec raw = (datas, parsed)" by (cases "id_result dec raw")
  have n: "\<not> (length raw \<ge> max_image_response)" and d: "\<not> (\<not> parsed \<or> length datas \<noteq> 1 \<or> hd datas = [])"
    using assms by (auto simp: image_answer_def Let_def r split: if_splits)
  have x: "list_ex (\<lambda>b. b \<noteq> []) datas" using d by (intro single_image) simp
  show ?thesis using n d x by (simp add: image_answer_def Let_def r split: option.splits)
qed

text \<open>
  The image charge, and that the sentence the friend reads tells the truth about it. A job that lost its
  engine after the request was sent is charged exactly when the message says it counted (not when the engine
  was already suspect). An answer is charged when it carries image data, whatever becomes of the data, and not when
  it reached 12 MiB or carries none; a job whose image the host could not store is not charged, and one that was
  stored is charged once even on a suspect engine.
\<close>

theorem image_charge_table:
  assumes "\<not> ir_measured im" and "\<not> ir_definitive_failure im"
  shows "ge_message (fst (image_transport_error True e timed_out now im en)) =
           (if timed_out then ''the engine did not finish in time''
            else ''the connection to the engine was lost before the image finished'')
           @ (if image_charge True im then ''; this one counted'' else ''; the engine is suspect, so this one did not count'')
       \<and> \<not> image_charge False im
       \<and> (\<not> ir_suspect im \<longrightarrow>
            (image_charge True (snd (image_answer dec st status raw im)) \<longleftrightarrow>
               length raw < max_image_response \<and> list_ex (\<lambda>b. b \<noteq> []) (fst (id_result dec raw))))
       \<and> (fst (image_answer dec st status raw im) = ImageStored b f w h \<longrightarrow>
            image_charge True (snd (snd (image_put_result True (snd (image_answer dec st status raw im)))))
            \<and> \<not> image_charge True (snd (snd (image_put_result False (snd (image_answer dec st status raw im))))))"
proof (intro conjI impI)
  show "ge_message (fst (image_transport_error True e timed_out now im en)) =
           (if timed_out then ''the engine did not finish in time''
            else ''the connection to the engine was lost before the image finished'')
           @ (if image_charge True im then ''; this one counted'' else ''; the engine is suspect, so this one did not count'')"
    using assms by (simp add: image_transport_error_def image_abandoned_def image_charge_def errf_def)
  show "\<not> image_charge False im" by (simp add: image_charge_def)
  assume "\<not> ir_suspect im"
  then show "image_charge True (snd (image_answer dec st status raw im)) \<longleftrightarrow>
               length raw < max_image_response \<and> list_ex (\<lambda>b. b \<noteq> []) (fst (id_result dec raw))"
    by (rule image_answer_charge [OF assms(1)])
next
  assume a: "fst (image_answer dec st status raw im) = ImageStored b f w h"
  show "image_charge True (snd (snd (image_put_result True (snd (image_answer dec st status raw im)))))"
    using image_answer_stored [OF a] by (simp add: image_put_result_def image_charge_def)
  show "\<not> image_charge True (snd (snd (image_put_result False (snd (image_answer dec st status raw im)))))"
    by (simp add: image_put_result_def image_charge_def)
qed

theorem image_charge_table_witness:
  "let im = new_image_request ''r1'';
       dec = \<lparr>id_result = (\<lambda>_. ([''aGk''], True)), id_base64 = (\<lambda>_. Some ''hi''), id_config = (\<lambda>_. Some (''png'', 8, 8)), id_image = (\<lambda>_. True)\<rparr>
   in fst (image_answer dec (\<lambda>_. []) 200 ''x'' im) = ImageStored ''hi'' ''png'' 8 8
      \<and> image_charge True (snd (snd (image_put_result True (snd (image_answer dec (\<lambda>_. []) 200 ''x'' im)))))"
proof -
  let ?dec = "\<lparr>id_result = (\<lambda>_. ([''aGk''], True)), id_base64 = (\<lambda>_. Some ''hi''), id_config = (\<lambda>_. Some (''png'', 8, 8)), id_image = (\<lambda>_. True)\<rparr>"
  have a: "fst (image_answer ?dec (\<lambda>_. []) 200 ''x'' (new_image_request ''r1'')) = ImageStored ''hi'' ''png'' 8 8"
    by (simp add: image_answer_def max_image_response_def max_image_def)
  have "\<not> ir_measured (new_image_request ''r1'')" "\<not> ir_definitive_failure (new_image_request ''r1'')"
    by (simp_all add: new_image_request_def)
  from image_charge_table [OF this, where dec = ?dec and st = "\<lambda>_. []" and status = 200 and raw = "''x''"] a
  show ?thesis by (simp add: Let_def)
qed

section \<open>The suspect engine\<close>

lemma backoff_delay_bounds: "0 < base \<Longrightarrow> base \<le> backoff_delay base b \<and> backoff_delay base b \<le> 15 * base"
  by (simp add: backoff_delay_def)

lemma backoff_double:
  assumes "0 < base"
  shows "backoff_delay base (min (2 ^ n * base) (15 * base)) = min (2 ^ Suc n * base) (15 * base)"
proof -
  have "1 * base \<le> 2 ^ n * base" using assms by (intro mult_right_mono) simp_all
  then have "base \<le> 2 ^ n * base" by simp
  then have "base \<le> 2 * min (2 ^ n * base) (15 * base)" unfolding min_def using assms by (split if_split) linarith
  then have "backoff_delay base (min (2 ^ n * base) (15 * base)) = min (2 * min (2 ^ n * base) (15 * base)) (15 * base)"
    by (simp add: backoff_delay_def)
  also have "\<dots> = min (2 ^ Suc n * base) (15 * base)"
  proof -
    define x where "x = 2 ^ n * base"
    have "2 ^ Suc n * base = 2 * x" by (simp add: x_def)
    moreover have "min (2 * min x (15 * base)) (15 * base) = min (2 * x) (15 * base)" using assms by linarith
    ultimately show ?thesis by (simp add: x_def)
  qed
  finally show ?thesis .
qed

definition effective_base :: "duration \<Rightarrow> duration" where "effective_base b = (if b \<le> 0 then minute else b)"

lemma record_counted:
  assumes "\<not> ir_measured im" and "\<not> ir_definitive_failure im \<or> ir_oversized im"
  shows "record_image_result b now True im en =
     (if ie_abandons en + 1 \<ge> 2
      then en\<lparr>ie_abandons := ie_abandons en + 1, ie_backoff := backoff_delay (effective_base b) (ie_backoff en),
              ie_retry_at := now + backoff_delay (effective_base b) (ie_backoff en)\<rparr>
      else en\<lparr>ie_abandons := ie_abandons en + 1\<rparr>)"
  using assms by (auto simp: record_image_result_def effective_base_def Let_def)

text \<open>
  The pause before a suspect engine is tried again. Starting from a clean record, after \<open>n + 2\<close> generations in a
  row that the engine took and did not deliver, the engine is suspect and the next attempt waits for \<open>2^n\<close> times the base
  after the last one, never more than fifteen times the base; one stored image clears the record.
\<close>

theorem suspect_backoff:
  assumes "length ats = n + 2" and "\<not> ir_measured im" and "\<not> ir_definitive_failure im \<or> ir_oversized im"
  shows "let en = fold (\<lambda>t. record_image_result b t True im) ats new_image_engine;
             pause = min (2 ^ n * effective_base b) (15 * effective_base b)
         in ie_abandons en = int n + 2 \<and> ie_backoff en = pause \<and> ie_retry_at en = last ats + pause
            \<and> (ir_measured good \<longrightarrow> record_image_result b now sent good en = en\<lparr>ie_abandons := 0, ie_retry_at := 0, ie_backoff := 0\<rparr>)"
proof -
  have base: "0 < effective_base b" by (simp add: effective_base_def duration_defs)
  have "let en = fold (\<lambda>t. record_image_result b t True im) ats new_image_engine;
             pause = min (2 ^ n * effective_base b) (15 * effective_base b)
         in ie_abandons en = int n + 2 \<and> ie_backoff en = pause \<and> ie_retry_at en = last ats + pause"
    using assms(1)
  proof (induction n arbitrary: ats)
    case 0
    then obtain t u where "ats = [t, u]" by (auto simp: length_Suc_conv numeral_2_eq_2)
    then show ?case using base by (simp add: record_counted [OF assms(2,3)] new_image_engine_def backoff_delay_def Let_def)
  next
    case (Suc n)
    then obtain ts t where ts: "ats = ts @ [t]" "length ts = n + 2" by (cases ats rule: rev_cases) auto
    from Suc.IH [OF ts(2)] backoff_double [OF base, of n] show ?case
      by (simp add: ts record_counted [OF assms(2,3)] Let_def del: power_Suc)
  qed
  then show ?thesis by (simp add: Let_def record_image_result_def)
qed

theorem suspect_backoff_witness:
  "let en = fold (\<lambda>t. record_image_result 0 t True (new_image_request ''r1'')) [1, 2, 3] new_image_engine
   in ie_abandons en = 3 \<and> ie_retry_at en = 3 + 2 * minute"
  using suspect_backoff [of "[1, 2, 3]" 1 "new_image_request ''r1''" 0]
  by (simp add: new_image_request_def Let_def effective_base_def duration_defs)

end
