(* ===== verification/Exchange.thy ===== *)
theory Exchange
  imports Image_Ledger Usage_Recorder
begin

text \<open>
  One request as a record of everything it holds and everything it has said (the type \<open>request\<close> of
  internal/gateway/request.go), how it writes to the friend, how it fails, and how it leaves: \<open>finish\<close>, the one
  exit, with the settle table. What happens to the friend's connection and the engine is given by values: whether
  the context has ended (\<open>gone\<close>) and the clock are read where the code reads them.
\<close>

section \<open>The record\<close>

record audio_request =
  au_dispatched :: bool
  au_measured :: bool
  au_busy :: bool
  au_delivered :: bool
  au_client_cut :: bool
  au_speech_charged :: int
  au_duration :: "rat option"
  au_chars :: int
  au_response_format :: string

text \<open>
  \<open>rq_lease\<close> stands for \<open>releaseManaged\<close> (the member it gives back) and \<open>rq_reading\<close> for \<open>readRelease\<close>;
  \<open>rq_handed_off\<close> for a \<open>continueChat\<close> that is set.
\<close>

record request =
  rq_inner_error :: "gw_error option"
  rq_lease :: "string option"
  rq_reading :: bool
  rq_handed_off :: bool
  rq_dispatched :: bool
  rq_destination :: "destination option"
  rq_audio :: "audio_request option"
  rq_image :: "image_request option"
  rq_responses :: bool
  rq_path :: string
  rq_method :: string
  rq_start :: gotime
  rq_ev :: event
  rq_key :: "key option"
  rq_kind :: string
  rq_n :: normalized
  rq_prompt :: int
  rq_adm :: "admission option"
  rq_buffered :: bool
  rq_slot :: bool
  rq_outcome :: outcome
  rq_wrote_header :: bool
  rq_ttft_set :: bool
  rq_no_event :: bool
  rq_stalled :: bool
  rq_writer :: writer

definition no_normalized :: normalized where
  "no_normalized = \<lparr>n_body = [], n_model = [], n_stream = False, n_text = [], n_messages = None, n_max_tok = 0, n_stripped = []\<rparr>"

definition new_request :: "gotime \<Rightarrow> router \<Rightarrow> string \<Rightarrow> string \<Rightarrow> request" where
  "new_request now r http_method p =
     (let d = route r p;
          ev = empty_event\<lparr>ev_ts := now, ev_endpoint := p\<rparr>;
          ev = (case d of Some x \<Rightarrow> ev\<lparr>ev_destination := ds_id x\<rparr> | None \<Rightarrow> ev)
      in \<lparr>rq_inner_error = None, rq_lease = None, rq_reading = False, rq_handed_off = False, rq_dispatched = False,
          rq_destination = d, rq_audio = None, rq_image = None, rq_responses = False, rq_path = p, rq_method = http_method,
          rq_start = now, rq_ev = ev, rq_key = None, rq_kind = [], rq_n = no_normalized, rq_prompt = 0, rq_adm = None,
          rq_buffered = False, rq_slot = False, rq_outcome = OutcomeNone, rq_wrote_header = False, rq_ttft_set = False,
          rq_no_event = False, rq_stalled = False, rq_writer = new_writer\<rparr>)"

text \<open>
  What all requests share. The queues and the image engines are those of the destinations; \<open>gw_leases\<close> counts
  the managed members held and \<open>gw_recorded\<close> is what has been given to the recorder.
\<close>

record gateway =
  gw_limiter :: limiter
  gw_queues :: "string \<Rightarrow> slot_queue"
  gw_images :: "string \<Rightarrow> image_engine"
  gw_bodies :: int
  gw_leases :: "string \<Rightarrow> int"
  gw_sessions :: session_map
  gw_recorded :: "event list"

section \<open>Writing\<close>

definition write_header :: "int \<Rightarrow> request \<Rightarrow> request" where
  "write_header status q =
     q\<lparr>rq_wrote_header := True, rq_ev := (rq_ev q)\<lparr>ev_status := status\<rparr>, rq_writer := write_status status (rq_writer q)\<rparr>"

definition milliseconds :: "duration \<Rightarrow> int" where
  "milliseconds d = (if 0 \<le> d then d div 1000000 else - ((- d) div 1000000))"

definition mark_ttft :: "gotime \<Rightarrow> request \<Rightarrow> request" where
  "mark_ttft now q =
     (if \<not> rq_ttft_set q then
        q\<lparr>rq_ttft_set := True, rq_ev := (rq_ev q)\<lparr>ev_ttft_ms := milliseconds (time_sub now (rq_start q))\<rparr>\<rparr>
      else q)"

definition write_json :: "(json \<Rightarrow> nat) \<Rightarrow> json \<Rightarrow> request \<Rightarrow> request" where
  "write_json encoded_length v q =
     (let w = set_header ''Content-Length'' (itoa (int (encoded_length v)))
                (set_header ''Content-Type'' ''application/json'' (rq_writer q));
          q = write_header 200 (q\<lparr>rq_writer := w\<rparr>)
      in q\<lparr>rq_writer := write_piece (PJson v) (rq_writer q)\<rparr>)"

definition stream_head :: "request \<Rightarrow> request" where
  "stream_head q =
     (let w = set_header ''Content-Type'' ''text/event-stream'' (rq_writer q);
          w = set_header ''Cache-Control'' ''no-cache'' w;
          w = set_header ''X-Accel-Buffering'' ''no'' w
      in write_header 200 (q\<lparr>rq_writer := w\<rparr>))"

text \<open>\<open>queued\<close>: \<open>wrote\<close> is the error of the write or of the flush, if any.\<close>

definition queued :: "string option \<Rightarrow> request \<Rightarrow> string option \<times> request" where
  "queued wrote q =
     (let q = (if \<not> rq_wrote_header q then stream_head q else q) in
      (wrote, if wrote = None then q\<lparr>rq_writer := write_piece (PText ('': queued'' @ nl2)) (rq_writer q)\<rparr> else q))"

section \<open>Failing\<close>

definition retry_after_upstream_down :: int where "retry_after_upstream_down = 10"

text \<open>
  \<open>upstreamErr\<close>: the friend left, the idle deadline fired, the error is a timeout, or the engine is not there;
  \<open>idle_timeout\<close> is the printed duration.
\<close>

definition upstream_err :: "bool \<Rightarrow> bool \<Rightarrow> string \<Rightarrow> bool \<Rightarrow> gw_error" where
  "upstream_err gone engine_idle idle_timeout timed_out =
     (if gone then errf CodeClientClosed 0 ''client went away'' []
      else if engine_idle then
        errf CodeUpstreamError 0 ''the host's engine stopped answering for %s'' [FStr idle_timeout]
      else if timed_out then errf CodeUpstreamError 0 ''the host's engine did not answer in time'' []
      else errf CodeUpstreamDown retry_after_upstream_down ''the host's engine is not reachable right now'' [])"

text \<open>
  \<open>fail\<close>. \<open>gone\<close> is whether the request's context has ended. What a failed stream of the Responses API is sent
  belongs to that adapter: \<open>fail_responses\<close> is its \<open>failResponses\<close>. The boolean result is the panic that
  aborts the connection of a half-sent audio response.
\<close>

definition fail_text ::
    "(gw_error \<Rightarrow> request \<Rightarrow> request) \<Rightarrow> (json \<Rightarrow> nat) \<Rightarrow> bool \<Rightarrow> gw_error \<Rightarrow> request \<Rightarrow> request \<times> bool" where
  "fail_text fail_responses encoded_length gone e q =
     (if rq_wrote_header q then
        (let q = q\<lparr>rq_ev := (rq_ev q)\<lparr>ev_code := code_str (ge_code e)\<rparr>\<rparr> in
         if rq_audio q \<noteq> None then (q, True)
         else if rq_path q = responses_endpoint then (fail_responses e q, False)
         else if ge_code e \<noteq> CodeClientClosed \<and> \<not> gone then
           (q\<lparr>rq_writer := write_stream_error e (rq_writer q)\<rparr>, False)
         else (q, False))
      else if ge_code e = CodeClientClosed \<or> (gone \<and> \<not> rq_stalled q) then
        (q\<lparr>rq_ev := (rq_ev q)\<lparr>ev_status := 499, ev_code := code_str CodeClientClosed\<rparr>\<rparr>, False)
      else
        (q\<lparr>rq_ev := (rq_ev q)\<lparr>ev_status := err_status e, ev_code := code_str (ge_code e)\<rparr>,
           rq_writer := write_error encoded_length e (rq_writer q)\<rparr>, False))"

definition fail ::
    "(gw_error \<Rightarrow> request \<Rightarrow> request) \<Rightarrow> (json \<Rightarrow> nat) \<Rightarrow> bool \<Rightarrow> gw_error \<Rightarrow> request \<Rightarrow> request \<times> bool" where
  "fail fail_responses encoded_length gone e q =
     (let q = q\<lparr>rq_inner_error := Some e\<rparr> in
      case rq_image q of
        None \<Rightarrow> fail_text fail_responses encoded_length gone e q
      | Some im \<Rightarrow>
          if gone \<and> \<not> rq_dispatched q then
            (q\<lparr>rq_ev := (rq_ev q)\<lparr>ev_status := 503, ev_code := ''interrupted''\<rparr>\<rparr>, False)
          else
            (let e = (if gone \<and> \<not> ir_definitive_failure im
                      then image_abandoned im ''the host stopped while the engine was working'' else e);
                 q = q\<lparr>rq_image := Some (im\<lparr>ir_failure := Some (error_json e True)\<rparr>)\<rparr>
             in if gone then
                  (q\<lparr>rq_ev := (rq_ev q)\<lparr>ev_status := err_status e, ev_code := code_str (ge_code e)\<rparr>\<rparr>, False)
                else fail_text fail_responses encoded_length gone e q))"

section \<open>The settle table\<close>

definition settle_row :: "request \<Rightarrow> admission \<Rightarrow> bool \<times> int" where
  "settle_row q a =
     (let timed_out = (ev_code (rq_ev q) = code_str CodeQueueTimeout);
          tokens = ev_prompt_tokens (rq_ev q) + ev_completion_tokens (rq_ev q)
      in case rq_audio q of
        Some au \<Rightarrow> (\<not> au_busy au \<and> (au_dispatched au \<or> (rq_outcome q = OutcomeQueueLost \<and> timed_out)), 0)
      | None \<Rightarrow>
          if \<not> counts_against_rpm (rq_kind q) then (False, 0)
          else (case rq_outcome q of
              OutcomeQueueLost \<Rightarrow> (timed_out, 0)
            | OutcomeEngineErr \<Rightarrow> (True, 0)
            | OutcomeServed \<Rightarrow> (True, tokens)
            | OutcomeCut \<Rightarrow> if \<not> ev_stream (rq_ev q) then (True, ad_reserved a) else (True, tokens)
            | _ \<Rightarrow> (False, 0)))"

section \<open>The one exit\<close>

text \<open>Release in reverse order of acquisition: first the image read and the destination's slot.\<close>

definition release_reading :: "request \<Rightarrow> gateway \<Rightarrow> gateway" where
  "release_reading q g =
     (case rq_key q of
        Some k \<Rightarrow>
          if rq_reading q then
            g\<lparr>gw_limiter := (gw_limiter g)(k_id k \<mapsto> image_read_release (key_state_of (gw_limiter g) (k_id k)))\<rparr>
          else g
      | None \<Rightarrow> g)"

definition release_slot :: "int \<Rightarrow> request \<Rightarrow> gateway \<Rightarrow> gateway" where
  "release_slot cap q g =
     (case rq_destination q of
        Some d \<Rightarrow> if rq_slot q then g\<lparr>gw_queues := (gw_queues g)(ds_id d := release cap (gw_queues g (ds_id d)))\<rparr> else g
      | None \<Rightarrow> g)"

text \<open>Then the audio and image ledgers, each through the key's state.\<close>

definition audio_end_of :: "bool \<Rightarrow> request \<Rightarrow> audio_request \<Rightarrow> audio_end" where
  "audio_end_of gone q au =
     \<lparr>ae_speech = (rq_kind q = speech_endpoint), ae_dispatched = au_dispatched au, ae_outcome = rq_outcome q,
      ae_client_cut = au_client_cut au, ae_delivered = au_delivered au, ae_measured = au_measured au,
      ae_duration = au_duration au, ae_gone = gone\<rparr>"

definition settle_audio :: "gotime \<Rightarrow> bool \<Rightarrow> admission \<Rightarrow> request \<Rightarrow> limiter \<Rightarrow> request \<times> limiter" where
  "settle_audio now gone a q l =
     (case (rq_audio q, rq_key q) of
        (Some au, Some k) \<Rightarrow>
          (let (ev, charged, st) =
                 key_settle_audio now (audio_end_of gone q au) a (rq_ev q) (key_state_of l (k_id k))
           in (q\<lparr>rq_ev := ev, rq_audio := Some (au\<lparr>au_speech_charged := charged\<rparr>)\<rparr>, l(k_id k \<mapsto> st)))
      | _ \<Rightarrow> (q, l))"

definition settle_image :: "duration \<Rightarrow> gotime \<Rightarrow> request \<Rightarrow> gateway \<Rightarrow> request \<times> gateway" where
  "settle_image backoff_base now q g =
     (case (rq_image q, rq_key q) of
        (Some im, Some k) \<Rightarrow>
          (let g = (case rq_destination q of
                      Some d \<Rightarrow> g\<lparr>gw_images := (gw_images g)(ds_id d :=
                                   record_image_result backoff_base now (rq_dispatched q) im (gw_images g (ds_id d)))\<rparr>
                    | None \<Rightarrow> g);
               (ev, im, st) = key_settle_image now (rq_dispatched q) im (rq_ev q) (key_state_of (gw_limiter g) (k_id k))
           in (q\<lparr>rq_ev := ev, rq_image := Some im\<rparr>, g\<lparr>gw_limiter := (gw_limiter g)(k_id k \<mapsto> st)\<rparr>))
      | _ \<Rightarrow> (q, g))"

text \<open>The admission is settled last, by the row read before the other ledgers moved.\<close>

definition settle_admission :: "duration \<Rightarrow> gotime \<Rightarrow> bool \<Rightarrow> request \<Rightarrow> gateway \<Rightarrow> int \<times> request \<times> gateway" where
  "settle_admission backoff_base now gone q g =
     (case rq_adm q of
        None \<Rightarrow> (0, q, g)
      | Some a \<Rightarrow>
          (let (counted, charged) = settle_row q a;
               (q, l) = settle_audio now gone a q (gw_limiter g);
               (q, g) = settle_image backoff_base now q (g\<lparr>gw_limiter := l\<rparr>);
               (settled_at, l) = settle now a counted charged (gw_limiter g)
           in (charged,
               if rq_audio q = None \<and> rq_image q = None then q\<lparr>rq_ev := (rq_ev q)\<lparr>ev_settled_at := settled_at\<rparr>\<rparr> else q,
               g\<lparr>gw_limiter := l\<rparr>)))"

text \<open>The charge of every meter on the event.\<close>

definition charge_meter :: "request \<Rightarrow> int \<Rightarrow> usage_meter \<Rightarrow> usage_meter" where
  "charge_meter q charged m =
     m\<lparr>um_charged :=
        (if um_class m = ''images'' then (case rq_image q of Some im \<Rightarrow> ir_charged im | None \<Rightarrow> 0)
         else if um_class m = ''tokens'' then of_int charged
         else if um_class m = ''speech'' then (case rq_audio q of Some au \<Rightarrow> of_int (au_speech_charged au) | None \<Rightarrow> 0)
         else if um_class m = ''audio'' then
           (case rq_audio q of Some au \<Rightarrow> if au_dispatched au then um_measured m else 0 | None \<Rightarrow> 0)
         else 0)\<rparr>"

definition max_endpoint_len :: nat where "max_endpoint_len = 64"

definition final_event :: "gotime \<Rightarrow> int \<Rightarrow> request \<Rightarrow> event" where
  "final_event now charged q =
     (let ev = rq_ev q;
          ms = resource_meters ev;
          ev = ev\<lparr>ev_meters := (if ms = [] then None else Some (map (charge_meter q charged) ms))\<rparr>;
          ev = ev\<lparr>ev_total_ms := milliseconds (time_sub now (rq_start q))\<rparr>
      in ev\<lparr>ev_endpoint := take max_endpoint_len (ev_endpoint ev)\<rparr>)"

text \<open>
  \<open>finish\<close>: \<open>cap\<close> is the destination's capacity when the slot is released, \<open>settle_t\<close> and \<open>end_t\<close> the clock. Go
  runs the deferred release of the managed member after everything else.
\<close>

definition finish :: "duration \<Rightarrow> int \<Rightarrow> gotime \<Rightarrow> gotime \<Rightarrow> bool \<Rightarrow> request \<Rightarrow> gateway \<Rightarrow> gateway" where
  "finish backoff_base cap settle_t end_t gone q g =
     (let g = release_slot cap q (release_reading q g);
          (charged, q, g) = settle_admission backoff_base settle_t gone q g;
          g = (if rq_buffered q then g\<lparr>gw_bodies := gw_bodies g - 1\<rparr> else g);
          g = (if rq_no_event q then g else g\<lparr>gw_recorded := gw_recorded g @ [final_event end_t charged q]\<rparr>)
      in case rq_lease q of
           Some i \<Rightarrow> g\<lparr>gw_leases := (gw_leases g)(i := gw_leases g i - 1)\<rparr>
         | None \<Rightarrow> g)"

end
