(* ===== verification/Relay.thy ===== *)
theory Relay
  imports Exchange
begin

text \<open>
  The two relays of internal/gateway/proxy.go: a whole response passed through after its usage has been read, and a
  stream copied line by line while its chunks are metered. The engine's side is its bytes and how they end; the
  friend's side is whether each write and flush succeeds; the JSON decoders are the standard library's.
\<close>

section \<open>What the engine sends\<close>

record usage_t =
  ut_prompt_tokens :: int
  ut_completion_tokens :: int
  ut_cached :: int
  ut_reasoning :: int

record chat_delta =
  cd_content :: string
  cd_reasoning_content :: "string option"
  cd_reasoning :: string
  cd_refusal :: string
  cd_tool_arguments :: "string list"

definition delta_reasoning :: "chat_delta \<Rightarrow> string" where
  "delta_reasoning d = (case cd_reasoning_content d of Some s \<Rightarrow> s | None \<Rightarrow> cd_reasoning d)"

record sse_chunk =
  sc_usage :: "usage_t option"
  sc_choices :: "chat_delta list"

text \<open>
  How the engine's bytes end: the end of the body, or a read error, with whether the idle deadline caused it
  (\<open>engineIdle\<close>) and whether it is a timeout.
\<close>

datatype stream_end = StreamEof | StreamError bool bool

record engine_response =
  er_status :: int
  er_content_type :: string
  er_body :: string
  er_end :: stream_end

definition apply_usage :: "usage_t option \<Rightarrow> event \<Rightarrow> event" where
  "apply_usage u ev =
     (case u of
        None \<Rightarrow> ev
      | Some x \<Rightarrow> ev\<lparr>ev_prompt_tokens := ut_prompt_tokens x, ev_completion_tokens := ut_completion_tokens x\<rparr>)"

section \<open>The engine's sentence\<close>

text \<open>
  \<open>upstreamMessage\<close>: the first component of an error body is its own message and type, the second what
  the member \<open>error\<close> decodes to: an object with a message and a type, a text, or neither.
\<close>

datatype nested_error = NestedObject string string | NestedText string | NestedNone

definition upstream_message :: "(string \<Rightarrow> ((string \<times> string) \<times> nested_error) option) \<Rightarrow> string \<Rightarrow> string \<times> string" where
  "upstream_message dec b =
     (let s = snippet b in
      case dec s of
        None \<Rightarrow> (s, [])
      | Some ((msg, typ), nested) \<Rightarrow>
          (case nested of
             NestedObject m t \<Rightarrow> if m \<noteq> [] then (m, t) else if msg \<noteq> [] then (msg, typ) else (s, [])
           | NestedText t \<Rightarrow> if t \<noteq> [] then (t, []) else if msg \<noteq> [] then (msg, typ) else (s, [])
           | NestedNone \<Rightarrow> if msg \<noteq> [] then (msg, typ) else (s, [])))"

section \<open>A whole response\<close>

definition max_upstream_body :: nat where "max_upstream_body = 64 * 1024 * 1024"

text \<open>\<open>io.ReadAll(io.LimitReader(body, n))\<close>: an error only shows when it comes within the limit.\<close>

definition read_limited :: "nat \<Rightarrow> engine_response \<Rightarrow> string \<times> (bool \<times> bool) option" where
  "read_limited n r =
     (if n \<le> length (er_body r) then (take n (er_body r), None)
      else (er_body r, case er_end r of StreamEof \<Rightarrow> None | StreamError idle timed_out \<Rightarrow> Some (idle, timed_out)))"

text \<open>
  \<open>decode\<close> gives the usage and, of each choice, the content of its message. \<open>gone\<close> is whether the friend has
  left when the read fails, \<open>first_t\<close> the clock at the first byte for the friend.
\<close>

definition pipe_body ::
    "(string \<Rightarrow> (usage_t option \<times> string list) option) \<Rightarrow> bool \<Rightarrow> string \<Rightarrow> gotime \<Rightarrow> bool \<Rightarrow> engine_response \<Rightarrow> request
     \<Rightarrow> gw_error option \<times> request" where
  "pipe_body decode log_prompts idle_timeout first_t gone resp q =
     (let (b, failed) = read_limited max_upstream_body resp in
      case failed of
        Some (idle, timed_out) \<Rightarrow>
          (Some (upstream_err gone idle idle_timeout timed_out),
           q\<lparr>rq_outcome := (if gone then OutcomeCut else OutcomeEngineErr)\<rparr>)
      | None \<Rightarrow>
          (case decode b of
             None \<Rightarrow> (Some (errf CodeUpstreamError 0 ''upstream returned an unparseable response'' []),
                      q\<lparr>rq_outcome := OutcomeEngineErr\<rparr>)
           | Some (u, contents) \<Rightarrow>
               (let ev = apply_usage u (rq_ev q);
                    ev = (if log_prompts \<and> contents \<noteq> [] then ev\<lparr>ev_completion := hd contents\<rparr> else ev);
                    ct = (if er_content_type resp = [] then ''application/json'' else er_content_type resp);
                    w = set_header ''Content-Length'' (itoa (int (length b))) (set_header ''Content-Type'' ct (rq_writer q));
                    q = mark_ttft first_t (write_header 200 (q\<lparr>rq_ev := ev, rq_writer := w\<rparr>))
                in (None, q\<lparr>rq_writer := write_piece (PText b) (rq_writer q)\<rparr>))))"

section \<open>A stream\<close>

record stream_meter =
  sm_chunks :: int
  sm_saw_usage :: bool
  sm_completion :: string

definition new_meter :: stream_meter where
  "new_meter = \<lparr>sm_chunks = 0, sm_saw_usage = False, sm_completion = []\<rparr>"

definition delta_works :: "chat_delta \<Rightarrow> bool" where
  "delta_works d \<longleftrightarrow> cd_content d \<noteq> [] \<or> delta_reasoning d \<noteq> [] \<or> list_ex (\<lambda>a. a \<noteq> []) (cd_tool_arguments d)"

definition observe_choice :: "bool \<Rightarrow> chat_delta \<Rightarrow> stream_meter \<Rightarrow> stream_meter" where
  "observe_choice log_prompts d m =
     (let m = (if delta_works d then m\<lparr>sm_chunks := sm_chunks m + 1\<rparr> else m)
      in if log_prompts then m\<lparr>sm_completion := sm_completion m @ cd_content d\<rparr> else m)"

definition observe :: "bool \<Rightarrow> sse_chunk \<Rightarrow> stream_meter \<times> event \<Rightarrow> stream_meter \<times> event" where
  "observe log_prompts ch = (\<lambda>(m, ev).
     let (m, ev) = (if sc_usage ch \<noteq> None then (m\<lparr>sm_saw_usage := True\<rparr>, apply_usage (sc_usage ch) ev) else (m, ev))
     in (fold (observe_choice log_prompts) (sc_choices ch) m, ev))"

definition meter_finish :: "bool \<Rightarrow> stream_meter \<Rightarrow> event \<Rightarrow> event" where
  "meter_finish log_prompts m ev =
     (let ev = (if \<not> sm_saw_usage m then ev\<lparr>ev_completion_tokens := sm_chunks m\<rparr> else ev)
      in if log_prompts then ev\<lparr>ev_completion := sm_completion m\<rparr> else ev)"

text \<open>\<open>br.ReadBytes('\n')\<close> over the rest of the body: the lines with their ends, and the last read with its error.\<close>

fun stream_lines :: "string \<Rightarrow> string \<Rightarrow> string list \<times> string" where
  "stream_lines w [] = ([], w)"
| "stream_lines w (c # s) =
     (if c = CHR 0x0A then (let (ls, r) = stream_lines [] s in ((w @ [c]) # ls, r)) else stream_lines (w @ [c]) s)"

definition trim_line_end :: "string \<Rightarrow> string" where
  "trim_line_end l = rev (dropWhile (\<lambda>c. c = CHR 0x0D \<or> c = CHR 0x0A) (rev l))"

text \<open>The chunk a line carries, if it is a data line the decoder understands.\<close>

definition line_chunk :: "(string \<Rightarrow> sse_chunk option) \<Rightarrow> string \<Rightarrow> sse_chunk option" where
  "line_chunk decode l =
     (case cut_prefix ''data:'' (trim_line_end l) of
        None \<Rightarrow> None
      | Some d \<Rightarrow> (let d = trim_space d in if d = ''[DONE]'' then None else decode d))"

text \<open>
  One line: the write, then the flush at an event boundary or the meter. \<open>writes\<close> and \<open>flushes\<close> say whether
  the friend's connection takes it.
\<close>

definition closed_reading :: gw_error where "closed_reading = errf CodeClientClosed 0 ''client stopped reading'' []"

definition relay_line ::
    "(string \<Rightarrow> sse_chunk option) \<Rightarrow> bool \<Rightarrow> gotime \<Rightarrow> bool \<Rightarrow> bool \<Rightarrow> string \<Rightarrow> stream_meter \<times> request
     \<Rightarrow> gw_error option \<times> stream_meter \<times> request" where
  "relay_line decode log_prompts now writes flushes l = (\<lambda>(m, q).
     if \<not> writes then (Some closed_reading, m, q)
     else
       (let q = mark_ttft now (q\<lparr>rq_writer := write_piece (PText l) (rq_writer q)\<rparr>) in
        if trim_line_end l = [] then ((if flushes then None else Some closed_reading), m, q)
        else case line_chunk decode l of
          None \<Rightarrow> (None, m, q)
        | Some ch \<Rightarrow> (let (m, ev) = observe log_prompts ch (m, rq_ev q) in (None, m, q\<lparr>rq_ev := ev\<rparr>))))"

text \<open>The friend's side of the copy: for each read, the clock, and whether the write and the flush succeed.\<close>

type_synonym friend_io = "nat \<Rightarrow> gotime \<times> bool \<times> bool"

fun relay_lines ::
    "(string \<Rightarrow> sse_chunk option) \<Rightarrow> bool \<Rightarrow> friend_io \<Rightarrow> nat \<Rightarrow> string list \<Rightarrow> stream_meter \<times> request
     \<Rightarrow> gw_error option \<times> stream_meter \<times> request" where
  "relay_lines decode log_prompts io i [] mq = (None, mq)"
| "relay_lines decode log_prompts io i (l # ls) mq =
     (let (now, writes, flushes) = io i in
      case relay_line decode log_prompts now writes flushes l mq of
        (Some e, mq) \<Rightarrow> (Some e, mq)
      | (None, mq) \<Rightarrow> relay_lines decode log_prompts io (i + 1) ls mq)"

text \<open>The end of the stream: what is left of a line comes with the error of its read.\<close>

definition relay_end ::
    "(string \<Rightarrow> sse_chunk option) \<Rightarrow> bool \<Rightarrow> bool \<Rightarrow> string \<Rightarrow> gotime \<times> bool \<times> bool \<Rightarrow> string \<Rightarrow> stream_end
     \<Rightarrow> stream_meter \<times> request \<Rightarrow> gw_error option \<times> stream_meter \<times> request" where
  "relay_end decode log_prompts gone idle_timeout io rest ends mq =
     (let (now, writes, flushes) = io;
          (err, mq) = (if rest = [] then (None, mq) else relay_line decode log_prompts now writes flushes rest mq)
      in case err of
           Some e \<Rightarrow> (Some e, mq)
         | None \<Rightarrow> (case ends of
               StreamEof \<Rightarrow> (None, mq)
             | StreamError idle timed_out \<Rightarrow> (Some (upstream_err gone idle idle_timeout timed_out), mq)))"

definition pipe_stream ::
    "(string \<Rightarrow> sse_chunk option) \<Rightarrow> bool \<Rightarrow> string \<Rightarrow> friend_io \<Rightarrow> bool \<Rightarrow> engine_response \<Rightarrow> request
     \<Rightarrow> gw_error option \<times> request" where
  "pipe_stream decode log_prompts idle_timeout io gone resp q =
     (let q = (if \<not> rq_wrote_header q then stream_head q else q);
          (ls, rest) = stream_lines [] (er_body resp);
          (err, mq) = relay_lines decode log_prompts io 0 ls (new_meter, q);
          (err, m, q) = (case err of
             Some e \<Rightarrow> (Some e, mq)
           | None \<Rightarrow> relay_end decode log_prompts gone idle_timeout (io (length ls)) rest (er_end resp) mq);
          q = (if err \<noteq> None then q\<lparr>rq_outcome := OutcomeCut\<rparr> else q)
      in (err, q\<lparr>rq_ev := meter_finish log_prompts m (rq_ev q)\<rparr>))"

section \<open>What the friend gets and what it costs\<close>

lemma stream_lines_concat: "stream_lines w s = (ls, r) \<Longrightarrow> concat ls @ r = w @ s"
  by (induction w s arbitrary: ls r rule: stream_lines.induct) (auto split: if_splits prod.splits)

text \<open>The tokens a delivered part of a stream is worth: the last usage the engine gave, else one per chunk that did work.\<close>

definition working_chunks :: "sse_chunk list \<Rightarrow> int" where
  "working_chunks chs = int (length (filter delta_works (concat (map sc_choices chs))))"

definition last_usage :: "sse_chunk list \<Rightarrow> usage_t option" where
  "last_usage chs = (case find (\<lambda>c. sc_usage c \<noteq> None) (rev chs) of Some c \<Rightarrow> sc_usage c | None \<Rightarrow> None)"

definition stream_tokens :: "int \<Rightarrow> sse_chunk list \<Rightarrow> int \<times> int" where
  "stream_tokens prompt chs =
     (case last_usage chs of
        Some u \<Rightarrow> (ut_prompt_tokens u, ut_completion_tokens u)
      | None \<Rightarrow> (prompt, working_chunks chs))"

lemma last_usage_snoc: "last_usage (chs @ [c]) = (if sc_usage c \<noteq> None then sc_usage c else last_usage chs)"
  by (simp add: last_usage_def)

lemma working_chunks_snoc:
  "working_chunks (chs @ [c]) = working_chunks chs + int (length (filter delta_works (sc_choices c)))"
  by (simp add: working_chunks_def)

lemma observe_choices:
  "sm_chunks (fold (observe_choice lp) ds m) = sm_chunks m + int (length (filter delta_works ds))
   \<and> sm_saw_usage (fold (observe_choice lp) ds m) = sm_saw_usage m"
proof (induction ds arbitrary: m)
  case (Cons d ds)
  have "sm_chunks (observe_choice lp d m) = sm_chunks m + (if delta_works d then 1 else 0)"
    "sm_saw_usage (observe_choice lp d m) = sm_saw_usage m" by (simp_all add: observe_choice_def Let_def)
  with Cons [of "observe_choice lp d m"] show ?case by simp
qed simp

text \<open>The meter has seen exactly the chunks \<open>chs\<close>.\<close>

definition metered :: "int \<Rightarrow> int \<Rightarrow> sse_chunk list \<Rightarrow> stream_meter \<Rightarrow> event \<Rightarrow> bool" where
  "metered prompt completion chs m ev \<longleftrightarrow>
     sm_chunks m = working_chunks chs \<and> (sm_saw_usage m \<longleftrightarrow> last_usage chs \<noteq> None)
     \<and> (case last_usage chs of
          Some u \<Rightarrow> ev_prompt_tokens ev = ut_prompt_tokens u \<and> ev_completion_tokens ev = ut_completion_tokens u
        | None \<Rightarrow> ev_prompt_tokens ev = prompt \<and> ev_completion_tokens ev = completion)"

lemma metered_observe:
  assumes "metered p c chs m ev" and "observe lp ch (m, ev) = (m', ev')"
  shows "metered p c (chs @ [ch]) m' ev'"
proof (cases "sc_usage ch")
  case None
  then have "m' = fold (observe_choice lp) (sc_choices ch) m" "ev' = ev" using assms(2) by (simp_all add: observe_def)
  then show ?thesis using assms(1) None observe_choices [of lp "sc_choices ch" m]
    by (simp add: metered_def working_chunks_snoc last_usage_snoc)
next
  case (Some u)
  then have "m' = fold (observe_choice lp) (sc_choices ch) (m\<lparr>sm_saw_usage := True\<rparr>)" "ev' = apply_usage (Some u) ev"
    using assms(2) by (simp_all add: observe_def)
  then show ?thesis using assms(1) Some observe_choices [of lp "sc_choices ch" "m\<lparr>sm_saw_usage := True\<rparr>"]
    by (simp add: metered_def working_chunks_snoc last_usage_snoc apply_usage_def)
qed

lemma metered_finish:
  "metered p c chs m ev \<Longrightarrow>
     (ev_prompt_tokens (meter_finish lp m ev), ev_completion_tokens (meter_finish lp m ev)) = stream_tokens p chs"
  by (auto simp: metered_def meter_finish_def stream_tokens_def Let_def split: option.splits)

lemma mark_ttft_sel [simp]:
  "rq_writer (mark_ttft t q) = rq_writer q" "rq_outcome (mark_ttft t q) = rq_outcome q"
  "ev_prompt_tokens (rq_ev (mark_ttft t q)) = ev_prompt_tokens (rq_ev q)"
  "ev_completion_tokens (rq_ev (mark_ttft t q)) = ev_completion_tokens (rq_ev q)"
  by (simp_all add: mark_ttft_def)

lemma metered_ttft [simp]:
  "metered p c chs m (rq_ev (mark_ttft t q)) = metered p c chs m (rq_ev q)"
  by (simp add: metered_def split: option.splits)

text \<open>The lines \<open>ds\<close> have been delivered on top of what was there.\<close>

definition delivered ::
    "(string \<Rightarrow> sse_chunk option) \<Rightarrow> request \<Rightarrow> string list \<Rightarrow> stream_meter \<times> request \<Rightarrow> bool" where
  "delivered decode q ds = (\<lambda>(m, q').
     wr_body (rq_writer q') = wr_body (rq_writer q) @ map PText ds \<and> rq_outcome q' = rq_outcome q
     \<and> metered (ev_prompt_tokens (rq_ev q)) (ev_completion_tokens (rq_ev q)) (List.map_filter (line_chunk decode) ds) m (rq_ev q'))"

lemma map_filter_snoc:
  "List.map_filter f (xs @ [x]) = List.map_filter f xs @ (case f x of Some y \<Rightarrow> [y] | None \<Rightarrow> [])"
  by (simp add: List.map_filter_def split: option.splits)

lemma relay_line_delivers:
  assumes "delivered decode q ds mq" and "relay_line decode lp now writes flushes l mq = (err, mq')"
  shows "delivered decode q (if writes then ds @ [l] else ds) mq' \<and> (err = None \<longrightarrow> writes)"
proof -
  obtain m r where mq: "mq = (m, r)" by (cases mq)
  have blank: "trim_line_end l = [] \<Longrightarrow> line_chunk decode l = None"
    by (simp add: line_chunk_def cut_prefix_def has_prefix_def)
  show ?thesis
  proof (cases "writes \<and> trim_line_end l \<noteq> []")
    case True
    then show ?thesis
    proof (cases "line_chunk decode l")
      case None
      then show ?thesis using True assms by (auto simp: mq relay_line_def delivered_def map_filter_snoc Let_def)
    next
      case (Some ch)
      obtain m' ev' where o: "observe lp ch (m, rq_ev (mark_ttft now (r\<lparr>rq_writer := write_piece (PText l) (rq_writer r)\<rparr>))) = (m', ev')"
        by (cases "observe lp ch (m, rq_ev (mark_ttft now (r\<lparr>rq_writer := write_piece (PText l) (rq_writer r)\<rparr>)))")
      have "metered (ev_prompt_tokens (rq_ev q)) (ev_completion_tokens (rq_ev q)) (List.map_filter (line_chunk decode) ds) m
          (rq_ev (mark_ttft now (r\<lparr>rq_writer := write_piece (PText l) (rq_writer r)\<rparr>)))"
        using assms(1) by (simp add: mq delivered_def)
      from metered_observe [OF this o] show ?thesis
        using True Some assms o by (auto simp: mq relay_line_def delivered_def map_filter_snoc Let_def)
    qed
  next
    case False
    then show ?thesis using assms blank
      by (auto simp: mq relay_line_def delivered_def map_filter_snoc Let_def split: if_splits)
  qed
qed

lemma relay_lines_delivers:
  assumes "delivered decode q ds mq" and "relay_lines decode lp io i ls mq = (err, mq')"
  shows "\<exists>k \<le> length ls. delivered decode q (ds @ take k ls) mq' \<and> (err = None \<longrightarrow> k = length ls)"
  using assms
proof (induction ls arbitrary: i ds mq)
  case (Cons l ls)
  obtain now writes flushes where io: "io i = (now, writes, flushes)" by (cases "io i") auto
  obtain err1 mq1 where r: "relay_line decode lp now writes flushes l mq = (err1, mq1)"
    by (cases "relay_line decode lp now writes flushes l mq")
  note d = relay_line_delivers [OF Cons.prems(1) r]
  show ?case
  proof (cases err1)
    case None
    then have "relay_lines decode lp io (i + 1) ls mq1 = (err, mq')" using Cons.prems(2) by (simp add: io r)
    moreover have "writes" using d None by simp
    then have d': "delivered decode q (ds @ [l]) mq1" using d by simp
    ultimately obtain k where "k \<le> length ls" "delivered decode q ((ds @ [l]) @ take k ls) mq'"
      "err = None \<longrightarrow> k = length ls" using Cons.IH [OF d'] by blast
    then show ?thesis by (intro exI [of _ "Suc k"]) auto
  next
    case (Some e)
    then have "err = Some e" "mq' = mq1" using Cons.prems(2) by (simp_all add: io r)
    with d show ?thesis by (intro exI [of _ "if writes then 1 else 0"]) auto
  qed
qed auto

text \<open>
  C16. A stream is copied byte for byte, and metered by exactly what was delivered. What the friend receives
  after the head is a prefix of the engine's bytes, and all of them when the relay ends without an error; every error makes
  the request Cut. The tokens on the event are the last usage among the delivered chunks, and without one the prompt's
  own count and one token for each delivered chunk that carried text, reasoning or tool arguments: stopping early
  is not free, and chunks that were never delivered are not charged.
\<close>

theorem stream_verbatim_and_metered:
  assumes "pipe_stream decode lp idle io gone resp q = (err, q')"
  shows "\<exists>ds. wr_body (rq_writer q') = wr_body (rq_writer (if rq_wrote_header q then q else stream_head q)) @ map PText ds
     \<and> (\<exists>rest. er_body resp = concat ds @ rest) \<and> (err = None \<longrightarrow> er_body resp = concat ds \<and> er_end resp = StreamEof)
     \<and> rq_outcome q' = (if err = None then rq_outcome q else OutcomeCut)
     \<and> (ev_prompt_tokens (rq_ev q'), ev_completion_tokens (rq_ev q')) =
         stream_tokens (ev_prompt_tokens (rq_ev q)) (List.map_filter (line_chunk decode) ds)"
proof -
  define h where "h = (if \<not> rq_wrote_header q then stream_head q else q)"
  have h: "ev_prompt_tokens (rq_ev h) = ev_prompt_tokens (rq_ev q)" "rq_outcome h = rq_outcome q"
    "h = (if rq_wrote_header q then q else stream_head q)"
    by (simp_all add: h_def stream_head_def write_header_def Let_def)
  obtain ls rest where sl: "stream_lines [] (er_body resp) = (ls, rest)" by (cases "stream_lines [] (er_body resp)")
  have body: "er_body resp = concat ls @ rest" using stream_lines_concat [OF sl] by simp
  obtain err1 mq1 where r: "relay_lines decode lp io 0 ls (new_meter, h) = (err1, mq1)"
    by (cases "relay_lines decode lp io 0 ls (new_meter, h)")
  have d0: "delivered decode h [] (new_meter, h)"
    by (simp add: delivered_def metered_def new_meter_def working_chunks_def last_usage_def List.map_filter_def)
  obtain k where k: "k \<le> length ls" "delivered decode h (take k ls) mq1" "err1 = None \<longrightarrow> k = length ls"
    using relay_lines_delivers [OF d0 r] by auto
  obtain m2 q2 where p: "(case err1 of Some e \<Rightarrow> (Some e, mq1)
      | None \<Rightarrow> relay_end decode lp gone idle (io (length ls)) rest (er_end resp) mq1) = (err, m2, q2)"
    and q': "q' = (if err \<noteq> None then q2\<lparr>rq_outcome := OutcomeCut\<rparr> else q2)\<lparr>rq_ev := meter_finish lp m2 (rq_ev q2)\<rparr>"
    using assms unfolding pipe_stream_def h_def [symmetric] by (auto simp: sl r Let_def split: prod.splits if_splits)
  have "\<exists>ds. delivered decode h ds (m2, q2) \<and> (\<exists>x. er_body resp = concat ds @ x)
      \<and> (err = None \<longrightarrow> er_body resp = concat ds \<and> er_end resp = StreamEof)"
  proof (cases err1)
    case (Some e)
    then have "err = Some e" "mq1 = (m2, q2)" using p by simp_all
    moreover have "er_body resp = concat (take k ls) @ concat (drop k ls) @ rest"
      unfolding body by (metis append.assoc append_take_drop_id concat_append)
    ultimately show ?thesis using k by auto
  next
    case None
    then have full: "delivered decode h ls mq1" using k by simp
    obtain now writes flushes where io: "io (length ls) = (now, writes, flushes)" by (cases "io (length ls)") auto
    have e: "relay_end decode lp gone idle (now, writes, flushes) rest (er_end resp) mq1 = (err, m2, q2)"
      using p None io by simp
    show ?thesis
    proof (cases "rest = []")
      case True
      then show ?thesis using full body e by (auto simp: relay_end_def split: stream_end.splits)
    next
      case False
      obtain err3 mq3 where r3: "relay_line decode lp now writes flushes rest mq1 = (err3, mq3)"
        by (cases "relay_line decode lp now writes flushes rest mq1")
      have m3: "mq3 = (m2, q2)" and e3: "err = None \<longrightarrow> err3 = None \<and> er_end resp = StreamEof"
        using e False r3 by (auto simp: relay_end_def split: option.splits stream_end.splits)
      note d3 = relay_line_delivers [OF full r3]
      show ?thesis
      proof (cases writes)
        case True
        then show ?thesis using d3 m3 e3 body by (intro exI [of _ "ls @ [rest]"]) auto
      next
        case False
        then show ?thesis using d3 m3 e3 body by (intro exI [of _ ls]) auto
      qed
    qed
  qed
  then obtain ds where ds: "delivered decode h ds (m2, q2)" "\<exists>x. er_body resp = concat ds @ x"
    "err = None \<longrightarrow> er_body resp = concat ds \<and> er_end resp = StreamEof" by blast
  have "(ev_prompt_tokens (rq_ev q'), ev_completion_tokens (rq_ev q')) =
      stream_tokens (ev_prompt_tokens (rq_ev q)) (List.map_filter (line_chunk decode) ds)"
  proof -
    have "metered (ev_prompt_tokens (rq_ev q)) (ev_completion_tokens (rq_ev h)) (List.map_filter (line_chunk decode) ds) m2 (rq_ev q2)"
      using ds(1) h(1) by (simp add: delivered_def)
    from metered_finish [OF this, of lp] show ?thesis by (simp add: q')
  qed
  then show ?thesis using ds h by (intro exI [of _ ds]) (simp add: q' delivered_def)
qed

definition sample_response :: engine_response where
  "sample_response = \<lparr>er_status = 200, er_content_type = [], er_body = ''hi'' @ [CHR 0x0A], er_end = StreamEof\<rparr>"

definition sample_request :: request where
  "sample_request = new_request 5 (new_router \<lparr>cf_embed = False, cf_images = False, cf_image_model = [], cf_transcribe = False,
     cf_transcribe_model = [], cf_speech = False, cf_speech_model = [], cf_models_pinned = [], cf_log_prompts = False\<rparr>)
     ''POST'' chat_endpoint"

lemma sample_stream:
  "fst (pipe_stream (\<lambda>_. None) False [] (\<lambda>_. (7, True, True)) False sample_response sample_request) = None"
  by (simp add: pipe_stream_def sample_response_def relay_line_def trim_line_end_def line_chunk_def cut_prefix_def has_prefix_def
      relay_end_def Let_def split: prod.splits)

theorem stream_verbatim_and_metered_witness:
  "\<exists>ds q'. pipe_stream (\<lambda>_. None) False [] (\<lambda>_. (7, True, True)) False sample_response sample_request = (None, q')
      \<and> concat ds = ''hi'' @ [CHR 0x0A]
      \<and> wr_body (rq_writer q') = wr_body (rq_writer (if rq_wrote_header sample_request then sample_request else stream_head sample_request)) @ map PText ds"
proof -
  obtain q' where e: "pipe_stream (\<lambda>_. None) False [] (\<lambda>_. (7, True, True)) False sample_response sample_request = (None, q')"
    using sample_stream by (metis prod.collapse)
  from stream_verbatim_and_metered [OF e] show ?thesis using e by (auto simp: sample_response_def)
qed

text \<open>A whole response: verbatim, with the usage it reports; unreadable, it is the engine's failure or the friend's.\<close>

lemma pipe_body_spec:
  assumes "pipe_body decode lp idle t gone resp q = (err, q')"
  shows "case err of
      None \<Rightarrow> \<exists>b u cs. decode b = Some (u, cs) \<and> b = fst (read_limited max_upstream_body resp) \<and> rq_outcome q' = rq_outcome q
         \<and> wr_body (rq_writer q') = wr_body (rq_writer q) @ [PText b]
         \<and> ev_prompt_tokens (rq_ev q') = (case u of Some x \<Rightarrow> ut_prompt_tokens x | None \<Rightarrow> ev_prompt_tokens (rq_ev q))
         \<and> ev_completion_tokens (rq_ev q') = (case u of Some x \<Rightarrow> ut_completion_tokens x | None \<Rightarrow> ev_completion_tokens (rq_ev q))
    | Some e \<Rightarrow> rq_outcome q' \<in> {OutcomeCut, OutcomeEngineErr} \<and> (rq_outcome q' = OutcomeCut \<longrightarrow> gone) \<and> rq_writer q' = rq_writer q"
proof -
  obtain b failed where r: "read_limited max_upstream_body resp = (b, failed)" by (cases "read_limited max_upstream_body resp")
  show ?thesis
  proof (cases "failed = None \<and> decode b \<noteq> None")
    case True
    then obtain u cs where "decode b = Some (u, cs)" by auto
    with True assms show ?thesis
      by (auto simp: pipe_body_def r Let_def apply_usage_def write_header_def split: option.splits)
  next
    case False
    then show ?thesis using assms by (auto simp: pipe_body_def r split: option.splits if_splits)
  qed
qed

end
