(* ===== verification/Pipeline.thy ===== *)
theory Pipeline
  imports Relay
begin

text \<open>
  The text pipeline of internal/gateway/request.go: authentication, the stages a proxied request goes through
  in their order, the route switch, and the handler that always leaves through \<open>finish\<close>. Everything outside the gateway
  is read from an environment: the friend's headers and body, the clock, the key store, the engine, the run
  manager, and what other requests do to the shared state between this request's steps.
\<close>

section \<open>The environment of one request\<close>

text \<open>How the body arrives: whole, over the cap, past the read deadline, or with another error.\<close>

datatype body_read = BodyRead string | BodyTooLarge | BodyDeadline | BodyFailed string

text \<open>
  \<open>Engine.Do\<close>: an error, or a response. The first flag is whether the request had been written when it returned
  (the trace's \<open>WroteRequest\<close>), the second whether the error is a timeout.
\<close>

datatype engine_reply = EngineFailed bool bool | EngineReplied bool engine_response

text \<open>\<open>Managed[id].Acquire\<close>: not a managed member, a lease, or an error.\<close>

datatype managed_reply = NotManaged | Leased | LeaseFailed string

text \<open>
  The clock is read at named points. \<open>en_between i\<close> is what the other requests do before step \<open>i\<close> of this one,
  \<open>en_while_waiting\<close> what they do while it waits for a slot, and \<open>en_wait\<close> what that wait sees; a list that does not
  end the wait is followed by its timer. \<open>en_joined\<close> is the error of the first word to a waiting stream, and
  \<open>en_acquired\<close> whether the hook of a run's attempt (\<open>onAcquired\<close>) lets it go on; a plain request has no hook.
  \<open>en_hand_off\<close> is the run manager's answer to a chat with host tools (chat_run.go), and \<open>en_translate\<close>,
  \<open>en_fail_responses\<close> and \<open>en_pipe_responses\<close> are the Responses adapter (responses.go, responses_stream.go).
\<close>

record env =
  en_auth :: string
  en_lookup :: "string \<Rightarrow> string + key option"
  en_peer :: "string option"
  en_touch_t :: gotime
  en_session_t :: gotime
  en_admit_t :: gotime
  en_reserve_t :: gotime
  en_settle_t :: gotime
  en_end_t :: gotime
  en_first_t :: gotime
  en_queued_ms :: int
  en_infos :: "string \<Rightarrow> engine_info"
  en_managed :: "string \<Rightarrow> managed_reply"
  en_content_length :: int
  en_body :: body_read
  en_decode :: "string \<Rightarrow> jobject option"
  en_host_tools :: "string list"
  en_hand_off :: "string list \<Rightarrow> jobject \<Rightarrow> gw_error option"
  en_translate :: "jobject \<Rightarrow> gw_error + jobject"
  en_fail_responses :: "gw_error \<Rightarrow> request \<Rightarrow> request"
  en_pipe_responses :: "engine_response \<Rightarrow> request \<Rightarrow> gw_error option \<times> request"
  en_count :: "string \<Rightarrow> string \<Rightarrow> json option \<Rightarrow> int option"
  en_joined :: "string option"
  en_wait :: "wait_event list"
  en_acquired :: bool
  en_engine :: engine_reply
  en_decode_error :: "string \<Rightarrow> ((string \<times> string) \<times> nested_error) option"
  en_decode_reply :: "string \<Rightarrow> (usage_t option \<times> string list) option"
  en_decode_chunk :: "string \<Rightarrow> sse_chunk option"
  en_io :: friend_io
  en_gone_engine :: bool
  en_gone_relay :: bool
  en_gone_fail :: bool
  en_gone_finish :: bool
  en_encoded_length :: "json \<Rightarrow> nat"
  en_between :: "nat \<Rightarrow> gateway \<Rightarrow> gateway"
  en_while_waiting :: "gateway \<Rightarrow> gateway"

text \<open>What the host configured; the durations are the printed ones.\<close>

record host =
  hs_router :: router
  hs_log_prompts :: bool
  hs_max_body :: int
  hs_read_timeout :: string
  hs_queue_timeout :: string
  hs_idle_timeout :: string
  hs_backoff_base :: duration
  hs_runs :: bool

type_synonym stage = "request \<times> gateway \<Rightarrow> gw_error option \<times> request \<times> gateway"

section \<open>Authentication\<close>

definition see_request :: "env \<Rightarrow> string \<Rightarrow> gateway \<Rightarrow> gateway" where
  "see_request en kid g =
     g\<lparr>gw_limiter := touch (en_touch_t en) kid (gw_limiter g),
       gw_sessions := see_session (en_session_t en) (en_peer en) kid (gw_sessions g)\<rparr>"

definition authenticate_request :: "env \<Rightarrow> stage" where
  "authenticate_request en = (\<lambda>(q, g).
     case bearer (en_auth en) of
       None \<Rightarrow> (Some (errf CodeInvalidKey 0
                  ''missing or malformed Authorization header; expected: Bearer <invite secret>'' []), q\<lparr>rq_no_event := True\<rparr>, g)
     | Some secret \<Rightarrow>
         (case en_lookup en secret of
            Inl e \<Rightarrow> (Some (errf CodeUpstreamDown 1 ''the host's key store is unavailable; try again'' []), q, g)
          | Inr None \<Rightarrow> (Some (errf CodeInvalidKey 0 ''unknown key; check the invite'' []), q\<lparr>rq_no_event := True\<rparr>, g)
          | Inr (Some k) \<Rightarrow>
              (let q = q\<lparr>rq_key := Some k, rq_ev := (rq_ev q)\<lparr>ev_key_id := k_id k\<rparr>\<rparr>;
                   g = see_request en (k_id k) g
               in case k_status k of
                    Active \<Rightarrow> (None, q, g)
                  | Revoked \<Rightarrow> (Some (errf CodeKeyRevoked 0 ''this key has been revoked by the host'' []), q, g)
                  | _ \<Rightarrow> (Some (errf CodeKeyPaused 0 ''this key is paused by the host'' []), q, g))))"

section \<open>The stages\<close>

text \<open>
  The key is on the record from here on. A code path that dereferences a nil key or destination would panic; the
  stages return unchanged there, and \<open>serve\<close> never reaches them without both.
\<close>

definition admit_key :: "env \<Rightarrow> stage" where
  "admit_key en = (\<lambda>(q, g).
     case (rq_adm q, rq_key q) of
       (None, Some k) \<Rightarrow>
         (case admit (en_admit_t en) (k_id k) (k_limits k) (gw_limiter g) of
            (Inl e, l) \<Rightarrow> (Some e, q, g\<lparr>gw_limiter := l\<rparr>)
          | (Inr a, l) \<Rightarrow> (None, q\<lparr>rq_adm := Some a\<rparr>, g\<lparr>gw_limiter := l\<rparr>))
     | _ \<Rightarrow> (None, q, g))"

definition admit_image_key :: "stage" where
  "admit_image_key = (\<lambda>(q, g).
     case (rq_adm q, rq_key q) of
       (None, Some k) \<Rightarrow> (None, q\<lparr>rq_adm := Some (image_key_admission (k_id k))\<rparr>, g)
     | _ \<Rightarrow> (None, q, g))"

definition prepare_managed :: "env \<Rightarrow> stage" where
  "prepare_managed en = (\<lambda>(q, g).
     case rq_destination q of
       None \<Rightarrow> (None, q, g)
     | Some d \<Rightarrow>
         (case en_managed en (ds_id d) of
            NotManaged \<Rightarrow> (None, q, g)
          | m \<Rightarrow>
              (case (if rq_kind q = images_endpoint then admit_image_key else admit_key en) (q, g) of
                 (Some e, q, g) \<Rightarrow> (Some e, q, g)
               | (None, q, g) \<Rightarrow>
                   (case m of
                      LeaseFailed msg \<Rightarrow> (Some (errf CodeUpstreamDown 3 ''member unavailable: %v'' [FStr msg]), q, g)
                    | _ \<Rightarrow> (None, q\<lparr>rq_lease := Some (ds_id d)\<rparr>,
                            g\<lparr>gw_leases := (gw_leases g)(ds_id d := gw_leases g (ds_id d) + 1)\<rparr>)))))"

definition check_health :: "env \<Rightarrow> stage" where
  "check_health en = (\<lambda>(q, g).
     case rq_destination q of
       None \<Rightarrow> (None, q, g)
     | Some d \<Rightarrow>
         if \<not> ei_healthy (en_infos en (ds_id d)) then
           (Some (errf CodeUpstreamDown retry_after_upstream_down ''the host's engine is not reachable right now'' []), q, g)
         else (None, q, g))"

definition read_body :: "host \<Rightarrow> env \<Rightarrow> stage" where
  "read_body hs en = (\<lambda>(q, g).
     if en_content_length en > hs_max_body hs then
       (Some (errf CodeBodyTooLarge 0 ''request body is %d bytes; the limit is %d''
          [FInt (en_content_length en), FInt (hs_max_body hs)]), q, g)
     else
       (let q = q\<lparr>rq_buffered := True\<rparr>; g = g\<lparr>gw_bodies := gw_bodies g + 1\<rparr> in
        case en_body en of
          BodyTooLarge \<Rightarrow>
            (Some (errf CodeBodyTooLarge 0 ''request body exceeds the limit of %d bytes'' [FInt (hs_max_body hs)]), q, g)
        | BodyDeadline \<Rightarrow>
            (Some (errf CodeInvalidRequest 0 ''request body was not received within %s'' [FStr (hs_read_timeout hs)]),
             q\<lparr>rq_stalled := True\<rparr>, g)
        | BodyFailed msg \<Rightarrow> (Some (errf CodeInvalidRequest 0 ''reading request body: %v'' [FStr msg]), q, g)
        | BodyRead raw \<Rightarrow>
            (case en_decode en raw of
               None \<Rightarrow> (Some (errf CodeInvalidRequest 0 ''request body must be a JSON object'' []), q, g)
             | Some m \<Rightarrow> (None, q\<lparr>rq_n := (rq_n q)\<lparr>n_body := m\<rparr>\<rparr>, g))))"

text \<open>
  \<open>routeHostTools\<close>: the tools asked for that this key is offered. When there are any, the chat becomes a durable
  run; \<open>en_hand_off\<close> is everything from there to the run's identifier.
\<close>

definition selected_tools :: "env \<Rightarrow> jobject \<Rightarrow> string list" where
  "selected_tools en body =
     filter (\<lambda>n. n \<in> set (en_host_tools en)) (map (\<lambda>t. as_string (Some t)) (as_array (jget body ''host_tools'')))"

definition route_host_tools :: "host \<Rightarrow> env \<Rightarrow> stage" where
  "route_host_tools hs en = (\<lambda>(q, g).
     if rq_path q \<noteq> chat_endpoint then (None, q, g)
     else
       (case asks_host_tools (n_body (rq_n q)) of
          Inl e \<Rightarrow> (Some e, q, g)
        | Inr enabled \<Rightarrow>
            (let selected = selected_tools en (n_body (rq_n q));
                 q = q\<lparr>rq_n := (rq_n q)\<lparr>n_body := jdel ''host_tools'' (n_body (rq_n q))\<rparr>\<rparr>
             in if \<not> enabled \<or> selected = [] then (None, q, g)
                else if \<not> hs_runs hs then (Some (errf CodeNotFound 0 ''chat runs unavailable'' []), q, g)
                else (case en_hand_off en selected (n_body (rq_n q)) of
                    Some e \<Rightarrow> (Some e, q, g)
                  | None \<Rightarrow> (None, q\<lparr>rq_ev := (rq_ev q)\<lparr>ev_code := run_handoff, ev_status := 202\<rparr>, rq_handed_off := True\<rparr>, g)))))"

definition model_pins :: "host \<Rightarrow> request \<Rightarrow> string list" where
  "model_pins hs q =
     (case rq_destination q of
        Some d \<Rightarrow> if ds_id d \<noteq> ds_id (rt_text (hs_router hs)) then [] else rt_pinned (hs_router hs)
      | None \<Rightarrow> [])"

definition resolve_destination :: "host \<Rightarrow> string \<Rightarrow> request \<Rightarrow> gw_error option \<times> request" where
  "resolve_destination hs model q =
     (case rq_key q of
        None \<Rightarrow> (None, q)
      | Some k \<Rightarrow>
          (case resolve (hs_router hs) k (rq_kind q) model of
             Inl e \<Rightarrow> (Some e, q)
           | Inr d \<Rightarrow> (None, q\<lparr>rq_destination := Some d, rq_ev := (rq_ev q)\<lparr>ev_destination := ds_id d\<rparr>\<rparr>)))"

definition normalize_request :: "host \<Rightarrow> env \<Rightarrow> stage" where
  "normalize_request hs en = (\<lambda>(q, g).
     case (if rq_path q = responses_endpoint then en_translate en (n_body (rq_n q)) else Inr (n_body (rq_n q))) of
       Inl e \<Rightarrow> (Some e, q, g)
     | Inr body \<Rightarrow>
         (let q = q\<lparr>rq_n := (rq_n q)\<lparr>n_body := body\<rparr>, rq_responses := (rq_path q = responses_endpoint)\<rparr> in
          case (rq_key q, rq_destination q) of
            (Some k, Some d) \<Rightarrow>
              (case normalize (rq_kind q) body k (ei_models (en_infos en (ds_id d))) (model_pins hs q) of
                 Inl e \<Rightarrow> (Some e, q, g)
               | Inr n \<Rightarrow>
                   (case resolve_destination hs (n_model n) q of
                      (Some e, q) \<Rightarrow> (Some e, q, g)
                    | (None, q) \<Rightarrow>
                        (let ev = (rq_ev q)\<lparr>ev_model := n_model n, ev_stream := n_stream n\<rparr>;
                             ev = (if hs_log_prompts hs then ev\<lparr>ev_prompt := n_text n\<rparr> else ev)
                         in (None, q\<lparr>rq_n := n, rq_ev := ev\<rparr>, g))))
          | _ \<Rightarrow> (None, q, g)))"

definition count_tokens :: "env \<Rightarrow> request \<Rightarrow> int" where
  "count_tokens en q =
     (let n = rq_n q in
      if n_text n = [] then 0
      else case en_count en (n_model n) (n_text n) (n_messages n) of
             Some c \<Rightarrow> c
           | None \<Rightarrow> estimate_tokens (n_text n) + template_allowance (n_messages n))"

definition count_request :: "env \<Rightarrow> stage" where
  "count_request en = (\<lambda>(q, g).
     let p = count_tokens en q in (None, q\<lparr>rq_prompt := p, rq_ev := (rq_ev q)\<lparr>ev_prompt_tokens := p\<rparr>\<rparr>, g))"

definition check_budgets :: "env \<Rightarrow> stage" where
  "check_budgets en = (\<lambda>(q, g).
     case (rq_key q, rq_destination q, rq_adm q) of
       (Some k, Some d, Some a) \<Rightarrow>
         (case fit_context (en_infos en (ds_id d)) (k_limits k) (rq_prompt q) (rq_n q) of
            (Some e, n) \<Rightarrow> (Some e, q\<lparr>rq_n := n\<rparr>, g)
          | (None, n) \<Rightarrow>
              (let out = (if rq_kind q = chat_endpoint \<and> n_max_tok n = 0 then - 1 else n_max_tok n) in
               case reserve (en_reserve_t en) (k_limits k) (rq_prompt q) out a (gw_limiter g) of
                 (Inl e, a, l) \<Rightarrow> (Some e, q\<lparr>rq_n := n, rq_adm := Some a\<rparr>, g\<lparr>gw_limiter := l\<rparr>)
               | (Inr fitted, a, l) \<Rightarrow>
                   (None,
                    q\<lparr>rq_n := (if fitted > 0 \<and> fitted \<noteq> n_max_tok n then set_max_tok fitted n else n), rq_adm := Some a\<rparr>,
                    g\<lparr>gw_limiter := l\<rparr>)))
     | _ \<Rightarrow> (None, q, g))"

text \<open>The words a waiting stream is sent: one on joining, one for every tick until the wait ends.\<close>

fun tick_writes :: "wait_event list \<Rightarrow> string option list" where
  "tick_writes (Tick None # es) = None # tick_writes es"
| "tick_writes (Tick (Some e) # es) = [Some e]"
| "tick_writes _ = []"

definition is_tick :: "wait_event \<Rightarrow> bool" where
  "is_tick e = (case e of Tick r \<Rightarrow> True | _ \<Rightarrow> False)"

definition waiting_words :: "env \<Rightarrow> request \<Rightarrow> request" where
  "waiting_words en q =
     (if \<not> n_stream (rq_n q) then q
      else let words = en_joined en # (if en_joined en = None then tick_writes (en_wait en) else [])
           in fold (\<lambda>r q. snd (queued r q)) words q)"

definition wait_result :: "host \<Rightarrow> env \<Rightarrow> request \<Rightarrow> gw_error option" where
  "wait_result hs en q =
     (let stream = n_stream (rq_n q);
          es = (if stream then en_wait en else filter (\<lambda>e. \<not> is_tick e) (en_wait en))
      in case wait_slot (if stream then Some (en_joined en) else None) (hs_queue_timeout hs) (es @ [WaitTimeout]) of
           Some r \<Rightarrow> r | None \<Rightarrow> None)"

definition set_queue :: "string \<Rightarrow> slot_queue \<Rightarrow> gateway \<Rightarrow> gateway" where
  "set_queue i sq g = g\<lparr>gw_queues := (gw_queues g)(i := sq)\<rparr>"

definition take_slot :: "env \<Rightarrow> stage" where
  "take_slot en = (\<lambda>(q, g).
     let q = q\<lparr>rq_slot := True\<rparr> in
     if en_acquired en then (None, q, g)
     else (Some (errf CodeClientClosed 0 ''run stopped before dispatch'' []), q\<lparr>rq_outcome := OutcomeQueueLost\<rparr>, g))"

definition wait_for_slot :: "host \<Rightarrow> env \<Rightarrow> destination \<Rightarrow> nat \<Rightarrow> stage" where
  "wait_for_slot hs en d w = (\<lambda>(q, g).
     let err = wait_result hs en q;
         q = (waiting_words en q);
         q = q\<lparr>rq_ev := (rq_ev q)\<lparr>ev_queued_ms := en_queued_ms en\<rparr>\<rparr>;
         g = en_while_waiting en g;
         (out, err, sq) = acquire_finish (queue_cap d (en_infos en (ds_id d))) w err (gw_queues g (ds_id d));
         g = set_queue (ds_id d) sq g
     in case err of
          Some e \<Rightarrow> (Some e, q\<lparr>rq_outcome := out\<rparr>, g)
        | None \<Rightarrow> take_slot en (q, g))"

definition acquire_slot :: "host \<Rightarrow> env \<Rightarrow> stage" where
  "acquire_slot hs en = (\<lambda>(q, g).
     case rq_destination q of
       None \<Rightarrow> (None, q, g)
     | Some d \<Rightarrow>
         (let (r, sq) = acquire_enter (queue_cap d (en_infos en (ds_id d))) (gw_queues g (ds_id d));
              g = set_queue (ds_id d) sq g
          in case r of
               EnteredAtOnce \<Rightarrow> take_slot en (q\<lparr>rq_ev := (rq_ev q)\<lparr>ev_queued_ms := en_queued_ms en\<rparr>\<rparr>, g)
             | EnteredFull e \<Rightarrow>
                 (Some e, q\<lparr>rq_ev := (rq_ev q)\<lparr>ev_queued_ms := en_queued_ms en\<rparr>, rq_outcome := OutcomeRejected\<rparr>, g)
             | EnteredWaiting w \<Rightarrow> wait_for_slot hs en d w (q, g)))"

definition call_upstream :: "host \<Rightarrow> env \<Rightarrow> stage" where
  "call_upstream hs en = (\<lambda>(q, g).
     case en_engine en of
       EngineFailed sent timed_out \<Rightarrow>
         (let q = q\<lparr>rq_dispatched := sent\<rparr> in
          if en_gone_engine en then
            (Some (errf CodeClientClosed 0 ''client went away'' []),
             q\<lparr>rq_outcome := (if sent then OutcomeCut else OutcomeQueueLost)\<rparr>, g)
          else (Some (upstream_err False False (hs_idle_timeout hs) timed_out), q\<lparr>rq_outcome := OutcomeEngineErr\<rparr>, g))
     | EngineReplied sent resp \<Rightarrow>
         (let q = q\<lparr>rq_dispatched := sent\<rparr> in
          if er_status resp div 100 \<noteq> 2 then
            (let (msg, typ) = upstream_message (en_decode_error en) (er_body resp);
                 info = (case rq_destination q of Some d \<Rightarrow> en_infos en (ds_id d) | None \<Rightarrow> en_infos en []);
                 lims = (case rq_key q of Some k \<Rightarrow> k_limits k | None \<Rightarrow> default_limits)
             in (Some (upstream_status_err msg typ (er_status resp) info lims (rq_prompt q) (rq_n q)),
                 q\<lparr>rq_outcome := OutcomeEngineErr\<rparr>, g))
          else (None, q, g)))"

definition relay_response :: "host \<Rightarrow> env \<Rightarrow> stage" where
  "relay_response hs en = (\<lambda>(q, g).
     case en_engine en of
       EngineFailed sent timed_out \<Rightarrow> (None, q, g)
     | EngineReplied sent resp \<Rightarrow>
         (let (err, q) =
            (if rq_responses q then en_pipe_responses en resp q
             else if n_stream (rq_n q) then
               pipe_stream (en_decode_chunk en) (hs_log_prompts hs) (hs_idle_timeout hs) (en_io en) (en_gone_relay en) resp q
             else
               pipe_body (en_decode_reply en) (hs_log_prompts hs) (hs_idle_timeout hs) (en_first_t en) (en_gone_relay en) resp q)
          in (err, q, g)))"

section \<open>The pipeline\<close>

text \<open>The first error ends it, and an outcome nobody set is a rejection; a chat handed to a run ends it too.\<close>

fun run_stages :: "env \<Rightarrow> nat \<Rightarrow> stage list \<Rightarrow> stage" where
  "run_stages en i [] s = (None, s)"
| "run_stages en i (stage # stages) (q, g) =
     (case stage (q, en_between en i g) of
        (Some e, q, g) \<Rightarrow> (Some e, if rq_outcome q = OutcomeNone then q\<lparr>rq_outcome := OutcomeRejected\<rparr> else q, g)
      | (None, q, g) \<Rightarrow> if rq_handed_off q then (None, q, g) else run_stages en (i + 1) stages (q, g))"

definition proxy_stages :: "host \<Rightarrow> env \<Rightarrow> stage list" where
  "proxy_stages hs en =
     [prepare_managed en, check_health en, admit_key en, read_body hs en, route_host_tools hs en,
      normalize_request hs en, count_request en, check_budgets en, acquire_slot hs en, call_upstream hs en,
      relay_response hs en]"

definition fail_request :: "env \<Rightarrow> gw_error \<Rightarrow> request \<Rightarrow> request" where
  "fail_request en e q = fst (fail (en_fail_responses en) (en_encoded_length en) (en_gone_fail en) e q)"

definition proxy :: "host \<Rightarrow> env \<Rightarrow> string \<Rightarrow> request \<times> gateway \<Rightarrow> request \<times> gateway" where
  "proxy hs en kind = (\<lambda>(q, g).
     case run_stages en 0 (proxy_stages hs en) (q\<lparr>rq_kind := kind\<rparr>, g) of
       (Some e, q, g) \<Rightarrow> (fail_request en e q, g)
     | (None, q, g) \<Rightarrow> (if rq_handed_off q then q else q\<lparr>rq_outcome := OutcomeServed\<rparr>, g))"

text \<open>
  \<open>models\<close>: \<open>listed\<close> is what the engine's list decodes to, an object per model. Only the ids the key allows are kept.
\<close>

definition models :: "host \<Rightarrow> env \<Rightarrow> (string \<Rightarrow> jobject list option) \<Rightarrow> request \<times> gateway \<Rightarrow> request \<times> gateway" where
  "models hs en decode_list = (\<lambda>(q, g).
     case admit_key en (q\<lparr>rq_kind := models_endpoint\<rparr>, g) of
       (Some e, q, g) \<Rightarrow> (fail_request en e q, g)
     | (None, q, g) \<Rightarrow>
         (let q = q\<lparr>rq_outcome := OutcomeEngineErr\<rparr> in
          case en_engine en of
            EngineFailed sent timed_out \<Rightarrow>
              (fail_request en (upstream_err (en_gone_engine en) False (hs_idle_timeout hs) timed_out) q, g)
          | EngineReplied sent resp \<Rightarrow>
              if er_status resp div 100 \<noteq> 2 then
                (fail_request en (errf CodeUpstreamError 0 ''upstream returned HTTP %d for /v1/models: %s''
                   [FInt (er_status resp), FStr (fst (upstream_message (en_decode_error en) (er_body resp)))]) q, g)
              else
                (case decode_list (take max_upstream_body (er_body resp)) of
                   None \<Rightarrow> (fail_request en (errf CodeUpstreamError 0 ''upstream returned an unparseable model list'' []) q, g)
                 | Some ms \<Rightarrow>
                     (let allowed = (case rq_key q of
                            Some k \<Rightarrow> filter (\<lambda>m. allows_model k (rt_pinned (hs_router hs)) (as_string (jget m ''id''))) ms
                          | None \<Rightarrow> [])
                      in (write_json (en_encoded_length en)
                            (JObj [(''object'', JStr ''list''), (''data'', JArr (map JObj allowed))])
                            (q\<lparr>rq_outcome := OutcomeServed\<rparr>), g)))))"

text \<open>The route switch of \<open>serve\<close>.\<close>

datatype served_route =
    RouteImage | RouteRun | RouteMe | RouteModels | RouteAudio string | RouteUpgrade | RouteProxy string | RouteNone

definition route_of :: "string \<Rightarrow> string \<Rightarrow> string \<Rightarrow> bool \<Rightarrow> served_route" where
  "route_of http_method p upgrade has_destination =
     (if is_image_route p then RouteImage
      else if is_run_route p then RouteRun
      else if http_method = ''GET'' \<and> p = ''/me'' then RouteMe
      else if http_method = ''GET'' \<and> p = models_endpoint then RouteModels
      else if http_method = ''POST'' \<and> p = transcribe_endpoint \<and> has_destination then RouteAudio transcribe_endpoint
      else if http_method = ''POST'' \<and> p = speech_endpoint \<and> has_destination then RouteAudio speech_endpoint
      else if p = responses_endpoint \<and> (http_method = ''POST'' \<or> upgrade \<noteq> []) then
        (if upgrade \<noteq> [] then RouteUpgrade else RouteProxy chat_endpoint)
      else if http_method = ''POST'' \<and> p = chat_endpoint then RouteProxy chat_endpoint
      else if http_method = ''POST'' \<and> p = embeddings_endpoint then RouteProxy embeddings_endpoint
      else RouteNone)"

text \<open>
  \<open>serve\<close>: the image, run, audio and \<open>/me\<close> handlers are the argument \<open>others\<close>.
\<close>

definition serve ::
    "host \<Rightarrow> env \<Rightarrow> (string \<Rightarrow> jobject list option) \<Rightarrow> string \<Rightarrow> (served_route \<Rightarrow> request \<times> gateway \<Rightarrow> request \<times> gateway)
     \<Rightarrow> request \<times> gateway \<Rightarrow> request \<times> gateway" where
  "serve hs en decode_list upgrade others s =
     (case authenticate_request en s of
        (Some e, q, g) \<Rightarrow> (fail_request en e q, g)
      | (None, q, g) \<Rightarrow>
          (case route_of (rq_method q) (rq_path q) upgrade (rq_destination q \<noteq> None) of
             RouteModels \<Rightarrow> models hs en decode_list (q, g)
           | RouteProxy kind \<Rightarrow> proxy hs en kind (q, g)
           | RouteUpgrade \<Rightarrow>
               (fail_request en (errf CodeInvalidRequest 0
                  ''Responses requires POST over HTTP; WebSockets are not supported'' []) q, g)
           | RouteNone \<Rightarrow>
               (fail_request en (errf CodeNotFound 0 ''no route for %s %s'' [FStr (rq_method q), FStr (rq_path q)]) q, g)
           | r \<Rightarrow> others r (q, g)))"

definition finish_request :: "host \<Rightarrow> env \<Rightarrow> request \<times> gateway \<Rightarrow> gateway" where
  "finish_request hs en = (\<lambda>(q, g).
     let cap = (case rq_destination q of Some d \<Rightarrow> queue_cap d (en_infos en (ds_id d)) | None \<Rightarrow> 0)
     in finish (hs_backoff_base hs) cap (en_settle_t en) (en_end_t en) (en_gone_finish en) q g)"

text \<open>\<open>serveHTTP\<close> for a request that is neither the console's nor a health check.\<close>

definition serve_http ::
    "host \<Rightarrow> env \<Rightarrow> (string \<Rightarrow> jobject list option) \<Rightarrow> string \<Rightarrow> (served_route \<Rightarrow> request \<times> gateway \<Rightarrow> request \<times> gateway)
     \<Rightarrow> gotime \<Rightarrow> string \<Rightarrow> string \<Rightarrow> gateway \<Rightarrow> request \<times> gateway" where
  "serve_http hs en decode_list upgrade others now http_method p g =
     (let (q, g) = serve hs en decode_list upgrade others (new_request now (hs_router hs) http_method p, g)
      in (q, finish_request hs en (q, en_between en 11 g)))"

end
