(* ===== verification/Pipeline_Safety.thy ===== *)
theory Pipeline_Safety
  imports Pipeline
begin

text \<open>
  What the request pipeline guarantees: every resource a request takes is given back by its one exit, whatever
  other requests do meanwhile; a request is recorded exactly once, or never when it showed no valid key; and
  only a request the engine was asked to work for is charged.
\<close>

section \<open>Resources taken and held\<close>

definition in_flight_of :: "gateway \<Rightarrow> string \<Rightarrow> int" where
  "in_flight_of g kid = ks_in_flight (key_state_of (gw_limiter g) kid)"

definition reserved_of :: "gateway \<Rightarrow> string \<Rightarrow> rat" where
  "reserved_of g kid = ms_reserved (meter ''tokens'' (key_state_of (gw_limiter g) kid))"

text \<open>The requests running on a destination: the slots given out, less those handed over and not yet picked up.\<close>

definition holders :: "slot_queue \<Rightarrow> int" where
  "holders sq = sq_in_flight sq - int (length (sq_handed sq))"

definition flight_held :: "request \<Rightarrow> string \<Rightarrow> int" where
  "flight_held q kid = (case rq_adm q of Some a \<Rightarrow> if ad_key a = kid \<and> \<not> ad_detached a then 1 else 0 | None \<Rightarrow> 0)"

definition reserved_held :: "request \<Rightarrow> string \<Rightarrow> rat" where
  "reserved_held q kid = (case rq_adm q of Some a \<Rightarrow> if ad_key a = kid then of_int (ad_reserved a) else 0 | None \<Rightarrow> 0)"

definition slot_held :: "request \<Rightarrow> string \<Rightarrow> int" where
  "slot_held q i = (if rq_slot q \<and> map_option ds_id (rq_destination q) = Some i then 1 else 0)"

definition lease_held :: "request \<Rightarrow> string \<Rightarrow> int" where
  "lease_held q i = (if rq_lease q = Some i then 1 else 0)"

definition body_held :: "request \<Rightarrow> int" where
  "body_held q = (if rq_buffered q then 1 else 0)"

text \<open>
  What the shared state holds beyond this request is the same before and after, but for \<open>dw\<close>: the slots others
  took or gave back meanwhile.
\<close>

definition balanced_by :: "(string \<Rightarrow> int) \<Rightarrow> request \<times> gateway \<Rightarrow> request \<times> gateway \<Rightarrow> bool" where
  "balanced_by dw s t \<longleftrightarrow>
     (\<forall>kid. in_flight_of (snd t) kid - flight_held (fst t) kid = in_flight_of (snd s) kid - flight_held (fst s) kid)
     \<and> (\<forall>kid. reserved_of (snd t) kid - reserved_held (fst t) kid = reserved_of (snd s) kid - reserved_held (fst s) kid)
     \<and> (\<forall>i. holders (gw_queues (snd t) i) - slot_held (fst t) i = holders (gw_queues (snd s) i) - slot_held (fst s) i + dw i)
     \<and> (\<forall>i. gw_leases (snd t) i - lease_held (fst t) i = gw_leases (snd s) i - lease_held (fst s) i)
     \<and> gw_bodies (snd t) - body_held (fst t) = gw_bodies (snd s) - body_held (fst s)
     \<and> gw_recorded (snd t) = gw_recorded (snd s)"

abbreviation in_balance :: "request \<times> gateway \<Rightarrow> request \<times> gateway \<Rightarrow> bool" where
  "in_balance \<equiv> balanced_by (\<lambda>_. 0)"

text \<open>
  The other requests as a whole give back what they take between two steps of this one, and their events are
  left aside; while this one waits for a slot, the running requests may become fewer or more by \<open>dw\<close> (a
  release that hands the slot over is one fewer).
\<close>

definition neutral :: "(string \<Rightarrow> int) \<Rightarrow> (gateway \<Rightarrow> gateway) \<Rightarrow> bool" where
  "neutral dw f \<longleftrightarrow> (\<forall>g. (\<forall>kid. in_flight_of (f g) kid = in_flight_of g kid) \<and> (\<forall>kid. reserved_of (f g) kid = reserved_of g kid)
     \<and> (\<forall>i. holders (gw_queues (f g) i) = holders (gw_queues g i) + dw i) \<and> (\<forall>i. gw_leases (f g) i = gw_leases g i)
     \<and> gw_bodies (f g) = gw_bodies g \<and> gw_recorded (f g) = gw_recorded g)"

lemma balanced_refl [simp]: "in_balance s s"
  by (simp add: balanced_by_def)

lemma balanced_trans: "in_balance s t \<Longrightarrow> in_balance t u \<Longrightarrow> in_balance s u"
  by (simp add: balanced_by_def)

lemma balanced_by_trans: "balanced_by d s t \<Longrightarrow> in_balance t u \<Longrightarrow> balanced_by d s u"
  by (simp add: balanced_by_def)

lemma balanced_trans_by: "in_balance s t \<Longrightarrow> balanced_by d t u \<Longrightarrow> balanced_by d s u"
  by (simp add: balanced_by_def)

lemma kept_then: "in_balance s t \<or> P \<and> balanced_by d s t \<Longrightarrow> in_balance t u \<Longrightarrow> in_balance s u \<or> P \<and> balanced_by d s u"
  using balanced_trans [of s t u] balanced_by_trans [of d s t u] by blast

lemma balanced_neutral: "neutral d f \<Longrightarrow> balanced_by d (q, g) (q, f g)"
  by (simp add: balanced_by_def neutral_def)

section \<open>The limiter's and the queue's share\<close>

lemma key_state_of_update [simp]: "key_state_of (l(k \<mapsto> st)) k' = (if k' = k then st else key_state_of l k')"
  by (simp add: key_state_of_def)

lemma admit_share:
  assumes "admit now kid lims l = (r, l')"
  shows "ks_in_flight (key_state_of l' k) = ks_in_flight (key_state_of l k) + (case r of Inr a \<Rightarrow> if k = kid then 1 else 0 | Inl e \<Rightarrow> 0)
     \<and> ms_reserved (meter ''tokens'' (key_state_of l' k)) = ms_reserved (meter ''tokens'' (key_state_of l k))
     \<and> (\<forall>a. r = Inr a \<longrightarrow> ad_key a = kid \<and> \<not> ad_detached a \<and> ad_reserved a = 0)"
proof -
  obtain r0 st where e: "key_admit now kid lims False (key_state_of l kid) = (r0, st)"
    by (cases "key_admit now kid lims False (key_state_of l kid)")
  have l': "l' = l(kid \<mapsto> st)" "r = r0" using assms by (simp_all add: admit_def admit_resource_def e)
  have st: "ks_in_flight st = ks_in_flight (key_state_of l kid) + (case r0 of Inr a \<Rightarrow> 1 | Inl e \<Rightarrow> 0)"
    "meter ''tokens'' st = meter ''tokens'' (prune now (key_state_of l kid))"
    "\<forall>a. r0 = Inr a \<longrightarrow> ad_key a = kid \<and> \<not> ad_detached a \<and> ad_reserved a = 0"
    using e by (auto simp: key_admit_def Let_def meter_def prune_def split: if_splits)
  show ?thesis unfolding l' using st by (auto split: sum.splits)
qed

lemma reserve_share:
  assumes "reserve now lims prompt out a l = (r, a', l')" and "ad_reserved a = 0"
  shows "ks_in_flight (key_state_of l' k) = ks_in_flight (key_state_of l k)
     \<and> ms_reserved (meter ''tokens'' (key_state_of l' k)) =
         ms_reserved (meter ''tokens'' (key_state_of l k)) + (if k = ad_key a then of_int (ad_reserved a') else 0)
     \<and> ad_key a' = ad_key a \<and> ad_detached a' = ad_detached a"
proof -
  obtain r0 a0 st where e: "key_reserve now lims prompt out a (key_state_of l (ad_key a)) = (r0, a0, st)"
    by (cases "key_reserve now lims prompt out a (key_state_of l (ad_key a))") auto
  have l': "l' = l(ad_key a \<mapsto> st)" "r = r0" "a' = a0" using assms(1) by (simp_all add: reserve_def e)
  have "ks_in_flight st = ks_in_flight (key_state_of l (ad_key a))
    \<and> ms_reserved (meter ''tokens'' st) = ms_reserved (meter ''tokens'' (key_state_of l (ad_key a))) + of_int (ad_reserved a0)
    \<and> ad_key a0 = ad_key a \<and> ad_detached a0 = ad_detached a"
    using e assms(2) by (auto simp: key_reserve_def Let_def split: prod.splits if_splits)
  then show ?thesis unfolding l' by simp
qed

lemma settle_share:
  assumes "settle now a counted charged l = (t, l')"
  shows "ks_in_flight (key_state_of l' k) = ks_in_flight (key_state_of l k) - (if k = ad_key a \<and> \<not> ad_detached a then 1 else 0)
     \<and> ms_reserved (meter ''tokens'' (key_state_of l' k)) =
         ms_reserved (meter ''tokens'' (key_state_of l k)) - (if k = ad_key a then of_int (ad_reserved a) else 0)"
proof -
  let ?st = "key_settle now a counted charged (key_state_of l (ad_key a))"
  have l': "l' = l(ad_key a \<mapsto> ?st)" using assms by (auto simp: settle_def)
  have "ks_in_flight ?st = ks_in_flight (key_state_of l (ad_key a)) - (if ad_detached a then 0 else 1)"
    "ms_reserved (meter ''tokens'' ?st) = ms_reserved (meter ''tokens'' (key_state_of l (ad_key a))) - of_int (ad_reserved a)"
    by (simp_all add: key_settle_def Let_def)
  then show ?thesis unfolding l' by simp
qed

lemma holders_fill [simp]: "holders (fill limit q) = holders q"
proof -
  obtain ts where "sq_handed (fill limit q) = sq_handed q @ ts" "sq_in_flight (fill limit q) = sq_in_flight q + int (length ts)"
    using fill_spec by metis
  then show ?thesis by (simp add: holders_def)
qed

lemma holders_release [simp]: "holders (release cap q) = holders q - 1"
  by (simp add: release_def) (simp add: holders_def)

lemma holders_enter:
  "acquire_enter cap q = (r, q') \<Longrightarrow> holders q' = holders q + (if r = EnteredAtOnce then 1 else 0)
     \<and> (\<forall>w. r = EnteredWaiting w \<longrightarrow> w \<in> set (sq_waiters q'))"
proof -
  assume a: "acquire_enter cap q = (r, q')"
  have f: "holders (fill (queue_limit cap) q) = holders q" by simp
  show ?thesis using a f unfolding holders_def by (auto simp: acquire_enter_def Let_def split: if_splits)
qed

lemma length_remove1_int: "w \<in> set xs \<Longrightarrow> int (length (remove1 w xs)) = int (length xs) - 1"
  using length_pos_if_in_set [of w xs] by (simp add: length_remove1 of_nat_diff Suc_leI)

lemma holders_finish:
  assumes "acquire_finish cap w err q = (out, err', q')"
    and "w \<in> set (sq_waiters q) \<union> set (sq_handed q)" and "err = None \<Longrightarrow> w \<in> set (sq_handed q)"
  shows "holders q' = holders q + (if err' = None then 1 else 0) \<and> err' = err
     \<and> out = (if err = None then OutcomeNone else OutcomeQueueLost)"
proof (cases err)
  case None
  then have h: "w \<in> set (sq_handed q)" using assms(3) by simp
  from length_remove1_int [OF h] show ?thesis using None assms(1) by (auto simp: acquire_finish_def pick_up_def holders_def)
next
  case (Some e)
  have "holders (give_up cap w q) = holders q"
  proof (cases "w \<in> set (sq_waiters q)")
    case True
    then show ?thesis by (simp add: give_up_def holders_def)
  next
    case False
    then have h: "w \<in> set (sq_handed q)" using assms(2) by simp
    from length_remove1_int [OF h] show ?thesis using False by (simp add: give_up_def) (simp add: holders_def)
  qed
  then show ?thesis using Some assms(1) by (auto simp: acquire_finish_def)
qed

section \<open>Stages\<close>

text \<open>What a stage may assume of the record when it is the \<open>i\<close>-th, and what it leaves.\<close>

definition plain :: "request \<Rightarrow> bool" where
  "plain q \<longleftrightarrow> rq_audio q = None \<and> rq_image q = None \<and> \<not> rq_reading q \<and> rq_destination q \<noteq> None"

definition phase :: "nat \<Rightarrow> request \<Rightarrow> bool" where
  "phase i q \<longleftrightarrow> plain q \<and> (i = 0 \<longrightarrow> rq_lease q = None) \<and> (i \<le> 3 \<longrightarrow> \<not> rq_buffered q)
     \<and> (i \<le> 7 \<longrightarrow> (\<forall>a. rq_adm q = Some a \<longrightarrow> ad_reserved a = 0)) \<and> (rq_slot q \<longleftrightarrow> 8 < i)
     \<and> (i \<le> 9 \<longrightarrow> rq_outcome q = OutcomeNone)"

text \<open>An outcome that can be charged is only ever set while a slot is held.\<close>

definition asked :: "request \<Rightarrow> bool" where
  "asked q \<longleftrightarrow> (rq_outcome q \<in> {OutcomeNone, OutcomeRejected, OutcomeQueueLost} \<or> rq_slot q)"

definition keeps :: "request \<Rightarrow> request \<Rightarrow> bool" where
  "keeps q q' \<longleftrightarrow> rq_key q' = rq_key q \<and> rq_no_event q' = rq_no_event q \<and> rq_start q' = rq_start q
     \<and> ev_endpoint (rq_ev q') = ev_endpoint (rq_ev q) \<and> ev_key_id (rq_ev q') = ev_key_id (rq_ev q)"

definition stage_ok :: "(string \<Rightarrow> int) \<Rightarrow> nat \<Rightarrow> stage \<Rightarrow> bool" where
  "stage_ok dw i st \<longleftrightarrow> (\<forall>q g err q' g'. phase i q \<longrightarrow> st (q, g) = (err, q', g') \<longrightarrow>
     (in_balance (q, g) (q', g') \<or> i = 8 \<and> balanced_by dw (q, g) (q', g')) \<and> plain q' \<and> asked q' \<and> keeps q q' \<and> (err = None \<longrightarrow> phase (i + 1) q'))"

text \<open>The resources of the record, which most of a stage's updates leave alone.\<close>

definition same_resources :: "request \<Rightarrow> request \<Rightarrow> bool" where
  "same_resources q q' \<longleftrightarrow> rq_adm q' = rq_adm q \<and> rq_slot q' = rq_slot q \<and> rq_destination q' = rq_destination q
     \<and> rq_lease q' = rq_lease q \<and> rq_buffered q' = rq_buffered q \<and> rq_audio q' = rq_audio q \<and> rq_image q' = rq_image q
     \<and> rq_reading q' = rq_reading q \<and> rq_outcome q' = rq_outcome q"

lemmas held_defs = flight_held_def reserved_held_def slot_held_def lease_held_def body_held_def
lemmas stage_defs = phase_def plain_def asked_def keeps_def

lemma same_balanced: "same_resources q q' \<Longrightarrow> in_balance (q, g) (q', g)"
  by (simp add: balanced_by_def same_resources_def held_defs)

lemma same_phase:
  "same_resources q q' \<Longrightarrow> phase i q' = phase i q \<and> plain q' = plain q \<and> asked q' = asked q"
  by (simp add: same_resources_def stage_defs)

lemma stage_same:
  assumes "phase i q" and "same_resources q q'" and "keeps q q'"
  shows "in_balance (q, g) (q', g) \<and> plain q' \<and> asked q' \<and> keeps q q'"
  using assms same_balanced [OF assms(2), of g] same_phase [OF assms(2), of i] by (auto simp: phase_def asked_def)

lemma stage_ok_I:
  assumes "\<And>q g err q' g'. phase i q \<Longrightarrow> st (q, g) = (err, q', g') \<Longrightarrow>
     in_balance (q, g) (q', g') \<and> plain q' \<and> asked q' \<and> keeps q q' \<and> (err = None \<longrightarrow> phase (i + 1) q')"
  shows "stage_ok dw i st"
  using assms unfolding stage_ok_def by blast

lemma admit_balanced:
  assumes "admit now (k_id k) (k_limits k) (gw_limiter g) = (r, l)" and "rq_adm q = None"
  shows "case r of Inl e \<Rightarrow> in_balance (q, g) (q, g\<lparr>gw_limiter := l\<rparr>)
    | Inr a \<Rightarrow> in_balance (q, g) (q\<lparr>rq_adm := Some a\<rparr>, g\<lparr>gw_limiter := l\<rparr>) \<and> ad_reserved a = 0"
proof -
  note s = admit_share [OF assms(1)]
  show ?thesis
  proof (cases r)
    case (Inl e)
    then show ?thesis using s assms(2) by (simp add: balanced_by_def held_defs in_flight_of_def reserved_of_def)
  next
    case (Inr a)
    then show ?thesis using s assms(2) by (simp add: balanced_by_def held_defs in_flight_of_def reserved_of_def)
  qed
qed

lemma admit_key_step:
  assumes "admit_key en (q, g) = (err, q', g')"
  shows "in_balance (q, g) (q', g') \<and> (\<exists>a. q' = q\<lparr>rq_adm := a\<rparr> \<and> (a = rq_adm q \<or> (\<exists>b. a = Some b \<and> ad_reserved b = 0)))"
proof (cases "rq_adm q = None \<and> rq_key q \<noteq> None")
  case True
  then obtain k where k: "rq_key q = Some k" "rq_adm q = None" by auto
  obtain r l where a: "admit (en_admit_t en) (k_id k) (k_limits k) (gw_limiter g) = (r, l)"
    by (cases "admit (en_admit_t en) (k_id k) (k_limits k) (gw_limiter g)")
  show ?thesis
  proof (cases r)
    case (Inl e)
    then have "q' = q" "g' = g\<lparr>gw_limiter := l\<rparr>" using assms by (simp_all add: admit_key_def k a)
    then show ?thesis using admit_balanced [OF a k(2)] Inl k by (intro conjI exI [of _ None]) simp_all
  next
    case (Inr b)
    then have "q' = q\<lparr>rq_adm := Some b\<rparr>" "g' = g\<lparr>gw_limiter := l\<rparr>" using assms by (simp_all add: admit_key_def k a)
    then show ?thesis using admit_balanced [OF a k(2)] Inr k by (intro conjI exI [of _ "Some b"]) simp_all
  qed
next
  case False
  then have "q' = q" "g' = g" using assms by (auto simp: admit_key_def split: option.splits)
  then show ?thesis by (intro conjI exI [of _ "rq_adm q"]) simp_all
qed

lemma admit_key_ok: "stage_ok dw 2 (admit_key en)"
proof (rule stage_ok_I)
  fix q g err q' g'
  assume p: "phase 2 q" and s: "admit_key en (q, g) = (err, q', g')"
  from admit_key_step [OF s] obtain a where b: "in_balance (q, g) (q', g')" and a: "q' = q\<lparr>rq_adm := a\<rparr>"
    "a = rq_adm q \<or> (\<exists>b. a = Some b \<and> ad_reserved b = 0)" by blast
  then show "in_balance (q, g) (q', g') \<and> plain q' \<and> asked q' \<and> keeps q q' \<and> (err = None \<longrightarrow> phase (2 + 1) q')"
    using p by (auto simp: stage_defs)
qed

lemma image_key_step:
  assumes "admit_image_key (q, g) = (err, q', g')"
  shows "in_balance (q, g) (q', g') \<and> (\<exists>a. q' = q\<lparr>rq_adm := a\<rparr> \<and> (a = rq_adm q \<or> (\<exists>b. a = Some b \<and> ad_reserved b = 0)))"
proof (cases "rq_adm q = None \<and> rq_key q \<noteq> None")
  case True
  then obtain k where k: "rq_key q = Some k" "rq_adm q = None" by auto
  then have "q' = q\<lparr>rq_adm := Some (image_key_admission (k_id k))\<rparr>" "g' = g" using assms by (simp_all add: admit_image_key_def)
  then show ?thesis using k
    by (intro conjI exI [of _ "Some (image_key_admission (k_id k))"]) (simp_all add: balanced_by_def held_defs image_key_admission_def)
next
  case False
  then have "q' = q" "g' = g" using assms by (auto simp: admit_image_key_def split: option.splits)
  then show ?thesis by (intro conjI exI [of _ "rq_adm q"]) simp_all
qed

lemma lease_balanced:
  "rq_lease q = None \<Longrightarrow>
   in_balance (q, g) (q\<lparr>rq_lease := Some i\<rparr>, g\<lparr>gw_leases := (gw_leases g)(i := gw_leases g i + 1)\<rparr>)"
  by (simp add: balanced_by_def held_defs in_flight_of_def reserved_of_def)

lemma prepare_managed_ok: "stage_ok dw 0 (prepare_managed en)"
proof (rule stage_ok_I)
  fix q g err q' g'
  assume p: "phase 0 q" and s: "prepare_managed en (q, g) = (err, q', g')"
  obtain d where d: "rq_destination q = Some d" using p by (auto simp: stage_defs)
  show "in_balance (q, g) (q', g') \<and> plain q' \<and> asked q' \<and> keeps q q' \<and> (err = None \<longrightarrow> phase (0 + 1) q')"
  proof (cases "en_managed en (ds_id d) = NotManaged")
    case True
    then have "q' = q" "g' = g" using s by (simp_all add: prepare_managed_def d)
    then show ?thesis using p by (auto simp: stage_defs)
  next
    case False
    obtain e1 q1 g1 where a: "(if rq_kind q = images_endpoint then admit_image_key else admit_key en) (q, g) = (e1, q1, g1)"
      by (cases "(if rq_kind q = images_endpoint then admit_image_key else admit_key en) (q, g)") auto
    obtain x where b: "in_balance (q, g) (q1, g1)" and q1: "q1 = q\<lparr>rq_adm := x\<rparr>"
      "x = rq_adm q \<or> (\<exists>b. x = Some b \<and> ad_reserved b = 0)"
      using a admit_key_step [of en q g e1 q1 g1] image_key_step [of q g e1 q1 g1] by (cases "rq_kind q = images_endpoint") auto
    have l: "rq_lease q1 = None" "plain q1" "rq_outcome q1 = OutcomeNone" "keeps q q1" using p q1 by (auto simp: stage_defs)
    show ?thesis
    proof (cases "e1 \<noteq> None \<or> (\<exists>msg. en_managed en (ds_id d) = LeaseFailed msg)")
      case True
      then have "q' = q1" "g' = g1" "err \<noteq> None"
        using s False by (auto simp: prepare_managed_def d a split: managed_reply.splits option.splits)
      then show ?thesis using b l by (auto simp: asked_def)
    next
      case f: False
      then have "en_managed en (ds_id d) = Leased" using False by (cases "en_managed en (ds_id d)") auto
      then have q': "q' = q1\<lparr>rq_lease := Some (ds_id d)\<rparr>"
        "g' = g1\<lparr>gw_leases := (gw_leases g1)(ds_id d := gw_leases g1 (ds_id d) + 1)\<rparr>"
        using s f by (simp_all add: prepare_managed_def d a)
      have "in_balance (q, g) (q', g')"
        unfolding q' by (rule balanced_trans [OF b lease_balanced [OF l(1)]])
      then show ?thesis using p q1 by (auto simp: q' stage_defs)
    qed
  qed
qed

lemma check_health_ok: "stage_ok dw 1 (check_health en)"
proof (rule stage_ok_I)
  fix q g err q' g'
  assume p: "phase 1 q" and s: "check_health en (q, g) = (err, q', g')"
  then have "q' = q" "g' = g" by (auto simp: check_health_def split: option.splits if_splits)
  then show "in_balance (q, g) (q', g') \<and> plain q' \<and> asked q' \<and> keeps q q' \<and> (err = None \<longrightarrow> phase (1 + 1) q')"
    using p by (auto simp: stage_defs)
qed

lemma read_body_ok: "stage_ok dw 3 (read_body hs en)"
proof (rule stage_ok_I)
  fix q g err q' g'
  assume p: "phase 3 q" and s: "read_body hs en (q, g) = (err, q', g')"
  show "in_balance (q, g) (q', g') \<and> plain q' \<and> asked q' \<and> keeps q q' \<and> (err = None \<longrightarrow> phase (3 + 1) q')"
  proof (cases "en_content_length en > hs_max_body hs")
    case True
    then have "q' = q" "g' = g" "err \<noteq> None" using s by (auto simp: read_body_def)
    then show ?thesis using p by (simp add: stage_defs)
  next
    case False
    let ?q = "q\<lparr>rq_buffered := True\<rparr>" and ?g = "g\<lparr>gw_bodies := gw_bodies g + 1\<rparr>"
    have b: "in_balance (q, g) (?q, ?g)"
      using p by (simp add: balanced_by_def held_defs in_flight_of_def reserved_of_def phase_def)
    have q': "g' = ?g \<and> same_resources ?q q' \<and> keeps q q'"
      using s False by (auto simp: read_body_def same_resources_def keeps_def Let_def split: body_read.splits option.splits)
    then have "in_balance (q, g) (q', g')" using balanced_trans [OF b] same_balanced by blast
    moreover have "phase 4 ?q" using p by (auto simp: stage_defs)
    then have "phase 4 q'" using same_phase [of ?q q' 4] q' by blast
    ultimately show ?thesis using q' by (auto simp: phase_def asked_def)
  qed
qed

lemma route_host_tools_same:
  assumes "route_host_tools hs en (q, g) = (err, q', g')"
  shows "g' = g \<and> same_resources q q' \<and> keeps q q'"
  using assms
  by (auto simp: route_host_tools_def same_resources_def keeps_def Let_def split: sum.splits if_splits option.splits)

lemma route_host_tools_ok: "stage_ok dw 4 (route_host_tools hs en)"
proof (rule stage_ok_I)
  fix q g err q' g'
  assume p: "phase 4 q" and s: "route_host_tools hs en (q, g) = (err, q', g')"
  note r = route_host_tools_same [OF s]
  have "phase (4 + 1) q" using p by (simp add: phase_def)
  then show "in_balance (q, g) (q', g') \<and> plain q' \<and> asked q' \<and> keeps q q' \<and> (err = None \<longrightarrow> phase (4 + 1) q')"
    using stage_same [OF p, of q' g] same_phase [of q q' "4 + 1"] r by blast
qed

lemma count_request_ok: "stage_ok dw 6 (count_request en)"
proof (rule stage_ok_I)
  fix q g err q' g'
  assume p: "phase 6 q" and s: "count_request en (q, g) = (err, q', g')"
  have r: "g' = g" "same_resources q q'" "keeps q q'"
    using s by (auto simp: count_request_def same_resources_def keeps_def Let_def)
  have "phase (6 + 1) q" using p by (simp add: phase_def)
  then show "in_balance (q, g) (q', g') \<and> plain q' \<and> asked q' \<and> keeps q q' \<and> (err = None \<longrightarrow> phase (6 + 1) q')"
    using stage_same [OF p, of q' g] same_phase [of q q' "6 + 1"] r by blast
qed

text \<open>Resolution may change the destination, and does so before a slot is held.\<close>

definition but_destination :: "request \<Rightarrow> request \<Rightarrow> bool" where
  "but_destination q q' \<longleftrightarrow> (\<exists>d. same_resources (q\<lparr>rq_destination := d\<rparr>) q' \<and> (d = rq_destination q \<or> d \<noteq> None))"

lemma but_destination_same: "same_resources q q' \<Longrightarrow> but_destination q q'"
  unfolding but_destination_def by (intro exI [of _ "rq_destination q"]) simp

lemma normalize_request_step:
  assumes "normalize_request hs en (q, g) = (err, q', g')"
  shows "g' = g \<and> but_destination q q' \<and> keeps q q'"
proof -
  let ?t = "if rq_path q = responses_endpoint then en_translate en (n_body (rq_n q)) else Inr (n_body (rq_n q))"
  show ?thesis
  proof (cases ?t)
    case (Inl e)
    then show ?thesis using assms
      by (auto simp: normalize_request_def keeps_def same_resources_def intro!: but_destination_same split: if_splits)
  next
    case (Inr body)
    define r where "r = q\<lparr>rq_n := (rq_n q)\<lparr>n_body := body\<rparr>, rq_responses := (rq_path q = responses_endpoint)\<rparr>"
    have r: "same_resources q r" "keeps q r" "rq_key r = rq_key q" "rq_destination r = rq_destination q"
      by (simp_all add: r_def same_resources_def keeps_def)
    show ?thesis
    proof (cases "rq_key q = None \<or> rq_destination q = None")
      case True
      then have "q' = r \<and> g' = g" using assms Inr unfolding normalize_request_def r_def
        by (auto simp: Let_def split: option.splits)
      then show ?thesis using r but_destination_same by simp
    next
      case False
      then obtain k d where kd: "rq_key q = Some k" "rq_destination q = Some d" by auto
      let ?n = "normalize (rq_kind r) body k (ei_models (en_infos en (ds_id d))) (model_pins hs r)"
      have eq: "(case ?n of Inl e \<Rightarrow> (Some e, r, g)
               | Inr n \<Rightarrow> (case resolve_destination hs (n_model n) r of
                      (Some e, q) \<Rightarrow> (Some e, q, g)
                    | (None, q) \<Rightarrow>
                        (let ev = (rq_ev q)\<lparr>ev_model := n_model n, ev_stream := n_stream n\<rparr>;
                             ev = (if hs_log_prompts hs then ev\<lparr>ev_prompt := n_text n\<rparr> else ev)
                         in (None, q\<lparr>rq_n := n, rq_ev := ev\<rparr>, g)))) = (err, q', g')"
        using assms unfolding normalize_request_def r_def by (simp add: Inr kd Let_def)
      show ?thesis
      proof (cases ?n)
        case (Inl e)
        then show ?thesis using eq r but_destination_same by simp
      next
        case n: (Inr n)
        obtain e2 q2 where rd: "resolve_destination hs (n_model n) r = (e2, q2)"
          by (cases "resolve_destination hs (n_model n) r")
        have q2: "\<exists>x. same_resources (q\<lparr>rq_destination := x\<rparr>) q2 \<and> (x = rq_destination q \<or> x \<noteq> None)" "keeps q q2"
          using rd r kd unfolding resolve_destination_def
          by (auto simp: same_resources_def keeps_def split: sum.splits)
        have "same_resources q2 q'" "keeps q2 q'" "g' = g"
          using eq n rd by (auto simp: same_resources_def keeps_def Let_def split: option.splits)
        then show ?thesis using q2 unfolding but_destination_def
          by (auto simp: same_resources_def keeps_def)
      qed
    qed
  qed
qed

lemma normalize_request_ok: "stage_ok dw 5 (normalize_request hs en)"
proof (rule stage_ok_I)
  fix q g err q' g'
  assume p: "phase 5 q" and s: "normalize_request hs en (q, g) = (err, q', g')"
  from normalize_request_step [OF s] obtain d where g: "g' = g" and r: "same_resources (q\<lparr>rq_destination := d\<rparr>) q'"
    and d: "d = rq_destination q \<or> d \<noteq> None" and k: "keeps q q'" by (auto simp: but_destination_def)
  let ?q = "q\<lparr>rq_destination := d\<rparr>"
  have "in_balance (q, g) (?q, g)" using p by (simp add: balanced_by_def held_defs phase_def)
  moreover have "phase 6 ?q" using p d by (auto simp: stage_defs)
  ultimately show "in_balance (q, g) (q', g') \<and> plain q' \<and> asked q' \<and> keeps q q' \<and> (err = None \<longrightarrow> phase (5 + 1) q')"
    using balanced_trans same_balanced [OF r] same_phase [OF r, of 6] g k by (auto simp: phase_def asked_def)
qed

text \<open>The reservation.\<close>

lemma reserve_balanced:
  assumes "reserve now lims prompt out a (gw_limiter g) = (r, a', l)" and "rq_adm q = Some a" and "ad_reserved a = 0"
  shows "in_balance (q, g) (q\<lparr>rq_adm := Some a'\<rparr>, g\<lparr>gw_limiter := l\<rparr>)"
  using reserve_share [OF assms(1,3)] assms(2,3)
  by (simp add: balanced_by_def held_defs in_flight_of_def reserved_of_def)

lemma check_budgets_step:
  assumes "check_budgets en (q, g) = (err, q', g')" and z: "\<forall>a. rq_adm q = Some a \<longrightarrow> ad_reserved a = 0"
  shows "in_balance (q, g) (q', g') \<and> keeps q q' \<and> (\<exists>a. same_resources (q\<lparr>rq_adm := a\<rparr>) q')"
proof (cases "rq_key q = None \<or> rq_destination q = None \<or> rq_adm q = None")
  case True
  then have "q' = q" "g' = g" using assms(1) by (auto simp: check_budgets_def split: option.splits)
  then show ?thesis by (auto simp: keeps_def same_resources_def)
next
  case False
  then obtain k d a where s: "rq_key q = Some k" "rq_destination q = Some d" "rq_adm q = Some a" by auto
  obtain e0 n where f: "fit_context (en_infos en (ds_id d)) (k_limits k) (rq_prompt q) (rq_n q) = (e0, n)"
    by (cases "fit_context (en_infos en (ds_id d)) (k_limits k) (rq_prompt q) (rq_n q)")
  show ?thesis
  proof (cases e0)
    case (Some e)
    then have "q' = q\<lparr>rq_n := n\<rparr>" "g' = g" using assms(1) by (simp_all add: check_budgets_def s f)
    then show ?thesis using same_balanced [of q q' g] by (auto simp: keeps_def same_resources_def)
  next
    case None
    define out where "out = (if rq_kind q = chat_endpoint \<and> n_max_tok n = 0 then - 1 else n_max_tok n)"
    obtain r a' l where rs: "reserve (en_reserve_t en) (k_limits k) (rq_prompt q) out a (gw_limiter g) = (r, a', l)"
      by (cases "reserve (en_reserve_t en) (k_limits k) (rq_prompt q) out a (gw_limiter g)") auto
    have "g' = g\<lparr>gw_limiter := l\<rparr>" "same_resources (q\<lparr>rq_adm := Some a'\<rparr>) q'" "keeps q q'"
      using assms(1) None rs unfolding out_def
      by (cases r; auto simp: check_budgets_def s f same_resources_def keeps_def Let_def)+
    moreover have "in_balance (q, g) (q\<lparr>rq_adm := Some a'\<rparr>, g\<lparr>gw_limiter := l\<rparr>)"
      using reserve_balanced [OF rs s(3)] z s by simp
    ultimately show ?thesis using balanced_trans same_balanced by blast
  qed
qed

lemma check_budgets_ok: "stage_ok dw 7 (check_budgets en)"
proof (rule stage_ok_I)
  fix q g err q' g'
  assume p: "phase 7 q" and s: "check_budgets en (q, g) = (err, q', g')"
  have "\<forall>a. rq_adm q = Some a \<longrightarrow> ad_reserved a = 0" using p by (simp add: phase_def)
  from check_budgets_step [OF s this] obtain a where b: "in_balance (q, g) (q', g')" "keeps q q'"
    and r: "same_resources (q\<lparr>rq_adm := a\<rparr>) q'" by blast
  have "phase 8 (q\<lparr>rq_adm := a\<rparr>)" using p by (auto simp: stage_defs)
  then show "in_balance (q, g) (q', g') \<and> plain q' \<and> asked q' \<and> keeps q q' \<and> (err = None \<longrightarrow> phase (7 + 1) q')"
    using b same_phase [OF r, of 8] by (auto simp: phase_def asked_def)
qed

section \<open>The slot\<close>

text \<open>
  What a wait must be able to rely on: while it waits, a waiter stays in the line or is handed a slot, and a wait
  that ends with a slot has been handed one.
\<close>

definition fair_wait :: "host \<Rightarrow> env \<Rightarrow> bool" where
  "fair_wait hs en \<longleftrightarrow> (\<forall>g i w q. w \<in> set (sq_waiters (gw_queues g i)) \<longrightarrow>
     w \<in> set (sq_waiters (gw_queues (en_while_waiting en g) i)) \<union> set (sq_handed (gw_queues (en_while_waiting en g) i))
     \<and> (wait_result hs en q = None \<longrightarrow> w \<in> set (sq_handed (gw_queues (en_while_waiting en g) i))))"

lemma set_queue_sel [simp]:
  "gw_limiter (set_queue i sq g) = gw_limiter g" "gw_bodies (set_queue i sq g) = gw_bodies g"
  "gw_leases (set_queue i sq g) = gw_leases g" "gw_recorded (set_queue i sq g) = gw_recorded g"
  "gw_queues (set_queue i sq g) j = (if j = i then sq else gw_queues g j)"
  by (simp_all add: set_queue_def)

lemma slot_balanced:
  assumes "rq_destination q = Some d" and "\<not> rq_slot q" and "holders sq = holders (gw_queues g (ds_id d)) + (if b then 1 else 0)"
  shows "in_balance (q, g) (q\<lparr>rq_slot := b\<rparr>, set_queue (ds_id d) sq g)"
  using assms by (simp add: balanced_by_def held_defs in_flight_of_def reserved_of_def)

lemma queued_same: "same_resources q (snd (queued r q)) \<and> keeps q (snd (queued r q))"
  by (simp add: queued_def same_resources_def keeps_def stream_head_def write_header_def Let_def)

lemma same_trans: "same_resources a b \<Longrightarrow> same_resources b c \<Longrightarrow> same_resources a c"
  by (simp add: same_resources_def)

lemma keeps_trans: "keeps a b \<Longrightarrow> keeps b c \<Longrightarrow> keeps a c"
  by (simp add: keeps_def)

lemma waiting_words_same: "same_resources q (waiting_words en q) \<and> keeps q (waiting_words en q)"
proof -
  have m: "same_resources q (fold (\<lambda>r q. snd (queued r q)) ws q) \<and> keeps q (fold (\<lambda>r q. snd (queued r q)) ws q)" for ws
  proof (induction ws arbitrary: q)
    case (Cons w ws)
    from Cons [of "snd (queued w q)"] queued_same [of q w] show ?case
      using same_trans keeps_trans by simp blast
  qed (simp add: same_resources_def keeps_def)
  let ?ws = "en_joined en # (if en_joined en = None then tick_writes (en_wait en) else [])"
  have "\<exists>ws. waiting_words en q = fold (\<lambda>r q. snd (queued r q)) ws q"
  proof (cases "n_stream (rq_n q)")
    case True
    then show ?thesis unfolding waiting_words_def Let_def by (intro exI [of _ ?ws]) simp
  next
    case False
    then show ?thesis unfolding waiting_words_def Let_def by (intro exI [of _ "[]"]) simp
  qed
  then show ?thesis using m by auto
qed

lemma take_slot_step:
  assumes "take_slot en (q, g) = (err, q', g')"
  shows "g' = g \<and> keeps q q' \<and> same_resources (q\<lparr>rq_slot := True, rq_outcome := (if err = None then rq_outcome q else OutcomeQueueLost)\<rparr>) q'"
  using assms by (auto simp: take_slot_def keeps_def same_resources_def Let_def split: if_splits)

lemma slot_phase:
  assumes "phase 8 q" and "same_resources (q\<lparr>rq_slot := True, rq_outcome := (if err = None then rq_outcome q else OutcomeQueueLost)\<rparr>) q'"
  shows "plain q' \<and> asked q' \<and> (err = None \<longrightarrow> phase 9 q')"
  using assms same_phase [OF assms(2), of 9] by (cases err) (auto simp: stage_defs same_resources_def)

lemma take_slot_ok:
  assumes "take_slot en (q1, g1) = (err, q', g')" and "phase 8 q" and "same_resources q q1" and "keeps q q1"
    and "rq_destination q = Some d" and "balanced_by dw (q, g0) (q\<lparr>rq_slot := True\<rparr>, g1)"
  shows "balanced_by dw (q, g0) (q', g') \<and> plain q' \<and> asked q' \<and> keeps q q' \<and> (err = None \<longrightarrow> phase 9 q')"
proof -
  note t = take_slot_step [OF assms(1)]
  let ?r = "q\<lparr>rq_slot := True, rq_outcome := (if err = None then rq_outcome q else OutcomeQueueLost)\<rparr>"
  have r: "same_resources ?r q'" using t assms(3) by (cases err) (auto simp: same_resources_def)
  have "balanced_by dw (q, g0) (?r, g1)" using assms(6) by (simp add: balanced_by_def held_defs)
  then have "balanced_by dw (q, g0) (q', g1)" using balanced_by_trans same_balanced [OF r] by blast
  then show ?thesis using t slot_phase [OF assms(2) r] keeps_trans [OF assms(4)] by simp
qed

lemma wait_for_slot_ok:
  assumes s: "wait_for_slot hs en d w (q, g) = (err, q', g')" and p: "phase 8 q" and d: "rq_destination q = Some d"
    and w: "w \<in> set (sq_waiters (gw_queues g (ds_id d)))" and n: "neutral dw (en_while_waiting en)" and f: "fair_wait hs en"
  shows "balanced_by dw (q, g) (q', g') \<and> plain q' \<and> asked q' \<and> keeps q q' \<and> (err = None \<longrightarrow> phase 9 q')"
proof -
  define e0 where "e0 = wait_result hs en q"
  define q1 where "q1 = (waiting_words en q)\<lparr>rq_ev := (rq_ev (waiting_words en q))\<lparr>ev_queued_ms := en_queued_ms en\<rparr>\<rparr>"
  define g1 where "g1 = en_while_waiting en g"
  let ?sq = "gw_queues g1 (ds_id d)"
  obtain out e1 sq where a: "acquire_finish (queue_cap d (en_infos en (ds_id d))) w e0 ?sq = (out, e1, sq)"
    by (cases "acquire_finish (queue_cap d (en_infos en (ds_id d))) w e0 ?sq") auto
  have in_line: "w \<in> set (sq_waiters ?sq) \<union> set (sq_handed ?sq)" "e0 = None \<Longrightarrow> w \<in> set (sq_handed ?sq)"
    using f w unfolding fair_wait_def g1_def e0_def by blast+
  note h = holders_finish [OF a in_line]
  have q1: "same_resources q q1" "keeps q q1"
    using waiting_words_same [of q en] by (auto simp: q1_def same_resources_def keeps_def)
  have run: "(case e1 of Some e \<Rightarrow> (Some e, q1\<lparr>rq_outcome := out\<rparr>, set_queue (ds_id d) sq g1)
      | None \<Rightarrow> take_slot en (q1, set_queue (ds_id d) sq g1)) = (err, q', g')"
    using s a unfolding wait_for_slot_def e0_def q1_def g1_def by (simp add: Let_def)
  have b: "balanced_by dw (q, g) (q, g1)" unfolding g1_def by (rule balanced_neutral [OF n])
  have ns: "\<not> rq_slot q" using p by (simp add: phase_def)
  show ?thesis
  proof (cases e1)
    case None
    have "in_balance (q, g1) (q\<lparr>rq_slot := True\<rparr>, set_queue (ds_id d) sq g1)"
      using slot_balanced [OF d ns, of sq g1 True] h None by simp
    then have "balanced_by dw (q, g) (q\<lparr>rq_slot := True\<rparr>, set_queue (ds_id d) sq g1)" using balanced_by_trans [OF b] by blast
    from take_slot_ok [OF _ p q1 d this, of en err q' g'] show ?thesis using run None by simp
  next
    case (Some e)
    then have q': "q' = q1\<lparr>rq_outcome := out\<rparr>" "g' = set_queue (ds_id d) sq g1" "err = Some e" using run by simp_all
    have "in_balance (q, g1) (q\<lparr>rq_slot := False\<rparr>, set_queue (ds_id d) sq g1)"
      using slot_balanced [OF d ns, of sq g1 False] h Some by simp
    then have "in_balance (q, g1) (q', g')"
      using q1 ns unfolding q' by (auto simp: balanced_by_def held_defs same_resources_def)
    moreover have "out = OutcomeQueueLost" using h Some by (cases e0) auto
    ultimately show ?thesis using balanced_by_trans [OF b] p q1 unfolding q'
      by (auto simp: stage_defs same_resources_def)
  qed
qed

lemma acquire_slot_ok:
  assumes n: "neutral dw (en_while_waiting en)" and f: "fair_wait hs en"
  shows "stage_ok dw 8 (acquire_slot hs en)"
unfolding stage_ok_def
proof (intro allI impI)
  fix q g err q' g'
  assume p: "phase 8 q" and s: "acquire_slot hs en (q, g) = (err, q', g')"
  obtain d where d: "rq_destination q = Some d" using p by (auto simp: stage_defs)
  have ns: "\<not> rq_slot q" using p by (simp add: phase_def)
  obtain r sq where a: "acquire_enter (queue_cap d (en_infos en (ds_id d))) (gw_queues g (ds_id d)) = (r, sq)"
    by (cases "acquire_enter (queue_cap d (en_infos en (ds_id d))) (gw_queues g (ds_id d))")
  note h = holders_enter [OF a]
  let ?g = "set_queue (ds_id d) sq g"
  let ?q = "q\<lparr>rq_ev := (rq_ev q)\<lparr>ev_queued_ms := en_queued_ms en\<rparr>\<rparr>"
  have q: "same_resources q ?q" "keeps q ?q" by (simp_all add: same_resources_def keeps_def)
  have "balanced_by dw (q, g) (q', g') \<or> in_balance (q, g) (q', g')" (is ?B)
    and "plain q' \<and> asked q' \<and> keeps q q' \<and> (err = None \<longrightarrow> phase 9 q')" (is ?P)
  proof -
    have "?B \<and> ?P"
    proof (cases r)
      case EnteredAtOnce
      have "in_balance (q, g) (q\<lparr>rq_slot := True\<rparr>, ?g)" using slot_balanced [OF d ns, of sq g True] h EnteredAtOnce by simp
      from take_slot_ok [OF _ p q d this, of en err q' g'] show ?thesis using s by (simp add: acquire_slot_def d a EnteredAtOnce)
    next
      case (EnteredFull e)
      then have q': "q' = ?q\<lparr>rq_outcome := OutcomeRejected\<rparr>" "g' = ?g" "err = Some e"
        using s by (simp_all add: acquire_slot_def d a)
      have "in_balance (q, g) (q\<lparr>rq_slot := False\<rparr>, ?g)" using slot_balanced [OF d ns, of sq g False] h EnteredFull by simp
      then have "in_balance (q, g) (q', g')" using ns unfolding q' by (simp add: balanced_by_def held_defs)
      then show ?thesis using p unfolding q' by (auto simp: stage_defs)
    next
      case (EnteredWaiting w)
      have "in_balance (q, g) (q\<lparr>rq_slot := False\<rparr>, ?g)" using slot_balanced [OF d ns, of sq g False] h EnteredWaiting by simp
      then have b: "in_balance (q, g) (q, ?g)" using ns by (simp add: balanced_by_def held_defs)
      have "wait_for_slot hs en d w (q, ?g) = (err, q', g')" using s by (simp add: acquire_slot_def d a EnteredWaiting)
      from wait_for_slot_ok [OF this p d _ n f] h EnteredWaiting show ?thesis using balanced_trans_by [OF b] by simp
    qed
    then show ?B ?P by simp_all
  qed
  then show "(in_balance (q, g) (q', g') \<or> (8::nat) = 8 \<and> balanced_by dw (q, g) (q', g')) \<and> plain q' \<and> asked q' \<and> keeps q q' \<and> (err = None \<longrightarrow> phase (8 + 1) q')"
    by auto
qed

section \<open>The engine call and the relay\<close>

text \<open>The last two stages change the outcome and the event, never what is held.\<close>

definition same_but_outcome :: "request \<Rightarrow> request \<Rightarrow> bool" where
  "same_but_outcome q q' \<longleftrightarrow> same_resources (q\<lparr>rq_outcome := rq_outcome q'\<rparr>) q'"

text \<open>The same is asked of the Responses adapter, which writes to the friend in the relay's place.\<close>

definition adapter_ok :: "env \<Rightarrow> bool" where
  "adapter_ok en \<longleftrightarrow> (\<forall>e q. same_resources q (en_fail_responses en e q) \<and> keeps q (en_fail_responses en e q))
     \<and> (\<forall>resp q. same_but_outcome q (snd (en_pipe_responses en resp q)) \<and> keeps q (snd (en_pipe_responses en resp q)))"

lemma outcome_stage:
  assumes "i \<in> {9, 10}" and "phase i q" and "same_but_outcome q q'" and "keeps q q'"
    and "i = 9 \<Longrightarrow> err = None \<Longrightarrow> rq_outcome q' = rq_outcome q"
  shows "in_balance (q, g) (q', g) \<and> plain q' \<and> asked q' \<and> keeps q q' \<and> (err = None \<longrightarrow> phase (i + 1) q')"
  using assms by (auto simp: same_but_outcome_def same_resources_def balanced_by_def held_defs stage_defs)

lemma call_upstream_ok: "stage_ok dw 9 (call_upstream hs en)"
proof (rule stage_ok_I)
  fix q g err q' g'
  assume p: "phase 9 q" and s: "call_upstream hs en (q, g) = (err, q', g')"
  have "g' = g \<and> same_but_outcome q q' \<and> keeps q q' \<and> (err = None \<longrightarrow> rq_outcome q' = rq_outcome q)"
    using s by (cases "en_engine en")
      (auto simp: call_upstream_def same_but_outcome_def same_resources_def keeps_def Let_def split: if_splits prod.splits)
  then show "in_balance (q, g) (q', g') \<and> plain q' \<and> asked q' \<and> keeps q q' \<and> (err = None \<longrightarrow> phase (9 + 1) q')"
    using outcome_stage [of 9 q q' err g] p by simp
qed

lemma mark_ttft_same: "same_resources q (mark_ttft t q) \<and> keeps q (mark_ttft t q)"
  by (simp add: mark_ttft_def same_resources_def keeps_def)

lemma relay_line_same:
  assumes "relay_line decode lp now writes flushes l (m, q) = (err, m', q')"
  shows "same_resources q q' \<and> keeps q q'"
proof -
  let ?r = "mark_ttft now (q\<lparr>rq_writer := write_piece (PText l) (rq_writer q)\<rparr>)"
  have r: "same_resources q ?r" "keeps q ?r"
    using mark_ttft_same [of "q\<lparr>rq_writer := write_piece (PText l) (rq_writer q)\<rparr>" now]
    by (simp_all add: same_resources_def keeps_def)
  have ob: "ev_endpoint (snd (observe lp ch (m, ev))) = ev_endpoint ev \<and> ev_key_id (snd (observe lp ch (m, ev))) = ev_key_id ev" for ch ev
    by (simp add: observe_def apply_usage_def split: option.splits)
  show ?thesis
  proof (cases "writes \<and> trim_line_end l \<noteq> [] \<and> line_chunk decode l \<noteq> None")
    case True
    then obtain ch where ch: "line_chunk decode l = Some ch" by auto
    have "q' = ?r\<lparr>rq_ev := snd (observe lp ch (m, rq_ev ?r))\<rparr>"
      using assms True ch by (auto simp: relay_line_def Let_def split: prod.splits)
    then show ?thesis using r ob [of ch "rq_ev ?r"] by (simp add: same_resources_def keeps_def)
  next
    case False
    then have "q' = ?r \<or> q' = q" using assms by (auto simp: relay_line_def Let_def split: if_splits option.splits)
    then show ?thesis using r by (auto simp: same_resources_def keeps_def)
  qed
qed

lemma relay_lines_same:
  "relay_lines decode lp io i ls (m, q) = (err, m', q') \<Longrightarrow> same_resources q q' \<and> keeps q q'"
proof (induction ls arbitrary: i m q)
  case Nil
  then show ?case by (simp add: same_resources_def keeps_def)
next
  case (Cons l ls)
  obtain now writes flushes where io: "io i = (now, writes, flushes)" by (cases "io i") auto
  obtain e1 m1 q1 where r: "relay_line decode lp now writes flushes l (m, q) = (e1, m1, q1)"
    by (cases "relay_line decode lp now writes flushes l (m, q)") auto
  note one = relay_line_same [OF r]
  show ?case
  proof (cases e1)
    case None
    then have "relay_lines decode lp io (i + 1) ls (m1, q1) = (err, m', q')" using Cons.prems by (simp add: io r)
    from Cons.IH [OF this] one show ?thesis using same_trans keeps_trans by blast
  next
    case (Some e)
    then show ?thesis using Cons.prems one by (simp add: io r)
  qed
qed

lemma relay_end_same:
  assumes "relay_end decode lp gone idle io rest ends (m, q) = (err, m', q')"
  shows "same_resources q q' \<and> keeps q q'"
proof -
  obtain now writes flushes where io: "io = (now, writes, flushes)" by (cases io) auto
  obtain e1 m1 q1 where r: "relay_line decode lp now writes flushes rest (m, q) = (e1, m1, q1)"
    by (cases "relay_line decode lp now writes flushes rest (m, q)") auto
  have "q' = q \<or> q' = q1"
    using assms r by (auto simp: relay_end_def io split: if_splits option.splits stream_end.splits)
  then show ?thesis using relay_line_same [OF r] by (auto simp: same_resources_def keeps_def)
qed

lemma pipe_stream_same:
  assumes "pipe_stream decode lp idle io gone resp q = (err, q')"
  shows "same_but_outcome q q' \<and> keeps q q'"
proof -
  define h where "h = (if \<not> rq_wrote_header q then stream_head q else q)"
  have h: "same_resources q h" "keeps q h"
    by (simp_all add: h_def same_resources_def keeps_def stream_head_def write_header_def Let_def)
  obtain ls rest where sl: "stream_lines [] (er_body resp) = (ls, rest)" by (cases "stream_lines [] (er_body resp)")
  obtain e1 m1 q1 where r: "relay_lines decode lp io 0 ls (new_meter, h) = (e1, m1, q1)"
    by (cases "relay_lines decode lp io 0 ls (new_meter, h)") auto
  obtain e2 m2 q2 where r2: "relay_end decode lp gone idle (io (length ls)) rest (er_end resp) (m1, q1) = (e2, m2, q2)"
    by (cases "relay_end decode lp gone idle (io (length ls)) rest (er_end resp) (m1, q1)") auto
  have s1: "same_resources q q1" "keeps q q1"
    using relay_lines_same [OF r] h same_trans keeps_trans by blast+
  have s2: "same_resources q q2" "keeps q q2"
    using relay_end_same [OF r2] s1 same_trans keeps_trans by blast+
  obtain m3 q3 o3 where q': "q' = q3\<lparr>rq_outcome := o3, rq_ev := meter_finish lp m3 (rq_ev q3)\<rparr>" "q3 = q1 \<or> q3 = q2"
  proof (cases e1)
    case None
    then have "q' = q2\<lparr>rq_outcome := (if e2 \<noteq> None then OutcomeCut else rq_outcome q2), rq_ev := meter_finish lp m2 (rq_ev q2)\<rparr>"
      using assms unfolding pipe_stream_def h_def [symmetric] by (auto simp: sl r r2 Let_def)
    then show ?thesis using that by blast
  next
    case (Some e)
    then have "q' = q1\<lparr>rq_outcome := OutcomeCut, rq_ev := meter_finish lp m1 (rq_ev q1)\<rparr>"
      using assms unfolding pipe_stream_def h_def [symmetric] by (auto simp: sl r Let_def)
    then show ?thesis using that by blast
  qed
  then show ?thesis using s1 s2
    by (auto simp: same_but_outcome_def same_resources_def keeps_def meter_finish_def Let_def)
qed

lemma pipe_body_same:
  assumes "pipe_body decode lp idle t gone resp q = (err, q')"
  shows "same_but_outcome q q' \<and> keeps q q'"
proof -
  obtain b failed where r: "read_limited max_upstream_body resp = (b, failed)" by (cases "read_limited max_upstream_body resp")
  show ?thesis
  proof (cases "failed = None \<and> decode b \<noteq> None")
    case True
    then obtain u cs where "decode b = Some (u, cs)" by auto
    define ev where "ev = (if lp \<and> cs \<noteq> [] then (apply_usage u (rq_ev q))\<lparr>ev_completion := hd cs\<rparr> else apply_usage u (rq_ev q))"
    obtain w w2 where q': "q' = (mark_ttft t (write_header 200 (q\<lparr>rq_ev := ev, rq_writer := w\<rparr>)))\<lparr>rq_writer := w2\<rparr>"
      using True assms \<open>decode b = Some (u, cs)\<close> unfolding pipe_body_def by (auto simp: r Let_def ev_def)
    have "ev_endpoint ev = ev_endpoint (rq_ev q)" "ev_key_id ev = ev_key_id (rq_ev q)"
      by (simp_all add: ev_def apply_usage_def split: option.splits)
    then have "same_resources q (write_header 200 (q\<lparr>rq_ev := ev, rq_writer := w\<rparr>))"
      "keeps q (write_header 200 (q\<lparr>rq_ev := ev, rq_writer := w\<rparr>))"
      by (simp_all add: write_header_def same_resources_def keeps_def)
    then show ?thesis using mark_ttft_same [of "write_header 200 (q\<lparr>rq_ev := ev, rq_writer := w\<rparr>)" t]
      unfolding q' by (simp add: same_but_outcome_def same_resources_def keeps_def)
  next
    case False
    then show ?thesis using assms
      by (auto simp: pipe_body_def r same_but_outcome_def same_resources_def keeps_def split: option.splits)
  qed
qed

lemma relay_response_ok:
  assumes "adapter_ok en"
  shows "stage_ok dw 10 (relay_response hs en)"
proof (rule stage_ok_I)
  fix q g err q' g'
  assume p: "phase 10 q" and s: "relay_response hs en (q, g) = (err, q', g')"
  have "g' = g \<and> same_but_outcome q q' \<and> keeps q q'"
  proof (cases "en_engine en")
    case (EngineFailed sent timed_out)
    then show ?thesis using s by (auto simp: relay_response_def same_but_outcome_def same_resources_def keeps_def)
  next
    case (EngineReplied sent resp)
    let ?r = "if rq_responses q then en_pipe_responses en resp q
             else if n_stream (rq_n q) then
               pipe_stream (en_decode_chunk en) (hs_log_prompts hs) (hs_idle_timeout hs) (en_io en) (en_gone_relay en) resp q
             else
               pipe_body (en_decode_reply en) (hs_log_prompts hs) (hs_idle_timeout hs) (en_first_t en) (en_gone_relay en) resp q"
    have r: "?r = (err, q')" "g' = g" using s by (auto simp: relay_response_def EngineReplied split: prod.splits)
    have "same_but_outcome q q' \<and> keeps q q'"
    proof (cases "rq_responses q")
      case True
      then have "q' = snd (en_pipe_responses en resp q)" using r by simp
      then show ?thesis using assms by (simp add: adapter_ok_def)
    next
      case False
      then show ?thesis using r pipe_stream_same pipe_body_same by (cases "n_stream (rq_n q)") auto
    qed
    then show ?thesis using r by simp
  qed
  then show "in_balance (q, g) (q', g') \<and> plain q' \<and> asked q' \<and> keeps q q' \<and> (err = None \<longrightarrow> phase (10 + 1) q')"
    using outcome_stage [of 10 q q' err g] p by simp
qed

section \<open>The whole pipeline\<close>

definition others_ok :: "host \<Rightarrow> env \<Rightarrow> (string \<Rightarrow> int) \<Rightarrow> bool" where
  "others_ok hs en dw \<longleftrightarrow> (\<forall>i. neutral (\<lambda>_. 0) (en_between en i)) \<and> neutral dw (en_while_waiting en)
     \<and> fair_wait hs en \<and> adapter_ok en"

lemma proxy_stages_ok:
  assumes "others_ok hs en dw" and "j < length (proxy_stages hs en)"
  shows "stage_ok dw j (proxy_stages hs en ! j)"
proof -
  have "j < 11" using assms(2) by (simp add: proxy_stages_def)
  then have "j \<in> {0, 1, 2, 3, 4, 5, 6, 7, 8, 9, 10}" by (simp only: insert_iff empty_iff) presburger
  moreover have "stage_ok dw 8 (acquire_slot hs en)" "stage_ok dw 10 (relay_response hs en)"
    using assms(1) acquire_slot_ok relay_response_ok by (auto simp: others_ok_def)
  ultimately show ?thesis
    by (auto simp: proxy_stages_def prepare_managed_ok check_health_ok [unfolded One_nat_def] admit_key_ok read_body_ok route_host_tools_ok
        normalize_request_ok count_request_ok check_budgets_ok call_upstream_ok)
qed

lemma set_outcome_balanced: "in_balance (q, g) (q\<lparr>rq_outcome := x\<rparr>, g)"
  by (simp add: balanced_by_def held_defs)

lemma run_stages_ok:
  assumes "\<And>i. neutral (\<lambda>_. 0) (en_between en i)"
    and "\<And>j. j < length ss \<Longrightarrow> stage_ok dw (i + j) (ss ! j)" and "phase i q" and "run_stages en i ss (q, g) = (err, q', g')"
  shows "(in_balance (q, g) (q', g') \<or> i \<le> 8 \<and> balanced_by dw (q, g) (q', g')) \<and> plain q' \<and> asked q' \<and> keeps q q'
     \<and> (err = None \<and> \<not> rq_handed_off q' \<longrightarrow> phase (i + length ss) q')"
  using assms(2-)
proof (induction ss arbitrary: i q g)
  case Nil
  then show ?case by (auto simp: stage_defs)
next
  case (Cons st ss)
  let ?g = "en_between en i g"
  obtain e1 q1 g1 where r: "st (q, ?g) = (e1, q1, g1)" by (cases "st (q, ?g)") auto
  have b0: "in_balance (q, g) (q, ?g)" by (rule balanced_neutral [OF assms(1)])
  have "stage_ok dw i st" using Cons.prems(1) [of 0] by simp
  then have one: "in_balance (q, ?g) (q1, g1) \<or> i = 8 \<and> balanced_by dw (q, ?g) (q1, g1)" "plain q1" "asked q1" "keeps q q1"
    "e1 = None \<Longrightarrow> phase (i + 1) q1"
    using Cons.prems(2) r unfolding stage_ok_def by blast+
  have b1: "in_balance (q, g) (q1, g1) \<or> i = 8 \<and> balanced_by dw (q, g) (q1, g1)"
    using one(1) balanced_trans [OF b0] balanced_trans_by [OF b0] by blast
  show ?case
  proof (cases e1)
    case (Some e)
    let ?o = "if rq_outcome q1 = OutcomeNone then OutcomeRejected else rq_outcome q1"
    have "q' = (if rq_outcome q1 = OutcomeNone then q1\<lparr>rq_outcome := OutcomeRejected\<rparr> else q1)" and g1: "g' = g1" "err = Some e"
      using Cons.prems(3) Some by (simp_all add: r split: if_splits)
    then have q': "q' = q1\<lparr>rq_outcome := ?o\<rparr>" "g' = g1" "err = Some e" by simp_all
    have "in_balance (q, g) (q', g') \<or> i = 8 \<and> balanced_by dw (q, g) (q', g')"
      using b1 set_outcome_balanced [of q1 g1 ?o] balanced_trans balanced_by_trans unfolding q' by blast
    moreover have "plain q' \<and> asked q' \<and> keeps q q'" using one(2-4) unfolding q' by (auto simp: stage_defs)
    ultimately show ?thesis using q'(3) by auto
  next
    case None
    show ?thesis
    proof (cases "rq_handed_off q1")
      case True
      then show ?thesis using Cons.prems(3) None b1 one by (auto simp: r)
    next
      case False
      then have rest: "run_stages en (i + 1) ss (q1, g1) = (err, q', g')" using Cons.prems(3) None by (simp add: r)
      have "stage_ok dw (i + 1 + j) (ss ! j)" if "j < length ss" for j using Cons.prems(1) [of "Suc j"] that by simp
      from Cons.IH [OF this one(5) [OF None] rest]
      have two: "in_balance (q1, g1) (q', g') \<or> i + 1 \<le> 8 \<and> balanced_by dw (q1, g1) (q', g')" "plain q'" "asked q'" "keeps q1 q'"
        "err = None \<and> \<not> rq_handed_off q' \<longrightarrow> phase (i + 1 + length ss) q'" by blast+
      have "in_balance (q, g) (q', g') \<or> i \<le> 8 \<and> balanced_by dw (q, g) (q', g')"
      proof (cases "in_balance (q1, g1) (q', g')")
        case True
        from kept_then [OF b1 True] show ?thesis by auto
      next
        case False
        then have t: "i + 1 \<le> 8" "balanced_by dw (q1, g1) (q', g')" using two(1) by blast+
        then have "in_balance (q, g) (q1, g1)" using b1 by auto
        from balanced_trans_by [OF this t(2)] t(1) show ?thesis by simp
      qed
      then show ?thesis using two keeps_trans [OF one(4) two(4)] by simp
    qed
  qed
qed

definition bare :: "request \<Rightarrow> bool" where
  "bare q \<longleftrightarrow> rq_audio q = None \<and> rq_image q = None \<and> \<not> rq_reading q"

lemma fail_request_same:
  assumes "bare q" and "adapter_ok en"
  shows "same_resources q (fail_request en e q) \<and> keeps q (fail_request en e q)"
proof -
  let ?q = "q\<lparr>rq_inner_error := Some e\<rparr>"
  define r where "r = ?q\<lparr>rq_ev := (rq_ev q)\<lparr>ev_code := code_str (ge_code e)\<rparr>\<rparr>"
  have r: "same_resources q r" "keeps q r" by (simp_all add: r_def same_resources_def keeps_def)
  have a: "same_resources r (en_fail_responses en e r)" "keeps r (en_fail_responses en e r)"
    using assms(2) by (simp_all add: adapter_ok_def)
  have f: "fail_request en e q = fst (fail_text (en_fail_responses en) (en_encoded_length en) (en_gone_fail en) e ?q)"
    using assms(1) by (simp add: fail_request_def fail_def bare_def)
  show ?thesis
  proof (cases "rq_wrote_header q \<and> rq_path q = responses_endpoint")
    case True
    then have "fail_request en e q = en_fail_responses en e r"
      using assms(1) by (simp add: f fail_text_def bare_def r_def Let_def)
    then show ?thesis using r a same_trans keeps_trans by metis
  next
    case False
    then show ?thesis using assms(1) unfolding f
      by (auto simp: fail_text_def bare_def same_resources_def keeps_def Let_def)
  qed
qed

lemma plain_bare: "plain q \<Longrightarrow> bare q"
  by (simp add: plain_def bare_def)

lemma proxy_ok:
  assumes o: "others_ok hs en dw" and p: "phase 0 q" and r: "proxy hs en kind (q, g) = (q', g')"
  shows "(in_balance (q, g) (q', g') \<or> balanced_by dw (q, g) (q', g')) \<and> bare q' \<and> asked q' \<and> keeps q q'"
proof -
  let ?q = "q\<lparr>rq_kind := kind\<rparr>"
  have k: "same_resources q ?q" "keeps q ?q" by (simp_all add: same_resources_def keeps_def)
  obtain err q1 g1 where s: "run_stages en 0 (proxy_stages hs en) (?q, g) = (err, q1, g1)"
    by (cases "run_stages en 0 (proxy_stages hs en) (?q, g)") auto
  have ph: "phase 0 ?q" using p same_phase [OF k(1), of 0] by blast
  have n: "neutral (\<lambda>_. 0) (en_between en i)" for i using o by (simp add: others_ok_def)
  have len: "length (proxy_stages hs en) = 11" by (simp add: proxy_stages_def)
  have st: "stage_ok dw (0 + j) (proxy_stages hs en ! j)" if "j < length (proxy_stages hs en)" for j
    using proxy_stages_ok [OF o that] by simp
  from run_stages_ok [OF n st ph s]
  have m: "in_balance (?q, g) (q1, g1) \<or> balanced_by dw (?q, g) (q1, g1)" "plain q1" "asked q1" "keeps ?q q1"
    "err = None \<and> \<not> rq_handed_off q1 \<longrightarrow> phase 11 q1" by (simp_all add: len)
  have b: "in_balance (q, g) (q1, g1) \<or> balanced_by dw (q, g) (q1, g1)"
    using m(1) same_balanced [OF k(1), of g] balanced_trans balanced_trans_by by blast
  show ?thesis
  proof (cases err)
    case (Some e)
    then have q': "q' = fail_request en e q1" "g' = g1" using r s by (simp_all add: proxy_def)
    have f: "same_resources q1 q'" "keeps q1 q'"
      using fail_request_same [OF plain_bare [OF m(2)]] o unfolding q' by (simp_all add: others_ok_def)
    have "plain q' \<and> asked q'" using same_phase [OF f(1)] m by blast
    moreover have "in_balance (q, g) (q', g') \<or> True \<and> balanced_by dw (q, g) (q', g')"
      using kept_then [of _ _ True, OF _ same_balanced [OF f(1), of g1]] b q'(2) by simp
    ultimately show ?thesis using keeps_trans [OF k(2) keeps_trans [OF m(4) f(2)]] plain_bare by simp
  next
    case None
    then have q': "q' = (if rq_handed_off q1 then q1 else q1\<lparr>rq_outcome := OutcomeServed\<rparr>)" "g' = g1" using r s by (simp_all add: proxy_def)
    have "bare q' \<and> asked q' \<and> keeps q1 q'"
      using m(2-) None unfolding q' by (auto simp: stage_defs bare_def)
    moreover have "in_balance (q1, g1) (q', g')" unfolding q' by (simp add: set_outcome_balanced)
    then have "in_balance (q, g) (q', g') \<or> True \<and> balanced_by dw (q, g) (q', g')"
      using kept_then [of "(q, g)" "(q1, g1)" True dw "(q', g')"] b by simp
    ultimately show ?thesis using keeps_trans [OF k(2) keeps_trans [OF m(4)]] by simp
  qed
qed

lemma models_ok:
  assumes a: "adapter_ok en" and p: "bare q" "rq_adm q = None" and r: "models hs en dec (q, g) = (q', g')"
  shows "in_balance (q, g) (q', g') \<and> bare q' \<and> keeps q q'"
proof -
  let ?q = "q\<lparr>rq_kind := models_endpoint\<rparr>"
  obtain e1 q1 g1 where s: "admit_key en (?q, g) = (e1, q1, g1)" by (cases "admit_key en (?q, g)") auto
  from admit_key_step [OF s] obtain x where b1: "in_balance (?q, g) (q1, g1)" and x: "q1 = ?q\<lparr>rq_adm := x\<rparr>" by blast
  have b: "in_balance (q, g) (q1, g1)" using b1 by (simp add: balanced_by_def held_defs)
  have q1: "bare q1" "keeps q q1" "rq_kind q1 = models_endpoint" using p by (simp_all add: x bare_def keeps_def)
  define q2 where "q2 = q1\<lparr>rq_outcome := OutcomeEngineErr\<rparr>"
  have failed: "in_balance (q, g) (fail_request en e r, g1) \<and> bare (fail_request en e r) \<and> keeps q (fail_request en e r)"
    if "r = q1 \<or> r = q2" for r e
  proof -
    have r: "bare r" "keeps q1 r" "in_balance (q1, g1) (r, g1)"
      using that q1 by (auto simp: q2_def bare_def keeps_def balanced_by_def held_defs)
    note f = fail_request_same [OF r(1) a, of e]
    have "bare (fail_request en e r)" using f r(1) by (simp add: same_resources_def bare_def)
    then show ?thesis
      using f r b q1 same_balanced [of r "fail_request en e r" g1] balanced_trans keeps_trans by blast
  qed
  have "g' = g1 \<and> ((\<exists>e. \<exists>r \<in> {q1, q2}. q' = fail_request en e r)
      \<or> (\<exists>v. q' = write_json (en_encoded_length en) v (q2\<lparr>rq_outcome := OutcomeServed\<rparr>)))"
  proof (cases e1)
    case (Some e)
    then show ?thesis using r s by (auto simp: models_def)
  next
    case None
    then show ?thesis using r s unfolding q2_def
      by (cases "en_engine en"; cases "dec (take max_upstream_body (er_body (case en_engine en of EngineReplied sn rs \<Rightarrow> rs)))")
        (auto simp: models_def Let_def split: if_splits)
  qed
  then show ?thesis
  proof (elim conjE disjE exE bexE)
    fix e r assume "g' = g1" "r \<in> {q1, q2}" "q' = fail_request en e r"
    then show ?thesis using failed by blast
  next
    fix v assume "g' = g1" and w: "q' = write_json (en_encoded_length en) v (q2\<lparr>rq_outcome := OutcomeServed\<rparr>)"
    moreover have "bare q' \<and> keeps q1 q' \<and> in_balance (q1, g1) (q', g1)"
      using q1 unfolding w by (simp add: write_json_def write_header_def q2_def bare_def keeps_def balanced_by_def held_defs Let_def)
    ultimately show ?thesis using b q1 balanced_trans keeps_trans by blast
  qed
qed

section \<open>The exit\<close>

lemma settle_admission_bare:
  assumes "bare q" and "settle_admission bb now gone q g = (charged, q', g')"
  shows "q' = (case rq_adm q of None \<Rightarrow> q | Some a \<Rightarrow> q\<lparr>rq_ev := (rq_ev q)\<lparr>ev_settled_at := now\<rparr>\<rparr>)"
    and "g' = g\<lparr>gw_limiter := gw_limiter g'\<rparr>"
    and "charged = (case rq_adm q of None \<Rightarrow> 0 | Some a \<Rightarrow> snd (settle_row q a))"
    and "case rq_adm q of None \<Rightarrow> g' = g
      | Some a \<Rightarrow> settle now a (fst (settle_row q a)) charged (gw_limiter g) = (now, gw_limiter g')"
  using assms
  by (auto simp: settle_admission_def settle_audio_def settle_image_def bare_def settle_def Let_def split: option.splits prod.splits)

lemma release_slot_queues:
  "holders (gw_queues (release_slot cap q g) i) = holders (gw_queues g i) - slot_held q i"
  "gw_limiter (release_slot cap q g) = gw_limiter g" "gw_leases (release_slot cap q g) = gw_leases g"
  "gw_bodies (release_slot cap q g) = gw_bodies g" "gw_recorded (release_slot cap q g) = gw_recorded g"
  by (auto simp: release_slot_def slot_held_def split: option.splits)

text \<open>What the exit does around the settlement.\<close>

lemma finish_fields:
  assumes "settle_admission bb t1 gone q (release_slot cap q g) = (charged, q2, g2)" and "\<not> rq_reading q"
    and "rq_buffered q2 = rq_buffered q" "rq_no_event q2 = rq_no_event q" "rq_lease q2 = rq_lease q"
    and "finish bb cap t1 t2 gone q g = g'"
  shows "gw_limiter g' = gw_limiter g2 \<and> gw_queues g' = gw_queues g2 \<and> gw_leases g' i = gw_leases g2 i - lease_held q i
     \<and> gw_bodies g' = gw_bodies g2 - body_held q
     \<and> gw_recorded g' = gw_recorded g2 @ (if rq_no_event q then [] else [final_event t2 charged q2])"
proof -
  have rd: "release_reading q g = g" using assms(2) by (simp add: release_reading_def split: option.splits)
  show ?thesis using assms(6) unfolding finish_def rd Let_def assms(1) case_prod_conv
    by (auto simp: assms(3-5) body_held_def lease_held_def split: option.splits if_splits)
qed

text \<open>The exit takes out of the shared state exactly what the record holds, and records the event.\<close>

lemma finish_gives_back:
  assumes "bare q" and "finish bb cap t1 t2 gone q g = g'"
  shows "in_flight_of g' kid = in_flight_of g kid - flight_held q kid
     \<and> reserved_of g' kid = reserved_of g kid - reserved_held q kid
     \<and> holders (gw_queues g' i) = holders (gw_queues g i) - slot_held q i
     \<and> gw_leases g' i = gw_leases g i - lease_held q i
     \<and> gw_bodies g' = gw_bodies g - body_held q
     \<and> (\<exists>ev. gw_recorded g' = gw_recorded g @ (if rq_no_event q then [] else [ev]) \<and> length (ev_endpoint ev) \<le> 64
          \<and> ev_key_id ev = ev_key_id (rq_ev q))"
proof -
  define g1 where "g1 = release_slot cap q g"
  obtain charged q2 g2 where s: "settle_admission bb t1 gone q g1 = (charged, q2, g2)" by (cases "settle_admission bb t1 gone q g1") auto
  note sb = settle_admission_bare [OF assms(1) s]
  have q2: "rq_buffered q2 = rq_buffered q" "rq_no_event q2 = rq_no_event q" "rq_lease q2 = rq_lease q"
    "ev_key_id (rq_ev q2) = ev_key_id (rq_ev q)"
    by (simp_all add: sb(1) split: option.splits)
  have nr: "\<not> rq_reading q" using assms(1) by (simp add: bare_def)
  note f = finish_fields [OF s [unfolded g1_def] nr q2(1-3) assms(2), of i]
  have lim: "in_flight_of g2 kid = in_flight_of g kid - flight_held q kid \<and> reserved_of g2 kid = reserved_of g kid - reserved_held q kid"
  proof (cases "rq_adm q")
    case None
    then have "g2 = g1" using sb(4) by simp
    then show ?thesis using None by (simp add: g1_def held_defs in_flight_of_def reserved_of_def release_slot_queues)
  next
    case (Some a)
    then have "settle t1 a (fst (settle_row q a)) charged (gw_limiter g1) = (t1, gw_limiter g2)" using sb(4) by simp
    from settle_share [OF this] Some show ?thesis
      by (simp add: g1_def held_defs in_flight_of_def reserved_of_def release_slot_queues)
  qed
  have g2: "gw_queues g2 = gw_queues g1" "gw_leases g2 = gw_leases g1" "gw_bodies g2 = gw_bodies g1" "gw_recorded g2 = gw_recorded g1"
    using arg_cong [OF sb(2), of gw_queues] arg_cong [OF sb(2), of gw_leases] arg_cong [OF sb(2), of gw_bodies]
      arg_cong [OF sb(2), of gw_recorded] by simp_all
  have fe: "length (ev_endpoint (final_event t2 charged q2)) \<le> 64 \<and> ev_key_id (final_event t2 charged q2) = ev_key_id (rq_ev q)"
    by (simp add: final_event_def max_endpoint_len_def q2 Let_def)
  have rs: "in_flight_of g' kid = in_flight_of g2 kid" "reserved_of g' kid = reserved_of g2 kid"
    using f by (simp_all add: in_flight_of_def reserved_of_def)
  show ?thesis unfolding rs using lim fe f g2
    by (simp add: g1_def release_slot_queues) blast
qed

section \<open>The handler\<close>

definition text_route :: "served_route \<Rightarrow> bool" where
  "text_route r \<longleftrightarrow> (case r of RouteModels \<Rightarrow> True | RouteProxy k \<Rightarrow> True | RouteUpgrade \<Rightarrow> True | RouteNone \<Rightarrow> True | _ \<Rightarrow> False)"

text \<open>The secret on the request resolves to no key: it came without one or with an unknown one.\<close>

definition unknown_secret :: "env \<Rightarrow> bool" where
  "unknown_secret en \<longleftrightarrow> (case bearer (en_auth en) of None \<Rightarrow> True | Some s \<Rightarrow> en_lookup en s = Inr None)"

definition known_key :: "env \<Rightarrow> string" where
  "known_key en = (case bearer (en_auth en) of None \<Rightarrow> [] | Some s \<Rightarrow> (case en_lookup en s of Inr (Some k) \<Rightarrow> k_id k | _ \<Rightarrow> []))"

definition fresh :: "request \<Rightarrow> bool" where
  "fresh q \<longleftrightarrow> bare q \<and> rq_adm q = None \<and> rq_lease q = None \<and> \<not> rq_buffered q \<and> \<not> rq_slot q \<and> rq_outcome q = OutcomeNone"

lemma touch_share:
  "ks_in_flight (key_state_of (touch now kid l) k) = ks_in_flight (key_state_of l k)"
  "meter c (key_state_of (touch now kid l) k) = meter c (key_state_of l k)"
  by (simp_all add: touch_def key_touch_def meter_def)

lemma see_request_balanced: "in_balance (q, g) (q, see_request en kid g)"
  by (simp add: balanced_by_def see_request_def in_flight_of_def reserved_of_def touch_share)

lemma authenticate_ok:
  assumes "fresh q" and "\<not> rq_no_event q" and "ev_key_id (rq_ev q) = []" and "authenticate_request en (q, g) = (err, q', g')"
  shows "in_balance (q, g) (q', g') \<and> fresh q' \<and> rq_destination q' = rq_destination q \<and> rq_path q' = rq_path q
     \<and> rq_method q' = rq_method q \<and> rq_no_event q' = unknown_secret en \<and> ev_key_id (rq_ev q') = known_key en
     \<and> (err = None \<longrightarrow> (\<exists>k s. rq_key q' = Some k \<and> k_status k = Active \<and> bearer (en_auth en) = Some s \<and> en_lookup en s = Inr (Some k)))"
proof (cases "bearer (en_auth en)")
  case None
  then show ?thesis using assms
    by (auto simp: authenticate_request_def unknown_secret_def known_key_def fresh_def bare_def balanced_by_def held_defs)
next
  case (Some s)
  show ?thesis
  proof (cases "\<exists>k. en_lookup en s = Inr (Some k)")
    case True
    then obtain k where k: "en_lookup en s = Inr (Some k)" by blast
    define q1 where "q1 = q\<lparr>rq_key := Some k, rq_ev := (rq_ev q)\<lparr>ev_key_id := k_id k\<rparr>\<rparr>"
    have e: "q' = q1 \<and> g' = see_request en (k_id k) g \<and> (err = None \<longrightarrow> k_status k = Active)"
      using assms(4) by (cases "k_status k") (auto simp: authenticate_request_def Some k q1_def Let_def)
    have "in_balance (q, g) (q1, g)" by (simp add: q1_def balanced_by_def held_defs)
    then have "in_balance (q, g) (q', g')" using e balanced_trans see_request_balanced by metis
    then show ?thesis using assms e by (auto simp: Some k unknown_secret_def known_key_def fresh_def bare_def q1_def)
  next
    case False
    then have "(\<exists>m. en_lookup en s = Inl m) \<or> en_lookup en s = Inr None" by (cases "en_lookup en s") auto
    then show ?thesis using assms
      by (auto simp: authenticate_request_def Some unknown_secret_def known_key_def fresh_def bare_def balanced_by_def held_defs)
  qed
qed

lemma fresh_phase: "fresh q \<Longrightarrow> rq_destination q \<noteq> None \<Longrightarrow> phase 0 q"
  by (simp add: fresh_def bare_def stage_defs)

lemma new_request_fresh:
  "fresh (new_request now r m p) \<and> \<not> rq_no_event (new_request now r m p) \<and> ev_key_id (rq_ev (new_request now r m p)) = []
     \<and> rq_destination (new_request now r m p) = route r p \<and> rq_path (new_request now r m p) = p \<and> rq_method (new_request now r m p) = m"
  by (simp add: new_request_def fresh_def bare_def empty_event_def Let_def split: option.splits)

lemma proxy_route_destination:
  "route_of m p up b = RouteProxy kind \<Longrightarrow> route (new_router cfg) p \<noteq> None"
  by (auto simp: route_of_def route_table endpoint_defs Let_def split: if_splits)

lemma serve_ok:
  assumes o: "others_ok hs en dw" and f: "fresh q" "\<not> rq_no_event q" "ev_key_id (rq_ev q) = []"
    and d: "\<And>kind. route_of (rq_method q) (rq_path q) up (rq_destination q \<noteq> None) = RouteProxy kind \<Longrightarrow> rq_destination q \<noteq> None"
    and t: "text_route (route_of (rq_method q) (rq_path q) up (rq_destination q \<noteq> None))"
    and r: "serve hs en dec up others (q, g) = (q', g')"
  shows "(in_balance (q, g) (q', g') \<or> True \<and> balanced_by dw (q, g) (q', g')) \<and> bare q'
     \<and> rq_no_event q' = unknown_secret en \<and> ev_key_id (rq_ev q') = known_key en
     \<and> (route_of (rq_method q) (rq_path q) up (rq_destination q \<noteq> None) \<noteq> RouteModels \<longrightarrow> asked q')"
proof -
  obtain e1 q1 g1 where a: "authenticate_request en (q, g) = (e1, q1, g1)" by (cases "authenticate_request en (q, g)") auto
  note au = authenticate_ok [OF f a]
  have ad: "adapter_ok en" using o by (simp add: others_ok_def)
  have b1: "bare q1" "rq_adm q1 = None" "asked q1" using au by (auto simp: fresh_def asked_def)
  let ?route = "route_of (rq_method q) (rq_path q) up (rq_destination q \<noteq> None)"
  have failed: ?thesis if "q' = fail_request en e q1" "g' = g1" for e
  proof -
    note s = fail_request_same [OF b1(1) ad, of e]
    have "in_balance (q1, g1) (q', g')" using s that same_balanced by blast
    then have "in_balance (q, g) (q', g')" using au balanced_trans by blast
    moreover have "asked q'" "bare q'" using s b1 that by (simp_all add: same_resources_def asked_def bare_def)
    ultimately show ?thesis using au s that by (simp add: keeps_def)
  qed
  show ?thesis
  proof (cases e1)
    case (Some e)
    then have "q' = fail_request en e q1" "g' = g1" using r by (simp_all add: serve_def a)
    then show ?thesis by (rule failed)
  next
    case None
    have route: "route_of (rq_method q1) (rq_path q1) up (rq_destination q1 \<noteq> None) = ?route" using au by simp
    show ?thesis
    proof (cases ?route)
      case RouteModels
      then have "models hs en dec (q1, g1) = (q', g')" using r None route by (simp add: serve_def a)
      from models_ok [OF ad b1(1,2) this] show ?thesis using au balanced_trans RouteModels by (simp add: keeps_def) blast
    next
      case (RouteProxy kind)
      then have p: "proxy hs en kind (q1, g1) = (q', g')" using r None route by (simp add: serve_def a)
      have "phase 0 q1" using au d [OF RouteProxy] fresh_phase [of q1] by simp
      note pr = proxy_ok [OF o this p]
      have "in_balance (q, g) (q', g') \<or> True \<and> balanced_by dw (q, g) (q', g')"
        using pr au balanced_trans [of "(q, g)" "(q1, g1)" "(q', g')"] balanced_trans_by [of "(q, g)" "(q1, g1)" dw "(q', g')"] by blast
      then show ?thesis using pr au by (simp add: keeps_def)
    next
      case RouteUpgrade
      then have "q' = fail_request en (errf CodeInvalidRequest 0 ''Responses requires POST over HTTP; WebSockets are not supported'' []) q1" "g' = g1"
        using r None route by (simp_all add: serve_def a)
      then show ?thesis by (rule failed)
    next
      case RouteNone
      then have "q' = fail_request en (errf CodeNotFound 0 ''no route for %s %s'' [FStr (rq_method q1), FStr (rq_path q1)]) q1" "g' = g1"
        using r None route by (simp_all add: serve_def a)
      then show ?thesis by (rule failed)
    qed (use t in \<open>simp_all add: text_route_def\<close>)
  qed
qed

lemma serve_http_parts:
  assumes "others_ok hs en dw" and "hs_router hs = new_router cfg"
    and "text_route (route_of m p up (route (hs_router hs) p \<noteq> None))"
    and "serve_http hs en dec up others now m p g = (q, g')"
  obtains g1 where "in_balance (new_request now (hs_router hs) m p, g) (q, g1)
      \<or> True \<and> balanced_by dw (new_request now (hs_router hs) m p, g) (q, g1)"
    and "bare q" and "rq_no_event q = unknown_secret en" and "ev_key_id (rq_ev q) = known_key en"
    and "route_of m p up (route (hs_router hs) p \<noteq> None) \<noteq> RouteModels \<Longrightarrow> asked q"
    and "finish_request hs en (q, g1) = g'"
proof -
  let ?q = "new_request now (hs_router hs) m p"
  note n = new_request_fresh [of now "hs_router hs" m p]
  obtain q1 g1 where s: "serve hs en dec up others (?q, g) = (q1, g1)" by (cases "serve hs en dec up others (?q, g)")
  have q: "q = q1" "finish_request hs en (q, en_between en 11 g1) = g'" using assms(4) by (auto simp: serve_http_def s)
  have "fresh ?q" "\<not> rq_no_event ?q" "ev_key_id (rq_ev ?q) = []" using n by blast+
  from serve_ok [OF assms(1) this _ _ s] n assms(2,3) proxy_route_destination
  have so: "(in_balance (?q, g) (q1, g1) \<or> True \<and> balanced_by dw (?q, g) (q1, g1)) \<and> bare q1
     \<and> rq_no_event q1 = unknown_secret en \<and> ev_key_id (rq_ev q1) = known_key en
     \<and> (route_of m p up (route (hs_router hs) p \<noteq> None) \<noteq> RouteModels \<longrightarrow> asked q1)" by simp
  have "in_balance (q1, g1) (q1, en_between en 11 g1)"
    using assms(1) by (intro balanced_neutral) (simp add: others_ok_def)
  then have "in_balance (?q, g) (q1, en_between en 11 g1) \<or> True \<and> balanced_by dw (?q, g) (q1, en_between en 11 g1)"
    using so kept_then [of "(?q, g)" "(q1, g1)" True dw] by blast
  then show ?thesis using so q that by simp
qed

lemma fresh_holds_nothing:
  "fresh q \<Longrightarrow> flight_held q kid = 0 \<and> reserved_held q kid = 0 \<and> slot_held q i = 0 \<and> lease_held q i = 0 \<and> body_held q = 0"
  by (simp add: fresh_def held_defs)

text \<open>A host and a well-behaved environment: a key that exists, a body, an engine that answers, nobody else about.\<close>

definition sample_host :: host where
  "sample_host = \<lparr>hs_router = new_router \<lparr>cf_embed = False, cf_images = False, cf_image_model = [], cf_transcribe = False,
       cf_transcribe_model = [], cf_speech = False, cf_speech_model = [], cf_models_pinned = [], cf_log_prompts = False\<rparr>,
     hs_log_prompts = False, hs_max_body = 4194304, hs_read_timeout = ''30s'', hs_queue_timeout = ''30s'', hs_idle_timeout = ''1m0s'',
     hs_backoff_base = 0, hs_runs = False\<rparr>"

definition sample_env :: "string \<Rightarrow> env" where
  "sample_env auth =
    \<lparr>en_auth = auth, en_lookup = (\<lambda>_. Inr (Some sample_body_key)), en_peer = None, en_touch_t = 1, en_session_t = 1, en_admit_t = 2,
     en_reserve_t = 3, en_settle_t = 4, en_end_t = 5, en_first_t = 4, en_queued_ms = 0, en_infos = (\<lambda>_. sample_info),
     en_managed = (\<lambda>_. NotManaged), en_content_length = 2, en_body = BodyRead ''{}'', en_decode = (\<lambda>_. Some sample_body),
     en_host_tools = [], en_hand_off = (\<lambda>_ _. None), en_translate = Inr, en_fail_responses = (\<lambda>_ q. q),
     en_pipe_responses = (\<lambda>_ q. (None, q)), en_count = (\<lambda>_ _ _. Some 3), en_joined = None, en_wait = [], en_acquired = True,
     en_engine = EngineReplied True sample_response, en_decode_error = (\<lambda>_. None), en_decode_reply = (\<lambda>_. Some (None, [])),
     en_decode_chunk = (\<lambda>_. None), en_io = (\<lambda>_. (4, True, True)), en_gone_engine = False, en_gone_relay = False,
     en_gone_fail = False, en_gone_finish = False, en_encoded_length = (\<lambda>_. 0), en_between = (\<lambda>_ g. g),
     en_while_waiting = (\<lambda>g. g)\<rparr>"

definition idle_gateway :: gateway where
  "idle_gateway = \<lparr>gw_limiter = new_limiter, gw_queues = (\<lambda>_. new_queue), gw_images = (\<lambda>_. new_image_engine), gw_bodies = 0,
     gw_leases = (\<lambda>_. 0), gw_sessions = [], gw_recorded = []\<rparr>"

lemma sample_others_ok: "others_ok sample_host (sample_env auth) (\<lambda>_. 0)"
  by (auto simp: others_ok_def neutral_def fair_wait_def adapter_ok_def sample_env_def same_resources_def same_but_outcome_def
      keeps_def wait_result_def wait_slot_def Let_def)

lemma sample_route: "route_of ''POST'' chat_endpoint [] (route (hs_router sample_host) chat_endpoint \<noteq> None) = RouteProxy chat_endpoint"
  by (simp add: route_of_def is_image_route_def is_run_route_def has_prefix_def endpoint_defs)







section \<open>The ledger and the log\<close>

definition charged_tokens :: "event \<Rightarrow> rat" where
  "charged_tokens ev =
     (case ev_meters ev of None \<Rightarrow> 0 | Some ms \<Rightarrow> sum_list (map um_charged (filter (\<lambda>m. um_class m = ''tokens'') ms)))"

lemma charge_meter_class [simp]: "um_class (charge_meter q c m) = um_class m"
  by (simp add: charge_meter_def)

lemma charged_tokens_final:
  assumes "ev_meters (rq_ev q) = None" and "snd (model_endpoint (ev_endpoint (rq_ev q))) = ''tokens''"
  shows "charged_tokens (final_event t c q) = of_int c"
  using assms by (simp add: charged_tokens_def final_event_def resource_meters_def charge_meter_def Let_def)

lemma key_settle_today:
  "ms_today (meter ''tokens'' (key_settle now a counted charged st)) =
     ms_today (meter ''tokens'' (prune now st)) + (if charged > 0 then of_int charged else 0)"
  by (simp add: key_settle_def Let_def)

text \<open>
  C4. The ledger and the log agree. What the exit of a text request adds to the key's tokens of the day is exactly
  what the event it records says was charged, on the event's accounting time, so counters rebuilt from the log after a
  restart are the ones the host had (an engine that reports negative usage aside).
\<close>

theorem ledger_agrees_with_log:
  assumes "bare q" and "rq_adm q = Some a" and "\<not> rq_no_event q" and "ev_meters (rq_ev q) = None"
    and "snd (model_endpoint (ev_endpoint (rq_ev q))) = ''tokens''" and "0 \<le> snd (settle_row q a)" and "settle_t \<noteq> 0"
    and "finish bb cap settle_t end_t gone q g = g'"
  shows "\<exists>ev. gw_recorded g' = gw_recorded g @ [ev] \<and> accounting_time ev = settle_t
     \<and> ms_today (meter ''tokens'' (key_state_of (gw_limiter g') (ad_key a))) =
         ms_today (meter ''tokens'' (prune settle_t (key_state_of (gw_limiter g) (ad_key a)))) + charged_tokens ev"
proof -
  define g1 where "g1 = release_slot cap q g"
  obtain charged q2 g2 where s: "settle_admission bb settle_t gone q g1 = (charged, q2, g2)"
    by (cases "settle_admission bb settle_t gone q g1") auto
  note sb = settle_admission_bare [OF assms(1) s]
  have q2: "q2 = q\<lparr>rq_ev := (rq_ev q)\<lparr>ev_settled_at := settle_t\<rparr>\<rparr>" using sb(1) assms(2) by simp
  have c: "charged = snd (settle_row q a)" using sb(3) assms(2) by simp
  have st: "settle settle_t a (fst (settle_row q a)) charged (gw_limiter g) = (settle_t, gw_limiter g2)"
    using sb(4) assms(2) by (simp add: g1_def release_slot_queues)
  have g2r: "gw_recorded g2 = gw_recorded g" using arg_cong [OF sb(2), of gw_recorded] by (simp add: g1_def release_slot_queues)
  have rd: "release_reading q g = g" using assms(1) by (simp add: release_reading_def bare_def split: option.splits)
  let ?ev = "final_event end_t charged q2"
  have g': "gw_recorded g' = gw_recorded g @ [?ev] \<and> gw_limiter g' = gw_limiter g2"
    using assms(3,8) g2r unfolding finish_def rd g1_def [symmetric] by (auto simp: s q2 Let_def split: option.splits)
  have "charged_tokens ?ev = of_int charged"
    using assms(4,5) by (intro charged_tokens_final) (simp_all add: q2)
  moreover have "accounting_time ?ev = settle_t"
    using assms(7) by (simp add: accounting_time_def final_event_def q2 is_zero_def Let_def)
  moreover have "gw_limiter g2 = (gw_limiter g)(ad_key a \<mapsto> key_settle settle_t a (fst (settle_row q a)) charged (key_state_of (gw_limiter g) (ad_key a)))"
    using st by (simp add: settle_def)
  ultimately show ?thesis using g' assms(6) c
    by (intro exI [of _ ?ev]) (auto simp: key_settle_today simp del: prune_sel)
qed

definition sample_served :: request where
  "sample_served = sample_request\<lparr>rq_adm := Some sample_admission, rq_kind := chat_endpoint, rq_outcome := OutcomeServed,
     rq_ev := (rq_ev sample_request)\<lparr>ev_prompt_tokens := 3, ev_completion_tokens := 4\<rparr>\<rparr>"

lemma sample_served_facts:
  "bare sample_served" "rq_adm sample_served = Some sample_admission" "\<not> rq_no_event sample_served"
  "ev_meters (rq_ev sample_served) = None" "ev_endpoint (rq_ev sample_served) = chat_endpoint"
  "snd (settle_row sample_served sample_admission) = 7"
  by (simp_all add: sample_served_def sample_request_def bare_def new_request_def empty_event_def settle_row_def
      counts_against_rpm_def endpoint_defs model_endpoint_def Let_def split: option.splits)

theorem ledger_agrees_with_log_witness:
  "\<exists>ev. gw_recorded (finish 0 1 9 9 False sample_served idle_gateway) = [ev] \<and> accounting_time ev = 9
     \<and> ms_today (meter ''tokens'' (key_state_of (gw_limiter (finish 0 1 9 9 False sample_served idle_gateway)) (ad_key sample_admission)))
         = charged_tokens ev"
proof -
  have "snd (model_endpoint (ev_endpoint (rq_ev sample_served))) = ''tokens''"
    by (simp add: sample_served_facts model_endpoint_def endpoint_defs)
  from ledger_agrees_with_log [OF sample_served_facts(1-4) this _ _ refl, of 9 0 1 9 False idle_gateway]
  have "\<exists>ev. gw_recorded (finish 0 1 9 9 False sample_served idle_gateway) = gw_recorded idle_gateway @ [ev] \<and> accounting_time ev = 9
     \<and> ms_today (meter ''tokens'' (key_state_of (gw_limiter (finish 0 1 9 9 False sample_served idle_gateway)) (ad_key sample_admission)))
         = ms_today (meter ''tokens'' (prune 9 (key_state_of (gw_limiter idle_gateway) (ad_key sample_admission)))) + charged_tokens ev"
    by (simp only: sample_served_facts)
  moreover have "ms_today (meter ''tokens'' (prune 9 (key_state_of (gw_limiter idle_gateway) (ad_key sample_admission)))) = 0"
    by (simp add: idle_gateway_def key_state_of_def new_limiter_def new_key_state_def meter_def zero_meter_def prune_def prune_meter_def Let_def)
  moreover have "gw_recorded idle_gateway = []" by (simp add: idle_gateway_def)
  ultimately show ?thesis by (simp only: append_Nil add_0_left)
qed

end
