(* ===== verification/Run_Store.thy ===== *)
theory Run_Store
  imports Run_Types
begin

text \<open>
  The durable store of runs (internal/run/store.go, with the budget of retained.go and the recovery and
  release of maintenance.go). Every operation holds the store's mutex, so it is a function of the store; it
  reads the clock through its argument \<open>now\<close>. What is outside the program comes in through a \<open>run_env\<close>: the
  JSON encoding, the random ids, the outcome of the \<open>n\<close>-th write of a state file, whether a MIME type parses and the
  \<open>Text\<close> field of an output. A lease is the pointer its holder keeps, told apart by a ticket.
\<close>

section \<open>The store\<close>

datatype disk_write = WriteDone | DirRefused run_error | WriteFailed string bool

text \<open>\<open>WriteFailed\<close> says whether the file had already been replaced when the write failed.\<close>

record run_env =
  rc_encode :: "snapshot \<Rightarrow> string option"
  rc_decode :: "snapshot \<Rightarrow> string \<Rightarrow> snapshot option"
  rc_valid :: "string \<Rightarrow> bool"
  rc_image :: "string \<Rightarrow> image_output option"
  rc_image_text :: "image_output \<Rightarrow> string"
  rc_retained_size :: "retained \<Rightarrow> int option"
  rc_random :: "nat \<Rightarrow> string"
  rc_write :: "nat \<Rightarrow> disk_write"
  rc_mime :: "string \<Rightarrow> bool"
  rc_text :: "string \<Rightarrow> string"

record reservation =
  rv_ticket :: nat
  rv_late :: bool
  rv_bytes :: int

record channel =
  ch_buffer :: "run_event list"
  ch_closed :: bool

datatype dir_status = DirPlain | DirNotPlain | DirError string
datatype state_file = NoFile | NotRegular | Unreadable string | StateFile string

record run_store =
  st_data :: "(string \<times> snapshot) list"
  st_broken :: "string \<Rightarrow> run_error option"
  st_subs :: "(string \<times> nat) list"
  st_channels :: "nat \<Rightarrow> channel"
  st_next_channel :: nat
  st_reserved :: "string \<Rightarrow> (string \<times> reservation) list"
  st_max_stored :: int
  st_image_cleanup :: "(string \<times> string) list"
  st_image_orphans :: "(string \<times> string) list"
  st_known :: "string list"
  st_accessed :: "string \<Rightarrow> gotime"
  st_recovered :: "string \<Rightarrow> bool"
  st_recovery :: bool
  st_dirs :: "string \<Rightarrow> dir_status"
  st_files :: "string \<Rightarrow> state_file"
  st_ids :: nat
  st_writes :: nat
  st_tickets :: nat

text \<open>\<open>NewStore\<close> over the directories found under the root (a name that is not a safe id is skipped).\<close>

definition new_store :: "string list \<Rightarrow> (string \<Rightarrow> dir_status) \<Rightarrow> (string \<Rightarrow> state_file) \<Rightarrow> run_store" where
  "new_store names dirs files =
     \<lparr>st_data = [], st_broken = (\<lambda>_. None), st_subs = [], st_channels = (\<lambda>_. \<lparr>ch_buffer = [], ch_closed = False\<rparr>),
      st_next_channel = 0, st_reserved = (\<lambda>_. []), st_max_stored = max_stored, st_image_cleanup = [], st_image_orphans = [],
      st_known = filter safe_id names, st_accessed = (\<lambda>_. 0), st_recovered = (\<lambda>_. False), st_recovery = False,
      st_dirs = dirs, st_files = files, st_ids = 0, st_writes = 0, st_tickets = 0\<rparr>"

definition fresh_id :: "run_env \<Rightarrow> string \<Rightarrow> run_store \<Rightarrow> string \<times> run_store" where
  "fresh_id en prefix s = (prefix @ rc_random en (st_ids s), s\<lparr>st_ids := st_ids s + 1\<rparr>)"

definition terminal_bound :: int where "terminal_bound = 4096"

definition store_budget :: "run_store \<Rightarrow> int" where "store_budget s = st_max_stored s - max_live_key * terminal_bound"
definition hard_cap :: "run_store \<Rightarrow> int" where "hard_cap s = st_max_stored s + max_runs * terminal_bound"

definition data_of :: "run_store \<Rightarrow> string \<Rightarrow> snapshot" where "data_of s key = row (new_snapshot []) key (st_data s)"

text \<open>The bytes of \<open>raw, _ := json.Marshal(v)\<close>: none when it fails.\<close>

definition encoded :: "run_env \<Rightarrow> snapshot \<Rightarrow> string" where
  "encoded en v = (case rc_encode en v of Some raw \<Rightarrow> raw | None \<Rightarrow> [])"

definition encoded_size :: "run_env \<Rightarrow> snapshot \<Rightarrow> int" where "encoded_size en v = int (length (encoded en v))"

definition mark_broken :: "string \<Rightarrow> run_error \<Rightarrow> run_store \<Rightarrow> run_store" where
  "mark_broken key e s =
     (if committed_terminal e \<or> e = ErrLimit \<or> e = ErrConflict \<or> e = ErrNotFound then s
      else s\<lparr>st_broken := (st_broken s)(key \<mapsto> e)\<rparr>)"

text \<open>\<open>imageOutput\<close>: the artifact an image run's output describes.\<close>

definition image_output_of :: "run_env \<Rightarrow> run \<Rightarrow> image_output option" where
  "image_output_of en r =
     (if rn_kind r \<noteq> ''image'' then None
      else (case rc_image en (rn_output r) of None \<Rightarrow> None | Some i \<Rightarrow> if io_url i \<noteq> [] then Some i else None))"

section \<open>The event log of a key\<close>

definition cursor_text :: "string \<Rightarrow> nat \<Rightarrow> string" where "cursor_text epoch n = epoch @ '':'' @ itoa (int n)"

fun number_events :: "string \<Rightarrow> nat \<Rightarrow> run_event list \<Rightarrow> run_event list" where
  "number_events epoch n [] = []"
| "number_events epoch n (e # es) = e\<lparr>re_cursor := cursor_text epoch (n + 1)\<rparr> # number_events epoch (n + 1) es"

definition keep_last :: "nat \<Rightarrow> 'a list \<Rightarrow> 'a list" where "keep_last n xs = drop (length xs - n) xs"

definition log_events :: "run_event list \<Rightarrow> snapshot \<Rightarrow> snapshot" where
  "log_events events v =
     v\<lparr>sn_seq := sn_seq v + length events, sn_events := keep_last 256 (sn_events v @ number_events (sn_epoch v) (sn_seq v) events)\<rparr>"

text \<open>
  \<open>publish\<close>: a subscriber whose buffer of 32 is full is closed and dropped, every other one gets the event.
\<close>

definition channel_full :: "run_store \<Rightarrow> nat \<Rightarrow> bool" where
  "channel_full s n \<longleftrightarrow> length (ch_buffer (st_channels s n)) \<ge> 32"

definition publish :: "string \<Rightarrow> run_event \<Rightarrow> run_store \<Rightarrow> run_store" where
  "publish key e s =
     s\<lparr>st_channels := (\<lambda>n. let c = st_channels s n in
          if (key, n) \<notin> set (st_subs s) then c
          else if channel_full s n then c\<lparr>ch_closed := True\<rparr>
          else c\<lparr>ch_buffer := ch_buffer c @ [e]\<rparr>),
       st_subs := filter (\<lambda>(k, n). \<not> (k = key \<and> channel_full s n)) (st_subs s)\<rparr>"

section \<open>The budget of a commit\<close>

definition reserved_bytes :: "run_store \<Rightarrow> string \<Rightarrow> int" where
  "reserved_bytes s key = sum_list (map (\<lambda>(rid, l). rv_bytes l) (st_reserved s key))"

text \<open>
  \<open>retainedBudget\<close>: the part of the run's own reservation the commit spends, or nothing when it does not fit.
  The caller takes the credit from the lease when the snapshot is written.
\<close>

definition retained_budget :: "run_store \<Rightarrow> string \<Rightarrow> string \<Rightarrow> int \<Rightarrow> int option" where
  "retained_budget s key rid sz =
     (let old = sn_encoded_bytes (data_of s key) in
      if sz < old then Some 0
      else
        (let credit = (if rid = [] then 0
                       else case map_of (st_reserved s key) rid of
                              None \<Rightarrow> 0 | Some l \<Rightarrow> min (rv_bytes l) (max 0 (sz - old)))
         in if sz + reserved_bytes s key - credit > store_budget s then None else Some credit))"

definition drop_leases :: "snapshot \<Rightarrow> (string \<times> reservation) list \<Rightarrow> (string \<times> reservation) list" where
  "drop_leases v leases =
     filter (\<lambda>(rid, l). \<not> ((\<not> has_row rid (sn_runs v) \<or> terminal (rn_state (run_row rid v))) \<and> \<not> rv_late l)) leases"

definition spend_lease :: "string \<Rightarrow> int \<Rightarrow> (string \<times> reservation) list \<Rightarrow> (string \<times> reservation) list" where
  "spend_lease rid credit leases =
     map (\<lambda>(k, l). (k, if k = rid then l\<lparr>rv_bytes := rv_bytes l - credit\<rparr> else l)) leases"

section \<open>Commit\<close>

text \<open>Rows of runs that are gone leave the two side tables.\<close>

definition drop_orphan_rows :: "snapshot \<Rightarrow> snapshot" where
  "drop_orphan_rows v =
     v\<lparr>sn_retained := filter (\<lambda>(rid, x). has_row rid (sn_runs v)) (sn_retained v),
       sn_exception_bytes := filter (\<lambda>(rid, x). has_row rid (sn_runs v)) (sn_exception_bytes v)\<rparr>"

text \<open>An image whose stored output changed is stamped and, unless the commit's own event names it, announced.\<close>

fun stamp_images ::
    "run_env \<Rightarrow> gotime \<Rightarrow> (string \<times> run) list \<Rightarrow> run_event option \<Rightarrow> (string \<times> run) list \<Rightarrow> (string \<times> run) list \<times> run_event list" where
  "stamp_images en now old event [] = ([], [])"
| "stamp_images en now old event ((rid, r) # rows) =
     (case stamp_images en now old event rows of (rows', extra) \<Rightarrow>
        if image_output_of en r \<noteq> None \<and> rn_output r \<noteq> rn_output (row no_run rid old) then
          ((rid, r\<lparr>rn_updated := now\<rparr>) # rows',
           (if map_option re_run_id event = Some rid then extra else state_event rid (rn_state r) now # extra))
        else ((rid, r) # rows', extra))"

text \<open>
  The exception for a change of state that does not fit the budget: the run gives up its new output, and when
  even that exceeds the bytes set aside for it, the run fails and the replay log is shortened.
\<close>

definition budget_output :: string where
  "budget_output = ''{'' @ quote ''error'' @ '':'' @ quote ''output not retained: budget'' @ ''}''"

definition strip_output :: "run_env \<Rightarrow> run \<Rightarrow> run \<Rightarrow> run" where
  "strip_output en before r =
     (if image_output_of en r \<noteq> None then r\<lparr>rn_reason := ''output not retained: budget''\<rparr>
      else if rn_output before \<noteq> [] then r\<lparr>rn_output := rn_output before\<rparr>
      else r\<lparr>rn_output := budget_output\<rparr>)"

definition strip_attempt :: "run \<Rightarrow> run_attempt \<Rightarrow> run_attempt" where
  "strip_attempt before a =
     (let prior = (if rn_attempts before \<noteq> [] \<and> at_id (last (rn_attempts before)) = at_id a
                   then (at_output (last (rn_attempts before)), ev_prompt (at_usage (last (rn_attempts before))),
                         ev_completion (at_usage (last (rn_attempts before))))
                   else ([], [], []))
      in a\<lparr>at_output := fst prior, at_usage := (at_usage a)\<lparr>ev_prompt := fst (snd prior), ev_completion := snd (snd prior)\<rparr>\<rparr>)"

definition update_last :: "('a \<Rightarrow> 'a) \<Rightarrow> 'a list \<Rightarrow> 'a list" where
  "update_last f xs = (if xs = [] then [] else butlast xs @ [f (last xs)])"

definition strip_run :: "run_env \<Rightarrow> run \<Rightarrow> run \<Rightarrow> run" where
  "strip_run en before r =
     (let r = strip_output en before r in r\<lparr>rn_attempts := update_last (strip_attempt before) (rn_attempts r)\<rparr>)"

definition growth :: "run_env \<Rightarrow> snapshot \<Rightarrow> snapshot \<Rightarrow> int" where
  "growth en old v = max 0 (encoded_size en v - sn_encoded_bytes old)"

definition fits_exception :: "run_env \<Rightarrow> int \<Rightarrow> snapshot \<Rightarrow> int \<Rightarrow> int \<Rightarrow> snapshot \<Rightarrow> bool" where
  "fits_exception en cap old used limit v \<longleftrightarrow> used + growth en old v \<le> limit \<and> encoded_size en v \<le> cap"

fun shorten_log :: "(snapshot \<Rightarrow> bool) \<Rightarrow> snapshot \<Rightarrow> run_event list \<Rightarrow> snapshot" where
  "shorten_log fits v [] = v\<lparr>sn_events := []\<rparr>"
| "shorten_log fits v (e # es) =
     (if fits (v\<lparr>sn_events := e # es\<rparr>) then v\<lparr>sn_events := e # es\<rparr> else shorten_log fits v es)"

definition fail_event :: "string \<Rightarrow> run_event \<Rightarrow> run_event" where
  "fail_event rid e = (if re_run_id e = rid then e\<lparr>re_state := Failed\<rparr> else e)"

definition fail_last_events :: "nat \<Rightarrow> string \<Rightarrow> run_event list \<Rightarrow> run_event list" where
  "fail_last_events n rid es = take (length es - n) es @ map (fail_event rid) (drop (length es - n) es)"

definition keep_held :: "string \<Rightarrow> (string \<times> retained) list \<Rightarrow> (string \<times> retained) list \<Rightarrow> (string \<times> retained) list" where
  "keep_held rid old new =
     (case map_of old rid of Some held \<Rightarrow> AList.update rid held new | None \<Rightarrow> AList.delete rid new)"

definition storage_exhausted :: "run \<Rightarrow> run" where
  "storage_exhausted r =
     r\<lparr>rn_state := Failed, rn_reason := ''storage exhausted'', rn_expires := rn_updated r + retention\<rparr>"

definition exhaust ::
    "run_env \<Rightarrow> int \<Rightarrow> snapshot \<Rightarrow> string \<Rightarrow> int \<Rightarrow> nat \<Rightarrow> snapshot \<Rightarrow> snapshot" where
  "exhaust en cap old rid used n v =
     (let w = v\<lparr>sn_runs := AList.update rid (storage_exhausted (run_row rid v)) (sn_runs v),
                 sn_retained := keep_held rid (sn_retained old) (sn_retained v),
                 sn_events := fail_last_events n rid (sn_events v)\<rparr>
      in shorten_log (fits_exception en cap old used terminal_bound) w (sn_events w))"

definition squeeze ::
    "run_env \<Rightarrow> int \<Rightarrow> snapshot \<Rightarrow> string \<Rightarrow> snapshot \<Rightarrow> run_event list \<Rightarrow> (snapshot \<times> run_event list) option" where
  "squeeze en cap old rid v events =
     (let r = strip_run en (run_row rid old) (run_row rid v);
          v1 = v\<lparr>sn_runs := AList.update rid r (sn_runs v), sn_exception_bytes := AList.update rid terminal_bound (sn_exception_bytes v)\<rparr>;
          used = row 0 rid (sn_exception_bytes old);
          limit = (if terminal (rn_state r) then terminal_bound else terminal_bound - 512);
          ok = fits_exception en cap old used limit v1;
          v2 = (if ok then v1 else exhaust en cap old rid used (length events) v1);
          events2 = (if ok then events else map (fail_event rid) events)
      in if fits_exception en cap old used terminal_bound v2
         then Some (v2\<lparr>sn_exception_bytes := AList.update rid (used + growth en old v2) (sn_exception_bytes v2)\<rparr>, events2)
         else None)"

definition write_snapshot ::
    "run_env \<Rightarrow> string \<Rightarrow> snapshot \<Rightarrow> string \<Rightarrow> run_event list \<Rightarrow> string \<Rightarrow> int \<Rightarrow> run_store
     \<Rightarrow> run_error option \<times> snapshot \<times> run_store" where
  "write_snapshot en key v raw events rid credit s =
     (let s1 = s\<lparr>st_writes := st_writes s + 1\<rparr> in
      case rc_write en (st_writes s) of
        DirRefused e \<Rightarrow> (Some e, v, mark_broken key e s1)
      | WriteFailed e replaced \<Rightarrow>
          (Some (ErrOther e), v,
           mark_broken key (ErrOther e) (if replaced then s1\<lparr>st_files := (st_files s1)(key := StateFile raw)\<rparr> else s1))
      | WriteDone \<Rightarrow>
          (let v = v\<lparr>sn_encoded_bytes := int (length raw)\<rparr>;
               s2 = s1\<lparr>st_files := (st_files s1)(key := StateFile raw), st_data := AList.update key v (st_data s1),
                       st_known := List.insert key (st_known s1),
                       st_reserved := (st_reserved s1)(key := drop_leases v (spend_lease rid credit (st_reserved s1 key)))\<rparr>
           in (None, v, fold (publish key) events s2)))"

definition lifecycle :: "run \<Rightarrow> run \<Rightarrow> bool" where
  "lifecycle before after \<longleftrightarrow> rn_state before \<noteq> rn_state after \<or> rn_cancel_requested before \<noteq> rn_cancel_requested after"

text \<open>The snapshot as it is about to be written, and the events of the commit.\<close>

definition staged ::
    "run_env \<Rightarrow> gotime \<Rightarrow> snapshot \<Rightarrow> run_event option \<Rightarrow> snapshot \<Rightarrow> snapshot \<times> run_event list" where
  "staged en now old event v =
     (let v = drop_orphan_rows v in
      case stamp_images en now (sn_runs old) event (sn_runs v) of (rows, extra) \<Rightarrow>
        (let v = v\<lparr>sn_runs := rows\<rparr>; events = (case event of None \<Rightarrow> [] | Some e \<Rightarrow> [e]) @ extra
         in (log_events events v, number_events (sn_epoch v) (sn_seq v) events)))"

definition commit_for ::
    "run_env \<Rightarrow> gotime \<Rightarrow> string \<Rightarrow> snapshot \<Rightarrow> run_event option \<Rightarrow> string \<Rightarrow> run_store
     \<Rightarrow> run_error option \<times> snapshot \<times> run_store" where
  "commit_for en now key v event rid s =
     (case st_broken s key of Some e \<Rightarrow> (Some e, v, s) | None \<Rightarrow>
        (let old = data_of s key in
         case staged en now old event v of (v, events) \<Rightarrow>
         (case rc_encode en v of None \<Rightarrow> (Some (ErrOther ''marshal''), v, s)
          | Some raw \<Rightarrow>
             (case retained_budget s key rid (int (length raw)) of
                Some credit \<Rightarrow> write_snapshot en key v raw events rid credit s
              | None \<Rightarrow>
                  (if rn_id (run_row rid old) \<noteq> [] \<and> lifecycle (run_row rid old) (run_row rid v) then
                     (case squeeze en (hard_cap s) old rid v events of
                        None \<Rightarrow> (Some ErrLimit, v, s)
                      | Some (w, events') \<Rightarrow> write_snapshot en key w (encoded en w) events' [] 0 s)
                   else (Some ErrLimit, v, s))))))"

definition commit ::
    "run_env \<Rightarrow> gotime \<Rightarrow> string \<Rightarrow> snapshot \<Rightarrow> run_event option \<Rightarrow> run_store \<Rightarrow> run_error option \<times> snapshot \<times> run_store" where
  "commit en now key v event s =
     commit_for en now key v event (case event of None \<Rightarrow> [] | Some e \<Rightarrow> re_run_id e) s"

section \<open>Loading a key\<close>

text \<open>What \<open>load\<close> checks of a file it decoded.\<close>

fun cursors_from :: "string \<Rightarrow> nat \<Rightarrow> run_event list \<Rightarrow> bool" where
  "cursors_from epoch n [] = True"
| "cursors_from epoch n (e # es) = (re_cursor e = cursor_text epoch (n + 1) \<and> cursors_from epoch (n + 1) es)"

definition row_ok :: "string \<Rightarrow> string \<times> run \<Rightarrow> bool" where
  "row_ok key = (\<lambda>(rid, r). rid = rn_id r \<and> rn_key_id r = key \<and> safe_id rid \<and> valid_state (rn_state r))"

definition file_ok :: "string \<Rightarrow> snapshot \<Rightarrow> bool" where
  "file_ok key v \<longleftrightarrow>
     safe_id (sn_epoch v) \<and> int (length (sn_runs v)) \<le> max_runs \<and> length (sn_events v) \<le> 256
     \<and> length (sn_events v) \<le> sn_seq v
     \<and> cursors_from (sn_epoch v) (sn_seq v - length (sn_events v)) (sn_events v)
     \<and> list_all (\<lambda>e. safe_id (re_run_id e) \<and> valid_state (re_state e)) (sn_events v)
     \<and> list_all (row_ok key) (sn_runs v)
     \<and> list_all (\<lambda>(rid, used). has_row rid (sn_runs v) \<and> 0 \<le> used \<and> used \<le> terminal_bound) (sn_exception_bytes v)
     \<and> list_all (\<lambda>(rid, x). has_row rid (sn_runs v)) (sn_retained v)"

definition cleanup_ok :: "snapshot \<Rightarrow> bool" where
  "cleanup_ok v \<longleftrightarrow> list_all (\<lambda>rid. safe_id rid \<and> \<not> has_row rid (sn_runs v)) (sn_cleanup v)"

definition read_state :: "run_env \<Rightarrow> int \<Rightarrow> string \<Rightarrow> snapshot \<Rightarrow> string \<Rightarrow> run_error + snapshot" where
  "read_state en cap key v content =
     (let raw = take (nat (cap + 1)) content in
      if int (length raw) > cap then Inl ErrLimit
      else (case rc_decode en v raw of
              None \<Rightarrow> Inl (ErrOther ''json'')
            | Some w \<Rightarrow> if file_ok key w then Inr (w\<lparr>sn_encoded_bytes := int (length raw)\<rparr>) else Inl ErrInvalid))"

text \<open>A live run whose exception bytes leave no room to fail it: the key needs the operator.\<close>

definition probe_run :: "gotime \<Rightarrow> run \<Rightarrow> run" where
  "probe_run now r =
     r\<lparr>rn_state := Failed, rn_reason := ''storage exhausted'', rn_updated := now, rn_expires := now + retention,
       rn_output := (if rn_output r = [] then budget_output else rn_output r)\<rparr>"

definition probe_fails :: "run_env \<Rightarrow> int \<Rightarrow> gotime \<Rightarrow> snapshot \<Rightarrow> string \<times> int \<Rightarrow> bool" where
  "probe_fails en cap now v = (\<lambda>(rid, used).
     let r = run_row rid v in
     if terminal (rn_state r) \<or> terminal_bound - used \<ge> 512 then False
     else (let sz = encoded_size en (v\<lparr>sn_events := [], sn_seq := sn_seq v + 1,
                       sn_runs := AList.update rid (probe_run now r) (sn_runs v)\<rparr>)
           in used + max 0 (sz - sn_encoded_bytes v) > terminal_bound \<or> sz > cap))"

definition restore_cleanup :: "string \<Rightarrow> snapshot \<Rightarrow> run_store \<Rightarrow> run_store" where
  "restore_cleanup key v s =
     s\<lparr>st_image_cleanup := fold List.insert (map (Pair key) (sn_cleanup v)) (st_image_cleanup s),
       st_image_orphans := filter (\<lambda>p. p \<notin> Pair key ` set (sn_cleanup v)) (st_image_orphans s)\<rparr>"

text \<open>Restart recovery: a run that was live when the host stopped has failed; its work is not replayed.\<close>

definition interrupted :: "gotime \<Rightarrow> run \<Rightarrow> run" where
  "interrupted now r =
     r\<lparr>rn_state := Failed, rn_reason := ''interrupted'', rn_updated := now, rn_expires := now + retention,
       rn_attempts := map (\<lambda>a. if at_settled a then a else a\<lparr>at_accounting_uncertain := True\<rparr>) (rn_attempts r)\<rparr>"

definition interrupt_step :: "step_event \<Rightarrow> step_event" where
  "interrupt_step st =
     (if se_status st = ''running'' \<or> se_status st = ''waiting''
      then st\<lparr>se_status := ''failed'', se_result := ''interrupted; image submission outcome not confirmed; not submitted again''\<rparr>
      else st)"

definition interrupted_snapshot :: "gotime \<Rightarrow> string \<Rightarrow> run \<Rightarrow> snapshot \<Rightarrow> snapshot" where
  "interrupted_snapshot now rid r v =
     (let data = row no_retained rid (sn_retained v);
          held = (if rn_kind r = ''chat'' then AList.update rid (data\<lparr>rt_steps := map interrupt_step (rt_steps data)\<rparr>) (sn_retained v)
                  else sn_retained v)
      in v\<lparr>sn_retained := held, sn_runs := AList.update rid (interrupted now r) (sn_runs v)\<rparr>)"

text \<open>
  The write \<open>next.Retained[id] = data\<close> of a chat run panics when the map is nil, which is what decoding a
  snapshot without retained rows leaves.
\<close>

fun recover_rows ::
    "run_env \<Rightarrow> gotime \<Rightarrow> string \<Rightarrow> (string \<times> run) list \<Rightarrow> run_store \<Rightarrow> run_error option \<times> run_store" where
  "recover_rows en now key [] s = (None, s\<lparr>st_recovered := (st_recovered s)(key := True)\<rparr>)"
| "recover_rows en now key ((rid, r) # rows) s =
     (if terminal (rn_state r) then recover_rows en now key rows s
      else if rn_kind r = ''chat'' \<and> sn_retained (data_of s key) = [] then (Some (ErrPanic ''assignment to entry in nil map''), s)
      else (case commit en now key (interrupted_snapshot now rid r (data_of s key)) (Some (state_event rid Failed now)) s of
              (None, _, s) \<Rightarrow> recover_rows en now key rows s
            | (Some e, _, s) \<Rightarrow>
                (Some e, (mark_broken key e s)\<lparr>st_data := AList.delete key (st_data s), st_recovered := (st_recovered s)(key := False)\<rparr>)))"

definition recover_key :: "run_env \<Rightarrow> gotime \<Rightarrow> string \<Rightarrow> run_store \<Rightarrow> run_error option \<times> run_store" where
  "recover_key en now key s = recover_rows en now key (sn_runs (data_of s key)) s"

text \<open>The part of \<open>load\<close> that reads the disk.\<close>

definition open_state :: "run_env \<Rightarrow> gotime \<Rightarrow> string \<Rightarrow> run_store \<Rightarrow> (run_error + snapshot) \<times> run_store" where
  "open_state en now key s =
     (case st_dirs s key of
        DirNotPlain \<Rightarrow> (Inl ErrInvalid, s)
      | DirError e \<Rightarrow> (Inl (ErrOther e), s)
      | DirPlain \<Rightarrow>
          (case fresh_id en ''e_'' s of (epoch, s) \<Rightarrow>
             (case (case st_files s key of
                      NoFile \<Rightarrow> Inr (new_snapshot epoch)
                    | NotRegular \<Rightarrow> Inl ErrInvalid
                    | Unreadable e \<Rightarrow> Inl (ErrOther e)
                    | StateFile content \<Rightarrow> read_state en (hard_cap s) key (new_snapshot epoch) content) of
                Inl e \<Rightarrow> (Inl e, s)
              | Inr v \<Rightarrow>
                  (let v = (if sn_encoded_bytes v = 0 then v\<lparr>sn_encoded_bytes := encoded_size en v\<rparr> else v) in
                   if list_ex (probe_fails en (hard_cap s) now v) (sn_exception_bytes v)
                   then (Inl ErrNeedsAttention, mark_broken key ErrNeedsAttention s)
                   else if \<not> cleanup_ok v then (Inl ErrInvalid, s)
                   else (Inr v, restore_cleanup key v s)))))"

definition keep_state :: "run_env \<Rightarrow> gotime \<Rightarrow> string \<Rightarrow> snapshot \<Rightarrow> run_store \<Rightarrow> (run_error + snapshot) \<times> run_store" where
  "keep_state en now key v s =
     (let s = s\<lparr>st_data := AList.update key v (st_data s)\<rparr> in
      if st_recovery s \<and> \<not> st_recovered s key
      then (case recover_key en now key s of (Some e, s) \<Rightarrow> (Inl e, s) | (None, s) \<Rightarrow> (Inr (data_of s key), s))
      else (Inr v, s))"

definition load :: "run_env \<Rightarrow> gotime \<Rightarrow> string \<Rightarrow> run_store \<Rightarrow> (run_error + snapshot) \<times> run_store" where
  "load en now key s =
     (if \<not> safe_id key then (Inl ErrInvalid, s)
      else case st_broken s key of Some e \<Rightarrow> (Inl e, s) | None \<Rightarrow>
        (let s = s\<lparr>st_accessed := (st_accessed s)(key := now)\<rparr> in
         case map_of (st_data s) key of Some v \<Rightarrow> (Inr v, s)
         | None \<Rightarrow>
             (case open_state en now key s of
                (Inl e, s) \<Rightarrow> (Inl e, s)
              | (Inr v, s) \<Rightarrow> keep_state en now key v s)))"

section \<open>Reading\<close>

definition idle_release :: duration where "idle_release = 5 * minute"

definition release_idle :: "gotime \<Rightarrow> run_store \<Rightarrow> run_store" where
  "release_idle now s =
     s\<lparr>st_data := filter (\<lambda>(key, v). st_broken s key = None
          \<and> (live (sn_runs v) \<noteq> [] \<or> key \<in> fst ` set (st_subs s) \<or> time_sub now (st_accessed s key) < idle_release)) (st_data s)\<rparr>"

definition get_run :: "run_env \<Rightarrow> gotime \<Rightarrow> string \<Rightarrow> string \<Rightarrow> run_store \<Rightarrow> (run_error + run) \<times> run_store" where
  "get_run en now key rid s =
     (case load en now key s of
        (Inl e, s) \<Rightarrow> (Inl e, s)
      | (Inr v, s) \<Rightarrow> (case map_of (sn_runs v) rid of None \<Rightarrow> (Inl ErrNotFound, s) | Some r \<Rightarrow> (Inr r, s)))"

definition is_panic :: "run_error \<Rightarrow> bool" where
  "is_panic e \<longleftrightarrow> (case e of ErrPanic _ \<Rightarrow> True | _ \<Rightarrow> False)"

text \<open>The load of every known key by \<open>list("")\<close>: a key that fails is marked, its last access is kept.\<close>

fun load_all :: "run_env \<Rightarrow> gotime \<Rightarrow> string list \<Rightarrow> run_store \<Rightarrow> run_error option \<times> run_store" where
  "load_all en now [] s = (None, s)"
| "load_all en now (k # ks) s =
     (case load en now k s of
        (Inl e, t) \<Rightarrow> (if is_panic e then (Some e, t)
                        else load_all en now ks ((mark_broken k e t)\<lparr>st_accessed := (st_accessed t)(k := st_accessed s k)\<rparr>))
      | (Inr v, t) \<Rightarrow> load_all en now ks (t\<lparr>st_accessed := (st_accessed t)(k := st_accessed s k)\<rparr>))"

definition rows_of :: "string \<Rightarrow> run_store \<Rightarrow> run_summary list" where
  "rows_of key s =
     concat (map (\<lambda>(k, v). if st_broken s k \<noteq> None \<or> (key \<noteq> [] \<and> key \<noteq> k) then [] else map (summary \<circ> snd) (sn_runs v)) (st_data s))"

definition list_runs :: "run_env \<Rightarrow> gotime \<Rightarrow> string \<Rightarrow> run_store \<Rightarrow> (run_error + run_summary list) \<times> run_store" where
  "list_runs en now key s =
     (case (if key = [] then load_all en now (st_known s) s
            else (case load en now key s of (Inl e, s) \<Rightarrow> (Some e, s) | (Inr v, s) \<Rightarrow> (None, s))) of
        (Some e, s) \<Rightarrow> (Inl e, s)
      | (None, s) \<Rightarrow> (Inr (sort_key sm_id (rows_of key s)), release_idle now s))"

section \<open>Subscriptions\<close>

text \<open>\<open>strconv.ParseUint(s, 10, 64)\<close>.\<close>

definition parse_uint :: "string \<Rightarrow> nat option" where
  "parse_uint s = (if s \<noteq> [] \<and> list_all is_digit s \<and> digits_value s < 2 ^ 64 then Some (digits_value s) else None)"

definition event_number :: "run_event \<Rightarrow> nat" where
  "event_number e = (case parse_uint (split_on CHR '':'' (re_cursor e) ! 1) of Some n \<Rightarrow> n | None \<Rightarrow> 0)"

text \<open>A cursor that cannot be read is an error; otherwise the number to resume from and whether to reset.\<close>

definition read_cursor :: "string \<Rightarrow> snapshot \<Rightarrow> run_error + nat \<times> bool" where
  "read_cursor cursor v =
     (if cursor = [] then Inr (0, True)
      else let parts = split_on CHR '':'' cursor in
        if length parts \<noteq> 2 \<or> \<not> safe_id (parts ! 0) then Inl ErrInvalid
        else (case parse_uint (parts ! 1) of
                None \<Rightarrow> Inl ErrInvalid
              | Some n \<Rightarrow> if parts ! 0 = sn_epoch v \<and> n > sn_seq v then Inl ErrInvalid else Inr (n, parts ! 0 \<noteq> sn_epoch v)))"

definition subscribe ::
    "run_env \<Rightarrow> gotime \<Rightarrow> string \<Rightarrow> string \<Rightarrow> run_store \<Rightarrow> (run_error + run_event list \<times> nat) \<times> run_store" where
  "subscribe en now key cursor s =
     (case load en now key s of
        (Inl e, s) \<Rightarrow> (Inl e, s)
      | (Inr v, s) \<Rightarrow>
          if length (filter (\<lambda>(k, n). k = key) (st_subs s)) \<ge> 2 then (Inl ErrLimit, s)
          else (case read_cursor cursor v of
                  Inl e \<Rightarrow> (Inl e, s)
                | Inr (from, reset) \<Rightarrow>
                    (case (if reset \<or> from < sn_seq v - length (sn_events v)
                           then (case list_runs en now key s of (res, s) \<Rightarrow>
                                   ([reset_event (cursor_text (sn_epoch v) (sn_seq v)) now (case res of Inr rows \<Rightarrow> rows | Inl e \<Rightarrow> [])], s))
                           else (filter (\<lambda>e. event_number e > from) (sn_events v), s)) of
                       (replay, s) \<Rightarrow>
                         (let n = st_next_channel s in
                          (Inr (replay, n), s\<lparr>st_next_channel := n + 1, st_subs := st_subs s @ [(key, n)],
                               st_channels := (st_channels s)(n := \<lparr>ch_buffer = [], ch_closed = False\<rparr>)\<rparr>)))))"

definition unsubscribe :: "string \<Rightarrow> nat \<Rightarrow> run_store \<Rightarrow> run_store" where
  "unsubscribe key n s =
     (if (key, n) \<in> set (st_subs s)
      then s\<lparr>st_subs := removeAll (key, n) (st_subs s), st_channels := (st_channels s)(n := (st_channels s n)\<lparr>ch_closed := True\<rparr>)\<rparr>
      else s)"

section \<open>Changing a run\<close>

fun changed_step :: "step_event list \<Rightarrow> step_event list \<Rightarrow> step_event option" where
  "changed_step old [] = None"
| "changed_step [] (st # sts) = Some st"
| "changed_step (x # old) (st # sts) = (if st = x then changed_step old sts else Some st)"

definition change_event :: "gotime \<Rightarrow> string \<Rightarrow> retained \<Rightarrow> retained \<Rightarrow> bool \<Rightarrow> run \<Rightarrow> run_event option" where
  "change_event now rid old new cycle r =
     (let ev = (state_event rid (rn_state r) now)\<lparr>re_attempt_id := (if rn_attempts r = [] then [] else at_id (last (rn_attempts r)))\<rparr> in
      case changed_step (rt_steps old) (rt_steps new) of
        Some st \<Rightarrow> Some (ev\<lparr>re_type := ''step'', re_step := Some st\<rparr>)
      | None \<Rightarrow> if cycle then Some ev else None)"

text \<open>
  \<open>change\<close>: \<open>fn\<close> edits the run, the optional \<open>upd\<close> its retained row (with the store it is called in, for
  the leases it reads). The answer is the committed run; when the commit ended the run instead, that is an error
  that carries it.
\<close>

definition changed_run :: "gotime \<Rightarrow> run \<Rightarrow> run \<Rightarrow> run" where
  "changed_run now before r =
     (let r = r\<lparr>rn_updated := now\<rparr> in
      if terminal (rn_state r) \<and> \<not> terminal (rn_state before) then r\<lparr>rn_expires := now + retention\<rparr> else r)"

definition edit_retained ::
    "(run_store \<Rightarrow> retained \<Rightarrow> run_error + retained) option \<Rightarrow> run_store \<Rightarrow> string \<Rightarrow> (string \<times> retained) list
     \<Rightarrow> run_error + (string \<times> retained) list \<times> retained" where
  "edit_retained upd s rid rows =
     (let held = row no_retained rid rows in
      case upd of
        None \<Rightarrow> Inr (rows, held)
      | Some f \<Rightarrow> (case f s held of Inl e \<Rightarrow> Inl e | Inr x \<Rightarrow> Inr (AList.update rid x rows, x)))"

definition change ::
    "run_env \<Rightarrow> gotime \<Rightarrow> string \<Rightarrow> string \<Rightarrow> (run \<Rightarrow> run_error + run) \<Rightarrow> (run_store \<Rightarrow> retained \<Rightarrow> run_error + retained) option
     \<Rightarrow> run_store \<Rightarrow> (run_error option \<times> run) \<times> run_store" where
  "change en now key rid fn upd s =
     (case load en now key s of
        (Inl e, s) \<Rightarrow> ((Some e, no_run), s)
      | (Inr v, s) \<Rightarrow>
          (case map_of (sn_runs v) rid of
             None \<Rightarrow> ((Some ErrNotFound, no_run), s)
           | Some before \<Rightarrow>
               (case fn before of
                  Inl e \<Rightarrow> ((Some e, no_run), s)
                | Inr r \<Rightarrow>
                    (case edit_retained upd s rid (sn_retained v) of
                       Inl e \<Rightarrow> ((Some e, no_run), s)
                     | Inr (kept, new) \<Rightarrow>
                         (let r = changed_run now before r;
                              event = change_event now rid (row no_retained rid (sn_retained v)) new (lifecycle before r) r
                          in case commit_for en now key (v\<lparr>sn_runs := AList.update rid r (sn_runs v), sn_retained := kept\<rparr>) event rid s of
                               (Some e, w, s) \<Rightarrow> ((Some e, no_run), s)
                             | (None, w, s) \<Rightarrow>
                                 (let c = run_row rid w in
                                  ((if rn_state c \<noteq> rn_state r then Some (CommittedTerminal c) else None, c), s)))))))"

section \<open>Creating runs\<close>

fun check_inputs :: "run_env \<Rightarrow> string \<Rightarrow> string list \<Rightarrow> run_error option" where
  "check_inputs en priority [] = None"
| "check_inputs en priority (inp # inps) =
     (if length inp > max_input then Some ErrLimit
      else if \<not> rc_valid en inp \<or> (priority \<noteq> ''interactive'' \<and> priority \<noteq> ''planted'') then Some ErrInvalid
      else check_inputs en priority inps)"

definition new_run :: "gotime \<Rightarrow> string \<Rightarrow> string \<Rightarrow> string \<Rightarrow> string \<Rightarrow> string \<Rightarrow> nat \<Rightarrow> nat \<Rightarrow> string \<Rightarrow> string \<Rightarrow> run" where
  "new_run now cid key kind priority batch count i inp rid =
     \<lparr>rn_client_request_id = cid, rn_started = None,
      rn_batch = (if kind = ''image'' then Some \<lparr>ba_id = batch, ba_index = i, ba_count = count\<rparr> else None),
      rn_id = rid, rn_key_id = key, rn_kind = kind, rn_priority = priority, rn_state = Queued, rn_created = now + int i,
      rn_updated = now, rn_expires = now + max_age, rn_cancel_requested = False, rn_reason = [], rn_input = inp, rn_output = [],
      rn_attempts = []\<rparr>"

fun new_rows ::
    "run_env \<Rightarrow> (nat \<Rightarrow> string \<Rightarrow> string \<Rightarrow> run) \<Rightarrow> nat \<Rightarrow> string list \<Rightarrow> run_store \<Rightarrow> run list \<times> run_store" where
  "new_rows en mk i [] s = ([], s)"
| "new_rows en mk i (inp # inps) s =
     (case fresh_id en ''r_'' s of (rid, s) \<Rightarrow> case new_rows en mk (i + 1) inps s of (rs, s) \<Rightarrow> (mk i inp rid # rs, s))"

definition count_live :: "run_store \<Rightarrow> nat" where
  "count_live s = sum_list (map (\<lambda>(k, v). if st_broken s k = None then length (live (sn_runs v)) else 0) (st_data s))"

text \<open>
  What the rows of a key leave free: the limits are checked in this order, an image batch first against its own
  queue.
\<close>

definition batch_limit :: "string \<Rightarrow> int \<Rightarrow> int \<Rightarrow> (string \<times> run) list \<Rightarrow> run_error option" where
  "batch_limit kind n cap rows =
     (let live_rows = map snd (live rows);
          key_live = int (length live_rows);
          image_live = int (length (filter (\<lambda>r. rn_kind r = ''image'') live_rows));
          queued = int (length (filter (\<lambda>r. rn_kind r = kind \<and> rn_state r = Queued) live_rows))
      in if kind = ''image'' \<and> image_live + n > max_live_key \<or> kind = ''image'' \<and> cap \<ge> 0 \<and> queued + n > cap then Some ErrQueueLimit
         else if key_live + n > max_live_key \<or> int (length rows) + n > max_runs then Some ErrLimit
         else if cap \<ge> 0 \<and> queued + n > cap then Some ErrQueueLimit
         else None)"

definition batch_arguments :: "run_env \<Rightarrow> string \<Rightarrow> string \<Rightarrow> string list \<Rightarrow> string list \<Rightarrow> run_error option" where
  "batch_arguments en kind priority inputs correlation =
     (if length correlation > 1 then Some ErrInvalid
      else if correlation \<noteq> [] \<and> \<not> correlation_id (hd correlation) then Some ErrInvalid
      else if kind = ''image'' \<and> int (length inputs) > max_live_key then Some ErrQueueLimit
      else if inputs = [] \<or> int (length inputs) > max_live_key then Some ErrLimit
      else check_inputs en priority inputs)"

text \<open>
  \<open>createBatch\<close>. The admission hook of the caller runs on the caller's own state (\<open>'w\<close>) and answers with the
  step that undoes it, which runs when the batch is refused after all.
\<close>

type_synonym 'w batch_hook = "run list \<Rightarrow> 'w \<Rightarrow> (run_error + ('w \<Rightarrow> 'w)) \<times> 'w"

definition create_batch ::
    "run_env \<Rightarrow> gotime \<Rightarrow> string \<Rightarrow> string \<Rightarrow> string \<Rightarrow> string list \<Rightarrow> int \<Rightarrow> string list \<Rightarrow> 'w batch_hook option
     \<Rightarrow> run_store \<times> 'w \<Rightarrow> (run_error + run list) \<times> run_store \<times> 'w" where
  "create_batch en now key kind priority inputs cap correlation admit = (\<lambda>(s, world).
     case batch_arguments en kind priority inputs correlation of Some e \<Rightarrow> (Inl e, s, world) | None \<Rightarrow>
     (case load en now key s of
        (Inl e, s) \<Rightarrow> (Inl e, s, world)
      | (Inr v, s) \<Rightarrow>
          (case batch_limit kind (int (length inputs)) cap (sn_runs v) of Some e \<Rightarrow> (Inl e, s, world) | None \<Rightarrow>
           (case fresh_id en ''b_'' s of (batch, s) \<Rightarrow>
            (case new_rows en (new_run now (if correlation = [] then [] else hd correlation) key kind priority batch (length inputs)) 0 inputs s of
               (rows, s) \<Rightarrow>
               (case (case admit of None \<Rightarrow> (Inr id, world) | Some f \<Rightarrow> f rows world) of
                  (Inl e, world) \<Rightarrow> (Inl e, s, world)
                | (Inr undo, world) \<Rightarrow>
                    if int (count_live s) + int (length inputs) > max_live_host then (Inl ErrLimit, s, undo world)
                    else (case commit en now key (v\<lparr>sn_runs := fold (\<lambda>r. AList.update (rn_id r) r) rows (sn_runs v)\<rparr>)
                                 (Some (state_event (rn_id (hd rows)) Queued now)) s of
                            (Some e, w, s) \<Rightarrow> (Inl e, s, undo world)
                          | (None, w, s) \<Rightarrow> (Inr (map (\<lambda>r. run_row (rn_id r) w) rows), s, world))))))))"

definition create :: "run_env \<Rightarrow> gotime \<Rightarrow> string \<Rightarrow> string \<Rightarrow> string \<Rightarrow> string \<Rightarrow> run_store \<Rightarrow> (run_error + run) \<times> run_store" where
  "create en now key kind priority inp s =
     (case create_batch en now key kind priority [inp] max_live_key [] None (s, ()) of
        (Inl e, s, _) \<Rightarrow> (Inl e, s) | (Inr rows, s, _) \<Rightarrow> (Inr (hd rows), s))"

end
