(* ===== verification/Run_Store_Safety.thy ===== *)
theory Run_Store_Safety
  imports Run_Store
begin

text \<open>
  What the run store keeps true of its snapshots: the shape that \<open>load\<close> demands of a file is an invariant
  of every commit, whatever the exception for the budget does, so the store never writes a state it would refuse.
\<close>

section \<open>Well-formed snapshots\<close>

definition maps_ok :: "snapshot \<Rightarrow> bool" where
  "maps_ok v \<longleftrightarrow> distinct (map fst (sn_runs v)) \<and> distinct (map fst (sn_exception_bytes v)) \<and> distinct (map fst (sn_retained v))"

definition snap_ok :: "string \<Rightarrow> snapshot \<Rightarrow> bool" where
  "snap_ok key v \<longleftrightarrow> file_ok key v \<and> cleanup_ok v \<and> maps_ok v"

text \<open>A draft is what an operation hands to a commit: rows of deleted runs may still be in the side tables.\<close>

definition draft_ok :: "string \<Rightarrow> snapshot \<Rightarrow> bool" where
  "draft_ok key v \<longleftrightarrow> snap_ok key (drop_orphan_rows v)"

definition event_ok :: "run_event \<Rightarrow> bool" where
  "event_ok e \<longleftrightarrow> safe_id (re_run_id e) \<and> valid_state (re_state e)"

lemma drop_orphan_sel [simp]:
  "sn_runs (drop_orphan_rows v) = sn_runs v" "sn_events (drop_orphan_rows v) = sn_events v"
  "sn_seq (drop_orphan_rows v) = sn_seq v" "sn_epoch (drop_orphan_rows v) = sn_epoch v"
  "sn_cleanup (drop_orphan_rows v) = sn_cleanup v" "sn_encoded_bytes (drop_orphan_rows v) = sn_encoded_bytes v"
  by (simp_all add: drop_orphan_rows_def)

lemma drop_orphan_id:
  assumes "file_ok key v"
  shows "drop_orphan_rows v = v"
proof -
  have "filter (\<lambda>(rid, x). has_row rid (sn_runs v)) (sn_retained v) = sn_retained v"
    and "filter (\<lambda>(rid, x). has_row rid (sn_runs v)) (sn_exception_bytes v) = sn_exception_bytes v"
    using assms by (auto simp: file_ok_def list_all_iff filter_id_conv)
  then show ?thesis by (simp add: drop_orphan_rows_def)
qed

lemma snap_draft: "snap_ok key v \<Longrightarrow> draft_ok key v"
  using drop_orphan_id [of key v] by (simp add: draft_ok_def snap_ok_def)

lemma distinct_map_fst_filter: "distinct (map fst xs) \<Longrightarrow> distinct (map fst (filter P xs))"
  by (induction xs) auto

lemma map_fst_update_same: "has_row k m \<Longrightarrow> map fst (AList.update k v m) = map fst m"
  by (simp add: has_row_iff update_keys)

lemma length_update_same: "has_row k m \<Longrightarrow> length (AList.update k v m) = length m"
  using map_fst_update_same [of k m v] by (metis length_map)

lemma list_all_update:
  assumes "list_all P m" "P (k, v)"
  shows "list_all P (AList.update k v m)"
  using assms by (induction m) (auto split: if_splits)

lemma distinct_update [simp]: "distinct (map fst m) \<Longrightarrow> distinct (map fst (AList.update k v m))"
  by (rule distinct_update)

section \<open>The event log\<close>

lemma cursors_from_append:
  "cursors_from ep n (xs @ ys) \<longleftrightarrow> cursors_from ep n xs \<and> cursors_from ep (n + length xs) ys"
  by (induction xs arbitrary: n) auto

lemma cursors_from_drop: "cursors_from ep n xs \<Longrightarrow> cursors_from ep (n + min k (length xs)) (drop k xs)"
proof (induction xs arbitrary: n k)
  case (Cons x xs)
  then show ?case by (cases k) (auto dest!: Cons.IH)
qed simp

lemma cursors_from_number [simp]: "cursors_from ep n (number_events ep n es)"
  by (induction es arbitrary: n) auto

lemma length_number [simp]: "length (number_events ep n es) = length es"
  by (induction es arbitrary: n) auto

lemma number_events_ok: "list_all event_ok (number_events ep n es) = list_all event_ok es"
  by (induction es arbitrary: n) (auto simp: event_ok_def)

lemma length_keep_last: "length (keep_last n xs) = min n (length xs)"
  by (simp add: keep_last_def)

definition log_ok :: "snapshot \<Rightarrow> bool" where
  "log_ok v \<longleftrightarrow> length (sn_events v) \<le> 256 \<and> length (sn_events v) \<le> sn_seq v
     \<and> cursors_from (sn_epoch v) (sn_seq v - length (sn_events v)) (sn_events v) \<and> list_all event_ok (sn_events v)"

lemma log_events_ok:
  assumes "log_ok v" "list_all event_ok events"
  shows "log_ok (log_events events v)"
proof -
  let ?all = "sn_events v @ number_events (sn_epoch v) (sn_seq v) events"
  let ?k = "length ?all - 256"
  have c: "cursors_from (sn_epoch v) (sn_seq v - length (sn_events v)) ?all"
    using assms(1) by (simp add: log_ok_def cursors_from_append)
  have d: "cursors_from (sn_epoch v) (sn_seq v - length (sn_events v) + min ?k (length ?all)) (drop ?k ?all)"
    by (rule cursors_from_drop [OF c])
  have n: "sn_seq v - length (sn_events v) + min ?k (length ?all) = sn_seq v + length events - length (drop ?k ?all)"
    using assms(1) by (auto simp: log_ok_def)
  have "list_all event_ok (drop ?k ?all)"
    using assms by (metis log_ok_def list_all_append append_take_drop_id number_events_ok)
  then show ?thesis
    using assms(1) d unfolding n by (auto simp: log_ok_def log_events_def keep_last_def)
qed

lemma log_events_sel [simp]:
  "sn_runs (log_events es v) = sn_runs v" "sn_epoch (log_events es v) = sn_epoch v" "sn_cleanup (log_events es v) = sn_cleanup v"
  "sn_exception_bytes (log_events es v) = sn_exception_bytes v" "sn_retained (log_events es v) = sn_retained v"
  "sn_encoded_bytes (log_events es v) = sn_encoded_bytes v"
  by (simp_all add: log_events_def)

definition tables_ok :: "string \<Rightarrow> snapshot \<Rightarrow> bool" where
  "tables_ok key v \<longleftrightarrow> int (length (sn_runs v)) \<le> max_runs \<and> list_all (row_ok key) (sn_runs v)
     \<and> list_all (\<lambda>(rid, used). has_row rid (sn_runs v) \<and> 0 \<le> used \<and> used \<le> terminal_bound) (sn_exception_bytes v)
     \<and> list_all (\<lambda>(rid, x). has_row rid (sn_runs v)) (sn_retained v) \<and> cleanup_ok v \<and> maps_ok v"

lemma snap_ok_parts: "snap_ok key v \<longleftrightarrow> safe_id (sn_epoch v) \<and> log_ok v \<and> tables_ok key v"
  by (auto simp: snap_ok_def file_ok_def log_ok_def tables_ok_def event_ok_def list_all_iff)

lemma log_ok_cong:
  "sn_events w = sn_events v \<Longrightarrow> sn_seq w = sn_seq v \<Longrightarrow> sn_epoch w = sn_epoch v \<Longrightarrow> log_ok w = log_ok v"
  by (simp add: log_ok_def)

lemma tables_ok_cong:
  "sn_runs w = sn_runs v \<Longrightarrow> sn_exception_bytes w = sn_exception_bytes v \<Longrightarrow> sn_retained w = sn_retained v
   \<Longrightarrow> sn_cleanup w = sn_cleanup v \<Longrightarrow> tables_ok key w = tables_ok key v"
  by (simp add: tables_ok_def cleanup_ok_def maps_ok_def)

lemma snap_ok_bytes [simp]: "snap_ok key (v\<lparr>sn_encoded_bytes := n\<rparr>) = snap_ok key v"
  unfolding snap_ok_parts by (simp add: log_ok_cong [of "v\<lparr>sn_encoded_bytes := n\<rparr>" v] tables_ok_cong [of "v\<lparr>sn_encoded_bytes := n\<rparr>" v])

section \<open>Stamping\<close>

text \<open>Rows that agree in everything but the time of the last change.\<close>

definition stamped :: "gotime \<Rightarrow> string \<times> run \<Rightarrow> string \<times> run \<Rightarrow> bool" where
  "stamped now = (\<lambda>(k, r) (k', r'). k' = k \<and> (r' = r \<or> r' = r\<lparr>rn_updated := now\<rparr>))"

lemma stamp_images_rows: "list_all2 (stamped now) rows (fst (stamp_images en now old event rows))"
  by (induction en now old event rows rule: stamp_images.induct) (auto simp: stamped_def split: prod.splits)

lemma stamp_images_events:
  "list_all (row_ok key) rows \<Longrightarrow> list_all event_ok (snd (stamp_images en now old event rows))"
proof (induction en now old event rows rule: stamp_images.induct)
  case (2 en now old event rid r rows)
  have "event_ok (state_event rid (rn_state r) now)" using 2 by (auto simp: row_ok_def event_ok_def state_event_def)
  with 2 show ?case by (auto split: prod.splits)
qed simp

lemma stamped_keys: "list_all2 (stamped now) xs ys \<Longrightarrow> map fst ys = map fst xs"
  by (induction rule: list_all2_induct) (auto simp: stamped_def)

lemma stamped_row_ok: "list_all2 (stamped now) xs ys \<Longrightarrow> list_all (row_ok key) xs \<Longrightarrow> list_all (row_ok key) ys"
  by (induction rule: list_all2_induct) (auto simp: stamped_def row_ok_def)

lemma has_row_keys: "map fst ys = map fst xs \<Longrightarrow> has_row k ys = has_row k xs"
  by (metis has_row_iff list.set_map)

lemma tables_ok_same_keys:
  assumes "tables_ok key v" "map fst rows = map fst (sn_runs v)" "list_all (row_ok key) rows"
  shows "tables_ok key (v\<lparr>sn_runs := rows\<rparr>)"
proof -
  have "length rows = length (sn_runs v)" using assms(2) by (metis length_map)
  then show ?thesis using assms has_row_keys [OF assms(2)] by (simp add: tables_ok_def cleanup_ok_def maps_ok_def)
qed

lemma stamp_images_row:
  "run_state_of (row no_run rid (fst (stamp_images en now old event rows))) = run_state_of (row no_run rid rows)"
  if "\<And>r. run_state_of (r\<lparr>rn_updated := now\<rparr>) = run_state_of r" for run_state_of :: "run \<Rightarrow> 'a"
  using that by (induction en now old event rows rule: stamp_images.induct) (auto simp: row_def split: prod.splits)

lemma staged_ok:
  assumes "draft_ok key v" "\<forall>e. event = Some e \<longrightarrow> event_ok e" "staged en now old event v = (w, events)"
  shows "snap_ok key w" "list_all event_ok events" "map fst (sn_runs w) = map fst (sn_runs v)"
    "list_all2 (stamped now) (sn_runs v) (sn_runs w)" "sn_cleanup w = sn_cleanup v"
proof -
  define d where "d = drop_orphan_rows v"
  obtain rows extra where st: "stamp_images en now (sn_runs old) event (sn_runs d) = (rows, extra)" by fastforce
  define es where "es = (case event of None \<Rightarrow> [] | Some e \<Rightarrow> [e]) @ extra"
  have d: "snap_ok key d" using assms(1) by (simp add: draft_ok_def d_def)
  have w: "w = log_events es (d\<lparr>sn_runs := rows\<rparr>)" and ev: "events = number_events (sn_epoch d) (sn_seq d) es"
    using assms(3) st unfolding staged_def d_def [symmetric] Let_def by (auto simp: es_def d_def)
  have rows: "list_all2 (stamped now) (sn_runs d) rows" using stamp_images_rows [of now "sn_runs d" en "sn_runs old" event] st by simp
  then show "list_all2 (stamped now) (sn_runs v) (sn_runs w)" by (simp add: w d_def)
  have keys: "map fst rows = map fst (sn_runs d)" by (rule stamped_keys [OF rows])
  then show "map fst (sn_runs w) = map fst (sn_runs v)" by (simp add: w d_def)
  show "sn_cleanup w = sn_cleanup v" by (simp add: w d_def)
  have rok: "list_all (row_ok key) (sn_runs d)" using d by (simp add: snap_ok_parts tables_ok_def)
  have "list_all event_ok es"
    using assms(2) stamp_images_events [OF rok, of en now "sn_runs old" event] st
    by (auto simp: es_def split: option.splits)
  then show "list_all event_ok events" by (simp add: ev number_events_ok)
  have "tables_ok key (d\<lparr>sn_runs := rows\<rparr>)"
    using d keys stamped_row_ok [OF rows rok] by (intro tables_ok_same_keys) (simp_all add: snap_ok_parts)
  moreover have "log_ok (d\<lparr>sn_runs := rows\<rparr>)" using d log_ok_cong [of "d\<lparr>sn_runs := rows\<rparr>" d] by (simp add: snap_ok_parts)
  ultimately show "snap_ok key w"
    using d log_events_ok [of "d\<lparr>sn_runs := rows\<rparr>" es] \<open>list_all event_ok es\<close> tables_ok_cong [of w "d\<lparr>sn_runs := rows\<rparr>"]
    by (simp add: snap_ok_parts w)
qed

section \<open>The exception for the budget\<close>

lemma strip_run_sel [simp]:
  "rn_id (strip_run en b r) = rn_id r" "rn_key_id (strip_run en b r) = rn_key_id r" "rn_state (strip_run en b r) = rn_state r"
  "rn_cancel_requested (strip_run en b r) = rn_cancel_requested r" "rn_kind (strip_run en b r) = rn_kind r"
  by (simp_all add: strip_run_def strip_output_def Let_def)

lemma row_ok_row: "list_all (row_ok key) rows \<Longrightarrow> has_row rid rows \<Longrightarrow> row_ok key (rid, row no_run rid rows)"
  by (auto simp: has_row_def row_def list_all_iff split: option.splits dest: map_of_SomeD)

lemma tables_ok_update_run:
  assumes "tables_ok key v" "has_row rid (sn_runs v)" "row_ok key (rid, r)"
  shows "tables_ok key (v\<lparr>sn_runs := AList.update rid r (sn_runs v)\<rparr>)"
  using assms by (intro tables_ok_same_keys map_fst_update_same list_all_update) (simp_all add: tables_ok_def)

lemma tables_ok_exception:
  assumes "tables_ok key v" "has_row rid (sn_runs v)" "0 \<le> n" "n \<le> terminal_bound"
  shows "tables_ok key (v\<lparr>sn_exception_bytes := AList.update rid n (sn_exception_bytes v)\<rparr>)"
  using assms by (auto simp: tables_ok_def cleanup_ok_def maps_ok_def intro!: list_all_update)

lemma tables_ok_retained:
  assumes "tables_ok key v" "list_all (\<lambda>(rid, x). has_row rid (sn_runs v)) m" "distinct (map fst m)"
  shows "tables_ok key (v\<lparr>sn_retained := m\<rparr>)"
  using assms by (auto simp: tables_ok_def cleanup_ok_def maps_ok_def)

lemma list_all_delete: "list_all P m \<Longrightarrow> list_all P (AList.delete k m)"
  by (induction m) auto

lemma keep_held_ok:
  assumes "list_all P new" "\<And>x. P (rid, x)" "distinct (map fst new)"
  shows "list_all P (keep_held rid old new) \<and> distinct (map fst (keep_held rid old new))"
proof (cases "map_of old rid")
  case None
  then show ?thesis using assms by (simp add: keep_held_def list_all_delete distinct_delete)
next
  case (Some x)
  then show ?thesis using assms by (simp add: keep_held_def list_all_update)
qed

lemma shorten_log_sel [simp]:
  "sn_runs (shorten_log f v es) = sn_runs v" "sn_exception_bytes (shorten_log f v es) = sn_exception_bytes v"
  "sn_retained (shorten_log f v es) = sn_retained v" "sn_cleanup (shorten_log f v es) = sn_cleanup v"
  "sn_epoch (shorten_log f v es) = sn_epoch v" "sn_seq (shorten_log f v es) = sn_seq v"
  by (induction f v es rule: shorten_log.induct) auto

lemma shorten_log_suffix: "\<exists>n. sn_events (shorten_log f v es) = drop n es"
proof (induction f v es rule: shorten_log.induct)
  case (2 f v e es)
  show ?case
  proof (cases "f (v\<lparr>sn_events := e # es\<rparr>)")
    case False
    then obtain n where "sn_events (shorten_log f v es) = drop n es" using 2 by auto
    with False have "sn_events (shorten_log f v (e # es)) = drop (Suc n) (e # es)" by simp
    then show ?thesis by blast
  qed (auto intro: exI [of _ 0])
qed simp

lemma log_ok_drop:
  assumes "log_ok v" "sn_events w = drop n (sn_events v)" "sn_seq w = sn_seq v" "sn_epoch w = sn_epoch v"
  shows "log_ok w"
proof -
  have "cursors_from (sn_epoch v) (sn_seq v - length (sn_events v) + min n (length (sn_events v))) (drop n (sn_events v))"
    using assms(1) by (intro cursors_from_drop) (simp add: log_ok_def)
  moreover have "sn_seq v - length (sn_events v) + min n (length (sn_events v)) = sn_seq v - length (drop n (sn_events v))"
    using assms(1) by (auto simp: log_ok_def)
  moreover have "list_all event_ok (drop n (sn_events v))"
    using assms(1) by (metis log_ok_def list_all_append append_take_drop_id)
  ultimately show ?thesis using assms by (auto simp: log_ok_def)
qed

lemma fail_event_ok: "event_ok e \<Longrightarrow> event_ok (fail_event rid e)"
  by (auto simp: event_ok_def fail_event_def)

lemma cursors_from_map_fail: "cursors_from ep n (map (fail_event rid) es) = cursors_from ep n es"
  by (induction es arbitrary: n) (auto simp: fail_event_def)

lemma list_all_fail: "list_all event_ok es \<Longrightarrow> list_all event_ok (map (fail_event rid) es)"
  by (auto simp: list_all_iff intro: fail_event_ok)

lemma fail_last_events_facts:
  "length (fail_last_events n rid es) = length es"
  "cursors_from ep m (fail_last_events n rid es) = cursors_from ep m es"
  "list_all event_ok es \<Longrightarrow> list_all event_ok (fail_last_events n rid es)"
proof -
  show "length (fail_last_events n rid es) = length es" by (simp add: fail_last_events_def)
  have "cursors_from ep m (take k es @ map (fail_event rid) (drop k es)) = cursors_from ep m (take k es @ drop k es)" for k
    by (simp only: cursors_from_append cursors_from_map_fail)
  then show "cursors_from ep m (fail_last_events n rid es) = cursors_from ep m es" by (simp add: fail_last_events_def)
  assume "list_all event_ok es"
  then have "list_all event_ok (take k es)" "list_all event_ok (drop k es)" for k
    by (metis append_take_drop_id list_all_append)+
  then show "list_all event_ok (fail_last_events n rid es)" by (simp add: fail_last_events_def list_all_fail)
qed

lemma exhaust_ok:
  assumes "snap_ok key v" "has_row rid (sn_runs v)"
  shows "snap_ok key (exhaust en cap old rid used n v)"
    "map fst (sn_runs (exhaust en cap old rid used n v)) = map fst (sn_runs v)"
proof -
  define w where "w = v\<lparr>sn_runs := AList.update rid (storage_exhausted (run_row rid v)) (sn_runs v),
                 sn_retained := keep_held rid (sn_retained old) (sn_retained v),
                 sn_events := fail_last_events n rid (sn_events v)\<rparr>"
  define x where "x = shorten_log (fits_exception en cap old used terminal_bound) w (sn_events w)"
  have e: "exhaust en cap old rid used n v = x" by (simp add: exhaust_def x_def w_def Let_def)
  have v: "log_ok v" "tables_ok key v" "safe_id (sn_epoch v)" using assms(1) by (simp_all add: snap_ok_parts)
  have "row_ok key (rid, storage_exhausted (run_row rid v))"
    using v(2) assms(2) row_ok_row [of key "sn_runs v" rid] by (auto simp: tables_ok_def row_ok_def storage_exhausted_def)
  then have t1: "tables_ok key (v\<lparr>sn_runs := AList.update rid (storage_exhausted (run_row rid v)) (sn_runs v)\<rparr>)"
    by (rule tables_ok_update_run [OF v(2) assms(2)])
  have k: "list_all (\<lambda>(i, x). has_row i (AList.update rid (storage_exhausted (run_row rid v)) (sn_runs v))) (keep_held rid (sn_retained old) (sn_retained v))
      \<and> distinct (map fst (keep_held rid (sn_retained old) (sn_retained v)))"
    using t1 by (intro keep_held_ok) (auto simp: tables_ok_def maps_ok_def)
  have "tables_ok key (v\<lparr>sn_runs := AList.update rid (storage_exhausted (run_row rid v)) (sn_runs v)\<rparr>
      \<lparr>sn_retained := keep_held rid (sn_retained old) (sn_retained v)\<rparr>)"
    using k by (intro tables_ok_retained [OF t1]) simp_all
  then have tw: "tables_ok key x"
    by (subst tables_ok_cong [of x "v\<lparr>sn_runs := AList.update rid (storage_exhausted (run_row rid v)) (sn_runs v)\<rparr>
      \<lparr>sn_retained := keep_held rid (sn_retained old) (sn_retained v)\<rparr>"]) (simp_all add: x_def w_def)
  have lw: "log_ok w"
    using v(1) by (simp add: log_ok_def w_def fail_last_events_facts)
  obtain m where "sn_events x = drop m (sn_events w)" using shorten_log_suffix x_def by metis
  then have "log_ok x" by (rule log_ok_drop [OF lw]) (simp_all add: x_def)
  then show "snap_ok key (exhaust en cap old rid used n v)" using tw v(3) by (simp add: e snap_ok_parts x_def w_def)
  show "map fst (sn_runs (exhaust en cap old rid used n v)) = map fst (sn_runs v)"
    unfolding e using assms(2) by (simp add: x_def w_def map_fst_update_same)
qed

lemma growth_nonneg [simp]: "0 \<le> growth en old v"
  by (simp add: growth_def)

lemma squeeze_ok:
  assumes "snap_ok key v" "snap_ok key old" "has_row rid (sn_runs v)" "list_all event_ok events"
    and sq: "squeeze en cap old rid v events = Some (w, events')"
  shows "snap_ok key w" "list_all event_ok events'" "map fst (sn_runs w) = map fst (sn_runs v)"
proof -
  define r where "r = strip_run en (run_row rid old) (run_row rid v)"
  define v1 where "v1 = v\<lparr>sn_runs := AList.update rid r (sn_runs v), sn_exception_bytes := AList.update rid terminal_bound (sn_exception_bytes v)\<rparr>"
  define used where "used = row 0 rid (sn_exception_bytes old)"
  define ok where "ok = fits_exception en cap old used (if terminal (rn_state r) then terminal_bound else terminal_bound - 512) v1"
  define v2 where "v2 = (if ok then v1 else exhaust en cap old rid used (length events) v1)"
  have fits: "fits_exception en cap old used terminal_bound v2"
    and w: "w = v2\<lparr>sn_exception_bytes := AList.update rid (used + growth en old v2) (sn_exception_bytes v2)\<rparr>"
    and ev: "events' = (if ok then events else map (fail_event rid) events)"
    using sq unfolding squeeze_def r_def [symmetric] v1_def [symmetric] used_def [symmetric] ok_def [symmetric] v2_def [symmetric] Let_def
    by (auto split: if_splits)
  have used: "0 \<le> used"
    using assms(2) by (auto simp: used_def row_def snap_ok_parts tables_ok_def list_all_iff split: option.splits dest!: map_of_SomeD)
  have v: "log_ok v" "tables_ok key v" "safe_id (sn_epoch v)" using assms(1) by (simp_all add: snap_ok_parts)
  have "row_ok key (rid, r)" using v(2) assms(3) row_ok_row [of key "sn_runs v" rid] by (auto simp: tables_ok_def row_ok_def r_def)
  then have "tables_ok key (v\<lparr>sn_runs := AList.update rid r (sn_runs v)\<rparr>)" by (rule tables_ok_update_run [OF v(2) assms(3)])
  from tables_ok_exception [OF this, of rid terminal_bound] assms(3) have "tables_ok key v1"
    by (subst tables_ok_cong [of v1 "v\<lparr>sn_runs := AList.update rid r (sn_runs v)\<rparr>\<lparr>sn_exception_bytes := AList.update rid terminal_bound (sn_exception_bytes v)\<rparr>"])
       (simp_all add: v1_def terminal_bound_def)
  then have s1: "snap_ok key v1" using v log_ok_cong [of v1 v] by (simp add: snap_ok_parts v1_def)
  have h1: "has_row rid (sn_runs v1)" and k1: "map fst (sn_runs v1) = map fst (sn_runs v)"
    using assms(3) by (simp_all add: v1_def map_fst_update_same)
  have s2: "snap_ok key v2" and k2: "map fst (sn_runs v2) = map fst (sn_runs v)"
    using s1 exhaust_ok [OF s1 h1] k1 by (simp_all add: v2_def)
  have "tables_ok key w"
    unfolding w using s2 has_row_keys [OF k2] assms(3) used fits
    by (intro tables_ok_exception) (simp_all add: snap_ok_parts fits_exception_def)
  then show "snap_ok key w" using s2 log_ok_cong [of w v2] by (simp add: snap_ok_parts w)
  show "map fst (sn_runs w) = map fst (sn_runs v)" using k2 by (simp add: w)
  show "list_all event_ok events'" using assms(4) by (simp add: ev list_all_fail)
qed

section \<open>The store invariant\<close>

text \<open>
  What is relied on of the encoder, the decoder and the random ids: a smaller tally is not written in more digits, a
  JSON object decodes to a map, which has one value for a key, and the empty text is not JSON; the
  JSON of an empty snapshot is short; 32 hexadecimal digits after a prefix are a safe id.
\<close>

definition env_ok :: "run_env \<Rightarrow> bool" where
  "env_ok en \<longleftrightarrow>
     (\<forall>v rid n. 0 \<le> n \<and> n \<le> terminal_bound \<longrightarrow>
        encoded_size en (v\<lparr>sn_exception_bytes := AList.update rid n (sn_exception_bytes v)\<rparr>)
        \<le> encoded_size en (v\<lparr>sn_exception_bytes := AList.update rid terminal_bound (sn_exception_bytes v)\<rparr>))
     \<and> (\<forall>d raw w. rc_decode en d raw = Some w \<longrightarrow> maps_ok w \<and> raw \<noteq> [])
     \<and> (\<forall>epoch. encoded_size en (new_snapshot epoch) \<le> int (length epoch) + 1024)
     \<and> (\<forall>n. safe_id (''e_'' @ rc_random en n) \<and> safe_id (''r_'' @ rc_random en n))"

definition leases_ok :: "(string \<times> reservation) list \<Rightarrow> bool" where
  "leases_ok ls \<longleftrightarrow> distinct (map fst ls) \<and> list_all (\<lambda>(rid, l). 0 \<le> rv_bytes l) ls"

definition held_ok :: "run_store \<Rightarrow> string \<times> snapshot \<Rightarrow> bool" where
  "held_ok s = (\<lambda>(k, v). safe_id k \<and> snap_ok k v \<and> sn_encoded_bytes v \<le> hard_cap s)"

definition store_ok :: "run_store \<Rightarrow> bool" where
  "store_ok s \<longleftrightarrow> 0 \<le> st_max_stored s \<and> distinct (map fst (st_data s)) \<and> list_all (held_ok s) (st_data s) \<and> (\<forall>key. leases_ok (st_reserved s key))"

lemma publish_sel [simp]:
  "st_data (publish k e s) = st_data s" "st_reserved (publish k e s) = st_reserved s" "st_max_stored (publish k e s) = st_max_stored s"
  "st_files (publish k e s) = st_files s" "st_broken (publish k e s) = st_broken s" "st_recovery (publish k e s) = st_recovery s"
  "st_recovered (publish k e s) = st_recovered s" "st_ids (publish k e s) = st_ids s" "st_dirs (publish k e s) = st_dirs s"
  "st_accessed (publish k e s) = st_accessed s" "st_known (publish k e s) = st_known s" "st_next_channel (publish k e s) = st_next_channel s"
  by (simp_all add: publish_def)

lemma fold_publish_sel [simp]:
  "st_data (fold (publish k) es s) = st_data s" "st_reserved (fold (publish k) es s) = st_reserved s"
  "st_max_stored (fold (publish k) es s) = st_max_stored s" "st_files (fold (publish k) es s) = st_files s"
  "st_broken (fold (publish k) es s) = st_broken s" "st_recovery (fold (publish k) es s) = st_recovery s"
  "st_recovered (fold (publish k) es s) = st_recovered s" "st_ids (fold (publish k) es s) = st_ids s"
  "st_dirs (fold (publish k) es s) = st_dirs s" "st_accessed (fold (publish k) es s) = st_accessed s"
  "st_known (fold (publish k) es s) = st_known s" "st_next_channel (fold (publish k) es s) = st_next_channel s"
  by (induction es arbitrary: s) auto

lemma mark_broken_sel [simp]:
  "st_data (mark_broken k e s) = st_data s" "st_reserved (mark_broken k e s) = st_reserved s"
  "st_max_stored (mark_broken k e s) = st_max_stored s" "st_files (mark_broken k e s) = st_files s"
  "st_recovery (mark_broken k e s) = st_recovery s" "st_recovered (mark_broken k e s) = st_recovered s"
  "st_ids (mark_broken k e s) = st_ids s" "st_subs (mark_broken k e s) = st_subs s" "st_channels (mark_broken k e s) = st_channels s"
  "st_dirs (mark_broken k e s) = st_dirs s" "st_known (mark_broken k e s) = st_known s"
  "st_accessed (mark_broken k e s) = st_accessed s" "st_next_channel (mark_broken k e s) = st_next_channel s"
  by (simp_all add: mark_broken_def)

lemma store_ok_cong:
  "st_data t = st_data s \<Longrightarrow> st_reserved t = st_reserved s \<Longrightarrow> st_max_stored t = st_max_stored s \<Longrightarrow> store_ok t = store_ok s"
  by (simp add: store_ok_def held_ok_def hard_cap_def)

lemma store_ok_simps [simp]:
  "store_ok (mark_broken k e s) = store_ok s" "store_ok (publish k x s) = store_ok s" "store_ok (fold (publish k) es s) = store_ok s"
  "store_ok (s\<lparr>st_files := f\<rparr>) = store_ok s" "store_ok (s\<lparr>st_writes := n\<rparr>) = store_ok s" "store_ok (s\<lparr>st_ids := n\<rparr>) = store_ok s"
  "store_ok (s\<lparr>st_accessed := a\<rparr>) = store_ok s" "store_ok (s\<lparr>st_recovered := r\<rparr>) = store_ok s"
  "store_ok (s\<lparr>st_subs := sb\<rparr>) = store_ok s" "store_ok (s\<lparr>st_channels := ch\<rparr>) = store_ok s"
  "store_ok (s\<lparr>st_next_channel := n\<rparr>) = store_ok s"
  by (rule store_ok_cong; simp)+

lemma hard_cap_cong: "st_max_stored t = st_max_stored s \<Longrightarrow> hard_cap t = hard_cap s"
  by (simp add: hard_cap_def)

lemma store_ok_held:
  assumes "store_ok s" "has_row key (st_data s)"
  shows "safe_id key" "snap_ok key (data_of s key)" "sn_encoded_bytes (data_of s key) \<le> hard_cap s"
proof -
  obtain v where "map_of (st_data s) key = Some v" using assms(2) by (auto simp: has_row_def)
  then have "(key, v) \<in> set (st_data s)" and "data_of s key = v" by (auto dest: map_of_SomeD simp: data_of_def row_def)
  with assms(1) show "safe_id key" "snap_ok key (data_of s key)" "sn_encoded_bytes (data_of s key) \<le> hard_cap s"
    by (auto simp: store_ok_def held_ok_def list_all_iff)
qed

lemma data_of_update [simp]: "data_of (s\<lparr>st_data := AList.update key v (st_data s)\<rparr>) key = v"
  by (simp add: data_of_def)

lemma store_ok_update:
  assumes "store_ok s" "safe_id key" "snap_ok key v" "sn_encoded_bytes v \<le> hard_cap s"
  shows "store_ok (s\<lparr>st_data := AList.update key v (st_data s)\<rparr>)"
proof -
  have "held_ok (s\<lparr>st_data := AList.update key v (st_data s)\<rparr>) = held_ok s" by (simp add: held_ok_def hard_cap_def fun_eq_iff)
  moreover have "list_all (held_ok s) (AList.update key v (st_data s))"
    using assms by (intro list_all_update) (auto simp: store_ok_def held_ok_def)
  ultimately show ?thesis using assms(1) by (simp add: store_ok_def)
qed

lemma store_ok_delete: "store_ok s \<Longrightarrow> store_ok (s\<lparr>st_data := AList.delete key (st_data s)\<rparr>)"
  by (auto simp: store_ok_def held_ok_def hard_cap_def list_all_delete distinct_delete)

lemma leases_ok_filter: "leases_ok ls \<Longrightarrow> leases_ok (filter P ls)"
  by (auto simp: leases_ok_def distinct_map_fst_filter list_all_iff)

lemma leases_ok_drop: "leases_ok ls \<Longrightarrow> leases_ok (drop_leases v ls)"
  unfolding drop_leases_def by (rule leases_ok_filter)

lemma leases_ok_spend:
  assumes "leases_ok ls" "0 \<le> credit" "\<And>l. map_of ls rid = Some l \<Longrightarrow> credit \<le> rv_bytes l"
  shows "leases_ok (spend_lease rid credit ls)"
proof -
  have "map fst (spend_lease rid credit ls) = map fst ls" by (induction ls) (auto simp: spend_lease_def)
  moreover have "0 \<le> rv_bytes l'" if mem: "(k, l') \<in> set (spend_lease rid credit ls)" for k l'
  proof -
    obtain l where l: "(k, l) \<in> set ls" and e: "l' = (if k = rid then l\<lparr>rv_bytes := rv_bytes l - credit\<rparr> else l)"
      using mem by (auto simp: spend_lease_def)
    then have "map_of ls k = Some l" using assms(1) by (simp add: leases_ok_def)
    then show ?thesis using e l assms by (auto simp: leases_ok_def list_all_iff)
  qed
  ultimately show ?thesis using assms(1) by (auto simp: leases_ok_def list_all_iff)
qed

lemma sum_leases_nonneg: "leases_ok ls \<Longrightarrow> map_of ls rid = Some l \<Longrightarrow> rv_bytes l \<le> sum_list (map (\<lambda>(k, l). rv_bytes l) ls)"
proof (induction ls)
  case (Cons x ls)
  have n: "0 \<le> sum_list (map (\<lambda>(k, l). rv_bytes l) ls)"
    using Cons.prems(1) by (intro sum_list_nonneg) (auto simp: leases_ok_def list_all_iff)
  have "leases_ok ls" using Cons.prems(1) by (simp add: leases_ok_def)
  with Cons n show ?case by (cases x) (auto simp: leases_ok_def split: if_splits)
qed simp

lemma reserved_nonneg:
  assumes "store_ok s"
  shows "0 \<le> reserved_bytes s key"
proof -
  have "leases_ok (st_reserved s key)" using assms by (simp add: store_ok_def)
  then show ?thesis unfolding reserved_bytes_def by (intro sum_list_nonneg) (auto simp: leases_ok_def list_all_iff)
qed

lemma retained_budget_facts:
  assumes "store_ok s" "retained_budget s key rid sz = Some credit"
  shows "0 \<le> credit" "\<And>l. map_of (st_reserved s key) rid = Some l \<Longrightarrow> credit \<le> rv_bytes l"
    "sz < sn_encoded_bytes (data_of s key) \<or> sz + reserved_bytes s key - credit \<le> store_budget s"
    "credit \<le> reserved_bytes s key"
proof -
  have ls: "leases_ok (st_reserved s key)" using assms(1) by (simp add: store_ok_def)
  have pos: "0 \<le> rv_bytes l" if "map_of (st_reserved s key) rid = Some l" for l
    using that ls by (auto simp: leases_ok_def list_all_iff dest!: map_of_SomeD)
  have le: "rv_bytes l \<le> reserved_bytes s key" if "map_of (st_reserved s key) rid = Some l" for l
    using sum_leases_nonneg [OF ls that] by (simp add: reserved_bytes_def)
  have r: "0 \<le> reserved_bytes s key" by (rule reserved_nonneg [OF assms(1)])
  show "0 \<le> credit" using assms(2) pos by (auto simp: retained_budget_def Let_def split: if_splits option.splits)
  show "credit \<le> rv_bytes l" if "map_of (st_reserved s key) rid = Some l" for l
    using assms(2) pos that by (auto simp: retained_budget_def Let_def split: if_splits option.splits)
  show "sz < sn_encoded_bytes (data_of s key) \<or> sz + reserved_bytes s key - credit \<le> store_budget s"
    using assms(2) by (auto simp: retained_budget_def Let_def split: if_splits)
  show "credit \<le> reserved_bytes s key"
    using assms(2) le r by (fastforce simp: retained_budget_def Let_def split: if_splits option.splits)
qed

lemma update_update_same: "AList.update k v (AList.update k w m) = AList.update k v m"
  by (induction m) auto

section \<open>Commits keep the invariant\<close>

text \<open>What a successful commit leaves: the snapshot in memory and, in the file, its encoding.\<close>

definition committed :: "run_env \<Rightarrow> string \<Rightarrow> run_store \<Rightarrow> snapshot \<Rightarrow> bool" where
  "committed en key s w \<longleftrightarrow> has_row key (st_data s) \<and> data_of s key = w \<and> snap_ok key w \<and> sn_encoded_bytes w \<le> hard_cap s
     \<and> (\<exists>raw n. st_files s key = StateFile raw \<and> sn_encoded_bytes w = int (length raw) \<and> raw = encoded en (w\<lparr>sn_encoded_bytes := n\<rparr>))"

definition same_frame :: "run_store \<Rightarrow> run_store \<Rightarrow> bool" where
  "same_frame s t \<longleftrightarrow> st_max_stored t = st_max_stored s \<and> st_recovery t = st_recovery s \<and> st_ids t = st_ids s
     \<and> st_accessed t = st_accessed s \<and> st_dirs t = st_dirs s"

lemma same_frame_refl [simp]: "same_frame s s"
  by (simp add: same_frame_def)

lemma same_frame_trans: "same_frame s t \<Longrightarrow> same_frame t u \<Longrightarrow> same_frame s u"
  by (simp add: same_frame_def)

lemma same_frame_cap: "same_frame s t \<Longrightarrow> hard_cap t = hard_cap s"
  by (simp add: same_frame_def hard_cap_def)

lemma same_frame_broken [simp]: "same_frame s (mark_broken k e t) = same_frame s t"
  by (simp add: same_frame_def mark_broken_def)

definition only_key :: "string \<Rightarrow> run_store \<Rightarrow> run_store \<Rightarrow> bool" where
  "only_key key s t \<longleftrightarrow> (\<forall>k. k \<noteq> key \<longrightarrow> map_of (st_data t) k = map_of (st_data s) k \<and> st_files t k = st_files s k)"

lemma write_ok:
  assumes s: "store_ok s" "safe_id key" "snap_ok key v" "int (length raw) \<le> hard_cap s"
    and credit: "0 \<le> credit" "\<And>l. map_of (st_reserved s key) rid = Some l \<Longrightarrow> credit \<le> rv_bytes l"
    and raw: "raw = encoded en (v\<lparr>sn_encoded_bytes := n\<rparr>)"
    and w: "write_snapshot en key v raw events rid credit s = (err, w, t)"
  shows "store_ok t" "same_frame s t" "only_key key s t"
    "err = None \<Longrightarrow> committed en key t w \<and> w = v\<lparr>sn_encoded_bytes := int (length raw)\<rparr>"
    "err \<noteq> None \<Longrightarrow> st_data t = st_data s"
proof -
  define s1 where "s1 = s\<lparr>st_writes := st_writes s + 1\<rparr>"
  define v' where "v' = v\<lparr>sn_encoded_bytes := int (length raw)\<rparr>"
  define s2 where "s2 = s1\<lparr>st_files := (st_files s1)(key := StateFile raw), st_data := AList.update key v' (st_data s1),
                       st_known := List.insert key (st_known s1),
                       st_reserved := (st_reserved s1)(key := drop_leases v' (spend_lease rid credit (st_reserved s1 key)))\<rparr>"
  note w' = w [unfolded write_snapshot_def s1_def [symmetric] v'_def [symmetric] s2_def [symmetric] Let_def]
  have v': "snap_ok key v'" using s by (simp add: v'_def)
  have "store_ok (s\<lparr>st_data := AList.update key v' (st_data s)\<rparr>)"
    by (rule store_ok_update [OF s(1,2) v']) (use s in \<open>simp add: v'_def\<close>)
  moreover have "leases_ok (drop_leases v' (spend_lease rid credit (st_reserved s key)))"
    by (intro leases_ok_drop leases_ok_spend) (use s(1) credit in \<open>simp_all add: store_ok_def\<close>)
  ultimately have s2: "store_ok s2" by (simp add: store_ok_def held_ok_def hard_cap_def s2_def s1_def)
  define s3 where "s3 = s1\<lparr>st_files := (st_files s1)(key := StateFile raw)\<rparr>"
  have t: "err = None \<and> w = v' \<and> t = fold (publish key) events s2
      \<or> err \<noteq> None \<and> (\<exists>e. t = mark_broken key e s1 \<or> t = mark_broken key e s3)"
    using w' unfolding s3_def by (auto split: disk_write.splits if_splits)
  have sel: "store_ok s1" "store_ok s3" "same_frame s s1" "same_frame s s2" "same_frame s s3" "only_key key s s1" "only_key key s s2"
    "only_key key s s3" "st_data s1 = st_data s" "st_data s3 = st_data s"
    using s(1) by (simp_all add: s1_def s2_def s3_def same_frame_def only_key_def update_conv)
  show "store_ok t" using t sel s2 by auto
  show "same_frame s t" using t sel by (auto simp: same_frame_def)
  show "only_key key s t" using t sel by (auto simp: only_key_def)
  show "st_data t = st_data s" if "err \<noteq> None" using t sel that by auto
  show "committed en key t w \<and> w = v\<lparr>sn_encoded_bytes := int (length raw)\<rparr>" if "err = None"
  proof -
    from that t have ok: "w = v'" "t = fold (publish key) events s2" by auto
    have "data_of t key = v'" by (simp add: ok data_of_def s2_def)
    moreover have "hard_cap t = hard_cap s" by (simp add: ok hard_cap_def s2_def s1_def)
    ultimately show ?thesis
      using v' s(4) raw by (auto simp: committed_def ok(1) v'_def ok(2) s2_def)
  qed
qed

lemma squeeze_cap:
  assumes en: "env_ok en" and sq: "squeeze en cap old rid v events = Some (w, events')" and old: "snap_ok key old"
  shows "int (length (encoded en w)) \<le> cap"
proof -
  define r where "r = strip_run en (run_row rid old) (run_row rid v)"
  define v1 where "v1 = v\<lparr>sn_runs := AList.update rid r (sn_runs v), sn_exception_bytes := AList.update rid terminal_bound (sn_exception_bytes v)\<rparr>"
  define used where "used = row 0 rid (sn_exception_bytes old)"
  define ok where "ok = fits_exception en cap old used (if terminal (rn_state r) then terminal_bound else terminal_bound - 512) v1"
  define v2 where "v2 = (if ok then v1 else exhaust en cap old rid used (length events) v1)"
  have fits: "fits_exception en cap old used terminal_bound v2"
    and w: "w = v2\<lparr>sn_exception_bytes := AList.update rid (used + growth en old v2) (sn_exception_bytes v2)\<rparr>"
    using sq unfolding squeeze_def r_def [symmetric] v1_def [symmetric] used_def [symmetric] ok_def [symmetric] v2_def [symmetric] Let_def
    by (auto split: if_splits)
  have used: "0 \<le> used"
    using old by (auto simp: used_def row_def snap_ok_parts tables_ok_def list_all_iff split: option.splits dest!: map_of_SomeD)
  have exc: "sn_exception_bytes v2 = AList.update rid terminal_bound (sn_exception_bytes v)"
    by (simp add: v2_def v1_def exhaust_def Let_def)
  then have same: "v2\<lparr>sn_exception_bytes := AList.update rid terminal_bound (sn_exception_bytes v2)\<rparr> = v2"
    by (simp add: update_update_same)
  have "encoded_size en w \<le> encoded_size en (v2\<lparr>sn_exception_bytes := AList.update rid terminal_bound (sn_exception_bytes v2)\<rparr>)"
    unfolding w using en used fits by (auto simp: env_ok_def fits_exception_def)
  then show ?thesis using fits by (simp add: same fits_exception_def encoded_size_def)
qed

lemma commit_for_ok:
  assumes s: "store_ok s" "has_row key (st_data s)" and en: "env_ok en"
    and v: "draft_ok key v" "\<forall>e. event = Some e \<longrightarrow> event_ok e" "rid = [] \<or> has_row rid (sn_runs v)"
    and c: "commit_for en now key v event rid s = (err, w, t)"
  shows "store_ok t" "same_frame s t" "only_key key s t"
    "err = None \<Longrightarrow> committed en key t w \<and> map fst (sn_runs w) = map fst (sn_runs v)"
    "err \<noteq> None \<Longrightarrow> st_data t = st_data s"
proof -
  note held = store_ok_held [OF s]
  define old where "old = data_of s key"
  obtain d events where st: "staged en now old event v = (d, events)" by fastforce
  note d = staged_ok [OF v(1,2) st]
  note c' = c [unfolded commit_for_def old_def [symmetric] Let_def st prod.case]
  have "(err = None \<longrightarrow> committed en key t w \<and> map fst (sn_runs w) = map fst (sn_runs v))
     \<and> (err \<noteq> None \<longrightarrow> st_data t = st_data s) \<and> store_ok t \<and> same_frame s t \<and> only_key key s t"
  proof (cases "st_broken s key")
    case (Some e)
    then show ?thesis using c' s by (auto simp: only_key_def)
  next
    case None
    note broken = None
    show ?thesis
    proof (cases "rc_encode en d")
      case None
      then show ?thesis using c' broken s by (auto simp: only_key_def)
    next
      case (Some raw)
      note enc = Some
      show ?thesis
      proof (cases "retained_budget s key rid (int (length raw))")
        case (Some credit)
        note f = retained_budget_facts [OF s(1) Some]
        have cap: "int (length raw) \<le> hard_cap s"
          using f held(3) by (auto simp: store_budget_def hard_cap_def max_live_key_def max_runs_def terminal_bound_def)
        have raw: "raw = encoded en (d\<lparr>sn_encoded_bytes := sn_encoded_bytes d\<rparr>)" by (simp add: encoded_def enc)
        have wr: "write_snapshot en key d raw events rid credit s = (err, w, t)" using c' broken enc Some by simp
        note wo = write_ok [OF s(1) held(1) d(1) cap f(1,2) raw wr]
        show ?thesis using wo d(3) by auto
      next
        case None
        show ?thesis
        proof (cases "rn_id (run_row rid old) \<noteq> [] \<and> lifecycle (run_row rid old) (run_row rid d) \<and> squeeze en (hard_cap s) old rid d events \<noteq> None")
          case False
          then have "t = s \<and> err \<noteq> None"
            using c' broken enc None by (cases "squeeze en (hard_cap s) old rid d events") (auto split: if_splits)
          then show ?thesis using s by (auto simp: only_key_def)
        next
          case True
          then obtain x events' where sq: "squeeze en (hard_cap s) old rid d events = Some (x, events')" by auto
          have "rid \<noteq> []"
          proof
            assume "rid = []"
            moreover have "has_row rid (sn_runs old)" using True by (auto simp: row_def no_run_def has_row_def split: option.splits)
            ultimately have "safe_id []" using held(2) row_ok_row [of key "sn_runs old" rid]
              by (auto simp: old_def snap_ok_parts tables_ok_def row_ok_def)
            then show False by (simp add: safe_id_def)
          qed
          then have hr: "has_row rid (sn_runs d)" using v(3) has_row_keys [OF d(3)] by simp
          note x = squeeze_ok [OF d(1) _ hr d(2) sq]
          have old: "snap_ok key old" using held(2) by (simp add: old_def)
          have cap: "int (length (encoded en x)) \<le> hard_cap s" by (rule squeeze_cap [OF en sq old])
          have raw: "encoded en x = encoded en (x\<lparr>sn_encoded_bytes := sn_encoded_bytes x\<rparr>)" by simp
          have lease: "0 \<le> rv_bytes l" if "map_of (st_reserved s key) [] = Some l" for l
            using s(1) that by (auto simp: store_ok_def leases_ok_def list_all_iff dest!: map_of_SomeD)
          have wr: "write_snapshot en key x (encoded en x) events' [] 0 s = (err, w, t)" using c' broken enc None True sq by simp
          note wo = write_ok [OF s(1) held(1) x(1) [OF old] cap order_refl lease raw wr]
          show ?thesis using wo x(3) [OF old] d(3) by auto
        qed
      qed
    qed
  qed
  then show "store_ok t" "same_frame s t" "only_key key s t"
    "err = None \<Longrightarrow> committed en key t w \<and> map fst (sn_runs w) = map fst (sn_runs v)"
    "err \<noteq> None \<Longrightarrow> st_data t = st_data s" by auto
qed

section \<open>The operations keep it\<close>

lemma fresh_id_ok: "fresh_id en p s = (x, t) \<Longrightarrow> t = s\<lparr>st_ids := st_ids s + 1\<rparr> \<and> x = p @ rc_random en (st_ids s)"
  by (auto simp: fresh_id_def)

lemma data_of_cong: "st_data t = st_data s \<Longrightarrow> data_of t k = data_of s k"
  by (simp add: data_of_def)

lemma has_row_other: "only_key key s t \<Longrightarrow> k \<noteq> key \<Longrightarrow> has_row k (st_data t) = has_row k (st_data s)"
  by (simp add: only_key_def has_row_def)

lemma only_key_trans: "only_key k s t \<Longrightarrow> only_key k t u \<Longrightarrow> only_key k s u"
  by (simp add: only_key_def)

lemma only_key_broken [simp]: "only_key k s (mark_broken k' e t) = only_key k s t"
  by (simp add: only_key_def)

lemma draft_retained:
  assumes "snap_ok key v" "distinct (map fst m)"
  shows "draft_ok key (v\<lparr>sn_retained := m\<rparr>)"
proof -
  let ?f = "\<lambda>(rid, x). has_row rid (sn_runs v)"
  have "drop_orphan_rows (v\<lparr>sn_retained := m\<rparr>) = (drop_orphan_rows v)\<lparr>sn_retained := filter ?f m\<rparr>"
    by (simp add: drop_orphan_rows_def)
  also have "drop_orphan_rows v = v" using assms(1) by (intro drop_orphan_id [of key]) (simp add: snap_ok_def)
  finally have d: "drop_orphan_rows (v\<lparr>sn_retained := m\<rparr>) = v\<lparr>sn_retained := filter ?f m\<rparr>" .
  have "tables_ok key (v\<lparr>sn_retained := filter ?f m\<rparr>)"
    using assms by (intro tables_ok_retained) (auto simp: snap_ok_parts distinct_map_fst_filter list_all_iff)
  then show ?thesis
    using assms(1) log_ok_cong [of "v\<lparr>sn_retained := filter ?f m\<rparr>" v] by (simp add: draft_ok_def d snap_ok_parts)
qed

lemma draft_runs:
  assumes "draft_ok key v" "has_row rid (sn_runs v)" "row_ok key (rid, r)"
  shows "draft_ok key (v\<lparr>sn_runs := AList.update rid r (sn_runs v)\<rparr>)"
proof -
  let ?rows = "AList.update rid r (sn_runs v)"
  have keys: "map fst ?rows = map fst (sn_runs v)" by (rule map_fst_update_same [OF assms(2)])
  have d: "drop_orphan_rows (v\<lparr>sn_runs := ?rows\<rparr>) = (drop_orphan_rows v)\<lparr>sn_runs := ?rows\<rparr>"
    using has_row_keys [OF keys] by (simp add: drop_orphan_rows_def)
  have "tables_ok key ((drop_orphan_rows v)\<lparr>sn_runs := ?rows\<rparr>)"
    using assms tables_ok_update_run [of key "drop_orphan_rows v" rid r] by (simp add: draft_ok_def snap_ok_parts)
  then show ?thesis
    using assms(1) log_ok_cong [of "(drop_orphan_rows v)\<lparr>sn_runs := ?rows\<rparr>" "drop_orphan_rows v"]
    by (simp add: draft_ok_def d snap_ok_parts)
qed

lemma snap_row:
  assumes "snap_ok key v" "map_of (sn_runs v) rid = Some r"
  shows "row_ok key (rid, r)"
  using assms by (auto simp: snap_ok_parts tables_ok_def list_all_iff dest!: map_of_SomeD)

lemma commit_event_id: "commit en now key v (Some (state_event rid st now)) s = commit_for en now key v (Some (state_event rid st now)) rid s"
  by (simp add: commit_def state_event_def)

lemma interrupted_snapshot_runs [simp]:
  "sn_runs (interrupted_snapshot now rid r v) = AList.update rid (interrupted now r) (sn_runs v)"
  by (simp add: interrupted_snapshot_def Let_def)

lemma interrupted_draft:
  assumes "snap_ok key v" "has_row rid (sn_runs v)" "row_ok key (rid, r)"
  shows "draft_ok key (interrupted_snapshot now rid r v)"
proof -
  define m where "m = (let data = row no_retained rid (sn_retained v) in
      if rn_kind r = ''chat'' then AList.update rid (data\<lparr>rt_steps := map interrupt_step (rt_steps data)\<rparr>) (sn_retained v) else sn_retained v)"
  have "distinct (map fst m)" using assms(1) by (auto simp: m_def snap_ok_parts tables_ok_def maps_ok_def Let_def)
  then have "draft_ok key (v\<lparr>sn_retained := m\<rparr>)" by (rule draft_retained [OF assms(1)])
  moreover have "row_ok key (rid, interrupted now r)" using assms(3) by (auto simp: row_ok_def interrupted_def)
  ultimately have "draft_ok key (v\<lparr>sn_retained := m\<rparr>\<lparr>sn_runs := AList.update rid (interrupted now r) (sn_runs v)\<rparr>)"
    using draft_runs [of key "v\<lparr>sn_retained := m\<rparr>" rid] assms(2) by simp
  then show ?thesis by (simp add: interrupted_snapshot_def m_def Let_def)
qed

text \<open>One row of the recovery that is committed, with what the commit leaves.\<close>

lemma recover_row_ok:
  assumes s: "store_ok s" "has_row key (st_data s)" and env: "env_ok en" and row: "row_ok key (rid, r)"
    and has: "has_row rid (sn_runs (data_of s key))"
    and c: "commit en now key (interrupted_snapshot now rid r (data_of s key)) (Some (state_event rid Failed now)) s = (e, w, u)"
  shows "store_ok u" "same_frame s u" "only_key key s u" "e \<noteq> None \<Longrightarrow> st_data u = st_data s"
    "e = None \<Longrightarrow> committed en key u w \<and> map fst (sn_runs w) = map fst (sn_runs (data_of s key))"
    "commit_for en now key (interrupted_snapshot now rid r (data_of s key)) (Some (state_event rid Failed now)) rid s = (e, w, u)"
proof -
  have vo: "snap_ok key (data_of s key)" using store_ok_held [OF s] by simp
  note d = interrupted_draft [OF vo has row]
  have ev: "\<forall>e. Some (state_event rid Failed now) = Some e \<longrightarrow> event_ok e"
    using row by (auto simp: event_ok_def state_event_def row_ok_def)
  show cf: "commit_for en now key (interrupted_snapshot now rid r (data_of s key)) (Some (state_event rid Failed now)) rid s = (e, w, u)"
    using c by (simp add: commit_event_id)
  have hr: "rid = [] \<or> has_row rid (sn_runs (interrupted_snapshot now rid r (data_of s key)))" by simp
  note co = commit_for_ok [OF s env d ev hr cf]
  show "store_ok u" "same_frame s u" "only_key key s u" "e \<noteq> None \<Longrightarrow> st_data u = st_data s" using co by auto
  show "e = None \<Longrightarrow> committed en key u w \<and> map fst (sn_runs w) = map fst (sn_runs (data_of s key))"
    using co(4) map_fst_update_same [OF has] by simp
qed

lemma recover_rows_ok:
  assumes "store_ok s" "has_row key (st_data s)" "env_ok en"
    and "list_all (row_ok key) rows" "\<forall>x \<in> set rows. has_row (fst x) (sn_runs (data_of s key))"
    and "recover_rows en now key rows s = (err, t)"
  shows "store_ok t \<and> same_frame s t \<and> only_key key s t \<and> (err = None \<longrightarrow> has_row key (st_data t))"
  using assms
proof (induction en now key rows s arbitrary: err t rule: recover_rows.induct)
  case (1 en now key s)
  then show ?case by (auto simp: same_frame_def only_key_def)
next
  case (2 en now key rid r rows s)
  show ?case
  proof (cases "terminal (rn_state r) \<or> rn_kind r = ''chat'' \<and> sn_retained (data_of s key) = []")
    case True
    show ?thesis
    proof (cases "terminal (rn_state r)")
      case True
      then show ?thesis using 2 by auto
    next
      case False
      then have "t = s" "err \<noteq> None" using True 2(8) by auto
      then show ?thesis using 2(3) by (auto simp: only_key_def)
    qed
  next
    case False
    obtain e w u where c: "commit en now key (interrupted_snapshot now rid r (data_of s key)) (Some (state_event rid Failed now)) s = (e, w, u)"
      by (cases "commit en now key (interrupted_snapshot now rid r (data_of s key)) (Some (state_event rid Failed now)) s") auto
    have row: "row_ok key (rid, r)" and has: "has_row rid (sn_runs (data_of s key))" using 2(6,7) by simp_all
    note ro = recover_row_ok [OF 2(3,4,5) row has c]
    show ?thesis
    proof (cases e)
      case None
      then have cm: "committed en key u w" and keys: "map fst (sn_runs w) = map fst (sn_runs (data_of s key))" using ro by auto
      have rest: "recover_rows en now key rows u = (err, t)" using 2(8) None c False by auto
      have "\<forall>x \<in> set rows. has_row (fst x) (sn_runs (data_of u key))"
        using 2(7) cm has_row_keys [OF keys] by (auto simp: committed_def)
      then have "store_ok t \<and> same_frame u t \<and> only_key key u t \<and> (err = None \<longrightarrow> has_row key (st_data t))"
        using False 2(5,6) cm by (intro 2(2) [OF _ _ c [symmetric] None refl ro(1) _ _ _ _ rest]) (auto simp: committed_def)
      then show ?thesis using ro same_frame_trans only_key_trans by blast
    next
      case (Some x)
      then have t: "t = (mark_broken key x u)\<lparr>st_data := AList.delete key (st_data u), st_recovered := (st_recovered u)(key := False)\<rparr>"
        and "err = Some x" using 2(8) c False by auto
      moreover have "store_ok (mark_broken key x u\<lparr>st_data := AList.delete key (st_data (mark_broken key x u))\<rparr>)"
        using ro by (intro store_ok_delete) simp
      then have "store_ok t" using t by (simp add: store_ok_def held_ok_def hard_cap_def)
      ultimately show ?thesis using ro by (auto simp: same_frame_def only_key_def delete_conv' mark_broken_def)
    qed
  qed
qed

lemma read_state_ok:
  assumes "env_ok en" "read_state en cap key d content = Inr v"
  shows "file_ok key v \<and> maps_ok v \<and> 0 \<le> sn_encoded_bytes v \<and> sn_encoded_bytes v \<le> cap"
proof -
  obtain w where w: "rc_decode en d (take (nat (cap + 1)) content) = Some w" "file_ok key w"
    and v: "v = w\<lparr>sn_encoded_bytes := int (length (take (nat (cap + 1)) content))\<rparr>"
    and le: "int (length (take (nat (cap + 1)) content)) \<le> cap"
    using assms(2) by (auto simp: read_state_def Let_def split: if_splits option.splits)
  have "maps_ok w" using assms(1) w(1) by (auto simp: env_ok_def)
  with w v le show ?thesis by (simp add: file_ok_def maps_ok_def)
qed

lemma restore_cleanup_sel [simp]:
  "st_data (restore_cleanup k v s) = st_data s" "st_reserved (restore_cleanup k v s) = st_reserved s"
  "st_max_stored (restore_cleanup k v s) = st_max_stored s" "st_broken (restore_cleanup k v s) = st_broken s"
  "st_files (restore_cleanup k v s) = st_files s" "st_ids (restore_cleanup k v s) = st_ids s"
  "st_recovery (restore_cleanup k v s) = st_recovery s" "st_recovered (restore_cleanup k v s) = st_recovered s"
  "st_accessed (restore_cleanup k v s) = st_accessed s" "st_dirs (restore_cleanup k v s) = st_dirs s"
  "st_subs (restore_cleanup k v s) = st_subs s" "st_channels (restore_cleanup k v s) = st_channels s"
  "st_next_channel (restore_cleanup k v s) = st_next_channel s"
  by (simp_all add: restore_cleanup_def)


lemma new_snapshot_ok: "safe_id epoch \<Longrightarrow> file_ok key (new_snapshot epoch) \<and> maps_ok (new_snapshot epoch)"
  by (simp add: new_snapshot_def file_ok_def maps_ok_def max_runs_def)

lemma open_state_ok:
  assumes "store_ok s" "env_ok en" "open_state en now key s = (res, t)"
  shows "store_ok t \<and> st_data t = st_data s \<and> st_max_stored t = st_max_stored s
    \<and> (\<forall>v. res = Inr v \<longrightarrow> snap_ok key v \<and> sn_encoded_bytes v \<le> hard_cap s)"
proof -
  define s1 where "s1 = s\<lparr>st_ids := st_ids s + 1\<rparr>"
  define epoch where "epoch = ''e_'' @ rc_random en (st_ids s)"
  have f: "fresh_id en ''e_'' s = (epoch, s1)" by (simp add: fresh_id_def epoch_def s1_def)
  have ep: "safe_id epoch" using assms(2) by (simp add: env_ok_def epoch_def)
  have small: "encoded_size en (new_snapshot epoch) \<le> hard_cap s"
  proof -
    have "encoded_size en (new_snapshot epoch) \<le> int (length epoch) + 1024" using assms(2) by (simp add: env_ok_def)
    moreover have "length epoch \<le> 80" using ep by (simp add: safe_id_def)
    moreover have "0 \<le> st_max_stored s" using assms(1) by (simp add: store_ok_def)
    ultimately show ?thesis by (simp add: hard_cap_def max_runs_def terminal_bound_def)
  qed
  define got where "got = (case st_files s1 key of
                      NoFile \<Rightarrow> Inr (new_snapshot epoch)
                    | NotRegular \<Rightarrow> Inl ErrInvalid
                    | Unreadable e \<Rightarrow> Inl (ErrOther e)
                    | StateFile content \<Rightarrow> read_state en (hard_cap s1) key (new_snapshot epoch) content)"
  have cap: "hard_cap s1 = hard_cap s" by (simp add: s1_def hard_cap_def)
  have good: "file_ok key v \<and> maps_ok v \<and> (sn_encoded_bytes v = 0 \<longrightarrow> v = new_snapshot epoch) \<and> sn_encoded_bytes v \<le> hard_cap s"
    if "got = Inr v" for v
  proof (cases "st_files s1 key")
    case NoFile
    then show ?thesis
      using that new_snapshot_ok [OF ep, of key] small
      by (auto simp: got_def new_snapshot_def encoded_size_def intro: order_trans [of 0])
  next
    case (StateFile content)
    then have r: "read_state en (hard_cap s1) key (new_snapshot epoch) content = Inr v" using that by (simp add: got_def)
    then have "sn_encoded_bytes v \<noteq> 0" using assms(2) by (auto simp: env_ok_def read_state_def Let_def split: if_splits option.splits)
    then show ?thesis using read_state_ok [OF assms(2) r] cap by auto
  qed (use that in \<open>auto simp: got_def\<close>)
  have res: "(case res of Inl e \<Rightarrow> True | Inr v \<Rightarrow> (\<exists>w. got = Inr w \<and> v = (if sn_encoded_bytes w = 0 then w\<lparr>sn_encoded_bytes := encoded_size en w\<rparr> else w)
        \<and> cleanup_ok v)) \<and> (t = s \<or> t = s1 \<or> t = mark_broken key ErrNeedsAttention s1 \<or> (\<exists>v. t = restore_cleanup key v s1))"
    using assms(3) unfolding open_state_def f prod.case got_def [symmetric] Let_def
    by (auto split: dir_status.splits sum.splits if_splits)
  have st: "store_ok (restore_cleanup key v s1)" for v
    using assms(1) by (subst store_ok_cong [of _ s]) (simp_all add: s1_def)
  have t: "store_ok t \<and> st_data t = st_data s \<and> st_max_stored t = st_max_stored s"
    using res st assms(1) by (auto simp: s1_def)
  have "snap_ok key v \<and> sn_encoded_bytes v \<le> hard_cap s" if rv: "res = Inr v" for v
  proof -
    obtain w where w: "got = Inr w" "v = (if sn_encoded_bytes w = 0 then w\<lparr>sn_encoded_bytes := encoded_size en w\<rparr> else w)" "cleanup_ok v"
      using res rv by auto
    note g = good [OF w(1)]
    have "snap_ok key w" using g w(2,3) by (auto simp: snap_ok_def cleanup_ok_def split: if_splits)
    then show ?thesis using g w(2) small by auto
  qed
  with t show ?thesis by blast
qed

definition loaded :: "run_store \<Rightarrow> string \<Rightarrow> snapshot \<Rightarrow> bool" where
  "loaded s key v \<longleftrightarrow> has_row key (st_data s) \<and> data_of s key = v"

lemma loaded_ok: "store_ok s \<Longrightarrow> loaded s key v \<Longrightarrow> safe_id key \<and> snap_ok key v \<and> sn_encoded_bytes v \<le> hard_cap s"
  using store_ok_held [of s key] by (auto simp: loaded_def)

lemma keep_state_ok:
  assumes "store_ok s" "env_ok en" "safe_id key" "snap_ok key v" "sn_encoded_bytes v \<le> hard_cap s" "keep_state en now key v s = (res, t)"
  shows "store_ok t \<and> st_max_stored t = st_max_stored s \<and> (\<forall>v. res = Inr v \<longrightarrow> loaded t key v)"
proof -
  define s3 where "s3 = s\<lparr>st_data := AList.update key v (st_data s)\<rparr>"
  have s3: "store_ok s3" using assms unfolding s3_def by (intro store_ok_update)
  have h3: "has_row key (st_data s3)" "data_of s3 key = v" and m3: "st_max_stored s3 = st_max_stored s"
    by (simp_all add: s3_def data_of_def)
  note k = assms(6) [unfolded keep_state_def s3_def [symmetric] Let_def]
  show ?thesis
  proof (cases "st_recovery s3 \<and> \<not> st_recovered s3 key")
    case True
    obtain e s4 where r: "recover_key en now key s3 = (e, s4)" by fastforce
    have "list_all (row_ok key) (sn_runs (data_of s3 key))" using assms(4) h3 by (simp add: snap_ok_parts tables_ok_def)
    moreover have "\<forall>x \<in> set (sn_runs (data_of s3 key)). has_row (fst x) (sn_runs (data_of s3 key))" by (auto simp: has_row_iff)
    ultimately have rr: "store_ok s4 \<and> same_frame s3 s4 \<and> only_key key s3 s4 \<and> (e = None \<longrightarrow> has_row key (st_data s4))"
      by (intro recover_rows_ok [OF s3 h3(1) assms(2) _ _ r [unfolded recover_key_def]])
    then show ?thesis using k True r m3 by (cases e) (auto simp: same_frame_def loaded_def)
  next
    case False
    then show ?thesis using k s3 h3 m3 by (auto simp: loaded_def)
  qed
qed

lemma load_ok:
  assumes "store_ok s" "env_ok en" "load en now key s = (res, t)"
  shows "store_ok t" "st_max_stored t = st_max_stored s" "res = Inr v \<Longrightarrow> loaded t key v"
proof -
  define s1 where "s1 = s\<lparr>st_accessed := (st_accessed s)(key := now)\<rparr>"
  have s1: "store_ok s1" "st_data s1 = st_data s" "st_max_stored s1 = st_max_stored s" using assms(1) by (simp_all add: s1_def)
  note ld = assms(3) [unfolded load_def s1_def [symmetric] Let_def]
  have "store_ok t \<and> st_max_stored t = st_max_stored s \<and> (\<forall>v. res = Inr v \<longrightarrow> loaded t key v)"
  proof (cases "\<not> safe_id key \<or> st_broken s key \<noteq> None")
    case True
    then show ?thesis using assms(1) ld by (cases "safe_id key"; cases "st_broken s key") auto
  next
    case False
    show ?thesis
    proof (cases "map_of (st_data s1) key")
      case (Some v)
      then show ?thesis using ld False s1 by (auto simp: loaded_def has_row_def data_of_def row_def)
    next
      case None
      obtain r2 s2 where o: "open_state en now key s1 = (r2, s2)" by fastforce
      note oo = open_state_ok [OF s1(1) assms(2) o]
      show ?thesis
      proof (cases r2)
        case (Inl e)
        then show ?thesis using ld False None o oo s1 by auto
      next
        case (Inr v)
        have v: "snap_ok key v" "sn_encoded_bytes v \<le> hard_cap s2" using oo Inr by (auto simp: hard_cap_def)
        have k: "keep_state en now key v s2 = (res, t)" using ld False None o Inr by auto
        show ?thesis using keep_state_ok [OF _ assms(2) _ v k] oo s1 False by auto
      qed
    qed
  qed
  then show "store_ok t" "st_max_stored t = st_max_stored s" "res = Inr v \<Longrightarrow> loaded t key v" by auto
qed

lemma release_idle_ok: "store_ok s \<Longrightarrow> store_ok (release_idle now s)"
  by (auto simp: store_ok_def release_idle_def distinct_map_fst_filter list_all_iff held_ok_def hard_cap_def)

lemma load_all_ok:
  "store_ok s \<Longrightarrow> env_ok en \<Longrightarrow> load_all en now ks s = (e, t) \<Longrightarrow> store_ok t \<and> st_max_stored t = st_max_stored s"
proof (induction en now ks s rule: load_all.induct)
  case (2 en now k ks s)
  obtain r u where l: "load en now k s = (r, u)" by fastforce
  note lo = load_ok [OF 2(3,4) l]
  show ?case
  proof (cases r)
    case (Inl x)
    show ?thesis
    proof (cases "is_panic x")
      case True
      then show ?thesis using 2(5) l Inl lo by simp
    next
      case False
      then have "load_all en now ks ((mark_broken k x u)\<lparr>st_accessed := (st_accessed u)(k := st_accessed s k)\<rparr>) = (e, t)"
        using 2(5) l Inl by simp
      from 2(1) [OF l [symmetric] Inl False _ 2(4) this] lo show ?thesis by simp
    qed
  next
    case (Inr v)
    then have "load_all en now ks (u\<lparr>st_accessed := (st_accessed u)(k := st_accessed s k)\<rparr>) = (e, t)" using 2(5) l by simp
    from 2(2) [OF l [symmetric] Inr _ 2(4) this] lo show ?thesis by simp
  qed
qed simp

lemma list_runs_ok:
  assumes "store_ok s" "env_ok en" "list_runs en now key s = (res, t)"
  shows "store_ok t \<and> st_max_stored t = st_max_stored s"
proof (cases "key = []")
  case True
  obtain e u where l: "load_all en now (st_known s) s = (e, u)" by fastforce
  have "store_ok u \<and> st_max_stored u = st_max_stored s" by (rule load_all_ok [OF assms(1,2) l])
  then show ?thesis using assms(3) True l release_idle_ok [of u now]
    by (auto simp: list_runs_def split: option.splits) (auto simp: release_idle_def)
next
  case False
  obtain r u where l: "load en now key s = (r, u)" by fastforce
  note lo = load_ok [OF assms(1,2) l]
  then show ?thesis using assms(3) False l release_idle_ok [of u now]
    by (auto simp: list_runs_def split: sum.splits) (auto simp: release_idle_def)
qed

end
