(* ===== verification/Run_Changes.thy ===== *)
theory Run_Changes
  imports Run_Store_Safety
begin

text \<open>
  What an edit of one run does to the rows of its key. The interface \<open>run_edit\<close> is what every edit the
  manager makes has in common: it keeps the identity of the run, leaves a valid state, and does not touch
  the state of a run that has ended. From it follow, for any such edit, the store invariant and the fate of every row.
\<close>

section \<open>The rows of a commit\<close>

text \<open>The life of a run is its state and whether its cancellation was asked for.\<close>

definition life :: "run \<Rightarrow> run_state \<times> bool" where "life r = (rn_state r, rn_cancel_requested r)"

lemma stamped_life:
  "list_all2 (stamped now) xs ys \<Longrightarrow> map (\<lambda>(k, r). (k, life r)) ys = map (\<lambda>(k, r). (k, life r)) xs"
  by (induction rule: list_all2_induct) (auto simp: stamped_def life_def)

definition lives :: "(string \<times> run) list \<Rightarrow> string \<Rightarrow> (run_state \<times> bool) option" where
  "lives rows k = map_option life (map_of rows k)"

lemma lives_map: "lives rows k = map_of (map (\<lambda>(k, r). (k, life r)) rows) k"
  by (induction rows) (auto simp: lives_def)

lemma stamped_lives: "list_all2 (stamped now) xs ys \<Longrightarrow> lives ys = lives xs"
  unfolding fun_eq_iff lives_map using stamped_life by metis

lemma lives_update [simp]: "lives (AList.update k r rows) = (lives rows)(k \<mapsto> life r)"
  by (auto simp: lives_def update_conv fun_eq_iff)

lemma strip_run_life [simp]: "life (strip_run en b r) = life r"
  by (simp add: life_def)

lemma staged_lives: "staged en now old event v = (w, events) \<Longrightarrow> lives (sn_runs w) = lives (sn_runs v)"
  using stamp_images_rows [of now "sn_runs v" en "sn_runs old" event]
  by (auto simp: staged_def Let_def split: prod.splits intro!: stamped_lives)

lemma exhaust_lives:
  "lives (sn_runs (exhaust en cap old rid used n v)) = (lives (sn_runs v))(rid \<mapsto> (Failed, rn_cancel_requested (run_row rid v)))"
  by (simp add: exhaust_def Let_def life_def storage_exhausted_def)

lemma squeeze_lives:
  assumes "squeeze en cap old rid v events = Some (w, events')" "has_row rid (sn_runs v)"
  shows "lives (sn_runs w) = lives (sn_runs v) \<or>
    lives (sn_runs w) = (lives (sn_runs v))(rid \<mapsto> (Failed, rn_cancel_requested (run_row rid v)))"
proof -
  have "lives (sn_runs v) rid = Some (life (run_row rid v))"
    using assms(2) by (auto simp: lives_def row_def has_row_def split: option.splits)
  then have "(lives (sn_runs v))(rid \<mapsto> life (run_row rid v)) = lives (sn_runs v)" by (rule map_upd_triv)
  then show ?thesis
    using assms(1) by (auto simp: squeeze_def Let_def exhaust_lives split: if_splits)
qed

text \<open>
  A successful commit has the rows it was given, except that a run whose life changed may have been failed for want
  of room.
\<close>

lemma write_snapshot_rows:
  "write_snapshot en key v raw events rid credit s = (None, w, t) \<Longrightarrow> w = v\<lparr>sn_encoded_bytes := int (length raw)\<rparr>"
  by (auto simp: write_snapshot_def Let_def split: disk_write.splits)

lemma commit_lives:
  assumes c: "commit_for en now key v event rid s = (None, w, t)" and r: "rid = [] \<or> has_row rid (sn_runs v)"
    and old: "row_ok key (rid, run_row rid (data_of s key)) \<or> rn_id (run_row rid (data_of s key)) = []"
  shows "lives (sn_runs w) = lives (sn_runs v) \<or>
    (lives (sn_runs w) = (lives (sn_runs v))(rid \<mapsto> (Failed, rn_cancel_requested (run_row rid v)))
     \<and> life (run_row rid (data_of s key)) \<noteq> life (run_row rid v))"
proof -
  define old where "old = data_of s key"
  obtain d events where st: "staged en now old event v = (d, events)" by fastforce
  note dl = staged_lives [OF st]
  have life_row: "life (run_row rid d) = life (run_row rid v)"
    using fun_cong [OF dl, of rid] by (auto simp: lives_def row_def split: option.splits)
  note c' = c [unfolded commit_for_def old_def [symmetric] Let_def st prod.case]
  obtain raw where raw: "st_broken s key = None" "rc_encode en d = Some raw" using c' by (auto split: option.splits)
  show ?thesis
  proof (cases "retained_budget s key rid (int (length raw))")
    case (Some credit)
    then have "write_snapshot en key d raw events rid credit s = (None, w, t)" using c' raw by simp
    from write_snapshot_rows [OF this] show ?thesis using dl by simp
  next
    case None
    then have ex: "rn_id (run_row rid old) \<noteq> []" "lifecycle (run_row rid old) (run_row rid d)"
      using c' raw by (auto split: if_splits)
    obtain x events' where sq: "squeeze en (hard_cap s) old rid d events = Some (x, events')"
      and wr: "write_snapshot en key x (encoded en x) events' [] 0 s = (None, w, t)"
      using c' raw None ex by (auto split: option.splits)
    have "rid \<noteq> []" using old ex(1) by (auto simp: old_def row_ok_def safe_id_def)
    moreover have "map fst (sn_runs d) = map fst (sn_runs v)"
      using stamped_keys [OF stamp_images_rows [of now "sn_runs v" en "sn_runs old" event]] st
      by (auto simp: staged_def Let_def split: prod.splits)
    ultimately have h: "has_row rid (sn_runs d)" using r has_row_keys by blast
    have "lives (sn_runs w) = lives (sn_runs x)" using write_snapshot_rows [OF wr] by simp
    moreover have "rn_cancel_requested (run_row rid d) = rn_cancel_requested (run_row rid v)" using life_row by (simp add: life_def)
    moreover have "life (run_row rid old) \<noteq> life (run_row rid v)" using ex(2) life_row by (auto simp: lifecycle_def life_def)
    ultimately show ?thesis using squeeze_lives [OF sq h] dl by (auto simp: old_def)
  qed
qed

section \<open>Edits\<close>

locale run_edit =
  fixes fn :: "run \<Rightarrow> run_error + run"
  assumes keeps_identity: "fn r = Inr r' \<Longrightarrow> rn_id r' = rn_id r \<and> rn_key_id r' = rn_key_id r"
    and keeps_valid: "fn r = Inr r' \<Longrightarrow> valid_state (rn_state r) \<Longrightarrow> valid_state (rn_state r')"
    and keeps_ended: "fn r = Inr r' \<Longrightarrow> terminal (rn_state r) \<Longrightarrow> life r' = life r"
begin

text \<open>The cases of a change: it stops before the commit, or it commits the edited row.\<close>

lemma change_cases:
  assumes "change en now key rid fn upd s = ((err, r), t)" "load en now key s = (res, s1)"
  obtains (stopped) "t = s1" "err \<noteq> None"
  | (commits) v before r1 kept event e w where "res = Inr v" "map_of (sn_runs v) rid = Some before"
      "fn before = Inr r1" "kept = sn_retained v \<or> (\<exists>x. kept = AList.update rid x (sn_retained v))"
      "event = None \<or> (\<exists>e. event = Some e \<and> re_run_id e = rid \<and> re_state e = rn_state r1)"
      "commit_for en now key (v\<lparr>sn_runs := AList.update rid (changed_run now before r1) (sn_runs v), sn_retained := kept\<rparr>) event rid s1 = (e, w, t)"
      "e = None \<Longrightarrow> r = run_row rid w \<and> err = (if rn_state r \<noteq> rn_state r1 then Some (CommittedTerminal r) else None)"
      "e \<noteq> None \<Longrightarrow> err = e"
proof (cases res)
  case (Inl e)
  then show ?thesis using assms stopped by (auto simp: change_def)
next
  case (Inr v)
  show ?thesis
  proof (cases "map_of (sn_runs v) rid")
    case None
    then show ?thesis using assms Inr stopped by (auto simp: change_def)
  next
    case (Some before)
    show ?thesis
    proof (cases "fn before")
      case (Inl e)
      then show ?thesis using assms Inr Some stopped by (auto simp: change_def)
    next
      case fn: (Inr r1)
      define held where "held = row no_retained rid (sn_retained v)"
      define edit where "edit = edit_retained upd s1 rid (sn_retained v)"
      show ?thesis
      proof (cases edit)
        case (Inl e)
        then show ?thesis using assms Inr Some fn stopped
          by (auto simp: change_def edit_def [symmetric])
      next
        case ed: (Inr p)
        obtain kept new where p: "p = (kept, new)" by (cases p)
        have kept: "kept = sn_retained v \<or> (\<exists>x. kept = AList.update rid x (sn_retained v))"
          using ed p by (auto simp: edit_def edit_retained_def Let_def split: option.splits sum.splits)
        define r2 where "r2 = changed_run now before r1"
        define event where "event = change_event now rid held new (lifecycle before r2) r2"
        have st: "rn_state r2 = rn_state r1" by (simp add: r2_def changed_run_def Let_def)
        have ev: "event = None \<or> (\<exists>e. event = Some e \<and> re_run_id e = rid \<and> re_state e = rn_state r1)"
          using st by (auto simp: event_def change_event_def state_event_def Let_def split: option.splits)
        obtain e w u where c: "commit_for en now key (v\<lparr>sn_runs := AList.update rid r2 (sn_runs v), sn_retained := kept\<rparr>) event rid s1 = (e, w, u)"
          by (cases "commit_for en now key (v\<lparr>sn_runs := AList.update rid r2 (sn_runs v), sn_retained := kept\<rparr>) event rid s1") auto
        have "change en now key rid fn upd s = (case e of Some e \<Rightarrow> ((Some e, no_run), u)
            | None \<Rightarrow> ((if rn_state (run_row rid w) \<noteq> rn_state r2 then Some (CommittedTerminal (run_row rid w)) else None, run_row rid w), u))"
          using assms(2) Inr Some fn ed p c
          by (simp add: change_def Let_def edit_def [symmetric] held_def [symmetric] r2_def [symmetric] event_def [symmetric] split: option.split)
        with assms(1) have out: "((err, r), t) = (case e of Some e \<Rightarrow> ((Some e, no_run), u)
            | None \<Rightarrow> ((if rn_state (run_row rid w) \<noteq> rn_state r2 then Some (CommittedTerminal (run_row rid w)) else None, run_row rid w), u))"
          by simp
        have "u = t" using out by (cases e) auto
        moreover have "r = run_row rid w \<and> err = (if rn_state r \<noteq> rn_state r1 then Some (CommittedTerminal r) else None)" if "e = None"
          using out st that by simp
        moreover have "err = e" if "e \<noteq> None" using out that by (cases e) auto
        ultimately show ?thesis
          using commits [OF Inr Some fn kept ev, of e w] c by (simp add: r2_def)
      qed
    qed
  qed
qed

lemma edited_draft:
  assumes "snap_ok key v" "map_of (sn_runs v) rid = Some before" "fn before = Inr r1"
    and "kept = sn_retained v \<or> (\<exists>x. kept = AList.update rid x (sn_retained v))"
  shows "draft_ok key (v\<lparr>sn_runs := AList.update rid (changed_run now before r1) (sn_runs v), sn_retained := kept\<rparr>)"
    "event = None \<or> (\<exists>e. event = Some e \<and> re_run_id e = rid \<and> re_state e = rn_state r1) \<Longrightarrow> \<forall>e. event = Some e \<longrightarrow> event_ok e"
    "row_ok key (rid, before)"
proof -
  show b: "row_ok key (rid, before)" by (rule snap_row [OF assms(1,2)])
  then show "event = None \<or> (\<exists>e. event = Some e \<and> re_run_id e = rid \<and> re_state e = rn_state r1) \<Longrightarrow> \<forall>e. event = Some e \<longrightarrow> event_ok e"
    using keeps_valid [OF assms(3)] by (auto simp: event_ok_def row_ok_def)
  have r1: "row_ok key (rid, changed_run now before r1)"
    using b keeps_identity [OF assms(3)] keeps_valid [OF assms(3)] by (auto simp: row_ok_def changed_run_def Let_def)
  have "distinct (map fst kept)" using assms(1,4) by (auto simp: snap_ok_parts tables_ok_def maps_ok_def)
  then have "draft_ok key (v\<lparr>sn_retained := kept\<rparr>)" using assms(1) by (intro draft_retained) simp_all
  from draft_runs [OF this _ r1] assms(2)
  have "draft_ok key (v\<lparr>sn_retained := kept\<rparr>\<lparr>sn_runs := AList.update rid (changed_run now before r1) (sn_runs v)\<rparr>)"
    by (simp add: has_row_def)
  moreover have "v\<lparr>sn_retained := kept\<rparr>\<lparr>sn_runs := AList.update rid (changed_run now before r1) (sn_runs v)\<rparr>
      = v\<lparr>sn_runs := AList.update rid (changed_run now before r1) (sn_runs v), sn_retained := kept\<rparr>" by simp
  ultimately show "draft_ok key (v\<lparr>sn_runs := AList.update rid (changed_run now before r1) (sn_runs v), sn_retained := kept\<rparr>)" by simp
qed

lemma change_keeps_store:
  assumes "store_ok s" "env_ok en" "change en now key rid fn upd s = ((err, r), t)"
  shows "store_ok t"
proof -
  obtain res s1 where ld: "load en now key s = (res, s1)" by fastforce
  note lo = load_ok [OF assms(1,2) ld]
  show ?thesis
  proof (cases rule: change_cases [OF assms(3) ld])
    case 1
    then show ?thesis using lo by simp
  next
    case (2 v before r1 kept event e w)
    have l: "loaded s1 key v" by (rule lo(3) [OF 2(1)])
    note v = loaded_ok [OF lo(1) l]
    note d = edited_draft [OF _ 2(2,3,4), where key = key]
    show ?thesis
      by (rule commit_for_ok(1) [OF lo(1) _ assms(2) d(1) d(2) [OF _ 2(5)] _ 2(6)]) (use l v in \<open>simp_all add: loaded_def\<close>)
  qed
qed

lemma change_committed:
  assumes "store_ok s" "env_ok en" "change en now key rid fn upd s = ((None, r), t)"
  shows "committed en key t (data_of t key) \<and> store_ok t \<and> safe_id key \<and> st_max_stored t = st_max_stored s
    \<and> map_of (sn_runs (data_of t key)) rid = Some r \<and> (\<exists>before r1. fn before = Inr r1 \<and> rn_state r = rn_state r1)"
proof -
  obtain res s1 where ld: "load en now key s = (res, s1)" by fastforce
  note lo = load_ok [OF assms(1,2) ld]
  show ?thesis
  proof (cases rule: change_cases [OF assms(3) ld])
    case 1
    then show ?thesis by simp
  next
    case (2 v before r1 kept event e w)
    have e: "e = None" using 2(8) by (cases e) auto
    have l: "loaded s1 key v" by (rule lo(3) [OF 2(1)])
    note v = loaded_ok [OF lo(1) l]
    note d = edited_draft [OF _ 2(2,3,4), where key = key]
    have vok: "snap_ok key v" using v by simp
    have cf: "commit_for en now key (v\<lparr>sn_runs := AList.update rid (changed_run now before r1) (sn_runs v), sn_retained := kept\<rparr>) event rid s1
        = (None, w, t)" using 2(6) e by simp
    note co = commit_for_ok [OF lo(1) _ assms(2) d(1) [OF vok] d(2) [OF vok 2(5)] _ cf]
    have cm: "committed en key t w" and keys: "map fst (sn_runs w) = map fst (AList.update rid (changed_run now before r1) (sn_runs v))"
      and st: "store_ok t" and fr: "same_frame s1 t" using co l by (auto simp: loaded_def)
    have "has_row rid (sn_runs w)" using has_row_keys [OF keys] by simp
    moreover have "r = run_row rid w" "rn_state r = rn_state r1" using 2(7) e by (auto split: if_splits)
    ultimately have row: "map_of (sn_runs w) rid = Some r" by (auto simp: has_row_def row_def)
    have dw: "data_of t key = w" using cm by (simp add: committed_def)
    show ?thesis using cm st v fr lo(2) row 2(3) \<open>rn_state r = rn_state r1\<close> by (auto simp: dw same_frame_def)
  qed
qed

text \<open>The fate of the rows of the key: only the edited run moves, as the edit says or to \<open>Failed\<close>; an ended run does not.\<close>

lemma change_lives:
  assumes s: "store_ok s" "env_ok en" and c: "change en now key rid fn upd s = ((err, r), t)"
    and l: "load en now key s = (Inr v, s1)"
  shows "lives (sn_runs (data_of t key)) = lives (sn_runs v) \<or>
    (\<exists>before r1. map_of (sn_runs v) rid = Some before \<and> fn before = Inr r1 \<and>
       (lives (sn_runs (data_of t key)) = (lives (sn_runs v))(rid \<mapsto> life r1)
        \<or> \<not> terminal (rn_state before) \<and> lives (sn_runs (data_of t key)) = (lives (sn_runs v))(rid \<mapsto> (Failed, rn_cancel_requested r1))))"
proof (cases rule: change_cases [OF c l])
  case 1
  then show ?thesis using load_ok(3) [OF s l] by (simp add: loaded_def)
next
  case (2 v' before r1 kept event e w)
  have v': "v' = v" using 2(1) by simp
  note lo = load_ok [OF s l]
  have ld: "loaded s1 key v" using lo(3) by simp
  note vo = loaded_ok [OF lo(1) ld]
  let ?r2 = "changed_run now before r1"
  let ?d = "v\<lparr>sn_runs := AList.update rid ?r2 (sn_runs v), sn_retained := kept\<rparr>"
  note d = edited_draft [OF _ 2(2-4) [unfolded v'], where key = key]
  have vok: "snap_ok key v" using vo by simp
  have b: "row_ok key (rid, before)" by (rule d(3) [OF vok])
  have r2: "life ?r2 = life r1" by (simp add: changed_run_def life_def Let_def)
  have data: "data_of s1 key = v" using ld by (simp add: loaded_def)
  have rowb: "run_row rid (data_of s1 key) = before" using 2(2) v' by (simp add: data row_def)
  show ?thesis
  proof (cases e)
    case (Some x)
    have "st_data t = st_data s1"
      by (rule commit_for_ok(5) [OF lo(1) _ s(2) d(1) [OF vok] d(2) [OF vok 2(5)] _ 2(6) [unfolded v']]) (use ld Some in \<open>simp_all add: loaded_def\<close>)
    then show ?thesis using data by (simp add: data_of_def)
  next
    case None
    have cf: "commit_for en now key ?d event rid s1 = (None, w, t)" using 2(6) v' None by simp
    have "committed en key t w"
      using commit_for_ok(4) [OF lo(1) _ s(2) d(1) [OF vok] d(2) [OF vok 2(5)] _ cf] ld by (simp add: loaded_def)
    then have w: "data_of t key = w" by (simp add: committed_def)
    have cl: "lives (sn_runs w) = lives (sn_runs ?d) \<or>
        (lives (sn_runs w) = (lives (sn_runs ?d))(rid \<mapsto> (Failed, rn_cancel_requested (run_row rid ?d)))
         \<and> life (run_row rid (data_of s1 key)) \<noteq> life (run_row rid ?d))"
      by (rule commit_lives [OF cf]) (use b rowb in simp_all)
    have "\<not> terminal (rn_state before)" if "life before \<noteq> life r1" using keeps_ended [OF 2(3)] that by auto
    with cl show ?thesis using 2(2,3) v' r2 by (auto simp: w rowb life_def)
  qed
qed

lemma change_ended:
  assumes "store_ok s" "env_ok en" "change en now key rid fn upd s = ((err, r), t)" "load en now key s = (Inr v, s1)"
    and "map_of (sn_runs v) k = Some r0" "terminal (rn_state r0)"
  shows "lives (sn_runs (data_of t key)) k = Some (life r0)"
proof -
  have k: "lives (sn_runs v) k = Some (life r0)" using assms(5) by (simp add: lives_def)
  from change_lives [OF assms(1-4)] show ?thesis
  proof (elim disjE exE conjE)
    fix before r1
    assume *: "map_of (sn_runs v) rid = Some before" "fn before = Inr r1"
      "lives (sn_runs (data_of t key)) = (lives (sn_runs v))(rid \<mapsto> life r1)"
    then show ?thesis using k assms(5,6) keeps_ended [OF *(2)] by (cases "k = rid") auto
  qed (use k assms(5,6) in \<open>auto split: if_splits\<close>)
qed

end

section \<open>Admitting a batch\<close>

lemma commit_success_data:
  assumes "commit_for en now key v event rid s = (None, w, t)"
  shows "st_data t = AList.update key w (st_data s) \<and> st_broken t = st_broken s \<and> st_broken s key = None"
proof -
  have wr: "st_data t = AList.update key w (st_data s) \<and> st_broken t = st_broken s"
    if "write_snapshot en key v raw evs i c s = (None, w, t)" for v raw evs i c
    using that by (auto simp: write_snapshot_def Let_def split: disk_write.splits)
  then show ?thesis using assms
    by (auto simp: commit_for_def Let_def split: option.splits prod.splits if_splits)
qed

text \<open>A commit whose own run is new never uses the exception.\<close>

lemma commit_new_rows:
  assumes c: "commit_for en now key v event rid s = (None, w, t)" and n: "\<not> has_row rid (sn_runs (data_of s key))"
  shows "list_all2 (stamped now) (sn_runs v) (sn_runs w)"
proof -
  obtain d events where st: "staged en now (data_of s key) event v = (d, events)" by fastforce
  have d: "list_all2 (stamped now) (sn_runs v) (sn_runs d)"
    using stamp_images_rows [of now "sn_runs v" en "sn_runs (data_of s key)" event] st
    by (auto simp: staged_def Let_def split: prod.splits)
  have "rn_id (run_row rid (data_of s key)) = []" using n by (auto simp: row_def has_row_def no_run_def split: option.splits)
  then obtain raw credit where "write_snapshot en key d raw events rid credit s = (None, w, t)"
    using c unfolding commit_for_def Let_def st by (auto split: option.splits if_splits)
  from write_snapshot_rows [OF this] d show ?thesis by simp
qed

lemma stamped_live: "list_all2 (stamped now) xs ys \<Longrightarrow> length (live ys) = length (live xs)"
  by (induction rule: list_all2_induct) (auto simp: stamped_def live_def)

lemma live_update_new:
  "\<not> has_row k rows \<Longrightarrow> \<not> terminal (rn_state r) \<Longrightarrow> length (live (AList.update k r rows)) = length (live rows) + 1"
  by (induction rows) (auto simp: live_def has_row_def split: if_splits)

lemma length_update_new: "\<not> has_row k rows \<Longrightarrow> length (AList.update k r rows) = length rows + 1"
  by (induction rows) (auto simp: has_row_def split: if_splits)

lemma sum_list_update_key:
  fixes g :: "string \<times> 'a \<Rightarrow> nat"
  assumes "distinct (map fst m)" "map_of m k = Some v"
  shows "sum_list (map g (AList.update k w m)) + g (k, v) = sum_list (map g m) + g (k, w)"
  using assms by (induction m) (auto split: if_splits simp: image_iff)

definition snap_live :: "(string \<Rightarrow> run_error option) \<Rightarrow> string \<times> snapshot \<Rightarrow> nat" where
  "snap_live broken = (\<lambda>(k, v). if broken k = None then length (live (sn_runs v)) else 0)"

lemma count_live_alt: "count_live s = sum_list (map (snap_live (st_broken s)) (st_data s))"
  by (simp add: count_live_def snap_live_def)

lemma new_rows_ids:
  "new_rows en mk i inps s = (rows, t) \<Longrightarrow>
     rows = map2 (\<lambda>j inp. mk (i + j) inp (''r_'' @ rc_random en (st_ids s + j))) [0..<length inps] inps
     \<and> t = s\<lparr>st_ids := st_ids s + length inps\<rparr>"
proof (induction inps arbitrary: i s rows t)
  case (Cons inp inps)
  define s1 where "s1 = s\<lparr>st_ids := st_ids s + 1\<rparr>"
  obtain rs u where n: "new_rows en mk (i + 1) inps s1 = (rs, u)" by fastforce
  have r: "rows = mk i inp (''r_'' @ rc_random en (st_ids s)) # rs" "t = u"
    using Cons.prems n by (auto simp: fresh_id_def s1_def split: prod.splits)
  have "[0..<length (inp # inps)] = 0 # map Suc [0..<length inps]" by (simp add: map_Suc_upt upt_conv_Cons del: upt_Suc)
  then show ?case using Cons.IH [OF n] r by (simp add: s1_def zip_map1 o_def split_def)
qed simp

text \<open>The rows of a batch go in as new live rows.\<close>

definition fresh_rows :: "run list \<Rightarrow> (string \<times> run) list \<Rightarrow> bool" where
  "fresh_rows rows m \<longleftrightarrow> distinct (map rn_id rows) \<and> (\<forall>r \<in> set rows. \<not> has_row (rn_id r) m \<and> rn_state r = Queued)"

lemma fresh_tail: "fresh_rows (x # rows) m \<Longrightarrow> fresh_rows rows (AList.update (rn_id x) x m)"
  unfolding fresh_rows_def by (auto, metis imageI)

lemma add_rows:
  "fresh_rows rows m \<Longrightarrow>
     length (live (fold (\<lambda>r. AList.update (rn_id r) r) rows m)) = length (live m) + length rows
     \<and> length (fold (\<lambda>r. AList.update (rn_id r) r) rows m) = length m + length rows
     \<and> (\<forall>k. has_row k (fold (\<lambda>r. AList.update (rn_id r) r) rows m) \<longleftrightarrow> has_row k m \<or> k \<in> rn_id ` set rows)"
proof (induction rows arbitrary: m)
  case (Cons r rows)
  have "fresh_rows rows (AList.update (rn_id r) r m)" by (rule fresh_tail [OF Cons.prems])
  from Cons.IH [OF this] Cons.prems show ?case
    by (auto simp: fresh_rows_def live_update_new length_update_new)
qed simp

lemma add_rows_row:
  "fresh_rows rows m \<Longrightarrow> r \<in> set rows \<Longrightarrow> map_of (fold (\<lambda>r. AList.update (rn_id r) r) rows m) (rn_id r) = Some r"
proof (induction rows arbitrary: m)
  case (Cons x rows)
  have keep: "map_of (fold (\<lambda>r. AList.update (rn_id r) r) rows m') k = map_of m' k" if "k \<notin> rn_id ` set rows" for m' k
    using that by (induction rows arbitrary: m') (auto simp: update_conv)
  have fr: "fresh_rows rows (AList.update (rn_id x) x m)" by (rule fresh_tail [OF Cons.prems(1)])
  show ?case
  proof (cases "r \<in> set rows")
    case True
    then show ?thesis using Cons.IH [OF fr] by simp
  next
    case False
    then have "r = x" using Cons.prems by simp
    then show ?thesis using Cons.prems(1) by (simp add: keep fresh_rows_def update_conv)
  qed
qed simp

text \<open>The next \<open>n\<close> random ids differ and have not been used by the key before (128 random bits).\<close>

definition ids_unused :: "run_env \<Rightarrow> nat \<Rightarrow> nat \<Rightarrow> snapshot \<Rightarrow> bool" where
  "ids_unused en i n v \<longleftrightarrow> inj_on (rc_random en) {i..<i + n}
     \<and> (\<forall>j \<in> {i..<i + n}. \<not> has_row (''r_'' @ rc_random en j) (sn_runs v) \<and> ''r_'' @ rc_random en j \<notin> set (sn_cleanup v))"

lemma new_rows_fresh:
  assumes "ids_unused en (st_ids s) (length inputs) v" "new_rows en (new_run now cid key kind priority batch n) 0 inputs s = (rows, t)"
  shows "fresh_rows rows (sn_runs v) \<and> length rows = length inputs \<and> rn_id ` set rows \<inter> set (sn_cleanup v) = {}
    \<and> (\<forall>r \<in> set rows. rn_kind r = kind \<and> rn_key_id r = key \<and> (\<exists>m. rn_id r = ''r_'' @ rc_random en m))"
proof -
  have r: "rows = map2 (\<lambda>j inp. new_run now cid key kind priority batch n (0 + j) inp (''r_'' @ rc_random en (st_ids s + j)))
      [0..<length inputs] inputs"
    using new_rows_ids [OF assms(2)] by simp
  then have len: "length rows = length inputs" by simp
  have el: "rn_id (rows ! j) = ''r_'' @ rc_random en (st_ids s + j) \<and> rn_state (rows ! j) = Queued \<and> rn_kind (rows ! j) = kind
      \<and> rn_key_id (rows ! j) = key" if "j < length inputs" for j
    using that r by (simp add: new_run_def)
  have "distinct (map rn_id rows)"
    unfolding distinct_conv_nth using el len assms(1) by (auto simp: ids_unused_def dest: inj_onD)
  then show ?thesis using el len assms(1) by (fastforce simp: fresh_rows_def ids_unused_def in_set_conv_nth)
qed

lemma added_draft:
  assumes "snap_ok key v" "fresh_rows rows (sn_runs v)" "rn_id ` set rows \<inter> set (sn_cleanup v) = {}"
    and "\<forall>r \<in> set rows. rn_key_id r = key \<and> safe_id (rn_id r)" "int (length (sn_runs v)) + int (length rows) \<le> max_runs"
  shows "draft_ok key (v\<lparr>sn_runs := fold (\<lambda>r. AList.update (rn_id r) r) rows (sn_runs v)\<rparr>)"
proof -
  let ?m = "fold (\<lambda>r. AList.update (rn_id r) r) rows (sn_runs v)"
  note add = add_rows [OF assms(2)]
  have ok: "list_all (row_ok key) m \<Longrightarrow> \<forall>r \<in> set rs. rn_key_id r = key \<and> safe_id (rn_id r) \<and> rn_state r = Queued
      \<Longrightarrow> list_all (row_ok key) (fold (\<lambda>r. AList.update (rn_id r) r) rs m)" for rs m
  proof (induction rs arbitrary: m)
    case (Cons a rs)
    then have "list_all (row_ok key) (AList.update (rn_id a) a m)" by (intro list_all_update) (auto simp: row_ok_def)
    with Cons show ?case by simp
  qed simp
  have di: "distinct (map fst m) \<Longrightarrow> distinct (map fst (fold (\<lambda>r. AList.update (rn_id r) r) rs m))" for rs and m :: "(string \<times> run) list"
    by (induction rs arbitrary: m) auto
  have fo: "file_ok key v" using assms(1) by (simp add: snap_ok_def)
  have mono: "filter (\<lambda>(rid, x). has_row rid ?m) (sn_retained v) = sn_retained v"
    "filter (\<lambda>(rid, x). has_row rid ?m) (sn_exception_bytes v) = sn_exception_bytes v"
    using fo add by (auto simp: file_ok_def list_all_iff filter_id_conv)
  have d: "drop_orphan_rows (v\<lparr>sn_runs := ?m\<rparr>) = v\<lparr>sn_runs := ?m\<rparr>" using mono by (simp add: drop_orphan_rows_def)
  have t: "tables_ok key v" using assms(1) by (simp add: snap_ok_parts)
  have "tables_ok key (v\<lparr>sn_runs := ?m\<rparr>)"
    using t assms(2-5) add ok [of "sn_runs v" rows] di [of "sn_runs v" rows]
    by (auto simp: tables_ok_def cleanup_ok_def maps_ok_def fresh_rows_def list_all_iff)
  then show ?thesis
    using assms(1) log_ok_cong [of "v\<lparr>sn_runs := ?m\<rparr>" v] by (simp add: draft_ok_def d snap_ok_parts)
qed

text \<open>The cases of an admission: it is refused before anything is written, or the commit decides.\<close>

lemma create_batch_cases:
  assumes "create_batch en now key kind priority inputs cap correlation admit (s, world) = (res, t, world')"
    and "load en now key s = (Inr v, s1)"
  obtains (refused) e where "res = Inl e" "st_data t = st_data s1 \<or> t = s" "admit = None \<Longrightarrow> world' = world"
      "\<And>f. admit = Some f \<Longrightarrow> world' = world \<or> (\<exists>rows. f rows world = (Inl e, world'))
          \<or> (\<exists>rows undo w1. f rows world = (Inr undo, w1) \<and> world' = undo w1)"
      "store_ok s1 \<Longrightarrow> store_ok s \<Longrightarrow> store_ok t"
  | (tried) rows undo world1 e w s2 where "inputs \<noteq> []" "batch_limit kind (int (length inputs)) cap (sn_runs v) = None"
      "st_data s2 = st_data s1 \<and> st_broken s2 = st_broken s1 \<and> st_reserved s2 = st_reserved s1 \<and> st_max_stored s2 = st_max_stored s1"
      "\<exists>cid batch s0. st_ids s0 = st_ids s1 + 1 \<and> new_rows en (new_run now cid key kind priority batch (length inputs)) 0 inputs s0 = (rows, s2)"
      "admit = None \<and> undo = id \<and> world1 = world \<or> (\<exists>f. admit = Some f \<and> f rows world = (Inr undo, world1))"
      "int (count_live s2) + int (length inputs) \<le> max_live_host"
      "commit en now key (v\<lparr>sn_runs := fold (\<lambda>r. AList.update (rn_id r) r) rows (sn_runs v)\<rparr>)
         (Some (state_event (rn_id (hd rows)) Queued now)) s2 = (e, w, t)"
      "e = None \<Longrightarrow> res = Inr (map (\<lambda>r. run_row (rn_id r) w) rows) \<and> world' = world1"
      "e \<noteq> None \<Longrightarrow> res = Inl (the e) \<and> world' = undo world1"
proof (cases "batch_arguments en kind priority inputs correlation")
  case (Some e)
  then show ?thesis using assms refused by (auto simp: create_batch_def)
next
  case None
  note args = None
  have ne: "inputs \<noteq> []" using args by (auto simp: batch_arguments_def split: if_splits)
  show ?thesis
  proof (cases "batch_limit kind (int (length inputs)) cap (sn_runs v)")
    case (Some e)
    then show ?thesis using assms args refused by (auto simp: create_batch_def)
  next
    case None
    note lim = None
    define s0 where "s0 = s1\<lparr>st_ids := st_ids s1 + 1\<rparr>"
    define batch where "batch = ''b_'' @ rc_random en (st_ids s1)"
    have f: "fresh_id en ''b_'' s1 = (batch, s0)" by (simp add: fresh_id_def batch_def s0_def)
    define cid where "cid = (if correlation = [] then [] else hd correlation)"
    obtain rows s2 where nr: "new_rows en (new_run now cid key kind priority batch (length inputs)) 0 inputs s0 = (rows, s2)" by fastforce
    have s2: "s2 = s0\<lparr>st_ids := st_ids s0 + length inputs\<rparr>" using new_rows_ids [OF nr] by simp
    obtain dec world1 where ad: "(case admit of None \<Rightarrow> (Inr id, world) | Some f \<Rightarrow> f rows world) = (dec, world1)" by fastforce
    note body = assms(1) [unfolded create_batch_def prod.case args option.case assms(2) sum.case lim f cid_def [symmetric] nr ad]
    show ?thesis
    proof (cases dec)
      case (Inl e)
      then have out: "res = Inl e" "t = s2" "world' = world1" using body by auto
      have "world' = world" if "admit = None" using ad Inl that by simp
      moreover have "\<exists>rows. f rows world = (Inl e, world')" if "admit = Some f" for f using ad Inl that out by auto
      ultimately show ?thesis using refused [of e] out s2 by (auto simp: s0_def)
    next
      case (Inr undo)
      show ?thesis
      proof (cases "int (count_live s2) + int (length inputs) > max_live_host")
        case True
        then have out: "res = Inl ErrLimit" "t = s2" "world' = undo world1" using body Inr by auto
        have "world' = world" if "admit = None" using ad Inr that out by simp
        moreover have "\<exists>rows undo w1. f rows world = (Inr undo, w1) \<and> world' = undo w1" if "admit = Some f" for f
          using ad Inr that out by auto
        ultimately show ?thesis using refused [of ErrLimit] out s2 by (auto simp: s0_def)
      next
        case False
        obtain e w u where c: "commit en now key (v\<lparr>sn_runs := fold (\<lambda>r. AList.update (rn_id r) r) rows (sn_runs v)\<rparr>)
         (Some (state_event (rn_id (hd rows)) Queued now)) s2 = (e, w, u)"
          by (cases "commit en now key (v\<lparr>sn_runs := fold (\<lambda>r. AList.update (rn_id r) r) rows (sn_runs v)\<rparr>)
         (Some (state_event (rn_id (hd rows)) Queued now)) s2") auto
        have out: "(res, t, world') = (case e of Some x \<Rightarrow> (Inl x, u, undo world1)
            | None \<Rightarrow> (Inr (map (\<lambda>r. run_row (rn_id r) w) rows), u, world1))"
          using body Inr False c by (simp split: option.splits)
        have ad': "admit = None \<and> undo = id \<and> world1 = world \<or> (\<exists>f. admit = Some f \<and> f rows world = (Inr undo, world1))"
          using ad Inr by (auto split: option.splits)
        show ?thesis
        proof (rule tried [OF ne lim _ _ ad'])
          show "st_data s2 = st_data s1 \<and> st_broken s2 = st_broken s1 \<and> st_reserved s2 = st_reserved s1 \<and> st_max_stored s2 = st_max_stored s1"
            using s2 by (simp add: s0_def)
          show "\<exists>cid batch s0. st_ids s0 = st_ids s1 + 1 \<and> new_rows en (new_run now cid key kind priority batch (length inputs)) 0 inputs s0 = (rows, s2)"
            using nr by (intro exI [of _ cid] exI [of _ batch] exI [of _ s0] conjI) (simp add: s0_def)
          show "int (count_live s2) + int (length inputs) \<le> max_live_host" using False by simp
          show "commit en now key (v\<lparr>sn_runs := fold (\<lambda>r. AList.update (rn_id r) r) rows (sn_runs v)\<rparr>)
             (Some (state_event (rn_id (hd rows)) Queued now)) s2 = (e, w, t)" using c out by (cases e) auto
          show "res = Inr (map (\<lambda>r. run_row (rn_id r) w) rows) \<and> world' = world1" if "e = None" using out that by simp
          show "res = Inl (the e) \<and> world' = undo world1" if "e \<noteq> None" using out that by (cases e) auto
        qed
      qed
    qed
  qed
qed

lemma stamped_map_of:
  "list_all2 (stamped now) xs ys \<Longrightarrow>
     map_of ys k = map_of xs k \<or> (\<exists>r. map_of xs k = Some r \<and> map_of ys k = Some (r\<lparr>rn_updated := now\<rparr>))"
  by (induction rule: list_all2_induct) (auto simp: stamped_def)

lemma count_live_update:
  assumes "store_ok s" "loaded s key v" "st_broken s key = None" "st_data t = AList.update key w (st_data s)" "st_broken t = st_broken s"
  shows "count_live t + length (live (sn_runs v)) = count_live s + length (live (sn_runs w))"
proof -
  have "map_of (st_data s) key = Some v"
    using assms(2) by (auto simp: loaded_def has_row_def data_of_def row_def split: option.splits)
  from sum_list_update_key [OF _ this, of "snap_live (st_broken s)" w] assms(1,3) show ?thesis
    by (simp add: count_live_alt assms(4,5) snap_live_def store_ok_def)
qed

text \<open>
  C10. A batch that is admitted queues exactly the runs it names, all in one commit, and afterwards the key has
  at most 16 live runs of at most 100, and the keys in memory at most 64 live runs together.
\<close>

theorem batch_within_limits:
  assumes s: "store_ok s" "env_ok en" and ld: "load en now key s = (Inr v, s1)" and ids: "ids_unused en (st_ids s1 + 1) (length inputs) v"
    and c: "create_batch en now key kind priority inputs cap correlation admit (s, world) = (Inr rows, t, world')"
  shows "length rows = length inputs
    \<and> (\<forall>r \<in> set rows. rn_state r = Queued \<and> rn_kind r = kind \<and> rn_key_id r = key)
    \<and> length (live (sn_runs (data_of t key))) = length (live (sn_runs v)) + length inputs
    \<and> int (length (live (sn_runs (data_of t key)))) \<le> max_live_key
    \<and> length (sn_runs (data_of t key)) = length (sn_runs v) + length inputs
    \<and> int (length (sn_runs (data_of t key))) \<le> max_runs
    \<and> int (count_live t) \<le> max_live_host \<and> store_ok t"
proof (cases rule: create_batch_cases [OF c ld])
  case 1
  then show ?thesis by simp
next
  case (2 added undo world1 e w s2)
  note lo = load_ok [OF s ld]
  have l1: "loaded s1 key v" using lo(3) by simp
  have e: "e = None" and rows: "rows = map (\<lambda>r. run_row (rn_id r) w) added"
    using 2(8,9) by (cases e; auto)+
  obtain cid batch s0 where i0: "st_ids s0 = st_ids s1 + 1" and nr: "new_rows en (new_run now cid key kind priority batch (length inputs)) 0 inputs s0 = (added, s2)"
    using 2(4) by blast
  note nf = new_rows_fresh [OF ids [folded i0] nr]
  let ?m = "fold (\<lambda>r. AList.update (rn_id r) r) added (sn_runs v)"
  note add = add_rows [OF conjunct1 [OF nf]]
  have s2: "store_ok s2" "loaded s2 key v" using lo(1) l1 2(3) store_ok_cong [of s2 s1] by (simp_all add: loaded_def data_of_def)
  note vo = loaded_ok [OF s2]
  have lims: "int (length (live (sn_runs v))) + int (length inputs) \<le> max_live_key" "int (length (sn_runs v)) + int (length inputs) \<le> max_runs"
    using 2(2) by (auto simp: batch_limit_def Let_def split: if_splits)
  have safe: "\<forall>r \<in> set added. rn_key_id r = key \<and> safe_id (rn_id r)" using nf s(2) by (fastforce simp: env_ok_def)
  have ne: "added \<noteq> []" using nf 2(1) by auto
  then have hd: "hd added \<in> set added" by simp
  have d: "draft_ok key (v\<lparr>sn_runs := ?m\<rparr>)" using vo nf safe lims(2) by (intro added_draft) auto
  have id: "re_run_id (state_event (rn_id (hd added)) Queued now) = rn_id (hd added)" by (simp add: state_event_def)
  have ev: "\<forall>e. Some (state_event (rn_id (hd added)) Queued now) = Some e \<longrightarrow> event_ok e"
    using safe hd by (simp add: event_ok_def state_event_def)
  have cf: "commit_for en now key (v\<lparr>sn_runs := ?m\<rparr>) (Some (state_event (rn_id (hd added)) Queued now)) (rn_id (hd added)) s2 = (None, w, t)"
    using 2(7) e by (simp add: commit_def id)
  have has: "has_row (rn_id (hd added)) ?m" using add hd by auto
  note co = commit_for_ok [OF s2(1) _ s(2) d ev _ cf]
  have t: "store_ok t" "committed en key t w" using co s2(2) has by (auto simp: loaded_def)
  have "\<not> has_row (rn_id (hd added)) (sn_runs (data_of s2 key))" using s2(2) nf hd by (auto simp: loaded_def fresh_rows_def)
  note st = commit_new_rows [OF cf this]
  have dw: "data_of t key = w" using t(2) by (simp add: committed_def)
  have lw: "length (live (sn_runs w)) = length (live (sn_runs v)) + length inputs" using stamped_live [OF st] add nf by simp
  have nw: "length (sn_runs w) = length (sn_runs v) + length inputs" using list_all2_lengthD [OF st] add nf by simp
  note cs = commit_success_data [OF cf]
  have cl: "count_live t + length (live (sn_runs v)) = count_live s2 + length (live (sn_runs w))"
    by (rule count_live_update [OF s2]) (use cs in simp_all)
  have row: "rn_state (run_row (rn_id r) w) = Queued \<and> rn_kind (run_row (rn_id r) w) = kind \<and> rn_key_id (run_row (rn_id r) w) = key"
    if "r \<in> set added" for r
  proof -
    have "map_of ?m (rn_id r) = Some r" by (rule add_rows_row [OF conjunct1 [OF nf] that])
    then have "map_of (sn_runs w) (rn_id r) = Some r \<or> map_of (sn_runs w) (rn_id r) = Some (r\<lparr>rn_updated := now\<rparr>)"
      using stamped_map_of [OF st, of "rn_id r"] by auto
    then show ?thesis using nf that by (auto simp: row_def fresh_rows_def)
  qed
  show ?thesis using rows row nf lw nw dw lims cl 2(6) t(1) by auto
qed

definition sample_run_env :: run_env where
  "sample_run_env = \<lparr>rc_encode = (\<lambda>_. Some ''{}''), rc_decode = (\<lambda>_ _. None), rc_valid = (\<lambda>_. True), rc_image = (\<lambda>_. None),
     rc_image_text = (\<lambda>_. []), rc_retained_size = (\<lambda>_. Some 2), rc_random = (\<lambda>n. replicate (n mod 50 + 1) CHR ''a''),
     rc_write = (\<lambda>_. WriteDone), rc_mime = (\<lambda>_. True), rc_text = (\<lambda>_. [])\<rparr>"

definition start_store :: run_store where
  "start_store = new_store [''k1''] (\<lambda>_. DirPlain) (\<lambda>_. NoFile)"

lemma sample_env_sel [simp]:
  "rc_encode sample_run_env v = Some ''{}''" "rc_decode sample_run_env d raw = None" "rc_valid sample_run_env x"
  "rc_image sample_run_env x = None" "rc_random sample_run_env n = replicate (n mod 50 + 1) CHR ''a''"
  "rc_write sample_run_env n = WriteDone"
  by (simp_all add: sample_run_env_def)

lemma sample_ids: "safe_id (CHR ''e'' # CHR ''_'' # replicate (n mod 50 + 1) CHR ''a'') \<and> safe_id (CHR ''r'' # CHR ''_'' # replicate (n mod 50 + 1) CHR ''a'')"
proof -
  have "n mod 50 < 50" by simp
  then show ?thesis by (auto simp: safe_id_def id_char_def byte_def Let_def list_all_iff)
qed

lemma sample_run_env_ok: "env_ok sample_run_env"
  using sample_ids by (auto simp: env_ok_def sample_run_env_def encoded_size_def encoded_def)

lemma start_store_ok: "store_ok start_store"
  by (simp add: store_ok_def start_store_def new_store_def leases_ok_def max_stored_def)

lemma start_load:
  "load sample_run_env 5 ''k1'' start_store =
     (Inr (new_snapshot ''e_a''\<lparr>sn_encoded_bytes := 2\<rparr>),
      start_store\<lparr>st_accessed := (\<lambda>_. 0)(''k1'' := 5), st_ids := 1, st_data := [(''k1'', new_snapshot ''e_a''\<lparr>sn_encoded_bytes := 2\<rparr>)]\<rparr>)"
  by (simp add: load_def start_store_def new_store_def sample_run_env_def open_state_def safe_id_def id_char_def byte_def
    fresh_id_def new_snapshot_def cleanup_ok_def keep_state_def Let_def restore_cleanup_def encoded_size_def encoded_def)

lemmas eval_batch = create_batch_def batch_arguments_def batch_limit_def live_def count_live_def Let_def fresh_id_def new_run_def
  run_limits max_input_def
lemmas eval_commit = commit_def state_event_def commit_for_def staged_def drop_orphan_rows_def image_output_of_def data_of_def
  log_events_def keep_last_def retained_budget_def row_def reserved_bytes_def store_budget_def terminal_bound_def write_snapshot_def

lemma start_create:
  "\<exists>rows t. create_batch sample_run_env 5 ''k1'' ''chat'' ''interactive'' [''x''] 16 [] (None :: unit batch_hook option) (start_store, ()) = (Inr rows, t, ())"
  by (simp add: start_load eval_batch, simp add: eval_commit Let_def run_limits safe_id_def id_char_def byte_def new_snapshot_def start_store_def new_store_def)

theorem batch_within_limits_witness:
  "\<exists>rows t. create_batch sample_run_env 5 ''k1'' ''chat'' ''interactive'' [''x''] 16 [] (None :: unit batch_hook option) (start_store, ()) = (Inr rows, t, ())
     \<and> length rows = 1 \<and> length (live (sn_runs (data_of t ''k1''))) = 1 \<and> int (count_live t) \<le> max_live_host"
proof -
  obtain rows t where c: "create_batch sample_run_env 5 ''k1'' ''chat'' ''interactive'' [''x''] 16 [] (None :: unit batch_hook option) (start_store, ()) = (Inr rows, t, ())"
    using start_create by blast
  have "ids_unused sample_run_env (st_ids (start_store\<lparr>st_accessed := (\<lambda>_. 0)(''k1'' := 5), st_ids := 1,
      st_data := [(''k1'', new_snapshot ''e_a''\<lparr>sn_encoded_bytes := 2\<rparr>)]\<rparr>) + 1) (length [''x'']) (new_snapshot ''e_a''\<lparr>sn_encoded_bytes := 2\<rparr>)"
    by (simp add: ids_unused_def new_snapshot_def has_row_def)
  from batch_within_limits [OF start_store_ok sample_run_env_ok start_load this c] c show ?thesis
    by (simp add: new_snapshot_def live_def)
qed

text \<open>A key with one queued chat run, loaded.\<close>

definition sample_run :: run where
  "sample_run = new_run 5 [] ''k1'' ''chat'' ''interactive'' [] 1 0 ''x'' ''r_a''"

definition sample_snapshot :: snapshot where
  "sample_snapshot = (new_snapshot ''e_a'')\<lparr>sn_encoded_bytes := 2, sn_runs := [(''r_a'', sample_run)]\<rparr>"

definition sample_store :: run_store where
  "sample_store = start_store\<lparr>st_data := [(''k1'', sample_snapshot)]\<rparr>"

lemma sample_run_sel [simp]:
  "rn_id sample_run = ''r_a''" "rn_key_id sample_run = ''k1''" "rn_state sample_run = Queued" "rn_kind sample_run = ''chat''"
  "\<not> rn_cancel_requested sample_run" "rn_output sample_run = []" "rn_attempts sample_run = []"
  by (simp_all add: sample_run_def new_run_def)

lemma sample_snapshot_sel [simp]:
  "sn_runs sample_snapshot = [(''r_a'', sample_run)]" "sn_encoded_bytes sample_snapshot = 2" "sn_events sample_snapshot = []"
  "sn_exception_bytes sample_snapshot = []" "sn_retained sample_snapshot = []" "sn_cleanup sample_snapshot = []"
  "sn_epoch sample_snapshot = ''e_a''" "sn_seq sample_snapshot = 0"
  by (simp_all add: sample_snapshot_def new_snapshot_def)

lemma sample_store_sel [simp]:
  "st_data sample_store = [(''k1'', sample_snapshot)]" "st_broken sample_store k = None" "st_reserved sample_store k = []"
  "st_max_stored sample_store = max_stored" "st_subs sample_store = []" "st_next_channel sample_store = 0" "st_tickets sample_store = 0"
  by (simp_all add: sample_store_def start_store_def new_store_def)

lemma safe_k1 [simp]: "safe_id ''k1''" "safe_id ''e_a''" "safe_id ''r_a''"
  by (simp_all add: safe_id_def id_char_def byte_def)

lemma sample_snapshot_ok: "snap_ok ''k1'' sample_snapshot"
  by (simp add: snap_ok_parts log_ok_def tables_ok_def cleanup_ok_def maps_ok_def max_runs_def row_ok_def)

lemma sample_store_ok: "store_ok sample_store"
  using sample_snapshot_ok by (simp add: store_ok_def held_ok_def leases_ok_def hard_cap_def run_limits terminal_bound_def)

lemma sample_load: "load en now ''k1'' sample_store = (Inr sample_snapshot, sample_store\<lparr>st_accessed := (st_accessed sample_store)(''k1'' := now)\<rparr>)"
  by (simp add: load_def)

end
