(* ===== verification/Run_Restart.thy ===== *)
theory Run_Restart
  imports Run_Changes
begin

text \<open>
  What survives the process: the state a commit wrote is the state the next process loads, with the runs that were live
  marked as interrupted; and what a subscriber sees of the event log across its registration.
\<close>

section \<open>Reloading\<close>

text \<open>A new process over the directories and files the store left.\<close>

definition restart :: "run_store \<Rightarrow> run_store" where "restart s = new_store (st_known s) (st_dirs s) (st_files s)"

lemma restart_sel [simp]:
  "st_data (restart s) = []" "st_broken (restart s) k = None" "st_dirs (restart s) = st_dirs s" "st_files (restart s) = st_files s"
  "st_max_stored (restart s) = max_stored" "st_recovery (restart s) = False"
  by (simp_all add: restart_def new_store_def)

text \<open>The JSON package reads back what it wrote: the value without the size the store keeps beside it.\<close>

definition reads_back :: "run_env \<Rightarrow> snapshot \<Rightarrow> bool" where
  "reads_back en w \<longleftrightarrow> (\<forall>d n. rc_decode en d (encoded en (w\<lparr>sn_encoded_bytes := n\<rparr>)) = Some (w\<lparr>sn_encoded_bytes := 0\<rparr>))"

lemma committed_opens:
  assumes c: "committed en key t w" and env: "env_ok en" and rb: "reads_back en w" and ex: "sn_exception_bytes w = []"
    and s: "st_dirs s key = DirPlain" "st_files s key = st_files t key" "hard_cap s = hard_cap t"
  shows "\<exists>s'. open_state en now key s = (Inr w, s') \<and> st_data s' = st_data s \<and> st_recovery s' = st_recovery s \<and> st_recovered s' = st_recovered s
    \<and> st_broken s' = st_broken s \<and> st_max_stored s' = st_max_stored s \<and> st_files s' = st_files s \<and> st_reserved s' = st_reserved s"
proof -
  obtain raw n where raw: "st_files t key = StateFile raw" "sn_encoded_bytes w = int (length raw)" "raw = encoded en (w\<lparr>sn_encoded_bytes := n\<rparr>)"
    and w: "snap_ok key w" "sn_encoded_bytes w \<le> hard_cap t"
    using c by (auto simp: committed_def)
  have dec: "rc_decode en d raw = Some (w\<lparr>sn_encoded_bytes := 0\<rparr>)" for d using rb by (simp add: raw(3) reads_back_def)
  have ne: "raw \<noteq> []" using env dec by (auto simp: env_ok_def)
  have tk: "take (nat (hard_cap s + 1)) raw = raw" using w(2) raw(2) s(3) by simp
  have fo: "file_ok key (w\<lparr>sn_encoded_bytes := 0\<rparr>)" using w(1) by (simp add: snap_ok_def file_ok_def)
  have rd: "read_state en (hard_cap s) key d raw = Inr w" for d
    using tk dec fo w(2) s(3) raw(2) by (simp add: read_state_def Let_def)
  define s1 where "s1 = s\<lparr>st_ids := st_ids s + 1\<rparr>"
  have f: "fresh_id en ''e_'' s = (''e_'' @ rc_random en (st_ids s), s1)" by (simp add: fresh_id_def s1_def)
  have content: "st_files s1 key = StateFile raw" using s(2) raw(1) by (simp add: s1_def)
  have cap: "hard_cap s1 = hard_cap s" by (simp add: s1_def hard_cap_def)
  have cl: "cleanup_ok w" using w(1) by (simp add: snap_ok_def)
  have nz: "sn_encoded_bytes w \<noteq> 0" using raw(2) ne by simp
  have "open_state en now key s = (Inr w, restore_cleanup key w s1)"
    unfolding open_state_def f prod.case using s(1) content rd nz ex cl cap by (simp add: Let_def)
  then show ?thesis by (simp add: s1_def)
qed

text \<open>
  C9. A change that was answered survives a restart: when the process stops after it, the next process reads back exactly the
  snapshot the change left.
\<close>

theorem change_survives_restart:
  assumes "run_edit fn" "store_ok s" "env_ok en" "st_max_stored s = max_stored"
    and c: "change en now key rid fn upd s = ((None, r), t)"
    and "reads_back en (data_of t key)" "sn_exception_bytes (data_of t key) = []" "st_dirs t key = DirPlain"
  shows "fst (load en later key (restart t)) = Inr (data_of t key)"
proof -
  have c: "committed en key t (data_of t key) \<and> store_ok t \<and> safe_id key \<and> st_max_stored t = st_max_stored s"
    using run_edit.change_committed [OF assms(1-3) c] by simp
  define s1 where "s1 = (restart t)\<lparr>st_accessed := (st_accessed (restart t))(key := later)\<rparr>"
  have cap: "hard_cap s1 = hard_cap t" using c assms(4) by (simp add: s1_def hard_cap_def)
  obtain s2 where o: "open_state en later key s1 = (Inr (data_of t key), s2)" "st_recovery s2 = st_recovery s1"
    using committed_opens [of en key t "data_of t key" s1 later] c assms(3,6,7,8) cap by (auto simp: s1_def)
  have "load en later key (restart t) = keep_state en later key (data_of t key) s2"
    using c o(1) by (simp add: load_def s1_def Let_def)
  moreover have "\<not> st_recovery s2" using o(2) by (simp add: s1_def)
  ultimately show ?thesis by (simp add: keep_state_def Let_def)
qed

section \<open>Recovery\<close>

text \<open>One row of the recovery: the run is failed, every other row keeps its life.\<close>

lemma recover_row_lives:
  assumes s: "store_ok s" "has_row key (st_data s)" and env: "env_ok en" and row: "row_ok key (rid, r)"
    and has: "has_row rid (sn_runs (data_of s key))"
    and c: "commit en now key (interrupted_snapshot now rid r (data_of s key)) (Some (state_event rid Failed now)) s = (None, w, u)"
  shows "\<exists>c. lives (sn_runs (data_of u key)) = (lives (sn_runs (data_of s key)))(rid \<mapsto> (Failed, c))"
proof -
  note ro = recover_row_ok [OF s env row has c]
  have vo: "snap_ok key (data_of s key)" using store_ok_held [OF s] by simp
  have old: "row_ok key (rid, run_row rid (data_of s key)) \<or> rn_id (run_row rid (data_of s key)) = []"
    using vo has row_ok_row [of key "sn_runs (data_of s key)" rid] by (auto simp: snap_ok_parts tables_ok_def)
  have l: "life (interrupted now r) = (Failed, rn_cancel_requested r)" by (simp add: life_def interrupted_def)
  show ?thesis
    using commit_lives [OF ro(6) _ old] ro(5) l by (auto simp: committed_def)
qed

lemma recover_rows_end:
  assumes "store_ok s" "has_row key (st_data s)" "env_ok en" "list_all (row_ok key) rows"
    and "\<forall>(rid, r) \<in> set rows. lives (sn_runs (data_of s key)) rid = Some (life r)" "distinct (map fst rows)"
    and "recover_rows en now key rows s = (None, t)"
  shows "\<forall>k l. lives (sn_runs (data_of t key)) k = Some l \<longrightarrow>
           terminal (fst l) \<or> (k \<notin> fst ` set rows \<and> lives (sn_runs (data_of s key)) k = Some l)"
  using assms
proof (induction en now key rows s arbitrary: t rule: recover_rows.induct)
  case (1 en now key s)
  then show ?case by (auto simp: data_of_def)
next
  case (2 en now key rid r rows s)
  have ended: ?case if IH: "\<forall>k l. lives (sn_runs (data_of t key)) k = Some l \<longrightarrow>
           terminal (fst l) \<or> (k \<notin> fst ` set rows \<and> lives (sn_runs (data_of u key)) k = Some l)"
     and other: "\<forall>k. k \<noteq> rid \<longrightarrow> lives (sn_runs (data_of u key)) k = lives (sn_runs (data_of s key)) k"
     and mine: "\<forall>l. lives (sn_runs (data_of u key)) rid = Some l \<longrightarrow> terminal (fst l)" for u
  proof (intro allI impI)
    fix k l
    assume k: "lives (sn_runs (data_of t key)) k = Some l"
    show "terminal (fst l) \<or> (k \<notin> fst ` set ((rid, r) # rows) \<and> lives (sn_runs (data_of s key)) k = Some l)"
      using IH [rule_format, OF k] mine [rule_format, of l] other by (cases "k = rid") auto
  qed
  show ?case
  proof (cases "terminal (rn_state r)")
    case True
    then have "recover_rows en now key rows s = (None, t)" using 2(9) by simp
    then have "\<forall>k l. lives (sn_runs (data_of t key)) k = Some l \<longrightarrow>
           terminal (fst l) \<or> (k \<notin> fst ` set rows \<and> lives (sn_runs (data_of s key)) k = Some l)"
      using 2(6-8) by (intro 2(1) [OF True 2(3,4,5)]) auto
    then show ?thesis using 2(7) True by (intro ended [of s]) (auto simp: life_def)
  next
    case live: False
    have np: "\<not> (rn_kind r = ''chat'' \<and> sn_retained (data_of s key) = [])" using 2(9) live by auto
    obtain e w u where c: "commit en now key (interrupted_snapshot now rid r (data_of s key)) (Some (state_event rid Failed now)) s = (e, w, u)"
      by (cases "commit en now key (interrupted_snapshot now rid r (data_of s key)) (Some (state_event rid Failed now)) s") auto
    have e: "e = None" using 2(9) live np c by (cases e) auto
    then have rest: "recover_rows en now key rows u = (None, t)" using 2(9) live np c by simp
    have row: "row_ok key (rid, r)" using 2(6) by simp
    have has: "has_row rid (sn_runs (data_of s key))" using 2(7) by (auto simp: lives_def has_row_def)
    note ro = recover_row_ok [OF 2(3,4,5) row has c]
    obtain cr where lu: "lives (sn_runs (data_of u key)) = (lives (sn_runs (data_of s key)))(rid \<mapsto> (Failed, cr))"
      using recover_row_lives [OF 2(3,4,5) row has c [unfolded e]] by blast
    have pre: "\<forall>(k, x) \<in> set rows. lives (sn_runs (data_of u key)) k = Some (life x)"
    proof (clarify)
      fix k x
      assume k: "(k, x) \<in> set rows"
      then have "k \<noteq> rid" "lives (sn_runs (data_of s key)) k = Some (life x)" using 2(7,8) by (auto simp: image_iff)
      then show "lives (sn_runs (data_of u key)) k = Some (life x)" by (simp add: lu)
    qed
    have "\<forall>k l. lives (sn_runs (data_of t key)) k = Some l \<longrightarrow>
           terminal (fst l) \<or> (k \<notin> fst ` set rows \<and> lives (sn_runs (data_of u key)) k = Some l)"
      using ro e 2(6,8) by (intro 2(2) [OF live np c [symmetric] e refl ro(1) _ 2(5) _ pre _ rest]) (auto simp: committed_def)
    then show ?thesis using lu by (intro ended [of u]) auto
  qed
qed

text \<open>
  C12. After a restart no run is live: when a key that was not in memory loads under a manager, every run of its snapshot has
  ended, so no work is taken up again.
\<close>

theorem restart_ends_live_runs:
  assumes "store_ok s" "env_ok en" "st_recovery s" "\<not> st_recovered s key" "map_of (st_data s) key = None"
    and "load en now key s = (Inr v, t)"
  shows "live (sn_runs v) = []"
proof -
  define s1 where "s1 = s\<lparr>st_accessed := (st_accessed s)(key := now)\<rparr>"
  have safe: "safe_id key" "st_broken s key = None" using assms(6) by (auto simp: load_def split: if_splits option.splits)
  obtain r2 s2 where o: "open_state en now key s1 = (r2, s2)" by fastforce
  have ld: "(case r2 of Inl e \<Rightarrow> (Inl e, s2) | Inr w \<Rightarrow> keep_state en now key w s2) = (Inr v, t)"
    using assms(5,6) safe o by (simp add: load_def s1_def Let_def)
  then obtain w where w: "r2 = Inr w" by (cases r2) auto
  have k: "keep_state en now key w s2 = (Inr v, t)" using ld w by simp
  have "store_ok s1" using assms(1) by (simp add: s1_def)
  note oo = open_state_ok [OF this assms(2) o]
  have fr: "st_recovery s2 = st_recovery s1 \<and> st_recovered s2 = st_recovered s1"
    using o by (auto simp: open_state_def fresh_id_def Let_def split: dir_status.splits sum.splits if_splits)
  define s3 where "s3 = s2\<lparr>st_data := AList.update key w (st_data s2)\<rparr>"
  have snap: "snap_ok key w" "sn_encoded_bytes w \<le> hard_cap s2" using oo w by (auto simp: hard_cap_def s1_def)
  have s3: "store_ok s3" "has_row key (st_data s3)" "data_of s3 key = w"
    using store_ok_update [of s2 key w] oo safe snap by (simp_all add: s3_def data_of_def)
  have "st_recovery s3 \<and> \<not> st_recovered s3 key" using fr assms(3,4) by (simp add: s3_def s1_def)
  then obtain t' where r: "recover_key en now key s3 = (None, t')" and tt: "t' = t" "v = data_of t key"
    using k unfolding keep_state_def s3_def [symmetric] Let_def by (auto split: option.splits prod.splits)
  have rows: "list_all (row_ok key) (sn_runs w)" "distinct (map fst (sn_runs w))" using snap by (simp_all add: snap_ok_parts tables_ok_def maps_ok_def)
  have lv: "\<forall>(rid, r) \<in> set (sn_runs w). lives (sn_runs (data_of s3 key)) rid = Some (life r)"
    using rows(2) s3(3) by (auto simp: lives_def)
  have endd: "\<forall>k l. lives (sn_runs (data_of t key)) k = Some l \<longrightarrow>
      terminal (fst l) \<or> (k \<notin> fst ` set (sn_runs w) \<and> lives (sn_runs (data_of s3 key)) k = Some l)"
    by (rule recover_rows_end [OF s3(1,2) assms(2) rows(1) lv rows(2)]) (use r tt s3(3) in \<open>simp add: recover_key_def\<close>)
  have gone: "lives (sn_runs w) k = None" if "k \<notin> fst ` set (sn_runs w)" for k
    using that by (simp add: lives_def map_of_eq_None_iff)
  have dv: "distinct (map fst (sn_runs v))"
    using load_ok(1,3) [OF assms(1,2,6)] loaded_ok [of t key v] by (auto simp: snap_ok_parts tables_ok_def maps_ok_def)
  have "terminal (rn_state x)" if "(rid, x) \<in> set (sn_runs v)" for rid x
  proof -
    have "map_of (sn_runs v) rid = Some x" using that dv by simp
    then have "lives (sn_runs (data_of t key)) rid = Some (life x)" using tt by (simp add: lives_def)
    then have "terminal (fst (life x))" using endd gone s3(3) by fastforce
    then show ?thesis by (simp add: life_def)
  qed
  then show ?thesis by (auto simp: live_def filter_empty_conv)
qed

text \<open>
  C15. Recovery writes to the table of retained rows of a chat run without making it first. When nothing is retained for
  any run of the key and the first live run is a chat run, loading the key after a restart panics.
\<close>

theorem chat_restart_panics:
  assumes c: "committed en key t w" and env: "env_ok en" and rb: "reads_back en w" and ex: "sn_exception_bytes w = []"
    and s: "st_max_stored t = max_stored" "st_dirs t key = DirPlain" and key: "safe_id key"
    and w: "sn_retained w = []" "live (sn_runs w) = (rid, r) # others" "rn_kind r = ''chat''"
  shows "fst (load en now key ((restart t)\<lparr>st_recovery := True\<rparr>)) = Inl (ErrPanic ''assignment to entry in nil map'')"
proof -
  define s0 where "s0 = (restart t)\<lparr>st_recovery := True\<rparr>"
  define s1 where "s1 = s0\<lparr>st_accessed := (st_accessed s0)(key := now)\<rparr>"
  have cap: "hard_cap s1 = hard_cap t" using s(1) by (simp add: s1_def s0_def hard_cap_def)
  obtain s2 where o: "open_state en now key s1 = (Inr w, s2)" and f: "st_recovery s2" "\<not> st_recovered s2 key" "st_data s2 = []"
    using committed_opens [OF c env rb ex, of s1 now] s(2) cap
    by (auto simp: s1_def s0_def restart_def new_store_def)
  have ld: "load en now key s0 = keep_state en now key w s2"
    using key o by (simp add: load_def s1_def s0_def Let_def)
  define s3 where "s3 = s2\<lparr>st_data := AList.update key w (st_data s2)\<rparr>"
  have d3: "data_of s3 key = w" by (simp add: s3_def data_of_def)
  have "recover_rows en now key rows s3 = (Some (ErrPanic ''assignment to entry in nil map''), s3)" if "live rows = (rid, r) # others" for rows
    using that
  proof (induction rows)
    case (Cons x rows)
    then show ?case using w(1,3) d3 by (cases x) (auto simp: live_def interrupted_def Let_def split: if_splits)
  qed (simp add: live_def)
  then have "recover_key en now key s3 = (Some (ErrPanic ''assignment to entry in nil map''), s3)"
    using w(2) d3 by (simp add: recover_key_def)
  then show ?thesis using f ld unfolding s0_def [symmetric] keep_state_def s3_def [symmetric] Let_def by (simp add: s3_def)
qed

section \<open>Following the log\<close>

lemma safe_no_colon: "safe_id s \<Longrightarrow> CHR '':'' \<notin> set s"
  by (auto simp: safe_id_def list_all_iff id_char_def byte_def Let_def)

lemma digits_no_colon: "CHR '':'' \<notin> set (digits n)"
  using digits_all_digit [of n] by (auto simp: list_all_iff is_digit_def byte_def)

lemma cursor_parts: "safe_id ep \<Longrightarrow> split_on CHR '':'' (cursor_text ep n) = [ep, digits n]"
  using split_on_append [OF safe_no_colon] split_on_no_sep [OF digits_no_colon]
  by (simp add: cursor_text_def itoa_def)

lemma parse_digits: "n < 2 ^ 64 \<Longrightarrow> parse_uint (digits n) = Some n"
  by (simp add: parse_uint_def digits_all_digit)

lemma event_number_cursor: "safe_id ep \<Longrightarrow> n < 2 ^ 64 \<Longrightarrow> re_cursor e = cursor_text ep n \<Longrightarrow> event_number e = n"
  by (simp add: event_number_def cursor_parts parse_digits)

text \<open>The events after a number are the log from there on.\<close>

lemma replay_suffix:
  assumes "safe_id ep" "cursors_from ep m es" "m + length es < 2 ^ 64" "m \<le> from"
  shows "map re_cursor (filter (\<lambda>e. event_number e > from) es) = map (cursor_text ep) [from + 1..<m + length es + 1]"
  using assms(2-4)
proof (induction es arbitrary: m)
  case (Cons e es)
  have num: "event_number e = m + 1" using Cons.prems assms(1) by (intro event_number_cursor) auto
  show ?case
  proof (cases "m = from")
    case True
    have all: "event_number x > from" if "cursors_from ep k xs" "x \<in> set xs" "from \<le> k" "k + length xs < 2 ^ 64" for x k xs
      using that
    proof (induction xs arbitrary: k)
      case (Cons y ys)
      then show ?case using event_number_cursor [OF assms(1), of "k + 1" y] by auto
    qed simp
    have ids: "cursors_from ep k xs \<Longrightarrow> map re_cursor xs = map (cursor_text ep) [k + 1..<k + length xs + 1]" for k xs
      by (induction xs arbitrary: k) (auto simp: upt_conv_Cons simp del: upt_Suc)
    have "filter (\<lambda>e. event_number e > from) (e # es) = e # es"
      using all [OF Cons.prems(1)] Cons.prems True by (intro filter_True) auto
    then show ?thesis using ids [OF Cons.prems(1)] True by simp
  next
    case False
    then have "m + 1 \<le> from" using Cons.prems(3) by simp
    then have "map re_cursor (filter (\<lambda>e. event_number e > from) es) = map (cursor_text ep) [from + 1..<(m + 1) + length es + 1]"
      using Cons.prems by (intro Cons.IH) auto
    then show ?thesis using num False Cons.prems(3) by simp
  qed
qed (auto intro: map_cong)

lemma number_events_cursors: "map re_cursor (number_events ep n es) = map (cursor_text ep) [n + 1..<n + length es + 1]"
  by (induction es arbitrary: n) (auto simp: upt_conv_Cons simp del: upt_Suc)

lemma publish_fold:
  "(key, n) \<in> set (st_subs s) \<Longrightarrow>
     (ch_closed (st_channels (fold (publish key) es s) n))
     \<or> (ch_buffer (st_channels (fold (publish key) es s) n) = ch_buffer (st_channels s n) @ es
        \<and> (key, n) \<in> set (st_subs (fold (publish key) es s)))"
proof (induction es arbitrary: s)
  case (Cons e es)
  have stays: "ch_closed (st_channels u n) \<Longrightarrow> (key, n) \<notin> set (st_subs u) \<Longrightarrow> ch_closed (st_channels (fold (publish key) xs u) n)" for xs u
    by (induction xs arbitrary: u) (auto simp: publish_def)
  show ?case
  proof (cases "channel_full s n")
    case True
    then have "ch_closed (st_channels (publish key e s) n)" "(key, n) \<notin> set (st_subs (publish key e s))"
      using Cons.prems by (auto simp: publish_def Let_def)
    then show ?thesis using stays by simp
  next
    case False
    then have "ch_buffer (st_channels (publish key e s) n) = ch_buffer (st_channels s n) @ [e]" "(key, n) \<in> set (st_subs (publish key e s))"
      using Cons.prems by (auto simp: publish_def Let_def)
    then show ?thesis using Cons.IH [of "publish key e s"] by simp
  qed
qed simp

lemma number_fail: "map re_cursor (map (fail_event rid) es) = map re_cursor es"
  by (auto simp: fail_event_def)

text \<open>What a commit publishes is what it appends to the log.\<close>

lemma commit_publishes:
  assumes "commit_for en now key v event rid s = (None, w, t)"
  shows "\<exists>evs s2. t = fold (publish key) evs s2 \<and> st_subs s2 = st_subs s \<and> st_channels s2 = st_channels s
    \<and> sn_epoch w = sn_epoch v \<and> sn_seq w = sn_seq v + length evs \<and> map re_cursor evs = map (cursor_text (sn_epoch v)) [sn_seq v + 1..<sn_seq w + 1]"
proof -
  obtain d events where st: "staged en now (data_of s key) event v = (d, events)" by fastforce
  obtain es x where "events = number_events (sn_epoch v) (sn_seq v) es" "d = log_events es x" "sn_epoch x = sn_epoch v" "sn_seq x = sn_seq v"
    using st by (auto simp: staged_def Let_def split: prod.splits)
  then have d: "sn_epoch d = sn_epoch v" "sn_seq d = sn_seq v + length events"
    "map re_cursor events = map (cursor_text (sn_epoch v)) [sn_seq v + 1..<sn_seq v + length events + 1]"
    using number_events_cursors [of "sn_epoch v" "sn_seq v" es] by (simp_all add: log_events_def)
  have wr: "\<exists>s2. t = fold (publish key) evs s2 \<and> st_subs s2 = st_subs s \<and> st_channels s2 = st_channels s
       \<and> sn_epoch w = sn_epoch x \<and> sn_seq w = sn_seq x"
    if "write_snapshot en key x raw evs i c s = (None, w, t)" for x raw evs i c
  proof -
    define s1 where "s1 = s\<lparr>st_writes := st_writes s + 1\<rparr>"
    define x' where "x' = x\<lparr>sn_encoded_bytes := int (length raw)\<rparr>"
    define s2 where "s2 = s1\<lparr>st_files := (st_files s1)(key := StateFile raw), st_data := AList.update key x' (st_data s1),
                       st_known := List.insert key (st_known s1),
                       st_reserved := (st_reserved s1)(key := drop_leases x' (spend_lease i c (st_reserved s1 key)))\<rparr>"
    have "t = fold (publish key) evs s2"
      using that unfolding write_snapshot_def s1_def [symmetric] x'_def [symmetric] s2_def [symmetric] Let_def
      by (auto split: disk_write.splits)
    then have "\<exists>s2. t = fold (publish key) evs s2 \<and> st_subs s2 = st_subs s \<and> st_channels s2 = st_channels s"
      by (intro exI [of _ s2]) (simp add: s2_def s1_def)
    moreover have "w = x\<lparr>sn_encoded_bytes := int (length raw)\<rparr>" by (rule write_snapshot_rows [OF that])
    ultimately show ?thesis by auto
  qed
  have sq: "sn_epoch x = sn_epoch d \<and> sn_seq x = sn_seq d \<and> map re_cursor evs = map re_cursor events \<and> length evs = length events"
    if "squeeze en cap (data_of s key) rid d events = Some (x, evs)" for x evs cap
    using that by (auto simp: squeeze_def exhaust_def Let_def number_fail simp del: map_map split: if_splits)
  have "(\<exists>raw c. write_snapshot en key d raw events rid c s = (None, w, t))
      \<or> (\<exists>cap x evs. squeeze en cap (data_of s key) rid d events = Some (x, evs) \<and> write_snapshot en key x (encoded en x) evs [] 0 s = (None, w, t))"
    using assms by (auto simp: commit_for_def Let_def st split: option.splits if_splits)
  then show ?thesis
  proof (elim disjE exE conjE)
    fix raw c
    assume "write_snapshot en key d raw events rid c s = (None, w, t)"
    from wr [OF this] obtain s2 where "t = fold (publish key) events s2" "st_subs s2 = st_subs s" "st_channels s2 = st_channels s"
      "sn_epoch w = sn_epoch d" "sn_seq w = sn_seq d" by blast
    then show ?thesis using d by (intro exI [of _ events] exI [of _ s2]) simp
  next
    fix cap x evs
    assume "squeeze en cap (data_of s key) rid d events = Some (x, evs)" "write_snapshot en key x (encoded en x) evs [] 0 s = (None, w, t)"
    note q = sq [OF this(1)]
    from wr [OF \<open>write_snapshot en key x (encoded en x) evs [] 0 s = (None, w, t)\<close>]
    obtain s2 where "t = fold (publish key) evs s2" "st_subs s2 = st_subs s" "st_channels s2 = st_channels s"
      "sn_epoch w = sn_epoch x" "sn_seq w = sn_seq x" by blast
    then show ?thesis using d q by (intro exI [of _ evs] exI [of _ s2]) simp
  qed
qed


section \<open>The properties at a concrete key\<close>

text \<open>An encoder that knows one snapshot.\<close>

definition reading_env :: "snapshot \<Rightarrow> run_env" where
  "reading_env w = sample_run_env\<lparr>rc_decode := (\<lambda>d raw. if raw = ''{}'' then Some (w\<lparr>sn_encoded_bytes := 0\<rparr>) else None)\<rparr>"

lemma reading_env_sel [simp]:
  "rc_encode (reading_env w) v = Some ''{}''" "rc_image (reading_env w) x = None" "rc_write (reading_env w) n = WriteDone"
  "rc_random (reading_env w) n = replicate (n mod 50 + 1) CHR ''a''"
  by (simp_all add: reading_env_def)

lemma reading_env_ok: "maps_ok w \<Longrightarrow> env_ok (reading_env w)"
  using sample_ids by (auto simp: env_ok_def encoded_size_def encoded_def maps_ok_def reading_env_def)

lemma reading_env_reads: "reads_back (reading_env w) w"
  by (simp add: reads_back_def encoded_def) (simp add: reading_env_def)

definition sample_end :: "run \<Rightarrow> run_error + run" where
  "sample_end r = (if terminal (rn_state r) then Inl ErrConflict else Inr (r\<lparr>rn_state := Cancelled\<rparr>))"

lemma sample_end_edit: "run_edit sample_end"
  by unfold_locales (auto simp: sample_end_def split: if_splits)

definition sample_ended :: snapshot where
  "sample_ended = (new_snapshot ''e_a'')\<lparr>sn_encoded_bytes := 2, sn_seq := 1,
     sn_events := [(state_event ''r_a'' Cancelled 9)\<lparr>re_cursor := cursor_text ''e_a'' 1\<rparr>],
     sn_runs := [(''r_a'', sample_run\<lparr>rn_state := Cancelled, rn_updated := 9, rn_expires := 9 + retention\<rparr>)]\<rparr>"

lemma sample_change:
  "\<exists>r t. change (reading_env w) 9 ''k1'' ''r_a'' sample_end None sample_store = ((None, r), t)
     \<and> data_of t ''k1'' = sample_ended \<and> st_dirs t ''k1'' = DirPlain"
  by (simp add: change_def sample_load sample_end_def edit_retained_def changed_run_def change_event_def lifecycle_def no_retained_def row_def Let_def,
      simp add: commit_for_def data_of_def staged_def drop_orphan_rows_def image_output_of_def Let_def log_events_def keep_last_def
      retained_budget_def row_def reserved_bytes_def store_budget_def run_limits terminal_bound_def write_snapshot_def sample_ended_def
      sample_snapshot_def new_snapshot_def state_event_def sample_store_def start_store_def new_store_def)

theorem change_survives_restart_witness:
  "\<exists>r t. change (reading_env sample_ended) 9 ''k1'' ''r_a'' sample_end None sample_store = ((None, r), t)
     \<and> fst (load (reading_env sample_ended) 20 ''k1'' (restart t)) = Inr sample_ended"
proof -
  obtain r t where c: "change (reading_env sample_ended) 9 ''k1'' ''r_a'' sample_end None sample_store = ((None, r), t)"
    "data_of t ''k1'' = sample_ended" "st_dirs t ''k1'' = DirPlain" using sample_change by blast
  have env: "env_ok (reading_env sample_ended)" by (rule reading_env_ok) (simp add: maps_ok_def sample_ended_def new_snapshot_def)
  have "sn_exception_bytes (data_of t ''k1'') = []" by (simp add: c(2) sample_ended_def new_snapshot_def)
  from change_survives_restart [OF sample_end_edit sample_store_ok env _ c(1) _ this c(3), of 20] c reading_env_reads
  show ?thesis by simp
qed

text \<open>The files of a key with a queued chat run, and with a queued agent run.\<close>

definition sample_on_disk :: run_store where
  "sample_on_disk = sample_store\<lparr>st_files := (\<lambda>_. StateFile ''{}'')\<rparr>"

theorem chat_restart_panics_witness:
  "fst (load (reading_env sample_snapshot) 20 ''k1'' ((restart sample_on_disk)\<lparr>st_recovery := True\<rparr>))
     = Inl (ErrPanic ''assignment to entry in nil map'')"
proof -
  have c: "committed (reading_env sample_snapshot) ''k1'' sample_on_disk sample_snapshot"
    using sample_snapshot_ok
    by (simp add: committed_def sample_on_disk_def data_of_def row_def has_row_def hard_cap_def run_limits terminal_bound_def encoded_def)
  have "env_ok (reading_env sample_snapshot)" by (rule reading_env_ok) (simp add: maps_ok_def)
  from chat_restart_panics [OF c this reading_env_reads, of "''r_a''" sample_run "[]"] show ?thesis
    by (simp add: sample_on_disk_def live_def) (simp add: sample_store_def start_store_def new_store_def)
qed

definition agent_snapshot :: snapshot where
  "agent_snapshot = sample_snapshot\<lparr>sn_runs := [(''r_a'', sample_run\<lparr>rn_kind := ''agent''\<rparr>)]\<rparr>"

definition agent_start :: run_store where
  "agent_start = (restart sample_on_disk)\<lparr>st_recovery := True\<rparr>"

lemma agent_start_ok: "store_ok agent_start"
  by (simp add: agent_start_def restart_def new_store_def store_ok_def leases_ok_def max_stored_def)

lemma agent_snapshot_sel [simp]:
  "sn_runs agent_snapshot = [(''r_a'', sample_run\<lparr>rn_kind := ''agent''\<rparr>)]" "sn_encoded_bytes agent_snapshot = 2"
  "sn_events agent_snapshot = []" "sn_exception_bytes agent_snapshot = []" "sn_retained agent_snapshot = []"
  "sn_cleanup agent_snapshot = []" "sn_epoch agent_snapshot = ''e_a''" "sn_seq agent_snapshot = 0"
  by (simp_all add: agent_snapshot_def)

lemma agent_snapshot_ok: "snap_ok ''k1'' agent_snapshot"
  by (simp add: snap_ok_parts log_ok_def tables_ok_def cleanup_ok_def maps_ok_def max_runs_def row_ok_def)

lemma agent_start_sel [simp]:
  "st_data agent_start = []" "st_broken agent_start k = None" "st_dirs agent_start = st_dirs start_store"
  "st_files agent_start = (\<lambda>_. StateFile ''{}'')" "st_max_stored agent_start = max_stored" "st_recovery agent_start"
  "st_recovered agent_start k = False" "st_reserved agent_start k = []"
  by (simp_all add: agent_start_def restart_def new_store_def sample_on_disk_def sample_store_def)

lemma agent_commit:
  assumes "data_of s ''k1'' = agent_snapshot" "st_broken s = (\<lambda>_. None)" "st_reserved s ''k1'' = []" "st_max_stored s = max_stored"
  shows "\<exists>w u. commit (reading_env agent_snapshot) 20 ''k1'' (interrupted_snapshot 20 ''r_a'' (sample_run\<lparr>rn_kind := ''agent''\<rparr>) agent_snapshot)
      (Some (state_event ''r_a'' Failed 20)) s = (None, w, u)"
  using assms
  by (simp add: commit_event_id commit_for_def staged_def drop_orphan_rows_def interrupted_snapshot_def image_output_of_def interrupted_def
      Let_def row_def retained_budget_def reserved_bytes_def store_budget_def run_limits terminal_bound_def write_snapshot_def log_events_def)

lemma agent_load: "\<exists>v t. load (reading_env agent_snapshot) 20 ''k1'' agent_start = (Inr v, t)"
proof -
  define t where "t = sample_on_disk\<lparr>st_data := [(''k1'', agent_snapshot)]\<rparr>"
  define s1 where "s1 = agent_start\<lparr>st_accessed := (st_accessed agent_start)(''k1'' := 20)\<rparr>"
  have c: "committed (reading_env agent_snapshot) ''k1'' t agent_snapshot"
    using agent_snapshot_ok
    by (simp add: committed_def t_def sample_on_disk_def data_of_def row_def has_row_def hard_cap_def run_limits terminal_bound_def encoded_def)
  have env: "env_ok (reading_env agent_snapshot)" by (rule reading_env_ok) (simp add: maps_ok_def)
  have "st_dirs s1 ''k1'' = DirPlain" "st_files s1 ''k1'' = st_files t ''k1''" "hard_cap s1 = hard_cap t"
    by (simp_all add: s1_def t_def sample_on_disk_def hard_cap_def) (simp add: start_store_def new_store_def)
  from committed_opens [OF c env reading_env_reads _ this, of 20]
  obtain s2 where o: "open_state (reading_env agent_snapshot) 20 ''k1'' s1 = (Inr agent_snapshot, s2)" and f: "st_data s2 = []"
    "st_recovery s2" "\<not> st_recovered s2 ''k1''" "st_broken s2 = (\<lambda>_. None)" "st_max_stored s2 = max_stored" "st_reserved s2 ''k1'' = []"
    by (auto simp: s1_def fun_eq_iff)
  define s3 where "s3 = s2\<lparr>st_data := [(''k1'', agent_snapshot)]\<rparr>"
  have ld: "load (reading_env agent_snapshot) 20 ''k1'' agent_start = keep_state (reading_env agent_snapshot) 20 ''k1'' agent_snapshot s2"
    using o by (simp add: load_def s1_def Let_def)
  have d3: "data_of s3 ''k1'' = agent_snapshot" by (simp add: s3_def data_of_def row_def)
  then obtain w u where cm: "commit (reading_env agent_snapshot) 20 ''k1'' (interrupted_snapshot 20 ''r_a'' (sample_run\<lparr>rn_kind := ''agent''\<rparr>) agent_snapshot)
      (Some (state_event ''r_a'' Failed 20)) s3 = (None, w, u)" using agent_commit [of s3] f by (auto simp: s3_def)
  have "\<exists>x. recover_key (reading_env agent_snapshot) 20 ''k1'' s3 = (None, x)" using cm d3 by (simp add: recover_key_def)
  then show ?thesis using f unfolding ld keep_state_def by (auto simp: s3_def Let_def)
qed

theorem restart_ends_live_runs_witness:
  "\<exists>v t. load (reading_env agent_snapshot) 20 ''k1'' agent_start = (Inr v, t) \<and> live (sn_runs v) = []"
proof -
  obtain v t where l: "load (reading_env agent_snapshot) 20 ''k1'' agent_start = (Inr v, t)" using agent_load by blast
  have "env_ok (reading_env agent_snapshot)" by (rule reading_env_ok) (simp add: maps_ok_def agent_snapshot_def)
  from restart_ends_live_runs [OF agent_start_ok this _ _ _ l] l show ?thesis
    by simp
qed

lemma sample_cursor: "read_cursor ''e_a:0'' sample_snapshot = Inr (0, False)"
  by (simp add: read_cursor_def Let_def parse_uint_def is_digit_def byte_def digits_value_def)

lemma sample_subscribe:
  "\<exists>t. subscribe sample_run_env 5 ''k1'' ''e_a:0'' sample_store = (Inr ([], 0), t)
     \<and> (\<exists>w u. commit_for sample_run_env 9 ''k1'' sample_snapshot (Some (state_event ''r_a'' Queued 9)) ''r_a'' t = (None, w, u))"
  by (simp add: subscribe_def sample_load sample_cursor Let_def,
      simp add: commit_for_def staged_def drop_orphan_rows_def image_output_of_def data_of_def row_def Let_def retained_budget_def
        reserved_bytes_def store_budget_def run_limits terminal_bound_def write_snapshot_def log_events_def)


end
