(* ===== verification/Run_Retained.thy ===== *)
theory Run_Retained
  imports Run_Changes
begin

text \<open>
  What is retained for a run (internal/run/retained.go and detail.go): the leases that reserve room in the
  snapshot before a consumer takes a step, the data they are spent on, and how it is read.
\<close>

section \<open>Leases\<close>

text \<open>\<open>Admit\<close> answers with the ticket of the lease; its release deletes that lease and no later one.\<close>

definition admit_run :: "run_env \<Rightarrow> gotime \<Rightarrow> string \<Rightarrow> string \<Rightarrow> int \<Rightarrow> run_store \<Rightarrow> (run_error + nat) \<times> run_store" where
  "admit_run en now key rid bytes s =
     (case load en now key s of
        (Inl e, s) \<Rightarrow> (Inl e, s)
      | (Inr v, s) \<Rightarrow>
          (case map_of (sn_runs v) rid of
             None \<Rightarrow> (Inl ErrNotFound, s)
           | Some r \<Rightarrow>
               if terminal (rn_state r) \<or> rn_cancel_requested r then (Inl ErrConflict, s)
               else if bytes \<le> 0 \<or> bytes > store_budget s then (Inl ErrLimit, s)
               else if map_of (st_reserved s key) rid \<noteq> None then (Inl ErrConflict, s)
               else if sn_encoded_bytes v + reserved_bytes s key + bytes > store_budget s then (Inl ErrLimit, s)
               else (Inr (st_tickets s),
                     s\<lparr>st_tickets := st_tickets s + 1,
                       st_reserved := (st_reserved s)(key := (rid, \<lparr>rv_ticket = st_tickets s, rv_late = False, rv_bytes = bytes\<rparr>)
                                         # st_reserved s key)\<rparr>)))"

definition release_lease :: "string \<Rightarrow> string \<Rightarrow> nat \<Rightarrow> run_store \<Rightarrow> run_store" where
  "release_lease key rid ticket s =
     (if map_option rv_ticket (map_of (st_reserved s key) rid) = Some ticket
      then s\<lparr>st_reserved := (st_reserved s)(key := AList.delete rid (st_reserved s key))\<rparr> else s)"

section \<open>Retain\<close>

text \<open>\<open>filepath.Base(name) = name\<close> on a slash-separated system.\<close>

definition is_base :: "string \<Rightarrow> bool" where
  "is_base s \<longleftrightarrow> s = ''/'' \<or> (s \<noteq> [] \<and> CHR ''/'' \<notin> set s)"

definition output_ok :: "run_env \<Rightarrow> string \<times> captured \<Rightarrow> bool" where
  "output_ok en = (\<lambda>(i, c).
     \<not> (ca_kind c \<noteq> [] \<and> (ca_kind c \<noteq> ''diff'' \<or> ca_mime c \<noteq> ''text/x-diff'')) \<and> safe_id i \<and> ca_name c \<noteq> [] \<and> ca_name c \<noteq> ''.''
     \<and> ca_name c \<noteq> ''..'' \<and> length (ca_name c) \<le> 255 \<and> is_base (ca_name c)
     \<and> set (ca_name c) \<inter> {CHR 0x5C, CHR 0x0D, CHR 0x0A, CHR 0x00} = {} \<and> rc_mime en (ca_mime c))"

definition retain_edit :: "int \<Rightarrow> bool \<Rightarrow> run \<Rightarrow> run_error + run" where
  "retain_edit sz no_outputs r =
     (if rn_cancel_requested r \<and> (sz > terminal_bound \<or> \<not> no_outputs) then Inl ErrLimit
      else if terminal (rn_state r) then Inl ErrConflict
      else Inr r)"

text \<open>A step replaces the one with its id, whose start it must keep.\<close>

fun put_step :: "step_event \<Rightarrow> step_event list \<Rightarrow> step_event list option" where
  "put_step st [] = Some [st]"
| "put_step st (x # xs) =
     (if se_id x = se_id st then (if se_at x = se_at st then Some (st # xs) else None)
      else map_option (Cons x) (put_step st xs))"

fun put_steps :: "step_event list \<Rightarrow> step_event list \<Rightarrow> step_event list option" where
  "put_steps [] xs = Some xs"
| "put_steps (st # sts) xs = (case put_step st xs of None \<Rightarrow> None | Some ys \<Rightarrow> put_steps sts ys)"

text \<open>The growth of the row, with 1024 bytes for the cursor, the times and the envelope, is within the lease.\<close>

definition within_lease :: "run_env \<Rightarrow> reservation option \<Rightarrow> retained \<Rightarrow> retained \<Rightarrow> bool" where
  "within_lease en lease old new =
     (case lease of None \<Rightarrow> True
      | Some l \<Rightarrow> (let sz = (\<lambda>d. case rc_retained_size en d of Some n \<Rightarrow> n | None \<Rightarrow> 0) in max 0 (sz new - sz old) + 1024 \<le> rv_bytes l))"

definition retain_data ::
    "run_env \<Rightarrow> string \<Rightarrow> string \<Rightarrow> string \<Rightarrow> string list \<Rightarrow> (string \<times> captured) list \<Rightarrow> step_event list \<Rightarrow> run_store \<Rightarrow> retained
     \<Rightarrow> run_error + retained" where
  "retain_data en key rid state trajectory outputs steps s data =
     (let lease = map_of (st_reserved s key) rid;
          note = rn_cancel_requested (run_row rid (data_of s key))
      in if (lease = None \<and> \<not> note) \<or> (note \<and> rt_cancel_note data) then Inl ErrLimit
         else if list_ex (\<lambda>(i, c). has_row i (rt_outputs data)) outputs then Inl ErrConflict
         else (case put_steps steps (rt_steps data) of
                 None \<Rightarrow> Inl ErrConflict
               | Some sts \<Rightarrow>
                   (let new = data\<lparr>rt_cancel_note := (note \<or> rt_cancel_note data), rt_state := (if state \<noteq> [] then state else rt_state data),
                                  rt_trajectory := rt_trajectory data @ trajectory,
                                  rt_outputs := fold (\<lambda>(i, c). AList.update i c) outputs (rt_outputs data), rt_steps := sts\<rparr>
                    in if within_lease en lease data new then Inr new else Inl ErrLimit)))"

definition retain ::
    "run_env \<Rightarrow> gotime \<Rightarrow> string \<Rightarrow> string \<Rightarrow> string \<Rightarrow> string list \<Rightarrow> (string \<times> captured) list \<Rightarrow> step_event list \<Rightarrow> run_store
     \<Rightarrow> run_error option \<times> run_store" where
  "retain en now key rid state trajectory outputs steps s =
     (if length steps > 1 then (Some ErrInvalid, s)
      else case rc_retained_size en (no_retained\<lparr>rt_state := state, rt_trajectory := trajectory, rt_outputs := outputs, rt_steps := steps\<rparr>) of
        None \<Rightarrow> (Some ErrInvalid, s)
      | Some sz \<Rightarrow>
          if sz > int max_output then (Some ErrLimit, s)
          else if \<not> list_all step_valid steps then (Some ErrInvalid, s)
          else if \<not> list_all (output_ok en) outputs then (Some ErrInvalid, s)
          else (case change en now key rid (retain_edit sz (outputs = [])) (Some (retain_data en key rid state trajectory outputs steps)) s of
                  ((e, r), s) \<Rightarrow> (e, s)))"

definition retained_of :: "run_env \<Rightarrow> gotime \<Rightarrow> string \<Rightarrow> string \<Rightarrow> run_store \<Rightarrow> (run_error + retained) \<times> run_store" where
  "retained_of en now key rid s =
     (case load en now key s of
        (Inl e, s) \<Rightarrow> (Inl e, s)
      | (Inr v, s) \<Rightarrow> (if has_row rid (sn_runs v) then Inr (row no_retained rid (sn_retained v)) else Inl ErrNotFound, s))"

section \<open>Reading what is retained\<close>

record output_info =
  oi_kind :: string
  oi_id :: string
  oi_name :: string
  oi_mime :: string
  oi_size :: nat

record run_detail =
  de_run :: run
  de_steps :: "step_event list"
  de_outputs :: "output_info list"
  de_approval :: "approval option"
  de_text :: string

definition bare_attempt :: "run_attempt \<Rightarrow> run_attempt" where
  "bare_attempt a = a\<lparr>at_output := [], at_usage := (at_usage a)\<lparr>ev_prompt := [], ev_completion := []\<rparr>\<rparr>"

definition detail_of :: "run_env \<Rightarrow> retained \<Rightarrow> run \<Rightarrow> run_detail" where
  "detail_of en held r =
     (let r' = (if rn_kind r = ''image'' then r else r\<lparr>rn_attempts := map bare_attempt (rn_attempts r)\<rparr>) in
      \<lparr>de_run = r', de_steps = rt_steps held,
       de_outputs = map (\<lambda>(i, c). \<lparr>oi_kind = ca_kind c, oi_id = i, oi_name = ca_name c, oi_mime = ca_mime c, oi_size = length (ca_data c)\<rparr>)
                        (rt_outputs held),
       de_approval = (case rt_approval held of None \<Rightarrow> None
                      | Some a \<Rightarrow> if ap_status a = ''pending'' \<and> (terminal (rn_state r) \<or> rn_cancel_requested r) then None else Some a),
       de_text = rc_text en (rn_output r)\<rparr>)"

definition detail :: "run_env \<Rightarrow> gotime \<Rightarrow> string \<Rightarrow> string \<Rightarrow> run_store \<Rightarrow> (run_error + run_detail) \<times> run_store" where
  "detail en now key rid s =
     (case load en now key s of
        (Inl e, s) \<Rightarrow> (Inl e, s)
      | (Inr v, s) \<Rightarrow>
          (case map_of (sn_runs v) rid of None \<Rightarrow> (Inl ErrNotFound, s)
           | Some r \<Rightarrow> (Inr (detail_of en (row no_retained rid (sn_retained v)) r), s)))"

definition captured_output :: "run_env \<Rightarrow> gotime \<Rightarrow> string \<Rightarrow> string \<Rightarrow> string \<Rightarrow> run_store \<Rightarrow> (run_error + captured) \<times> run_store" where
  "captured_output en now key rid oid s =
     (case load en now key s of
        (Inl e, s) \<Rightarrow> (Inl e, s)
      | (Inr v, s) \<Rightarrow>
          (case map_of (rt_outputs (row no_retained rid (sn_retained v))) oid of None \<Rightarrow> (Inl ErrNotFound, s) | Some c \<Rightarrow> (Inr c, s)))"

section \<open>The edit of a retention\<close>

lemma retain_edit_ok: "run_edit (retain_edit sz b)"
  by unfold_locales (auto simp: retain_edit_def split: if_splits)

interpretation retaining: run_edit "retain_edit sz b" for sz b
  by (rule retain_edit_ok)

section \<open>A lease is honoured\<close>

definition covered :: "run_store \<Rightarrow> string \<Rightarrow> bool" where
  "covered s key \<longleftrightarrow> sn_encoded_bytes (data_of s key) + reserved_bytes s key \<le> store_budget s"

definition lease_sum :: "(string \<times> reservation) list \<Rightarrow> int" where
  "lease_sum ls = sum_list (map (\<lambda>(k, l). rv_bytes l) ls)"

lemma reserved_lease_sum: "reserved_bytes s key = lease_sum (st_reserved s key)"
  by (simp add: reserved_bytes_def lease_sum_def)

lemma spend_none: "rid \<notin> fst ` set ls \<Longrightarrow> spend_lease rid credit ls = ls"
  by (induction ls) (auto simp: spend_lease_def)

lemma lease_sum_spend:
  "distinct (map fst ls) \<Longrightarrow> (map_of ls rid = None \<Longrightarrow> credit = 0) \<Longrightarrow> lease_sum (spend_lease rid credit ls) = lease_sum ls - credit"
proof (induction ls)
  case (Cons x ls)
  obtain k l where x: "x = (k, l)" by (cases x)
  show ?case
  proof (cases "k = rid")
    case True
    then have "spend_lease rid credit ls = ls" using Cons.prems(1) x by (intro spend_none) auto
    then show ?thesis using True x by (simp add: spend_lease_def lease_sum_def)
  next
    case False
    then have "lease_sum (spend_lease rid credit ls) = lease_sum ls - credit" using Cons x by auto
    then show ?thesis using False x by (simp add: spend_lease_def lease_sum_def)
  qed
qed (simp add: lease_sum_def spend_lease_def)

lemma lease_sum_filter: "leases_ok ls \<Longrightarrow> lease_sum (filter P ls) \<le> lease_sum ls"
  by (induction ls) (auto simp: lease_sum_def leases_ok_def)

lemma map_of_spend: "map_of (spend_lease rid credit ls) k = (if k = rid then map_option (\<lambda>l. l\<lparr>rv_bytes := rv_bytes l - credit\<rparr>) (map_of ls k) else map_of ls k)"
  by (induction ls) (auto simp: spend_lease_def)

lemma map_of_drop_leases:
  assumes "has_row k (sn_runs v)" "\<not> terminal (rn_state (run_row k v))"
  shows "map_of (drop_leases v ls) k = map_of ls k"
  using assms by (induction ls) (auto simp: drop_leases_def)

text \<open>Commits for other runs that go through the budget, while the lease's run stays live.\<close>

inductive commits_of_others :: "run_env \<Rightarrow> string \<Rightarrow> string \<Rightarrow> run_store \<Rightarrow> run_store \<Rightarrow> bool" for en key rid where
  none: "commits_of_others en key rid s s"
| more: "commits_of_others en key rid s t \<Longrightarrow> draft_ok key v \<Longrightarrow> \<forall>e. event = Some e \<longrightarrow> event_ok e \<Longrightarrow> rid' = [] \<or> has_row rid' (sn_runs v) \<Longrightarrow>
    rid' \<noteq> rid \<Longrightarrow> retained_budget t key rid' (encoded_size en (fst (staged en now (data_of t key) event v))) \<noteq> None \<Longrightarrow>
    commit_for en now key v event rid' t = (None, w, u) \<Longrightarrow> has_row rid (sn_runs w) \<Longrightarrow> \<not> terminal (rn_state (run_row rid w)) \<Longrightarrow>
    commits_of_others en key rid s u"

lemma ordinary_commit:
  assumes s: "store_ok s" "has_row key (st_data s)" and env: "env_ok en"
    and v: "draft_ok key v" "\<forall>e. event = Some e \<longrightarrow> event_ok e" "rid' = [] \<or> has_row rid' (sn_runs v)"
    and b: "retained_budget s key rid' (encoded_size en (fst (staged en now (data_of s key) event v))) = Some credit"
    and c: "commit_for en now key v event rid' s = (None, w, t)" and cov: "covered s key"
  shows "covered t key" "st_reserved t key = drop_leases w (spend_lease rid' credit (st_reserved s key))" "st_max_stored t = st_max_stored s"
proof -
  obtain d events where st: "staged en now (data_of s key) event v = (d, events)" by fastforce
  obtain raw where raw: "st_broken s key = None" "rc_encode en d = Some raw"
    using c by (auto simp: commit_for_def st Let_def split: option.splits)
  have sz: "encoded_size en d = int (length raw)" using raw(2) by (simp add: encoded_size_def encoded_def)
  have wr: "write_snapshot en key d raw events rid' credit s = (None, w, t)"
    using c raw b st sz by (simp add: commit_for_def Let_def)
  have w: "w = d\<lparr>sn_encoded_bytes := int (length raw)\<rparr>" by (rule write_snapshot_rows [OF wr])
  have t: "st_reserved t key = drop_leases w (spend_lease rid' credit (st_reserved s key)) \<and> data_of t key = w \<and> st_max_stored t = st_max_stored s"
    using wr w by (auto simp: write_snapshot_def Let_def data_of_def split: disk_write.splits)
  then show "st_reserved t key = drop_leases w (spend_lease rid' credit (st_reserved s key))" "st_max_stored t = st_max_stored s" by simp_all
  have ls: "leases_ok (st_reserved s key)" using s(1) by (simp add: store_ok_def)
  have b': "retained_budget s key rid' (int (length raw)) = Some credit" using b st sz by simp
  note f = retained_budget_facts [OF s(1) b']
  have zero: "credit = 0" if "map_of (st_reserved s key) rid' = None"
    using b' that by (auto simp: retained_budget_def Let_def split: if_splits)
  have shrink: "credit = 0" if "int (length raw) < sn_encoded_bytes (data_of s key)"
    using b' that by (simp add: retained_budget_def Let_def)
  have sp: "leases_ok (spend_lease rid' credit (st_reserved s key))" by (rule leases_ok_spend [OF ls f(1,2)])
  have "lease_sum (st_reserved t key) \<le> lease_sum (spend_lease rid' credit (st_reserved s key))"
    using t lease_sum_filter [OF sp] by (simp add: drop_leases_def)
  also have "\<dots> = lease_sum (st_reserved s key) - credit"
    using ls zero by (intro lease_sum_spend) (simp_all add: leases_ok_def)
  finally have "reserved_bytes t key \<le> reserved_bytes s key - credit" by (simp add: reserved_lease_sum)
  moreover have "sn_encoded_bytes (data_of t key) = int (length raw)" using t w by simp
  moreover have "store_budget t = store_budget s" using t by (simp add: store_budget_def)
  ultimately show "covered t key" using f(3) cov shrink by (auto simp: covered_def)
qed

lemma admit_run_grant:
  assumes "store_ok s" "env_ok en" "admit_run en now key rid bytes s = (Inr ticket, t)"
  shows "store_ok t \<and> has_row key (st_data t) \<and> covered t key
    \<and> (\<exists>l. map_of (st_reserved t key) rid = Some l \<and> rv_bytes l = bytes) \<and> 0 < bytes"
proof -
  obtain res s1 where ld: "load en now key s = (res, s1)" by fastforce
  note lo = load_ok [OF assms(1,2) ld]
  obtain v r where v: "res = Inr v" "map_of (sn_runs v) rid = Some r"
    using assms(3) ld by (auto simp: admit_run_def split: sum.splits option.splits)
  have g: "\<not> (bytes \<le> 0 \<or> bytes > store_budget s1)" "map_of (st_reserved s1 key) rid = None"
      "sn_encoded_bytes v + reserved_bytes s1 key + bytes \<le> store_budget s1"
    and t: "t = s1\<lparr>st_tickets := st_tickets s1 + 1, st_reserved := (st_reserved s1)(key :=
          (rid, \<lparr>rv_ticket = st_tickets s1, rv_late = False, rv_bytes = bytes\<rparr>) # st_reserved s1 key)\<rparr>"
    using assms(3) ld v by (auto simp: admit_run_def split: if_splits)
  have l: "loaded s1 key v" by (rule lo(3) [OF v(1)])
  have "leases_ok ((rid, \<lparr>rv_ticket = st_tickets s1, rv_late = False, rv_bytes = bytes\<rparr>) # st_reserved s1 key)"
    using lo(1) g by (auto simp: store_ok_def leases_ok_def map_of_eq_None_iff)
  then have "store_ok t" using lo(1) t by (simp add: store_ok_def held_ok_def hard_cap_def)
  moreover have "covered t key" "has_row key (st_data t)"
    using g(3) l by (simp_all add: covered_def t loaded_def data_of_def reserved_bytes_def store_budget_def)
  ultimately show ?thesis using g(1) t by simp
qed



end
