(* ===== verification/Run_Manager.thy ===== *)
theory Run_Manager
  imports Run_Retained "HOL-Library.Product_Lexorder"
begin

text \<open>
  The manager of runs (internal/run/manager.go, consumer.go and join.go). Its control operations hold the manager's
  mutex and are functions of the manager, which holds the store; the worker goroutine, the join timers and the
  force-stop of a runtime appear as the operations they perform when they get the mutex. What runs between
  them (a kind, the executor, a force-stop hook) is outside and comes in as its result.
\<close>

section \<open>Policies, workers and the manager\<close>

record policy =
  po_in_process :: bool
  po_admission :: "(string \<Rightarrow> run_error + int) option"
  po_release :: bool
  po_force_stop :: bool
  po_serial :: bool
  po_queue_limit :: "(string \<Rightarrow> run_error + int) option"
  po_validate :: "(string \<Rightarrow> run_error option) option"
  po_deferred_cancel :: bool
  po_join_cancel :: bool

definition no_policy :: policy where
  "no_policy = \<lparr>po_in_process = False, po_admission = None, po_release = False, po_force_stop = False, po_serial = False,
     po_queue_limit = None, po_validate = None, po_deferred_cancel = False, po_join_cancel = False\<rparr>"

text \<open>A worker; its serial number tells it from an earlier worker of the same run.\<close>

record execution =
  ex_serial :: nat
  ex_kind :: string
  ex_key :: string
  ex_cancelled :: bool
  ex_join_started :: bool
  ex_expired :: bool
  ex_answer :: bool

record manager =
  mg_store :: run_store
  mg_kinds :: "string list"
  mg_policies :: "string \<Rightarrow> policy"
  mg_active :: "(string \<times> execution) list"
  mg_workers :: nat
  mg_closed :: bool
  mg_started :: bool
  mg_sweeping :: bool
  mg_blocked :: "string \<Rightarrow> int"
  mg_quarantined :: "string list"
  mg_releases :: "string list"
  mg_released :: "string list"
  mg_positions :: "string \<Rightarrow> (string \<times> nat) list"

text \<open>\<open>New\<close> recovers the keys already in memory; an error there is only remembered by the store.\<close>

fun recover_loaded :: "run_env \<Rightarrow> gotime \<Rightarrow> string list \<Rightarrow> run_store \<Rightarrow> run_store" where
  "recover_loaded en now [] s = s"
| "recover_loaded en now (k # ks) s = recover_loaded en now ks (snd (recover_key en now k s))"

definition new_manager :: "run_env \<Rightarrow> gotime \<Rightarrow> string list \<Rightarrow> run_store \<Rightarrow> manager" where
  "new_manager en now kinds s =
     \<lparr>mg_store = recover_loaded en now (map fst (st_data s)) (s\<lparr>st_recovery := True\<rparr>), mg_kinds = kinds,
      mg_policies = (\<lambda>_. no_policy), mg_active = [], mg_workers = 0, mg_closed = False, mg_started = False, mg_sweeping = False,
      mg_blocked = (\<lambda>_. 0), mg_quarantined = [], mg_releases = [], mg_released = [], mg_positions = (\<lambda>_. [])\<rparr>"

definition register_kind :: "string \<Rightarrow> policy \<Rightarrow> manager \<Rightarrow> run_error option \<times> manager" where
  "register_kind name p m =
     (if po_in_process p \<and> (\<not> po_join_cancel p \<or> po_serial p \<or> po_force_stop p) then (Some ErrInvalid, m)
      else if \<not> po_in_process p \<and> po_join_cancel p \<and> (\<not> po_force_stop p \<or> \<not> po_serial p) then (Some ErrInvalid, m)
      else if mg_started m \<or> mg_closed m then (Some ErrConflict, m)
      else (None, m\<lparr>mg_kinds := List.insert name (mg_kinds m), mg_policies := (mg_policies m)(name := p)\<rparr>))"

definition availability :: "string \<Rightarrow> manager \<Rightarrow> run_error option" where
  "availability kind m =
     (if kind \<in> set (mg_quarantined m) then Some ErrQuarantined
      else if mg_blocked m kind > 0 then Some ErrStopping else None)"

text \<open>\<open>release\<close> runs the hook of a run once.\<close>

definition release_run :: "string \<Rightarrow> manager \<Rightarrow> manager" where
  "release_run rid m =
     (if rid \<in> set (mg_releases m)
      then m\<lparr>mg_releases := removeAll rid (mg_releases m), mg_released := mg_released m @ [rid]\<rparr> else m)"

section \<open>The queue of a kind\<close>

fun queued_rows :: "run_env \<Rightarrow> gotime \<Rightarrow> string \<Rightarrow> run_summary list \<Rightarrow> run_store \<Rightarrow> run list \<times> run_store" where
  "queued_rows en now kind [] s = ([], s)"
| "queued_rows en now kind (x # xs) s =
     (if sm_kind x = kind \<and> sm_state x = Queued
      then (case get_run en now (sm_key_id x) (sm_id x) s of
              (Inl e, s) \<Rightarrow> queued_rows en now kind xs s
            | (Inr r, s) \<Rightarrow> (case queued_rows en now kind xs s of (rs, s) \<Rightarrow> (r # rs, s)))
      else queued_rows en now kind xs s)"

text \<open>Interactive runs before planted ones, then the older one, then the smaller id.\<close>

definition queue_rank :: "run \<Rightarrow> nat \<times> gotime \<times> string" where
  "queue_rank r = (if rn_priority r = ''interactive'' then 0 else 1, rn_created r, rn_id r)"

definition queued_runs :: "run_env \<Rightarrow> gotime \<Rightarrow> string \<Rightarrow> run_store \<Rightarrow> run list \<times> run_store" where
  "queued_runs en now kind s =
     (case list_runs en now [] s of (res, s) \<Rightarrow>
        (case queued_rows en now kind (case res of Inr xs \<Rightarrow> xs | Inl e \<Rightarrow> []) s of (rs, s) \<Rightarrow> (sort_key queue_rank rs, s)))"

definition start_run :: "run \<Rightarrow> manager \<Rightarrow> manager" where
  "start_run r m =
     m\<lparr>mg_workers := mg_workers m + 1,
       mg_active := AList.update (rn_id r) \<lparr>ex_serial = mg_workers m, ex_kind = rn_kind r, ex_key = rn_key_id r, ex_cancelled = False,
          ex_join_started = False, ex_expired = False, ex_answer = False\<rparr> (mg_active m)\<rparr>"

definition schedule :: "run_env \<Rightarrow> gotime \<Rightarrow> string \<Rightarrow> manager \<Rightarrow> manager" where
  "schedule en now kind m =
     (if mg_closed m \<or> availability kind m \<noteq> None then m
      else (case queued_runs en now kind (mg_store m) of (rows, s) \<Rightarrow>
              (let m = m\<lparr>mg_store := s, mg_positions := (mg_positions m)(kind := zip (map rn_id rows) [1..<length rows + 1])\<rparr> in
               if list_ex (\<lambda>(rid, w). ex_kind w = kind) (mg_active m) then m
               else (case rows of [] \<Rightarrow> m | r # _ \<Rightarrow> start_run r m))))"

definition position :: "string \<Rightarrow> string \<Rightarrow> manager \<Rightarrow> nat" where
  "position kind rid m = row 0 rid (mg_positions m kind)"

definition positions_of :: "string \<Rightarrow> string list \<Rightarrow> manager \<Rightarrow> (string \<times> nat) list" where
  "positions_of kind ids m = map (\<lambda>i. (i, position kind i m)) ids"

definition close_gap :: "string \<Rightarrow> (string \<times> nat) list \<Rightarrow> (string \<times> nat) list" where
  "close_gap rid ps =
     (let rank = row 0 rid ps in
      if rank = 0 then ps else map (\<lambda>(i, p). (i, if p > rank then p - 1 else p)) (AList.delete rid ps))"

definition acquired_position :: "string \<Rightarrow> string \<Rightarrow> manager \<Rightarrow> manager" where
  "acquired_position kind rid m = m\<lparr>mg_positions := (mg_positions m)(kind := close_gap rid (mg_positions m kind))\<rparr>"

text \<open>The end of a worker goroutine: only the current, unexpired worker of the run leaves the table.\<close>

definition worker_end :: "run_env \<Rightarrow> gotime \<Rightarrow> run \<Rightarrow> nat \<Rightarrow> manager \<Rightarrow> manager" where
  "worker_end en now r serial m =
     (case map_of (mg_active m) (rn_id r) of
        None \<Rightarrow> m
      | Some w \<Rightarrow>
          if ex_serial w = serial \<and> \<not> ex_expired w
          then (let m = release_run (rn_id r) (m\<lparr>mg_active := AList.delete (rn_id r) (mg_active m)\<rparr>) in
                if po_serial (mg_policies m (rn_kind r)) then schedule en now (rn_kind r) m else m)
          else m)"

section \<open>Submitting\<close>

fun first_invalid :: "(string \<Rightarrow> run_error option) \<Rightarrow> string list \<Rightarrow> run_error option" where
  "first_invalid f [] = None"
| "first_invalid f (x # xs) = (case f x of Some e \<Rightarrow> Some e | None \<Rightarrow> first_invalid f xs)"

definition batch_admission :: "policy \<Rightarrow> string \<Rightarrow> run_error + int" where
  "batch_admission p key =
     (case (case po_queue_limit p of None \<Rightarrow> Inr max_live_key | Some f \<Rightarrow> f key) of
        Inl e \<Rightarrow> Inl e
      | Inr cap \<Rightarrow> (case po_admission p of None \<Rightarrow> Inr cap | Some f \<Rightarrow> f key))"

text \<open>
  \<open>SubmitBatch\<close>. The policy's admission is prepared without the lock; its reservation hook works on the
  state of the gateway, \<open>world\<close>.
\<close>

definition submit_refusal :: "string \<Rightarrow> manager \<Rightarrow> run_error option" where
  "submit_refusal kind m =
     (case availability kind m of Some e \<Rightarrow> Some e | None \<Rightarrow> if mg_closed m then Some ErrConflict else None)"

definition submit_batch ::
    "run_env \<Rightarrow> gotime \<Rightarrow> string \<Rightarrow> string \<Rightarrow> string \<Rightarrow> string list \<Rightarrow> string list \<Rightarrow> 'w batch_hook option
     \<Rightarrow> manager \<times> 'w \<Rightarrow> (run_error + run list) \<times> manager \<times> 'w" where
  "submit_batch en now key kind priority inputs correlation reserve = (\<lambda>(m, world).
     case submit_refusal kind m of Some e \<Rightarrow> (Inl e, m, world) | None \<Rightarrow>
     if kind \<notin> set (mg_kinds m) then (Inl ErrInvalid, m, world)
     else (let m = m\<lparr>mg_started := True\<rparr>; p = mg_policies m kind;
               priority = (if priority = [] then ''interactive'' else priority)
           in case batch_admission p key of Inl e \<Rightarrow> (Inl e, m, world) | Inr cap \<Rightarrow>
              (case (case po_validate p of None \<Rightarrow> None | Some f \<Rightarrow> first_invalid f inputs) of Some e \<Rightarrow> (Inl e, m, world) | None \<Rightarrow>
               (case submit_refusal kind m of Some e \<Rightarrow> (Inl e, m, world) | None \<Rightarrow>
                (case create_batch en now key kind priority inputs cap correlation reserve (mg_store m, world) of
                   (Inl e, s, world) \<Rightarrow> (Inl e, m\<lparr>mg_store := s\<rparr>, world)
                 | (Inr rows, s, world) \<Rightarrow>
                     (let m = m\<lparr>mg_store := s,
                                mg_releases := (if po_release p then mg_releases m @ map rn_id rows else mg_releases m)\<rparr>
                      in (Inr rows, if po_serial p then schedule en now kind m else fold start_run rows m, world)))))))"

section \<open>Edits of a run\<close>

definition cancel_edit :: "bool \<Rightarrow> policy \<Rightarrow> run \<Rightarrow> run_error + run" where
  "cancel_edit worker p r =
     (if terminal (rn_state r) then Inl ErrConflict
      else let r = r\<lparr>rn_cancel_requested := True\<rparr> in
           Inr (if \<not> worker \<or> (rn_state r \<noteq> Running \<and> \<not> po_join_cancel p) then r\<lparr>rn_state := Cancelled\<rparr> else r))"

definition finish_edit :: "run_env \<Rightarrow> policy \<Rightarrow> run_state \<Rightarrow> string \<Rightarrow> string \<Rightarrow> run \<Rightarrow> run_error + run" where
  "finish_edit en p st reason out r =
     (if terminal (rn_state r) then Inl ErrConflict
      else let st = (if rn_cancel_requested r \<and> \<not> (po_deferred_cancel p \<and> st = Done) then Cancelled else st);
               r = r\<lparr>rn_state := st, rn_reason := bounded_reason reason\<rparr>
           in Inr (if image_output_of en r = None then r\<lparr>rn_output := out\<rparr> else r))"

definition may_start :: "bool \<Rightarrow> run \<Rightarrow> bool" where
  "may_start is_live r \<longleftrightarrow> (rn_state r = Queued \<or> (is_live \<and> rn_state r = Running)) \<and> \<not> rn_cancel_requested r"

definition begin_edit :: "bool \<Rightarrow> string \<Rightarrow> string \<Rightarrow> run \<Rightarrow> run_error + run" where
  "begin_edit is_live aid purpose r =
     (if \<not> may_start is_live r then Inl ErrConflict
      else Inr (r\<lparr>rn_state := (if is_live then Running else Queued),
                  rn_attempts := rn_attempts r @ [\<lparr>at_purpose = purpose, at_id = aid, at_dispatched = False, at_settled = False,
                     at_accounting_uncertain = True, at_usage = empty_event, at_output = []\<rparr>]\<rparr>))"

definition acquire_edit :: "bool \<Rightarrow> gotime \<Rightarrow> run \<Rightarrow> run_error + run" where
  "acquire_edit is_live now r =
     (if \<not> may_start is_live r then Inl ErrConflict else Inr (r\<lparr>rn_state := Running, rn_started := Some now\<rparr>))"

text \<open>What the executor came back with; \<open>call_error\<close> says whether its error is a cancelled context.\<close>

record step_result =
  sr_output :: string
  sr_usage :: event
  sr_dispatched :: bool
  sr_settled :: bool

datatype call_error = CallCancelled | CallFailed run_error

definition settled_attempt :: "run_env \<Rightarrow> step_result \<Rightarrow> run_attempt \<Rightarrow> run_attempt" where
  "settled_attempt en res a =
     a\<lparr>at_dispatched := sr_dispatched res, at_settled := sr_settled res, at_accounting_uncertain := \<not> sr_settled res,
       at_usage := sr_usage res,
       at_output := (if length (sr_output res) \<le> max_output \<and> rc_valid en (sr_output res) then sr_output res else at_output a)\<rparr>"

definition settle_state :: "run_env \<Rightarrow> bool \<Rightarrow> policy \<Rightarrow> call_error option \<Rightarrow> step_result \<Rightarrow> run \<Rightarrow> run" where
  "settle_state en is_live p err res v =
     (let valid = rc_valid en (sr_output res); stored = image_output_of en v \<noteq> None in
      if is_live then v\<lparr>rn_state := Running\<rparr>
      else if rn_cancel_requested v \<and> po_deferred_cancel p then
        (if err = None \<and> sr_output res \<noteq> [] \<and> valid
         then (if stored then v\<lparr>rn_state := Done\<rparr> else v\<lparr>rn_state := Done, rn_output := sr_output res\<rparr>)
         else v\<lparr>rn_state := Cancelled\<rparr>)
      else if rn_cancel_requested v \<or> err = Some CallCancelled then v\<lparr>rn_state := Cancelled\<rparr>
      else if err \<noteq> None \<or> length (sr_output res) > max_output \<or> \<not> valid then
        v\<lparr>rn_state := Failed,
          rn_reason := (if rn_kind v = ''image'' \<and> ev_code (sr_usage res) \<noteq> [] then bounded_reason (ev_code (sr_usage res)) else ''step failed'')\<rparr>
      else if stored \<and> po_deferred_cancel p then v\<lparr>rn_state := Running\<rparr>
      else v\<lparr>rn_state := Queued\<rparr>)"

definition settle_edit :: "run_env \<Rightarrow> bool \<Rightarrow> string \<Rightarrow> policy \<Rightarrow> call_error option \<Rightarrow> step_result \<Rightarrow> run \<Rightarrow> run_error + run" where
  "settle_edit en is_live aid p err res v =
     (if rn_attempts v = [] then Inl (ErrPanic ''index out of range'')
      else if at_id (last (rn_attempts v)) \<noteq> aid then Inl ErrConflict
      else let w = v\<lparr>rn_attempts := update_last (settled_attempt en res) (rn_attempts v)\<rparr> in
           Inr (if terminal (rn_state v) then w else settle_state en is_live p err res w))"

definition approval_edit :: "run \<Rightarrow> run_error + run" where
  "approval_edit r = (if terminal (rn_state r) \<or> rn_cancel_requested r then Inl ErrConflict else Inr (r\<lparr>rn_state := Waiting\<rparr>))"

definition answer_edit :: "run \<Rightarrow> run_error + run" where
  "answer_edit r = (if rn_state r \<noteq> Waiting \<or> rn_cancel_requested r then Inl ErrConflict else Inr (r\<lparr>rn_state := Running\<rparr>))"

definition quarantine_edit :: "run \<Rightarrow> run_error + run" where
  "quarantine_edit r = Inr (r\<lparr>rn_state := Failed, rn_reason := ''runtime quarantined''\<rparr>)"

section \<open>Ending runs\<close>

definition update_worker :: "string \<Rightarrow> (execution \<Rightarrow> execution) \<Rightarrow> manager \<Rightarrow> manager" where
  "update_worker rid f m = m\<lparr>mg_active := map (\<lambda>(i, w). (i, if i = rid then f w else w)) (mg_active m)\<rparr>"

text \<open>\<open>boundJoin\<close> starts the join timer of a worker once; what the timer does is \<open>join_timer\<close> below.\<close>

definition bound_join :: "string \<Rightarrow> manager \<Rightarrow> manager" where
  "bound_join rid = update_worker rid (\<lambda>w. w\<lparr>ex_join_started := True\<rparr>)"

definition cancel_worker :: "string \<Rightarrow> manager \<Rightarrow> manager" where
  "cancel_worker rid = update_worker rid (\<lambda>w. w\<lparr>ex_cancelled := True\<rparr>)"

definition has_worker :: "string \<Rightarrow> manager \<Rightarrow> bool" where "has_worker rid m \<longleftrightarrow> has_row rid (mg_active m)"

definition stop_terminal :: "run \<Rightarrow> manager \<Rightarrow> manager" where
  "stop_terminal r m =
     (if \<not> terminal (rn_state r) then m
      else if has_worker (rn_id r) m
      then (let m = cancel_worker (rn_id r) m in
            if po_join_cancel (mg_policies m (rn_kind r)) then bound_join (rn_id r) m else m)
      else release_run (rn_id r) m)"

definition reschedule :: "run_env \<Rightarrow> gotime \<Rightarrow> run \<Rightarrow> manager \<Rightarrow> manager" where
  "reschedule en now r m = (if po_serial (mg_policies m (rn_kind r)) then schedule en now (rn_kind r) m else m)"

definition stop_cancelled :: "run \<Rightarrow> manager \<Rightarrow> manager" where
  "stop_cancelled r m =
     (let p = mg_policies m (rn_kind r) in
      if has_worker (rn_id r) m \<and> \<not> (rn_state r = Running \<and> po_deferred_cancel p)
      then (let m = cancel_worker (rn_id r) m in if po_join_cancel p then bound_join (rn_id r) m else m)
      else m)"

definition cancel_run :: "run_env \<Rightarrow> gotime \<Rightarrow> string \<Rightarrow> string \<Rightarrow> manager \<Rightarrow> (run_error option \<times> run) \<times> manager" where
  "cancel_run en now key rid m =
     (case get_run en now key rid (mg_store m) of
        (Inl e, s) \<Rightarrow> ((Some e, no_run), m\<lparr>mg_store := s\<rparr>)
      | (Inr old, s) \<Rightarrow>
          (let m = m\<lparr>mg_store := s\<rparr> in
           if terminal (rn_state old) then ((None, old), stop_terminal old m)
           else (case change en now key rid (\<lambda>v. cancel_edit (has_worker rid m) (mg_policies m (rn_kind v)) v) None s of
                   ((err, r), s) \<Rightarrow>
                     (let m = m\<lparr>mg_store := s\<rparr> in
                      if err \<noteq> None \<and> \<not> committed_terminal (the err) then ((err, r), m)
                      else if terminal (rn_state r) then ((err, r), reschedule en now r (stop_terminal r m))
                      else (let m = stop_cancelled r m in ((err, r), if err = None then reschedule en now r m else m))))))"

definition finish_run ::
    "run_env \<Rightarrow> gotime \<Rightarrow> string \<Rightarrow> string \<Rightarrow> run_state \<Rightarrow> string \<Rightarrow> string \<Rightarrow> manager \<Rightarrow> manager" where
  "finish_run en now key rid st reason out m =
     (let late = (case map_of (mg_active m) rid of Some w \<Rightarrow> ex_expired w | None \<Rightarrow> False);
          st = (if late then Cancelled else st);
          reason = (if late then ''consumer did not join'' else reason);
          out = (if late then [] else out)
      in case change en now key rid (\<lambda>v. finish_edit en (mg_policies m (rn_kind v)) st reason out v) None (mg_store m) of
           ((err, r), s) \<Rightarrow>
             (let m = m\<lparr>mg_store := s\<rparr>;
                  m = (if err \<noteq> None \<and> committed_terminal (the err) then stop_terminal r m else m)
              in if err \<noteq> None \<and> err \<noteq> Some ErrConflict then m\<lparr>mg_store := mark_broken key (the err) (mg_store m)\<rparr> else m))"

section \<open>Attempts\<close>

record step =
  sp_purpose :: string
  sp_run_id :: string
  sp_route :: string
  sp_input :: string

text \<open>
  The executor: whether it acquired a slot (and so called back), and its result, which may depend on what the
  callback answered.
\<close>

record executor =
  xc_acquires :: bool
  xc_result :: "run_error option \<Rightarrow> call_error option \<times> step_result"

datatype attempt_error = AttemptInvalid | AttemptStore run_error | AttemptCall call_error | SettlementError "call_error option" run_error

definition acquire_attempt :: "run_env \<Rightarrow> gotime \<Rightarrow> bool \<Rightarrow> run \<Rightarrow> manager \<Rightarrow> run_error option \<times> manager" where
  "acquire_attempt en now is_live r m =
     (case change en now (rn_key_id r) (rn_id r) (acquire_edit is_live now) None (mg_store m) of
        ((e, _), s) \<Rightarrow> (e, if e = None then acquired_position (rn_kind r) (rn_id r) (m\<lparr>mg_store := s\<rparr>) else m\<lparr>mg_store := s\<rparr>))"

definition call_outcome :: "run_env \<Rightarrow> call_error option \<Rightarrow> step_result \<Rightarrow> attempt_error option" where
  "call_outcome en err res =
     (case err of
        Some e \<Rightarrow> Some (AttemptCall e)
      | None \<Rightarrow> if length (sr_output res) > max_output \<or> \<not> rc_valid en (sr_output res) then Some AttemptInvalid else None)"

definition attempt ::
    "run_env \<Rightarrow> gotime \<Rightarrow> run \<Rightarrow> step \<Rightarrow> bool \<Rightarrow> executor \<Rightarrow> manager \<Rightarrow> (attempt_error option \<times> run) \<times> manager" where
  "attempt en now r st is_live x m =
     (if length (sp_input st) > max_input \<or> \<not> rc_valid en (sp_input st)
      then ((Some AttemptInvalid, r),
            if is_live then m else finish_run en now (rn_key_id r) (rn_id r) Failed ''step input limit or format'' [] m)
      else (case fresh_id en ''a_'' (mg_store m) of (aid, s) \<Rightarrow>
        (case change en now (rn_key_id r) (rn_id r) (begin_edit is_live aid (sp_purpose st)) None s of
           ((Some e, r'), s) \<Rightarrow> ((Some (AttemptStore e), r'), m\<lparr>mg_store := s\<rparr>)
         | ((None, r), s) \<Rightarrow>
             (let m = m\<lparr>mg_store := s\<rparr> in
              case (if xc_acquires x then acquire_attempt en now is_live r m else (None, m)) of (acq, m) \<Rightarrow>
              (case xc_result x acq of (err, res) \<Rightarrow>
               (case change en now (rn_key_id r) (rn_id r)
                       (\<lambda>v. settle_edit en is_live aid (mg_policies m (rn_kind v)) err res v) None (mg_store m) of
                  ((Some e, r'), s) \<Rightarrow> ((Some (SettlementError err e), r'), m\<lparr>mg_store := s\<rparr>)
                | ((None, r'), s) \<Rightarrow> ((call_outcome en err res, r'), m\<lparr>mg_store := s\<rparr>)))))))"

section \<open>Driving a kind\<close>

datatype kind_result = KindFailed kind_failure "string option" | KindPanic | KindStep step | KindDone string

definition worker_cancelled :: "run \<Rightarrow> manager \<Rightarrow> bool" where
  "worker_cancelled r m \<longleftrightarrow> mg_closed m \<or> (case map_of (mg_active m) (rn_id r) of Some w \<Rightarrow> ex_cancelled w | None \<Rightarrow> True)"

text \<open>
  The loop of \<open>drive\<close>, with a bound on its rounds: \<open>None\<close> means that the rounds were used up. A kind error that carries its own
  reason is believed for chat runs only.
\<close>

definition drive_reason :: "run \<Rightarrow> kind_failure \<Rightarrow> string option \<Rightarrow> string" where
  "drive_reason r e own = (case own of Some why \<Rightarrow> if rn_kind r = ''chat'' then why else failure_reason e | None \<Rightarrow> failure_reason e)"

fun drive ::
    "run_env \<Rightarrow> gotime \<Rightarrow> (run \<Rightarrow> kind_result) \<Rightarrow> (run \<Rightarrow> step \<Rightarrow> executor) \<Rightarrow> nat \<Rightarrow> run \<Rightarrow> manager \<Rightarrow> manager option" where
  "drive en now kind ex 0 r m = None"
| "drive en now kind ex (Suc n) r m =
     (let fin = (\<lambda>st why out m. Some (finish_run en now (rn_key_id r) (rn_id r) st why out m)) in
      if worker_cancelled r m then fin Cancelled ''cancelled'' [] m
      else (case kind r of
              KindFailed e own \<Rightarrow> fin Failed (drive_reason r e own) [] m
            | KindPanic \<Rightarrow> fin Failed ''step panic'' [] m
            | KindDone out \<Rightarrow>
                (if length out > max_output \<or> (out \<noteq> [] \<and> \<not> rc_valid en out) then fin Failed ''output limit or format'' [] m
                 else fin Done [] out m)
            | KindStep st \<Rightarrow>
                (case attempt en now r st False (ex r st) m of
                   ((Some e, _), m) \<Rightarrow> fin Failed ''attempt failed'' [] m
                 | ((None, r'), m) \<Rightarrow> if terminal (rn_state r') then Some m else drive en now kind ex n r' m)))"

text \<open>The image kind: one step, whose output is the output of the run.\<close>

record image_input =
  ii_parent_run_id :: string
  ii_tool_call_id :: string
  ii_client_request_id :: string
  ii_prompt :: string
  ii_conversation :: string

definition validate_image :: "(string \<Rightarrow> image_input option) \<Rightarrow> string \<Rightarrow> run_error option" where
  "validate_image dec inp =
     (case dec inp of
        None \<Rightarrow> Some ErrInvalid
      | Some i \<Rightarrow>
          if trim_space (ii_prompt i) = [] \<or> length inp > max_input \<or> length (ii_parent_run_id i) > 80 \<or> length (ii_tool_call_id i) > 80
             \<or> length (ii_conversation i) > 128 \<or> length (ii_client_request_id i) > 128 \<or> contains_sub ''<sd_cpp_extra_args>'' (ii_prompt i)
          then Some ErrInvalid else None)"

definition image_kind :: "(string \<Rightarrow> image_input option) \<Rightarrow> run \<Rightarrow> kind_result" where
  "image_kind dec r =
     (if validate_image dec (rn_input r) \<noteq> None then KindFailed OtherFailure None
      else if rn_attempts r \<noteq> [] then KindDone (at_output (last (rn_attempts r)))
      else KindStep \<lparr>sp_purpose = [], sp_run_id = rn_id r, sp_route = ''/v1/images/generations'', sp_input = rn_input r\<rparr>)"

section \<open>Quarantine and joining\<close>

fun quarantine_rows :: "run_env \<Rightarrow> gotime \<Rightarrow> string \<Rightarrow> run_summary list \<Rightarrow> manager \<Rightarrow> manager" where
  "quarantine_rows en now kind [] m = m"
| "quarantine_rows en now kind (x # xs) m =
     (if sm_kind x \<noteq> kind \<or> (sm_state x \<noteq> Queued \<and> sm_state x \<noteq> Waiting) \<or> has_worker (sm_id x) m
      then quarantine_rows en now kind xs m
      else (case change en now (sm_key_id x) (sm_id x) quarantine_edit None (mg_store m) of
              (_, s) \<Rightarrow> quarantine_rows en now kind xs (release_run (sm_id x) (m\<lparr>mg_store := s\<rparr>))))"

definition quarantine :: "run_env \<Rightarrow> gotime \<Rightarrow> string \<Rightarrow> manager \<Rightarrow> manager" where
  "quarantine en now kind m =
     (if mg_closed m then m
      else (case list_runs en now [] (mg_store m) of (res, s) \<Rightarrow>
              quarantine_rows en now kind (case res of Inr xs \<Rightarrow> xs | Inl e \<Rightarrow> [])
                (m\<lparr>mg_store := s, mg_quarantined := List.insert kind (mg_quarantined m)\<rparr>)))"

definition resume_kind :: "run_env \<Rightarrow> gotime \<Rightarrow> string \<Rightarrow> manager \<Rightarrow> manager" where
  "resume_kind en now kind m =
     (if availability kind m \<noteq> None \<or> mg_closed m then m
      else if po_serial (mg_policies m kind) then schedule en now kind m
      else (case queued_runs en now kind (mg_store m) of (rows, s) \<Rightarrow>
              fold (\<lambda>r m. if has_worker (rn_id r) m then m else start_run r m) rows (m\<lparr>mg_store := s\<rparr>)))"

definition recovered_kind :: "run_env \<Rightarrow> gotime \<Rightarrow> string \<Rightarrow> manager \<Rightarrow> manager" where
  "recovered_kind en now kind m = resume_kind en now kind (m\<lparr>mg_quarantined := removeAll kind (mg_quarantined m)\<rparr>)"

text \<open>The join timer of the worker with this serial number fires.\<close>

definition mark_late :: "string \<Rightarrow> string \<Rightarrow> run_store \<Rightarrow> run_store" where
  "mark_late key rid s =
     s\<lparr>st_reserved := (st_reserved s)(key := map (\<lambda>(i, l). (i, if i = rid then l\<lparr>rv_late := True\<rparr> else l)) (st_reserved s key))\<rparr>"

definition join_timer :: "run_env \<Rightarrow> gotime \<Rightarrow> string \<Rightarrow> nat \<Rightarrow> manager \<Rightarrow> manager" where
  "join_timer en now rid serial m =
     (case map_of (mg_active m) rid of
        None \<Rightarrow> m
      | Some w \<Rightarrow>
          if ex_serial w \<noteq> serial then m
          else (let m = cancel_worker rid m in
                if po_in_process (mg_policies m (ex_kind w))
                then finish_run en now (ex_key w) rid Cancelled ''cancelled'' [] (m\<lparr>mg_store := mark_late (ex_key w) rid (mg_store m)\<rparr>)
                else (update_worker rid (\<lambda>w. w\<lparr>ex_expired := True\<rparr>) m)
                       \<lparr>mg_blocked := (mg_blocked m)(ex_kind w := mg_blocked m (ex_kind w) + 1)\<rparr>))"

text \<open>
  The force-stop has answered or its time is over: \<open>cause\<close> is empty when the runtime was stopped. The worker is the one the
  timer expired. A force-stop that answers after its time was over is the operation \<open>recovered_kind\<close> on its own.
\<close>

definition join_stopped :: "run_env \<Rightarrow> gotime \<Rightarrow> string \<Rightarrow> execution \<Rightarrow> string \<Rightarrow> bool \<Rightarrow> manager \<Rightarrow> manager" where
  "join_stopped en now rid w cause timed_out m =
     (let m = finish_run en now (ex_key w) rid Cancelled ''consumer did not join'' [] m;
          mine = (map_option ex_serial (map_of (mg_active m) rid) = Some (ex_serial w));
          m = (if mine then release_run rid (m\<lparr>mg_active := AList.delete rid (mg_active m)\<rparr>) else m);
          m = m\<lparr>mg_blocked := (mg_blocked m)(ex_kind w := mg_blocked m (ex_kind w) - 1)\<rparr>
      in if cause = [] \<and> \<not> timed_out then recovered_kind en now (ex_kind w) m else quarantine en now (ex_kind w) m)"

section \<open>Consumers\<close>

definition answer_run ::
    "run_env \<Rightarrow> gotime \<Rightarrow> string \<Rightarrow> string \<Rightarrow> string \<Rightarrow> bool \<Rightarrow> manager \<Rightarrow> (run_error option \<times> run) \<times> manager" where
  "answer_run en now key rid aid allow m =
     (case get_run en now key rid (mg_store m) of
        (Inl e, s) \<Rightarrow> ((Some e, no_run), m\<lparr>mg_store := s\<rparr>)
      | (Inr old, s) \<Rightarrow>
          (let m = m\<lparr>mg_store := s\<rparr> in
           if terminal (rn_state old) then ((Some (CommittedTerminal old), old), stop_terminal old m)
           else if \<not> has_worker rid m then ((Some ErrConflict, no_run), m)
           else (case change en now key rid answer_edit
                        (Some (\<lambda>s data. case rt_approval data of
                            None \<Rightarrow> Inl ErrConflict
                          | Some a \<Rightarrow> if ap_id a \<noteq> aid \<or> ap_status a \<noteq> ''pending'' then Inl ErrConflict
                                      else Inr (data\<lparr>rt_approval := Some (a\<lparr>ap_status := ''answered'', ap_allow := Some allow\<rparr>)\<rparr>))) s of
                   ((err, r), s) \<Rightarrow>
                     (let m = m\<lparr>mg_store := s\<rparr>;
                          m = (if err \<noteq> None \<and> committed_terminal (the err) then stop_terminal r m else m)
                      in ((err, r), if err = None then update_worker rid (\<lambda>w. w\<lparr>ex_answer := True\<rparr>) m else m)))))"

text \<open>\<open>releaseAfter\<close>: a cancelled worker keeps its lease until its consumer returns.\<close>

definition release_after :: "run \<Rightarrow> nat \<Rightarrow> manager \<Rightarrow> nat option \<times> manager" where
  "release_after r ticket m =
     (if worker_cancelled r m then (Some ticket, m)
      else (None, m\<lparr>mg_store := release_lease (rn_key_id r) (rn_id r) ticket (mg_store m)\<rparr>))"

definition work_step ::
    "run_env \<Rightarrow> gotime \<Rightarrow> run \<Rightarrow> step \<Rightarrow> executor \<Rightarrow> manager \<Rightarrow> (attempt_error option \<times> nat option) \<times> manager" where
  "work_step en now r st x m =
     (if worker_cancelled r m then ((Some (AttemptCall CallCancelled), None), m)
      else (case admit_run en now (rn_key_id r) (rn_id r) (int (2 * max_output + 4096)) (mg_store m) of
              (Inl e, s) \<Rightarrow> ((Some (AttemptStore e), None), m\<lparr>mg_store := s\<rparr>)
            | (Inr ticket, s) \<Rightarrow>
                (case attempt en now r st True x (m\<lparr>mg_store := s\<rparr>) of
                   ((err, r'), m) \<Rightarrow>
                     (let ended = (case err of Some (AttemptStore e) \<Rightarrow> committed_terminal e
                                   | Some (SettlementError c e) \<Rightarrow> committed_terminal e | _ \<Rightarrow> False);
                          m = (if ended then stop_terminal r' m else m)
                      in case release_after r ticket m of (kept, m) \<Rightarrow> ((err, kept), m)))))"

text \<open>\<open>Approval\<close> up to the point where it waits: the request is stored and the run waits for the answer.\<close>

definition approval_request ::
    "run_env \<Rightarrow> gotime \<Rightarrow> run \<Rightarrow> string \<Rightarrow> string \<Rightarrow> manager \<Rightarrow> (run_error option \<times> nat option) \<times> manager" where
  "approval_request en now r aid request m =
     (if \<not> safe_id aid \<or> length request > max_output then ((Some ErrInvalid, None), m)
      else (case admit_run en now (rn_key_id r) (rn_id r) (int (max_output + 4096)) (mg_store m) of
              (Inl e, s) \<Rightarrow> ((Some e, None), m\<lparr>mg_store := s\<rparr>)
            | (Inr ticket, s) \<Rightarrow>
                (case change en now (rn_key_id r) (rn_id r) approval_edit
                        (Some (\<lambda>s data. case rt_approval data of
                            Some a \<Rightarrow> if ap_status a = ''pending'' \<or> ap_id a = aid then Inl ErrConflict
                                      else Inr (data\<lparr>rt_approval := Some \<lparr>ap_id = aid, ap_request = request, ap_status = ''pending'', ap_allow = None\<rparr>\<rparr>)
                          | None \<Rightarrow> Inr (data\<lparr>rt_approval := Some \<lparr>ap_id = aid, ap_request = request, ap_status = ''pending'', ap_allow = None\<rparr>\<rparr>))) s of
                   ((Some e, r'), s) \<Rightarrow>
                     (let m = m\<lparr>mg_store := s\<rparr>; m = (if committed_terminal e then stop_terminal r' m else m)
                      in case release_after r ticket m of (kept, m) \<Rightarrow> ((Some e, kept), m))
                 | ((None, r'), s) \<Rightarrow>
                     (let m = m\<lparr>mg_store := s\<rparr> in
                      if has_worker (rn_id r) m then ((None, Some ticket), m)
                      else (case release_after r ticket m of (kept, m) \<Rightarrow> ((Some ErrConflict, kept), m))))))"

text \<open>One look of the waiting loop at the stored answer: nothing yet, an error, or the answer.\<close>

definition approval_poll :: "run_env \<Rightarrow> gotime \<Rightarrow> run \<Rightarrow> manager \<Rightarrow> (run_error + bool option) \<times> manager" where
  "approval_poll en now r m =
     (if worker_cancelled r m then (Inl (ErrOther ''context canceled''), m)
      else (case retained_of en now (rn_key_id r) (rn_id r) (mg_store m) of
              (Inl e, s) \<Rightarrow> (Inl e, m\<lparr>mg_store := s\<rparr>)
            | (Inr data, s) \<Rightarrow>
                (case rt_approval data of
                   Some a \<Rightarrow> if ap_status a = ''answered''
                             then (case ap_allow a of Some b \<Rightarrow> Inr (Some b) | None \<Rightarrow> Inl (ErrPanic ''nil pointer''))
                             else Inr None
                 | None \<Rightarrow> Inl (ErrPanic ''nil pointer''), m\<lparr>mg_store := s\<rparr>)))"

definition abort_work :: "run \<Rightarrow> manager \<Rightarrow> manager" where
  "abort_work r m = (if has_worker (rn_id r) m then bound_join (rn_id r) (cancel_worker (rn_id r) m) else m)"

text \<open>\<open>Close\<close>: the context of the manager ends, every pending release runs, every worker gets a join timer.\<close>

definition close_manager :: "manager \<Rightarrow> manager" where
  "close_manager m =
     (let m = fold release_run (mg_releases m) (m\<lparr>mg_closed := True\<rparr>) in
      fold (\<lambda>(rid, w). bound_join rid) (mg_active m) m)"

section \<open>Sweeping\<close>

text \<open>
  One key of \<open>Sweep\<close>. Live runs past their time are cancelled; ended runs past theirs are deleted, their ids left in the
  cleanup list. The sweep of the image files of the key is an argument.
\<close>

definition expired :: "gotime \<Rightarrow> run \<Rightarrow> bool" where "expired now r \<longleftrightarrow> \<not> rn_expires r > now"

fun cancel_expired :: "run_env \<Rightarrow> gotime \<Rightarrow> string \<Rightarrow> (string \<times> run) list \<Rightarrow> manager \<Rightarrow> manager" where
  "cancel_expired en now key [] m = m"
| "cancel_expired en now key ((rid, r) # rows) m =
     (if \<not> terminal (rn_state r) \<and> expired now r
      then (case cancel_run en now key (rn_id r) m of (_, m) \<Rightarrow> cancel_expired en now key rows m)
      else cancel_expired en now key rows m)"

definition drop_expired :: "gotime \<Rightarrow> snapshot \<Rightarrow> snapshot" where
  "drop_expired now v =
     (let gone = (\<lambda>(rid, r). terminal (rn_state r) \<and> expired now r) in
      v\<lparr>sn_cleanup := sn_cleanup v @ map fst (filter gone (sn_runs v)), sn_runs := filter (\<lambda>x. \<not> gone x) (sn_runs v)\<rparr>)"

definition sweep_rows ::
    "run_env \<Rightarrow> gotime \<Rightarrow> (string \<Rightarrow> run_store \<Rightarrow> run_error option \<times> run_store) \<Rightarrow> string \<Rightarrow> snapshot \<Rightarrow> run_store \<Rightarrow> run_error option \<times> run_store" where
  "sweep_rows en now images key v s =
     (let next = drop_expired now v in
      case (if sn_runs next \<noteq> sn_runs v then commit en now key next None s else (None, next, s)) of
        (Some e, _, s) \<Rightarrow> (Some e, s)
      | (None, _, s) \<Rightarrow> images key s)"

definition keep_access :: "string \<Rightarrow> gotime \<Rightarrow> run_store \<Rightarrow> run_store" where
  "keep_access key seen s = s\<lparr>st_accessed := (st_accessed s)(key := seen)\<rparr>"

definition sweep_key ::
    "run_env \<Rightarrow> gotime \<Rightarrow> (string \<Rightarrow> run_store \<Rightarrow> run_error option \<times> run_store) \<Rightarrow> string \<Rightarrow> manager \<Rightarrow> run_error option \<times> manager" where
  "sweep_key en now images key m =
     (let seen = st_accessed (mg_store m) key in
      case load en now key (mg_store m) of
        (Inl e, s) \<Rightarrow>
          (let m = m\<lparr>mg_store := keep_access key seen s\<rparr> in
           if is_panic e then (Some e, m) else (None, m\<lparr>mg_store := mark_broken key e (mg_store m)\<rparr>))
      | (Inr v, s) \<Rightarrow>
          (let m = cancel_expired en now key (sn_runs v) (m\<lparr>mg_store := keep_access key seen s\<rparr>);
               seen = st_accessed (mg_store m) key
           in case load en now key (mg_store m) of
                (Inl e, s) \<Rightarrow> if is_panic e then (Some e, m\<lparr>mg_store := s\<rparr>) else (None, m\<lparr>mg_store := mark_broken key e s\<rparr>)
              | (Inr v, s) \<Rightarrow>
                  (case sweep_rows en now images key v s of (err, s) \<Rightarrow>
                     (let s = (case err of None \<Rightarrow> s | Some e \<Rightarrow> mark_broken key e s) in
                      (None, m\<lparr>mg_store := release_idle now (keep_access key seen s)\<rparr>)))))"

fun sweep ::
    "run_env \<Rightarrow> gotime \<Rightarrow> (string \<Rightarrow> run_store \<Rightarrow> run_error option \<times> run_store) \<Rightarrow> string list \<Rightarrow> manager \<Rightarrow> run_error option \<times> manager" where
  "sweep en now images [] m = (None, m)"
| "sweep en now images (k # ks) m =
     (case sweep_key en now images k m of
        (Some e, m) \<Rightarrow> (Some e, m)
      | (None, m) \<Rightarrow> sweep en now images ks m)"

end
