(* ===== verification/Run_Life.thy ===== *)
theory Run_Life
  imports Run_Manager
begin

text \<open>
  What the manager promises about the life of a run, and that its edits keep the promise. The abstract life is a step relation
  on the state and the cancellation mark; the interface \<open>life_edit\<close> says that an edit follows it.
\<close>

section \<open>The abstract life of a run\<close>

definition live_state :: "run_state \<Rightarrow> bool" where "live_state st \<longleftrightarrow> st \<in> {Queued, Running, Waiting}"

text \<open>
  A live run moves freely; once its cancellation is asked for it may only go on running or end, and the mark is never taken back;
  a run that has ended stays as it is.
\<close>

inductive life_step :: "run_state \<times> bool \<Rightarrow> run_state \<times> bool \<Rightarrow> bool" where
  stays: "life_step l l"
| moves: "live_state st \<Longrightarrow> live_state st' \<Longrightarrow> life_step (st, False) (st', False)"
| marked: "live_state st \<Longrightarrow> life_step (st, c) (st, True)"
| runs_on: "live_state st \<Longrightarrow> life_step (st, True) (Running, True)"
| ends: "live_state st \<Longrightarrow> terminal st' \<Longrightarrow> life_step (st, c) (st', c)"
| ends_marked: "live_state st \<Longrightarrow> st' \<in> {Failed, Cancelled} \<Longrightarrow> life_step (st, c) (st', True)"

inductive_simps life_step_simps: "life_step (st, c) (st', c')"

lemma live_not_terminal [simp]: "live_state st \<Longrightarrow> \<not> terminal st"
  by (auto simp: live_state_def terminal_def)

lemma valid_live: "valid_state st \<longleftrightarrow> live_state st \<or> terminal st"
  by (auto simp: live_state_def terminal_def valid_state_def)

lemma live_simps [simp]:
  "live_state Queued" "live_state Running" "live_state Waiting" "\<not> live_state Done" "\<not> live_state Failed" "\<not> live_state Cancelled"
  by (simp_all add: live_state_def)

lemma terminal_not_live: "terminal st \<Longrightarrow> \<not> live_state st"
  by auto

lemma life_step_facts:
  "life_step l l' \<Longrightarrow> (terminal (fst l) \<longrightarrow> l' = l) \<and> (snd l \<longrightarrow> snd l')
     \<and> (valid_state (fst l) \<longrightarrow> valid_state (fst l')) \<and> (snd l \<longrightarrow> l' = l \<or> fst l' = Running \<or> terminal (fst l'))"
  by (induction rule: life_step.induct) (auto simp: valid_live dest: terminal_not_live)

lemma life_steps_facts:
  assumes "life_step\<^sup>*\<^sup>* l l'"
  shows "terminal (fst l) \<Longrightarrow> l' = l" "snd l \<Longrightarrow> snd l'" "snd l \<Longrightarrow> l' = l \<or> fst l' = Running \<or> terminal (fst l')"
proof -
  have "(terminal (fst l) \<longrightarrow> l' = l) \<and> (snd l \<longrightarrow> snd l') \<and> (snd l \<longrightarrow> l' = l \<or> fst l' = Running \<or> terminal (fst l'))"
    using assms
  proof (induction rule: rtranclp_induct)
    case (step y z)
    with life_step_facts [OF step(2)] show ?case by auto
  qed simp
  then show "terminal (fst l) \<Longrightarrow> l' = l" "snd l \<Longrightarrow> snd l'" "snd l \<Longrightarrow> l' = l \<or> fst l' = Running \<or> terminal (fst l')" by auto
qed

section \<open>Edits that follow it\<close>

locale life_edit =
  fixes fn :: "run \<Rightarrow> run_error + run"
  assumes same_run: "fn r = Inr r' \<Longrightarrow> rn_id r' = rn_id r \<and> rn_key_id r' = rn_key_id r"
    and follows: "fn r = Inr r' \<Longrightarrow> valid_state (rn_state r) \<Longrightarrow> life_step (life r) (life r')"

sublocale life_edit \<subseteq> run_edit fn
proof unfold_locales
  fix r r' assume *: "fn r = Inr r'"
  show "rn_id r' = rn_id r \<and> rn_key_id r' = rn_key_id r" by (rule same_run [OF *])
  show "valid_state (rn_state r')" if "valid_state (rn_state r)"
    using life_step_facts [OF follows [OF * that]] that by (simp add: life_def)
  show "life r' = life r" if "terminal (rn_state r)"
    using life_step_facts [OF follows [OF *]] that by (simp add: life_def valid_state_def)
qed

context life_edit
begin

lemmas store_kept = change_keeps_store

lemma change_follows:
  assumes "store_ok s" "env_ok en" "change en now key rid fn upd s = ((err, r), t)" "load en now key s = (Inr v, s1)"
    and k: "lives (sn_runs v) k = Some l"
  shows "\<exists>l'. lives (sn_runs (data_of t key)) k = Some l' \<and> life_step l l'"
proof -
  have v: "snap_ok key v" using loaded_ok [OF load_ok(1) [OF assms(1,2,4)] load_ok(3) [OF assms(1,2,4)]] by simp
  from change_lives [OF assms(1-4)] show ?thesis
  proof (elim disjE exE conjE)
    assume "lives (sn_runs (data_of t key)) = lives (sn_runs v)"
    then show ?thesis using k life_step.stays by auto
  next
    fix before r1
    assume *: "map_of (sn_runs v) rid = Some before" "fn before = Inr r1"
      "lives (sn_runs (data_of t key)) = (lives (sn_runs v))(rid \<mapsto> life r1)"
    have "life_step (life before) (life r1)" using follows [OF *(2)] snap_row [OF v *(1)] by (simp add: row_ok_def)
    moreover have "l = life before" if "k = rid" using * k that by (simp add: lives_def)
    ultimately show ?thesis using * k life_step.stays [of l] by (cases "k = rid") simp_all
  next
    fix before r1
    assume *: "map_of (sn_runs v) rid = Some before" "fn before = Inr r1" "\<not> terminal (rn_state before)"
      "lives (sn_runs (data_of t key)) = (lives (sn_runs v))(rid \<mapsto> (Failed, rn_cancel_requested r1))"
    have val: "valid_state (rn_state before)" using snap_row [OF v *(1)] by (simp add: row_ok_def)
    have "rn_cancel_requested before \<longrightarrow> rn_cancel_requested r1" using life_step_facts [OF follows [OF *(2) val]] by (simp add: life_def)
    then have "life_step (life before) (Failed, rn_cancel_requested r1)"
      using *(3) val life_step.ends [of "rn_state before" Failed] life_step.ends_marked [of "rn_state before" Failed]
      by (cases "rn_cancel_requested r1") (auto simp: life_def valid_live)
    moreover have "l = life before" if "k = rid" using * k that by (simp add: lives_def)
    ultimately show ?thesis using * k life_step.stays [of l] by (cases "k = rid") simp_all
  qed
qed

lemma change_stays_loaded:
  assumes "store_ok s" "env_ok en" "change en now key rid fn upd s = ((err, r), t)" "load en now key s = (Inr v, s1)"
  shows "has_row key (st_data t)"
proof (cases rule: change_cases [OF assms(3,4)])
  case 1
  then show ?thesis using load_ok(3) [OF assms(1,2,4)] by (simp add: loaded_def)
next
  case (2 v' before r1 kept event e w)
  note lo = load_ok [OF assms(1,2,4)]
  have ld: "has_row key (st_data s1)" "snap_ok key v" using lo(3) loaded_ok [OF lo(1)] by (auto simp: loaded_def)
  have v': "v' = v" using 2(1) by simp
  note d = edited_draft [OF ld(2) 2(2-4) [unfolded v']]
  show ?thesis
  proof (cases e)
    case None
    show ?thesis using commit_success_data [OF 2(6) [unfolded None]] by simp
  next
    case (Some x)
    have "st_data t = st_data s1"
      by (rule commit_for_ok(5) [OF lo(1) ld(1) assms(2) d(1) d(2) [OF 2(5)] _ 2(6) [unfolded v']]) (simp_all add: Some)
    then show ?thesis using ld by simp
  qed
qed

end

section \<open>The manager's edits\<close>

text \<open>The edits read the policy of the kind of the run.\<close>

lemmas edit_simps = Let_def life_def valid_live life_step_simps

interpretation cancelling: life_edit "\<lambda>r. cancel_edit w (P (rn_kind r)) r" for w P
  by unfold_locales (auto simp: cancel_edit_def edit_simps split: if_splits)

lemma finishing: "terminal st \<Longrightarrow> life_edit (\<lambda>r. finish_edit en (P (rn_kind r)) st reason out r)"
  by unfold_locales (auto simp: finish_edit_def edit_simps split: if_splits)

interpretation beginning: life_edit "begin_edit is_live aid purpose" for is_live aid purpose
  by unfold_locales (auto simp: begin_edit_def may_start_def edit_simps split: if_splits)

interpretation acquiring: life_edit "acquire_edit is_live now" for is_live now
  by unfold_locales (auto simp: acquire_edit_def may_start_def edit_simps split: if_splits)

lemma settle_state_sel [simp]:
  "rn_id (settle_state en is_live p err res v) = rn_id v" "rn_key_id (settle_state en is_live p err res v) = rn_key_id v"
  "rn_cancel_requested (settle_state en is_live p err res v) = rn_cancel_requested v"
  "rn_attempts (settle_state en is_live p err res v) = rn_attempts v"
  by (simp_all add: settle_state_def Let_def)

lemma settle_state_life:
  "live_state (rn_state v) \<Longrightarrow> life_step (life v) (life (settle_state en is_live p err res v))"
  by (auto simp: settle_state_def edit_simps)

interpretation settling: life_edit "\<lambda>r. settle_edit en is_live aid (P (rn_kind r)) err res r" for en is_live aid P err res
proof unfold_locales
  fix r r' assume *: "settle_edit en is_live aid (P (rn_kind r)) err res r = Inr r'"
  let ?w = "r\<lparr>rn_attempts := update_last (settled_attempt en res) (rn_attempts r)\<rparr>"
  have r': "r' = ?w \<and> terminal (rn_state r) \<or> r' = settle_state en is_live (P (rn_kind r)) err res ?w \<and> \<not> terminal (rn_state r)"
    using * by (auto simp: settle_edit_def Let_def split: if_splits)
  show "rn_id r' = rn_id r \<and> rn_key_id r' = rn_key_id r" using r' by auto
  have w: "life ?w = life r" by (simp add: life_def)
  show "life_step (life r) (life r')" if "valid_state (rn_state r)"
    using r' settle_state_life [of ?w] life_step.stays [of "life r"] that by (auto simp: w valid_live)
qed

interpretation asking: life_edit approval_edit
  by unfold_locales (auto simp: approval_edit_def edit_simps split: if_splits)

interpretation answering: life_edit answer_edit
  by unfold_locales (auto simp: answer_edit_def edit_simps split: if_splits)

lemma retain_same_life: "retain_edit sz b r = Inr r' \<Longrightarrow> r' = r"
  by (auto simp: retain_edit_def split: if_splits)

interpretation keeping: life_edit "retain_edit sz b" for sz b
  by unfold_locales (auto dest!: retain_same_life intro: life_step.stays)

text \<open>
  \<open>quarantine\<close> fails rows it has just seen queued or waiting. On such rows its edit is the guarded one below, and only
  what an edit does to the row it meets matters to a change.
\<close>

definition guarded_quarantine :: "run \<Rightarrow> run_error + run" where
  "guarded_quarantine r = (if terminal (rn_state r) then Inl ErrConflict else quarantine_edit r)"

interpretation quarantining: life_edit guarded_quarantine
  by unfold_locales (auto simp: guarded_quarantine_def quarantine_edit_def edit_simps split: if_splits)

lemma change_cong:
  assumes "load en now key s = (Inr v, s1)" "\<And>b. map_of (sn_runs v) rid = Some b \<Longrightarrow> fn b = fn' b"
  shows "change en now key rid fn upd s = change en now key rid fn' upd s"
  using assms by (simp add: change_def split: option.split)

section \<open>The history of a key\<close>

inductive manager_edit :: "(run \<Rightarrow> run_error + run) \<Rightarrow> bool" where
  "manager_edit (\<lambda>r. cancel_edit w (P (rn_kind r)) r)"
| "terminal st \<Longrightarrow> manager_edit (\<lambda>r. finish_edit en (P (rn_kind r)) st reason out r)"
| "manager_edit (begin_edit is_live aid purpose)"
| "manager_edit (acquire_edit is_live now)"
| "manager_edit (\<lambda>r. settle_edit en is_live aid (P (rn_kind r)) err res r)"
| "manager_edit approval_edit"
| "manager_edit answer_edit"
| "manager_edit (retain_edit sz b)"

lemma manager_edit_life: "manager_edit fn \<Longrightarrow> life_edit fn"
  by (induction rule: manager_edit.induct)
    (rule cancelling.life_edit_axioms finishing beginning.life_edit_axioms acquiring.life_edit_axioms settling.life_edit_axioms
       asking.life_edit_axioms answering.life_edit_axioms keeping.life_edit_axioms | assumption)+

text \<open>Any number of edits of the runs of a key that is in memory, each by any operation and with any outcome.\<close>

inductive key_history :: "run_env \<Rightarrow> string \<Rightarrow> run_store \<Rightarrow> run_store \<Rightarrow> bool" for en key where
  begins: "key_history en key s s"
| edited: "key_history en key s t \<Longrightarrow> manager_edit fn \<Longrightarrow> change en now key rid fn upd t = (res, u) \<Longrightarrow> key_history en key s u"
| quarantined: "key_history en key s t \<Longrightarrow> load en now key t = (Inr v, t1) \<Longrightarrow> map_of (sn_runs v) rid = Some b \<Longrightarrow>
    rn_state b = Queued \<or> rn_state b = Waiting \<Longrightarrow> change en now key rid quarantine_edit None t = (res, u) \<Longrightarrow> key_history en key s u"

lemma load_present:
  assumes "has_row key (st_data s)" "load en now key s = (res, t)"
  shows "res = Inr (data_of s key) \<or> (\<exists>e. res = Inl e) \<and> t = s"
  using assms by (auto simp: load_def has_row_def data_of_def row_def Let_def split: if_splits option.splits)

definition follows_lives :: "string \<Rightarrow> run_store \<Rightarrow> run_store \<Rightarrow> bool" where
  "follows_lives key s t \<longleftrightarrow> (\<forall>k l. lives (sn_runs (data_of s key)) k = Some l \<longrightarrow>
     (\<exists>l'. lives (sn_runs (data_of t key)) k = Some l' \<and> life_step\<^sup>*\<^sup>* l l'))"

lemma follows_extend:
  assumes "follows_lives key s t"
    and "\<And>k l. lives (sn_runs (data_of t key)) k = Some l \<Longrightarrow> \<exists>l'. lives (sn_runs (data_of u key)) k = Some l' \<and> life_step l l'"
  shows "follows_lives key s u"
  using assms unfolding follows_lives_def by (meson rtranclp.rtrancl_into_rtrancl)

lemma edit_extends:
  assumes fn: "life_edit fn" and s: "store_ok t" "env_ok en" "has_row key (st_data t)"
    and c: "change en now key rid fn upd t = (res, u)" and f: "follows_lives key s t"
  shows "store_ok u \<and> has_row key (st_data u) \<and> follows_lives key s u"
proof -
  obtain err r where res: "res = (err, r)" by (cases res)
  note c = c [unfolded res]
  have ok: "store_ok u" by (rule life_edit.store_kept [OF fn s(1,2) c])
  obtain lr t1 where ld: "load en now key t = (lr, t1)" by fastforce
  show ?thesis
  proof (cases lr)
    case (Inl e)
    then have "u = t" using load_present [OF s(3) ld] c ld by (auto simp: change_def)
    then show ?thesis using ok s f by simp
  next
    case (Inr v)
    then have v: "v = data_of t key" using load_present [OF s(3) ld] by auto
    note ld = ld [unfolded Inr]
    have "follows_lives key s u"
      by (rule follows_extend [OF f life_edit.change_follows [OF fn s(1,2) c ld]]) (simp add: v)
    then show ?thesis using ok life_edit.change_stays_loaded [OF fn s(1,2) c ld] by simp
  qed
qed

lemma history_lives:
  assumes "key_history en key s t" "store_ok s" "env_ok en" "has_row key (st_data s)"
  shows "store_ok t \<and> has_row key (st_data t) \<and> follows_lives key s t"
  using assms
proof (induction rule: key_history.induct)
  case (begins s)
  then show ?case by (auto simp: follows_lives_def)
next
  case (edited s t fn now rid upd res u)
  show ?case by (rule edit_extends [OF manager_edit_life [OF edited(2)] _ _ _ edited(3)]) (use edited in simp_all)
next
  case (quarantined s t now v t1 rid b res u)
  have "change en now key rid guarded_quarantine None t = (res, u)"
    using change_cong [OF quarantined(2), of rid quarantine_edit guarded_quarantine None] quarantined
    by (auto simp: guarded_quarantine_def)
  note edit_extends [OF quarantining.life_edit_axioms _ _ _ this, of s]
  then show ?case using quarantined by simp
qed

lemma history_row:
  assumes "store_ok s" "env_ok en" "has_row key (st_data s)" "key_history en key s t"
    and "map_of (sn_runs (data_of s key)) rid = Some r"
  shows "\<exists>r'. map_of (sn_runs (data_of t key)) rid = Some r' \<and> life_step\<^sup>*\<^sup>* (life r) (life r')"
proof -
  have f: "follows_lives key s t" using history_lives [OF assms(4,1-3)] by simp
  have "lives (sn_runs (data_of s key)) rid = Some (life r)" using assms(5) by (simp add: lives_def)
  then obtain l' where "lives (sn_runs (data_of t key)) rid = Some l'" "life_step\<^sup>*\<^sup>* (life r) l'"
    using f unfolding follows_lives_def by blast
  then show ?thesis by (auto simp: lives_def)
qed


lemma sample_history:
  "key_history sample_run_env ''k1'' sample_store
     (snd (change sample_run_env 6 ''k1'' ''r_a'' (\<lambda>r. cancel_edit False no_policy r) None sample_store))"
  by (rule key_history.edited [OF key_history.begins manager_edit.intros(1) [of False "\<lambda>_. no_policy"]]) (rule surjective_pairing)


text \<open>
  C8. A run that has ended never changes its state again, and a run whose cancellation was asked for never goes back to the queue:
  through any history of edits it keeps the mark, and it stays where it was, goes on running, or ends.
\<close>

theorem ended_and_cancelled_stay:
  assumes "store_ok s" "env_ok en" "has_row key (st_data s)" "key_history en key s t"
    and "map_of (sn_runs (data_of s key)) rid = Some r"
  shows "\<exists>r'. map_of (sn_runs (data_of t key)) rid = Some r'
    \<and> (terminal (rn_state r) \<longrightarrow> rn_state r' = rn_state r \<and> rn_cancel_requested r' = rn_cancel_requested r)
    \<and> (rn_cancel_requested r \<longrightarrow> rn_cancel_requested r' \<and> (rn_state r' = rn_state r \<or> rn_state r' = Running \<or> terminal (rn_state r')))"
proof -
  obtain r' where r': "map_of (sn_runs (data_of t key)) rid = Some r'" "life_step\<^sup>*\<^sup>* (life r) (life r')"
    using history_row [OF assms] by blast
  show ?thesis using r' life_steps_facts [OF r'(2)] by (auto simp: life_def)
qed

theorem ended_and_cancelled_stay_witness:
  "\<exists>t r'. key_history sample_run_env ''k1'' sample_store t \<and> map_of (sn_runs (data_of t ''k1'')) ''r_a'' = Some r'"
  using ended_and_cancelled_stay [OF sample_store_ok sample_run_env_ok _ sample_history, of "''r_a''" sample_run] sample_history
  by (auto simp: has_row_def data_of_def row_def)

end
