(* ===== verification/Run_Drive.thy ===== *)
theory Run_Drive
  imports Run_Life
begin

text \<open>
  What the manager's own operations come to: a run of the image kind makes one attempt and ends, a cancellation that is answered
  has ended the run or marked it for its worker, and the positions shown for a queue are the ranks of its runs.
\<close>

section \<open>Attempts are kept\<close>

lemma length_update_last [simp]: "length (update_last f xs) = length xs"
  by (simp add: update_last_def)

lemma storage_exhausted_attempts [simp]: "rn_attempts (storage_exhausted r) = rn_attempts r"
  by (simp add: storage_exhausted_def)

lemma strip_run_attempts [simp]: "length (rn_attempts (strip_run en before r)) = length (rn_attempts r)"
  by (simp add: strip_run_def Let_def strip_output_def)

lemma staged_attempts:
  assumes "staged en now old event v = (w, events)"
  shows "rn_attempts (run_row rid w) = rn_attempts (run_row rid v)"
proof -
  have st: "list_all2 (stamped now) (sn_runs v) (sn_runs w)"
    using stamp_images_rows [of now "sn_runs v" en "sn_runs old" event] assms by (auto simp: staged_def Let_def split: prod.splits)
  show ?thesis using stamped_map_of [OF st, of rid] by (auto simp: row_def)
qed

lemma squeeze_attempts:
  "squeeze en cap old rid v events = Some (w, events') \<Longrightarrow> length (rn_attempts (run_row rid w)) = length (rn_attempts (run_row rid v))"
  by (auto simp: squeeze_def Let_def exhaust_def split: if_splits)

lemma commit_attempts:
  assumes "commit_for en now key v event rid s = (None, w, t)"
  shows "length (rn_attempts (run_row rid w)) = length (rn_attempts (run_row rid v))"
proof -
  obtain d events where st: "staged en now (data_of s key) event v = (d, events)" by fastforce
  note d = staged_attempts [OF st, of rid]
  note c = assms [unfolded commit_for_def Let_def st prod.case]
  obtain raw where raw: "st_broken s key = None" "rc_encode en d = Some raw" using c by (auto split: option.splits)
  show ?thesis
  proof (cases "retained_budget s key rid (int (length raw))")
    case (Some credit)
    then have "write_snapshot en key d raw events rid credit s = (None, w, t)" using c raw by simp
    from write_snapshot_rows [OF this] show ?thesis using d by simp
  next
    case None
    then obtain x events' where sq: "squeeze en (hard_cap s) (data_of s key) rid d events = Some (x, events')"
      and wr: "write_snapshot en key x (encoded en x) events' [] 0 s = (None, w, t)"
      using c raw by (auto split: if_splits option.splits)
    from write_snapshot_rows [OF wr] squeeze_attempts [OF sq] show ?thesis using d by simp
  qed
qed

lemma changed_run_attempts [simp]: "rn_attempts (changed_run now before r) = rn_attempts r"
  by (simp add: changed_run_def Let_def)

lemma changed_run_life [simp]:
  "rn_state (changed_run now before r) = rn_state r" "rn_cancel_requested (changed_run now before r) = rn_cancel_requested r"
  by (simp_all add: changed_run_def Let_def)

lemma change_attempts:
  assumes "change en now key rid fn upd s = ((None, r), t)"
  shows "\<exists>before r1. fn before = Inr r1 \<and> length (rn_attempts r) = length (rn_attempts r1)"
  using assms commit_attempts [of en now key _ _ rid]
  by (fastforce simp: change_def Let_def split: sum.splits option.splits prod.splits if_splits)

section \<open>Driving a run ends\<close>

lemma settled_attempts: "settle_edit en is_live aid p err res v = Inr r \<Longrightarrow> rn_attempts r \<noteq> []"
  by (auto simp: settle_edit_def Let_def update_last_def split: if_splits)

lemma settle_change:
  "change en now k i (\<lambda>v. settle_edit en is_live aid (P v) err res v) upd s = ((None, r), t) \<Longrightarrow> rn_attempts r \<noteq> []"
  by (auto dest!: change_attempts settled_attempts)

lemma attempt_leaves_one:
  assumes "attempt en now r st is_live x m = ((None, r'), m')"
  shows "rn_attempts r' \<noteq> []"
  using assms by (auto simp: attempt_def Let_def split: if_splits prod.splits option.splits dest: settle_change)

text \<open>A round of the loop ends the run, unless the kind asks for a step and the step leaves the run live.\<close>

lemma drive_ends_unless_step:
  "(\<And>st. kind r \<noteq> KindStep st) \<Longrightarrow> \<exists>m'. \<forall>n. drive en now kind ex (Suc n) r m = Some m'"
  by (cases "worker_cancelled r m"; cases "kind r") (auto simp: Let_def)

lemma image_step_first: "image_kind dec r = KindStep st \<Longrightarrow> rn_attempts r = []"
  by (auto simp: image_kind_def split: if_splits)

text \<open>
  C13. The loop that drives an image run ends, whatever the engine, the store and the friend do: it takes one step and, on the
  second look, finishes the run with the output of the attempt; so it never makes a second attempt.
\<close>

theorem image_drive_ends: "\<exists>m'. \<forall>n. drive en now (image_kind dec) ex (Suc (Suc n)) r m = Some m'"
proof (cases "\<exists>st. image_kind dec r = KindStep st")
  case False
  then show ?thesis using drive_ends_unless_step [of "image_kind dec" r en now ex m] by blast
next
  case True
  then obtain st where st: "image_kind dec r = KindStep st" by blast
  obtain err r' m1 where a: "attempt en now r st False (ex r st) m = ((err, r'), m1)" by (cases "attempt en now r st False (ex r st) m") auto
  show ?thesis
  proof (cases "worker_cancelled r m \<or> err \<noteq> None \<or> terminal (rn_state r')")
    case True
    then show ?thesis using st a by (auto split: option.split)
  next
    case False
    then have e: "err = None" "\<not> worker_cancelled r m" "\<not> terminal (rn_state r')" by auto
    have "rn_attempts r' \<noteq> []" using attempt_leaves_one a e(1) by blast
    then have "\<And>st. image_kind dec r' \<noteq> KindStep st" using image_step_first by blast
    from drive_ends_unless_step [of "image_kind dec", OF this, of en now ex m1]
    show ?thesis using st a e by (simp add: Let_def)
  qed
qed

section \<open>Cancelling\<close>

lemma cancel_marks: "cancel_edit w p b = Inr r \<Longrightarrow> rn_cancel_requested r \<and> (\<not> w \<longrightarrow> rn_state r = Cancelled)"
  by (auto simp: cancel_edit_def Let_def split: if_splits)

context run_edit
begin

text \<open>An answered change committed the life the edit left.\<close>

lemma change_answer:
  assumes "store_ok s" "env_ok en" "change en now key rid fn upd s = ((None, r), t)"
  shows "\<exists>before r1. fn before = Inr r1 \<and> life r = life r1 \<and> map_of (sn_runs (data_of t key)) rid = Some r"
proof -
  obtain res s1 where ld: "load en now key s = (res, s1)" by fastforce
  note lo = load_ok [OF assms(1,2) ld]
  show ?thesis
  proof (cases rule: change_cases [OF assms(3) ld])
    case 1
    then show ?thesis by simp
  next
    case (2 v before r1 kept event e w)
    let ?d = "v\<lparr>sn_runs := AList.update rid (changed_run now before r1) (sn_runs v), sn_retained := kept\<rparr>"
    have e: "e = None" using 2(8) by (cases e) auto
    have l: "loaded s1 key v" by (rule lo(3) [OF 2(1)])
    then have "row_ok key (rid, run_row rid (data_of s1 key))"
      using edited_draft(3) [OF _ 2(2,3,4)] loaded_ok [OF lo(1) l] 2(2) by (auto simp: loaded_def row_def)
    then have "lives (sn_runs w) = lives (sn_runs ?d) \<or> lives (sn_runs w) = (lives (sn_runs ?d))(rid \<mapsto> (Failed, rn_cancel_requested (run_row rid ?d)))"
      using commit_lives [OF 2(6) [unfolded e]] by auto
    then have lw: "lives (sn_runs w) rid = Some (life r1) \<or> lives (sn_runs w) rid = Some (Failed, rn_cancel_requested r1)"
      by (auto simp: life_def)
    moreover have r: "r = run_row rid w" "rn_state r = rn_state r1" using 2(7) e by (auto split: if_splits)
    ultimately have "map_of (sn_runs w) rid = Some r" "life r = life r1"
      by (auto simp: lives_def row_def life_def split: option.splits)
    moreover have "data_of t key = w" using commit_success_data [OF 2(6) [unfolded e]] by (simp add: data_of_def)
    ultimately show ?thesis using 2(3) by auto
  qed
qed

end

lemma cancel_change:
  assumes "store_ok s" "env_ok en" "change en now key rid (\<lambda>v. cancel_edit w (P (rn_kind v)) v) None s = ((None, r), t)"
  shows "rn_cancel_requested r \<and> (\<not> w \<longrightarrow> rn_state r = Cancelled)"
  using cancelling.change_answer [OF assms] cancel_marks by (fastforce simp: life_def)

text \<open>
  A cancellation that is answered without an error has taken effect: the run the friend is shown has ended, or carries the
  mark and still has its worker; and a live run without a worker is cancelled at once.
\<close>

theorem cancel_takes_effect:
  assumes "store_ok (mg_store m)" "env_ok en" "cancel_run en now key rid m = ((None, r), m')"
  shows "terminal (rn_state r) \<or> rn_cancel_requested r \<and> has_worker rid m"
proof -
  obtain res s where g: "get_run en now key rid (mg_store m) = (res, s)" by fastforce
  obtain old where old: "res = Inr old" using assms(3) g by (cases res) (auto simp: cancel_run_def)
  show ?thesis
  proof (cases "terminal (rn_state old)")
    case True
    then show ?thesis using assms(3) g old by (auto simp: cancel_run_def Let_def)
  next
    case False
    have s: "store_ok s" using load_ok(1) [OF assms(1,2)] g by (auto simp: get_run_def split: prod.splits sum.splits option.splits)
    obtain err r1 s1 where c: "change en now key rid (\<lambda>v. cancel_edit (has_worker rid m) (mg_policies m (rn_kind v)) v) None s = ((err, r1), s1)"
      by (metis surj_pair)
    have w: "has_worker rid (m\<lparr>mg_store := s\<rparr>) = has_worker rid m" by (simp add: has_worker_def)
    have "err = None" "r1 = r"
      using assms(3) c False g old w by (auto simp: cancel_run_def Let_def split: if_splits)
    with cancel_change [OF s assms(2), of now key rid "has_worker rid m" "mg_policies m"] c show ?thesis by auto
  qed
qed

definition sample_manager :: manager where
  "sample_manager = \<lparr>mg_store = sample_store, mg_kinds = [''chat''], mg_policies = (\<lambda>_. no_policy), mg_active = [], mg_workers = 0,
     mg_closed = False, mg_started = True, mg_sweeping = False, mg_blocked = (\<lambda>_. 0), mg_quarantined = [], mg_releases = [],
     mg_released = [], mg_positions = (\<lambda>_. [])\<rparr>"

lemma sample_manager_sel [simp]:
  "mg_store sample_manager = sample_store" "mg_active sample_manager = []" "mg_policies sample_manager k = no_policy"
  "\<not> has_worker rid sample_manager"
  by (simp_all add: sample_manager_def has_worker_def has_row_def)

definition sample_touched :: run_store where
  "sample_touched = sample_store\<lparr>st_accessed := (st_accessed sample_store)(''k1'' := 6)\<rparr>"

lemma sample_touched_load: "load en 6 ''k1'' sample_touched = (Inr sample_snapshot, sample_touched)"
  by (simp add: load_def sample_touched_def)

lemma sample_cancel_change:
  "\<exists>r t. change sample_run_env 6 ''k1'' ''r_a'' (\<lambda>v. cancel_edit False (P (rn_kind v)) v) None sample_touched = ((None, r), t)
     \<and> rn_state r = Cancelled"
  by (simp add: change_def sample_touched_load cancel_edit_def edit_retained_def changed_run_def change_event_def lifecycle_def
      no_retained_def row_def Let_def,
    simp add: commit_for_def data_of_def staged_def drop_orphan_rows_def image_output_of_def Let_def log_events_def keep_last_def
      retained_budget_def row_def reserved_bytes_def store_budget_def run_limits terminal_bound_def write_snapshot_def sample_touched_def
      sample_snapshot_def new_snapshot_def state_event_def sample_store_def start_store_def new_store_def)

lemma sample_cancel: "\<exists>r m'. cancel_run sample_run_env 6 ''k1'' ''r_a'' sample_manager = ((None, r), m') \<and> rn_state r = Cancelled"
proof -
  have g: "get_run sample_run_env 6 ''k1'' ''r_a'' sample_store = (Inr sample_run, sample_touched)"
    by (simp add: get_run_def sample_load sample_touched_def)
  have w: "\<not> has_worker ''r_a'' (sample_manager\<lparr>mg_store := s\<rparr>)" for s by (simp add: sample_manager_def has_worker_def has_row_def)
  have p: "mg_policies (sample_manager\<lparr>mg_store := s\<rparr>) k = no_policy" for s k by simp
  show ?thesis using sample_cancel_change [of "\<lambda>_. no_policy"] by (auto simp: cancel_run_def g w p Let_def)
qed

theorem cancel_takes_effect_witness:
  "\<exists>r m'. cancel_run sample_run_env 6 ''k1'' ''r_a'' sample_manager = ((None, r), m') \<and> (terminal (rn_state r) \<or> rn_cancel_requested r \<and> has_worker ''r_a'' sample_manager)"
proof -
  obtain r m' where c: "cancel_run sample_run_env 6 ''k1'' ''r_a'' sample_manager = ((None, r), m')" using sample_cancel by blast
  from cancel_takes_effect [OF _ sample_run_env_ok c] c sample_store_ok show ?thesis by auto
qed

end
