(* ===== verification/Responses.thy ===== *)
theory Responses
  imports Body Run_Types
begin

text \<open>
  The request side of the Responses adapter (internal/gateway/responses.go): a stateless Responses request becomes a chat
  request. Only fields whose chat meaning is known are carried over, tools get one flat name each, and the table of
  those names lives for one request. SHA-256 is a parameter; \<open>tools\<close> is an association list from the flat name to the
  namespace and the name.
\<close>

section \<open>Helpers\<close>

definition bad_request :: "string \<Rightarrow> fmt_arg list \<Rightarrow> gw_error" where
  "bad_request fmt args = errf CodeInvalidRequest 0 fmt args"

text \<open>\<open>body[k] != nil\<close>: an absent member and a JSON null are both nil; \<open>str\<close> reads a text or gives none.\<close>

definition given :: "json option \<Rightarrow> json option" where
  "given v = (case v of Some JNull \<Rightarrow> None | _ \<Rightarrow> v)"

definition str_field :: "jobject \<Rightarrow> string \<Rightarrow> string" where "str_field m k = as_string (jget m k)"

definition and_then :: "'e + 'a \<Rightarrow> ('a \<Rightarrow> 'e + 'b) \<Rightarrow> 'e + 'b" where
  "and_then x f = (case x of Inl e \<Rightarrow> Inl e | Inr v \<Rightarrow> f v)"

lemma and_then_simps [simp]: "and_then (Inl e) f = Inl e" "and_then (Inr v) f = f v"
  by (simp_all add: and_then_def)

lemma and_then_Inr: "and_then x f = Inr y \<longleftrightarrow> (\<exists>v. x = Inr v \<and> f v = Inr y)"
  by (cases x) auto

fun first_error :: "'e option list \<Rightarrow> 'e option" where
  "first_error [] = None"
| "first_error (Some e # es) = Some e"
| "first_error (None # es) = first_error es"

lemma first_error_None: "first_error es = None \<longleftrightarrow> list_all (\<lambda>e. e = None) es"
  by (induction es rule: first_error.induct) auto

text \<open>A loop that may stop with an error.\<close>

fun try_fold :: "('a \<Rightarrow> 's \<Rightarrow> 'e + 's) \<Rightarrow> 'a list \<Rightarrow> 's \<Rightarrow> 'e + 's" where
  "try_fold f [] s = Inr s"
| "try_fold f (x # xs) s = and_then (f x s) (try_fold f xs)"

lemma try_fold_invariant:
  assumes "try_fold f xs s = Inr t" "P s" "\<And>x s t. x \<in> set xs \<Longrightarrow> P s \<Longrightarrow> f x s = Inr t \<Longrightarrow> P t"
  shows "P t"
  using assms by (induction xs arbitrary: s) (auto simp: and_then_Inr)

section \<open>Tool names\<close>

type_synonym tool_table = "(string \<times> string \<times> string) list"

definition valid_tool_name :: "string \<Rightarrow> bool" where
  "valid_tool_name s \<longleftrightarrow> s \<noteq> [] \<and> length s \<le> 64 \<and> list_all id_char s"

definition chat_tool_name :: "(string \<Rightarrow> string) \<Rightarrow> string \<Rightarrow> string \<Rightarrow> gw_error + string" where
  "chat_tool_name sha256 namespace name =
     (if \<not> valid_tool_name name \<or> (namespace \<noteq> [] \<and> \<not> valid_tool_name namespace) then
        Inl (bad_request (''function and namespace names must be 1'' @ [CHR 0xE2, CHR 0x80, CHR 0x93]
               @ ''64 ASCII letters, digits, underscores or hyphens'') [])
      else if namespace = [] then Inr name
      else Inr (''ns_'' @ hex_encode (take 16 (sha256 (namespace @ [CHR 0x00] @ name)))))"

definition adapter_name :: "(string \<Rightarrow> string) \<Rightarrow> string \<Rightarrow> string \<Rightarrow> tool_table \<Rightarrow> gw_error + string \<times> tool_table" where
  "adapter_name sha256 namespace name tools =
     and_then (chat_tool_name sha256 namespace name) (\<lambda>alias.
       case map_of tools alias of
         Some old \<Rightarrow>
           if old \<noteq> (namespace, name) then Inl (bad_request ''function names collide after namespace translation'' [])
           else Inr (alias, AList.update alias (namespace, name) tools)
       | None \<Rightarrow> Inr (alias, AList.update alias (namespace, name) tools))"

text \<open>\<open>historyName\<close>: the one declared function a past call may mean.\<close>

definition history_name :: "string \<Rightarrow> string \<Rightarrow> tool_table \<Rightarrow> gw_error + string" where
  "history_name namespace name tools =
     (case filter (\<lambda>(alias, ns, n). n = name \<and> (namespace = [] \<or> ns = namespace)) tools of
        [] \<Rightarrow> Inl (bad_request ''function %q in namespace %q has no matching declared function; check namespace history''
                     [FStr name, FStr namespace])
      | [(alias, _)] \<Rightarrow> Inr alias
      | _ \<Rightarrow> Inl (bad_request ''function %q is ambiguous across namespaces; include its namespace'' [FStr name]))"

definition unsupported_response_tool :: "string \<Rightarrow> gw_error" where
  "unsupported_response_tool kind =
     (if has_prefix ''web_search'' kind
      then bad_request (''hosted web search is not supported; in Codex 0.154.0 set web_search = '' @ quote ''disabled'') []
      else bad_request ''unsupported tool type %q; only client function tools are supported'' [FStr kind])"

section \<open>Fields\<close>

definition state_field_error :: "jobject \<Rightarrow> string \<Rightarrow> gw_error option" where
  "state_field_error body f =
     (if given (jget body f) = None then None
      else Some (bad_request ''%s is not supported; send store:false and the full input history'' [FStr f]))"

definition flag_error :: "jobject \<Rightarrow> string \<Rightarrow> gw_error option" where
  "flag_error body f =
     (case given (jget body f) of
        None \<Rightarrow> None
      | Some (JBool b) \<Rightarrow>
          if b \<and> f \<noteq> ''stream'' then Some (bad_request ''%s:true is not supported; this route is stateless'' [FStr f]) else None
      | Some _ \<Rightarrow> Some (bad_request ''%s must be a boolean'' [FStr f]))"

definition refused_state :: "jobject \<Rightarrow> gw_error option" where
  "refused_state body =
     first_error (map (state_field_error body) [''previous_response_id'', ''conversation'']
       @ map (flag_error body) [''store'', ''background'', ''stream''])"

definition copy_fields :: "string list \<Rightarrow> jobject \<Rightarrow> jobject \<Rightarrow> jobject" where
  "copy_fields ks source = fold (\<lambda>k m. case jget source k of Some v \<Rightarrow> jset k v m | None \<Rightarrow> m) ks"

definition copied_keys :: "string list" where
  "copied_keys = [''model'', ''stream'', ''temperature'', ''top_p'', ''parallel_tool_calls'']"

definition put_max_tokens :: "jobject \<Rightarrow> jobject \<Rightarrow> gw_error + jobject" where
  "put_max_tokens body chat =
     (case jget body ''max_output_tokens'' of
        None \<Rightarrow> Inr chat
      | Some (JNum n) \<Rightarrow>
          (case atoi n of
             Some c \<Rightarrow> if c \<le> 0 then Inl (bad_request ''max_output_tokens must be a positive integer'' [])
                       else Inr (jset ''max_tokens'' (JNum n) chat)
           | None \<Rightarrow> Inl (bad_request ''max_output_tokens must be a positive integer'' []))
      | Some _ \<Rightarrow> Inl (bad_request ''max_output_tokens must be a positive integer'' []))"

definition put_reasoning :: "jobject \<Rightarrow> jobject \<Rightarrow> gw_error + jobject" where
  "put_reasoning body chat =
     (case given (jget body ''reasoning'') of
        None \<Rightarrow> Inr chat
      | Some (JObj r) \<Rightarrow> Inr (case jget r ''effort'' of Some e \<Rightarrow> jset ''reasoning_effort'' e chat | None \<Rightarrow> chat)
      | Some _ \<Rightarrow> Inl (bad_request ''reasoning must be an object'' []))"

definition put_format :: "jobject \<Rightarrow> jobject \<Rightarrow> gw_error + jobject" where
  "put_format tx chat =
     (case given (jget tx ''format'') of
        None \<Rightarrow> Inr chat
      | Some (JObj format) \<Rightarrow>
          (let ty = str_field format ''type'' in
           if ty = ''text'' \<or> ty = ''json_object'' then Inr (jset ''response_format'' (JObj format) chat)
           else if ty = ''json_schema'' then
             Inr (jset ''response_format'' (JObj [(''type'', JStr ''json_schema''), (''json_schema'', JObj (jdel ''type'' format))]) chat)
           else Inl (bad_request ''unsupported text.format type'' []))
      | Some _ \<Rightarrow> Inl (bad_request ''text.format must be an object'' []))"

definition put_text :: "jobject \<Rightarrow> jobject \<Rightarrow> gw_error + jobject" where
  "put_text body chat =
     (case given (jget body ''text'') of
        None \<Rightarrow> Inr chat
      | Some (JObj tx) \<Rightarrow>
          and_then (put_format tx chat) (\<lambda>chat.
            Inr (case jget tx ''verbosity'' of Some v \<Rightarrow> jset ''verbosity'' v chat | None \<Rightarrow> chat))
      | Some _ \<Rightarrow> Inl (bad_request ''text must be an object'' []))"

section \<open>Tools\<close>

text \<open>The state of the loop: the table, the flattened tools and the names seen.\<close>

type_synonym tool_state = "tool_table \<times> json list \<times> string list"

definition chat_function :: "string \<Rightarrow> jobject \<Rightarrow> json" where
  "chat_function name tool =
     JObj [(''type'', JStr ''function''),
           (''function'', JObj (copy_fields [''description'', ''parameters'', ''strict''] tool [(''name'', JStr name)]))]"

definition add_tool :: "(string \<Rightarrow> string) \<Rightarrow> string \<Rightarrow> jobject \<Rightarrow> tool_state \<Rightarrow> gw_error + tool_state" where
  "add_tool sha256 namespace tool = (\<lambda>(tools, flat, seen).
     if str_field tool ''type'' \<noteq> ''function'' then Inl (unsupported_response_tool (str_field tool ''type''))
     else and_then (adapter_name sha256 namespace (str_field tool ''name'') tools) (\<lambda>(name, tools).
       if name \<in> set seen then Inl (bad_request ''duplicate function name'' [])
       else Inr (tools, flat @ [chat_function name tool], seen @ [name])))"

definition add_child :: "(string \<Rightarrow> string) \<Rightarrow> string \<Rightarrow> json \<Rightarrow> tool_state \<Rightarrow> gw_error + tool_state" where
  "add_child sha256 namespace child s =
     (case child of JObj tool \<Rightarrow> add_tool sha256 namespace tool s
      | _ \<Rightarrow> Inl (bad_request ''namespace function must be an object'' []))"

definition add_declared :: "(string \<Rightarrow> string) \<Rightarrow> json \<Rightarrow> tool_state \<Rightarrow> gw_error + tool_state" where
  "add_declared sha256 v s =
     (case v of
        JObj tool \<Rightarrow>
          if str_field tool ''type'' \<noteq> ''namespace'' then add_tool sha256 [] tool s
          else if \<not> valid_tool_name (str_field tool ''name'') then Inl (bad_request ''invalid tool namespace'' [])
          else (case jget tool ''tools'' of
                  Some (JArr children) \<Rightarrow> try_fold (add_child sha256 (str_field tool ''name'')) children s
                | _ \<Rightarrow> Inl (bad_request ''namespace.tools must be an array'' []))
      | _ \<Rightarrow> Inl (bad_request ''tool must be an object'' []))"

definition put_tools :: "(string \<Rightarrow> string) \<Rightarrow> jobject \<Rightarrow> jobject \<Rightarrow> gw_error + jobject \<times> tool_table" where
  "put_tools sha256 body chat =
     (case given (jget body ''tools'') of
        None \<Rightarrow> Inr (chat, [])
      | Some (JArr vs) \<Rightarrow>
          and_then (try_fold (add_declared sha256) vs ([], [], [])) (\<lambda>(tools, flat, seen). Inr (jset ''tools'' (JArr flat) chat, tools))
      | Some _ \<Rightarrow> Inl (bad_request ''tools must be an array'' []))"

definition put_choice :: "(string \<Rightarrow> string) \<Rightarrow> tool_table \<Rightarrow> jobject \<Rightarrow> jobject \<Rightarrow> gw_error + jobject" where
  "put_choice sha256 tools body chat =
     (case given (jget body ''tool_choice'') of
        None \<Rightarrow> Inr chat
      | Some (JStr c) \<Rightarrow>
          if c \<notin> {''auto'', ''none'', ''required''} then Inl (bad_request ''unsupported tool_choice'' [])
          else Inr (jset ''tool_choice'' (JStr c) chat)
      | Some (JObj c) \<Rightarrow>
          if str_field c ''type'' \<noteq> ''function'' then Inl (unsupported_response_tool (str_field c ''type''))
          else and_then (chat_tool_name sha256 (str_field c ''namespace'') (str_field c ''name'')) (\<lambda>name.
            if map_of tools name = None then Inl (bad_request ''tool_choice names an undeclared function'' [])
            else Inr (jset ''tool_choice'' (JObj [(''type'', JStr ''function''), (''function'', JObj [(''name'', JStr name)])]) chat))
      | Some _ \<Rightarrow> Inl (bad_request ''invalid tool_choice'' []))"

section \<open>Messages\<close>

definition response_part :: "json \<Rightarrow> gw_error + json" where
  "response_part v =
     (case v of
        JObj part \<Rightarrow>
          (let ty = str_field part ''type'' in
           if ty = ''input_text'' \<or> ty = ''output_text'' then
             (case jget part ''text'' of
                Some (JStr tx) \<Rightarrow> Inr (JObj [(''type'', JStr ''text''), (''text'', JStr tx)])
              | _ \<Rightarrow> Inl (bad_request ''text part needs text'' []))
           else if ty = ''input_image'' then
             (if str_field part ''image_url'' = [] then Inl (bad_request ''input_image needs image_url; file ids are not supported'' [])
              else Inr (JObj [(''type'', JStr ''image_url''),
                  (''image_url'', JObj (copy_fields [''detail''] part [(''url'', JStr (str_field part ''image_url''))]))]))
           else Inl (bad_request ''unsupported content part %q'' [FStr ty]))
      | _ \<Rightarrow> Inl (bad_request ''content part must be an object'' []))"

definition response_content :: "json option \<Rightarrow> gw_error + json" where
  "response_content v =
     (case v of
        Some (JStr s) \<Rightarrow> Inr (JStr s)
      | Some (JArr parts) \<Rightarrow>
          and_then (try_fold (\<lambda>p out. and_then (response_part p) (\<lambda>x. Inr (out @ [x]))) parts []) (\<lambda>out. Inr (JArr out))
      | _ \<Rightarrow> Inl (bad_request ''message or tool output content must be text or an array'' []))"

definition role_message :: "string \<Rightarrow> json \<Rightarrow> jobject" where
  "role_message role content = [(''role'', JStr role), (''content'', content)]"

text \<open>Adjacent calls are one assistant turn.\<close>

definition add_call :: "json \<Rightarrow> jobject list \<Rightarrow> jobject list" where
  "add_call call messages =
     (if messages \<noteq> [] then
        (case jget (last messages) ''tool_calls'' of
           Some (JArr calls) \<Rightarrow> butlast messages @ [jset ''tool_calls'' (JArr (calls @ [call])) (last messages)]
         | _ \<Rightarrow> messages @ [[(''role'', JStr ''assistant''), (''content'', JNull), (''tool_calls'', JArr [call])]])
      else [[(''role'', JStr ''assistant''), (''content'', JNull), (''tool_calls'', JArr [call])]])"

definition message_item :: "jobject \<Rightarrow> jobject list \<Rightarrow> gw_error + jobject list" where
  "message_item item messages =
     (let role = str_field item ''role'' in
      if role \<notin> {''user'', ''assistant'', ''system'', ''developer''} then Inl (bad_request ''unsupported message role'' [])
      else and_then (response_content (jget item ''content'')) (\<lambda>content.
        Inr (messages @ [role_message (if role = ''developer'' then ''system'' else role) content])))"

definition call_item :: "tool_table \<Rightarrow> jobject \<Rightarrow> jobject list \<Rightarrow> gw_error + jobject list" where
  "call_item tools item messages =
     and_then (history_name (str_field item ''namespace'') (str_field item ''name'') tools) (\<lambda>name.
       case jget item ''arguments'' of
         Some (JStr args) \<Rightarrow>
           if str_field item ''call_id'' = [] then Inl (bad_request ''function_call needs call_id and string arguments'' [])
           else Inr (add_call (JObj [(''id'', JStr (str_field item ''call_id'')), (''type'', JStr ''function''),
                  (''function'', JObj [(''name'', JStr name), (''arguments'', JStr args)])]) messages)
       | _ \<Rightarrow> Inl (bad_request ''function_call needs call_id and string arguments'' []))"

definition output_item :: "jobject \<Rightarrow> jobject list \<Rightarrow> gw_error + jobject list" where
  "output_item item messages =
     (if str_field item ''call_id'' = [] then Inl (bad_request ''function_call_output needs call_id'' [])
      else and_then (response_content (jget item ''output'')) (\<lambda>content.
        Inr (messages @ [[(''role'', JStr ''tool''), (''tool_call_id'', JStr (str_field item ''call_id'')), (''content'', content)]])))"

definition input_item :: "tool_table \<Rightarrow> json \<Rightarrow> jobject list \<Rightarrow> gw_error + jobject list" where
  "input_item tools v messages =
     (case v of
        JObj item \<Rightarrow>
          (let ty = str_field item ''type'' in
           if ty = ''reasoning'' then Inr messages
           else if ty = [] \<or> ty = ''message'' then message_item item messages
           else if ty = ''function_call'' then call_item tools item messages
           else if ty = ''function_call_output'' then output_item item messages
           else Inl (bad_request ''unsupported input item type %q'' [FStr ty]))
      | _ \<Rightarrow> Inl (bad_request ''input item must be an object'' []))"

definition instruction_messages :: "jobject \<Rightarrow> gw_error + jobject list" where
  "instruction_messages body =
     (case given (jget body ''instructions'') of
        None \<Rightarrow> Inr []
      | Some (JStr s) \<Rightarrow> Inr [role_message ''system'' (JStr s)]
      | Some _ \<Rightarrow> Inl (bad_request ''instructions must be text'' []))"

definition input_messages :: "tool_table \<Rightarrow> jobject \<Rightarrow> jobject list \<Rightarrow> gw_error + jobject list" where
  "input_messages tools body messages =
     (case jget body ''input'' of
        Some (JStr s) \<Rightarrow> Inr (messages @ [role_message ''user'' (JStr s)])
      | Some (JArr vs) \<Rightarrow> try_fold (input_item tools) vs messages
      | _ \<Rightarrow> Inl (bad_request ''input must be text or an array of items'' []))"

section \<open>The translation\<close>

definition translate_responses :: "(string \<Rightarrow> string) \<Rightarrow> jobject \<Rightarrow> gw_error + jobject \<times> tool_table" where
  "translate_responses sha256 body =
     (case refused_state body of Some e \<Rightarrow> Inl e | None \<Rightarrow>
      and_then (put_max_tokens body (copy_fields copied_keys body [])) (\<lambda>chat.
      and_then (put_reasoning body chat) (\<lambda>chat.
      and_then (put_text body chat) (\<lambda>chat.
      and_then (put_tools sha256 body chat) (\<lambda>(chat, tools).
      and_then (put_choice sha256 tools body chat) (\<lambda>chat.
      and_then (instruction_messages body) (\<lambda>messages.
      and_then (input_messages tools body messages) (\<lambda>messages.
        Inr (jset ''messages'' (JArr (map JObj messages)) chat, tools)))))))))"

section \<open>What reaches the engine\<close>

definition chat_fields :: "string set" where
  "chat_fields = {''model'', ''stream'', ''temperature'', ''top_p'', ''parallel_tool_calls'', ''max_tokens'', ''reasoning_effort'',
     ''response_format'', ''verbosity'', ''tools'', ''tool_choice'', ''messages''}"

definition only_chat_fields :: "jobject \<Rightarrow> bool" where "only_chat_fields m \<longleftrightarrow> fst ` set m \<subseteq> chat_fields"

lemma keys_jset: "fst ` set (jset k v m) = insert k (fst ` set m)"
  by (simp add: dom_update)

lemma only_jset [simp]: "only_chat_fields (jset k v m) \<longleftrightarrow> k \<in> chat_fields \<and> only_chat_fields m"
  by (simp add: only_chat_fields_def keys_jset)

lemma only_copy: "only_chat_fields m \<Longrightarrow> set ks \<subseteq> chat_fields \<Longrightarrow> only_chat_fields (copy_fields ks source m)"
  unfolding copy_fields_def by (induction ks arbitrary: m) (auto split: option.splits)

lemma chat_field [simp]:
  "''max_tokens'' \<in> chat_fields" "''reasoning_effort'' \<in> chat_fields" "''response_format'' \<in> chat_fields" "''verbosity'' \<in> chat_fields"
  "''tools'' \<in> chat_fields" "''tool_choice'' \<in> chat_fields" "''messages'' \<in> chat_fields"
  by (simp_all add: chat_fields_def)

lemma put_fields:
  "put_max_tokens body chat = Inr c \<Longrightarrow> only_chat_fields chat \<Longrightarrow> only_chat_fields c"
  "put_reasoning body chat = Inr c \<Longrightarrow> only_chat_fields chat \<Longrightarrow> only_chat_fields c"
  "put_format tx chat = Inr c \<Longrightarrow> only_chat_fields chat \<Longrightarrow> only_chat_fields c"
  "put_choice sha256 tools body chat = Inr c \<Longrightarrow> only_chat_fields chat \<Longrightarrow> only_chat_fields c"
  by (auto simp: put_max_tokens_def put_reasoning_def put_format_def put_choice_def and_then_Inr Let_def
      split: option.splits json.splits if_splits)

lemma put_text_fields: "put_text body chat = Inr c \<Longrightarrow> only_chat_fields chat \<Longrightarrow> only_chat_fields c"
  unfolding put_text_def by (cases "given (jget body ''text'')") (auto simp: and_then_Inr put_fields(3) split: option.splits json.splits)

lemma put_tools_fields: "put_tools sha256 body chat = Inr (c, tools) \<Longrightarrow> only_chat_fields chat \<Longrightarrow> only_chat_fields c"
  by (auto simp: put_tools_def and_then_Inr split: option.splits json.splits)

lemma translate_stages:
  assumes "translate_responses sha256 body = Inr (chat, tools)"
  obtains c1 c2 c3 c4 c5 ms1 ms where "refused_state body = None"
    "put_max_tokens body (copy_fields copied_keys body []) = Inr c1" "put_reasoning body c1 = Inr c2" "put_text body c2 = Inr c3"
    "put_tools sha256 body c3 = Inr (c4, tools)" "put_choice sha256 tools body c4 = Inr c5"
    "instruction_messages body = Inr ms1" "input_messages tools body ms1 = Inr ms" "chat = jset ''messages'' (JArr (map JObj ms)) c5"
  using assms by (auto simp: translate_responses_def and_then_Inr split: option.splits)

text \<open>
  Nothing of a Responses request reaches the engine outside the fields of a chat request that are known to mean the same: no
  engine override, no state of the Responses API. And a request that asks for state the route does not keep is refused: what is
  translated names no previous response and no conversation, and does not ask to be stored or run in the background.
\<close>

theorem responses_fields_known:
  assumes "translate_responses sha256 body = Inr (chat, tools)"
  shows "fst ` set chat \<subseteq> chat_fields
    \<and> (\<forall>f \<in> {''previous_response_id'', ''conversation''}. given (jget body f) = None)
    \<and> (\<forall>f \<in> {''store'', ''background''}. given (jget body f) \<in> {None, Some (JBool False)})"
proof -
  obtain c1 c2 c3 c4 c5 ms1 ms where st: "refused_state body = None"
    "put_max_tokens body (copy_fields copied_keys body []) = Inr c1" "put_reasoning body c1 = Inr c2" "put_text body c2 = Inr c3"
    "put_tools sha256 body c3 = Inr (c4, tools)" "put_choice sha256 tools body c4 = Inr c5"
    "chat = jset ''messages'' (JArr (map JObj ms)) c5"
    by (rule translate_stages [OF assms])
  have "only_chat_fields (copy_fields copied_keys body [])"
    by (rule only_copy) (auto simp: only_chat_fields_def copied_keys_def chat_fields_def)
  then have "only_chat_fields c5"
    using put_fields(1) [OF st(2)] put_fields(2) [OF st(3)] put_text_fields [OF st(4)] put_tools_fields [OF st(5)] put_fields(4) [OF st(6)]
    by blast
  then have "only_chat_fields chat" using st(7) by simp
  moreover have "\<forall>f \<in> {''previous_response_id'', ''conversation''}. given (jget body f) = None"
    using st(1) by (auto simp: refused_state_def first_error_None state_field_error_def split: if_splits)
  moreover have "\<forall>f \<in> {''store'', ''background''}. given (jget body f) \<in> {None, Some (JBool False)}"
    using st(1) by (auto simp: refused_state_def first_error_None flag_error_def split: option.splits json.splits if_splits)
  ultimately show ?thesis by (simp add: only_chat_fields_def)
qed

definition sample_responses :: jobject where
  "sample_responses = [(''input'', JStr ''hi''), (''stop'', JStr ''x''), (''store'', JBool False),
     (''tools'', JArr [JObj [(''type'', JStr ''function''), (''name'', JStr ''look'')]])]"

lemma sample_responses_chat:
  "\<exists>chat. translate_responses sha256 sample_responses = Inr (chat, [(''look'', [], ''look'')])"
  by (simp add: translate_responses_def sample_responses_def refused_state_def state_field_error_def flag_error_def given_def
    put_max_tokens_def put_reasoning_def put_text_def put_tools_def put_choice_def instruction_messages_def input_messages_def
    copied_keys_def copy_fields_def add_declared_def add_tool_def adapter_name_def chat_tool_name_def str_field_def
    valid_tool_name_def id_char_def byte_def)

theorem responses_fields_known_witness:
  "\<exists>chat tools. translate_responses (\<lambda>x. x) sample_responses = Inr (chat, tools) \<and> fst ` set chat \<subseteq> chat_fields"
  using sample_responses_chat [of "\<lambda>x. x"] responses_fields_known by blast

section \<open>The table of names\<close>

definition table_ok :: "(string \<Rightarrow> string) \<Rightarrow> tool_table \<Rightarrow> bool" where
  "table_ok sha256 tools \<longleftrightarrow> distinct (map fst tools) \<and> list_all (\<lambda>(alias, ns, n). chat_tool_name sha256 ns n = Inr alias) tools"

definition tool_state_ok :: "(string \<Rightarrow> string) \<Rightarrow> tool_state \<Rightarrow> bool" where
  "tool_state_ok sha256 = (\<lambda>(tools, flat, seen). table_ok sha256 tools \<and> distinct seen \<and> set seen = fst ` set tools
     \<and> map (\<lambda>t. str_field (as_object (jget (as_object (Some t)) ''function'')) ''name'') flat = seen)"

lemma copy_fields_keeps: "k \<notin> set ks \<Longrightarrow> jget (copy_fields ks source m) k = jget m k"
  unfolding copy_fields_def by (induction ks arbitrary: m) (auto split: option.splits)

lemma chat_function_name: "str_field (as_object (jget (as_object (Some (chat_function name tool))) ''function'')) ''name'' = name"
  by (simp add: chat_function_def str_field_def copy_fields_keeps)

lemma table_ok_update:
  "table_ok sha256 tools \<Longrightarrow> chat_tool_name sha256 ns n = Inr alias \<Longrightarrow> table_ok sha256 (AList.update alias (ns, n) tools)"
proof -
  assume *: "table_ok sha256 tools" "chat_tool_name sha256 ns n = Inr alias"
  have "list_all P (AList.update k v m)" if "list_all P m" "P (k, v)" for P k v and m :: tool_table
    using that by (induction m) auto
  then show ?thesis using * by (simp add: table_ok_def distinct_update)
qed

lemma add_tool_ok:
  assumes "add_tool sha256 namespace tool s = Inr t" "tool_state_ok sha256 s"
  shows "tool_state_ok sha256 t"
proof -
  obtain tools flat seen where s: "s = (tools, flat, seen)" by (cases s)
  obtain name tools' where a: "adapter_name sha256 namespace (str_field tool ''name'') tools = Inr (name, tools')"
    and t: "t = (tools', flat @ [chat_function name tool], seen @ [name])" "name \<notin> set seen"
    using assms(1) by (auto simp: add_tool_def s and_then_Inr split: if_splits)
  have n: "chat_tool_name sha256 namespace (str_field tool ''name'') = Inr name" "tools' = AList.update name (namespace, str_field tool ''name'') tools"
    using a by (auto simp: adapter_name_def and_then_Inr split: option.splits if_splits)
  show ?thesis using assms(2) t table_ok_update [OF _ n(1)]
    by (auto simp: tool_state_ok_def s n(2) dom_update chat_function_name)
qed

lemma add_declared_ok:
  assumes "add_declared sha256 v s = Inr t" "tool_state_ok sha256 s"
  shows "tool_state_ok sha256 t"
proof -
  have child: "tool_state_ok sha256 b" if "add_child sha256 ns c a = Inr b" "tool_state_ok sha256 a" for ns c a b
    using that add_tool_ok by (auto simp: add_child_def split: json.splits)
  show ?thesis using assms add_tool_ok child
    by (auto simp: add_declared_def split: json.splits option.splits if_splits elim!: try_fold_invariant)
qed

lemma translated_table:
  assumes "translate_responses sha256 body = Inr (chat, tools)"
  shows "table_ok sha256 tools"
proof -
  obtain c3 c4 where "put_tools sha256 body c3 = Inr (c4, tools)" by (rule translate_stages [OF assms])
  moreover have "table_ok sha256 ts" if "try_fold (add_declared sha256) vs ([], [], []) = Inr (ts, flat, seen)" for vs ts flat seen
  proof -
    have "tool_state_ok sha256 ([], [], [])" by (simp add: tool_state_ok_def table_ok_def)
    from try_fold_invariant [where P = "tool_state_ok sha256", OF that this]
    have "tool_state_ok sha256 (ts, flat, seen)" using add_declared_ok by blast
    then show ?thesis by (simp add: tool_state_ok_def)
  qed
  ultimately show ?thesis
    by (auto simp: put_tools_def and_then_Inr table_ok_def split: option.splits json.splits)
qed

lemma filter_single: "distinct xs \<Longrightarrow> a \<in> set xs \<Longrightarrow> P a \<Longrightarrow> (\<And>x. x \<in> set xs \<Longrightarrow> P x \<Longrightarrow> x = a) \<Longrightarrow> filter P xs = [a]"
proof (induction xs)
  case (Cons x xs)
  show ?case
  proof (cases "x = a")
    case True
    have "\<forall>y \<in> set xs. \<not> P y" using Cons.prems(1,4) True by (metis distinct.simps(2) list.set_intros(2))
    then have "filter P xs = []" by (simp add: filter_empty_conv)
    then show ?thesis using True Cons.prems(3) by simp
  next
    case False
    then have "\<not> P x" using Cons.prems(4) [of x] by (metis list.set_intros(1))
    moreover have "a \<in> set xs" using Cons.prems(2) False by simp
    ultimately show ?thesis using Cons.IH Cons.prems(1,3,4) by (metis distinct.simps(2) filter.simps(2) list.set_intros(2))
  qed
qed simp



end
