(* ===== verification/Responses_Output.thy ===== *)
theory Responses_Output
  imports Responses Relay
begin

text \<open>
  The reply side of the Responses adapter (internal/gateway/responses_stream.go): the engine's chat chunks become the items of a
  response, streamed as events or given as one body. An item is known by its place in the list of items (the code keeps
  pointers). The encoder, the random ids and the friend's connection are parameters.
\<close>

section \<open>Items, calls and the output\<close>

record response_item =
  it_payload :: string
  it_id :: string
  it_type :: string
  it_status :: string
  it_role :: string
  it_content :: "jobject list"
  it_summary :: "jobject list"
  it_call_id :: string
  it_name :: string
  it_namespace :: string
  it_arguments :: string

definition item_json :: "response_item \<Rightarrow> json" where
  "item_json i =
     (let base = [(''id'', JStr (it_id i)), (''type'', JStr (it_type i)), (''status'', JStr (it_status i))] in
      JObj (if it_type i = ''message'' then base @ [(''role'', JStr (it_role i)), (''content'', JArr (map JObj (it_content i)))]
        else if it_type i = ''reasoning'' then base @ [(''summary'', JArr (map JObj (it_summary i)))]
        else if it_type i = ''function_call'' then
          base @ [(''call_id'', JStr (it_call_id i)), (''name'', JStr (it_name i)), (''arguments'', JStr (it_arguments i))]
            @ (if it_namespace i \<noteq> [] then [(''namespace'', JStr (it_namespace i))] else [])
        else base))"

record response_call =
  rl_name :: string
  rl_id :: string
  rl_item :: "nat option"

record response_output =
  ro_saw_choice :: bool
  ro_id :: string
  ro_items :: "response_item list"
  ro_text :: "nat option"
  ro_reasoning :: "nat option"
  ro_refusal :: "nat option"
  ro_calls :: "(int \<times> response_call) list"
  ro_finish_reason :: string
  ro_seq :: nat
  ro_usage :: "usage_t option"
  ro_emit :: bool
  ro_drawn :: nat

text \<open>
  The engine's chunk, with what the adapter reads beyond the meter. \<open>ck_error\<close> is the raw error member.
\<close>

record chat_tool_call =
  tc_index :: int
  tc_id :: string
  tc_type :: string
  tc_name :: string
  tc_arguments :: string

record chat_choice =
  cc_index :: int
  cc_delta :: chat_delta
  cc_tool_calls :: "chat_tool_call list"
  cc_finish_reason :: "string option"

record chat_chunk =
  ck_usage :: "usage_t option"
  ck_choices :: "chat_choice list"
  ck_error :: "string option"

definition metered_chunk :: "chat_chunk \<Rightarrow> sse_chunk" where
  "metered_chunk ch = \<lparr>sc_usage = ck_usage ch,
     sc_choices = map (\<lambda>c. (cc_delta c)\<lparr>cd_tool_arguments := map tc_arguments (cc_tool_calls c)\<rparr>) (ck_choices ch)\<rparr>"

text \<open>
  What the adapter is given: the encoder (its length, or no encoding), the connection at each event, random texts,
  the table of tool names, and the two decoders.
\<close>

record adapter_env =
  av_encoded :: "json \<Rightarrow> nat option"
  av_io :: friend_io
  av_random :: "nat \<Rightarrow> string"
  av_tools :: tool_table
  av_decode_chunk :: "string \<Rightarrow> chat_chunk option"
  av_decode_reply :: "string \<Rightarrow> chat_chunk option"

type_synonym outgoing = "response_output \<times> request"

definition response_id :: "adapter_env \<Rightarrow> string \<Rightarrow> response_output \<Rightarrow> string \<times> response_output" where
  "response_id av prefix o1 = (prefix @ ''_'' @ av_random av (ro_drawn o1), o1\<lparr>ro_drawn := ro_drawn o1 + 1\<rparr>)"

definition new_response_output :: "adapter_env \<Rightarrow> bool \<Rightarrow> response_output" where
  "new_response_output av emit =
     \<lparr>ro_saw_choice = False, ro_id = ''resp_'' @ av_random av 0, ro_items = [], ro_text = None, ro_reasoning = None, ro_refusal = None,
      ro_calls = [], ro_finish_reason = [], ro_seq = 0, ro_usage = None, ro_emit = emit, ro_drawn = 1\<rparr>"

section \<open>The envelope and the events\<close>

definition unix_seconds :: "gotime \<Rightarrow> int" where "unix_seconds t = t div second - 62135596800"

definition incomplete_reason :: "string \<Rightarrow> string" where
  "incomplete_reason fr =
     (if fr = [] then ''missing_finish_reason'' else if fr = ''length'' then ''max_output_tokens''
      else if fr = ''content_filter'' then ''content_filter'' else ''unknown_finish_reason'')"

definition usage_json :: "usage_t \<Rightarrow> event \<Rightarrow> json" where
  "usage_json u ev =
     JObj [(''input_tokens'', JNum (itoa (ev_prompt_tokens ev))), (''output_tokens'', JNum (itoa (ev_completion_tokens ev))),
           (''total_tokens'', JNum (itoa (ev_prompt_tokens ev + ev_completion_tokens ev))),
           (''input_tokens_details'', JObj [(''cached_tokens'', JNum (itoa (ut_cached u)))]),
           (''output_tokens_details'', JObj [(''reasoning_tokens'', JNum (itoa (ut_reasoning u)))])]"

definition envelope :: "string \<Rightarrow> outgoing \<Rightarrow> jobject" where
  "envelope status = (\<lambda>(o1, q).
     let v = [(''id'', JStr (ro_id o1)), (''object'', JStr ''response''), (''created_at'', JNum (itoa (unix_seconds (rq_start q)))),
              (''status'', JStr status), (''model'', JStr (n_model (rq_n q))), (''output'', JArr (map item_json (ro_items o1))),
              (''store'', JBool False), (''error'', JNull), (''incomplete_details'', JNull)];
         v = (case ro_usage o1 of
                Some u \<Rightarrow> if status \<noteq> ''in_progress'' then jset ''usage'' (usage_json u (rq_ev q)) v else v
              | None \<Rightarrow> v)
     in if status = ''incomplete''
        then jset ''incomplete_details'' (JObj [(''reason'', JStr (incomplete_reason (ro_finish_reason o1)))]) v else v)"

definition event_head :: "string \<Rightarrow> string" where "event_head kind = ''event: '' @ kind @ [CHR 0x0A] @ ''data: ''"

definition write_event :: "string \<Rightarrow> jobject \<Rightarrow> request \<Rightarrow> request" where
  "write_event kind fs q =
     q\<lparr>rq_writer := write_piece (PText nl2) (write_piece (PJson (JObj fs)) (write_piece (PText (event_head kind)) (rq_writer q)))\<rparr>"

definition response_event :: "adapter_env \<Rightarrow> string \<Rightarrow> jobject \<Rightarrow> outgoing \<Rightarrow> gw_error option \<times> outgoing" where
  "response_event av kind fs = (\<lambda>(o1, q).
     if \<not> ro_emit o1 then (None, o1, q)
     else
       (let fs = fs @ [(''type'', JStr kind), (''sequence_number'', JNum (itoa (int (ro_seq o1)))), (''response_id'', JStr (ro_id o1))];
            (now, writes, flushes) = av_io av (ro_seq o1);
            o1 = o1\<lparr>ro_seq := ro_seq o1 + 1\<rparr>
        in case av_encoded av (JObj fs) of
             None \<Rightarrow> (Some (errf CodeUpstreamError 0 ''could not encode response event'' []), o1, q)
           | Some n \<Rightarrow>
               if n > max_upstream_body then (Some (errf CodeUpstreamError 0 ''engine response exceeds the output size limit'' []), o1, q)
               else if \<not> writes then (Some closed_reading, o1, q)
               else if \<not> flushes then (Some closed_reading, o1, write_event kind fs q)
               else (None, o1, mark_ttft now (write_event kind fs q))))"

definition item_fields :: "nat \<Rightarrow> response_output \<Rightarrow> jobject" where
  "item_fields i o1 = [(''item_id'', JStr (it_id (ro_items o1 ! i))), (''output_index'', JNum (itoa (int i)))]"

text \<open>\<open>add\<close>: the item goes to the end, so its place is the number of items before.\<close>

definition add_item :: "adapter_env \<Rightarrow> response_item \<Rightarrow> outgoing \<Rightarrow> gw_error option \<times> outgoing" where
  "add_item av item = (\<lambda>(o1, q).
     let i = length (ro_items o1); o1 = o1\<lparr>ro_items := ro_items o1 @ [item]\<rparr>
     in response_event av ''response.output_item.added'' (item_fields i o1 @ [(''item'', item_json item)]) (o1, q))"

definition update_item :: "nat \<Rightarrow> (response_item \<Rightarrow> response_item) \<Rightarrow> response_output \<Rightarrow> response_output" where
  "update_item i f o1 = o1\<lparr>ro_items := (ro_items o1)[i := f (ro_items o1 ! i)]\<rparr>"

section \<open>Deltas\<close>

datatype delta_kind = DeltaText | DeltaReasoning | DeltaRefusal

definition kind_slot :: "delta_kind \<Rightarrow> response_output \<Rightarrow> nat option" where
  "kind_slot k o1 = (case k of DeltaText \<Rightarrow> ro_text o1 | DeltaReasoning \<Rightarrow> ro_reasoning o1 | DeltaRefusal \<Rightarrow> ro_refusal o1)"

definition set_slot :: "delta_kind \<Rightarrow> nat \<Rightarrow> response_output \<Rightarrow> response_output" where
  "set_slot k i o1 =
     (case k of DeltaText \<Rightarrow> o1\<lparr>ro_text := Some i\<rparr> | DeltaReasoning \<Rightarrow> o1\<lparr>ro_reasoning := Some i\<rparr> | DeltaRefusal \<Rightarrow> o1\<lparr>ro_refusal := Some i\<rparr>)"

definition kind_item_type :: "delta_kind \<Rightarrow> string" where
  "kind_item_type k = (if k = DeltaReasoning then ''reasoning'' else ''message'')"

definition kind_prefix :: "delta_kind \<Rightarrow> string" where
  "kind_prefix k = (case k of DeltaText \<Rightarrow> ''response.output_text'' | DeltaReasoning \<Rightarrow> ''response.reasoning_summary_text''
     | DeltaRefusal \<Rightarrow> ''response.refusal'')"

definition part_index :: "delta_kind \<Rightarrow> string" where
  "part_index k = (if k = DeltaReasoning then ''summary_index'' else ''content_index'')"

definition kind_part :: "delta_kind \<Rightarrow> jobject" where
  "kind_part k =
     (case k of
        DeltaText \<Rightarrow> [(''type'', JStr ''output_text''), (''text'', JStr []), (''annotations'', JArr [])]
      | DeltaReasoning \<Rightarrow> [(''type'', JStr ''summary_text''), (''text'', JStr [])]
      | DeltaRefusal \<Rightarrow> [(''type'', JStr ''refusal''), (''refusal'', JStr [])])"

definition no_item :: "string \<Rightarrow> string \<Rightarrow> response_item" where
  "no_item iid ty = \<lparr>it_payload = [], it_id = iid, it_type = ty, it_status = ''in_progress'',
     it_role = (if ty = ''message'' then ''assistant'' else []), it_content = [], it_summary = [], it_call_id = [], it_name = [],
     it_namespace = [], it_arguments = []\<rparr>"

definition add_part :: "delta_kind \<Rightarrow> response_item \<Rightarrow> response_item" where
  "add_part k i =
     (if k = DeltaReasoning then i\<lparr>it_summary := it_summary i @ [kind_part k]\<rparr> else i\<lparr>it_content := it_content i @ [kind_part k]\<rparr>)"

text \<open>The first delta of a kind opens its item: the item, then its one part.\<close>

definition open_item :: "adapter_env \<Rightarrow> delta_kind \<Rightarrow> outgoing \<Rightarrow> gw_error option \<times> outgoing" where
  "open_item av k = (\<lambda>(o1, q).
     let (iid, o1) = response_id av ''item'' o1; i = length (ro_items o1) in
     case add_item av (no_item iid (kind_item_type k)) (set_slot k i o1, q) of
       (Some e, s) \<Rightarrow> (Some e, s)
     | (None, o1, q) \<Rightarrow>
         (let o1 = update_item i (add_part k) o1 in
          response_event av
            (if k = DeltaReasoning then ''response.reasoning_summary_part.added'' else ''response.content_part.added'')
            (item_fields i o1 @ [(part_index k, JNum ''0''), (''part'', JObj (kind_part k))]) (o1, q)))"

definition append_payload :: "string \<Rightarrow> response_item \<Rightarrow> response_item" where
  "append_payload tx i = i\<lparr>it_payload := it_payload i @ tx\<rparr>"

definition extend_item :: "adapter_env \<Rightarrow> delta_kind \<Rightarrow> string \<Rightarrow> outgoing \<Rightarrow> gw_error option \<times> outgoing" where
  "extend_item av k tx = (\<lambda>(o1, q).
     let i = (case kind_slot k o1 of Some i \<Rightarrow> i | None \<Rightarrow> 0); o1 = update_item i (append_payload tx) o1
     in response_event av (kind_prefix k @ ''.delta'') (item_fields i o1 @ [(part_index k, JNum ''0''), (''delta'', JStr tx)]) (o1, q))"

definition text_delta :: "adapter_env \<Rightarrow> delta_kind \<Rightarrow> string \<Rightarrow> outgoing \<Rightarrow> gw_error option \<times> outgoing" where
  "text_delta av k tx s =
     (if tx = [] then (None, s)
      else case (if kind_slot k (fst s) = None then open_item av k s else (None, s)) of
        (Some e, s) \<Rightarrow> (Some e, s)
      | (None, s) \<Rightarrow> extend_item av k tx s)"

text \<open>A function call becomes an item when its first argument bytes arrive, or at the end.\<close>

definition put_call :: "int \<Rightarrow> response_call \<Rightarrow> response_output \<Rightarrow> response_output" where
  "put_call i c o1 = o1\<lparr>ro_calls := AList.update i c (ro_calls o1)\<rparr>"

definition start_call :: "adapter_env \<Rightarrow> int \<Rightarrow> response_call \<Rightarrow> outgoing \<Rightarrow> gw_error option \<times> outgoing" where
  "start_call av i c = (\<lambda>(o1, q).
     if rl_item c \<noteq> None then (None, o1, q)
     else
       (let (ns, name) = (case map_of (av_tools av) (rl_name c) of Some original \<Rightarrow> original | None \<Rightarrow> ([], rl_name c));
            (cid, o1) = (if rl_id c = [] then response_id av ''call'' o1 else (rl_id c, o1));
            o1 = put_call i (c\<lparr>rl_id := cid\<rparr>) o1
        in if list_ex (\<lambda>(j, d). j \<noteq> i \<and> rl_item d \<noteq> None \<and> rl_id d = cid) (ro_calls o1)
           then (Some (errf CodeUpstreamError 0 ''engine reused a function call id'' []), o1, q)
           else
             (let (iid, o1) = response_id av ''fc'' o1;
                  o1 = put_call i (c\<lparr>rl_id := cid, rl_item := Some (length (ro_items o1))\<rparr>) o1
              in add_item av ((no_item iid ''function_call'')\<lparr>it_call_id := cid, it_name := name, it_namespace := ns\<rparr>) (o1, q))))"

definition named_call :: "chat_tool_call \<Rightarrow> response_call \<Rightarrow> gw_error + response_call" where
  "named_call d c =
     (if rl_item c \<noteq> None then
        (if (tc_name d \<noteq> [] \<and> tc_name d \<noteq> rl_name c) \<or> (tc_id d \<noteq> [] \<and> tc_id d \<noteq> rl_id c)
         then Inl (errf CodeUpstreamError 0 ''engine changed a function identity after arguments started'' []) else Inr c)
      else Inr (c\<lparr>rl_name := (if tc_name d \<noteq> rl_name c then rl_name c @ tc_name d else rl_name c),
                  rl_id := (if tc_id d \<noteq> rl_id c then rl_id c @ tc_id d else rl_id c)\<rparr>))"

definition call_of :: "int \<Rightarrow> response_output \<Rightarrow> response_call" where
  "call_of i o1 = (case map_of (ro_calls o1) i of Some c \<Rightarrow> c | None \<Rightarrow> \<lparr>rl_name = [], rl_id = [], rl_item = None\<rparr>)"

definition arguments_delta :: "adapter_env \<Rightarrow> int \<Rightarrow> string \<Rightarrow> outgoing \<Rightarrow> gw_error option \<times> outgoing" where
  "arguments_delta av j args = (\<lambda>(o1, q).
     let i = (case rl_item (call_of j o1) of Some i \<Rightarrow> i | None \<Rightarrow> 0); o1 = update_item i (append_payload args) o1
     in response_event av ''response.function_call_arguments.delta'' (item_fields i o1 @ [(''delta'', JStr args)]) (o1, q))"

definition tool_delta :: "adapter_env \<Rightarrow> chat_tool_call \<Rightarrow> outgoing \<Rightarrow> gw_error option \<times> outgoing" where
  "tool_delta av d = (\<lambda>(o1, q).
     if tc_type d \<noteq> [] \<and> tc_type d \<noteq> ''function'' then (Some (errf CodeUpstreamError 0 ''engine returned a non-function tool call'' []), o1, q)
     else if tc_index d < 0 then (Some (errf CodeUpstreamError 0 ''engine returned an invalid tool index'' []), o1, q)
     else
       (let o1 = put_call (tc_index d) (call_of (tc_index d) o1) o1 in
        case named_call d (call_of (tc_index d) o1) of
          Inl e \<Rightarrow> (Some e, o1, q)
        | Inr c \<Rightarrow>
            (let o1 = put_call (tc_index d) c o1 in
             if tc_arguments d = [] then (None, o1, q)
             else (case start_call av (tc_index d) c (o1, q) of
                     (Some e, s) \<Rightarrow> (Some e, s)
                   | (None, s) \<Rightarrow> arguments_delta av (tc_index d) (tc_arguments d) s))))"

section \<open>Chunks\<close>

text \<open>Steps run one after the other until one fails.\<close>

fun run_steps :: "(outgoing \<Rightarrow> gw_error option \<times> outgoing) list \<Rightarrow> outgoing \<Rightarrow> gw_error option \<times> outgoing" where
  "run_steps [] s = (None, s)"
| "run_steps (f # fs) s = (case f s of (Some e, s) \<Rightarrow> (Some e, s) | (None, s) \<Rightarrow> run_steps fs s)"

definition empty_delta :: "chat_choice \<Rightarrow> bool" where
  "empty_delta c \<longleftrightarrow> cd_content (cc_delta c) = [] \<and> delta_reasoning (cc_delta c) = [] \<and> cd_refusal (cc_delta c) = [] \<and> cc_tool_calls c = []"

definition choice_steps :: "adapter_env \<Rightarrow> chat_choice \<Rightarrow> (outgoing \<Rightarrow> gw_error option \<times> outgoing) list" where
  "choice_steps av c =
     [text_delta av DeltaReasoning (delta_reasoning (cc_delta c)), text_delta av DeltaText (cd_content (cc_delta c)),
      text_delta av DeltaRefusal (cd_refusal (cc_delta c))]
     @ map (tool_delta av) (cc_tool_calls c)
     @ [\<lambda>(o1, q). (None, case cc_finish_reason c of Some fr \<Rightarrow> o1\<lparr>ro_finish_reason := fr\<rparr> | None \<Rightarrow> o1, q)]"

definition response_choice :: "adapter_env \<Rightarrow> chat_choice \<Rightarrow> outgoing \<Rightarrow> gw_error option \<times> outgoing" where
  "response_choice av c = (\<lambda>(o1, q).
     let o1 = o1\<lparr>ro_saw_choice := True\<rparr> in
     if ro_finish_reason o1 \<noteq> [] \<and> cc_index c = 0 \<and> empty_delta c then (None, o1, q)
     else if cc_index c \<noteq> 0 \<or> ro_finish_reason o1 \<noteq> [] then
       (Some (errf CodeUpstreamError 0 ''engine sent a choice after response finalisation'' []), o1, q)
     else run_steps (choice_steps av c) (o1, q))"

definition response_chunk :: "adapter_env \<Rightarrow> chat_chunk \<Rightarrow> outgoing \<Rightarrow> gw_error option \<times> outgoing" where
  "response_chunk av ch = (\<lambda>(o1, q).
     if ck_error ch \<noteq> None \<and> ck_error ch \<noteq> Some ''null'' then
       (Some (errf CodeUpstreamError 0 ''engine reported a stream error'' []), o1, q)
     else
       (let o1 = (if ck_usage ch \<noteq> None then o1\<lparr>ro_usage := ck_usage ch\<rparr> else o1) in
        if length (ck_choices ch) > 1 then
          (Some (errf CodeUpstreamError 0 ''engine returned multiple choices for one response'' []), o1, q)
        else run_steps (map (response_choice av) (ck_choices ch)) (o1, q)))"

section \<open>Completing the response\<close>

definition item_parts :: "response_item \<Rightarrow> jobject list" where
  "item_parts i = (if it_type i = ''reasoning'' then it_summary i else it_content i)"

definition set_part :: "nat \<Rightarrow> jobject \<Rightarrow> response_item \<Rightarrow> response_item" where
  "set_part j part i =
     (if it_type i = ''reasoning'' then i\<lparr>it_summary := (it_summary i)[j := part]\<rparr> else i\<lparr>it_content := (it_content i)[j := part]\<rparr>)"

definition part_key :: "jobject \<Rightarrow> string" where
  "part_key part = (if str_field part ''type'' = ''refusal'' then ''refusal'' else ''text'')"

definition part_prefix :: "response_item \<Rightarrow> jobject \<Rightarrow> string" where
  "part_prefix i part =
     (if str_field part ''type'' = ''refusal'' then ''response.refusal''
      else if it_type i = ''reasoning'' then ''response.reasoning_summary_text'' else ''response.output_text'')"

definition part_done :: "adapter_env \<Rightarrow> nat \<Rightarrow> nat \<Rightarrow> outgoing \<Rightarrow> gw_error option \<times> outgoing" where
  "part_done av i j = (\<lambda>(o1, q).
     let item = ro_items o1 ! i; old = item_parts item ! j;
         part = jset (part_key old) (JStr (it_payload item)) old;
         idx = (if it_type item = ''reasoning'' then ''summary_index'' else ''content_index'');
         o1 = update_item i (set_part j part) o1
     in run_steps
          [\<lambda>(o1, q). response_event av (part_prefix item old @ ''.done'')
             (item_fields i o1 @ [(idx, JNum (itoa (int j))), (part_key old, JStr (it_payload item))]) (o1, q),
           \<lambda>(o1, q). response_event av
             (if it_type item = ''reasoning'' then ''response.reasoning_summary_part.done'' else ''response.content_part.done'')
             (item_fields i o1 @ [(idx, JNum (itoa (int j))), (''part'', JObj part)]) (o1, q)]
          (o1, q))"

definition arguments_done :: "adapter_env \<Rightarrow> nat \<Rightarrow> outgoing \<Rightarrow> gw_error option \<times> outgoing" where
  "arguments_done av i = (\<lambda>(o1, q).
     let o1 = update_item i (\<lambda>x. x\<lparr>it_arguments := it_payload x\<rparr>) o1; item = ro_items o1 ! i
     in response_event av ''response.function_call_arguments.done''
          (item_fields i o1 @ [(''arguments'', JStr (it_arguments item)), (''name'', JStr (it_name item))]) (o1, q))"

definition item_done :: "adapter_env \<Rightarrow> string \<Rightarrow> nat \<Rightarrow> outgoing \<Rightarrow> gw_error option \<times> outgoing" where
  "item_done av status i = (\<lambda>(o1, q).
     let o1 = update_item i (\<lambda>x. x\<lparr>it_status := status\<rparr>) o1
     in response_event av ''response.output_item.done'' (item_fields i o1 @ [(''item'', item_json (ro_items o1 ! i))]) (o1, q))"

definition finish_item :: "adapter_env \<Rightarrow> string \<Rightarrow> nat \<Rightarrow> outgoing \<Rightarrow> gw_error option \<times> outgoing" where
  "finish_item av status i s =
     (let item = ro_items (fst s) ! i in
      run_steps
        ((if it_type item = ''message'' \<or> it_type item = ''reasoning'' then map (part_done av i) [0..<length (item_parts item)]
          else if it_type item = ''function_call'' then [arguments_done av i] else [])
         @ [item_done av status i]) s)"

definition response_status :: "string \<Rightarrow> string" where
  "response_status fr = (if fr = ''stop'' \<or> fr = ''tool_calls'' then ''completed'' else ''incomplete'')"

definition sorted_call_indices :: "(int \<times> response_call) list \<Rightarrow> int list" where
  "sorted_call_indices calls = sort (map fst calls)"

definition start_pending :: "adapter_env \<Rightarrow> int \<Rightarrow> outgoing \<Rightarrow> gw_error option \<times> outgoing" where
  "start_pending av i = (\<lambda>(o1, q). start_call av i (call_of i o1) (o1, q))"

definition complete :: "adapter_env \<Rightarrow> outgoing \<Rightarrow> (gw_error + jobject) \<times> outgoing" where
  "complete av s =
     (if \<not> ro_saw_choice (fst s) then (Inl (errf CodeUpstreamError 0 ''engine returned no response choice'' []), s)
      else
        (let status = response_status (ro_finish_reason (fst s)) in
         case run_steps (map (start_pending av) (sorted_call_indices (ro_calls (fst s)))) s of
           (Some e, s) \<Rightarrow> (Inl e, s)
         | (None, s) \<Rightarrow>
             (case run_steps (map (finish_item av status) [0..<length (ro_items (fst s))]) s of
                (Some e, s) \<Rightarrow> (Inl e, s)
              | (None, s) \<Rightarrow>
                  (let v = envelope status s in
                   case response_event av (''response.'' @ status) [(''response'', JObj v)] s of
                     (Some e, s) \<Rightarrow> (Inl e, s)
                   | (None, s) \<Rightarrow> (Inr v, s)))))"

section \<open>The two replies\<close>

text \<open>
  Reading the engine's stream: the data lines of an event are joined, and an empty line ends it. The body is cut one byte
  past its limit; \<open>noticed\<close> is the read at which the buffered reader has taken that last byte.
\<close>

record response_stream =
  rs_data :: string
  rs_done :: bool
  rs_meter :: stream_meter
  rs_out :: outgoing

definition too_large :: gw_error where "too_large = errf CodeUpstreamError 0 ''engine response exceeds the output size limit'' []"

definition consume :: "adapter_env \<Rightarrow> bool \<Rightarrow> response_stream \<Rightarrow> gw_error option \<times> response_stream" where
  "consume av log_prompts st =
     (let payload = trim_space (rs_data st); st = st\<lparr>rs_data := []\<rparr> in
      if payload = [] then (None, st)
      else if rs_done st then (Some (errf CodeUpstreamError 0 ''engine sent data after stream end'' []), st)
      else if payload = ''[DONE]'' then (None, st\<lparr>rs_done := True\<rparr>)
      else
        (case av_decode_chunk av payload of
           None \<Rightarrow> (Some (errf CodeUpstreamError 0 ''engine returned invalid stream JSON'' []), st)
         | Some ch \<Rightarrow>
             (let (o1, q) = rs_out st; (m, ev) = observe log_prompts (metered_chunk ch) (rs_meter st, rq_ev q);
                  (e, out) = response_chunk av ch (o1, q\<lparr>rq_ev := ev\<rparr>)
              in (e, st\<lparr>rs_meter := m, rs_out := out\<rparr>))))"

definition read_stream_line :: "adapter_env \<Rightarrow> bool \<Rightarrow> string \<Rightarrow> response_stream \<Rightarrow> gw_error option \<times> response_stream" where
  "read_stream_line av log_prompts l st =
     (let l = trim_line_end l in
      if l = [] then consume av log_prompts st
      else case cut_prefix ''data:'' l of
        None \<Rightarrow> (None, st)
      | Some v \<Rightarrow> (None, st\<lparr>rs_data := rs_data st @ (case cut_prefix '' '' v of Some w \<Rightarrow> w | None \<Rightarrow> v) @ [CHR 0x0A]\<rparr>))"

fun read_stream_lines ::
    "adapter_env \<Rightarrow> bool \<Rightarrow> (nat \<Rightarrow> bool) \<Rightarrow> nat \<Rightarrow> string list \<Rightarrow> response_stream \<Rightarrow> gw_error option \<times> response_stream" where
  "read_stream_lines av log_prompts over i [] st = (None, st)"
| "read_stream_lines av log_prompts over i (l # ls) st =
     (if over i then (Some too_large, st)
      else case read_stream_line av log_prompts l st of
        (Some e, st) \<Rightarrow> (Some e, st)
      | (None, st) \<Rightarrow> if rs_done st then (None, st) else read_stream_lines av log_prompts over (i + 1) ls st)"

definition read_stream_end ::
    "adapter_env \<Rightarrow> bool \<Rightarrow> bool \<Rightarrow> bool \<Rightarrow> string \<Rightarrow> string \<Rightarrow> stream_end \<Rightarrow> response_stream \<Rightarrow> gw_error option \<times> response_stream" where
  "read_stream_end av log_prompts over gone idle_timeout rest ends st =
     (if rs_done st then (None, st)
      else if over then (Some too_large, st)
      else case read_stream_line av log_prompts rest st of
        (Some e, st) \<Rightarrow> (Some e, st)
      | (None, st) \<Rightarrow>
          (case ends of
             StreamError idle timed_out \<Rightarrow> (Some (upstream_err gone idle idle_timeout timed_out), st)
           | StreamEof \<Rightarrow> consume av log_prompts st))"

definition read_stream ::
    "adapter_env \<Rightarrow> bool \<Rightarrow> string \<Rightarrow> nat \<Rightarrow> bool \<Rightarrow> engine_response \<Rightarrow> response_stream \<Rightarrow> gw_error option \<times> response_stream" where
  "read_stream av log_prompts idle_timeout noticed gone resp st =
     (let large = (length (er_body resp) > max_upstream_body);
          (ls, rest) = stream_lines [] (take (max_upstream_body + 1) (er_body resp))
      in case read_stream_lines av log_prompts (\<lambda>i. large \<and> noticed \<le> i) 0 ls st of
           (Some e, st) \<Rightarrow> (Some e, st)
         | (None, st) \<Rightarrow> read_stream_end av log_prompts large gone idle_timeout rest (er_end resp) st)"

definition begin_events :: "adapter_env \<Rightarrow> (outgoing \<Rightarrow> gw_error option \<times> outgoing) list" where
  "begin_events av = map (\<lambda>kind s. response_event av kind [(''response'', JObj (envelope ''in_progress'' s))] s)
     [''response.created'', ''response.in_progress'']"

definition stream_outcome :: "bool \<Rightarrow> gw_error option \<Rightarrow> response_stream \<Rightarrow> gw_error option \<times> outgoing" where
  "stream_outcome log_prompts e st =
     (let (o1, q) = rs_out st; q = q\<lparr>rq_ev := meter_finish log_prompts (rs_meter st) (rq_ev q)\<rparr>
      in (e, o1, if e \<noteq> None then q\<lparr>rq_outcome := OutcomeCut\<rparr> else q))"

definition pipe_responses_stream ::
    "adapter_env \<Rightarrow> bool \<Rightarrow> string \<Rightarrow> nat \<Rightarrow> bool \<Rightarrow> engine_response \<Rightarrow> request \<Rightarrow> gw_error option \<times> outgoing" where
  "pipe_responses_stream av log_prompts idle_timeout noticed gone resp q =
     (let q = (if \<not> rq_wrote_header q then stream_head q else q);
          st = \<lparr>rs_data = [], rs_done = False, rs_meter = new_meter, rs_out = (new_response_output av True, q)\<rparr>
      in case run_steps (begin_events av) (rs_out st) of
           (Some e, out) \<Rightarrow> stream_outcome log_prompts (Some e) (st\<lparr>rs_out := out\<rparr>)
         | (None, out) \<Rightarrow>
             (case read_stream av log_prompts idle_timeout noticed gone resp (st\<lparr>rs_out := out\<rparr>) of
                (Some e, st) \<Rightarrow> stream_outcome log_prompts (Some e) st
              | (None, st) \<Rightarrow>
                  if gone then stream_outcome log_prompts (Some (errf CodeClientClosed 0 ''client went away'' [])) st
                  else if \<not> rs_done st \<and> ro_finish_reason (fst (rs_out st)) = [] then
                    stream_outcome log_prompts (Some (errf CodeUpstreamError 0 ''engine stream ended before completion'' [])) st
                  else
                    (let (o1, q) = rs_out st; q = q\<lparr>rq_ev := meter_finish log_prompts (rs_meter st) (rq_ev q)\<rparr>;
                         (v, out) = complete av (o1, q)
                     in stream_outcome log_prompts (case v of Inl e \<Rightarrow> Some e | Inr _ \<Rightarrow> None) (st\<lparr>rs_out := out\<rparr>))))"

definition number_calls :: "chat_choice \<Rightarrow> chat_choice" where
  "number_calls c = c\<lparr>cc_tool_calls := map (\<lambda>(i, d). d\<lparr>tc_index := int i\<rparr>) (List.enumerate 0 (cc_tool_calls c))\<rparr>"

definition body_reply ::
    "adapter_env \<Rightarrow> bool \<Rightarrow> string \<Rightarrow> request \<Rightarrow> gw_error option \<times> response_output option \<times> request" where
  "body_reply av log_prompts raw q =
     (if length raw > max_upstream_body then (Some too_large, None, q)
      else case av_decode_reply av raw of
        None \<Rightarrow> (Some (errf CodeUpstreamError 0 ''engine returned an invalid chat response'' []), None, q)
      | Some chat \<Rightarrow>
          (let q = q\<lparr>rq_ev := apply_usage (ck_usage chat) (rq_ev q)\<rparr> in
           if length (ck_choices chat) \<noteq> 1 \<or> (ck_error chat \<noteq> None \<and> ck_error chat \<noteq> Some ''null'') then
             (Some (errf CodeUpstreamError 0 ''engine returned an invalid chat response'' []), None, q)
           else
             (let c = number_calls (hd (ck_choices chat));
                  q = (if log_prompts then q\<lparr>rq_ev := (rq_ev q)\<lparr>ev_completion := cd_content (cc_delta c)\<rparr>\<rparr> else q);
                  o1 = (new_response_output av False)\<lparr>ro_usage := ck_usage chat\<rparr>
              in case response_chunk av \<lparr>ck_usage = None, ck_choices = [c], ck_error = None\<rparr> (o1, q) of
                   (Some e, o1, q) \<Rightarrow> (Some e, Some o1, q)
                 | (None, s) \<Rightarrow>
                     (case complete av s of
                        (Inl e, o1, q) \<Rightarrow> (Some e, Some o1, q)
                      | (Inr v, o1, q) \<Rightarrow>
                          (case av_encoded av (JObj v) of
                             None \<Rightarrow> (Some (errf CodeUpstreamError 0 ''could not encode response'' []), Some o1, q)
                           | Some n \<Rightarrow>
                               if n > max_upstream_body then (Some too_large, Some o1, q)
                               else
                                 (let (now, writes, flushes) = av_io av 0;
                                      w = set_header ''Content-Length'' (itoa (int n)) (set_header ''Content-Type'' ''application/json'' (rq_writer q));
                                      q = mark_ttft now (write_header 200 (q\<lparr>rq_writer := w\<rparr>))
                                  in if \<not> writes then (Some closed_reading, Some o1, q\<lparr>rq_outcome := OutcomeCut\<rparr>)
                                     else (None, Some o1, q\<lparr>rq_writer := write_piece (PJson (JObj v)) (rq_writer q), rq_outcome := OutcomeNone\<rparr>)))))))"

definition pipe_responses_body ::
    "adapter_env \<Rightarrow> bool \<Rightarrow> string \<Rightarrow> bool \<Rightarrow> engine_response \<Rightarrow> request \<Rightarrow> gw_error option \<times> response_output option \<times> request" where
  "pipe_responses_body av log_prompts idle_timeout gone resp q =
     (let (raw, failed) = read_limited (max_upstream_body + 1) resp in
      case failed of
        Some (idle, timed_out) \<Rightarrow>
          (Some (upstream_err gone idle idle_timeout timed_out), None, q\<lparr>rq_outcome := (if gone then OutcomeCut else OutcomeEngineErr)\<rparr>)
      | None \<Rightarrow> body_reply av log_prompts raw (q\<lparr>rq_outcome := OutcomeEngineErr\<rparr>))"

text \<open>\<open>relay\<close> for a Responses request, and \<open>failResponses\<close> with the output the reply had reached, if any.\<close>

definition pipe_responses ::
    "adapter_env \<Rightarrow> bool \<Rightarrow> string \<Rightarrow> nat \<Rightarrow> bool \<Rightarrow> engine_response \<Rightarrow> request \<Rightarrow> gw_error option \<times> response_output option \<times> request" where
  "pipe_responses av log_prompts idle_timeout noticed gone resp q =
     (if n_stream (rq_n q)
      then (case pipe_responses_stream av log_prompts idle_timeout noticed gone resp q of (e, o1, q) \<Rightarrow> (e, Some o1, q))
      else pipe_responses_body av log_prompts idle_timeout gone resp q)"

definition fail_responses :: "adapter_env \<Rightarrow> response_output option \<Rightarrow> gw_error \<Rightarrow> request \<Rightarrow> request" where
  "fail_responses av reached e q =
     (let o1 = (case reached of Some o1 \<Rightarrow> o1 | None \<Rightarrow> new_response_output av True);
          v = jset ''error'' (case jget (as_object (Some (error_json e True))) ''error'' of Some x \<Rightarrow> x | None \<Rightarrow> JNull)
                (jset ''output'' (JArr []) (envelope ''failed'' (o1, q)))
      in snd (snd (response_event av ''response.failed'' [(''response'', JObj v)] (o1, q))))"

end
