(* ===== verification/Responses_Stream.thy ===== *)
theory Responses_Stream
  imports Responses_Output
begin

text \<open>
  What a client of the Responses adapter can rely on: the events of a stream are numbered from zero without a gap, the deltas of
  every item add up to its final text, and a reply streamed in pieces comes to the same items as the reply given whole.
\<close>

section \<open>The events on the wire\<close>

text \<open>An event as it is written: its kind and its fields.\<close>

type_synonym wire_event = "string \<times> jobject"

definition event_pieces :: "wire_event \<Rightarrow> piece list" where
  "event_pieces e = [PText (event_head (fst e)), PJson (JObj (snd e)), PText nl2]"

definition sequence_number :: "wire_event \<Rightarrow> json option" where "sequence_number e = jget (snd e) ''sequence_number''"

text \<open>What an event adds to the item at place \<open>i\<close>.\<close>

definition delta_at :: "nat \<Rightarrow> wire_event \<Rightarrow> string" where
  "delta_at i e =
     (if jget (snd e) ''output_index'' = Some (JNum (itoa (int i)))
      then (case jget (snd e) ''delta'' of Some (JStr d) \<Rightarrow> d | _ \<Rightarrow> []) else [])"

definition payload_at :: "nat \<Rightarrow> response_item list \<Rightarrow> string" where
  "payload_at i items = (if i < length items then it_payload (items ! i) else [])"

definition numbered :: "wire_event list \<Rightarrow> bool" where
  "numbered es \<longleftrightarrow> (\<forall>n < length es. sequence_number (es ! n) = Some (JNum (itoa (int n))))"

definition adds_up :: "wire_event list \<Rightarrow> response_item list \<Rightarrow> bool" where
  "adds_up es items \<longleftrightarrow> (\<forall>i. concat (map (delta_at i) es) = payload_at i items)"

definition slots_ok :: "response_output \<Rightarrow> bool" where
  "slots_ok o1 \<longleftrightarrow> (\<forall>k i. kind_slot k o1 = Some i \<longrightarrow> i < length (ro_items o1))
     \<and> (\<forall>j c i. map_of (ro_calls o1) j = Some c \<longrightarrow> rl_item c = Some i \<longrightarrow> i < length (ro_items o1))"

definition stream_inv :: "piece list \<Rightarrow> wire_event list \<Rightarrow> outgoing \<Rightarrow> bool" where
  "stream_inv base es = (\<lambda>(o1, q). ro_emit o1 \<and> wr_body (rq_writer q) = base @ concat (map event_pieces es)
     \<and> length es = ro_seq o1 \<and> numbered es \<and> adds_up es (ro_items o1) \<and> slots_ok o1)"

definition keeps_stream :: "(outgoing \<Rightarrow> gw_error option \<times> outgoing) \<Rightarrow> bool" where
  "keeps_stream f \<longleftrightarrow> (\<forall>base es s t. stream_inv base es s \<longrightarrow> f s = (None, t) \<longrightarrow> (\<exists>es'. stream_inv base (es @ es') t))"

lemma keeps_streamD: "keeps_stream f \<Longrightarrow> stream_inv base es s \<Longrightarrow> f s = (None, t) \<Longrightarrow> \<exists>es'. stream_inv base (es @ es') t"
  unfolding keeps_stream_def by blast

lemma keeps_run_steps: "(\<And>f. f \<in> set fs \<Longrightarrow> keeps_stream f) \<Longrightarrow> keeps_stream (run_steps fs)"
proof (induction fs)
  case Nil
  show ?case unfolding keeps_stream_def by (metis append_Nil2 prod.inject run_steps.simps(1))
next
  case (Cons f fs)
  show ?case unfolding keeps_stream_def
  proof (intro allI impI)
    fix base es s t assume *: "stream_inv base es s" "run_steps (f # fs) s = (None, t)"
    obtain e u where f: "f s = (e, u)" by (metis surj_pair)
    then have e: "e = None" and r: "run_steps fs u = (None, t)" using *(2) by (auto split: option.splits)
    have "keeps_stream f" "keeps_stream (run_steps fs)" using Cons by simp_all
    then obtain es1 es2 where "stream_inv base (es @ es1) u" "stream_inv base ((es @ es1) @ es2) t"
      using keeps_streamD [OF _ *(1)] keeps_streamD r f [unfolded e] by meson
    then show "\<exists>es'. stream_inv base (es @ es') t" by (metis append_assoc)
  qed
qed

lemma itoa_nat_eq [simp]: "itoa (int i) = itoa (int j) \<longleftrightarrow> i = j"
  by (metis digits_value_digits itoa_def nat_int of_nat_less_0_iff)

text \<open>One event: it is written with the next number.\<close>

definition stamped_fields :: "string \<Rightarrow> jobject \<Rightarrow> response_output \<Rightarrow> jobject" where
  "stamped_fields kind fs o1 =
     fs @ [(''type'', JStr kind), (''sequence_number'', JNum (itoa (int (ro_seq o1)))), (''response_id'', JStr (ro_id o1))]"

lemma mark_ttft_writer [simp]: "rq_writer (mark_ttft t q) = rq_writer q"
  by (simp add: mark_ttft_def)

lemma event_written:
  assumes "response_event av kind fs (o1, q) = (None, o2, q2)" "ro_emit o1"
  shows "o2 = o1\<lparr>ro_seq := ro_seq o1 + 1\<rparr> \<and>
    wr_body (rq_writer q2) = wr_body (rq_writer q) @ event_pieces (kind, stamped_fields kind fs o1)"
  using assms
  by (auto simp: response_event_def Let_def write_event_def event_pieces_def stamped_fields_def split: prod.splits option.splits if_splits)

lemma numbered_snoc: "numbered es \<Longrightarrow> sequence_number e = Some (JNum (itoa (int (length es)))) \<Longrightarrow> numbered (es @ [e])"
  by (auto simp: numbered_def nth_append less_Suc_eq)

lemma event_keeps:
  assumes ev: "response_event av kind fs (o1, q) = (None, o2, q2)"
    and o1: "ro_emit o1" "wr_body (rq_writer q) = base @ concat (map event_pieces es)" "length es = ro_seq o1" "numbered es" "slots_ok o1"
    and fs: "jget fs ''sequence_number'' = None" and up: "adds_up (es @ [(kind, stamped_fields kind fs o1)]) (ro_items o1)"
  shows "stream_inv base (es @ [(kind, stamped_fields kind fs o1)]) (o2, q2)"
proof -
  let ?e = "(kind, stamped_fields kind fs o1)"
  have "sequence_number ?e = Some (JNum (itoa (int (length es))))"
    using fs o1(3) by (simp add: sequence_number_def stamped_fields_def map_add_def)
  then have "numbered (es @ [?e])" by (rule numbered_snoc [OF o1(4)])
  moreover have "slots_ok o2" using o1(5) event_written [OF ev o1(1)] by (simp add: slots_ok_def kind_slot_def split: delta_kind.splits)
  ultimately show ?thesis using event_written [OF ev o1(1)] o1 up by (simp add: stream_inv_def)
qed

text \<open>An event without a delta, and one with the delta of an item.\<close>

lemma quiet_step:
  assumes inv: "stream_inv base es (o1, q)" and ev: "response_event av kind fs (o2, q) = (None, t)"
    and o2: "ro_emit o2 = ro_emit o1" "ro_seq o2 = ro_seq o1" "\<And>i. payload_at i (ro_items o2) = payload_at i (ro_items o1)" "slots_ok o2"
    and fs: "jget fs ''sequence_number'' = None" "jget fs ''delta'' = None"
  shows "\<exists>es'. stream_inv base (es @ es') t"
proof -
  obtain o3 q3 where t: "t = (o3, q3)" by (cases t)
  have "jget (stamped_fields kind fs o2) ''delta'' = None" using fs by (simp add: stamped_fields_def map_add_def)
  then have up: "adds_up (es @ [(kind, stamped_fields kind fs o2)]) (ro_items o2)"
    using inv by (simp add: stream_inv_def adds_up_def delta_at_def o2(3))
  have "stream_inv base (es @ [(kind, stamped_fields kind fs o2)]) (o3, q3)"
    by (rule event_keeps [OF ev [unfolded t] _ _ _ _ o2(4) fs(1) up]) (use inv o2 in \<open>simp_all add: stream_inv_def\<close>)
  then show ?thesis unfolding t by blast
qed

lemma delta_step:
  assumes inv: "stream_inv base es (o1, q)" and ev: "response_event av kind fs (o2, q) = (None, t)"
    and o2: "ro_emit o2 = ro_emit o1" "ro_seq o2 = ro_seq o1" "slots_ok o2"
      "\<And>j. payload_at j (ro_items o2) = payload_at j (ro_items o1) @ (if j = i then tx else [])"
    and fs: "jget fs ''sequence_number'' = None" "jget fs ''delta'' = Some (JStr tx)" "jget fs ''output_index'' = Some (JNum (itoa (int i)))"
  shows "\<exists>es'. stream_inv base (es @ es') t"
proof -
  obtain o3 q3 where t: "t = (o3, q3)" by (cases t)
  have "jget (stamped_fields kind fs o2) ''delta'' = Some (JStr tx)" "jget (stamped_fields kind fs o2) ''output_index'' = Some (JNum (itoa (int i)))"
    using fs by (simp_all add: stamped_fields_def map_add_def)
  then have "delta_at j (kind, stamped_fields kind fs o2) = (if j = i then tx else [])" for j
    by (auto simp: delta_at_def)
  then have up: "adds_up (es @ [(kind, stamped_fields kind fs o2)]) (ro_items o2)"
    using inv by (simp add: stream_inv_def adds_up_def o2(4))
  have "stream_inv base (es @ [(kind, stamped_fields kind fs o2)]) (o3, q3)"
    by (rule event_keeps [OF ev [unfolded t] _ _ _ _ o2(3) fs(1) up]) (use inv o2 in \<open>simp_all add: stream_inv_def\<close>)
  then show ?thesis unfolding t by blast
qed

section \<open>Every step keeps them\<close>

lemma item_fields_get [simp]:
  "jget (item_fields i o1) ''sequence_number'' = None" "jget (item_fields i o1) ''delta'' = None"
  "jget (item_fields i o1) ''output_index'' = Some (JNum (itoa (int i)))"
  by (simp_all add: item_fields_def)

lemma payload_append: "it_payload item = [] \<Longrightarrow> payload_at i (items @ [item]) = payload_at i items"
  by (auto simp: payload_at_def nth_append less_Suc_eq)

lemma payload_update:
  "payload_at j (ro_items (update_item i f o1)) =
     (if i < length (ro_items o1) \<and> j = i then it_payload (f (ro_items o1 ! i)) else payload_at j (ro_items o1))"
  by (auto simp: payload_at_def update_item_def nth_list_update)

lemma payload_same:
  "(\<And>x. it_payload (f x) = it_payload x) \<Longrightarrow> payload_at j (ro_items (update_item i f o1)) = payload_at j (ro_items o1)"
  by (simp add: payload_update) (simp add: payload_at_def)

lemma update_item_sel [simp]:
  "length (ro_items (update_item i f o1)) = length (ro_items o1)" "ro_emit (update_item i f o1) = ro_emit o1"
  "ro_seq (update_item i f o1) = ro_seq o1" "kind_slot k (update_item i f o1) = kind_slot k o1" "ro_calls (update_item i f o1) = ro_calls o1"
  "ro_finish_reason (update_item i f o1) = ro_finish_reason o1" "ro_saw_choice (update_item i f o1) = ro_saw_choice o1"
  by (auto simp: update_item_def kind_slot_def split: delta_kind.splits)

lemma slots_update [simp]: "slots_ok (update_item i f o1) = slots_ok o1"
  by (simp add: slots_ok_def)

lemma no_item_payload [simp]: "it_payload (no_item iid ty) = []"
  by (simp add: no_item_def)

lemma add_item_keeps:
  assumes inv: "stream_inv base es (o1, q)" and a: "add_item av item (o2, q) = (None, t)" and p: "it_payload item = []"
    and o2: "ro_emit o2 = ro_emit o1" "ro_seq o2 = ro_seq o1" "ro_items o2 = ro_items o1"
    and sl: "slots_ok (o2\<lparr>ro_items := ro_items o2 @ [item]\<rparr>)"
  shows "\<exists>es'. stream_inv base (es @ es') t"
  by (rule quiet_step [OF inv a [unfolded add_item_def prod.case Let_def]])
    (use o2 p sl in \<open>simp_all add: payload_append map_add_def\<close>)

lemma kind_slot_set [simp]: "kind_slot k' (set_slot k i o1) = (if k' = k then Some i else kind_slot k' o1)"
  by (auto simp: kind_slot_def set_slot_def split: delta_kind.splits)

lemma set_slot_sel [simp]:
  "ro_items (set_slot k i o1) = ro_items o1" "ro_emit (set_slot k i o1) = ro_emit o1" "ro_seq (set_slot k i o1) = ro_seq o1"
  "ro_calls (set_slot k i o1) = ro_calls o1"
  by (auto simp: set_slot_def split: delta_kind.splits)

lemma response_id_sel:
  "response_id av p o1 = (x, o2) \<Longrightarrow> o2 = o1\<lparr>ro_drawn := ro_drawn o1 + 1\<rparr>"
  by (auto simp: response_id_def)

lemma kind_slot_drawn [simp]:
  "kind_slot k (o1\<lparr>ro_drawn := n\<rparr>) = kind_slot k o1" "kind_slot k (o1\<lparr>ro_items := xs\<rparr>) = kind_slot k o1"
  "kind_slot k (o1\<lparr>ro_calls := cs\<rparr>) = kind_slot k o1" "kind_slot k (o1\<lparr>ro_seq := m\<rparr>) = kind_slot k o1"
  "kind_slot k (o1\<lparr>ro_finish_reason := fr\<rparr>) = kind_slot k o1" "kind_slot k (o1\<lparr>ro_saw_choice := b\<rparr>) = kind_slot k o1"
  "kind_slot k (o1\<lparr>ro_usage := u\<rparr>) = kind_slot k o1"
  by (auto simp: kind_slot_def split: delta_kind.splits)

lemma add_item_result:
  "add_item av item (o1, q) = (None, o2, q2) \<Longrightarrow> ro_items o2 = ro_items o1 @ [item] \<and> ro_calls o2 = ro_calls o1 \<and> (\<forall>k. kind_slot k o2 = kind_slot k o1)"
  by (auto simp: add_item_def response_event_def Let_def split: if_splits option.splits prod.splits)

lemma open_item_keeps: "keeps_stream (open_item av k)"
  unfolding keeps_stream_def
proof (intro allI impI)
  fix base es s t assume inv: "stream_inv base es s" and op: "open_item av k s = (None, t)"
  obtain o1 q where s: "s = (o1, q)" by (cases s)
  obtain iid o2 where r: "response_id av ''item'' o1 = (iid, o2)" by (metis surj_pair)
  note o2 = response_id_sel [OF r]
  define i where "i = length (ro_items o2)"
  obtain e o3 q3 where a: "add_item av (no_item iid (kind_item_type k)) (set_slot k i o2, q) = (e, o3, q3)" by (metis surj_pair)
  have e: "e = None" using op a r by (auto simp: open_item_def s i_def Let_def split: option.splits)
  note ar = add_item_result [OF a [unfolded e]]
  have sl: "slots_ok (set_slot k i o2\<lparr>ro_items := ro_items (set_slot k i o2) @ [no_item iid (kind_item_type k)]\<rparr>)"
    using inv by (fastforce simp: s stream_inv_def slots_ok_def i_def o2 less_Suc_eq)
  obtain es1 where inv3: "stream_inv base (es @ es1) (o3, q3)"
    using add_item_keeps [OF inv [unfolded s] a [unfolded e] no_item_payload _ _ _ sl] o2 by auto
  have ev: "response_event av (if k = DeltaReasoning then ''response.reasoning_summary_part.added'' else ''response.content_part.added'')
      (item_fields i (update_item i (add_part k) o3) @ [(part_index k, JNum ''0''), (''part'', JObj (kind_part k))])
      (update_item i (add_part k) o3, q3) = (None, t)"
    using op a r e by (simp add: open_item_def s i_def Let_def)
  have "it_payload (add_part k x) = it_payload x" for x by (simp add: add_part_def)
  then have p: "payload_at j (ro_items (update_item i (add_part k) o3)) = payload_at j (ro_items o3)" for j
    by (rule payload_same)
  have "\<exists>es'. stream_inv base ((es @ es1) @ es') t"
    by (rule quiet_step [OF inv3 ev _ _ p]) (use inv3 in \<open>simp_all add: map_add_def part_index_def stream_inv_def\<close>)
  then show "\<exists>es'. stream_inv base (es @ es') t" by auto
qed

lemma payload_extended:
  "i < length (ro_items o1) \<Longrightarrow>
     payload_at j (ro_items (update_item i (append_payload tx) o1)) = payload_at j (ro_items o1) @ (if j = i then tx else [])"
  by (simp add: payload_update append_payload_def) (simp add: payload_at_def)

lemma extend_item_keeps:
  assumes inv: "stream_inv base es (o1, q)" and k: "kind_slot k o1 = Some i" and e: "extend_item av k tx (o1, q) = (None, t)"
  shows "\<exists>es'. stream_inv base (es @ es') t"
proof -
  have i: "i < length (ro_items o1)" using inv k by (auto simp: stream_inv_def slots_ok_def)
  have ev: "response_event av (kind_prefix k @ ''.delta'')
      (item_fields i (update_item i (append_payload tx) o1) @ [(part_index k, JNum ''0''), (''delta'', JStr tx)])
      (update_item i (append_payload tx) o1, q) = (None, t)"
    using e by (simp add: extend_item_def k Let_def)
  show ?thesis
    by (rule delta_step [OF inv ev _ _ _ payload_extended [OF i]])
      (use inv in \<open>simp_all add: stream_inv_def map_add_def part_index_def\<close>)
qed

lemma event_result:
  "response_event av kind fs (o1, q) = (None, o2, q2) \<Longrightarrow> o2 = o1 \<or> o2 = o1\<lparr>ro_seq := ro_seq o1 + 1\<rparr>"
  by (auto simp: response_event_def Let_def split: if_splits option.splits prod.splits)

lemma open_item_slot: "open_item av k s = (None, o2, q2) \<Longrightarrow> \<exists>i. kind_slot k o2 = Some i"
  by (cases s) (auto simp: open_item_def Let_def split: option.splits prod.splits dest!: event_result add_item_result)

lemma text_delta_keeps: "keeps_stream (text_delta av k tx)"
  unfolding keeps_stream_def
proof (intro allI impI)
  fix base es s t assume inv: "stream_inv base es s" and d: "text_delta av k tx s = (None, t)"
  show "\<exists>es'. stream_inv base (es @ es') t"
  proof (cases "tx = []")
    case True
    then have "t = s" using d by (simp add: text_delta_def)
    then show ?thesis using inv by (metis append_Nil2)
  next
    case False
    obtain e o1 q where o: "(if kind_slot k (fst s) = None then open_item av k s else (None, s)) = (e, o1, q)" by (metis surj_pair)
    have e: "e = None" and x: "extend_item av k tx (o1, q) = (None, t)"
      using d False o by (auto simp: text_delta_def split: option.splits)
    have "\<exists>es'. stream_inv base (es @ es') (o1, q)"
    proof (cases "kind_slot k (fst s)")
      case None
      then show ?thesis using keeps_streamD [OF open_item_keeps inv] o e by simp
    next
      case (Some i)
      then have "s = (o1, q)" using o by simp
      then show ?thesis using inv by (metis append_Nil2)
    qed
    then obtain es1 where inv1: "stream_inv base (es @ es1) (o1, q)" by blast
    obtain i where "kind_slot k o1 = Some i"
      using o e open_item_slot [of av k s o1 q] by (cases "kind_slot k (fst s)") auto
    from extend_item_keeps [OF inv1 this x] show ?thesis by auto
  qed
qed

lemma put_call_sel [simp]:
  "ro_items (put_call i c o1) = ro_items o1" "ro_emit (put_call i c o1) = ro_emit o1" "ro_seq (put_call i c o1) = ro_seq o1"
  "kind_slot k (put_call i c o1) = kind_slot k o1"
  "map_of (ro_calls (put_call i c o1)) j = (if j = i then Some c else map_of (ro_calls o1) j)"
  "ro_finish_reason (put_call i c o1) = ro_finish_reason o1"
  by (simp_all add: put_call_def update_conv)

lemma slots_put: "slots_ok o1 \<Longrightarrow> (\<And>i. rl_item c = Some i \<Longrightarrow> i < length (ro_items o1)) \<Longrightarrow> slots_ok (put_call j c o1)"
  by (auto simp: slots_ok_def split: if_splits)

lemma call_of_put [simp]: "call_of j (put_call j c o1) = c"
  by (simp add: call_of_def)

lemma slots_call: "slots_ok o1 \<Longrightarrow> rl_item (call_of j o1) = Some i \<Longrightarrow> i < length (ro_items o1)"
  by (auto simp: slots_ok_def call_of_def split: option.splits)

lemma stream_inv_put:
  "stream_inv base es (o1, q) \<Longrightarrow> (\<And>i. rl_item c = Some i \<Longrightarrow> i < length (ro_items o1)) \<Longrightarrow> stream_inv base es (put_call j c o1, q)"
  by (simp add: stream_inv_def slots_put)

lemma start_call_keeps:
  assumes inv: "stream_inv base es (o1, q)" and c: "c = call_of j o1" and st: "start_call av j c (o1, q) = (None, t)"
  shows "\<exists>es'. stream_inv base (es @ es') t \<and> rl_item (call_of j (fst t)) \<noteq> None"
proof (cases "rl_item c")
  case (Some i)
  then have "t = (o1, q)" using st by (simp add: start_call_def)
  then show ?thesis using inv Some c by (intro exI [of _ "[]"]) simp
next
  case None
  define o2 where "o2 = (if rl_id c = [] then snd (response_id av ''call'' o1) else o1)"
  define cid where "cid = (if rl_id c = [] then fst (response_id av ''call'' o1) else rl_id c)"
  define o3 where "o3 = put_call j (c\<lparr>rl_id := cid\<rparr>) o2"
  obtain iid o4 where r: "response_id av ''fc'' o3 = (iid, o4)" by (metis surj_pair)
  define o5 where "o5 = put_call j (c\<lparr>rl_id := cid, rl_item := Some (length (ro_items o4))\<rparr>) o4"
  obtain ns name where nm: "(case map_of (av_tools av) (rl_name c) of Some original \<Rightarrow> original | None \<Rightarrow> ([], rl_name c)) = (ns, name)"
    by (metis surj_pair)
  let ?item = "(no_item iid ''function_call'')\<lparr>it_call_id := cid, it_name := name, it_namespace := ns\<rparr>"
  have a: "add_item av ?item (o5, q) = (None, t)"
    using st None r nm by (auto simp: start_call_def Let_def o2_def cid_def o3_def o5_def split: if_splits prod.splits)
  have o2: "ro_items o2 = ro_items o1" "ro_emit o2 = ro_emit o1" "ro_seq o2 = ro_seq o1" "ro_calls o2 = ro_calls o1" "\<And>k. kind_slot k o2 = kind_slot k o1"
    by (auto simp: o2_def response_id_def)
  have o5: "ro_items o5 = ro_items o1" "ro_emit o5 = ro_emit o1" "ro_seq o5 = ro_seq o1" "\<And>k. kind_slot k o5 = kind_slot k o1"
    "\<And>m. map_of (ro_calls o5) m = (if m = j then Some (c\<lparr>rl_id := cid, rl_item := Some (length (ro_items o1))\<rparr>) else map_of (ro_calls o1) m)"
    using o2 response_id_sel [OF r] by (auto simp: o5_def o3_def)
  have "slots_ok (o5\<lparr>ro_items := ro_items o5 @ [?item]\<rparr>)"
    using inv by (fastforce simp: slots_ok_def o5 stream_inv_def less_Suc_eq split: if_splits)
  from add_item_keeps [OF inv a _ o5(2,3,1) this] obtain es' where "stream_inv base (es @ es') t" by auto
  moreover have "rl_item (call_of j (fst t)) \<noteq> None"
    using add_item_result [of av ?item o5 q "fst t" "snd t"] a by (simp add: call_of_def o5(5))
  ultimately show ?thesis by blast
qed

lemma arguments_delta_keeps:
  assumes inv: "stream_inv base es (o1, q)" and c: "rl_item (call_of j o1) \<noteq> None" and a: "arguments_delta av j args (o1, q) = (None, t)"
  shows "\<exists>es'. stream_inv base (es @ es') t"
proof -
  obtain i where ci: "rl_item (call_of j o1) = Some i" using c by auto
  then have i: "i < length (ro_items o1)" using inv slots_call by (simp add: stream_inv_def)
  have ev: "response_event av ''response.function_call_arguments.delta''
      (item_fields i (update_item i (append_payload args) o1) @ [(''delta'', JStr args)]) (update_item i (append_payload args) o1, q) = (None, t)"
    using a by (simp add: arguments_delta_def ci Let_def)
  show ?thesis
    by (rule delta_step [OF inv ev _ _ _ payload_extended [OF i]]) (use inv in \<open>simp_all add: stream_inv_def map_add_def\<close>)
qed

lemma named_call_item: "named_call d c = Inr c' \<Longrightarrow> rl_item c' = rl_item c"
  by (auto simp: named_call_def split: if_splits)

lemma tool_delta_keeps: "keeps_stream (tool_delta av d)"
  unfolding keeps_stream_def
proof (intro allI impI)
  fix base es s t assume inv: "stream_inv base es s" and d: "tool_delta av d s = (None, t)"
  obtain o1 q where s: "s = (o1, q)" by (cases s)
  let ?j = "tc_index d"
  let ?o = "put_call ?j (call_of ?j o1) o1"
  have sl: "slots_ok o1" using inv by (simp add: s stream_inv_def)
  obtain c where c: "named_call d (call_of ?j o1) = Inr c"
    using d by (cases "named_call d (call_of ?j o1)") (auto simp: tool_delta_def s Let_def split: if_splits)
  have it: "rl_item c = Some i \<Longrightarrow> i < length (ro_items o1)" for i
    using slots_call [OF sl, of ?j i] named_call_item [OF c] by simp
  have inv2: "stream_inv base es (put_call ?j c ?o, q)"
    by (intro stream_inv_put inv [unfolded s]) (use it slots_call [OF sl] in auto)
  show "\<exists>es'. stream_inv base (es @ es') t"
  proof (cases "tc_arguments d = []")
    case True
    then have "t = (put_call ?j c ?o, q)" using d c by (auto simp: tool_delta_def s Let_def split: if_splits)
    then show ?thesis using inv2 by (metis append_Nil2)
  next
    case False
    obtain e o2 q2 where st: "start_call av ?j c (put_call ?j c ?o, q) = (e, o2, q2)" by (metis surj_pair)
    have e: "e = None" and a: "arguments_delta av ?j (tc_arguments d) (o2, q2) = (None, t)"
      using d c False st by (auto simp: tool_delta_def s Let_def split: if_splits option.splits)
    obtain es1 where "stream_inv base (es @ es1) (o2, q2)" "rl_item (call_of ?j o2) \<noteq> None"
      using start_call_keeps [OF inv2 _ st [unfolded e]] by auto
    from arguments_delta_keeps [OF this a] show ?thesis by auto
  qed
qed

lemma same_wire [simp]:
  "stream_inv base es (o1\<lparr>ro_finish_reason := fr\<rparr>, q) = stream_inv base es (o1, q)"
  "stream_inv base es (o1\<lparr>ro_saw_choice := b\<rparr>, q) = stream_inv base es (o1, q)"
  "stream_inv base es (o1\<lparr>ro_usage := u\<rparr>, q) = stream_inv base es (o1, q)"
  by (simp_all add: stream_inv_def slots_ok_def)

lemma keeps_finish: "keeps_stream (\<lambda>(o1, q). (None, case fr of Some r \<Rightarrow> o1\<lparr>ro_finish_reason := r\<rparr> | None \<Rightarrow> o1, q))"
  unfolding keeps_stream_def
proof (intro allI impI)
  fix base es s t
  assume inv: "stream_inv base es s"
    and t: "(case s of (o1, q) \<Rightarrow> (None, case fr of Some r \<Rightarrow> o1\<lparr>ro_finish_reason := r\<rparr> | None \<Rightarrow> o1, q)) = (None, t)"
  have "stream_inv base es t" using inv t by (cases s; cases fr) auto
  then show "\<exists>es'. stream_inv base (es @ es') t" by (intro exI [of _ "[]"]) simp
qed

lemma choice_steps_keep: "f \<in> set (choice_steps av c) \<Longrightarrow> keeps_stream f"
  unfolding choice_steps_def set_append list.set set_map Un_iff insert_iff image_iff empty_iff
  using text_delta_keeps tool_delta_keeps keeps_finish by blast

lemma response_choice_keeps: "keeps_stream (response_choice av c)"
  unfolding keeps_stream_def
proof (intro allI impI)
  fix base es s t assume inv: "stream_inv base es s" and r: "response_choice av c s = (None, t)"
  obtain o1 q where s: "s = (o1, q)" by (cases s)
  let ?o = "o1\<lparr>ro_saw_choice := True\<rparr>"
  have inv2: "stream_inv base es (?o, q)" using inv by (simp add: s)
  have "t = (?o, q) \<or> run_steps (choice_steps av c) (?o, q) = (None, t)"
    using r unfolding response_choice_def s prod.case Let_def by (simp only: prod.inject option.simps simp_thms split: if_split_asm)
  then consider "t = (?o, q)" | "run_steps (choice_steps av c) (?o, q) = (None, t)" by blast
  then show "\<exists>es'. stream_inv base (es @ es') t"
  proof cases
    case 1
    then show ?thesis using inv2 by (intro exI [of _ "[]"]) simp
  next
    case 2
    show ?thesis by (rule keeps_streamD [OF keeps_run_steps inv2 2]) (rule choice_steps_keep)
  qed
qed

lemma response_chunk_keeps: "keeps_stream (response_chunk av ch)"
  unfolding keeps_stream_def
proof (intro allI impI)
  fix base es s t assume inv: "stream_inv base es s" and r: "response_chunk av ch s = (None, t)"
  obtain o1 q where s: "s = (o1, q)" by (cases s)
  let ?o = "if ck_usage ch \<noteq> None then o1\<lparr>ro_usage := ck_usage ch\<rparr> else o1"
  have inv2: "stream_inv base es (?o, q)" using inv by (simp add: s)
  have c: "run_steps (map (response_choice av) (ck_choices ch)) (?o, q) = (None, t)"
    using r by (auto simp: response_chunk_def s Let_def split: if_splits)
  show "\<exists>es'. stream_inv base (es @ es') t"
  proof (rule keeps_streamD [OF keeps_run_steps inv2 c])
    fix f assume "f \<in> set (map (response_choice av) (ck_choices ch))"
    then obtain x where "f = response_choice av x" unfolding set_map by (rule imageE)
    then show "keeps_stream f" by (simp add: response_choice_keeps)
  qed
qed

end
