(* ===== verification/Responses_Whole.thy ===== *)
theory Responses_Whole
  imports Responses_Stream
begin

text \<open>
  A finished response: every event of the stream is on the wire in order, and each item closes with exactly the text its deltas
  added up to.
\<close>

section \<open>Closing the items\<close>

lemma stream_kept: "stream_inv base es s \<Longrightarrow> s = t \<Longrightarrow> \<exists>es'. stream_inv base (es @ es') t"
  by (intro exI [of _ "[]"]) simp

lemma quiet_keeps:
  assumes "\<exists>es. stream_inv base es (o1, q)" "response_event av kind fs (o1, q) = (None, t)"
    "jget fs ''sequence_number'' = None" "jget fs ''delta'' = None"
  shows "\<exists>es. stream_inv base es t"
proof -
  obtain es where inv: "stream_inv base es (o1, q)" using assms(1) by blast
  have "slots_ok o1" using inv by (simp add: stream_inv_def)
  from quiet_step [OF inv assms(2) refl refl refl this assms(3,4)] show ?thesis by blast
qed

lemma quiet_update:
  assumes "\<exists>es. stream_inv base es (o1, q)" "response_event av kind fs (update_item i f o1, q) = (None, t)"
    "\<And>x. it_payload (f x) = it_payload x" "jget fs ''sequence_number'' = None" "jget fs ''delta'' = None"
  shows "\<exists>es. stream_inv base es t"
proof -
  obtain es where inv: "stream_inv base es (o1, q)" using assms(1) by blast
  have p: "payload_at j (ro_items (update_item i f o1)) = payload_at j (ro_items o1)" for j by (rule payload_same [OF assms(3)])
  have "slots_ok (update_item i f o1)" using inv by (simp add: stream_inv_def)
  from quiet_step [OF inv assms(2) _ _ p this assms(4,5)] show ?thesis by (metis update_item_sel(2,3))
qed

lemma event_items: "response_event av kind fs (o1, q) = (None, t) \<Longrightarrow> ro_items (fst t) = ro_items o1"
  by (cases t) (auto dest: event_result)

lemma update_item_items: "ro_items (update_item i f o1) = (ro_items o1)[i := f (ro_items o1 ! i)]"
  by (simp add: update_item_def)

lemma set_part_payload [simp]: "it_payload (set_part j p x) = it_payload x" "it_type (set_part j p x) = it_type x"
  "item_parts (set_part j p x) = (item_parts x)[j := p]"
  by (simp_all add: set_part_def item_parts_def)

lemma run_two:
  "run_steps [f, g] s = (None, t) \<longleftrightarrow> (\<exists>u. f s = (None, u) \<and> g u = (None, t))"
  by (cases "f s"; cases "g (snd (f s))") (auto split: option.splits)

definition closed_part :: "string \<Rightarrow> jobject \<Rightarrow> jobject" where
  "closed_part payload old = jset (part_key old) (JStr payload) old"

lemma part_done_keeps:
  assumes inv: "\<exists>es. stream_inv base es (o1, q)" and d: "part_done av i j (o1, q) = (None, t)"
  shows "(\<exists>es. stream_inv base es t) \<and>
    ro_items (fst t) = (ro_items o1)[i := set_part j (closed_part (it_payload (ro_items o1 ! i)) (item_parts (ro_items o1 ! i) ! j)) (ro_items o1 ! i)]"
proof -
  let ?item = "ro_items o1 ! i" and ?old = "item_parts (ro_items o1 ! i) ! j"
  let ?part = "jset (part_key ?old) (JStr (it_payload ?item)) ?old"
  let ?o = "update_item i (set_part j ?part) o1"
  let ?idx = "if it_type ?item = ''reasoning'' then ''summary_index'' else ''content_index''"
  let ?k2 = "if it_type ?item = ''reasoning'' then ''response.reasoning_summary_part.done'' else ''response.content_part.done''"
  obtain o2 q2 where
      e1: "response_event av (part_prefix ?item ?old @ ''.done'')
        (item_fields i ?o @ [(?idx, JNum (itoa (int j))), (part_key ?old, JStr (it_payload ?item))]) (?o, q) = (None, o2, q2)"
    and e2: "response_event av ?k2 (item_fields i o2 @ [(?idx, JNum (itoa (int j))), (''part'', JObj ?part)]) (o2, q2) = (None, t)"
    using d unfolding part_done_def prod.case Let_def run_two by (metis (mono_tags, lifting) case_prod_conv surj_pair)
  have i2: "\<exists>es. stream_inv base es (o2, q2)"
    by (rule quiet_update [OF inv e1]) (simp_all add: map_add_def part_key_def)
  have "\<exists>es. stream_inv base es t" by (rule quiet_keeps [OF i2 e2]) (simp_all add: map_add_def)
  moreover have "ro_items (fst t) = ro_items ?o" using event_items [OF e2] event_items [OF e1] by simp
  ultimately show ?thesis by (simp add: update_item_items closed_part_def)
qed

text \<open>A loop over places keeps a counted invariant.\<close>

lemma run_steps_append: "run_steps (fs @ gs) s = (case run_steps fs s of (Some e, s) \<Rightarrow> (Some e, s) | (None, s) \<Rightarrow> run_steps gs s)"
  by (induction fs arbitrary: s) (auto split: option.splits prod.splits)

lemma run_steps_upto:
  assumes "P 0 s" and step: "\<And>k s t. k < n \<Longrightarrow> P k s \<Longrightarrow> f k s = (None, t) \<Longrightarrow> P (Suc k) t"
    and "run_steps (map f [0..<n]) s = (None, t)"
  shows "P n t"
  using assms
proof (induction n arbitrary: t)
  case 0
  then show ?case by simp
next
  case (Suc n)
  obtain u where "run_steps (map f [0..<n]) s = (None, u)" and u: "run_steps [f n] u = (None, t)"
    using Suc.prems(3) by (auto simp: run_steps_append split: option.splits prod.splits)
  then have "P n u" using Suc.IH [of u] Suc.prems(1,2) less_Suc_eq by blast
  moreover have "f n u = (None, t)" using u by (auto split: option.splits prod.splits)
  ultimately show ?case using Suc.prems(2) by blast
qed

text \<open>An item that says what its deltas said.\<close>

definition item_closed :: "response_item \<Rightarrow> bool" where
  "item_closed x \<longleftrightarrow>
     (it_type x = ''message'' \<or> it_type x = ''reasoning'' \<longrightarrow>
        (\<forall>p \<in> set (item_parts x). jget p (part_key p) = Some (JStr (it_payload x))))
     \<and> (it_type x = ''function_call'' \<longrightarrow> it_arguments x = it_payload x)"

text \<open>A text or a summary has a part to say it in.\<close>

definition item_parted :: "response_item \<Rightarrow> bool" where
  "item_parted x \<longleftrightarrow> (it_type x = ''message'' \<or> it_type x = ''reasoning'' \<longrightarrow> item_parts x \<noteq> [])"

lemma closed_part_gives: "jget (closed_part tx p) (part_key (closed_part tx p)) = Some (JStr tx)"
  by (simp add: closed_part_def part_key_def str_field_def)

lemma parts_done:
  assumes inv: "\<exists>es. stream_inv base es (o1, q)" and i: "i < length (ro_items o1)"
    and r: "run_steps (map (part_done av i) [0..<length (item_parts (ro_items o1 ! i))]) (o1, q) = (None, t)"
  shows "(\<exists>es. stream_inv base es t) \<and> (\<exists>x. ro_items (fst t) = (ro_items o1)[i := x] \<and> it_type x = it_type (ro_items o1 ! i)
    \<and> length (item_parts x) = length (item_parts (ro_items o1 ! i)) \<and> (\<forall>p \<in> set (item_parts x). jget p (part_key p) = Some (JStr (it_payload x))))"
proof -
  let ?x0 = "ro_items o1 ! i"
  define P where "P k s \<longleftrightarrow> (\<exists>es. stream_inv base es s) \<and> (\<exists>x. ro_items (fst s) = (ro_items o1)[i := x] \<and> it_type x = it_type ?x0
    \<and> it_payload x = it_payload ?x0 \<and> length (item_parts x) = length (item_parts ?x0)
    \<and> (\<forall>j < k. jget (item_parts x ! j) (part_key (item_parts x ! j)) = Some (JStr (it_payload ?x0))))" for k s
  have "P (length (item_parts ?x0)) t"
  proof (rule run_steps_upto [OF _ _ r, where P = P])
    show "P 0 (o1, q)" using inv by (auto simp: P_def intro: exI [of _ ?x0])
  next
    fix k s u assume k: "k < length (item_parts ?x0)" and p: "P k s" and d: "part_done av i k s = (None, u)"
    obtain o2 q2 where s: "s = (o2, q2)" by (cases s)
    obtain x where x: "ro_items o2 = (ro_items o1)[i := x]" "it_type x = it_type ?x0" "it_payload x = it_payload ?x0"
        "length (item_parts x) = length (item_parts ?x0)"
        "\<And>j. j < k \<Longrightarrow> jget (item_parts x ! j) (part_key (item_parts x ! j)) = Some (JStr (it_payload ?x0))"
      using p by (auto simp: P_def s)
    let ?y = "set_part k (closed_part (it_payload ?x0) (item_parts x ! k)) x"
    have "ro_items o2 ! i = x" using i by (simp add: x(1))
    then have u: "(\<exists>es. stream_inv base es u) \<and> ro_items (fst u) = (ro_items o1)[i := ?y]"
      using part_done_keeps [OF _ d [unfolded s], of base] p by (simp add: P_def s x(1,3))
    have "jget (item_parts ?y ! j) (part_key (item_parts ?y ! j)) = Some (JStr (it_payload ?x0))" if "j < Suc k" for j
      using that k x(4,5) by (cases "j = k") (simp_all add: closed_part_gives)
    then show "P (Suc k) u" unfolding P_def using u x(2-4) by (auto intro!: exI [of _ ?y])
  qed
  then show ?thesis unfolding P_def by (metis in_set_conv_nth)
qed

lemma arguments_done_keeps:
  assumes inv: "\<exists>es. stream_inv base es (o1, q)" and d: "arguments_done av i (o1, q) = (None, t)"
  shows "(\<exists>es. stream_inv base es t) \<and> ro_items (fst t) = (ro_items o1)[i := (ro_items o1 ! i)\<lparr>it_arguments := it_payload (ro_items o1 ! i)\<rparr>]"
proof -
  let ?o = "update_item i (\<lambda>x. x\<lparr>it_arguments := it_payload x\<rparr>) o1"
  note e = d [unfolded arguments_done_def prod.case Let_def]
  have "\<exists>es. stream_inv base es t" by (rule quiet_update [OF inv e]) (simp_all add: map_add_def)
  then show ?thesis using event_items [OF e] by (simp add: update_item_items)
qed

lemma item_done_keeps:
  assumes inv: "\<exists>es. stream_inv base es (o1, q)" and d: "item_done av status i (o1, q) = (None, t)"
  shows "(\<exists>es. stream_inv base es t) \<and> ro_items (fst t) = (ro_items o1)[i := (ro_items o1 ! i)\<lparr>it_status := status\<rparr>]"
proof -
  note e = d [unfolded item_done_def prod.case Let_def]
  have "\<exists>es. stream_inv base es t" by (rule quiet_update [OF inv e]) (simp_all add: map_add_def)
  then show ?thesis using event_items [OF e] by (simp add: update_item_items)
qed

lemma closed_status [simp]: "item_closed (x\<lparr>it_status := st\<rparr>) = item_closed x"
  "item_parted (x\<lparr>it_status := st\<rparr>) = item_parted x" "item_parted (x\<lparr>it_arguments := a\<rparr>) = item_parted x"
  by (simp_all add: item_closed_def item_parted_def item_parts_def)

lemma finish_item_keeps:
  assumes inv: "\<exists>es. stream_inv base es (o1, q)" and i: "i < length (ro_items o1)" and f: "finish_item av status i (o1, q) = (None, t)"
  shows "(\<exists>es. stream_inv base es t) \<and> (\<exists>x. ro_items (fst t) = (ro_items o1)[i := x] \<and> item_closed x \<and> it_status x = status
    \<and> (item_parted (ro_items o1 ! i) \<longrightarrow> item_parted x))"
proof -
  let ?x = "ro_items o1 ! i"
  let ?body = "if it_type ?x = ''message'' \<or> it_type ?x = ''reasoning'' then map (part_done av i) [0..<length (item_parts ?x)]
    else if it_type ?x = ''function_call'' then [arguments_done av i] else []"
  obtain o2 q2 where b: "run_steps ?body (o1, q) = (None, o2, q2)" and d: "run_steps [item_done av status i] (o2, q2) = (None, t)"
    using f unfolding finish_item_def fst_conv Let_def run_steps_append by (auto split: option.splits prod.splits)
  have d: "item_done av status i (o2, q2) = (None, t)" using d by (auto split: option.splits prod.splits)
  have b: "(\<exists>es. stream_inv base es (o2, q2)) \<and> (\<exists>x. ro_items o2 = (ro_items o1)[i := x] \<and> item_closed x
    \<and> (item_parted ?x \<longrightarrow> item_parted x))"
  proof (cases "it_type ?x = ''message'' \<or> it_type ?x = ''reasoning''")
    case True
    then have "run_steps (map (part_done av i) [0..<length (item_parts ?x)]) (o1, q) = (None, o2, q2)" using b by (simp only: if_True)
    from parts_done [OF inv i this] obtain x where "\<exists>es. stream_inv base es (o2, q2)" "ro_items o2 = (ro_items o1)[i := x]"
        "it_type x = it_type ?x" "length (item_parts x) = length (item_parts ?x)"
        "\<forall>p \<in> set (item_parts x). jget p (part_key p) = Some (JStr (it_payload x))" by auto
    with True show ?thesis by (intro conjI exI [of _ x]) (auto simp: item_closed_def item_parted_def)
  next
    case other: False
    show ?thesis
    proof (cases "it_type ?x = ''function_call''")
      case True
      then have "arguments_done av i (o1, q) = (None, o2, q2)" using b other by (auto split: option.splits prod.splits)
      from arguments_done_keeps [OF inv this] True show ?thesis
        by (auto simp: item_closed_def intro!: exI [of _ "?x\<lparr>it_arguments := it_payload ?x\<rparr>"])
    next
      case False
      then have "(o2, q2) = (o1, q)" using b other by simp
      then show ?thesis using inv other False by (auto simp: item_closed_def intro!: exI [of _ ?x])
    qed
  qed
  then obtain x where x: "ro_items o2 = (ro_items o1)[i := x]" "item_closed x" "item_parted ?x \<longrightarrow> item_parted x" by blast
  then have "ro_items o2 ! i = x" using i by simp
  then show ?thesis using item_done_keeps [OF conjunct1 [OF b] d] x by (auto intro!: exI [of _ "x\<lparr>it_status := status\<rparr>"])
qed

lemma items_finished:
  assumes inv: "\<exists>es. stream_inv base es s" and parted: "\<forall>x \<in> set (ro_items (fst s)). item_parted x"
    and r: "run_steps (map (finish_item av status) [0..<length (ro_items (fst s))]) s = (None, t)"
  shows "(\<exists>es. stream_inv base es t) \<and> (\<forall>x \<in> set (ro_items (fst t)). item_closed x \<and> it_status x = status \<and> item_parted x)"
proof -
  let ?n = "length (ro_items (fst s))"
  define P where "P k u \<longleftrightarrow> (\<exists>es. stream_inv base es u) \<and> length (ro_items (fst u)) = ?n \<and> (\<forall>j < ?n. item_parted (ro_items (fst u) ! j))
    \<and> (\<forall>j < k. item_closed (ro_items (fst u) ! j) \<and> it_status (ro_items (fst u) ! j) = status)" for k u
  have "P ?n t"
  proof (rule run_steps_upto [OF _ _ r, where P = P])
    show "P 0 s" using inv parted by (simp add: P_def)
  next
    fix k u v assume k: "k < ?n" and p: "P k u" and f: "finish_item av status k u = (None, v)"
    obtain o2 q2 where u: "u = (o2, q2)" by (cases u)
    have o2: "\<exists>es. stream_inv base es (o2, q2)" "k < length (ro_items o2)" using p k by (auto simp: P_def u)
    from finish_item_keeps [OF this f [unfolded u]] obtain x where
      "\<exists>es. stream_inv base es v" "ro_items (fst v) = (ro_items o2)[k := x]" "item_closed x" "it_status x = status"
      "item_parted (ro_items o2 ! k) \<longrightarrow> item_parted x" by blast
    then show "P (Suc k) v" using p o2(2) by (simp add: P_def u nth_list_update less_Suc_eq)
  qed
  then show ?thesis unfolding P_def by (metis in_set_conv_nth)
qed

section \<open>Text items have a part\<close>

definition all_parted :: "response_output \<Rightarrow> bool" where "all_parted o1 \<longleftrightarrow> (\<forall>x \<in> set (ro_items o1). item_parted x)"

definition keeps_parts :: "(outgoing \<Rightarrow> gw_error option \<times> outgoing) \<Rightarrow> bool" where
  "keeps_parts f \<longleftrightarrow> (\<forall>s t. f s = (None, t) \<longrightarrow> all_parted (fst s) \<longrightarrow> all_parted (fst t))"

lemma keeps_partsI: "(\<And>o1 q o2 q2. f (o1, q) = (None, o2, q2) \<Longrightarrow> all_parted o1 \<Longrightarrow> all_parted o2) \<Longrightarrow> keeps_parts f"
  unfolding keeps_parts_def by (metis prod.collapse)

lemma keeps_partsD: "keeps_parts f \<Longrightarrow> f s = (None, t) \<Longrightarrow> all_parted (fst s) \<Longrightarrow> all_parted (fst t)"
  unfolding keeps_parts_def by blast

lemma keeps_parts_steps: "(\<And>f. f \<in> set fs \<Longrightarrow> keeps_parts f) \<Longrightarrow> keeps_parts (run_steps fs)"
proof (induction fs)
  case Nil
  show ?case by (rule keeps_partsI) simp
next
  case (Cons f fs)
  show ?case
  proof (rule keeps_partsI)
    fix o1 q o2 q2 assume r: "run_steps (f # fs) (o1, q) = (None, o2, q2)" and a: "all_parted o1"
    obtain e u where f: "f (o1, q) = (e, u)" by (metis surj_pair)
    then have f: "f (o1, q) = (None, u)" and r: "run_steps fs u = (None, o2, q2)" using r by (auto split: option.splits)
    have "keeps_parts f" by (simp add: Cons.prems)
    from keeps_partsD [where f = f, OF this f] a have "all_parted (fst u)" by simp
    moreover have "keeps_parts (run_steps fs)" by (rule Cons.IH) (simp add: Cons.prems)
    ultimately show "all_parted o2" using keeps_partsD [where f = "run_steps fs", OF _ r] by simp
  qed
qed

lemma parted_append_payload [simp]: "item_parted (append_payload tx x) = item_parted x"
  by (simp add: item_parted_def append_payload_def item_parts_def)

lemma parted_update: "all_parted o1 \<Longrightarrow> i < length (ro_items o1) \<Longrightarrow> (item_parted (ro_items o1 ! i) \<Longrightarrow> item_parted (f (ro_items o1 ! i))) \<Longrightarrow>
    all_parted (update_item i f o1)"
  by (auto simp: all_parted_def update_item_items dest!: in_set_conv_nth [THEN iffD1] simp: nth_list_update) 

lemma parted_extend: "all_parted o1 \<Longrightarrow> all_parted (update_item i (append_payload tx) o1)"
  by (cases "i < length (ro_items o1)") (simp add: parted_update, simp add: all_parted_def update_item_items list_update_beyond)

lemma parted_event: "response_event av kind fs (o1, q) = (None, t) \<Longrightarrow> all_parted (fst t) = all_parted o1"
  by (simp add: all_parted_def event_items)

lemma parted_add: "add_item av item (o1, q) = (None, t) \<Longrightarrow> all_parted (fst t) \<longleftrightarrow> all_parted o1 \<and> item_parted item"
  using add_item_result [of av item o1 q "fst t" "snd t"] by (auto simp: all_parted_def)

lemma open_item_parts: "keeps_parts (open_item av k)"
proof (rule keeps_partsI)
  fix o1 q o2 q2 assume op: "open_item av k (o1, q) = (None, o2, q2)" and a: "all_parted o1"
  obtain iid o3 where r: "response_id av ''item'' o1 = (iid, o3)" by (metis surj_pair)
  let ?i = "length (ro_items o3)"
  obtain e o4 q4 where ad: "add_item av (no_item iid (kind_item_type k)) (set_slot k ?i o3, q) = (e, o4, q4)" by (metis surj_pair)
  have e: "e = None" using op ad r by (auto simp: open_item_def Let_def split: option.splits)
  have i4: "ro_items o4 = ro_items o1 @ [no_item iid (kind_item_type k)]" "?i = length (ro_items o1)"
    using add_item_result [OF ad [unfolded e]] response_id_sel [OF r] by simp_all
  have ev: "response_event av (if k = DeltaReasoning then ''response.reasoning_summary_part.added'' else ''response.content_part.added'')
      (item_fields ?i (update_item ?i (add_part k) o4) @ [(part_index k, JNum ''0''), (''part'', JObj (kind_part k))])
      (update_item ?i (add_part k) o4, q4) = (None, o2, q2)"
    using op ad r e by (simp add: open_item_def Let_def)
  have "item_parted (add_part k (no_item iid (kind_item_type k)))"
    by (simp add: item_parted_def add_part_def no_item_def kind_item_type_def item_parts_def)
  then show "all_parted o2"
    using parted_event [OF ev] a by (simp add: all_parted_def update_item_items i4 list_update_append)
qed

lemma text_delta_parts: "keeps_parts (text_delta av k tx)"
proof (rule keeps_partsI)
  fix o1 q o2 q2 assume d: "text_delta av k tx (o1, q) = (None, o2, q2)" and a: "all_parted o1"
  show "all_parted o2"
  proof (cases "tx = []")
    case True
    then show ?thesis using d a by (simp add: text_delta_def)
  next
    case False
    obtain e o3 q3 where o: "(if kind_slot k o1 = None then open_item av k (o1, q) else (None, o1, q)) = (e, o3, q3)" by (metis surj_pair)
    then have e: "e = None" and x: "extend_item av k tx (o3, q3) = (None, o2, q2)"
      using d False by (auto simp: text_delta_def split: option.splits)
    have "all_parted o3" using o e a keeps_partsD [OF open_item_parts, of av k "(o1, q)" "(o3, q3)"] by (auto split: if_splits)
    then show ?thesis using parted_event [OF x [unfolded extend_item_def prod.case Let_def]] parted_extend by simp
  qed
qed

lemma start_call_parts:
  assumes st: "start_call av j c (o1, q) = (None, t)" and a: "all_parted o1"
  shows "all_parted (fst t)"
proof (cases "rl_item c")
  case (Some i)
  then show ?thesis using st a by (auto simp: start_call_def)
next
  case None
  have "item_parted ((no_item iid ''function_call'')\<lparr>it_call_id := cid, it_name := name, it_namespace := ns\<rparr>)" for iid cid name ns
    by (simp add: item_parted_def no_item_def)
  then show ?thesis using st a None
    by (auto simp: start_call_def Let_def response_id_def all_parted_def split: if_splits prod.splits dest!: parted_add [unfolded all_parted_def])
qed

lemma tool_delta_parts: "keeps_parts (tool_delta av d)"
proof (rule keeps_partsI)
  fix o1 q o2 q2 assume d: "tool_delta av d (o1, q) = (None, o2, q2)" and a: "all_parted o1"
  let ?j = "tc_index d"
  obtain c where c: "named_call d (call_of ?j (put_call ?j (call_of ?j o1) o1)) = Inr c"
    using d by (cases "named_call d (call_of ?j (put_call ?j (call_of ?j o1) o1))") (auto simp: tool_delta_def Let_def split: if_splits)
  let ?o = "put_call ?j c (put_call ?j (call_of ?j o1) o1)"
  have a: "all_parted ?o" using a by (simp add: all_parted_def)
  show "all_parted o2"
  proof (cases "tc_arguments d = []")
    case True
    then show ?thesis using d c a by (auto simp: tool_delta_def Let_def split: if_splits)
  next
    case False
    obtain e o3 q3 where st: "start_call av ?j c (?o, q) = (e, o3, q3)" by (metis surj_pair)
    have e: "e = None" and x: "arguments_delta av ?j (tc_arguments d) (o3, q3) = (None, o2, q2)"
      using d c False st by (auto simp: tool_delta_def Let_def split: if_splits option.splits)
    have "all_parted o3" using start_call_parts [OF st [unfolded e] a] by simp
    then show ?thesis using parted_event [OF x [unfolded arguments_delta_def prod.case Let_def]] parted_extend by simp
  qed
qed

lemma finish_parts: "keeps_parts (\<lambda>(o1, q). (None, case fr of Some r \<Rightarrow> o1\<lparr>ro_finish_reason := r\<rparr> | None \<Rightarrow> o1, q))"
  by (rule keeps_partsI) (auto simp: all_parted_def split: option.splits)

lemma choice_steps_parts: "f \<in> set (choice_steps av c) \<Longrightarrow> keeps_parts f"
  unfolding choice_steps_def set_append list.set set_map Un_iff insert_iff image_iff empty_iff
  using text_delta_parts tool_delta_parts finish_parts by blast

lemma response_choice_parts: "keeps_parts (response_choice av c)"
proof (rule keeps_partsI)
  fix o1 q o2 q2 assume r: "response_choice av c (o1, q) = (None, o2, q2)" and a: "all_parted o1"
  let ?o = "o1\<lparr>ro_saw_choice := True\<rparr>"
  have "o2 = ?o \<or> run_steps (choice_steps av c) (?o, q) = (None, o2, q2)"
    using r unfolding response_choice_def prod.case Let_def by (simp only: prod.inject option.simps simp_thms split: if_split_asm)
  moreover have "keeps_parts (run_steps (choice_steps av c))" by (rule keeps_parts_steps) (rule choice_steps_parts)
  ultimately show "all_parted o2"
    using keeps_partsD [where f = "run_steps (choice_steps av c)" and s = "(?o, q)" and t = "(o2, q2)"] a by (auto simp: all_parted_def)
qed

lemma response_chunk_parts: "keeps_parts (response_chunk av ch)"
proof (rule keeps_partsI)
  fix o1 q o2 q2 assume r: "response_chunk av ch (o1, q) = (None, o2, q2)" and a: "all_parted o1"
  let ?o = "if ck_usage ch \<noteq> None then o1\<lparr>ro_usage := ck_usage ch\<rparr> else o1"
  let ?f = "run_steps (map (response_choice av) (ck_choices ch))"
  have c: "?f (?o, q) = (None, o2, q2)" using r by (auto simp: response_chunk_def Let_def split: if_splits)
  have k: "keeps_parts ?f"
  proof (rule keeps_parts_steps)
    fix f assume "f \<in> set (map (response_choice av) (ck_choices ch))"
    then obtain x where "f = response_choice av x" unfolding set_map by (rule imageE)
    then show "keeps_parts f" by (simp add: response_choice_parts)
  qed
  from keeps_partsD [where f = ?f, OF k c] a show "all_parted o2" by (simp add: all_parted_def split: if_splits)
qed

section \<open>The whole stream\<close>

definition sound :: "piece list \<Rightarrow> outgoing \<Rightarrow> bool" where
  "sound base s \<longleftrightarrow> (\<exists>es. stream_inv base es s) \<and> all_parted (fst s)"

lemma sound_step:
  assumes "sound base s" "keeps_stream f" "keeps_parts f" "f s = (None, t)"
  shows "sound base t"
proof -
  obtain es where "stream_inv base es s" using assms(1) by (auto simp: sound_def)
  from keeps_streamD [where f = f, OF assms(2) this assms(4)] keeps_partsD [where f = f, OF assms(3,4)] assms(1)
  show ?thesis by (auto simp: sound_def)
qed

lemma sound_request [simp]:
  "sound base (o1, q\<lparr>rq_ev := ev\<rparr>) = sound base (o1, q)" "sound base (o1, q\<lparr>rq_outcome := oc\<rparr>) = sound base (o1, q)"
  by (simp_all add: sound_def stream_inv_def)

lemma sound_consume:
  assumes so: "sound base (rs_out st)" and c: "consume av lp st = (None, st')"
  shows "sound base (rs_out st')"
proof -
  let ?p = "trim_space (rs_data st)"
  obtain o1 q where out: "rs_out st = (o1, q)" by (metis surj_pair)
  show ?thesis
  proof (cases "?p = [] \<or> rs_done st \<or> ?p = ''[DONE]''")
    case True
    then show ?thesis using so c by (auto simp: consume_def Let_def split: if_splits)
  next
    case False
    then obtain ch where ch: "av_decode_chunk av ?p = Some ch"
      using c by (cases "av_decode_chunk av ?p") (auto simp: consume_def Let_def)
    obtain m ev where ob: "observe lp (metered_chunk ch) (rs_meter st, rq_ev q) = (m, ev)" by (metis surj_pair)
    obtain e out2 where r: "response_chunk av ch (o1, q\<lparr>rq_ev := ev\<rparr>) = (e, out2)" by (metis surj_pair)
    have e: "e = None" and st': "rs_out st' = out2"
      using c False ch ob r out by (auto simp: consume_def Let_def)
    have "sound base (o1, q\<lparr>rq_ev := ev\<rparr>)" using so out by simp
    from sound_step [where f = "response_chunk av ch", OF this response_chunk_keeps response_chunk_parts r [unfolded e]]
    show ?thesis unfolding st' .
  qed
qed

lemma sound_line:
  "sound base (rs_out st) \<Longrightarrow> read_stream_line av lp l st = (None, st') \<Longrightarrow> sound base (rs_out st')"
  by (auto simp: read_stream_line_def Let_def sound_consume split: if_splits option.splits)

lemma sound_lines:
  "sound base (rs_out st) \<Longrightarrow> read_stream_lines av lp over i ls st = (None, st') \<Longrightarrow> sound base (rs_out st')"
proof (induction ls arbitrary: i st)
  case (Cons l ls)
  obtain e st1 where r: "read_stream_line av lp l st = (e, st1)" by (metis surj_pair)
  show ?case
  proof (cases "rs_done st1")
    case True
    then show ?thesis using Cons.prems r by (auto split: if_splits option.splits dest: sound_line)
  next
    case False
    then have "e = None" "read_stream_lines av lp over (i + 1) ls st1 = (None, st')"
      using Cons.prems(2) r by (auto split: if_splits option.splits)
    then show ?thesis using Cons.IH sound_line [OF Cons.prems(1)] r by blast
  qed
qed simp

lemma sound_end:
  assumes so: "sound base (rs_out st)" and e: "read_stream_end av lp over gone it rest ends st = (None, st')"
  shows "sound base (rs_out st')"
proof (cases "rs_done st")
  case True
  then show ?thesis using so e by (simp add: read_stream_end_def)
next
  case False
  obtain e1 st1 where r: "read_stream_line av lp rest st = (e1, st1)" by (metis surj_pair)
  have "e1 = None" and c: "consume av lp st1 = (None, st')"
    using e r False by (auto simp: read_stream_end_def split: if_splits option.splits stream_end.splits)
  then have "sound base (rs_out st1)" using r sound_line [OF so] by blast
  from sound_consume [OF this c] show ?thesis .
qed

lemma sound_read:
  assumes so: "sound base (rs_out st)" and r: "read_stream av lp it noticed gone resp st = (None, st')"
  shows "sound base (rs_out st')"
proof -
  obtain ls rest where sl: "stream_lines [] (take (max_upstream_body + 1) (er_body resp)) = (ls, rest)" by (metis surj_pair)
  let ?large = "length (er_body resp) > max_upstream_body"
  obtain e st1 where l: "read_stream_lines av lp (\<lambda>i. ?large \<and> noticed \<le> i) 0 ls st = (e, st1)" by (metis surj_pair)
  have "e = None" and en: "read_stream_end av lp ?large gone it rest (er_end resp) st1 = (None, st')"
    using r l sl by (auto simp: read_stream_def Let_def split: option.splits)
  then have "sound base (rs_out st1)" using l sound_lines [OF so] by blast
  from sound_end [OF this en] show ?thesis .
qed

text \<open>The calls that never started are opened, then every item is closed.\<close>

lemma start_pending_keeps: "keeps_stream (start_pending av i)" "keeps_parts (start_pending av i)"
proof -
  show "keeps_stream (start_pending av i)" unfolding keeps_stream_def
  proof (intro allI impI)
    fix base es s t assume inv: "stream_inv base es s" and st: "start_pending av i s = (None, t)"
    obtain o1 q where s: "s = (o1, q)" by (cases s)
    have "start_call av i (call_of i o1) (o1, q) = (None, t)" using st by (simp add: start_pending_def s)
    from start_call_keeps [OF inv [unfolded s] refl this] show "\<exists>es'. stream_inv base (es @ es') t" by blast
  qed
  show "keeps_parts (start_pending av i)"
  proof (rule keeps_partsI)
    fix o1 q o2 q2 assume st: "start_pending av i (o1, q) = (None, o2, q2)" and a: "all_parted o1"
    have "start_call av i (call_of i o1) (o1, q) = (None, o2, q2)" using st by (simp add: start_pending_def)
    from start_call_parts [OF this a] show "all_parted o2" by simp
  qed
qed

lemma sound_run: "sound base s \<Longrightarrow> (\<And>f. f \<in> set fs \<Longrightarrow> keeps_stream f \<and> keeps_parts f) \<Longrightarrow> run_steps fs s = (None, t) \<Longrightarrow> sound base t"
  by (rule sound_step [where f = "run_steps fs"]) (simp_all add: keeps_run_steps keeps_parts_steps)

lemma start_all_sound:
  assumes "sound base s" "run_steps (map (start_pending av) is) s = (None, t)"
  shows "sound base t"
proof (rule sound_run [OF assms(1) _ assms(2)])
  fix f assume "f \<in> set (map (start_pending av) is)"
  then obtain i where "f = start_pending av i" unfolding set_map by (rule imageE)
  then show "keeps_stream f \<and> keeps_parts f" by (simp add: start_pending_keeps)
qed

lemma complete_sound:
  assumes so: "sound base s" and c: "complete av s = (Inr v, t)"
  shows "sound base t \<and> (\<exists>fr. \<forall>x \<in> set (ro_items (fst t)). item_closed x \<and> it_status x = response_status fr)"
proof -
  define status where "status = response_status (ro_finish_reason (fst s))"
  obtain e1 s1 where r1: "run_steps (map (start_pending av) (sorted_call_indices (ro_calls (fst s)))) s = (e1, s1)" by (metis surj_pair)
  have e1: "e1 = None" using c r1 by (auto simp: complete_def status_def Let_def split: if_splits option.splits)
  obtain e2 s2 where r2: "run_steps (map (finish_item av status) [0..<length (ro_items (fst s1))]) s1 = (e2, s2)" by (metis surj_pair)
  have e2: "e2 = None" using c r1 r2 e1 by (auto simp: complete_def status_def Let_def split: if_splits option.splits)
  obtain o2 q2 where s2: "s2 = (o2, q2)" by (cases s2)
  have ev: "response_event av (''response.'' @ status) [(''response'', JObj (envelope status s2))] s2 = (None, t)"
    using c r1 r2 e1 e2 by (auto simp: complete_def status_def Let_def split: if_splits option.splits prod.splits)
  have s1: "sound base s1" by (rule start_all_sound [OF so r1 [unfolded e1]])
  then have "\<exists>es. stream_inv base es s1" "\<forall>x \<in> set (ro_items (fst s1)). item_parted x" by (auto simp: sound_def all_parted_def)
  from items_finished [OF this r2 [unfolded e2]]
  have f: "\<exists>es. stream_inv base es s2" "\<forall>x \<in> set (ro_items (fst s2)). item_closed x \<and> it_status x = status \<and> item_parted x" by blast+
  have "\<exists>es. stream_inv base es t" by (rule quiet_keeps [OF f(1) [unfolded s2] ev [unfolded s2]]) simp_all
  moreover have "ro_items (fst t) = ro_items o2" using event_items [OF ev [unfolded s2]] .
  ultimately show ?thesis using f(2) by (auto simp: sound_def all_parted_def s2 status_def)
qed

lemma begin_events_keep: "f \<in> set (begin_events av) \<Longrightarrow> keeps_stream f \<and> keeps_parts f"
proof -
  have ks: "keeps_stream (\<lambda>s. response_event av kind [(''response'', JObj (envelope st s))] s)" for kind st
    unfolding keeps_stream_def
  proof (intro allI impI)
    fix base es s t assume inv: "stream_inv base es s" and ev: "response_event av kind [(''response'', JObj (envelope st s))] s = (None, t)"
    obtain o1 q where s: "s = (o1, q)" by (cases s)
    have "slots_ok o1" using inv by (simp add: s stream_inv_def)
    then show "\<exists>es'. stream_inv base (es @ es') t"
      by (intro quiet_step [OF inv [unfolded s] ev [unfolded s] refl refl refl]) simp_all
  qed
  have kp: "keeps_parts (\<lambda>s. response_event av kind [(''response'', JObj (envelope st s))] s)" for kind st
  proof (rule keeps_partsI)
    fix o1 q o2 q2
    assume ev: "response_event av kind [(''response'', JObj (envelope st (o1, q)))] (o1, q) = (None, o2, q2)" and a: "all_parted o1"
    show "all_parted o2" using parted_event [OF ev] a by simp
  qed
  assume "f \<in> set (begin_events av)"
  then obtain kind where "f = (\<lambda>s. response_event av kind [(''response'', JObj (envelope ''in_progress'' s))] s)"
    by (auto simp: begin_events_def)
  then show ?thesis using ks kp by simp
qed

lemma sound_start: "sound (wr_body (rq_writer q)) (new_response_output av True, q)"
proof -
  have "stream_inv (wr_body (rq_writer q)) [] (new_response_output av True, q)"
    by (simp add: stream_inv_def new_response_output_def numbered_def adds_up_def payload_at_def slots_ok_def kind_slot_def split: delta_kind.splits)
  then show ?thesis by (auto simp: sound_def all_parted_def new_response_output_def)
qed

text \<open>
  C17. A Responses stream that ends well is consistent for its reader: the events are numbered 0, 1, 2, ... without a gap,
  the deltas sent for each item, put together, are exactly the text the item closes with (in its one part or its
  arguments), and every item is closed with the same status.
\<close>

theorem response_stream_adds_up:
  assumes p: "pipe_responses_stream av lp it noticed gone resp q = (None, o1, q')"
  shows "\<exists>es fr. wr_body (rq_writer q') = wr_body (rq_writer (if rq_wrote_header q then q else stream_head q)) @ concat (map event_pieces es)
    \<and> numbered es \<and> adds_up es (ro_items o1)
    \<and> (\<forall>x \<in> set (ro_items o1). item_closed x \<and> item_parted x \<and> it_status x = response_status fr)"
proof -
  define h where "h = (if rq_wrote_header q then q else stream_head q)"
  define st where "st = \<lparr>rs_data = [], rs_done = False, rs_meter = new_meter, rs_out = (new_response_output av True, h)\<rparr>"
  let ?b = "wr_body (rq_writer h)"
  note defs = pipe_responses_stream_def Let_def stream_outcome_def
  have h': "(if \<not> rq_wrote_header q then stream_head q else q) = h" by (simp add: h_def)
  obtain e1 s1 where r1: "run_steps (begin_events av) (rs_out st) = (e1, s1)" by (metis surj_pair)
  have e1: "e1 = None" using p r1 by (auto simp: defs h' st_def split: option.splits prod.splits)
  obtain e2 st2 where r2: "read_stream av lp it noticed gone resp (st\<lparr>rs_out := s1\<rparr>) = (e2, st2)" by (metis surj_pair)
  have e2: "e2 = None" using p r1 r2 e1 by (auto simp: defs h' st_def split: option.splits prod.splits)
  obtain o2 q2 where out: "rs_out st2 = (o2, q2)" by (metis surj_pair)
  let ?q2 = "q2\<lparr>rq_ev := meter_finish lp (rs_meter st2) (rq_ev q2)\<rparr>"
  obtain v t where c: "complete av (o2, ?q2) = (v, t)" by (metis surj_pair)
  obtain w where v: "v = Inr w" and t: "o1 = fst t" "rq_writer q' = rq_writer (snd t)"
    using p r1 r2 e1 e2 out c by (cases v) (auto simp: defs h' st_def split: if_splits prod.splits)
  have "sound ?b s1"
    by (rule sound_run [OF _ _ r1 [unfolded e1]]) (auto simp: st_def sound_start begin_events_keep)
  then have "sound ?b (rs_out (st\<lparr>rs_out := s1\<rparr>))" by simp
  from sound_read [OF this r2 [unfolded e2]] out have "sound ?b (o2, ?q2)" by simp
  from complete_sound [OF this c [unfolded v]] obtain fr es where
    "stream_inv ?b es t" "all_parted (fst t)" "\<forall>x \<in> set (ro_items (fst t)). item_closed x \<and> it_status x = response_status fr"
    by (auto simp: sound_def)
  then show ?thesis unfolding t h_def [symmetric]
    by (intro exI [of _ es] exI [of _ fr]) (cases t, simp add: stream_inv_def all_parted_def t(1)) 
qed

text \<open>A stream of one chunk that says hi and stops.\<close>

definition sample_delta :: chat_delta where
  "sample_delta = \<lparr>cd_content = ''hi'', cd_reasoning_content = None, cd_reasoning = [], cd_refusal = [], cd_tool_arguments = []\<rparr>"

definition sample_chunk :: chat_chunk where
  "sample_chunk = \<lparr>ck_usage = None, ck_choices = [\<lparr>cc_index = 0, cc_delta = sample_delta, cc_tool_calls = [],
     cc_finish_reason = Some ''stop''\<rparr>], ck_error = None\<rparr>"

definition sample_adapter :: adapter_env where
  "sample_adapter = \<lparr>av_encoded = \<lambda>_. Some 9, av_io = \<lambda>_. (7, True, True), av_random = \<lambda>n. replicate (n + 1) CHR ''r'', av_tools = [],
     av_decode_chunk = \<lambda>_. Some sample_chunk, av_decode_reply = \<lambda>_. Some sample_chunk\<rparr>"

definition sample_events :: engine_response where
  "sample_events = \<lparr>er_status = 200, er_content_type = [], er_body = ''data: x'' @ [CHR 0x0A, CHR 0x0A] @ ''data: [DONE]'' @ [CHR 0x0A, CHR 0x0A],
     er_end = StreamEof\<rparr>"

lemma sample_event:
  "ro_emit o1 \<Longrightarrow> response_event sample_adapter kind fs (o1, q) =
     (None, o1\<lparr>ro_seq := ro_seq o1 + 1\<rparr>, mark_ttft 7 (write_event kind (stamped_fields kind fs o1) q))"
  by (simp add: response_event_def sample_adapter_def max_upstream_body_def stamped_fields_def)

lemma sample_lines:
  "stream_lines [] (take (max_upstream_body + 1) (er_body sample_events)) =
     ([''data: x'' @ [CHR 0x0A], [CHR 0x0A], ''data: [DONE]'' @ [CHR 0x0A], [CHR 0x0A]], [])"
proof -
  have "take (max_upstream_body + 1) (er_body sample_events) = er_body sample_events"
    by (rule take_all) (simp add: sample_events_def max_upstream_body_def)
  then show ?thesis by (simp add: sample_events_def)
qed

lemma sample_begin: "\<exists>q2. run_steps (begin_events sample_adapter) (new_response_output sample_adapter True, q) =
    (None, (new_response_output sample_adapter True)\<lparr>ro_seq := 2\<rparr>, q2)"
  by (simp add: begin_events_def sample_event new_response_output_def)

definition sample_output :: response_output where
  "sample_output = \<lparr>ro_saw_choice = True, ro_id = ''resp_r'', ro_items = [\<lparr>it_payload = ''hi'', it_id = ''item_rr'', it_type = ''message'',
     it_status = ''in_progress'', it_role = ''assistant'', it_content = [kind_part DeltaText], it_summary = [], it_call_id = [],
     it_name = [], it_namespace = [], it_arguments = []\<rparr>], ro_text = Some 0, ro_reasoning = None, ro_refusal = None,
     ro_calls = [], ro_finish_reason = ''stop'', ro_seq = 5, ro_usage = None, ro_emit = True, ro_drawn = 2\<rparr>"

lemma sample_tools [simp]: "av_random sample_adapter n = replicate (n + 1) CHR ''r''" "av_decode_chunk sample_adapter x = Some sample_chunk"
  by (simp_all add: sample_adapter_def)

lemma sample_chunk_read:
  "\<exists>q2. response_chunk sample_adapter sample_chunk ((new_response_output sample_adapter True)\<lparr>ro_seq := 2\<rparr>, q) = (None, sample_output, q2)"
  by (simp add: response_chunk_def sample_chunk_def response_choice_def choice_steps_def sample_delta_def empty_delta_def
      delta_reasoning_def text_delta_def open_item_def add_item_def extend_item_def sample_event new_response_output_def
      kind_slot_def set_slot_def response_id_def Let_def update_item_def append_payload_def no_item_def kind_item_type_def
      add_part_def sample_output_def)

lemma sample_complete: "\<exists>v t. complete sample_adapter (sample_output, q) = (Inr v, t)"
  by (simp add: complete_def sample_output_def sorted_call_indices_def response_status_def finish_item_def part_done_def item_done_def
      sample_event item_parts_def update_item_def Let_def)

lemma strip_left_none: "list_all (\<lambda>w. \<not> has_prefix w s) ws \<Longrightarrow> strip_left ws s = s"
  by (rule strip_left_id) (auto simp: list_all_iff)
lemma strip_newline: "strip_left (map rev space_runes) (CHR 0x0A # s) = strip_left (map rev space_runes) s"
proof -
  have c: "char_of (9 :: nat) \<noteq> CHR 0x0A" "char_of (10 :: nat) = CHR 0x0A" by code_simp+
  obtain ws where ws: "map rev space_runes = [char_of (9 :: nat)] # [char_of (10 :: nat)] # ws" by (simp add: space_runes_def)
  then have "find (\<lambda>w. w \<noteq> [] \<and> has_prefix w (CHR 0x0A # s)) (map rev space_runes) = Some [CHR 0x0A]"
    by (simp add: has_prefix_def c c(1) [symmetric])
  then show ?thesis by (subst strip_left.simps) simp
qed

lemma trim_newline:
  assumes "list_all (\<lambda>w. \<not> has_prefix w (s @ [CHR 0x0A])) space_runes" "list_all (\<lambda>w. \<not> has_prefix w (rev s)) (map rev space_runes)"
  shows "trim_space (s @ [CHR 0x0A]) = s"
  by (simp add: trim_space_def strip_left_none [OF assms(1)] strip_newline strip_left_none [OF assms(2)])
lemma sample_trim [simp]: "trim_space (''x'' @ [CHR 0x0A]) = ''x''" "trim_space (''[DONE]'' @ [CHR 0x0A]) = ''[DONE]''" "trim_space [] = []"
  by (rule trim_newline; simp add: space_runes_def has_prefix_def char_of_def)+ (simp add: trim_space_def strip_left_none space_runes_def has_prefix_def)

lemmas sample_trim_list [simp] = sample_trim [unfolded append.simps]

lemma sample_read:
  assumes "rs_out st = ((new_response_output sample_adapter True)\<lparr>ro_seq := 2\<rparr>, q)" "rs_data st = []" "\<not> rs_done st"
  shows "\<exists>st' q2. read_stream sample_adapter False [] 0 False sample_events st = (None, st') \<and> rs_done st' \<and> rs_out st' = (sample_output, q2)"
proof -
  obtain m ev where ob: "observe False (metered_chunk sample_chunk) (rs_meter st, rq_ev q) = (m, ev)" by (metis surj_pair)
  obtain q2 where c: "response_chunk sample_adapter sample_chunk ((new_response_output sample_adapter True)\<lparr>ro_seq := 2\<rparr>, q\<lparr>rq_ev := ev\<rparr>)
      = (None, sample_output, q2)" using sample_chunk_read by blast
  have "length (er_body sample_events) \<le> max_upstream_body" by (simp add: sample_events_def max_upstream_body_def)
  then show ?thesis unfolding read_stream_def sample_lines Let_def prod.case
    by (simp add: assms ob c read_stream_line_def consume_def trim_line_end_def cut_prefix_def has_prefix_def Let_def
        read_stream_end_def)
qed

lemma sample_pipe:
  "\<exists>o1 q2. pipe_responses_stream sample_adapter False [] 0 False sample_events sample_request = (None, o1, q2)"
proof -
  define h where "h = (if \<not> rq_wrote_header sample_request then stream_head sample_request else sample_request)"
  obtain q2 where b: "run_steps (begin_events sample_adapter) (new_response_output sample_adapter True, h) =
    (None, (new_response_output sample_adapter True)\<lparr>ro_seq := 2\<rparr>, q2)" using sample_begin by blast
  obtain st q3 where r: "read_stream sample_adapter False [] 0 False sample_events \<lparr>rs_data = [], rs_done = False, rs_meter = new_meter,
        rs_out = ((new_response_output sample_adapter True)\<lparr>ro_seq := 2\<rparr>, q2)\<rparr> = (None, st)"
      "rs_done st" "rs_out st = (sample_output, q3)"
    using sample_read [of "\<lparr>rs_data = [], rs_done = False, rs_meter = new_meter,
        rs_out = ((new_response_output sample_adapter True)\<lparr>ro_seq := 2\<rparr>, q2)\<rparr>" q2] by auto
  obtain v t where c: "complete sample_adapter (sample_output, q3\<lparr>rq_ev := meter_finish False (rs_meter st) (rq_ev q3)\<rparr>) = (Inr v, t)"
    using sample_complete by blast
  show ?thesis unfolding pipe_responses_stream_def Let_def h_def [symmetric]
    by (cases t) (simp add: b r c stream_outcome_def)
qed

theorem response_stream_adds_up_witness:
  "\<exists>o1 q2 es. pipe_responses_stream sample_adapter False [] 0 False sample_events sample_request = (None, o1, q2)
     \<and> wr_body (rq_writer q2) = wr_body (rq_writer (stream_head sample_request)) @ concat (map event_pieces es) \<and> numbered es
     \<and> adds_up es (ro_items o1)"
proof -
  obtain o1 q2 where p: "pipe_responses_stream sample_adapter False [] 0 False sample_events sample_request = (None, o1, q2)"
    using sample_pipe by blast
  have "\<not> rq_wrote_header sample_request" by (simp add: sample_request_def new_request_def Let_def)
  then show ?thesis using response_stream_adds_up [OF p] p by auto
qed

section \<open>Streamed in pieces or given whole\<close>

text \<open>The output of a reply that is not streamed: the same, without the events.\<close>

definition whole :: "response_output \<Rightarrow> response_output" where "whole o1 = o1\<lparr>ro_emit := False, ro_seq := 0\<rparr>"

lemma whole_event:
  "response_event av kind fs (o1, q) = (None, o2, q2) \<Longrightarrow> whole o2 = whole o1"
  by (auto simp: whole_def dest!: event_result)

lemma quiet_event [simp]: "response_event av kind fs (whole o1, q) = (None, whole o1, q)"
  by (simp add: response_event_def whole_def)

lemma whole_sel [simp]:
  "ro_items (whole o1) = ro_items o1" "ro_calls (whole o1) = ro_calls o1" "kind_slot k (whole o1) = kind_slot k o1"
  "ro_drawn (whole o1) = ro_drawn o1" "ro_finish_reason (whole o1) = ro_finish_reason o1"
  by (simp_all add: whole_def kind_slot_def split: delta_kind.splits)

lemma whole_update:
  "update_item i f (whole o1) = whole (update_item i f o1)" "set_slot k i (whole o1) = whole (set_slot k i o1)"
  "put_call j c (whole o1) = whole (put_call j c o1)" "whole o1\<lparr>ro_items := xs\<rparr> = whole (o1\<lparr>ro_items := xs\<rparr>)"
  "whole o1\<lparr>ro_drawn := n\<rparr> = whole (o1\<lparr>ro_drawn := n\<rparr>)" "call_of j (whole o1) = call_of j o1"
  by (simp_all add: whole_def update_item_def set_slot_def put_call_def call_of_def split: delta_kind.splits)

lemma add_item_whole:
  "add_item av item (o1, q) = (None, o2, q2) \<Longrightarrow> add_item av item (whole o1, q') = (None, whole o2, q')"
  by (auto simp: add_item_def Let_def whole_update dest!: whole_event)

lemma response_id_whole:
  "response_id av p o1 = (x, o2) \<Longrightarrow> response_id av p (whole o1) = (x, whole o2)"
  by (auto simp: response_id_def whole_update)

lemma open_item_whole:
  assumes op: "open_item av k (o1, q) = (None, o2, q2)"
  shows "open_item av k (whole o1, q') = (None, whole o2, q')"
proof -
  obtain iid o3 where r: "response_id av ''item'' o1 = (iid, o3)" by (metis surj_pair)
  let ?i = "length (ro_items o3)"
  obtain e o4 q4 where ad: "add_item av (no_item iid (kind_item_type k)) (set_slot k ?i o3, q) = (e, o4, q4)" by (metis surj_pair)
  have e: "e = None" using op ad r by (auto simp: open_item_def Let_def split: option.splits)
  have "whole o2 = whole (update_item ?i (add_part k) o4)"
    using op ad r e by (auto simp: open_item_def Let_def dest!: whole_event)
  then show ?thesis
    using add_item_whole [OF ad [unfolded e]] response_id_whole [OF r] by (simp add: open_item_def Let_def whole_update)
qed

lemma extend_item_whole:
  "extend_item av k tx (o1, q) = (None, o2, q2) \<Longrightarrow> extend_item av k tx (whole o1, q') = (None, whole o2, q')"
  by (auto simp: extend_item_def Let_def whole_update dest!: whole_event)

lemma extend_item_result:
  "extend_item av k tx (o1, q) = (None, o2, q2) \<Longrightarrow>
     whole o2 = whole (update_item (case kind_slot k o1 of Some i \<Rightarrow> i | None \<Rightarrow> 0) (append_payload tx) o1)"
  by (auto simp: extend_item_def Let_def dest!: whole_event)

lemma text_delta_whole:
  assumes d: "text_delta av k tx (o1, q) = (None, o2, q2)"
  shows "text_delta av k tx (whole o1, q') = (None, whole o2, q')"
proof (cases "tx = []")
  case True
  then show ?thesis using d by (simp add: text_delta_def)
next
  case False
  obtain e o3 q3 where o: "(if kind_slot k o1 = None then open_item av k (o1, q) else (None, o1, q)) = (e, o3, q3)" by (metis surj_pair)
  then have e: "e = None" and x: "extend_item av k tx (o3, q3) = (None, o2, q2)"
    using d False by (auto simp: text_delta_def split: option.splits)
  have "(if kind_slot k o1 = None then open_item av k (whole o1, q') else (None, whole o1, q')) = (None, whole o3, q')"
    using o e open_item_whole [of av k o1 q o3 q3 q'] by (auto split: if_splits)
  then show ?thesis using False extend_item_whole [OF x] by (simp add: text_delta_def)
qed

text \<open>Two deltas of a kind are one.\<close>

lemma update_twice: "update_item i f (update_item i g o1) = update_item i (f \<circ> g) o1"
  by (cases "i < length (ro_items o1)") (simp_all add: update_item_def list_update_beyond)

lemma append_append: "append_payload b \<circ> append_payload a = append_payload (a @ b)"
  by (rule ext) (simp add: append_payload_def)

lemma quiet_extend: "kind_slot k o1 = Some i \<Longrightarrow>
    extend_item av k tx (whole o1, q) = (None, whole (update_item i (append_payload tx) o1), q)"
  by (simp add: extend_item_def Let_def whole_update)

lemma text_delta_joins:
  assumes "text_delta av k a (whole o1, q) = (None, whole o2, q)" "text_delta av k b (whole o2, q) = (None, whole o3, q)"
  shows "text_delta av k (a @ b) (whole o1, q) = (None, whole o3, q)"
proof (cases "a = [] \<or> b = []")
  case True
  have "text_delta av k [] s = (None, s)" for s by (simp add: text_delta_def)
  then show ?thesis using True assms by (metis (no_types) Pair_inject append_Nil append_Nil2)
next
  case False
  obtain e o4 q4 where o: "(if kind_slot k o1 = None then open_item av k (whole o1, q) else (None, whole o1, q)) = (e, o4, q4)"
    by (metis surj_pair)
  have e: "e = None" and x: "extend_item av k a (o4, q4) = (None, whole o2, q)"
    using assms(1) False o by (auto simp: text_delta_def split: option.splits)
  obtain i where k: "kind_slot k o4 = Some i"
    using o e open_item_slot [of av k "(whole o1, q)" o4 q4] by (cases "kind_slot k o1") auto
  have w: "whole o1 = whole (whole o1)" by (simp add: whole_def)
  have "(if kind_slot k o1 = None then open_item av k (whole (whole o1), q) else (None, whole (whole o1), q)) = (None, whole o4, q)"
    using o e open_item_whole [of av k "whole o1" q o4 q4 q] by (auto split: if_splits)
  then have q4: "q4 = q" "o4 = whole o4" using o unfolding w [symmetric] by simp_all
  have o2: "whole o2 = whole (update_item i (append_payload a) o4)" using x quiet_extend [OF k, of av a q] q4 by simp
  then have k2: "kind_slot k o2 = Some i" by (metis k update_item_sel(4) whole_sel(3))
  have "whole o3 = whole (update_item i (append_payload b) o2)"
    using assms(2) False k2 quiet_extend [OF k2, of av b q] by (simp add: text_delta_def)
  also have "\<dots> = whole (update_item i (append_payload (a @ b)) o4)"
    by (metis o2 append_append update_twice whole_update(1))
  finally show ?thesis using False o e q4 quiet_extend [OF k, of av "a @ b" q] by (simp add: text_delta_def)
qed

text \<open>
  C18. However the engine cuts a text into deltas, and although each delta is sent as an event, the reply comes to what one
  delta with the whole text comes to in a reply that is not streamed: the same items, the same places, the same ids.
\<close>

theorem streamed_equals_whole:
  assumes "run_steps (map (text_delta av k) ds) (o1, q) = (None, o2, q2)"
  shows "text_delta av k (concat ds) (whole o1, q') = (None, whole o2, q')"
  using assms
proof (induction ds arbitrary: o1 q)
  case Nil
  then show ?case by (simp add: text_delta_def)
next
  case (Cons d ds)
  obtain o3 q3 where d: "text_delta av k d (o1, q) = (None, o3, q3)" and r: "run_steps (map (text_delta av k) ds) (o3, q3) = (None, o2, q2)"
    using Cons.prems by (auto split: option.splits prod.splits)
  show ?case using text_delta_joins [OF text_delta_whole [OF d] Cons.IH [OF r]] by simp
qed

theorem streamed_equals_whole_witness:
  "\<exists>o2 q2. run_steps (map (text_delta sample_adapter DeltaText) [''h'', ''i'']) (new_response_output sample_adapter True, sample_request) = (None, o2, q2)
     \<and> text_delta sample_adapter DeltaText ''hi'' (whole (new_response_output sample_adapter True), sample_request) = (None, whole o2, sample_request)
     \<and> ro_items o2 \<noteq> []"
proof -
  have "\<exists>o2 q2. run_steps (map (text_delta sample_adapter DeltaText) [''h'', ''i'']) (new_response_output sample_adapter True, sample_request) = (None, o2, q2)
     \<and> ro_items o2 \<noteq> []"
    by (simp add: text_delta_def open_item_def add_item_def extend_item_def sample_event new_response_output_def
      kind_slot_def set_slot_def response_id_def Let_def update_item_def)
  then obtain o2 q2 where
    "run_steps (map (text_delta sample_adapter DeltaText) [''h'', ''i'']) (new_response_output sample_adapter True, sample_request) = (None, o2, q2)"
    "ro_items o2 \<noteq> []" by blast
  then show ?thesis using streamed_equals_whole [of sample_adapter DeltaText "[''h'', ''i'']" _ sample_request o2 q2 sample_request] by auto
qed

end
