(* ===== verification/Utf8.thy ===== *)
theory Utf8
  imports Prelude
begin

text \<open>
  UTF-8 as Go's \<open>unicode/utf8\<close> judges it, on strings of bytes, and cutting a text to a length without splitting a character.
\<close>

definition cont :: "char \<Rightarrow> bool" where "cont c \<longleftrightarrow> 128 \<le> byte c \<and> byte c < 192"

text \<open>The number of bytes a first byte announces; 0 for a byte that starts nothing.\<close>

definition utf8_width :: "char \<Rightarrow> nat" where
  "utf8_width c =
     (let b = byte c in
      if b < 128 then 1 else if b < 194 then 0 else if b < 224 then 2 else if b < 240 then 3 else if b < 245 then 4 else 0)"

text \<open>The second byte of a longer character has a narrower range after some first bytes.\<close>

definition second_ok :: "char \<Rightarrow> char \<Rightarrow> bool" where
  "second_ok c d \<longleftrightarrow> cont d \<and> (byte c = 224 \<longrightarrow> 160 \<le> byte d) \<and> (byte c = 237 \<longrightarrow> byte d < 160)
     \<and> (byte c = 240 \<longrightarrow> 144 \<le> byte d) \<and> (byte c = 244 \<longrightarrow> byte d < 144)"

definition char_ok :: "string \<Rightarrow> bool" where
  "char_ok cs \<longleftrightarrow> cs \<noteq> [] \<and> length cs = utf8_width (hd cs) \<and> (2 \<le> length cs \<longrightarrow> second_ok (hd cs) (cs ! 1)) \<and> list_all cont (tl cs)"

function valid_utf8 :: "string \<Rightarrow> bool" where
  "valid_utf8 s =
     (if s = [] then True
      else (let n = utf8_width (hd s) in
            if n = 0 \<or> n > length s then False else if char_ok (take n s) then valid_utf8 (drop n s) else False))"
  by pat_completeness auto
termination by (relation "measure length") auto

declare valid_utf8.simps [simp del]

lemma valid_nil [simp]: "valid_utf8 []"
  by (subst valid_utf8.simps) simp

lemma valid_append_char:
  assumes "char_ok cs"
  shows "valid_utf8 (cs @ s) = valid_utf8 s"
proof -
  have w: "utf8_width (hd cs) = length cs" "cs \<noteq> []" using assms by (simp_all add: char_ok_def)
  then show ?thesis using assms by (subst valid_utf8.simps) (simp add: Let_def)
qed

lemma valid_split:
  assumes "valid_utf8 s" "s \<noteq> []"
  obtains cs r where "s = cs @ r" "char_ok cs" "valid_utf8 r"
proof -
  have "char_ok (take (utf8_width (hd s)) s)" "valid_utf8 (drop (utf8_width (hd s)) s)"
    using assms by (subst (asm) valid_utf8.simps, simp add: Let_def split: if_splits)+
  then show ?thesis using that append_take_drop_id by metis
qed

lemma ascii_valid: "list_all (\<lambda>c. byte c < 128) s \<Longrightarrow> valid_utf8 s"
proof (induction s)
  case (Cons c s)
  have "char_ok [c]" using Cons.prems by (simp add: char_ok_def utf8_width_def)
  from valid_append_char [OF this, of s] Cons show ?case by simp
qed simp

lemma utf8_width_le: "utf8_width c \<le> 4"
  by (simp add: utf8_width_def Let_def)

lemma char_ok_length: "char_ok cs \<Longrightarrow> 1 \<le> length cs \<and> length cs \<le> 4"
  using utf8_width_le [of "hd cs"] by (cases cs) (auto simp: char_ok_def)

text \<open>\<open>for !utf8.ValidString(text) \{ text = text[:len(text)-1] \}\<close>.\<close>

fun drop_until_valid :: "nat \<Rightarrow> string \<Rightarrow> string" where
  "drop_until_valid 0 s = s"
| "drop_until_valid (Suc n) s = (if valid_utf8 s then s else drop_until_valid n (butlast s))"

definition cut_valid :: "string \<Rightarrow> string" where "cut_valid s = drop_until_valid (length s) s"

lemma drop_until_valid_spec:
  "length s \<le> n \<Longrightarrow> valid_utf8 (drop_until_valid n s) \<and> (\<exists>k. drop_until_valid n s = take k s)
     \<and> (\<forall>k \<le> length s. valid_utf8 (take k s) \<longrightarrow> k \<le> length (drop_until_valid n s))"
proof (induction n arbitrary: s)
  case (Suc n)
  show ?case
  proof (cases "valid_utf8 s")
    case True
    then show ?thesis by (auto intro: exI [of _ "length s"])
  next
    case False
    then have ne: "s \<noteq> []" by auto
    then have "length (butlast s) \<le> n" using Suc.prems by (cases s) auto
    note ih = Suc.IH [OF this]
    have "k \<le> length s - 1" if "valid_utf8 (take k s)" "k \<le> length s" for k
      using that False by (cases "k = length s") auto
    moreover have "take k (butlast s) = take k s" if "k \<le> length s - 1" for k
      using that by (simp add: butlast_conv_take min_absorb2)
    ultimately show ?thesis using ih False by (auto simp: butlast_conv_take) 
  qed
qed simp

lemma cut_valid_spec:
  "valid_utf8 (cut_valid s)" "\<exists>k. cut_valid s = take k s" "k \<le> length s \<Longrightarrow> valid_utf8 (take k s) \<Longrightarrow> k \<le> length (cut_valid s)"
  using drop_until_valid_spec [of s "length s"] by (auto simp: cut_valid_def)

text \<open>Some valid prefix is at most three bytes shorter than a limit that lies inside a valid text.\<close>

lemma valid_prefix_near:
  "valid_utf8 s \<Longrightarrow> n \<le> length s \<Longrightarrow> \<exists>k. k \<le> n \<and> n \<le> k + 3 \<and> valid_utf8 (take k s)"
proof (induction "length s" arbitrary: s n rule: less_induct)
  case less
  show ?case
  proof (cases "n \<le> 3")
    case True
    then show ?thesis by (intro exI [of _ 0]) simp
  next
    case False
    then have "s \<noteq> []" using less.prems(2) by auto
    then obtain cs r where s: "s = cs @ r" "char_ok cs" "valid_utf8 r" using valid_split less.prems(1) by blast
    note l = char_ok_length [OF s(2)]
    then have "length cs \<le> n" using False by linarith
    then have "n - length cs \<le> length r" "length r < length s" using less.prems(2) l by (auto simp: s(1))
    from less.hyps [OF this(2) s(3) this(1)] obtain k where k: "k \<le> n - length cs" "n - length cs \<le> k + 3" "valid_utf8 (take k r)" by blast
    then show ?thesis using \<open>length cs \<le> n\<close> by (intro exI [of _ "length cs + k"]) (simp add: s(1) valid_append_char [OF s(2)], linarith)
  qed
qed

lemma cut_valid_near: "valid_utf8 s \<Longrightarrow> n \<le> length s \<Longrightarrow> n \<le> length (cut_valid (take n s)) + 3"
proof -
  assume v: "valid_utf8 s" and n: "n \<le> length s"
  obtain k where k: "k \<le> n" "n \<le> k + 3" "valid_utf8 (take k s)" using valid_prefix_near [OF v n] by blast
  have "k \<le> length (cut_valid (take n s))" by (rule cut_valid_spec(3)) (use k n in \<open>auto simp: min_absorb1\<close>)
  then show ?thesis using k by linarith
qed

end
