(* ===== verification/Search.thy ===== *)
theory Search
  imports Run_Retained Limiter Utf8
begin

text \<open>
  The web search of the host (internal/gateway/search.go): the text a search gives the model, the daily budget of searches, and
  the tool call of a chat run, whose step and result are kept with the run. The search service is a parameter: its results, or
  none for any reply that is not a list of results.
\<close>

definition search_output_limit :: nat where "search_output_limit = 16384"

section \<open>The key file\<close>

text \<open>\<open>OpenSearch\<close> on what was read of the file, at most 4097 bytes; the answer is the credential.\<close>

definition open_search :: "string option \<Rightarrow> run_error + string" where
  "open_search file_text =
     (case file_text of
        None \<Rightarrow> Inl (ErrOther ''search key file unavailable'')
      | Some b \<Rightarrow>
          (let k = trim_space b in
           if length b > 4096 \<or> k = [] \<or> list_ex (\<lambda>c. c = CHR 0x0D \<or> c = CHR 0x0A) k
           then Inl (ErrOther ''search key file invalid'') else Inr k))"

section \<open>The text of a search\<close>

record search_hit =
  sh_title :: string
  sh_url :: string
  sh_highlights :: "string list"

text \<open>\<open>strings.Join\<close>.\<close>

fun join_texts :: "string \<Rightarrow> string list \<Rightarrow> string" where
  "join_texts sep [] = []"
| "join_texts sep [x] = x"
| "join_texts sep (x # xs) = x @ sep @ join_texts sep xs"

definition search_entry :: "nat \<Rightarrow> search_hit \<Rightarrow> string" where
  "search_entry i r =
     itoa (int i + 1) @ ''. '' @ sh_title r @ [CHR 0x0A] @ sh_url r @ [CHR 0x0A] @ join_texts '' '' (sh_highlights r) @ [CHR 0x0A, CHR 0x0A]"

fun search_entries :: "nat \<Rightarrow> int \<Rightarrow> search_hit list \<Rightarrow> string \<Rightarrow> string" where
  "search_entries i count [] out = out"
| "search_entries i count (r # rs) out =
     (if int i \<ge> count then out
      else (let out = out @ search_entry i r in
            if length out \<ge> search_output_limit then out else search_entries (i + 1) count rs out))"

definition search_full :: "int \<Rightarrow> search_hit list \<Rightarrow> string" where
  "search_full count hits = trim_space (search_entries 0 count hits [])"

definition search_text :: "int \<Rightarrow> search_hit list \<Rightarrow> string" where
  "search_text count hits =
     (let tx = search_full count hits in
      if tx = [] then ''no results''
      else if length tx > search_output_limit then cut_valid (take search_output_limit tx) else tx)"

definition search_query :: "int \<Rightarrow> search_hit list option \<Rightarrow> string \<times> bool" where
  "search_query count hits = (case hits of None \<Rightarrow> (''search unavailable'', False) | Some rs \<Rightarrow> (search_text count rs, True))"

text \<open>
  What a search gives the model is at most sixteen kilobytes; a longer text is cut without splitting a character, so that at
  most three bytes of the room are lost.
\<close>

theorem search_text_bounded:
  "length (search_text count hits) \<le> search_output_limit
    \<and> (valid_utf8 (search_full count hits) \<longrightarrow> valid_utf8 (search_text count hits)
        \<and> (search_output_limit < length (search_full count hits) \<longrightarrow> search_output_limit \<le> length (search_text count hits) + 3))"
proof (cases "search_output_limit < length (search_full count hits)")
  case True
  then have tx: "search_text count hits = cut_valid (take search_output_limit (search_full count hits))"
    by (auto simp: search_text_def Let_def)
  obtain k where "cut_valid (take search_output_limit (search_full count hits)) = take k (take search_output_limit (search_full count hits))" using cut_valid_spec(2) by blast
  then have "length (cut_valid (take search_output_limit (search_full count hits))) \<le> search_output_limit" by simp
  then show ?thesis using cut_valid_spec(1) cut_valid_near [of "search_full count hits" search_output_limit] True unfolding tx by auto
next
  case False
  have "valid_utf8 ''no results''" by (simp add: ascii_valid byte_def)
  then show ?thesis using False by (simp add: search_text_def Let_def search_output_limit_def)
qed

section \<open>The daily budget\<close>

definition search_limit :: "limits \<Rightarrow> int" where "search_limit lims = budget_amount (limit_budgets lims) ''search'' ''day''"

definition search_midnight :: "gotime \<Rightarrow> gotime" where "search_midnight now = truncate_day now + day_length"

text \<open>The reservation before the search, and the settlement after it: only an attempted search is charged.\<close>

definition search_reserve :: "gotime \<Rightarrow> limits \<Rightarrow> key_state \<Rightarrow> gw_error option \<times> key_state" where
  "search_reserve now lims st =
     (let st = prune now st; m = meter ''search'' st; limit = search_limit lims in
      if limit > 0 \<and> ms_today m + ms_reserved m \<ge> of_int limit
      then (Some (errf CodeBudgetExhausted (seconds_until (search_midnight now) now) ''search budget exhausted: %d searches per UTC day'' [FInt limit]), st)
      else (None, set_meter ''search'' (m\<lparr>ms_reserved := ms_reserved m + 1\<rparr>) st))"

definition search_settle :: "gotime \<Rightarrow> bool \<Rightarrow> key_state \<Rightarrow> key_state" where
  "search_settle now attempted st =
     (let st = prune now st; m = meter ''search'' st in
      set_meter ''search'' (m\<lparr>ms_reserved := ms_reserved m - 1, ms_today := (if attempted then ms_today m + 1 else ms_today m)\<rparr>) st)"

definition search_event :: "gotime \<Rightarrow> gotime \<Rightarrow> string \<Rightarrow> bool \<Rightarrow> event" where
  "search_event start settled kid valid =
     empty_event\<lparr>ev_ts := start, ev_settled_at := settled, ev_key_id := kid, ev_endpoint := ''web_search'', ev_kind := ''search'',
       ev_status := (if valid then 200 else 502), ev_code := (if valid then [] else code_str CodeUpstreamError),
       ev_total_ms := (settled - start) div 1000000,
       ev_meters := Some [\<lparr>um_class = ''search'', um_unit = ''requests'', um_measured = (if valid then 1 else 0), um_charged = 1\<rparr>]\<rparr>"

text \<open>
  \<open>Gateway.search\<close>: \<open>gone\<close> is an ended context, seen after the reservation; the events are those handed to the recorder.
\<close>

definition gateway_search ::
    "gotime \<Rightarrow> gotime \<Rightarrow> limits \<Rightarrow> string \<Rightarrow> bool \<Rightarrow> int \<Rightarrow> search_hit list option \<Rightarrow> key_state \<Rightarrow> (run_error + string) \<times> key_state \<times> event list" where
  "gateway_search start settled lims kid gone count hits st =
     (case search_reserve start lims st of
        (Some e, st) \<Rightarrow> (Inl (ErrGateway e), st, [])
      | (None, st) \<Rightarrow>
          if gone then (Inl (ErrOther ''context canceled''), search_settle settled False st, [])
          else (case search_query count hits of (tx, valid) \<Rightarrow>
                  (Inr tx, search_settle settled True st, [search_event start settled kid valid])))"

text \<open>A search of a key begins, or something else happens to its meters: a search settles, the day turns, another class is used.\<close>

definition search_grant :: "limits \<Rightarrow> key_state \<Rightarrow> key_state \<Rightarrow> bool" where
  "search_grant lims s s' \<longleftrightarrow> (\<exists>now. search_reserve now lims s = (None, s'))"

definition search_release :: "limits \<Rightarrow> key_state \<Rightarrow> key_state \<Rightarrow> bool" where
  "search_release lims s s' \<longleftrightarrow> (\<exists>now attempted. s' = search_settle now attempted s) \<or> (\<exists>now e. search_reserve now lims s = (Some e, s'))
     \<or> (\<exists>now. s' = prune now s) \<or> meter ''search'' s' = meter ''search'' s"

definition searches_ok :: "key_state \<Rightarrow> bool" where
  "searches_ok st \<longleftrightarrow> 0 \<le> ms_today (meter ''search'' st) \<and> ms_today (meter ''search'' st) \<in> \<int> \<and> ms_reserved (meter ''search'' st) \<in> \<int>"

lemma searches_prune: "searches_ok s \<Longrightarrow> searches_ok (prune now s) \<and> meter_total ''search'' (prune now s) \<le> meter_total ''search'' s"
  by (simp add: searches_ok_def meter_total_def)

lemma search_grant_within:
  assumes "searches_ok s" "0 < search_limit lims" "search_grant lims s s'"
  shows "searches_ok s' \<and> meter_total ''search'' s' \<le> of_int (search_limit lims)"
proof -
  obtain now where r: "search_reserve now lims s = (None, s')" using assms(3) by (auto simp: search_grant_def)
  let ?m = "meter ''search'' (prune now s)"
  have s': "s' = set_meter ''search'' (?m\<lparr>ms_reserved := ms_reserved ?m + 1\<rparr>) (prune now s)"
    and lt: "ms_today ?m + ms_reserved ?m < of_int (search_limit lims)"
    using r assms(2) by (auto simp: search_reserve_def Let_def not_le simp del: prune_sel split: if_splits)
  have ok: "searches_ok (prune now s)" using searches_prune [OF assms(1)] by blast
  then have "ms_today ?m + ms_reserved ?m \<in> \<int>" unfolding searches_ok_def by (intro Ints_add) blast+
  then obtain z where z: "ms_today ?m + ms_reserved ?m = of_int z" by (rule Ints_cases)
  then have "z + 1 \<le> search_limit lims" using lt by simp
  then have "of_int z + 1 \<le> (of_int (search_limit lims) :: rat)" by (metis of_int_1 of_int_add of_int_le_iff)
  then have "meter_total ''search'' s' \<le> of_int (search_limit lims)"
    unfolding s' meter_total_def using z by (simp del: prune_sel add: add.assoc [symmetric])
  moreover have "searches_ok s'" using ok unfolding s' searches_ok_def by (simp del: prune_sel)
  ultimately show ?thesis by blast
qed

lemma search_settle_within:
  assumes "searches_ok s"
  shows "searches_ok (search_settle now attempted s) \<and> meter_total ''search'' (search_settle now attempted s) \<le> meter_total ''search'' s"
proof -
  let ?m = "meter ''search'' (prune now s)"
  have p: "searches_ok (prune now s)" "meter_total ''search'' (prune now s) \<le> meter_total ''search'' s" using searches_prune [OF assms] by blast+
  have m: "meter ''search'' (search_settle now attempted s) =
      ?m\<lparr>ms_reserved := ms_reserved ?m - 1, ms_today := (if attempted then ms_today ?m + 1 else ms_today ?m)\<rparr>"
    by (simp add: search_settle_def Let_def del: prune_sel)
  have "searches_ok (search_settle now attempted s)" using p(1) unfolding searches_ok_def m by (simp del: prune_sel)
  then show ?thesis using p(2) unfolding meter_total_def m by (simp del: prune_sel)
qed

interpretation search_day: ceiling "meter_total ''search''" "of_int (search_limit lims)" "\<lambda>s. searches_ok s \<and> 0 < search_limit lims"
  "search_grant lims" "search_release lims" for lims
proof (unfold_locales, goal_cases)
  case (1 s s')
  then show ?case using search_grant_within by blast
next
  case (2 s s')
  have "searches_ok s' \<and> meter_total ''search'' s' \<le> meter_total ''search'' s" if "search_reserve now lims s = (Some e, s')" for now e
  proof -
    have "s' = prune now s" using that by (auto simp: search_reserve_def Let_def split: if_splits)
    then show ?thesis using searches_prune 2(1) by blast
  qed
  then show ?case using 2 search_settle_within searches_prune
    unfolding search_release_def by (auto simp: searches_ok_def meter_total_def simp del: prune_sel)
qed


section \<open>A sample search\<close>

definition sample_hit :: search_hit where "sample_hit = \<lparr>sh_title = ''a'', sh_url = ''u'', sh_highlights = [''h'']\<rparr>"

lemma strip_left_suffix: "set (strip_left rs s) \<subseteq> set s"
proof (induction rs s rule: strip_left.induct)
  case (1 rs s)
  then show ?case by (subst strip_left.simps) (auto split: option.splits if_splits dest: in_set_dropD)
qed

lemma trim_space_set: "set (trim_space s) \<subseteq> set s"
  using strip_left_suffix [of "map rev space_runes" "rev (strip_left space_runes s)"] strip_left_suffix [of space_runes s]
  by (auto simp: trim_space_def)

lemma sample_hit_full: "valid_utf8 (search_full 1 [sample_hit])"
proof -
  have "search_entries 0 1 [sample_hit] [] = [CHR ''1'', CHR ''.'', CHR '' '', CHR ''a'', CHR 0x0A, CHR ''u'', CHR 0x0A, CHR ''h'', CHR 0x0A, CHR 0x0A]"
    by (simp add: search_entry_def sample_hit_def search_output_limit_def itoa_def Let_def digits.simps digit_char_def) (simp add: char_of_def bit_simps)
  moreover have "\<forall>c \<in> {CHR ''1'', CHR ''.'', CHR '' '', CHR ''a'', CHR 0x0A, CHR ''u'', CHR ''h''}. byte c < 128" by (simp add: byte_def)
  ultimately have "\<forall>c \<in> set (search_full 1 [sample_hit]). byte c < 128"
    using trim_space_set [of "search_entries 0 1 [sample_hit] []"] by (force simp: search_full_def simp del: search_entries.simps)
  then show ?thesis by (intro ascii_valid) (simp add: list_all_iff)
qed

theorem search_text_bounded_witness:
  "length (search_text 1 [sample_hit]) \<le> search_output_limit \<and> valid_utf8 (search_text 1 [sample_hit])"
  using search_text_bounded [of 1 "[sample_hit]"] sample_hit_full by blast

definition search_sample_limits :: limits where
  "search_sample_limits = default_limits\<lparr>lm_search_per_day := 5\<rparr>"


end
