(* ===== verification/Image_Batch.thy ===== *)
theory Image_Batch
  imports Run_Manager Image_Ledger
begin

text \<open>
  Where runs and the image ledger meet (prepareImageBatch in internal/gateway/images.go): a batch of image runs holds its part
  of the key's daily budget before it is stored, in the hook that the store calls while it creates the batch, and gives it back
  when the batch is refused after all.
\<close>

definition image_hook :: "gotime \<Rightarrow> limits \<Rightarrow> key_state batch_hook" where
  "image_hook now lims rows st =
     (case reserve_images now lims (map rn_id rows) st of
        (Some e, st) \<Rightarrow> (Inl (ErrGateway e), st)
      | (None, st) \<Rightarrow> (Inr (fold (\<lambda>r. release_image_reservation (rn_id r)) rows), st))"

text \<open>\<open>all_keys\<close> is the key list, or none when the store cannot be read; \<open>offer\<close> is the image offer of a key.\<close>

definition prepare_image_batch ::
    "(run_error + key list) \<Rightarrow> bool \<Rightarrow> (key \<Rightarrow> gw_error + image_offer) \<Rightarrow> gotime \<Rightarrow> string \<Rightarrow> run_error + int \<times> key_state batch_hook" where
  "prepare_image_batch all_keys history_bad offer now kid =
     (case all_keys of
        Inl e \<Rightarrow> Inl e
      | Inr ks \<Rightarrow>
          (case find (\<lambda>k. k_id k = kid) ks of
             None \<Rightarrow> Inl ErrNotFound
           | Some k \<Rightarrow>
               if k_status k \<noteq> Active then
                 Inl (ErrGateway (errf (if k_status k = Revoked then CodeKeyRevoked else CodeKeyPaused) 0 ''key is not active'' []))
               else if history_bad then Inl (ErrGateway (errf CodeUpstreamDown 1 ''resource usage history unavailable'' []))
               else (case offer k of
                       Inl e \<Rightarrow> Inl (ErrGateway e)
                     | Inr _ \<Rightarrow> Inr (image_queue_cap (k_limits k), image_hook now (k_limits k)))))"

section \<open>Holds come and go with the batch\<close>

lemma release_fold_holds:
  "ks_image_holds (fold (\<lambda>r. release_image_reservation (rn_id r)) rows st) = filter (\<lambda>i. i \<notin> rn_id ` set rows) (ks_image_holds st)"
proof (induction rows arbitrary: st)
  case (Cons r rows)
  have "ks_image_holds (release_image_reservation i st) = filter (\<lambda>j. j \<noteq> i) (ks_image_holds st)" for i
    by (simp add: release_image_reservation_def removeAll_filter_not_eq eq_commute)
  then show ?case by (auto simp: Cons intro!: filter_cong)
qed simp

lemma filter_fold_insert:
  "set ids \<inter> set xs = {} \<Longrightarrow> filter (\<lambda>i. i \<notin> set ids) (fold List.insert ids xs) = xs"
proof -
  have "filter (\<lambda>i. i \<notin> A) (fold List.insert ids xs) = filter (\<lambda>i. i \<notin> A) xs" if "set ids \<subseteq> A" for A xs
    using that by (induction ids arbitrary: xs) (auto simp: List.insert_def)
  moreover assume "set ids \<inter> set xs = {}"
  then have "filter (\<lambda>i. i \<notin> set ids) xs = xs" by (intro filter_True) blast
  ultimately show ?thesis by simp
qed

lemma image_hook_refused: "image_hook now lims rows st = (Inl e, st') \<Longrightarrow> ks_image_holds st' = ks_image_holds st"
  by (auto simp: image_hook_def reserve_images_def Let_def split: if_splits prod.splits option.splits)

lemma image_hook_undone:
  assumes h: "image_hook now lims rows st = (Inr undo, st1)" and fresh: "rn_id ` set rows \<inter> set (ks_image_holds st) = {}"
  shows "ks_image_holds (undo st1) = ks_image_holds st"
proof -
  have "undo = fold (\<lambda>r. release_image_reservation (rn_id r)) rows" "ks_image_holds st1 = fold List.insert (map rn_id rows) (ks_image_holds st)"
    using h by (auto simp: image_hook_def reserve_images_def Let_def split: if_splits prod.splits option.splits)
  then show ?thesis using filter_fold_insert [of "map rn_id rows" "ks_image_holds st"] fresh by (simp add: release_fold_holds)
qed

lemma set_fold_insert [simp]: "set (fold List.insert ids xs) = set xs \<union> set ids"
  by (induction ids arbitrary: xs) auto

lemma image_hook_granted:
  assumes "image_hook now lims rows st = (Inr undo, st1)"
  shows "set (ks_image_holds st1) = set (ks_image_holds st) \<union> rn_id ` set rows"
  using assms by (auto simp: image_hook_def reserve_images_def Let_def split: if_splits prod.splits option.splits)

lemma answered_ids:
  assumes fresh: "fresh_rows added (sn_runs v)" and ne: "added \<noteq> []" and l: "loaded s2 key v"
    and c: "commit en now key (v\<lparr>sn_runs := fold (\<lambda>r. AList.update (rn_id r) r) added (sn_runs v)\<rparr>)
      (Some (state_event (rn_id (hd added)) Queued now)) s2 = (None, w, t)"
    and r: "r \<in> set added"
  shows "rn_id (run_row (rn_id r) w) = rn_id r"
proof -
  let ?m = "fold (\<lambda>r. AList.update (rn_id r) r) added (sn_runs v)"
  have id: "re_run_id (state_event (rn_id (hd added)) Queued now) = rn_id (hd added)" by (simp add: state_event_def)
  have cf: "commit_for en now key (v\<lparr>sn_runs := ?m\<rparr>) (Some (state_event (rn_id (hd added)) Queued now)) (rn_id (hd added)) s2 = (None, w, t)"
    using c by (simp add: commit_def id)
  have "\<not> has_row (rn_id (hd added)) (sn_runs (data_of s2 key))" using l fresh ne by (auto simp: loaded_def fresh_rows_def)
  note st = commit_new_rows [OF cf this]
  have "map_of ?m (rn_id r) = Some r" by (rule add_rows_row [OF fresh r])
  then have "map_of (sn_runs w) (rn_id r) = Some r \<or> map_of (sn_runs w) (rn_id r) = Some (r\<lparr>rn_updated := now\<rparr>)"
    using stamped_map_of [OF st, of "rn_id r"] by auto
  then show ?thesis by (auto simp: row_def)
qed

lemma batch_ids:
  assumes "new_rows en (new_run now cid key kind priority batch n) 0 inputs s0 = (rows, s2)"
  shows "rn_id ` set rows \<subseteq> (\<lambda>j. ''r_'' @ rc_random en j) ` {st_ids s0..<st_ids s0 + length inputs}"
proof
  fix x assume "x \<in> rn_id ` set rows"
  then obtain j where j: "j < length rows" "x = rn_id (rows ! j)" by (auto simp: in_set_conv_nth)
  have r: "rows = map2 (\<lambda>j inp. new_run now cid key kind priority batch n (0 + j) inp (''r_'' @ rc_random en (st_ids s0 + j))) [0..<length inputs] inputs"
    using new_rows_ids [OF assms] by blast
  then have "x = ''r_'' @ rc_random en (st_ids s0 + j)" "j < length inputs" using j by (auto simp: new_run_def)
  then show "x \<in> (\<lambda>j. ''r_'' @ rc_random en j) ` {st_ids s0..<st_ids s0 + length inputs}" by (intro image_eqI [of _ _ "st_ids s0 + j"]) auto
qed

text \<open>
  An image batch and its part of the daily budget stand or fall together: a stored batch holds one image for each of its runs,
  and a batch that is refused at any point, by a limit, by the budget or by the disk, leaves the holds of the key as they were.
\<close>

theorem image_batch_holds:
  assumes s: "store_ok s" "env_ok en" and ld: "load en now key s = (Inr v, s1)"
    and ids: "ids_unused en (st_ids s1 + 1) (length inputs) v"
    and held: "\<And>j. ''r_'' @ rc_random en j \<in> set (ks_image_holds st) \<Longrightarrow> j \<notin> {st_ids s1 + 1..<st_ids s1 + 1 + length inputs}"
    and c: "create_batch en now key ''image'' priority inputs cap correlation (Some (image_hook t0 lims)) (s, st) = (res, t, st')"
  shows "case res of Inl _ \<Rightarrow> ks_image_holds st' = ks_image_holds st
    | Inr rows \<Rightarrow> length rows = length inputs \<and> set (ks_image_holds st') = set (ks_image_holds st) \<union> rn_id ` set rows"
proof -
  define s0 where "s0 = snd (fresh_id en ''b_'' s1)"
  define batch where "batch = fst (fresh_id en ''b_'' s1)"
  define cid where "cid = (if correlation = [] then [] else hd correlation)"
  obtain added s2 where nr: "new_rows en (new_run now cid key ''image'' priority batch (length inputs)) 0 inputs s0 = (added, s2)"
    by (metis surj_pair)
  obtain g st1 where h: "image_hook t0 lims added st = (g, st1)" by (metis surj_pair)
  have i0: "st_ids s0 = st_ids s1 + 1" by (simp add: s0_def fresh_id_def)
  have disjoint: "rn_id ` set added \<inter> set (ks_image_holds st) = {}"
  proof (rule ccontr)
    assume "rn_id ` set added \<inter> set (ks_image_holds st) \<noteq> {}"
    then obtain x where x: "x \<in> rn_id ` set added" "x \<in> set (ks_image_holds st)" by blast
    then obtain j where "x = ''r_'' @ rc_random en j" "j \<in> {st_ids s0..<st_ids s0 + length inputs}"
      using subsetD [OF batch_ids [OF nr] x(1)] by blast
    then show False using held [of j] x(2) unfolding i0 by simp
  qed
  have fb: "fresh_id en ''b_'' s1 = (batch, s0)" by (simp add: s0_def batch_def)
  have stage: "(res, t, st') =
     (case g of Inl e \<Rightarrow> (Inl e, s2, st1)
      | Inr undo \<Rightarrow>
          if int (count_live s2) + int (length inputs) > max_live_host then (Inl ErrLimit, s2, undo st1)
          else (case commit en now key (v\<lparr>sn_runs := fold (\<lambda>r. AList.update (rn_id r) r) added (sn_runs v)\<rparr>)
                       (Some (state_event (rn_id (hd added)) Queued now)) s2 of
                  (Some e, w, s) \<Rightarrow> (Inl e, s, undo st1)
                | (None, w, s) \<Rightarrow> (Inr (map (\<lambda>r. run_row (rn_id r) w) added), s, st1)))"
    if "batch_arguments en ''image'' priority inputs correlation = None" "batch_limit ''image'' (int (length inputs)) cap (sn_runs v) = None"
    using c [unfolded create_batch_def prod.case that(1) option.case ld sum.case that(2) fb, folded cid_def,
      unfolded nr prod.case option.case h] by (rule sym)
  show ?thesis
  proof (cases "batch_arguments en ''image'' priority inputs correlation = None \<and> batch_limit ''image'' (int (length inputs)) cap (sn_runs v) = None")
    case False
    then show ?thesis using c ld by (auto simp: create_batch_def split: option.splits)
  next
    case True
    then have ne: "inputs \<noteq> []" by (auto simp: batch_arguments_def split: if_splits)
    show ?thesis
    proof (cases g)
      case (Inl e)
      then show ?thesis using stage True image_hook_refused h by simp
    next
      case (Inr undo)
      note undone = image_hook_undone [OF h [unfolded Inr] disjoint]
      obtain e w u where cm: "commit en now key (v\<lparr>sn_runs := fold (\<lambda>r. AList.update (rn_id r) r) added (sn_runs v)\<rparr>)
          (Some (state_event (rn_id (hd added)) Queued now)) s2 = (e, w, u)" by (rule prod_cases3)
      show ?thesis
      proof (cases "int (count_live s2) + int (length inputs) > max_live_host \<or> e \<noteq> None")
        case True
        then show ?thesis using stage \<open>_ = None \<and> _ = None\<close> Inr cm undone by (auto split: if_splits)
      next
        case False
        then have res: "res = Inr (map (\<lambda>r. run_row (rn_id r) w) added)" "st' = st1" and e: "e = None"
          using stage True Inr cm by auto
        note nf = new_rows_fresh [OF ids [folded i0] nr]
        have s2: "s2 = s1\<lparr>st_ids := st_ids s2\<rparr>" using new_rows_ids [OF nr] by (simp add: s0_def fresh_id_def)
        have "loaded s1 key v" using load_ok(3) [OF s ld] by simp
        then have l: "loaded s2 key v" by (subst s2) (simp add: loaded_def data_of_def)
        have "added \<noteq> []" using nf ne by auto
        then have "rn_id (run_row (rn_id r) w) = rn_id r" if "r \<in> set added" for r
          using answered_ids [OF conjunct1 [OF nf] _ l cm [unfolded e] that] by blast
        then have "rn_id ` set (map (\<lambda>r. run_row (rn_id r) w) added) = rn_id ` set added" by (force simp: image_image)
        then show ?thesis using image_hook_granted [OF h [unfolded Inr]] nf by (simp add: res)
      qed
    qed
  qed
qed

lemma sample_hook:
  "length rows = 1 \<Longrightarrow> image_hook 7 default_limits rows new_key_state =
     (Inr (fold (\<lambda>r. release_image_reservation (rn_id r)) rows), (prune 7 new_key_state)\<lparr>ks_image_holds := fold List.insert (map rn_id rows) []\<rparr>)"
  by (simp add: image_hook_def reserve_images_def Let_def image_limit_def image_defaults_sel default_limits_def new_key_state_def
      zero_meter_def meter_def prune_def prune_meter_def)

lemma start_image_batch:
  "\<exists>rows t st. create_batch sample_run_env 5 ''k1'' ''image'' ''interactive'' [''x''] 16 [] (Some (image_hook 7 default_limits)) (start_store, new_key_state)
     = (Inr rows, t, st)"
  by (simp add: start_load eval_batch sample_hook, simp add: eval_commit Let_def run_limits safe_id_def id_char_def byte_def
      new_snapshot_def start_store_def new_store_def)

theorem image_batch_holds_witness:
  "\<exists>rows t st. create_batch sample_run_env 5 ''k1'' ''image'' ''interactive'' [''x''] 16 [] (Some (image_hook 7 default_limits))
       (start_store, new_key_state) = (Inr rows, t, st)
     \<and> length rows = 1 \<and> set (ks_image_holds st) = rn_id ` set rows"
proof -
  obtain rows t st where c: "create_batch sample_run_env 5 ''k1'' ''image'' ''interactive'' [''x''] 16 [] (Some (image_hook 7 default_limits))
      (start_store, new_key_state) = (Inr rows, t, st)" using start_image_batch by blast
  have "ids_unused sample_run_env (st_ids (start_store\<lparr>st_accessed := (\<lambda>_. 0)(''k1'' := 5), st_ids := 1,
      st_data := [(''k1'', new_snapshot ''e_a''\<lparr>sn_encoded_bytes := 2\<rparr>)]\<rparr>) + 1) (length [''x'']) (new_snapshot ''e_a''\<lparr>sn_encoded_bytes := 2\<rparr>)"
    by (simp add: ids_unused_def new_snapshot_def has_row_def)
  from image_batch_holds [OF start_store_ok sample_run_env_ok start_load this _ c] c show ?thesis
    by (simp add: new_key_state_def)
qed

end
