(* ===== verification/Chat_Run.thy ===== *)
theory Chat_Run
  imports Host_Tools Search Image_Batch Body
begin

text \<open>
  A chat with host tools (internal/gateway/chat_run.go, the searchTool of search.go, runError of runs.go): the request becomes a
  durable chat run, whose consumer calls the engine in rounds, runs the tools it asks for and collects one answer. The engine is the
  executor of each round with the bytes it streams; the friend's reader of the deltas may refuse one.
\<close>

section \<open>Errors of runs for the friend\<close>

definition run_error_text :: "run_error \<Rightarrow> string" where
  "run_error_text e =
     (case e of
        ErrNeedsAttention \<Rightarrow> ''run store needs operator reclamation''
      | ErrAgentUnavailable \<Rightarrow> ''agent runtime unavailable''
      | ErrStopping \<Rightarrow> ''runtime stopping''
      | ErrQuarantined \<Rightarrow> ''runtime quarantined''
      | ErrQueueLimit \<Rightarrow> ''image queue limit reached''
      | ErrNotFound \<Rightarrow> ''run not found''
      | ErrLimit \<Rightarrow> ''run limit reached''
      | ErrInvalid \<Rightarrow> ''invalid run request''
      | ErrConflict \<Rightarrow> ''run state changed''
      | ErrGateway g \<Rightarrow> error_text g
      | ErrOther s \<Rightarrow> s
      | ErrPanic s \<Rightarrow> s
      | CommittedTerminal r \<Rightarrow> if rn_reason r = [] then ''run ended'' else ''run ended: '' @ rn_reason r)"

definition run_gw_error :: "run_error \<Rightarrow> gw_error" where
  "run_gw_error e =
     (case e of
        ErrGateway g \<Rightarrow> g
      | ErrNeedsAttention \<Rightarrow> errf CodeUpstreamDown 60 ''this key's run store needs the host's attention'' []
      | ErrStopping \<Rightarrow> errf CodeUpstreamDown retry_after_upstream_down ''runtime stopping; retry shortly'' []
      | ErrQuarantined \<Rightarrow> errf CodeUpstreamDown retry_after_upstream_down ''runtime quarantined; retry after recovery'' []
      | ErrAgentUnavailable \<Rightarrow> errf CodeAgentUnavailable 0 ''agent runtime unavailable; ask the host to check agent status before submitting again'' []
      | ErrQueueLimit \<Rightarrow> errf CodeImageQueueFull 1 ''image queue is full'' []
      | ErrNotFound \<Rightarrow> errf CodeNotFound 0 ''run not found'' []
      | ErrLimit \<Rightarrow> errf CodeConcurrencyLimited 1 ''run storage, live-run or subscriber limit reached'' []
      | ErrInvalid \<Rightarrow> errf CodeInvalidRequest 0 ''invalid run request or cursor'' []
      | ErrConflict \<Rightarrow> errf CodeInvalidRequest 0 ''invalid run request or cursor'' []
      | _ \<Rightarrow> errf CodeUpstreamDown 1 ''run store unavailable'' [])"

section \<open>From the request to the run\<close>

record chat_input =
  ci_tools :: "string list"
  ci_body :: jobject
  ci_delivery :: string
  ci_conversation :: string
  ci_client_request_id :: string

text \<open>The two texts that move from the body to the run; the code takes them in the order of a map.\<close>

definition take_text :: "string \<Rightarrow> jobject \<Rightarrow> gw_error + string \<times> jobject" where
  "take_text name body =
     (case jget body name of
        None \<Rightarrow> Inr ([], body)
      | Some (JStr s) \<Rightarrow>
          if length s > 128 then Inl (errf CodeInvalidRequest 0 ''%s must be text of at most 128 bytes'' [FStr name])
          else Inr (s, jdel name body)
      | Some _ \<Rightarrow> Inl (errf CodeInvalidRequest 0 ''%s must be text of at most 128 bytes'' [FStr name]))"

definition chat_input_of :: "string list \<Rightarrow> string \<Rightarrow> jobject \<Rightarrow> gw_error + chat_input" where
  "chat_input_of tools delivery body =
     (case take_text ''conversation'' body of
        Inl e \<Rightarrow> Inl e
      | Inr (conversation, body) \<Rightarrow>
          (case take_text ''client_request_id'' body of
             Inl e \<Rightarrow> Inl e
           | Inr (client, body) \<Rightarrow> Inr \<lparr>ci_tools = tools, ci_body = body, ci_delivery = delivery, ci_conversation = conversation,
                                       ci_client_request_id = client\<rparr>))"

text \<open>
  The input of the run from the tools that were selected. \<open>check\<close> is the normalization that refuses a model or a body;
  \<open>encode\<close> is \<open>json.Marshal\<close>.
\<close>

definition hand_off_input ::
    "(jobject \<Rightarrow> gw_error option) \<Rightarrow> (chat_input \<Rightarrow> string option) \<Rightarrow> string \<Rightarrow> string list \<Rightarrow> jobject \<Rightarrow> gw_error + chat_input \<times> string" where
  "hand_off_input check encode name selected body =
     (case chat_input_of selected name body of
        Inl e \<Rightarrow> Inl e
      | Inr inp \<Rightarrow>
          (case check (ci_body inp) of
             Some e \<Rightarrow> Inl e
           | None \<Rightarrow>
               (case encode inp of
                  Some raw \<Rightarrow> if length raw \<le> max_input then Inr (inp, raw)
                              else Inl (errf CodeBodyTooLarge 0 ''host-tool chat input exceeds the run input limit'' [])
                | None \<Rightarrow> Inl (errf CodeBodyTooLarge 0 ''host-tool chat input exceeds the run input limit'' []))))"

section \<open>Deliveries\<close>

text \<open>Where the deltas of a run go: the connection that submitted it. It is claimed once, by the run it was made for.\<close>

record delivery =
  dl_key :: string
  dl_run :: string

definition claim_delivery :: "string \<Rightarrow> string \<Rightarrow> string \<Rightarrow> (string \<times> delivery) list \<Rightarrow> (run_error + delivery) \<times> (string \<times> delivery) list" where
  "claim_delivery name kid rid ds =
     (case map_of ds name of
        None \<Rightarrow> (Inl (ErrOther ''chat connection unavailable; not replayed''), ds)
      | Some d \<Rightarrow> if dl_key d = kid \<and> dl_run d = rid then (Inr d, AList.delete name ds) else (Inl ErrConflict, ds))"

definition chat_policy :: policy where
  "chat_policy = no_policy\<lparr>po_join_cancel := True, po_in_process := True\<rparr>"

text \<open>
  What \<open>en_hand_off\<close> of the request pipeline stands for: from the selected tools to the submitted run. The lock of the delivery is
  held until the identifier of its run is known, so the submission and the entry are one step.
\<close>

definition chat_hand_off ::
    "run_env \<Rightarrow> gotime \<Rightarrow> (jobject \<Rightarrow> gw_error option) \<Rightarrow> (chat_input \<Rightarrow> string option) \<Rightarrow> string \<Rightarrow> string \<Rightarrow> string list \<Rightarrow> jobject
     \<Rightarrow> manager \<times> (string \<times> delivery) list \<Rightarrow> (gw_error + run) \<times> manager \<times> (string \<times> delivery) list" where
  "chat_hand_off en now check encode name kid selected body = (\<lambda>(m, ds).
     case hand_off_input check encode name selected body of
       Inl e \<Rightarrow> (Inl e, m, ds)
     | Inr (inp, raw) \<Rightarrow>
         (case submit_batch en now kid ''chat'' ''interactive'' [raw] [ci_client_request_id inp] (None :: unit batch_hook option) (m, ()) of
            (Inl e, m, _) \<Rightarrow> (Inl (run_gw_error e), m, AList.delete name ds)
          | (Inr rows, m, _) \<Rightarrow> (Inr (hd rows), m, AList.update name \<lparr>dl_key = kid, dl_run = rn_id (hd rows)\<rparr> ds)))"

section \<open>The tools of a round\<close>

text \<open>\<open>chatKey\<close>: the key as it is now.\<close>

definition chat_key :: "key list option \<Rightarrow> string \<Rightarrow> run_error + key" where
  "chat_key all_keys kid =
     (case all_keys of
        None \<Rightarrow> Inl (ErrOther ''key store unavailable'')
      | Some ks \<Rightarrow>
          (case find (\<lambda>k. k_id k = kid) ks of
             None \<Rightarrow> Inl ErrNotFound
           | Some k \<Rightarrow> if k_status k \<noteq> Active then Inl (ErrOther ''key is not active'') else Inr k))"

datatype search_count = CountAbsent | CountBad | CountIs int

text \<open>
  What a round meets: the clock, the keys, the offer of images, the search service, the decoders, random ids, whether the run's
  context has ended, the engine's stream and the executor's result, and the reader of the deltas. All may differ from round to
  round.
\<close>

record chat_env =
  ce_now :: "nat \<Rightarrow> gotime"
  ce_settled :: "nat \<Rightarrow> gotime"
  ce_keys :: "nat \<Rightarrow> key list option"
  ce_offer :: "nat \<Rightarrow> key \<Rightarrow> gw_error + image_offer"
  ce_history_bad :: bool
  ce_search :: bool
  ce_hits :: "nat \<Rightarrow> string \<Rightarrow> int \<Rightarrow> search_hit list option"
  ce_gone :: "nat \<Rightarrow> bool"
  ce_random :: "nat \<Rightarrow> string"
  ce_decode_search :: "string \<Rightarrow> (string \<times> search_count) option"
  ce_decode_image :: "string \<Rightarrow> ((string \<times> int) \<times> bool) option"
  ce_prompt_ok :: "string \<Rightarrow> bool"
  ce_image_input :: "image_input \<Rightarrow> string"
  ce_tool_result :: "string list \<Rightarrow> string \<Rightarrow> string"
  ce_encode :: "json \<Rightarrow> string"
  ce_decode_chunk :: "string \<Rightarrow> chat_chunk option"
  ce_pieces :: "nat \<Rightarrow> string list"
  ce_refuses :: "nat \<Rightarrow> nat \<Rightarrow> run_error option"
  ce_executor :: "nat \<Rightarrow> executor"
  ce_usage :: "nat \<Rightarrow> int \<times> int"

text \<open>The state the rounds share: the runs, the ledger of the key, and the events handed to the recorder.\<close>

type_synonym chat_world = "manager \<times> key_state \<times> event list"

definition tool_step :: "string \<Rightarrow> gotime \<Rightarrow> string \<Rightarrow> string \<Rightarrow> string \<Rightarrow> string \<Rightarrow> step_event" where
  "tool_step sid at0 kind name tool result =
     \<lparr>se_id = sid, se_type = ''step'', se_at = at0, se_kind = kind, se_name = name, se_tool = tool, se_result = result,
      se_status = ''running'', se_text = [], se_output_id = []\<rparr>"

text \<open>\<open>searchTool\<close>: the answer is the text, whether a search was made, and an error that ends the run.\<close>

definition search_args :: "chat_env \<Rightarrow> string \<Rightarrow> (string \<times> int) option" where
  "search_args ce raw =
     (case ce_decode_search ce raw of
        None \<Rightarrow> None
      | Some (q, c) \<Rightarrow>
          (let n = (case c of CountAbsent \<Rightarrow> Some 3 | CountBad \<Rightarrow> None | CountIs n \<Rightarrow> Some n) in
           case n of
             None \<Rightarrow> None
           | Some n \<Rightarrow> if trim_space q \<noteq> [] \<and> length q \<le> 4096 \<and> 1 \<le> n \<and> n \<le> 5 then Some (q, n) else None))"

definition search_outcome ::
    "chat_env \<Rightarrow> nat \<Rightarrow> string \<Rightarrow> string \<Rightarrow> bool \<Rightarrow> key_state \<times> event list \<Rightarrow> (string \<times> bool \<times> run_error option) \<times> key_state \<times> event list" where
  "search_outcome ce i kid raw allowed = (\<lambda>(st, evs).
     if \<not> allowed then ((''search limit reached for this turn'', False, None), st, evs)
     else case search_args ce raw of
       None \<Rightarrow> ((''search needs a query (at most 4096 bytes) and count from 1 to 5'', False, None), st, evs)
     | Some (q, n) \<Rightarrow>
         (case chat_key (ce_keys ce i) kid of
            Inl e \<Rightarrow> ((run_error_text e, False, Some e), st, evs)
          | Inr k \<Rightarrow>
              if \<not> ce_search ce then ((''search unavailable'', False, None), st, evs)
              else (case gateway_search (ce_now ce i) (ce_settled ce i) (k_limits k) kid (ce_gone ce i) n (ce_hits ce i q n) st of
                      (Inl e, st, es) \<Rightarrow> ((run_error_text e, False, Some e), st, evs @ es)
                    | (Inr tx, st, es) \<Rightarrow> ((tx, True, None), st, evs @ es))))"

definition search_tool ::
    "run_env \<Rightarrow> chat_env \<Rightarrow> nat \<Rightarrow> string \<Rightarrow> string \<Rightarrow> string \<Rightarrow> bool \<Rightarrow> chat_world
     \<Rightarrow> (string \<times> bool \<times> run_error option) \<times> chat_world" where
  "search_tool en ce i kid rid raw allowed = (\<lambda>(m, st, evs).
     let now = ce_now ce i; sid = ''search_'' @ ce_random ce i;
         step = tool_step sid now ''search'' ''Search web'' ''web_search'' [] in
     case admit_run en now kid rid 32768 (mg_store m) of
       (Inl e, s) \<Rightarrow> (([], False, Some e), m\<lparr>mg_store := s\<rparr>, st, evs)
     | (Inr ticket, s) \<Rightarrow>
         (case retain en now kid rid [] [] [] [step] s of
            (Some e, s) \<Rightarrow> (([], False, Some e), m\<lparr>mg_store := release_lease kid rid ticket s\<rparr>, st, evs)
          | (None, s) \<Rightarrow>
              (case search_outcome ce i kid raw allowed (st, evs) of
                 ((tx, dispatched, err), st, evs) \<Rightarrow>
                   (let result = (if \<not> dispatched then tx
                                  else if tx = ''no results'' \<or> tx = ''search unavailable'' then tx else ''Search results'');
                        step = step\<lparr>se_status := (if dispatched then ''done'' else ''failed''), se_result := result, se_output_id := sid @ ''_result''\<rparr>
                    in case retain en now kid rid [] []
                              [(sid @ ''_result'', \<lparr>ca_kind = [], ca_name = ''Search results'', ca_mime = ''text/plain; charset=utf-8'', ca_data = tx\<rparr>)]
                              [step] s of
                         (Some e, s) \<Rightarrow> (([], dispatched, Some e), m\<lparr>mg_store := release_lease kid rid ticket s\<rparr>, st, evs)
                       | (None, s) \<Rightarrow> ((tx, dispatched, err), m\<lparr>mg_store := release_lease kid rid ticket s\<rparr>, st, evs)))))"

text \<open>\<open>chatTool\<close>: the image tool, and the refusal of any other call. The answer is the job ids, the error text and an error.\<close>

definition image_inputs :: "chat_env \<Rightarrow> chat_input \<Rightarrow> string \<Rightarrow> string \<Rightarrow> string \<Rightarrow> int \<Rightarrow> string list" where
  "image_inputs ce inp rid sid prompt count =
     replicate (nat count) (ce_image_input ce \<lparr>ii_parent_run_id = rid, ii_tool_call_id = sid, ii_client_request_id = ci_client_request_id inp,
       ii_prompt = prompt, ii_conversation = ci_conversation inp\<rparr>)"

definition image_submission ::
    "run_env \<Rightarrow> chat_env \<Rightarrow> nat \<Rightarrow> string \<Rightarrow> string \<Rightarrow> chat_input \<Rightarrow> string \<Rightarrow> string \<Rightarrow> manager \<times> key_state \<Rightarrow> (string list \<times> string) \<times> manager \<times> key_state" where
  "image_submission en ce i kid rid inp sid raw = (\<lambda>(m, st).
     case chat_key (ce_keys ce i) kid of
       Inl e \<Rightarrow> (([], run_error_text e), m, st)
     | Inr k \<Rightarrow>
         (case ce_offer ce i k of
            Inl e \<Rightarrow> (([], ''image capability no longer available''), m, st)
          | Inr offer \<Rightarrow>
              (case parse_image_tool (ce_decode_image ce) (ce_prompt_ok ce) raw (io_queue_cap offer) of
                 Inl e \<Rightarrow> (([], run_error_text e), m, st)
               | Inr (prompt, count) \<Rightarrow>
                   if ce_gone ce i then (([], ''chat cancelled before image submission''), m, st)
                   else (let hook = (case prepare_image_batch (case ce_keys ce i of Some ks \<Rightarrow> Inr ks | None \<Rightarrow> Inl (ErrOther ''key store unavailable''))
                                             (ce_history_bad ce) (ce_offer ce i) (ce_now ce i) kid of Inr (cap, h) \<Rightarrow> Some h | Inl e \<Rightarrow> None)
                         in case submit_batch en (ce_now ce i) kid ''image'' ''interactive'' (image_inputs ce inp rid sid prompt count) [] hook (m, st) of
                              (Inl e, m, st) \<Rightarrow> (([], ge_message (run_gw_error e)), m, st)
                            | (Inr rows, m, st) \<Rightarrow> ((map rn_id rows, []), m, st)))))"

definition chat_tool ::
    "run_env \<Rightarrow> chat_env \<Rightarrow> nat \<Rightarrow> string \<Rightarrow> string \<Rightarrow> chat_input \<Rightarrow> chat_tool_call list \<Rightarrow> bool \<Rightarrow> chat_world
     \<Rightarrow> (string list \<times> string \<times> run_error option) \<times> chat_world" where
  "chat_tool en ce i kid rid inp calls execute = (\<lambda>(m, st, evs).
     let now = ce_now ce i; sid = ''tool_'' @ ce_random ce i;
         step = tool_step sid now ''other'' (if execute then ''Make image'' else ''Tool refused'') (if execute then ''make_image'' else [])
                  ''submitting image jobs; outcome not confirmed'' in
     case admit_run en now kid rid 32768 (mg_store m) of
       (Inl e, s) \<Rightarrow> (([], [], Some e), m\<lparr>mg_store := s\<rparr>, st, evs)
     | (Inr ticket, s) \<Rightarrow>
         (case retain en now kid rid [] [] [] [step] s of
            (Some e, s) \<Rightarrow> (([], [], Some e), m\<lparr>mg_store := release_lease kid rid ticket s\<rparr>, st, evs)
          | (None, s) \<Rightarrow>
              (case (if execute \<and> length calls = 1 \<and> tc_name (hd calls) = ''make_image''
                     then image_submission en ce i kid rid inp sid (tc_arguments (hd calls)) (m\<lparr>mg_store := s\<rparr>, st)
                     else (([], ''one permitted tool request per round''), m\<lparr>mg_store := s\<rparr>, st)) of
                 ((jobs, err), m, st) \<Rightarrow>
                   (let step = step\<lparr>se_status := (if err \<noteq> [] then ''failed'' else ''done''),
                                    se_result := (if err \<noteq> [] then err else ''submitted '' @ itoa (int (length jobs)) @ '' image jobs'')\<rparr>
                    in case retain en now kid rid (ce_tool_result ce jobs err) [] [] [step] (mg_store m) of
                         (e, s) \<Rightarrow> ((jobs, err, e), m\<lparr>mg_store := release_lease kid rid ticket s\<rparr>, st, evs)))))"

section \<open>The rounds\<close>

text \<open>
  \<open>executeChat\<close>. The bytes of the engine go through the accumulator while the step runs; an error of the reader becomes the error
  of the executor. The loop variables are a record; a round comes back with an error, with the last answer, or with tools run.
\<close>

record chat_loop =
  lc_body :: jobject
  lc_text :: string
  lc_thought :: string
  lc_prompt :: int
  lc_completion :: int
  lc_jobs :: "string list"
  lc_searches :: nat
  lc_answer_only :: bool
  lc_finish :: string

definition counted_emit :: "(nat \<Rightarrow> run_error option) \<Rightarrow> nat emitter" where
  "counted_emit refuses d n = (refuses n, n + 1)"

definition observed_executor :: "run_error option \<Rightarrow> executor \<Rightarrow> executor" where
  "observed_executor oe x =
     (case oe of
        None \<Rightarrow> x
      | Some e \<Rightarrow> x\<lparr>xc_result := (\<lambda>acq. (Some (if e = ErrOther ''context canceled'' then CallCancelled else CallFailed e), snd (xc_result x acq)))\<rparr>)"

definition chat_step :: "run_env \<Rightarrow> chat_env \<Rightarrow> nat \<Rightarrow> run \<Rightarrow> jobject \<Rightarrow> manager \<Rightarrow> (attempt_error option \<times> host_reply) \<times> manager" where
  "chat_step en ce i r body m =
     (case reply_feed (ce_decode_chunk ce) (counted_emit (ce_refuses ce i)) (ce_pieces ce i) (new_reply, 0) of
        (oe, reply, _) \<Rightarrow>
          (case work_step en (ce_now ce i) r \<lparr>sp_purpose = ''chat'', sp_run_id = [], sp_route = chat_endpoint, sp_input = ce_encode ce (JObj body)\<rparr>
                  (observed_executor oe (ce_executor ce i)) m of
             ((err, _), m) \<Rightarrow> ((err, reply), m)))"

definition tool_messages :: "host_reply \<Rightarrow> string \<Rightarrow> json list" where
  "tool_messages reply content =
     JObj (reply_message reply) # map (\<lambda>c. JObj [(''role'', JStr ''tool''), (''tool_call_id'', JStr (tc_id c)), (''content'', JStr content)]) (hr_calls reply)"

definition only_tool :: "string \<Rightarrow> chat_input \<Rightarrow> host_reply \<Rightarrow> bool" where
  "only_tool name inp reply \<longleftrightarrow> length (hr_calls reply) = 1 \<and> tc_name (hd (hr_calls reply)) = name \<and> name \<in> set (ci_tools inp)"

definition run_tool ::
    "run_env \<Rightarrow> chat_env \<Rightarrow> nat \<Rightarrow> run \<Rightarrow> chat_input \<Rightarrow> host_reply \<Rightarrow> chat_loop \<Rightarrow> chat_world \<Rightarrow> (run_error + string \<times> chat_loop) \<times> chat_world" where
  "run_tool en ce i r inp reply lc w =
     (if only_tool ''web_search'' inp reply
      then (case search_tool en ce i (rn_key_id r) (rn_id r) (tc_arguments (hd (hr_calls reply))) (lc_searches lc < max_search_calls) w of
              ((tx, dispatched, err), w) \<Rightarrow>
                (case err of
                   Some e \<Rightarrow> (Inl e, w)
                 | None \<Rightarrow> (Inr (tx, if dispatched then lc\<lparr>lc_searches := lc_searches lc + 1\<rparr> else lc\<lparr>lc_answer_only := True\<rparr>), w)))
      else (case chat_tool en ce i (rn_key_id r) (rn_id r) inp (hr_calls reply) (only_tool ''make_image'' inp reply) w of
              ((jobs, err, e), w) \<Rightarrow>
                (case e of
                   Some e \<Rightarrow> (Inl e, w)
                 | None \<Rightarrow> (Inr (ce_tool_result ce jobs err, lc\<lparr>lc_jobs := lc_jobs lc @ jobs, lc_answer_only := (err \<noteq> [])\<rparr>), w))))"

definition extend_messages :: "nat \<Rightarrow> host_reply \<Rightarrow> string \<Rightarrow> chat_loop \<Rightarrow> run_error + chat_loop" where
  "extend_messages i reply content lc =
     (case jget (lc_body lc) ''messages'' of
        Some (JArr msgs) \<Rightarrow>
          (let body = jset ''messages'' (JArr (msgs @ tool_messages reply content)) (lc_body lc); last_round = (i + 1 = max_tool_rounds \<or> lc_answer_only lc) in
           Inr (lc\<lparr>lc_body := (if last_round then jset ''tool_choice'' (JStr ''none'') body else body), lc_answer_only := last_round\<rparr>))
      | _ \<Rightarrow> Inl (ErrOther ''chat messages must be an array''))"

datatype round_end = RoundFailed run_error | RoundAnswered | RoundTools

definition attempt_run_error :: "attempt_error \<Rightarrow> run_error" where
  "attempt_run_error e =
     (case e of
        AttemptInvalid \<Rightarrow> ErrInvalid
      | AttemptStore e \<Rightarrow> e
      | AttemptCall CallCancelled \<Rightarrow> ErrOther ''context canceled''
      | AttemptCall (CallFailed e) \<Rightarrow> e
      | SettlementError c e \<Rightarrow> e)"

definition reply_complete :: "host_reply \<Rightarrow> bool" where
  "reply_complete p \<longleftrightarrow> hr_finished p \<and> hr_finish_reason p \<in> {''stop'', ''tool_calls'', ''length''}"

definition collect_reply :: "int \<times> int \<Rightarrow> host_reply \<Rightarrow> chat_loop \<Rightarrow> chat_loop" where
  "collect_reply usage p lc =
     lc\<lparr>lc_prompt := lc_prompt lc + fst usage, lc_completion := lc_completion lc + snd usage,
        lc_text := lc_text lc @ hr_content p, lc_thought := lc_thought lc @ hr_reasoning p\<rparr>"

definition chat_round ::
    "run_env \<Rightarrow> chat_env \<Rightarrow> nat \<Rightarrow> run \<Rightarrow> chat_input \<Rightarrow> chat_loop \<Rightarrow> chat_world \<Rightarrow> (round_end \<times> chat_loop) \<times> chat_world" where
  "chat_round en ce i r inp lc = (\<lambda>(m, st, evs).
     case chat_step en ce i r (lc_body lc) m of
       ((err, reply), m) \<Rightarrow>
         (let lc = collect_reply (ce_usage ce i) reply lc; w = (m, st, evs) in
          case err of
            Some e \<Rightarrow> ((RoundFailed (attempt_run_error e), lc), w)
          | None \<Rightarrow>
              if \<not> reply_complete reply then ((RoundFailed (ErrOther ''model stream ended before completion''), lc), w)
              else if hr_calls reply = [] then ((RoundAnswered, lc\<lparr>lc_finish := hr_finish_reason reply\<rparr>), w)
              else if hr_finish_reason reply = ''length'' then ((RoundFailed (ErrOther ''model stopped before completing its tool call''), lc), w)
              else if lc_answer_only lc then
                (case chat_tool en ce i (rn_key_id r) (rn_id r) inp (hr_calls reply) False w of
                   ((_, _, Some e), w) \<Rightarrow> ((RoundFailed e, lc), w)
                 | ((_, _, None), w) \<Rightarrow> ((RoundFailed (ErrOther ''tool limit reached; the extra tool call was refused''), lc), w))
              else (case run_tool en ce i r inp reply lc w of
                      (Inl e, w) \<Rightarrow> ((RoundFailed e, lc), w)
                    | (Inr (content, lc), w) \<Rightarrow>
                        (case extend_messages i reply content lc of
                           Inl e \<Rightarrow> ((RoundFailed e, lc), w)
                         | Inr lc \<Rightarrow> ((RoundTools, lc), w)))))"

text \<open>\<open>k\<close> is the number of rounds still allowed; the first of the \<open>max_tool_rounds + 1\<close> rounds has number 0.\<close>

fun chat_rounds ::
    "run_env \<Rightarrow> chat_env \<Rightarrow> nat \<Rightarrow> run \<Rightarrow> chat_input \<Rightarrow> chat_loop \<Rightarrow> chat_world \<Rightarrow> (run_error option \<times> chat_loop) \<times> chat_world" where
  "chat_rounds en ce 0 r inp lc w = ((None, lc), w)"
| "chat_rounds en ce (Suc k) r inp lc w =
     (case chat_round en ce (max_tool_rounds - k) r inp lc w of
        ((RoundFailed e, lc), w) \<Rightarrow> ((Some e, lc), w)
      | ((RoundAnswered, lc), w) \<Rightarrow> ((None, lc), w)
      | ((RoundTools, lc), w) \<Rightarrow> chat_rounds en ce k r inp lc w)"

definition offered_tools :: "chat_env \<Rightarrow> key \<Rightarrow> chat_input \<Rightarrow> json list" where
  "offered_tools ce k inp =
     concat (map (\<lambda>n. if n = ''make_image'' then (case ce_offer ce 0 k of Inr offer \<Rightarrow> [make_image_tool (io_queue_cap offer)] | Inl _ \<Rightarrow> [])
                      else if ce_search ce then [web_search_tool] else []) (ci_tools inp))"

definition chat_body :: "chat_env \<Rightarrow> key \<Rightarrow> chat_input \<Rightarrow> jobject" where
  "chat_body ce k inp =
     (let tools = offered_tools ce k inp; body = ci_body inp;
          body = (if tools \<noteq> [] then jset ''tools'' (JArr tools) body else body)
      in jset ''stream'' (JBool True) (jset ''parallel_tool_calls'' (JBool False) body))"

definition chat_response :: "run \<Rightarrow> chat_loop \<Rightarrow> json" where
  "chat_response r lc =
     JObj [(''id'', JStr (rn_id r)), (''object'', JStr ''chat.completion''), (''run_id'', JStr (rn_id r)),
       (''choices'', JArr [JObj [(''index'', JNum ''0''),
          (''message'', JObj [(''role'', JStr ''assistant''), (''content'', JStr (lc_text lc)), (''reasoning_content'', JStr (lc_thought lc))]),
          (''finish_reason'', JStr (lc_finish lc))]]),
       (''usage'', JObj [(''prompt_tokens'', JNum (itoa (lc_prompt lc))), (''completion_tokens'', JNum (itoa (lc_completion lc))),
          (''total_tokens'', JNum (itoa (lc_prompt lc + lc_completion lc)))])]"

definition execute_chat :: "run_env \<Rightarrow> chat_env \<Rightarrow> run \<Rightarrow> chat_input \<Rightarrow> chat_world \<Rightarrow> (run_error + json \<times> chat_loop) \<times> chat_world" where
  "execute_chat en ce r inp w =
     (case chat_key (ce_keys ce 0) (rn_key_id r) of
        Inl e \<Rightarrow> (Inl e, w)
      | Inr k \<Rightarrow>
          (case chat_rounds en ce (max_tool_rounds + 1) r inp
                  \<lparr>lc_body = chat_body ce k inp, lc_text = [], lc_thought = [], lc_prompt = 0, lc_completion = 0, lc_jobs = [], lc_searches = 0,
                   lc_answer_only = False, lc_finish = []\<rparr> w of
             ((Some e, lc), w) \<Rightarrow> (Inl e, w)
           | ((None, lc), w) \<Rightarrow>
               (Inr (JObj [(''text'', JStr (lc_text lc)), (''job_ids'', if lc_jobs lc = [] then JNull else JArr (map JStr (lc_jobs lc))),
                           (''response'', chat_response r lc)], lc), w)))"

section \<open>The rounds are bounded and the answer is whole\<close>

text \<open>What a round of tools leaves for the next one: searches within their limit, and no tools any more after the third.\<close>

definition loop_ok :: "nat \<Rightarrow> chat_loop \<Rightarrow> bool" where
  "loop_ok i lc \<longleftrightarrow> lc_searches lc \<le> max_search_calls \<and> (i \<ge> max_tool_rounds \<longrightarrow> lc_answer_only lc)"

lemma collect_sel [simp]:
  "lc_searches (collect_reply u p lc) = lc_searches lc" "lc_answer_only (collect_reply u p lc) = lc_answer_only lc"
  "lc_finish (collect_reply u p lc) = lc_finish lc" "lc_jobs (collect_reply u p lc) = lc_jobs lc"
  by (simp_all add: collect_reply_def)

lemma search_tool_allowed: "search_tool en ce i kid rid raw False w = ((tx, d, e), w') \<Longrightarrow> \<not> d"
  by (cases w) (auto simp: search_tool_def search_outcome_def Let_def split: sum.splits option.splits prod.splits)

lemma run_tool_searches:
  assumes "run_tool en ce i r inp reply lc w = (Inr (content, lc'), w')" "lc_searches lc \<le> max_search_calls"
  shows "lc_searches lc' \<le> max_search_calls \<and> lc_finish lc' = lc_finish lc"
proof (cases "only_tool ''web_search'' inp reply")
  case True
  obtain tx d e w2 where s: "search_tool en ce i (rn_key_id r) (rn_id r) (tc_arguments (hd (hr_calls reply))) (lc_searches lc < max_search_calls) w
      = ((tx, d, e), w2)" by (metis surj_pair)
  have "d \<Longrightarrow> lc_searches lc < max_search_calls" using search_tool_allowed [of en ce i "rn_key_id r" "rn_id r" "tc_arguments (hd (hr_calls reply))" w tx d e w2] s
    by (cases "lc_searches lc < max_search_calls") auto
  then show ?thesis using assms True s by (auto simp: run_tool_def split: option.splits if_splits)
next
  case False
  then show ?thesis using assms by (auto simp: run_tool_def split: option.splits prod.splits)
qed

lemma extend_messages_ok:
  "extend_messages i reply content lc = Inr lc' \<Longrightarrow> lc_searches lc' = lc_searches lc \<and> (i + 1 \<ge> max_tool_rounds \<and> i < max_tool_rounds \<longrightarrow> lc_answer_only lc')"
  by (auto simp: extend_messages_def Let_def split: option.splits json.splits)

lemma chat_round_ok:
  assumes c: "chat_round en ce i r inp lc w = ((e, lc'), w')" and ok: "loop_ok i lc" "i \<le> max_tool_rounds"
  shows "lc_searches lc' \<le> max_search_calls"
    and "e = RoundAnswered \<Longrightarrow> lc_finish lc' \<in> {''stop'', ''tool_calls'', ''length''}"
    and "e = RoundTools \<Longrightarrow> i < max_tool_rounds \<and> loop_ok (i + 1) lc'"
proof -
  obtain m st evs where w: "w = (m, st, evs)" by (cases w)
  obtain err reply m2 where s: "chat_step en ce i r (lc_body lc) m = ((err, reply), m2)" by (metis surj_pair)
  let ?lc = "collect_reply (ce_usage ce i) reply lc" and ?w = "(m2, st, evs)"
  have sr: "lc_searches ?lc \<le> max_search_calls" using ok by (simp add: loop_ok_def)
  note c = c [unfolded chat_round_def w prod.case s Let_def]
  have "lc_searches lc' \<le> max_search_calls \<and> (e = RoundAnswered \<longrightarrow> lc_finish lc' \<in> {''stop'', ''tool_calls'', ''length''})
      \<and> (e = RoundTools \<longrightarrow> i < max_tool_rounds \<and> loop_ok (i + 1) lc')"
  proof (cases "err = None \<and> reply_complete reply \<and> hr_calls reply \<noteq> [] \<and> hr_finish_reason reply \<noteq> ''length'' \<and> \<not> lc_answer_only ?lc")
    case False
    then show ?thesis using c sr by (auto simp: reply_complete_def split: option.splits if_splits prod.splits)
  next
    case True
    obtain x w2 where t: "run_tool en ce i r inp reply ?lc ?w = (x, w2)" by (metis surj_pair)
    show ?thesis
    proof (cases x)
      case (Inl e1)
      then show ?thesis using c True t sr by auto
    next
      case (Inr y)
      obtain content lc2 where y: "y = (content, lc2)" by (cases y)
      note rs = run_tool_searches [OF t [unfolded Inr y] sr]
      have i: "i < max_tool_rounds" using True ok by (auto simp: loop_ok_def)
      show ?thesis
      proof (cases "extend_messages i reply content lc2")
        case (Inl e2)
        then show ?thesis using c True t Inr y rs by auto
      next
        case ext: (Inr lc3)
        then have "e = RoundTools" "lc' = lc3" using c True t Inr y by auto
        then show ?thesis using extend_messages_ok [OF ext] rs i by (auto simp: loop_ok_def)
      qed
    qed
  qed
  then show "lc_searches lc' \<le> max_search_calls" "e = RoundAnswered \<Longrightarrow> lc_finish lc' \<in> {''stop'', ''tool_calls'', ''length''}"
    "e = RoundTools \<Longrightarrow> i < max_tool_rounds \<and> loop_ok (i + 1) lc'" by blast+
qed

lemma chat_rounds_ok:
  "chat_rounds en ce (Suc k) r inp lc w = ((e, lc'), w') \<Longrightarrow> loop_ok (max_tool_rounds - k) lc \<Longrightarrow> k \<le> max_tool_rounds \<Longrightarrow>
     lc_searches lc' \<le> max_search_calls \<and> (e = None \<longrightarrow> lc_finish lc' \<in> {''stop'', ''tool_calls'', ''length''})"
proof (induction k arbitrary: lc w)
  case 0
  obtain e1 lc1 w1 where c: "chat_round en ce max_tool_rounds r inp lc w = ((e1, lc1), w1)" by (metis surj_pair)
  have "loop_ok max_tool_rounds lc" using 0 by simp
  note ok = chat_round_ok [OF c this order.refl]
  show ?case using 0 c ok by (cases e1) auto
next
  case (Suc k)
  let ?i = "max_tool_rounds - Suc k"
  obtain e1 lc1 w1 where c: "chat_round en ce ?i r inp lc w = ((e1, lc1), w1)" by (metis surj_pair)
  note ok = chat_round_ok [OF c Suc.prems(2)]
  show ?case
  proof (cases e1)
    case (RoundFailed x)
    then show ?thesis using Suc.prems c ok by auto
  next
    case RoundAnswered
    then show ?thesis using Suc.prems c ok by simp
  next
    case RoundTools
    then have "loop_ok (?i + 1) lc1" using ok Suc.prems by simp
    moreover have "?i + 1 = max_tool_rounds - k" using Suc.prems(3) by simp
    moreover have "chat_rounds en ce (Suc k) r inp lc1 w1 = ((e, lc'), w')" using Suc.prems(1) c RoundTools by simp
    ultimately show ?thesis using Suc.IH [of lc1 w1] Suc.prems(3) by (metis Suc_leD)
  qed
qed


text \<open>A chat run whose engine answers in the first round.\<close>

definition holds_chat :: "run \<Rightarrow> reservation \<Rightarrow> run_store \<Rightarrow> bool" where
  "holds_chat r l s \<longleftrightarrow> (\<exists>v. st_data s = [(''k1'', v)] \<and> sn_runs v = [(''r_a'', r)] \<and> sn_retained v = [] \<and> sn_exception_bytes v = []
     \<and> sn_encoded_bytes v = 2 \<and> st_broken s ''k1'' = None \<and> st_reserved s ''k1'' = [(''r_a'', l)] \<and> st_max_stored s = max_stored)"

lemma fold_publish_chat: "holds_chat r l (fold (publish k) es s) = holds_chat r l s"
  by (induction es arbitrary: s) (simp_all add: publish_def holds_chat_def)

lemma chat_sample_change:
  assumes "holds_chat r l s" "rv_bytes l = 2 * max_output + 4096" "f r = Inr r'" "rn_state r = Running" "rn_state r' = Running"
    "\<not> rn_cancel_requested r" "\<not> rn_cancel_requested r'"
  shows "\<exists>s'. change sample_run_env 6 ''k1'' ''r_a'' f None s = ((None, r'\<lparr>rn_updated := 6\<rparr>), s') \<and> holds_chat (r'\<lparr>rn_updated := 6\<rparr>) l s'"
proof -
  obtain v where v: "st_data s = [(''k1'', v)]" "sn_runs v = [(''r_a'', r)]" "sn_retained v = []" "sn_exception_bytes v = []"
     "sn_encoded_bytes v = 2" "st_broken s ''k1'' = None" "st_reserved s ''k1'' = [(''r_a'', l)]" "st_max_stored s = max_stored"
    using assms(1) by (auto simp: holds_chat_def)
  have sid: "safe_id ''k1''" by (simp add: safe_id_def id_char_def byte_def)
  have l: "load sample_run_env 6 ''k1'' s = (Inr v, s\<lparr>st_accessed := (st_accessed s)(''k1'' := 6)\<rparr>)"
    using v sid by (simp add: load_def)
  have [simp]: "spend_lease ''r_a'' 0 [(''r_a'', l)] = [(''r_a'', l)]" by (simp add: spend_lease_def)
  have m: "min (rv_bytes l) 0 = 0" using assms(2) by simp
  have b: "\<not> store_budget (s\<lparr>st_accessed := (st_accessed s)(''k1'' := 6)\<rparr>) < 2 + rv_bytes l"
    using assms(2) v by (simp add: store_budget_def run_limits terminal_bound_def max_output_def)
  show ?thesis using assms(3-) v b
    by (simp add: m change_def l edit_retained_def changed_run_def change_event_def lifecycle_def row_def Let_def commit_for_def data_of_def staged_def
       drop_orphan_rows_def image_output_of_def log_events_def keep_last_def retained_budget_def reserved_bytes_def write_snapshot_def
       holds_chat_def drop_leases_def has_row_def terminal_def spend_lease_def)
qed

definition chat_manager :: manager where
  "chat_manager = \<lparr>mg_store = sample_store\<lparr>st_data := [(''k1'', sample_snapshot\<lparr>sn_runs := [(''r_a'', sample_run\<lparr>rn_state := Running\<rparr>)]\<rparr>)]\<rparr>,
     mg_kinds = [''chat''], mg_policies = (\<lambda>_. chat_policy),
     mg_active = [(''r_a'', \<lparr>ex_serial = 0, ex_kind = ''chat'', ex_key = ''k1'', ex_cancelled = False, ex_join_started = False,
        ex_expired = False, ex_answer = False\<rparr>)],
     mg_workers = 1, mg_closed = False, mg_started = True, mg_sweeping = False, mg_blocked = (\<lambda>_. 0), mg_quarantined = [],
     mg_releases = [], mg_released = [], mg_positions = (\<lambda>_. [])\<rparr>"

definition answering_executor :: executor where
  "answering_executor = \<lparr>xc_acquires = False,
     xc_result = (\<lambda>_. (None, \<lparr>sr_output = ''{}'', sr_usage = empty_event, sr_dispatched = True, sr_settled = True\<rparr>))\<rparr>"

lemma chat_sample_admit:
  "\<exists>l s. admit_run sample_run_env 6 ''k1'' ''r_a'' (int (2 * max_output + 4096)) (mg_store chat_manager) = (Inr 0, s)
     \<and> holds_chat (sample_run\<lparr>rn_state := Running\<rparr>) l s \<and> rv_bytes l = 2 * max_output + 4096"
  by (simp add: admit_run_def load_def chat_manager_def safe_id_def id_char_def byte_def terminal_def store_budget_def run_limits
      terminal_bound_def max_output_def reserved_bytes_def holds_chat_def)

lemma chat_sample_step:
  "\<exists>m. work_step sample_run_env 6 sample_run \<lparr>sp_purpose = ''chat'', sp_run_id = [], sp_route = r, sp_input = ''{}''\<rparr> answering_executor
      chat_manager = ((None, None), m)"
proof -
  obtain l s where a: "admit_run sample_run_env 6 ''k1'' ''r_a'' (int (2 * max_output + 4096)) (mg_store chat_manager) = (Inr 0, s)"
    "holds_chat (sample_run\<lparr>rn_state := Running\<rparr>) l s" "rv_bytes l = 2 * max_output + 4096" using chat_sample_admit by blast
  obtain aid s1 where f: "fresh_id sample_run_env ''a_'' s = (aid, s1)" by (metis surj_pair)
  have s1: "holds_chat (sample_run\<lparr>rn_state := Running\<rparr>) l s1" using a(2) f by (auto simp: fresh_id_def Let_def holds_chat_def)
  define att where "att = \<lparr>at_purpose = ''chat'', at_id = aid, at_dispatched = False, at_settled = False,
                     at_accounting_uncertain = True, at_usage = empty_event, at_output = []\<rparr>"
  let ?r1 = "sample_run\<lparr>rn_state := Running\<rparr>" 
  let ?r2 = "?r1\<lparr>rn_attempts := [att]\<rparr>"
  have e1: "begin_edit True aid ''chat'' ?r1 = Inr ?r2"
    by (simp add: begin_edit_def may_start_def att_def)
  obtain s2 where c1: "change sample_run_env 6 ''k1'' ''r_a'' (begin_edit True aid ''chat'') None s1 = ((None, ?r2\<lparr>rn_updated := 6\<rparr>), s2)"
    and s2: "holds_chat (?r2\<lparr>rn_updated := 6\<rparr>) l s2"
    using chat_sample_change [where f = "begin_edit True aid ''chat''", OF s1 _ e1] a(3) by auto
  let ?res = "\<lparr>sr_output = ''{}'', sr_usage = empty_event, sr_dispatched = True, sr_settled = True\<rparr>"
  obtain r3 where e2: "settle_edit sample_run_env True aid chat_policy None ?res (?r2\<lparr>rn_updated := 6\<rparr>) = Inr r3" "rn_state r3 = Running" "\<not> rn_cancel_requested r3"
    by (simp add: settle_edit_def att_def settle_state_def Let_def terminal_def update_last_def)
  obtain s3 where c2: "change sample_run_env 6 ''k1'' ''r_a'' (settle_edit sample_run_env True aid chat_policy None ?res) None s2 = ((None, r3\<lparr>rn_updated := 6\<rparr>), s3)"
    using chat_sample_change [where f = "settle_edit sample_run_env True aid chat_policy None ?res", OF s2 _ e2(1) _ e2(2) _ e2(3)] a(3) by auto
  have p: "mg_policies (chat_manager\<lparr>mg_store := x\<rparr>) = (\<lambda>_. chat_policy)" for x by (simp add: chat_manager_def)
  have nc: "\<not> worker_cancelled sample_run (chat_manager\<lparr>mg_store := x\<rparr>)" "\<not> worker_cancelled sample_run chat_manager" for x
    by (simp_all add: worker_cancelled_def chat_manager_def)
  have "attempt sample_run_env 6 sample_run \<lparr>sp_purpose = ''chat'', sp_run_id = [], sp_route = r, sp_input = ''{}''\<rparr> True answering_executor
      (chat_manager\<lparr>mg_store := s\<rparr>) = ((None, r3\<lparr>rn_updated := 6\<rparr>), chat_manager\<lparr>mg_store := s3\<rparr>)"
    by (simp add: attempt_def f c1 answering_executor_def p c2 max_input_def max_output_def call_outcome_def Let_def)
  then show ?thesis by (simp add: work_step_def nc a(1) [simplified] release_after_def)
qed

definition sample_done :: string where "sample_done = ''data:x'' @ [CHR 0x0A] @ ''data:[DONE]'' @ [CHR 0x0A]"

lemma trim_done: "trim_space ''data:[DONE]'' = ''data:[DONE]''" "trim_space ''[DONE]'' = ''[DONE]''"
  by code_simp+

lemma sample_done_feed:
  "reply_feed (\<lambda>_. Some sample_says) (counted_emit (\<lambda>_. None)) [sample_done] (new_reply, 0) =
     (None, \<lparr>hr_pending = [], hr_content = ''hi'', hr_reasoning = [], hr_calls = [], hr_finished = True, hr_finish_reason = ''stop''\<rparr>, 1)"
  by (simp add: sample_done_def reply_consume_def new_reply_def Let_def max_output_def reply_line_def trim_graphic_x trim_done cut_prefix_def
      has_prefix_def reply_chunk_def sample_says_def reply_choice_def emit_visible_def visible_delta_def counted_emit_def delta_reasoning_def)

definition sample_chat_env :: chat_env where
  "sample_chat_env = \<lparr>ce_now = (\<lambda>_. 6), ce_settled = (\<lambda>_. 6), ce_keys = (\<lambda>_. Some [sample_body_key\<lparr>k_id := ''k1''\<rparr>]),
     ce_offer = (\<lambda>_ _. Inl (errf CodeNotFound 0 [] [])), ce_history_bad = False, ce_search = False, ce_hits = (\<lambda>_ _ _. None),
     ce_gone = (\<lambda>_. False), ce_random = (\<lambda>_. ''a''), ce_decode_search = (\<lambda>_. None), ce_decode_image = (\<lambda>_. None), ce_prompt_ok = (\<lambda>_. True),
     ce_image_input = (\<lambda>_. []), ce_tool_result = (\<lambda>_ _. []), ce_encode = (\<lambda>_. ''{}''), ce_decode_chunk = (\<lambda>_. Some sample_says),
     ce_pieces = (\<lambda>_. [sample_done]), ce_refuses = (\<lambda>_ _. None), ce_executor = (\<lambda>_. answering_executor), ce_usage = (\<lambda>_. (3, 2))\<rparr>"

definition sample_chat_input :: chat_input where
  "sample_chat_input = \<lparr>ci_tools = [''web_search''], ci_body = [], ci_delivery = ''d1'', ci_conversation = [], ci_client_request_id = []\<rparr>"

lemma sample_chat_runs:
  "\<exists>v lc w'. execute_chat sample_run_env sample_chat_env sample_run sample_chat_input (chat_manager, st, []) = (Inr (v, lc), w') \<and> lc_text lc = ''hi''"
proof -
  obtain m where s: "work_step sample_run_env 6 sample_run \<lparr>sp_purpose = ''chat'', sp_run_id = [], sp_route = chat_endpoint, sp_input = ''{}''\<rparr>
      answering_executor chat_manager = ((None, None), m)" using chat_sample_step by blast
  have k: "chat_key (ce_keys sample_chat_env 0) (rn_key_id sample_run) = Inr (sample_body_key\<lparr>k_id := ''k1''\<rparr>)"
    by (simp add: chat_key_def sample_chat_env_def) (simp add: sample_body_key_def sample_run_def new_run_def)
  have c: "chat_step sample_run_env sample_chat_env 0 sample_run b chat_manager =
     ((None, \<lparr>hr_pending = [], hr_content = ''hi'', hr_reasoning = [], hr_calls = [], hr_finished = True, hr_finish_reason = ''stop''\<rparr>), m)" for b
    by (simp add: chat_step_def sample_chat_env_def sample_done_feed observed_executor_def s del: reply_feed.simps)
  show ?thesis
    by (simp add: execute_chat_def k [simplified] chat_round_def c Let_def collect_reply_def reply_complete_def)
qed


text \<open>
  The deltas of a chat run go to the connection that submitted it and to no other: whatever is in the input of another run, only
  the submitted run, for the key that submitted it, claims the delivery, and nobody, that run included, claims it again.
\<close>

theorem delivery_claimed_once:
  assumes "chat_hand_off en now check encode name kid selected body (m, ds) = (Inr r, m', ds')"
  shows "fst (claim_delivery name kid (rn_id r) ds') = Inr \<lparr>dl_key = kid, dl_run = rn_id r\<rparr>
    \<and> (\<forall>kid' rid'. fst (claim_delivery name kid' rid' (snd (claim_delivery name kid (rn_id r) ds'))) = Inl (ErrOther ''chat connection unavailable; not replayed''))
    \<and> (\<forall>kid' rid'. (kid', rid') \<noteq> (kid, rn_id r) \<longrightarrow> claim_delivery name kid' rid' ds' = (Inl ErrConflict, ds'))
    \<and> (\<forall>other kid' rid'. other \<noteq> name \<longrightarrow> fst (claim_delivery other kid' rid' ds') = fst (claim_delivery other kid' rid' ds))"
proof -
  have "ds' = AList.update name \<lparr>dl_key = kid, dl_run = rn_id r\<rparr> ds"
    using assms by (auto simp: chat_hand_off_def split: sum.splits prod.splits)
  then have d: "map_of ds' name = Some \<lparr>dl_key = kid, dl_run = rn_id r\<rparr>" "\<And>other. other \<noteq> name \<Longrightarrow> map_of ds' other = map_of ds other"
    by (simp_all add: update_conv')
  have c: "claim_delivery name kid (rn_id r) ds' = (Inr \<lparr>dl_key = kid, dl_run = rn_id r\<rparr>, AList.delete name ds')"
    by (simp add: claim_delivery_def d(1))
  have "fst (claim_delivery name kid' rid' (AList.delete name ds')) = Inl (ErrOther ''chat connection unavailable; not replayed'')" for kid' rid'
    by (simp add: claim_delivery_def delete_conv)
  moreover have "claim_delivery name kid' rid' ds' = (Inl ErrConflict, ds')" if "(kid', rid') \<noteq> (kid, rn_id r)" for kid' rid'
    using that by (auto simp: claim_delivery_def d(1))
  moreover have "fst (claim_delivery other kid' rid' ds') = fst (claim_delivery other kid' rid' ds)" if "other \<noteq> name" for other kid' rid'
    using d(2) [OF that] by (simp add: claim_delivery_def split: option.split)
  ultimately show ?thesis using c by simp
qed

lemma sample_chat_create:
  "\<exists>rows t. create_batch sample_run_env 5 ''k1'' ''chat'' ''interactive'' [''x''] 16 [''q''] (None :: unit batch_hook option) (start_store, ())
     = (Inr rows, t, ())"
  by (simp add: start_load eval_batch correlation_id_def id_char_def byte_def, simp add: eval_commit Let_def run_limits safe_id_def id_char_def byte_def new_snapshot_def start_store_def new_store_def)

lemma sample_hand_off:
  "\<exists>r m' ds'. chat_hand_off sample_run_env 5 (\<lambda>_. None) (\<lambda>_. Some ''x'') ''d1'' ''k1'' [''web_search''] [(''client_request_id'', JStr ''q'')] (chat_manager\<lparr>mg_store := start_store\<rparr>, [])
      = (Inr r, m', ds')"
proof -
  obtain rows t where c: "create_batch sample_run_env 5 ''k1'' ''chat'' ''interactive'' [''x''] 16 [''q''] (None :: unit batch_hook option) (start_store, ())
      = (Inr rows, t, ())" using sample_chat_create by blast
  show ?thesis
    by (simp add: chat_hand_off_def hand_off_input_def chat_input_of_def take_text_def max_input_def submit_batch_def submit_refusal_def
        availability_def chat_manager_def chat_policy_def no_policy_def batch_admission_def run_limits Let_def c)
qed

theorem delivery_claimed_once_witness:
  "\<exists>r m' ds'. chat_hand_off sample_run_env 5 (\<lambda>_. None) (\<lambda>_. Some ''x'') ''d1'' ''k1'' [''web_search''] [(''client_request_id'', JStr ''q'')] (chat_manager\<lparr>mg_store := start_store\<rparr>, [])
      = (Inr r, m', ds') \<and> fst (claim_delivery ''d1'' ''k1'' (rn_id r) ds') = Inr \<lparr>dl_key = ''k1'', dl_run = rn_id r\<rparr>"
proof -
  obtain r m' ds' where h: "chat_hand_off sample_run_env 5 (\<lambda>_. None) (\<lambda>_. Some ''x'') ''d1'' ''k1'' [''web_search''] [(''client_request_id'', JStr ''q'')]
      (chat_manager\<lparr>mg_store := start_store\<rparr>, []) = (Inr r, m', ds')" using sample_hand_off by blast
  then have "fst (claim_delivery ''d1'' ''k1'' (rn_id r) ds') = Inr \<lparr>dl_key = ''k1'', dl_run = rn_id r\<rparr>"
    using delivery_claimed_once [OF h, THEN conjunct1] by simp
  with h show ?thesis by blast
qed

text \<open>
  C21. A chat with host tools that names no \<open>client_request_id\<close> never becomes a run, although the identifier is documented as
  optional: the empty text it stands for is handed to the run store as a correlation, where it is not well formed. Where the runs
  take chats at all, the friend reads that the run request was invalid.
\<close>

theorem chat_needs_request_id:
  assumes "jget body ''client_request_id'' = None"
  shows "(\<exists>e. fst (chat_hand_off en now check encode name kid selected body (m, ds)) = Inl e)
    \<and> (hand_off_input check encode name selected body = Inr (inp, raw) \<and> submit_refusal ''chat'' m = None \<and> ''chat'' \<in> set (mg_kinds m)
        \<and> mg_policies m ''chat'' = chat_policy
       \<longrightarrow> fst (chat_hand_off en now check encode name kid selected body (m, ds)) = Inl (errf CodeInvalidRequest 0 ''invalid run request or cursor'' []))"
proof -
  have i: "ci_client_request_id inp = []" if "hand_off_input check encode name selected body = Inr (inp, raw)" for inp raw
    using that assms by (auto simp: hand_off_input_def chat_input_of_def take_text_def split: sum.splits option.splits json.splits if_splits)
  have c: "create_batch en now kid ''chat'' pr inputs cap [[]] (None :: unit batch_hook option) (s, ()) = (Inl ErrInvalid, s, ())" for pr inputs cap s
    by (simp add: create_batch_def batch_arguments_def correlation_id_def)
  have sb: "\<exists>e m'. submit_batch en now kid ''chat'' ''interactive'' [raw] [[]] (None :: unit batch_hook option) (m, ()) = (Inl e, m', ())" for raw
    by (simp add: submit_batch_def c Let_def split: option.split sum.split)
  have "\<exists>e. fst (chat_hand_off en now check encode name kid selected body (m, ds)) = Inl e"
  proof (cases "hand_off_input check encode name selected body")
    case (Inr y)
    obtain inp raw where y: "y = (inp, raw)" by (cases y)
    obtain e m' where "submit_batch en now kid ''chat'' ''interactive'' [raw] [[]] (None :: unit batch_hook option) (m, ()) = (Inl e, m', ())"
      using sb by blast
    then show ?thesis using Inr i by (simp add: chat_hand_off_def y)
  qed (simp add: chat_hand_off_def)
  moreover have "fst (chat_hand_off en now check encode name kid selected body (m, ds)) = Inl (errf CodeInvalidRequest 0 ''invalid run request or cursor'' [])"
    if h: "hand_off_input check encode name selected body = Inr (inp, raw)" "submit_refusal ''chat'' m = None" "''chat'' \<in> set (mg_kinds m)"
      "mg_policies m ''chat'' = chat_policy" 
  proof -
    have "submit_refusal ''chat'' (m\<lparr>mg_started := True\<rparr>) = None" using h(2) by (auto simp: submit_refusal_def availability_def split: if_splits)
    then show ?thesis using h i [OF h(1)]
      by (simp add: chat_hand_off_def submit_batch_def c Let_def chat_policy_def no_policy_def batch_admission_def run_gw_error_def)
  qed
  ultimately show ?thesis by blast
qed

theorem chat_needs_request_id_witness:
  "fst (chat_hand_off sample_run_env 5 (\<lambda>_. None) (\<lambda>_. Some ''x'') ''d1'' ''k1'' [''web_search''] [] (chat_manager\<lparr>mg_store := start_store\<rparr>, []))
     = Inl (errf CodeInvalidRequest 0 ''invalid run request or cursor'' [])"
proof -
  have h: "\<exists>inp. hand_off_input (\<lambda>_. None) (\<lambda>_. Some ''x'') ''d1'' [''web_search''] [] = Inr (inp, ''x'')"
    by (simp add: hand_off_input_def chat_input_of_def take_text_def max_input_def)
  have m: "submit_refusal ''chat'' (chat_manager\<lparr>mg_store := start_store\<rparr>) = None" "''chat'' \<in> set (mg_kinds (chat_manager\<lparr>mg_store := start_store\<rparr>))"
    "mg_policies (chat_manager\<lparr>mg_store := start_store\<rparr>) ''chat'' = chat_policy"
    by (simp_all add: submit_refusal_def availability_def chat_manager_def)
  show ?thesis
    using chat_needs_request_id [of "[]" sample_run_env 5 "\<lambda>_. None" "\<lambda>_. Some ''x''" "''d1''" "''k1''" "[''web_search'']"
        "chat_manager\<lparr>mg_store := start_store\<rparr>" "[]" _ "''x''"] h m by auto
qed

end
