(* ===== verification/Run_Images.thy ===== *)
theory Run_Images
  imports Run_Manager Run_Life "HOL-Library.Multiset"
begin

text \<open>
  The image files of the run store (internal/run/images.go, cleanup.go): a run of kind image names a file in the \<open>images\<close>
  directory of its key. A path is a pair of a key and a file name. The world is the run store with that disk; the outcome of every
  removal and of every write is a parameter, as is the text of an output. The scan for temporary state files is left out: nothing
  reads them.
\<close>

section \<open>The disk\<close>

datatype image_entry = RegularFile string | OtherEntry
datatype image_folder = FolderMissing | FolderUnreadable string | FolderNotPlain | FolderPlain gotime

text \<open>The time of a plain folder is its modification time. \<open>ie_fails\<close>: the n-th removal fails though the file may be there.\<close>

record image_env =
  ie_fails :: "nat \<Rightarrow> string \<Rightarrow> string \<Rightarrow> bool"
  ie_folder :: "string \<Rightarrow> image_folder"
  ie_list_error :: "string \<Rightarrow> string option"
  ie_private :: "string \<Rightarrow> run_error option"
  ie_lstat :: "string \<Rightarrow> string \<Rightarrow> string option"
  ie_write :: "nat \<Rightarrow> disk_write"
  ie_text :: "image_output \<Rightarrow> string"
  ie_read :: "string \<Rightarrow> string \<Rightarrow> run_error option"

record image_world =
  iw_store :: run_store
  iw_files :: "string \<Rightarrow> (string \<times> image_entry) list"
  iw_stamp :: "string \<Rightarrow> gotime"
  iw_removes :: nat
  iw_writes :: nat

definition max_artifact :: nat where "max_artifact = 8388608"
definition image_budget :: int where "image_budget = 268435456"

section \<open>Removing files\<close>

text \<open>A file that could not be removed stays a proven path; one that is gone, removed or not there, is none.\<close>

definition unlink_image :: "image_env \<Rightarrow> string \<Rightarrow> string \<Rightarrow> image_world \<Rightarrow> image_world" where
  "unlink_image ie key name w =
     (let s = iw_store w; w1 = w\<lparr>iw_removes := iw_removes w + 1\<rparr> in
      if ie_fails ie (iw_removes w) key name
      then w1\<lparr>iw_store := s\<lparr>st_image_cleanup := List.insert (key, name) (st_image_cleanup s)\<rparr>\<rparr>
      else w1\<lparr>iw_store := s\<lparr>st_image_cleanup := removeAll (key, name) (st_image_cleanup s)\<rparr>,
              iw_files := (iw_files w)(key := AList.delete name (iw_files w key))\<rparr>)"

fun unlink_all :: "image_env \<Rightarrow> string \<Rightarrow> string list \<Rightarrow> image_world \<Rightarrow> image_world" where
  "unlink_all ie key [] w = w"
| "unlink_all ie key (n # ns) w = unlink_all ie key ns (unlink_image ie key n w)"

definition commit_world ::
    "run_env \<Rightarrow> gotime \<Rightarrow> string \<Rightarrow> snapshot \<Rightarrow> run_event option \<Rightarrow> image_world \<Rightarrow> run_error option \<times> image_world" where
  "commit_world en now key v event w =
     (case commit en now key v event (iw_store w) of (e, _, s) \<Rightarrow> (e, w\<lparr>iw_store := s\<rparr>))"

fun drain_ids :: "image_env \<Rightarrow> string \<Rightarrow> string list \<Rightarrow> image_world \<Rightarrow> string list \<times> image_world" where
  "drain_ids ie key [] w = ([], w)"
| "drain_ids ie key (rid # rids) w =
     (let w1 = unlink_image ie key rid w in
      case drain_ids ie key rids w1 of
        (kept, w2) \<Rightarrow> (if (key, rid) \<in> set (st_image_cleanup (iw_store w1)) then rid # kept else kept, w2))"

definition drain_cleanup :: "run_env \<Rightarrow> image_env \<Rightarrow> gotime \<Rightarrow> string \<Rightarrow> image_world \<Rightarrow> run_error option \<times> image_world" where
  "drain_cleanup en ie now key w =
     (case map_of (st_data (iw_store w)) key of
        None \<Rightarrow> (None, w)
      | Some v \<Rightarrow>
          if sn_cleanup v = [] then (None, w)
          else (case drain_ids ie key (sn_cleanup v) w of
                  (kept, w) \<Rightarrow> if length kept \<noteq> length (sn_cleanup v) then commit_world en now key (v\<lparr>sn_cleanup := kept\<rparr>) None w
                               else (None, w)))"

section \<open>The sweep of a key\<close>

definition gone_image :: "image_env \<Rightarrow> image_output \<Rightarrow> run \<Rightarrow> run" where
  "gone_image ie i r = r\<lparr>rn_output := ie_text ie (i\<lparr>io_gone := True\<rparr>)\<rparr>"

text \<open>The output of a run that still names a file.\<close>

definition held_image :: "run_env \<Rightarrow> run \<Rightarrow> image_output option" where
  "held_image en r = (case image_output_of en r of Some i \<Rightarrow> if io_gone i then None else Some i | None \<Rightarrow> None)"

definition image_lapsed :: "run_env \<Rightarrow> gotime \<Rightarrow> run \<Rightarrow> bool" where
  "image_lapsed en now r \<longleftrightarrow> (case held_image en r of Some i \<Rightarrow> \<not> io_expires_at i > now | None \<Rightarrow> False)"

definition lapse_images :: "run_env \<Rightarrow> image_env \<Rightarrow> gotime \<Rightarrow> (string \<times> run) list \<Rightarrow> (string \<times> run) list" where
  "lapse_images en ie now rows =
     map (\<lambda>(rid, r). (rid, if image_lapsed en now r then gone_image ie (the (held_image en r)) r else r)) rows"

definition is_temp :: "string \<Rightarrow> bool" where "is_temp name \<longleftrightarrow> has_prefix ''.run-'' name"

definition forget_paths :: "string \<Rightarrow> (string \<times> string) list \<Rightarrow> (string \<times> string) list" where
  "forget_paths key ps = filter (\<lambda>p. fst p \<noteq> key) ps"

definition observe_orphans :: "string \<Rightarrow> string list \<Rightarrow> run_store \<Rightarrow> run_store" where
  "observe_orphans key names s =
     s\<lparr>st_image_orphans := fold List.insert (map (Pair key) (filter (\<lambda>n. (key, n) \<notin> set (st_image_cleanup s)) names)) (st_image_orphans s)\<rparr>"

text \<open>A key without runs: its files are only reported, once for each change of the folder.\<close>

definition scan_empty :: "string \<Rightarrow> string list \<Rightarrow> gotime \<Rightarrow> image_world \<Rightarrow> image_world" where
  "scan_empty key names modified w =
     (let s = iw_store w in
      w\<lparr>iw_store := observe_orphans key names s,
        iw_stamp := (if list_ex (\<lambda>n. (key, n) \<notin> set (st_image_cleanup s)) names \<and> iw_stamp w key \<noteq> modified
                     then (iw_stamp w)(key := modified) else iw_stamp w)\<rparr>)"

definition unowned :: "run_env \<Rightarrow> (string \<times> run) list \<Rightarrow> string \<Rightarrow> bool" where
  "unowned en rows name \<longleftrightarrow> (case map_of rows name of None \<Rightarrow> True | Some r \<Rightarrow> held_image en r = None)"

definition sweep_images :: "run_env \<Rightarrow> image_env \<Rightarrow> gotime \<Rightarrow> string \<Rightarrow> image_world \<Rightarrow> run_error option \<times> image_world" where
  "sweep_images en ie now key w =
     (case drain_cleanup en ie now key w of
        (Some e, w) \<Rightarrow> (Some e, w)
      | (None, w) \<Rightarrow>
          (let v = map_of (st_data (iw_store w)) key;
               w = unlink_all ie key (map snd (filter (\<lambda>p. fst p = key) (st_image_cleanup (iw_store w)))) w;
               s = iw_store w
           in case ie_folder ie key of
                FolderMissing \<Rightarrow>
                  (None, w\<lparr>iw_store := s\<lparr>st_image_orphans := forget_paths key (st_image_orphans s),
                                         st_image_cleanup := forget_paths key (st_image_cleanup s)\<rparr>\<rparr>)
              | FolderUnreadable e \<Rightarrow> (Some (ErrOther e), w)
              | FolderNotPlain \<Rightarrow> (Some ErrInvalid, w)
              | FolderPlain modified \<Rightarrow>
                  (case ie_list_error ie key of Some e \<Rightarrow> (Some (ErrOther e), w) | None \<Rightarrow>
                    (let names = map fst (iw_files w key);
                         w = w\<lparr>iw_store := s\<lparr>st_image_orphans := forget_paths key (st_image_orphans s)\<rparr>\<rparr>;
                         w = unlink_all ie key (filter is_temp names) w;
                         rest = filter (\<lambda>n. \<not> is_temp n) names
                     in case v of
                          None \<Rightarrow> (None, scan_empty key rest modified w)
                        | Some v \<Rightarrow>
                            if sn_runs v = [] then (None, scan_empty key rest modified w)
                            else
                              (let w = w\<lparr>iw_stamp := (iw_stamp w)(key := 0)\<rparr>;
                                   next = v\<lparr>sn_runs := lapse_images en ie now (sn_runs v)\<rparr>
                               in case (if list_ex (\<lambda>(rid, r). image_lapsed en now r) (sn_runs v)
                                        then commit_world en now key next None w else (None, w)) of
                                    (Some e, w) \<Rightarrow> (Some e, w)
                                  | (None, w) \<Rightarrow> (None, unlink_all ie key (filter (unowned en (sn_runs next)) names) w))))))"

section \<open>Storing, reading and discarding an image\<close>

definition image_rank :: "string \<times> image_output \<Rightarrow> gotime \<times> string" where
  "image_rank = (\<lambda>(rid, i). (io_expires_at i, rid))"

definition held_images :: "run_env \<Rightarrow> (string \<times> run) list \<Rightarrow> (string \<times> image_output) list" where
  "held_images en rows = concat (map (\<lambda>(rid, r). case held_image en r of Some i \<Rightarrow> [(rid, i)] | None \<Rightarrow> []) rows)"

definition held_bytes :: "run_env \<Rightarrow> (string \<times> run) list \<Rightarrow> int" where
  "held_bytes en rows = sum_list (map (\<lambda>(rid, i). io_bytes i) (held_images en rows))"

fun evict_images :: "gotime \<Rightarrow> int \<Rightarrow> (string \<times> image_output) list \<Rightarrow> (string \<times> image_output) list" where
  "evict_images now used [] = []"
| "evict_images now used (a # as) =
     (if used \<le> image_budget \<and> io_expires_at (snd a) > now then evict_images now used as
      else a # evict_images now (used - io_bytes (snd a)) as)"

definition evict_rows :: "image_env \<Rightarrow> (string \<times> image_output) list \<Rightarrow> (string \<times> run) list \<Rightarrow> (string \<times> run) list" where
  "evict_rows ie out rows = fold (\<lambda>(rid, i) rows. AList.update rid (gone_image ie i (row no_run rid rows)) rows) out rows"

definition put_file :: "string \<Rightarrow> string \<Rightarrow> string \<Rightarrow> image_world \<Rightarrow> image_world" where
  "put_file key name raw w = w\<lparr>iw_files := (iw_files w)(key := AList.update name (RegularFile raw) (iw_files w key))\<rparr>"

definition stored_image :: "gotime \<Rightarrow> string \<Rightarrow> string \<Rightarrow> string \<Rightarrow> int \<Rightarrow> int \<Rightarrow> image_output" where
  "stored_image now rid raw mime width height =
     \<lparr>io_url = ''/v1/images/outputs/'' @ rid, io_mime = mime, io_width = width, io_height = height, io_bytes = int (length raw),
      io_expires_at = now + retention, io_gone = False\<rparr>"

text \<open>From the write of the file to the commit of its row, and the files of the images that made room.\<close>

definition store_image ::
    "run_env \<Rightarrow> image_env \<Rightarrow> gotime \<Rightarrow> string \<Rightarrow> string \<Rightarrow> string \<Rightarrow> image_output \<Rightarrow> run \<Rightarrow> snapshot \<Rightarrow> image_world \<Rightarrow> (run_error + string) \<times> image_world" where
  "store_image en ie now key rid raw out old v w =
     (let evict = evict_images now (int (length raw) + held_bytes en (sn_runs v)) (sort_key image_rank (held_images en (sn_runs v)));
          rows = AList.update rid (old\<lparr>rn_output := ie_text ie out\<rparr>) (evict_rows ie evict (sn_runs v));
          w1 = w\<lparr>iw_writes := iw_writes w + 1\<rparr> in
      case ie_write ie (iw_writes w) of
        DirRefused e \<Rightarrow> (Inl e, w1)
      | WriteFailed e replaced \<Rightarrow> (Inl (ErrOther e), if replaced then put_file key rid raw w1 else w1)
      | WriteDone \<Rightarrow>
          (case commit_world en now key (v\<lparr>sn_runs := rows\<rparr>) (Some (state_event rid (rn_state old) now)) (put_file key rid raw w1) of
             (Some e, w) \<Rightarrow> (Inl e, unlink_image ie key rid w)
           | (None, w) \<Rightarrow> (Inr (ie_text ie out), unlink_all ie key (map fst evict) w)))"

definition put_image ::
    "run_env \<Rightarrow> image_env \<Rightarrow> gotime \<Rightarrow> string \<Rightarrow> string \<Rightarrow> string \<Rightarrow> string \<Rightarrow> int \<Rightarrow> int \<Rightarrow> image_world \<Rightarrow> (run_error + string) \<times> image_world" where
  "put_image en ie now key rid raw mime width height w =
     (if raw = [] \<or> length raw > max_artifact \<or> (mime \<noteq> ''image/png'' \<and> mime \<noteq> ''image/jpeg'') then (Inl ErrLimit, w)
      else (case load en now key (iw_store w) of
              (Inl e, s) \<Rightarrow> (Inl e, w\<lparr>iw_store := s\<rparr>)
            | (Inr v0, s) \<Rightarrow>
                (case sweep_images en ie now key (w\<lparr>iw_store := s\<rparr>) of
                   (Some e, w) \<Rightarrow> (Inl e, w)
                 | (None, w) \<Rightarrow>
                     (let v = data_of (iw_store w) key in
                      case map_of (sn_runs v) rid of
                        None \<Rightarrow> (Inl ErrNotFound, w)
                      | Some old \<Rightarrow>
                          if rn_kind old \<noteq> ''image'' \<or> terminal (rn_state old) then (Inl ErrNotFound, w)
                          else (case ie_private ie key of
                                  Some e \<Rightarrow> (Inl e, w)
                                | None \<Rightarrow>
                                    (case ie_lstat ie key rid of
                                       Some e \<Rightarrow> (Inl (ErrOther e), w)
                                     | None \<Rightarrow>
                                         if has_row rid (iw_files w key) then (Inl ErrConflict, w)
                                         else store_image en ie now key rid raw (stored_image now rid raw mime width height) old v w))))))"

definition served_image :: "run_env \<Rightarrow> gotime \<Rightarrow> string \<Rightarrow> snapshot \<Rightarrow> image_output option" where
  "served_image en now rid v =
     (case map_of (sn_runs v) rid of
        None \<Rightarrow> None
      | Some r \<Rightarrow> (case held_image en r of Some i \<Rightarrow> if io_expires_at i > now then Some i else None | None \<Rightarrow> None))"

definition read_image ::
    "run_env \<Rightarrow> image_env \<Rightarrow> gotime \<Rightarrow> string \<Rightarrow> string \<Rightarrow> image_world \<Rightarrow> (run_error + string \<times> image_output) \<times> image_world" where
  "read_image en ie now key rid w =
     (case load en now key (iw_store w) of
        (Inl e, s) \<Rightarrow> (Inl e, w\<lparr>iw_store := s\<rparr>)
      | (Inr v, s) \<Rightarrow>
          (case served_image en now rid v of
             None \<Rightarrow> Inl ErrNotFound
           | Some i \<Rightarrow>
               (case ie_folder ie key of
                  FolderPlain _ \<Rightarrow>
                    (if ie_lstat ie key rid \<noteq> None then Inl ErrNotFound
                     else case map_of (iw_files w key) rid of
                       Some (RegularFile raw) \<Rightarrow>
                         if length raw > max_artifact then Inl ErrNotFound
                         else (case ie_read ie key rid of Some e \<Rightarrow> Inl e | None \<Rightarrow> Inr (raw, i))
                     | _ \<Rightarrow> Inl ErrNotFound)
                | _ \<Rightarrow> Inl ErrNotFound),
           w\<lparr>iw_store := s\<rparr>))"

definition discard_image :: "run_env \<Rightarrow> image_env \<Rightarrow> gotime \<Rightarrow> string \<Rightarrow> string \<Rightarrow> image_world \<Rightarrow> run_error option \<times> image_world" where
  "discard_image en ie now key rid w =
     (case load en now key (iw_store w) of
        (Inl e, s) \<Rightarrow> (Some e, w\<lparr>iw_store := s\<rparr>)
      | (Inr v, s) \<Rightarrow>
          (let w = w\<lparr>iw_store := s\<rparr> in
           case map_of (sn_runs v) rid of
             None \<Rightarrow> (Some ErrNotFound, w)
           | Some r \<Rightarrow>
               (case image_output_of en r of
                  None \<Rightarrow> (Some ErrNotFound, w)
                | Some i \<Rightarrow>
                    if io_gone i then (None, w)
                    else (case commit_world en now key (v\<lparr>sn_runs := AList.update rid (gone_image ie i r) (sn_runs v)\<rparr>)
                                 (Some (state_event rid (rn_state r) now)) w of
                            (Some e, w) \<Rightarrow> (Some e, w)
                          | (None, w) \<Rightarrow> (None, unlink_image ie key rid w)))))"

text \<open>The proven paths, and the observed ones that are not proven.\<close>

definition image_cleanup_counts :: "run_store \<Rightarrow> nat \<times> nat" where
  "image_cleanup_counts s =
     (length (st_image_cleanup s), length (filter (\<lambda>p. p \<notin> set (st_image_cleanup s)) (st_image_orphans s)))"

section \<open>What removals and commits leave alone\<close>

lemma unlink_image_store: "\<exists>c. iw_store (unlink_image ie key n w) = (iw_store w)\<lparr>st_image_cleanup := c\<rparr>"
  by (auto simp: unlink_image_def Let_def)

lemma unlink_all_store: "\<exists>c. iw_store (unlink_all ie key ns w) = (iw_store w)\<lparr>st_image_cleanup := c\<rparr>"
proof (induction ns arbitrary: w)
  case Nil
  have "iw_store w = (iw_store w)\<lparr>st_image_cleanup := st_image_cleanup (iw_store w)\<rparr>" by simp
  then show ?case by (metis unlink_all.simps(1))
next
  case (Cons n ns)
  obtain c where "iw_store (unlink_image ie key n w) = (iw_store w)\<lparr>st_image_cleanup := c\<rparr>" using unlink_image_store by blast
  moreover obtain d where "iw_store (unlink_all ie key ns (unlink_image ie key n w)) = (iw_store (unlink_image ie key n w))\<lparr>st_image_cleanup := d\<rparr>"
    using Cons by blast
  ultimately show ?case by (intro exI [of _ d]) simp
qed

lemma unlink_file [simp]:
  "n' \<noteq> n \<or> k \<noteq> key \<Longrightarrow> map_of (iw_files (unlink_image ie key n w) k) n' = map_of (iw_files w k) n'"
  by (auto simp: unlink_image_def Let_def delete_conv)

lemma unlink_all_file:
  "n \<notin> set ns \<or> k \<noteq> key \<Longrightarrow> map_of (iw_files (unlink_all ie key ns w) k) n = map_of (iw_files w k) n"
  by (induction ns arbitrary: w) auto

lemma unlink_data [simp]: "st_data (iw_store (unlink_image ie key n w)) = st_data (iw_store w)"
  using unlink_image_store [of ie key n w] by auto

lemma unlink_all_data [simp]: "st_data (iw_store (unlink_all ie key ns w)) = st_data (iw_store w)"
  using unlink_all_store [of ie key ns w] by auto

lemma unlink_all_broken [simp]: "st_broken (iw_store (unlink_all ie key ns w)) = st_broken (iw_store w)"
  using unlink_all_store [of ie key ns w] by auto

lemma drain_ids_world: "snd (drain_ids ie key ids w) = unlink_all ie key ids w"
  by (induction ids arbitrary: w) (simp_all add: Let_def split_def)

lemma drain_ids_subset: "set (fst (drain_ids ie key ids w)) \<subseteq> set ids"
proof (induction ids arbitrary: w)
  case (Cons n ids)
  show ?case using Cons [of "unlink_image ie key n w"] by (auto simp: Let_def split_def)
qed simp

text \<open>The proven paths after a removal are among those there were and the ones it could not remove.\<close>

lemma unlink_all_cleanup:
  "set (st_image_cleanup (iw_store (unlink_all ie key ns w))) \<subseteq> Pair key ` set ns \<union> set (st_image_cleanup (iw_store w))"
proof (induction ns arbitrary: w)
  case (Cons n ns)
  have "set (st_image_cleanup (iw_store (unlink_image ie key n w))) \<subseteq> insert (key, n) (set (st_image_cleanup (iw_store w)))"
    by (auto simp: unlink_image_def Let_def)
  with Cons [of "unlink_image ie key n w"] show ?case by auto
qed simp

lemma commit_world_frame:
  assumes "commit_world en now key v event w = (e, w')"
  shows "iw_files w' = iw_files w" "iw_stamp w' = iw_stamp w"
  using assms by (auto simp: commit_world_def split: prod.splits)

lemma write_snapshot_cleanup: "write_snapshot en key v raw evs i c s = (e, u, t) \<Longrightarrow> st_image_cleanup t = st_image_cleanup s \<and> st_image_orphans t = st_image_orphans s"
proof -
  have p: "st_image_cleanup (fold (publish k) es s) = st_image_cleanup s \<and> st_image_orphans (fold (publish k) es s) = st_image_orphans s" for k es s
    by (induction es arbitrary: s) (auto simp: publish_def)
  show "write_snapshot en key v raw evs i c s = (e, u, t) \<Longrightarrow> ?thesis"
    by (auto simp: write_snapshot_def Let_def mark_broken_def p split: disk_write.splits if_splits)
qed

lemma commit_cleanup:
  assumes "commit en now key v event s = (e, u, t)"
  shows "st_image_cleanup t = st_image_cleanup s"
  using assms write_snapshot_cleanup
  by (fastforce simp: commit_def commit_for_def Let_def split: option.splits prod.splits if_splits)

text \<open>A commit that changes no life keeps the rows it was given, up to their stamps.\<close>

lemma stamped_life_row: "list_all2 (stamped now) xs ys \<Longrightarrow> rn_state (row no_run k ys) = rn_state (row no_run k xs) \<and> rn_cancel_requested (row no_run k ys) = rn_cancel_requested (row no_run k xs)"
  by (induction rule: list_all2_induct) (auto simp: stamped_def row_def)

lemma commit_same_lives:
  assumes c: "commit en now key v event s = (None, w, t)"
    and l: "\<And>e. event = Some e \<Longrightarrow> \<not> lifecycle (run_row (re_run_id e) (data_of s key)) (run_row (re_run_id e) v)"
    and n: "\<not> has_row [] (sn_runs (data_of s key))"
  shows "list_all2 (stamped now) (sn_runs v) (sn_runs w)" "sn_cleanup w = sn_cleanup v" "map_of (st_data t) key = Some w"
proof -
  define rid where "rid = (case event of None \<Rightarrow> [] | Some e \<Rightarrow> re_run_id e)"
  have c: "commit_for en now key v event rid s = (None, w, t)" using c by (simp add: commit_def rid_def)
  obtain d events where st: "staged en now (data_of s key) event v = (d, events)" by fastforce
  have d: "list_all2 (stamped now) (sn_runs v) (sn_runs d)" "sn_cleanup d = sn_cleanup v"
    using stamp_images_rows [of now "sn_runs v" en "sn_runs (data_of s key)" event] st
    by (auto simp: staged_def Let_def log_events_def drop_orphan_rows_def split: prod.splits)
  have "rn_id (run_row rid (data_of s key)) = [] \<or> \<not> lifecycle (run_row rid (data_of s key)) (run_row rid d)"
  proof (cases event)
    case None
    then show ?thesis using n by (auto simp: rid_def row_def has_row_def no_run_def split: option.splits)
  next
    case (Some e)
    then show ?thesis using l [OF Some] stamped_life_row [OF d(1), of rid] by (simp add: rid_def lifecycle_def)
  qed
  then obtain raw credit where w: "write_snapshot en key d raw events rid credit s = (None, w, t)"
    using c unfolding commit_for_def Let_def st by (auto split: option.splits if_splits)
  note r = write_snapshot_rows [OF w]
  show "list_all2 (stamped now) (sn_runs v) (sn_runs w)" "sn_cleanup w = sn_cleanup v" using d r by simp_all
  show "map_of (st_data t) key = Some w" using commit_success_data [OF c] by (simp add: update_conv')
qed

section \<open>The sweep keeps what a record names and reclaims the rest\<close>

lemma held_stamp [simp]: "held_image en (r\<lparr>rn_updated := t\<rparr>) = held_image en r"
  by (simp add: held_image_def image_output_of_def)

lemma stamped_held:
  "list_all2 (stamped now) xs ys \<Longrightarrow> map_option (held_image en) (map_of ys k) = map_option (held_image en) (map_of xs k)"
  by (induction rule: list_all2_induct) (auto simp: stamped_def)

lemma drain_keeps:
  assumes d: "drain_cleanup en ie now key w = (e, w1)" and v: "map_of (st_data (iw_store w)) key = Some v"
    and n: "\<not> has_row [] (sn_runs v)"
  shows "e = None \<Longrightarrow> \<exists>v1. map_of (st_data (iw_store w1)) key = Some v1 \<and> list_all2 (stamped now) (sn_runs v) (sn_runs v1)"
    and "n \<notin> set (sn_cleanup v) \<Longrightarrow> map_of (iw_files w1 key) n = map_of (iw_files w key) n"
    and "set (st_image_cleanup (iw_store w1)) \<subseteq> Pair key ` set (sn_cleanup v) \<union> set (st_image_cleanup (iw_store w))"
proof -
  obtain kept w2 where dr: "drain_ids ie key (sn_cleanup v) w = (kept, w2)" by (metis surj_pair)
  have w2: "w2 = unlink_all ie key (sn_cleanup v) w" using drain_ids_world [of ie key "sn_cleanup v" w] dr by simp
  have same: "list_all2 (stamped now) (sn_runs v) (sn_runs v)" by (rule list_all2_refl) (auto simp: stamped_def)
  note d = d [unfolded drain_cleanup_def v option.case dr prod.case]
  have "(e = None \<longrightarrow> (\<exists>v1. map_of (st_data (iw_store w1)) key = Some v1 \<and> list_all2 (stamped now) (sn_runs v) (sn_runs v1)))
    \<and> (n \<notin> set (sn_cleanup v) \<longrightarrow> map_of (iw_files w1 key) n = map_of (iw_files w key) n)
    \<and> set (st_image_cleanup (iw_store w1)) \<subseteq> Pair key ` set (sn_cleanup v) \<union> set (st_image_cleanup (iw_store w))"
  proof (cases "sn_cleanup v \<noteq> [] \<and> length kept \<noteq> length (sn_cleanup v)")
    case False
    then have "w1 = w \<and> sn_cleanup v = [] \<or> w1 = w2" using d by (auto split: if_splits)
    then show ?thesis using v same unlink_all_file [of n "sn_cleanup v" key key ie w] unlink_all_cleanup [of ie key "sn_cleanup v" w] by (auto simp: w2)
  next
    case True
    then have c: "commit_world en now key (v\<lparr>sn_cleanup := kept\<rparr>) None w2 = (e, w1)" using d by simp
    obtain u s where cs: "commit en now key (v\<lparr>sn_cleanup := kept\<rparr>) None (iw_store w2) = (e, u, s)" and w1: "w1 = w2\<lparr>iw_store := s\<rparr>"
      using c by (auto simp: commit_world_def split: prod.splits)
    have "data_of (iw_store w2) key = v" using v by (simp add: data_of_def row_def w2)
    then have "e = None \<Longrightarrow> list_all2 (stamped now) (sn_runs v) (sn_runs u) \<and> map_of (st_data s) key = Some u"
      using commit_same_lives [of en now key "v\<lparr>sn_cleanup := kept\<rparr>" None "iw_store w2" u s] cs n by auto
    then show ?thesis
      using commit_cleanup [OF cs] unlink_all_file [of n "sn_cleanup v" key key ie w]
        unlink_all_cleanup [of ie key "sn_cleanup v" w] by (auto simp: w1 w2)
  qed
  then show "e = None \<Longrightarrow> \<exists>v1. map_of (st_data (iw_store w1)) key = Some v1 \<and> list_all2 (stamped now) (sn_runs v) (sn_runs v1)"
    and "n \<notin> set (sn_cleanup v) \<Longrightarrow> map_of (iw_files w1 key) n = map_of (iw_files w key) n"
    and "set (st_image_cleanup (iw_store w1)) \<subseteq> Pair key ` set (sn_cleanup v) \<union> set (st_image_cleanup (iw_store w))" by blast+
qed

text \<open>The part of a sweep after the drain and the retries, in three steps.\<close>

lemma lapse_row:
  "map_of (lapse_images en ie now rows) rid = map_option (\<lambda>r. if image_lapsed en now r then gone_image ie (the (held_image en r)) r else r) (map_of rows rid)"
  by (induction rows) (auto simp: lapse_images_def)

lemma lapse_same_lives:
  "\<not> has_row [] rows \<Longrightarrow> \<not> has_row [] (lapse_images en ie now rows)"
  by (simp add: has_row_def lapse_row)

lemma unlink_all_row: "map_of (st_data (iw_store (unlink_all ie key ns w))) k = map_of (st_data (iw_store w)) k"
  by simp

lemma scan_empty_files [simp]: "iw_files (scan_empty key ns m w) = iw_files w"
  by (simp add: scan_empty_def Let_def)

lemma snap_ok_names:
  assumes "snap_ok key v" "has_row rid (sn_runs v)"
  shows "\<not> has_row [] (sn_runs v)" "rid \<notin> set (sn_cleanup v)" "\<not> is_temp rid"
proof -
  have s: "safe_id n" if "has_row n (sn_runs v)" for n
    using that assms(1) by (auto simp: snap_ok_parts tables_ok_def list_all_iff row_ok_def has_row_iff)
  show "\<not> has_row [] (sn_runs v)" using s [of "[]"] by (auto simp: safe_id_def)
  show "rid \<notin> set (sn_cleanup v)" using assms by (auto simp: snap_ok_parts tables_ok_def cleanup_ok_def list_all_iff)
  have "\<not> has_prefix ''.run-'' rid" using s [OF assms(2)]
    by (cases rid) (auto simp: safe_id_def has_prefix_def id_char_def byte_def Let_def)
  then show "\<not> is_temp rid" by (simp add: is_temp_def)
qed

text \<open>
  A sweep never takes the file of an image that is still kept: while a record names it and it has not expired, its bytes stay as
  they are, whatever the disk answers and even when the sweep fails, and its record still names it.
\<close>

theorem sweep_keeps_named:
  assumes v: "map_of (st_data (iw_store w)) key = Some v" and ok: "snap_ok key v"
    and r: "map_of (sn_runs v) rid = Some r" "held_image en r = Some i" "io_expires_at i > now"
    and p: "(key, rid) \<notin> set (st_image_cleanup (iw_store w))"
    and sw: "sweep_images en ie now key w = (e, w')"
  shows "map_of (iw_files w' key) rid = map_of (iw_files w key) rid
    \<and> (e = None \<longrightarrow> (\<exists>v' r'. map_of (st_data (iw_store w')) key = Some v' \<and> map_of (sn_runs v') rid = Some r' \<and> held_image en r' = Some i))"
proof -
  have hr: "has_row rid (sn_runs v)" using r by (simp add: has_row_def)
  note names = snap_ok_names [OF ok hr]
  obtain e1 w1 where d: "drain_cleanup en ie now key w = (e1, w1)" by (metis surj_pair)
  note dk = drain_keeps [OF d v names(1)]
  have f1: "map_of (iw_files w1 key) rid = map_of (iw_files w key) rid" using dk(2) names(2) by blast
  have p1: "(key, rid) \<notin> set (st_image_cleanup (iw_store w1))" using dk(3) p names(2) by blast
  show ?thesis
  proof (cases e1)
    case (Some x)
    then show ?thesis using sw d f1 by (auto simp: sweep_images_def)
  next
    case None
    obtain v1 where v1: "map_of (st_data (iw_store w1)) key = Some v1" "list_all2 (stamped now) (sn_runs v) (sn_runs v1)" using dk(1) None by blast
    obtain r1 where r1: "map_of (sn_runs v1) rid = Some r1" "held_image en r1 = Some i"
      using stamped_held [OF v1(2), of en rid] r by auto
    have n1: "\<not> has_row [] (sn_runs v1)" using has_row_keys [OF stamped_keys [OF v1(2)]] names(1) by simp
    have ne: "sn_runs v1 \<noteq> []" using r1 by auto
    define w2 where "w2 = unlink_all ie key (map snd (filter (\<lambda>p. fst p = key) (st_image_cleanup (iw_store w1)))) w1"
    have f2: "map_of (iw_files w2 key) rid = map_of (iw_files w key) rid"
      unfolding w2_def using p1 f1 by (subst unlink_all_file) auto
    have d2: "map_of (st_data (iw_store w2)) key = Some v1" using v1 by (simp add: w2_def)
    note sw = sw [unfolded sweep_images_def d None prod.case option.case v1(1) Let_def, folded w2_def]
    show ?thesis
    proof (cases "\<exists>m. ie_folder ie key = FolderPlain m \<and> ie_list_error ie key = None")
      case False
      then show ?thesis using sw f2 d2 r1 by (auto split: image_folder.splits option.splits)
    next
      case True
      then obtain m where m: "ie_folder ie key = FolderPlain m" "ie_list_error ie key = None" by blast
      define names2 where "names2 = map fst (iw_files w2 key)"
      define w3 where "w3 = unlink_all ie key (filter is_temp names2)
          (w2\<lparr>iw_store := (iw_store w2)\<lparr>st_image_orphans := forget_paths key (st_image_orphans (iw_store w2))\<rparr>\<rparr>)"
      define w4 where "w4 = w3\<lparr>iw_stamp := (iw_stamp w3)(key := 0)\<rparr>"
      have f4: "map_of (iw_files w4 key) rid = map_of (iw_files w key) rid"
        unfolding w4_def w3_def using names(3) f2 by (simp add: unlink_all_file)
      have d4: "map_of (st_data (iw_store w4)) key = Some v1" using d2 by (simp add: w4_def w3_def)
      define nx where "nx = v1\<lparr>sn_runs := lapse_images en ie now (sn_runs v1)\<rparr>"
      have nl: "\<not> image_lapsed en now r1" using r1 r(3) by (simp add: image_lapsed_def)
      have nxr: "map_of (sn_runs nx) rid = Some r1" using r1 nl by (simp add: nx_def lapse_row)
      obtain e5 w5 where c: "(if list_ex (\<lambda>(rid, r). image_lapsed en now r) (sn_runs v1) then commit_world en now key nx None w4 else (None, w4)) = (e5, w5)"
        by (metis surj_pair)
      have sw: "(case e5 of None \<Rightarrow> (None, unlink_all ie key (filter (unowned en (sn_runs nx)) names2) w5) | Some e \<Rightarrow> (Some e, w5)) = (e, w')"
        using sw m ne c unfolding names2_def w3_def w4_def nx_def by simp
      have f5: "iw_files w5 = iw_files w4" using c commit_world_frame by (auto split: if_splits)
      have d5: "\<exists>v' r'. map_of (st_data (iw_store w5)) key = Some v' \<and> map_of (sn_runs v') rid = Some r' \<and> held_image en r' = Some i" if e5: "e5 = None"
      proof (cases "list_ex (\<lambda>(rid, r). image_lapsed en now r) (sn_runs v1)")
        case True
        then obtain u s where cs: "commit en now key nx None (iw_store w4) = (None, u, s)" and w5: "iw_store w5 = s"
          using c e5 by (auto simp: commit_world_def split: prod.splits)
        have "data_of (iw_store w4) key = v1" using d4 by (simp add: data_of_def row_def)
        then have "list_all2 (stamped now) (sn_runs nx) (sn_runs u)" "map_of (st_data s) key = Some u"
          using commit_same_lives [OF cs] n1 by simp_all
        then show ?thesis using stamped_held [of now "sn_runs nx" "sn_runs u" en rid] nxr r1 w5 by auto
      next
        case False
        then show ?thesis using c d4 r1 by auto
      qed
      have "\<not> unowned en (sn_runs nx) rid" using nxr r1 by (simp add: unowned_def)
      then have "map_of (iw_files (unlink_all ie key (filter (unowned en (sn_runs nx)) names2) w5) key) rid = map_of (iw_files w key) rid"
        using f4 f5 by (simp add: unlink_all_file)
      then show ?thesis using sw d5 f4 f5 by (cases e5) auto
    qed
  qed
qed

section \<open>An image put is an image read\<close>

lemma scan_empty_data [simp]: "st_data (iw_store (scan_empty key ns m w)) = st_data (iw_store w)"
  by (simp add: scan_empty_def observe_orphans_def Let_def)

text \<open>The rows a sweep leaves: stamped, and with the lapsed images marked as gone.\<close>

lemma sweep_rows_left:
  assumes v: "map_of (st_data (iw_store w)) key = Some v" and n: "\<not> has_row [] (sn_runs v)"
    and sw: "sweep_images en ie now key w = (None, w')"
  shows "\<exists>(v1 :: snapshot) v'. map_of (st_data (iw_store w')) key = Some v' \<and> list_all2 (stamped now) (sn_runs v) (sn_runs v1)
     \<and> (sn_runs v' = sn_runs v1 \<or> list_all2 (stamped now) (lapse_images en ie now (sn_runs v1)) (sn_runs v'))"
proof -
  obtain e1 w1 where d: "drain_cleanup en ie now key w = (e1, w1)" by (metis surj_pair)
  have "e1 = None" using sw by (auto simp: sweep_images_def d split: option.splits)
  then obtain v1 where v1: "map_of (st_data (iw_store w1)) key = Some v1" "list_all2 (stamped now) (sn_runs v) (sn_runs v1)"
    using drain_keeps(1) [OF d v n] by blast
  have n1: "\<not> has_row [] (sn_runs v1)" using has_row_keys [OF stamped_keys [OF v1(2)]] n by simp
  have "(\<exists>v'. map_of (st_data (iw_store w')) key = Some v' \<and> (sn_runs v' = sn_runs v1 \<or> list_all2 (stamped now) (lapse_images en ie now (sn_runs v1)) (sn_runs v')))"
  proof (cases "map_of (st_data (iw_store w')) key = Some v1")
    case False
    then obtain w4 w5 ns where c: "commit_world en now key (v1\<lparr>sn_runs := lapse_images en ie now (sn_runs v1)\<rparr>) None w4 = (None, w5)"
      and w: "w' = unlink_all ie key ns w5" "st_data (iw_store w4) = st_data (iw_store w1)"
      using sw v1(1) \<open>e1 = None\<close>
      by (auto simp: sweep_images_def d Let_def split: option.splits image_folder.splits if_splits prod.splits)
    obtain u s where cs: "commit en now key (v1\<lparr>sn_runs := lapse_images en ie now (sn_runs v1)\<rparr>) None (iw_store w4) = (None, u, s)" and w5: "iw_store w5 = s"
      using c by (auto simp: commit_world_def split: prod.splits)
    have "data_of (iw_store w4) key = v1" using v1 w by (simp add: data_of_def row_def)
    then show ?thesis using commit_same_lives [OF cs] n1 w w5 by simp
  qed auto
  then show ?thesis using v1(2) by metis
qed

lemma sweep_row_left:
  assumes v: "map_of (st_data (iw_store w)) key = Some v" and n: "\<not> has_row [] (sn_runs v)"
    and sw: "sweep_images en ie now key w = (None, w')"
  shows "\<exists>v'. map_of (st_data (iw_store w')) key = Some v' \<and> map fst (sn_runs v') = map fst (sn_runs v)
     \<and> (\<forall>rid r. map_of (sn_runs v) rid = Some r \<longrightarrow> held_image en r = None \<longrightarrow>
          (\<exists>r'. map_of (sn_runs v') rid = Some r' \<and> (r' = r \<or> r' = r\<lparr>rn_updated := now\<rparr>)))"
proof -
  obtain v1 :: snapshot and v' where l: "map_of (st_data (iw_store w')) key = Some v'" "list_all2 (stamped now) (sn_runs v) (sn_runs v1)"
     "sn_runs v' = sn_runs v1 \<or> list_all2 (stamped now) (lapse_images en ie now (sn_runs v1)) (sn_runs v')"
    using sweep_rows_left [OF assms] by blast
  have "map fst (lapse_images en ie now (sn_runs v1)) = map fst (sn_runs v1)" by (simp add: lapse_images_def case_prod_beta comp_def)
  then have k: "map fst (sn_runs v') = map fst (sn_runs v)" using l(3) stamped_keys [OF l(2)] stamped_keys by auto
  have "\<exists>r'. map_of (sn_runs v') rid = Some r' \<and> (r' = r \<or> r' = r\<lparr>rn_updated := now\<rparr>)"
    if r: "map_of (sn_runs v) rid = Some r" "held_image en r = None" for rid r
  proof -
    obtain r1 where r1: "map_of (sn_runs v1) rid = Some r1" "r1 = r \<or> r1 = r\<lparr>rn_updated := now\<rparr>"
      using stamped_map_of [OF l(2), of rid] r by auto
    have "\<not> image_lapsed en now r1" using r1 r(2) by (auto simp: image_lapsed_def)
    then have "map_of (lapse_images en ie now (sn_runs v1)) rid = Some r1" using r1 by (simp add: lapse_row)
    then show ?thesis using l(3) r1 stamped_map_of [of now "lapse_images en ie now (sn_runs v1)" "sn_runs v'" rid] by auto
  qed
  then show ?thesis using l(1) k by blast
qed

lemma evict_subset: "set (evict_images now used as) \<subseteq> set as"
  by (induction now used as rule: evict_images.induct) auto

lemma held_images_row: "distinct (map fst rows) \<Longrightarrow> (rid, i) \<in> set (held_images en rows) \<longleftrightarrow> (\<exists>r. map_of rows rid = Some r \<and> held_image en r = Some i)"
proof -
  assume d: "distinct (map fst rows)"
  have "(rid, i) \<in> set (held_images en rows) \<longleftrightarrow> (\<exists>r. (rid, r) \<in> set rows \<and> held_image en r = Some i)"
    by (force simp: held_images_def split: option.splits)
  then show ?thesis using d by (auto dest: map_of_is_SomeI map_of_SomeD)
qed

lemma evict_rows_row:
  "rid \<notin> fst ` set out \<Longrightarrow> map_of (evict_rows ie out rows) rid = map_of rows rid"
  by (induction out arbitrary: rows) (auto simp: evict_rows_def update_conv')

lemma evict_rows_keys: "\<forall>(rid, i) \<in> set out. has_row rid rows \<Longrightarrow> map fst (evict_rows ie out rows) = map fst rows"
proof (induction out arbitrary: rows)
  case (Cons x out)
  obtain rid i where x: "x = (rid, i)" by (cases x)
  have "evict_rows ie (x # out) rows = evict_rows ie out (AList.update rid (gone_image ie i (row no_run rid rows)) rows)"
    by (simp add: evict_rows_def x)
  then show ?case using Cons.IH [of "AList.update rid (gone_image ie i (row no_run rid rows)) rows"] Cons.prems
    by (auto simp: map_fst_update_same x)
qed (simp add: evict_rows_def)

text \<open>What a successful put has done: the rows it committed and the files it left.\<close>

lemma put_image_steps:
  assumes p: "put_image en ie now key rid raw mime wd ht w = (Inr out, w')"
  obtains v0 s w1 v old evict u t where
    "load en now key (iw_store w) = (Inr v0, s)" "sweep_images en ie now key (w\<lparr>iw_store := s\<rparr>) = (None, w1)" "v = data_of (iw_store w1) key"
    "map_of (sn_runs v) rid = Some old" "rn_kind old = ''image''" "length raw \<le> max_artifact"
    "evict = evict_images now (int (length raw) + held_bytes en (sn_runs v)) (sort_key image_rank (held_images en (sn_runs v)))"
    "out = ie_text ie (stored_image now rid raw mime wd ht)"
    "commit en now key (v\<lparr>sn_runs := AList.update rid (old\<lparr>rn_output := out\<rparr>) (evict_rows ie evict (sn_runs v))\<rparr>) (Some (state_event rid (rn_state old) now)) (iw_store w1)
       = (None, u, t)"
    "w' = unlink_all ie key (map fst evict) ((put_file key rid raw (w1\<lparr>iw_writes := iw_writes w1 + 1\<rparr>))\<lparr>iw_store := t\<rparr>)"
proof -
  obtain v0 s where l: "load en now key (iw_store w) = (Inr v0, s)" using p by (auto simp: put_image_def split: sum.splits prod.splits if_splits)
  obtain w1 where sw: "sweep_images en ie now key (w\<lparr>iw_store := s\<rparr>) = (None, w1)"
    using p l by (auto simp: put_image_def split: option.splits prod.splits if_splits)
  define v where "v = data_of (iw_store w1) key"
  obtain old where o: "map_of (sn_runs v) rid = Some old" "rn_kind old = ''image''"
    and st: "store_image en ie now key rid raw (stored_image now rid raw mime wd ht) old v w1 = (Inr out, w')" and sz: "length raw \<le> max_artifact"
    using p l sw by (auto simp: put_image_def v_def Let_def split: option.splits if_splits)
  define evict where "evict = evict_images now (int (length raw) + held_bytes en (sn_runs v)) (sort_key image_rank (held_images en (sn_runs v)))"
  note st = st [unfolded store_image_def evict_def [symmetric] Let_def]
  obtain w2 where c: "commit_world en now key (v\<lparr>sn_runs := AList.update rid (old\<lparr>rn_output := ie_text ie (stored_image now rid raw mime wd ht)\<rparr>) (evict_rows ie evict (sn_runs v))\<rparr>)
      (Some (state_event rid (rn_state old) now)) (put_file key rid raw (w1\<lparr>iw_writes := iw_writes w1 + 1\<rparr>)) = (None, w2)"
    and w': "out = ie_text ie (stored_image now rid raw mime wd ht)" "w' = unlink_all ie key (map fst evict) w2"
    using st by (auto split: disk_write.splits option.splits prod.splits)
  obtain u t where cm: "commit en now key (v\<lparr>sn_runs := AList.update rid (old\<lparr>rn_output := out\<rparr>) (evict_rows ie evict (sn_runs v))\<rparr>)
      (Some (state_event rid (rn_state old) now)) (iw_store w1) = (None, u, t)"
    and w2: "w2 = (put_file key rid raw (w1\<lparr>iw_writes := iw_writes w1 + 1\<rparr>))\<lparr>iw_store := t\<rparr>"
    using c w'(1) by (auto simp: commit_world_def put_file_def split: prod.splits)
  show ?thesis using that [OF l sw v_def o sz evict_def w'(1) cm] w'(2) w2 by simp
qed

lemma load_answers:
  assumes "map_of (st_data s) key = Some v" "st_broken s key = None" "safe_id key"
  shows "load en now key s = (Inr v, s\<lparr>st_accessed := (st_accessed s)(key := now)\<rparr>)"
  using assms by (simp add: load_def Let_def)

lemma load_safe: "load en now key s = (Inr v, t) \<Longrightarrow> safe_id key"
  by (auto simp: load_def split: if_splits)

definition image_codec :: "run_env \<Rightarrow> image_env \<Rightarrow> bool" where
  "image_codec en ie \<longleftrightarrow> rc_image en [] = None \<and> (\<forall>i. rc_image en (ie_text ie i) = Some i)"

lemma put_row:
  assumes c: "image_codec en ie" and k: "rn_kind old = ''image''"
  shows "held_image en (old\<lparr>rn_output := ie_text ie (stored_image now rid raw mime wd ht)\<rparr>) = Some (stored_image now rid raw mime wd ht)"
  using c k by (simp add: image_codec_def held_image_def image_output_of_def stored_image_def)

lemma put_commit_rows:
  assumes cm: "commit en now key (v\<lparr>sn_runs := AList.update rid (old\<lparr>rn_output := out\<rparr>) rows\<rparr>) (Some (state_event rid st now)) s = (None, u, t)"
    and v: "v = data_of s key" "map_of (sn_runs v) rid = Some old" "\<not> has_row [] (sn_runs v)"
  shows "list_all2 (stamped now) (AList.update rid (old\<lparr>rn_output := out\<rparr>) rows) (sn_runs u)" "map_of (st_data t) key = Some u"
  using commit_same_lives [OF cm] v by (simp_all add: state_event_def lifecycle_def row_def update_conv')

text \<open>
  An image that is stored for a run without one can be read back until it expires: the same bytes, under the metadata the run now
  carries. (The codec of the output inverts, the run's row is in memory, and the disk lets the file be read.)
\<close>

theorem put_then_read:
  assumes codec: "image_codec en ie"
    and ld: "load en now key (iw_store w) = (Inr v, s)" and ok: "snap_ok key v" "map_of (st_data s) key = Some v"
    and r: "map_of (sn_runs v) rid = Some r" "rn_output r = []"
    and p: "put_image en ie now key rid raw mime wd ht w = (Inr out, w')"
    and tm: "later < now + retention"
    and disk: "ie_folder ie key = FolderPlain m" "ie_lstat ie key rid = None" "ie_read ie key rid = None"
  shows "\<exists>i. fst (read_image en ie later key rid w') = Inr (raw, i) \<and> ie_text ie i = out \<and> io_bytes i = int (length raw) \<and> io_mime i = mime"
proof -
  obtain v0 s' w1 v1 old evict u t where st:
    "load en now key (iw_store w) = (Inr v0, s')" "sweep_images en ie now key (w\<lparr>iw_store := s'\<rparr>) = (None, w1)" "v1 = data_of (iw_store w1) key"
    "map_of (sn_runs v1) rid = Some old" "rn_kind old = ''image''" "length raw \<le> max_artifact"
    "evict = evict_images now (int (length raw) + held_bytes en (sn_runs v1)) (sort_key image_rank (held_images en (sn_runs v1)))"
    "out = ie_text ie (stored_image now rid raw mime wd ht)"
    "commit en now key (v1\<lparr>sn_runs := AList.update rid (old\<lparr>rn_output := out\<rparr>) (evict_rows ie evict (sn_runs v1))\<rparr>) (Some (state_event rid (rn_state old) now)) (iw_store w1)
       = (None, u, t)"
    "w' = unlink_all ie key (map fst evict) ((put_file key rid raw (w1\<lparr>iw_writes := iw_writes w1 + 1\<rparr>))\<lparr>iw_store := t\<rparr>)"
    using put_image_steps [OF p] by blast
  let ?i = "stored_image now rid raw mime wd ht"
  have s': "s' = s" using st(1) ld by simp
  have n: "\<not> has_row [] (sn_runs v)" using snap_ok_names(1) [OF ok(1), of rid] r by (simp add: has_row_def)
  have hn: "held_image en r = None" using r(2) codec by (simp add: held_image_def image_output_of_def image_codec_def)
  obtain v1' where l: "map_of (st_data (iw_store w1)) key = Some v1'" "map fst (sn_runs v1') = map fst (sn_runs v)"
      "\<exists>r'. map_of (sn_runs v1') rid = Some r' \<and> (r' = r \<or> r' = r\<lparr>rn_updated := now\<rparr>)"
    using sweep_row_left [OF _ n st(2)] ok(2) r(1) hn by (auto simp: s')
  have v1: "v1' = v1" using st(3) l(1) by (simp add: data_of_def row_def)
  have ho: "held_image en old = None" using l(3) st(4) hn by (auto simp: v1)
  have d: "distinct (map fst (sn_runs v1))" using ok(1) l(2) by (simp add: v1 snap_ok_parts tables_ok_def maps_ok_def)
  have ne: "rid \<notin> fst ` set evict"
  proof
    assume "rid \<in> fst ` set evict"
    then obtain i where "(rid, i) \<in> set (held_images en (sn_runs v1))" using evict_subset [of now _ "sort_key image_rank (held_images en (sn_runs v1))"] by (fastforce simp: st(7))
    then show False using held_images_row [OF d] st(4) ho by auto
  qed
  have n1: "\<not> has_row [] (sn_runs v1)" using n has_row_keys [OF l(2)] by (simp add: v1)
  note cr = put_commit_rows [OF st(9) st(3) st(4) n1]
  have hu: "map_option (held_image en) (map_of (sn_runs u) rid) = Some (Some ?i)"
    using stamped_held [OF cr(1), of en rid] put_row [OF codec st(5)] by (simp add: update_conv' st(8))
  have f: "map_of (iw_files w' key) rid = Some (RegularFile raw)"
    using ne by (simp add: st(10) unlink_all_file put_file_def update_conv')
  have b: "st_broken (iw_store w') key = None" using commit_success_data st(9) by (simp add: st(10) commit_def) 
  have "map_of (st_data (iw_store w')) key = Some u" using cr(2) by (simp add: st(10))
  then have rd: "load en later key (iw_store w') = (Inr u, (iw_store w')\<lparr>st_accessed := (st_accessed (iw_store w'))(key := later)\<rparr>)"
    using load_answers b load_safe [OF ld] by blast
  have "served_image en later rid u = Some ?i" using hu tm by (auto simp: served_image_def stored_image_def)
  then have "fst (read_image en ie later key rid w') = Inr (raw, ?i)"
    using rd disk f st(6) by (simp add: read_image_def)
  then show ?thesis using st(8) by (simp add: stored_image_def)
qed

section \<open>The image budget of a key\<close>

definition row_bytes :: "run_env \<Rightarrow> run \<Rightarrow> int" where
  "row_bytes en r = (case held_image en r of Some i \<Rightarrow> io_bytes i | None \<Rightarrow> 0)"

lemma held_bytes_rows: "held_bytes en rows = sum_list (map (\<lambda>(rid, r). row_bytes en r) rows)"
  by (induction rows) (auto simp: held_bytes_def held_images_def row_bytes_def split: option.splits)

lemma held_bytes_update:
  assumes "distinct (map fst m)" "map_of m k = Some v"
  shows "held_bytes en (AList.update k w m) = held_bytes en m - row_bytes en v + row_bytes en w"
  using assms unfolding held_bytes_rows by (induction m) (auto split: if_splits)

lemma evict_budget:
  "\<forall>a \<in> set as. 0 \<le> io_bytes (snd a) \<Longrightarrow> used - sum_list (map (\<lambda>a. io_bytes (snd a)) as) \<le> image_budget \<Longrightarrow>
     used - sum_list (map (\<lambda>a. io_bytes (snd a)) (evict_images now used as)) \<le> image_budget"
proof (induction now used as rule: evict_images.induct)
  case (2 now used a as)
  have "0 \<le> sum_list (map (\<lambda>a. io_bytes (snd a)) (evict_images now used as))"
    using "2.prems"(1) evict_subset [of now used as] by (intro sum_list_nonneg) auto
  then have skip: "used \<le> image_budget \<Longrightarrow> used - sum_list (map (\<lambda>a. io_bytes (snd a)) (evict_images now used as)) \<le> image_budget" by linarith
  show ?case
  proof (cases "used \<le> image_budget \<and> io_expires_at (snd a) > now")
    case True
    then show ?thesis using skip by simp
  next
    case False
    then show ?thesis using "2.IH"(2) "2.prems" by (auto simp: algebra_simps)
  qed
qed simp

lemma held_bytes_stamped: "list_all2 (stamped now) xs ys \<Longrightarrow> held_bytes en ys = held_bytes en xs"
  unfolding held_bytes_rows by (induction rule: list_all2_induct) (auto simp: stamped_def row_bytes_def)

lemma evict_rows_bytes:
  assumes "image_codec en ie" "distinct (map fst rows)" "distinct (map fst out)" "\<forall>(rid, i) \<in> set out. \<exists>r. map_of rows rid = Some r \<and> held_image en r = Some i"
  shows "held_bytes en (evict_rows ie out rows) = held_bytes en rows - sum_list (map (\<lambda>a. io_bytes (snd a)) out)"
  using assms(2-)
proof (induction out arbitrary: rows)
  case (Cons x out)
  obtain rid i where x: "x = (rid, i)" by (cases x)
  obtain r where r: "map_of rows rid = Some r" "held_image en r = Some i" using Cons.prems(3) x by auto
  let ?rows = "AList.update rid (gone_image ie i r) rows"
  have g: "row_bytes en (gone_image ie i r) = 0"
    using assms(1) by (auto simp: row_bytes_def held_image_def image_output_of_def gone_image_def image_codec_def)
  have b: "held_bytes en ?rows = held_bytes en rows - io_bytes i"
    using held_bytes_update [OF Cons.prems(1) r(1), of en "gone_image ie i r"] g r(2) by (simp add: row_bytes_def)
  have e: "evict_rows ie (x # out) rows = evict_rows ie out ?rows" by (simp add: evict_rows_def x row_def r)
  have "held_bytes en (evict_rows ie out ?rows) = held_bytes en ?rows - sum_list (map (\<lambda>a. io_bytes (snd a)) out)"
  proof (intro Cons.IH)
    show "distinct (map fst ?rows)" "distinct (map fst out)" using Cons.prems x by simp_all
    show "\<forall>(rid', j) \<in> set out. \<exists>r'. map_of ?rows rid' = Some r' \<and> held_image en r' = Some j"
    proof clarify
      fix rid' j assume m: "(rid', j) \<in> set out"
      then have "rid' \<noteq> rid" using Cons.prems(2) x by force
      then show "\<exists>r'. map_of ?rows rid' = Some r' \<and> held_image en r' = Some j" using Cons.prems(3) m by (auto simp: update_conv')
    qed
  qed
  then show ?case using e b x by simp
qed (simp add: evict_rows_def)

lemma evict_distinct: "distinct (map fst as) \<Longrightarrow> distinct (map fst (evict_images now used as))"
proof (induction now used as rule: evict_images.induct)
  case (2 now used a as)
  then show ?case using evict_subset [of now _ as] by auto
qed simp

lemma held_images_distinct: "distinct (map fst rows) \<Longrightarrow> distinct (map fst (held_images en rows))"
proof (induction rows)
  case (Cons x rows)
  have sub: "fst ` set (held_images en rows) \<subseteq> fst ` set rows" by (force simp: held_images_def split: option.splits)
  have eq: "held_images en (x # rows) = (case held_image en (snd x) of Some i \<Rightarrow> [(fst x, i)] | None \<Rightarrow> []) @ held_images en rows"
    by (cases x) (simp add: held_images_def split: option.split)
  have "fst x \<notin> fst ` set (held_images en rows)" "distinct (map fst (held_images en rows))" using Cons sub by auto
  then show ?case unfolding eq by (cases "held_image en (snd x)") simp_all
qed (simp add: held_images_def)

text \<open>Rows whose images have no negative size.\<close>

definition sized :: "run_env \<Rightarrow> (string \<times> run) list \<Rightarrow> bool" where
  "sized en rows \<longleftrightarrow> list_all (\<lambda>(rid, r). 0 \<le> row_bytes en r) rows"

lemma sized_stamped: "list_all2 (stamped now) xs ys \<Longrightarrow> sized en ys = sized en xs"
  by (induction rule: list_all2_induct) (auto simp: sized_def stamped_def row_bytes_def)

lemma gone_bytes: "image_codec en ie \<Longrightarrow> row_bytes en (gone_image ie i r) = 0"
  by (auto simp: row_bytes_def held_image_def image_output_of_def gone_image_def image_codec_def)

lemma sized_lapse: "image_codec en ie \<Longrightarrow> sized en rows \<Longrightarrow> sized en (lapse_images en ie now rows)"
  by (simp add: sized_def lapse_images_def list_all_iff gone_bytes case_prod_beta)

lemma sized_evict: "image_codec en ie \<Longrightarrow> sized en rows \<Longrightarrow> sized en (evict_rows ie out rows)"
proof (induction out arbitrary: rows)
  case (Cons x out)
  obtain rid i where x: "x = (rid, i)" by (cases x)
  have "sized en (AList.update rid (gone_image ie i (row no_run rid rows)) rows)"
    using Cons.prems by (auto simp: sized_def gone_bytes intro: list_all_update)
  then show ?case using Cons.IH Cons.prems(1) by (simp add: evict_rows_def x)
qed (simp add: evict_rows_def)

lemma sized_row: "sized en rows \<Longrightarrow> map_of rows rid = Some r \<Longrightarrow> 0 \<le> row_bytes en r"
  by (auto simp: sized_def list_all_iff dest!: map_of_SomeD)

lemma mset_bytes: "mset xs = mset ys \<Longrightarrow> sum_list (map (\<lambda>a. io_bytes (snd a)) xs) = sum_list (map (\<lambda>a. io_bytes (snd a)) ys)"
  using sum_mset_sum_list [of "map (\<lambda>a. io_bytes (snd a)) xs"] sum_mset_sum_list [of "map (\<lambda>a. io_bytes (snd a)) ys"] by simp

lemma held_bytes_images: "held_bytes en rows = sum_list (map (\<lambda>a. io_bytes (snd a)) (held_images en rows))"
  by (simp add: held_bytes_def case_prod_unfold)


section \<open>A sample disk\<close>

text \<open>A codec of outputs: lengths and amounts in unary.\<close>

definition unary :: "nat \<Rightarrow> string" where "unary n = replicate n CHR ''a'' @ ''b''"

fun read_unary :: "string \<Rightarrow> nat \<times> string" where
  "read_unary [] = (0, [])"
| "read_unary (c # cs) = (if c = CHR ''a'' then (case read_unary cs of (n, r) \<Rightarrow> (n + 1, r)) else (0, cs))"

lemma read_unary [simp]: "read_unary (unary n @ s) = (n, s)"
  by (induction n) (simp_all add: unary_def)

definition text_code :: "string \<Rightarrow> string" where "text_code s = unary (length s) @ s"
definition read_text :: "string \<Rightarrow> string \<times> string" where "read_text s = (case read_unary s of (n, r) \<Rightarrow> (take n r, drop n r))"
definition int_code :: "int \<Rightarrow> string" where "int_code k = (if k < 0 then ''a'' else ''b'') @ unary (nat \<bar>k\<bar>)"
definition read_int :: "string \<Rightarrow> int \<times> string" where
  "read_int s = (case read_unary (tl s) of (n, r) \<Rightarrow> (if take 1 s = ''a'' then - int n else int n, r))"

lemma code_reads [simp]: "read_text (text_code s @ r) = (s, r)" "read_int (int_code k @ r) = (k, r)"
  by (simp_all add: read_text_def text_code_def read_int_def int_code_def)

definition output_code :: "image_output \<Rightarrow> string" where
  "output_code i = (if io_gone i then ''a'' else ''b'') @ text_code (io_url i) @ text_code (io_mime i) @ int_code (io_width i) @ int_code (io_height i)
     @ int_code (io_bytes i) @ int_code (io_expires_at i)"

definition read_output :: "string \<Rightarrow> image_output option" where
  "read_output s =
     (case s of
        [] \<Rightarrow> None
      | g # s \<Rightarrow>
          (case read_text s of (url, s) \<Rightarrow> case read_text s of (mime, s) \<Rightarrow> case read_int s of (wd, s) \<Rightarrow> case read_int s of (ht, s) \<Rightarrow>
           case read_int s of (bytes, s) \<Rightarrow> case read_int (s @ []) of (expires, s) \<Rightarrow>
             Some \<lparr>io_url = url, io_mime = mime, io_width = wd, io_height = ht, io_bytes = bytes, io_expires_at = expires, io_gone = (g = CHR ''a'')\<rparr>))"

lemma output_code_reads: "read_output (output_code i) = Some i"
  using code_reads(2) [of "io_expires_at i" "[]"] by (simp add: read_output_def output_code_def)

definition imaging_env :: run_env where "imaging_env = sample_run_env\<lparr>rc_image := read_output\<rparr>"

definition sample_image_env :: image_env where
  "sample_image_env = \<lparr>ie_fails = (\<lambda>_ _ _. False), ie_folder = (\<lambda>_. FolderPlain 1), ie_list_error = (\<lambda>_. None), ie_private = (\<lambda>_. None),
     ie_lstat = (\<lambda>_ _. None), ie_write = (\<lambda>_. WriteDone), ie_text = output_code, ie_read = (\<lambda>_ _. None)\<rparr>"

lemma sample_codec: "image_codec imaging_env sample_image_env"
  by (simp add: image_codec_def imaging_env_def sample_image_env_def output_code_reads) (simp add: read_output_def)

definition sample_image_run :: "string \<Rightarrow> run" where
  "sample_image_run out = sample_run\<lparr>rn_kind := ''image'', rn_state := Running, rn_output := out\<rparr>"

definition sample_image_snapshot :: "string \<Rightarrow> snapshot" where
  "sample_image_snapshot out = sample_snapshot\<lparr>sn_runs := [(''r_a'', sample_image_run out)]\<rparr>"

definition sample_image_world :: "string \<Rightarrow> (string \<times> image_entry) list \<Rightarrow> image_world" where
  "sample_image_world out files = \<lparr>iw_store = sample_store\<lparr>st_data := [(''k1'', sample_image_snapshot out)]\<rparr>, iw_files = (\<lambda>k. if k = ''k1'' then files else []),
     iw_stamp = (\<lambda>_. 0), iw_removes = 0, iw_writes = 0\<rparr>"

lemma sample_image_snapshot_ok: "snap_ok ''k1'' (sample_image_snapshot out)"
  using sample_snapshot_ok
  by (simp add: sample_image_snapshot_def sample_image_run_def snap_ok_parts log_ok_def tables_ok_def row_ok_def cleanup_ok_def maps_ok_def
      sample_snapshot_def new_snapshot_def run_limits sample_run_def new_run_def valid_state_def)

lemma sample_image_load:
  "load imaging_env 9 ''k1'' (iw_store (sample_image_world out files)) =
     (Inr (sample_image_snapshot out), (sample_store\<lparr>st_data := [(''k1'', sample_image_snapshot out)]\<rparr>)\<lparr>st_accessed := (st_accessed sample_store)(''k1'' := 9)\<rparr>)"
  by (simp add: sample_image_world_def load_def)

theorem sweep_keeps_named_witness:
  "map_of (iw_files (snd (sweep_images imaging_env sample_image_env 9 ''k1''
       (sample_image_world (output_code (stored_image 3 ''r_a'' ''xx'' ''image/png'' 1 1)) [(''r_a'', RegularFile ''xx'')]))) ''k1'') ''r_a''
     = Some (RegularFile ''xx'')"
proof -
  let ?i = "stored_image 3 ''r_a'' ''xx'' ''image/png'' 1 1"
  let ?w = "sample_image_world (output_code ?i) [(''r_a'', RegularFile ''xx'')]"
  have d: "map_of (st_data (iw_store ?w)) ''k1'' = Some (sample_image_snapshot (output_code ?i))" by (simp add: sample_image_world_def)
  have r: "map_of (sn_runs (sample_image_snapshot (output_code ?i))) ''r_a'' = Some (sample_image_run (output_code ?i))"
    by (simp add: sample_image_snapshot_def)
  have h: "held_image imaging_env (sample_image_run (output_code ?i)) = Some ?i"
    by (simp add: held_image_def image_output_of_def sample_image_run_def imaging_env_def output_code_reads) (simp add: stored_image_def)
  have e: "io_expires_at ?i > 9" by (simp add: stored_image_def retention_def minute_def second_def day_length_def)
  have c: "(''k1'', ''r_a'') \<notin> set (st_image_cleanup (iw_store ?w))" by (simp add: sample_image_world_def sample_store_def start_store_def new_store_def)
  obtain x w' where s: "sweep_images imaging_env sample_image_env 9 ''k1'' ?w = (x, w')" by (metis surj_pair)
  from sweep_keeps_named [OF d sample_image_snapshot_ok r h e c s] s show ?thesis by (simp add: sample_image_world_def)
qed

lemma sample_image_commit:
  "\<exists>u t. commit imaging_env 9 ''k1'' (sample_image_snapshot []\<lparr>sn_runs := AList.update ''r_a''
      (sample_image_run []\<lparr>rn_output := output_code (stored_image 9 ''r_a'' ''xx'' ''image/png'' 1 1)\<rparr>) (sn_runs (sample_image_snapshot []))\<rparr>)
      (Some (state_event ''r_a'' (rn_state (sample_image_run [])) 9))
      ((sample_store\<lparr>st_data := [(''k1'', sample_image_snapshot [])]\<rparr>)\<lparr>st_accessed := (st_accessed sample_store)(''k1'' := 9)\<rparr>) = (None, u, t)"
proof -
  let ?i = "stored_image 9 ''r_a'' ''xx'' ''image/png'' 1 1"
  have en: "rc_encode imaging_env v = Some ''{}''" "rc_write imaging_env n = WriteDone" for v n by (simp_all add: imaging_env_def)
  have "\<exists>raw rows extra. stamp_images imaging_env 9 rows0 e rows1 = (rows, extra)" for rows0 e rows1 by (metis surj_pair)
  show ?thesis
    by (simp add: commit_def commit_for_def Let_def staged_def split_def en data_of_def row_def retained_budget_def reserved_bytes_def store_budget_def
        run_limits terminal_bound_def write_snapshot_def sample_image_snapshot_def del: stamp_images.simps)
qed

lemma sample_put:
  "\<exists>out w'. put_image imaging_env sample_image_env 9 ''k1'' ''r_a'' ''xx'' ''image/png'' 1 1 (sample_image_world [] []) = (Inr out, w')"
proof -
  let ?w = "sample_image_world [] []"
  define s where "s = (sample_store\<lparr>st_data := [(''k1'', sample_image_snapshot [])]\<rparr>)\<lparr>st_accessed := (st_accessed sample_store)(''k1'' := 9)\<rparr>"
  note l = sample_image_load [of "[]" "[]", folded s_def]
  have n: "held_image imaging_env (sample_image_run []) = None"
    by (simp add: held_image_def image_output_of_def imaging_env_def read_output_def sample_image_run_def)
  have sc: "st_image_cleanup s = []" "st_image_orphans s = []" "map_of (st_data s) ''k1'' = Some (sample_image_snapshot [])"
    by (simp_all add: s_def) (simp_all add: sample_store_def start_store_def new_store_def)
  have sw: "\<exists>w1. sweep_images imaging_env sample_image_env 9 ''k1'' (?w\<lparr>iw_store := s\<rparr>) = (None, w1) \<and> iw_store w1 = s \<and> iw_files w1 ''k1'' = []"
    using sc n
    by (simp add: sweep_images_def drain_cleanup_def sample_image_env_def Let_def forget_paths_def sample_image_snapshot_def image_lapsed_def
        sample_image_world_def)
  then obtain w1 where w1: "sweep_images imaging_env sample_image_env 9 ''k1'' (?w\<lparr>iw_store := s\<rparr>) = (None, w1)" "iw_store w1 = s" "iw_files w1 ''k1'' = []"
    by blast
  have d: "data_of s ''k1'' = sample_image_snapshot []" using sc by (simp add: data_of_def row_def)
  have st: "rn_kind (sample_image_run []) = ''image''" "\<not> terminal (rn_state (sample_image_run []))" "map_of (sn_runs (sample_image_snapshot [])) ''r_a'' = Some (sample_image_run [])"
    by (simp_all add: sample_image_run_def terminal_def sample_image_snapshot_def)
  have h: "held_images imaging_env (sn_runs (sample_image_snapshot [])) = []" using n by (simp add: held_images_def sample_image_snapshot_def)
  obtain u t where c: "commit imaging_env 9 ''k1'' (sample_image_snapshot []\<lparr>sn_runs := AList.update ''r_a''
      (sample_image_run []\<lparr>rn_output := output_code (stored_image 9 ''r_a'' ''xx'' ''image/png'' 1 1)\<rparr>) (sn_runs (sample_image_snapshot []))\<rparr>)
      (Some (state_event ''r_a'' (rn_state (sample_image_run [])) 9)) s = (None, u, t)"
    using sample_image_commit unfolding s_def by blast
  have ie: "ie_private sample_image_env k = None" "ie_lstat sample_image_env k n = None" "ie_write sample_image_env m = WriteDone"
    "ie_text sample_image_env = output_code" for k n m by (simp_all add: sample_image_env_def)
  show ?thesis
    by (simp add: put_image_def l w1 d st max_artifact_def Let_def store_image_def h evict_rows_def commit_world_def put_file_def c ie has_row_def)
qed

lemma sample_loaded:
  "load imaging_env 9 ''k1'' (iw_store (sample_image_world [] [])) = (Inr (sample_image_snapshot []),
     (sample_store\<lparr>st_data := [(''k1'', sample_image_snapshot [])]\<rparr>)\<lparr>st_accessed := (st_accessed sample_store)(''k1'' := 9)\<rparr>)"
  by (rule sample_image_load)

theorem put_then_read_witness:
  "\<exists>out w'. put_image imaging_env sample_image_env 9 ''k1'' ''r_a'' ''xx'' ''image/png'' 1 1 (sample_image_world [] []) = (Inr out, w')
     \<and> (\<exists>i. fst (read_image imaging_env sample_image_env 11 ''k1'' ''r_a'' w') = Inr (''xx'', i) \<and> io_mime i = ''image/png'')"
proof -
  obtain out w' where p: "put_image imaging_env sample_image_env 9 ''k1'' ''r_a'' ''xx'' ''image/png'' 1 1 (sample_image_world [] []) = (Inr out, w')"
    using sample_put by blast
  have r: "map_of (sn_runs (sample_image_snapshot [])) ''r_a'' = Some (sample_image_run [])" "rn_output (sample_image_run []) = []"
    by (simp_all add: sample_image_snapshot_def sample_image_run_def)
  have t: "(11 :: int) < 9 + retention" by (simp add: retention_def day_length_def minute_def second_def)
  have disk: "ie_folder sample_image_env ''k1'' = FolderPlain 1" "ie_lstat sample_image_env ''k1'' ''r_a'' = None"
    "ie_read sample_image_env ''k1'' ''r_a'' = None" by (simp_all add: sample_image_env_def)
  from put_then_read [OF sample_codec sample_loaded sample_image_snapshot_ok _ r p t disk] p show ?thesis by auto
qed


end
