(* ===== verification/Run_Stored.thy ===== *)
theory Run_Stored
  imports Run_Images
begin

text \<open>
  What a key has stored, and clearing it (internal/run/stored.go): the operator's view of one key, and the removal of its ended runs
  under the expectation that the view is still true. The sizes of a run and of its retained payload in JSON are parameters.
\<close>

section \<open>The view\<close>

record stored_run =
  so_summary :: run_summary
  so_expires :: "gotime option"
  so_bytes :: int
  so_image :: "(int \<times> gotime) option"

record stored_kind =
  sk_stored :: nat
  sk_live :: nat

record stored_data =
  sd_cursor :: string
  sd_reserved :: int
  sd_orphans :: nat
  sd_retry :: nat
  sd_key :: string
  sd_kinds :: "(string \<times> stored_kind) list"
  sd_total :: nat
  sd_terminal :: nat
  sd_bytes :: int
  sd_budget :: int
  sd_images :: nat
  sd_image_bytes :: int
  sd_image_budget :: int
  sd_clear_images :: nat
  sd_first :: "gotime option"
  sd_last :: "gotime option"
  sd_pending :: nat
  sd_runs :: "stored_run list"
  sd_truncated :: bool

record size_env =
  sz_run :: "run \<Rightarrow> int"
  sz_held :: "retained \<Rightarrow> int"

definition note_expiry :: "gotime \<Rightarrow> stored_data \<Rightarrow> stored_data" where
  "note_expiry t d =
     d\<lparr>sd_first := Some (case sd_first d of None \<Rightarrow> t | Some x \<Rightarrow> if t < x then t else x),
       sd_last := Some (case sd_last d of None \<Rightarrow> t | Some x \<Rightarrow> if t > x then t else x)\<rparr>"

definition bump_kind :: "run \<Rightarrow> (string \<times> stored_kind) list \<Rightarrow> (string \<times> stored_kind) list" where
  "bump_kind r ks =
     (let k = row \<lparr>sk_stored = 0, sk_live = 0\<rparr> (rn_kind r) ks in
      AList.update (rn_kind r) (k\<lparr>sk_stored := sk_stored k + 1, sk_live := (if terminal (rn_state r) then sk_live k else sk_live k + 1)\<rparr>) ks)"

definition count_image :: "run_env \<Rightarrow> gotime \<Rightarrow> run \<Rightarrow> stored_run \<times> stored_data \<Rightarrow> stored_run \<times> stored_data" where
  "count_image en now r = (\<lambda>(x, d).
     case held_image en r of
       None \<Rightarrow> (x, d)
     | Some i \<Rightarrow>
         (let d = (if terminal (rn_state r) then d\<lparr>sd_clear_images := sd_clear_images d + 1\<rparr> else d) in
          if io_expires_at i > now then
            (x\<lparr>so_image := Some (io_bytes i, io_expires_at i)\<rparr>,
             (let d = d\<lparr>sd_images := sd_images d + 1, sd_image_bytes := sd_image_bytes d + io_bytes i\<rparr>
              in if terminal (rn_state r) then note_expiry (io_expires_at i) d else d))
          else (x, d)))"

definition add_row :: "run_env \<Rightarrow> size_env \<Rightarrow> gotime \<Rightarrow> snapshot \<Rightarrow> string \<times> run \<Rightarrow> stored_data \<Rightarrow> stored_data" where
  "add_row en sz now v = (\<lambda>(rid, r) d.
     let x = \<lparr>so_summary = summary r, so_expires = (if terminal (rn_state r) then Some (rn_expires r) else None),
              so_bytes = sz_run sz r + (case map_of (sn_retained v) rid of Some h \<Rightarrow> sz_held sz h | None \<Rightarrow> 0), so_image = None\<rparr>;
         d = d\<lparr>sd_kinds := bump_kind r (sd_kinds d), sd_terminal := (if terminal (rn_state r) then sd_terminal d + 1 else sd_terminal d)\<rparr>;
         d = (if terminal (rn_state r) then note_expiry (rn_expires r) d else d)
     in case count_image en now r (x, d) of (x, d) \<Rightarrow> d\<lparr>sd_runs := sd_runs d @ [x]\<rparr>)"

definition stored_rank :: "stored_run \<Rightarrow> int \<times> gotime \<times> string" where
  "stored_rank x = (- so_bytes x, - sm_created (so_summary x), sm_id (so_summary x))"

text \<open>A proven path may be retried when its run is gone or has ended.\<close>

definition retry_path :: "snapshot \<Rightarrow> string \<Rightarrow> bool" where
  "retry_path v rid \<longleftrightarrow> (case map_of (sn_runs v) rid of None \<Rightarrow> True | Some r \<Rightarrow> terminal (rn_state r))"

definition blank_view :: "string \<Rightarrow> snapshot \<Rightarrow> run_store \<Rightarrow> stored_data" where
  "blank_view key v s = \<lparr>sd_cursor = cursor_text (sn_epoch v) (sn_seq v), sd_reserved = reserved_bytes s key, sd_orphans = 0, sd_retry = 0, sd_key = key,
     sd_kinds = [], sd_total = length (sn_runs v), sd_terminal = 0, sd_bytes = sn_encoded_bytes v, sd_budget = store_budget s,
     sd_images = 0, sd_image_bytes = 0, sd_image_budget = image_budget, sd_clear_images = 0, sd_first = None, sd_last = None,
     sd_pending = 0, sd_runs = [], sd_truncated = False\<rparr>"

definition stored_view :: "run_env \<Rightarrow> size_env \<Rightarrow> gotime \<Rightarrow> string \<Rightarrow> snapshot \<Rightarrow> run_store \<Rightarrow> stored_data" where
  "stored_view en sz now key v s =
     (let d = blank_view key v s;
          d = fold (add_row en sz now v) (sn_runs v) d;
          proven = filter (\<lambda>p. fst p = key) (st_image_cleanup s);
          sorted_runs = sort_key stored_rank (sd_runs d)
      in d\<lparr>sd_pending := length proven, sd_retry := length (filter (\<lambda>p. retry_path v (snd p)) proven),
           sd_orphans := length (filter (\<lambda>p. fst p = key \<and> p \<notin> set (st_image_cleanup s)) (st_image_orphans s)),
           sd_truncated := length sorted_runs > 20, sd_runs := take 20 sorted_runs\<rparr>)"

definition stored_locked :: "run_env \<Rightarrow> size_env \<Rightarrow> gotime \<Rightarrow> string \<Rightarrow> run_store \<Rightarrow> (run_error + stored_data) \<times> run_store" where
  "stored_locked en sz now key s =
     (case load en now key s of (Inl e, s) \<Rightarrow> (Inl e, s) | (Inr v, s) \<Rightarrow> (Inr (stored_view en sz now key v s), s))"

text \<open>Looking does not count as an access.\<close>

definition stored :: "run_env \<Rightarrow> size_env \<Rightarrow> gotime \<Rightarrow> string \<Rightarrow> run_store \<Rightarrow> (run_error + stored_data) \<times> run_store" where
  "stored en sz now key s =
     (case stored_locked en sz now key s of (res, t) \<Rightarrow> (res, keep_access key (st_accessed s key) t))"

section \<open>Clearing\<close>

record clear_expectation =
  ce_cursor :: string
  ce_terminal :: nat
  ce_images :: nat
  ce_cleanup :: nat

record clear_result =
  cr_cleared :: nat
  cr_retried :: nat
  cr_skipped :: nat
  cr_images :: nat
  cr_warning :: string

definition no_clear :: clear_result where "no_clear = \<lparr>cr_cleared = 0, cr_retried = 0, cr_skipped = 0, cr_images = 0, cr_warning = []\<rparr>"

definition expects :: "clear_expectation \<Rightarrow> stored_data \<Rightarrow> bool" where
  "expects ex d \<longleftrightarrow> ce_cursor ex = sd_cursor d \<and> ce_terminal ex = sd_terminal d \<and> ce_images ex = sd_clear_images d \<and> ce_cleanup ex = sd_retry d"

text \<open>An ended run is cleared unless a worker still has it.\<close>

definition clears :: "manager \<Rightarrow> string \<times> run \<Rightarrow> bool" where
  "clears m = (\<lambda>(rid, r). terminal (rn_state r) \<and> \<not> has_worker rid m)"

definition clear_retries :: "manager \<Rightarrow> string \<Rightarrow> snapshot \<Rightarrow> run_store \<Rightarrow> string list" where
  "clear_retries m key v s =
     map snd (filter (\<lambda>(k, rid). k = key \<and> (case map_of (sn_runs v) rid of None \<Rightarrow> True | Some r \<Rightarrow> clears m (rid, r))) (st_image_cleanup s))"

definition clear_counts :: "run_env \<Rightarrow> manager \<Rightarrow> snapshot \<Rightarrow> string list \<Rightarrow> clear_result" where
  "clear_counts en m v retries =
     \<lparr>cr_cleared = length (filter (clears m) (sn_runs v)), cr_retried = length retries,
      cr_skipped = length (filter (\<lambda>(rid, r). terminal (rn_state r) \<and> has_worker rid m) (sn_runs v)),
      cr_images = length (filter (\<lambda>x. clears m x \<and> held_image en (snd x) \<noteq> None) (sn_runs v)), cr_warning = []\<rparr>"

definition clear_intents :: "manager \<Rightarrow> snapshot \<Rightarrow> string list \<Rightarrow> string list" where
  "clear_intents m v retries =
     sort (remdups (sn_cleanup v @ map fst (filter (clears m) (sn_runs v)) @ filter safe_id retries))"

text \<open>The reset that subscribers get: the rows that are left.\<close>

definition cleared_event :: "gotime \<Rightarrow> snapshot \<Rightarrow> run_event" where
  "cleared_event now v = reset_event (sn_epoch v @ '':0'') now (map (\<lambda>(rid, r). summary r) (sn_runs v))"

definition clear_warning :: "run_error \<Rightarrow> (run_error \<Rightarrow> string) \<Rightarrow> string" where
  "clear_warning e etext = ''Stored data cleared; cleanup step failed: '' @ etext e"

text \<open>
  From the commit on, on the disk: \<open>None\<close> means that the cleared snapshot is stored and the drain has run, \<open>Some\<close> an error before that
  or the warning.
\<close>

definition clear_tail ::
    "run_env \<Rightarrow> image_env \<Rightarrow> gotime \<Rightarrow> (run_error \<Rightarrow> string) \<Rightarrow> string \<Rightarrow> bool \<Rightarrow> snapshot \<Rightarrow> string list \<Rightarrow> clear_result \<Rightarrow> image_world
     \<Rightarrow> (run_error option \<times> clear_result) \<times> image_world" where
  "clear_tail en ie now etext key worked nxt direct res w =
     (let w = unlink_all ie key direct w in
      if sn_runs nxt = [] then
        (case sweep_images en ie now key w of
           (None, w) \<Rightarrow> ((None, res), w)
         | (Some e, w) \<Rightarrow> (if worked then ((None, res\<lparr>cr_warning := clear_warning e etext\<rparr>), w) else ((Some e, res), w)))
      else ((None, res), w))"

definition clear_store ::
    "run_env \<Rightarrow> image_env \<Rightarrow> gotime \<Rightarrow> (run_error \<Rightarrow> string) \<Rightarrow> string \<Rightarrow> manager \<Rightarrow> snapshot \<Rightarrow> image_world
     \<Rightarrow> (run_error option \<times> clear_result) \<times> image_world" where
  "clear_store en ie now etext key m v w =
     (let retries = clear_retries m key v (iw_store w);
          res = clear_counts en m v retries;
          direct = filter (\<lambda>rid. \<not> safe_id rid) retries;
          intents = clear_intents m v retries;
          nxt = v\<lparr>sn_runs := filter (\<lambda>x. \<not> clears m x) (sn_runs v), sn_cleanup := intents\<rparr>;
          worked = (cr_cleared res > 0 \<or> intents \<noteq> [])
      in if \<not> worked then clear_tail en ie now etext key False nxt direct res w
         else
           (case (if cr_cleared res > 0
                  then (case fresh_id en ''e_'' (iw_store w) of
                          (epoch, s) \<Rightarrow> (nxt\<lparr>sn_epoch := epoch, sn_seq := 0, sn_events := []\<rparr>, w\<lparr>iw_store := s\<rparr>))
                  else (nxt, w)) of
              (nxt, w) \<Rightarrow>
                (case commit_world en now key nxt None w of
                   (Some e, w) \<Rightarrow> ((Some e, res), w)
                 | (None, w) \<Rightarrow>
                     (let s = restore_cleanup key nxt (iw_store w);
                          s = (if cr_cleared res > 0 then publish key (cleared_event now nxt) s else s)
                      in case drain_cleanup en ie now key (w\<lparr>iw_store := s\<rparr>) of
                           (Some e, w) \<Rightarrow> ((None, res\<lparr>cr_warning := clear_warning e etext\<rparr>), w)
                         | (None, w) \<Rightarrow> clear_tail en ie now etext key True nxt direct res w))))"

definition clear_terminal ::
    "run_env \<Rightarrow> image_env \<Rightarrow> size_env \<Rightarrow> gotime \<Rightarrow> (run_error \<Rightarrow> string) \<Rightarrow> string \<Rightarrow> clear_expectation \<Rightarrow> manager \<times> image_world
     \<Rightarrow> (run_error option \<times> clear_result) \<times> manager \<times> image_world" where
  "clear_terminal en ie sz now etext key ex = (\<lambda>(m, w).
     case stored_locked en sz now key (mg_store m) of
       (Inl e, s) \<Rightarrow> ((Some e, no_clear), m\<lparr>mg_store := s\<rparr>, w)
     | (Inr current, s) \<Rightarrow>
         if \<not> expects ex current then ((Some ErrConflict, no_clear), m\<lparr>mg_store := s\<rparr>, w)
         else (case clear_store en ie now etext key m (data_of s key) (w\<lparr>iw_store := s\<rparr>) of
                 (res, w) \<Rightarrow> (res, m\<lparr>mg_store := iw_store w\<rparr>, w)))"

section \<open>The view adds up\<close>

definition kind_total :: "(stored_kind \<Rightarrow> nat) \<Rightarrow> (string \<times> stored_kind) list \<Rightarrow> nat" where
  "kind_total f ks = sum_list (map (\<lambda>(k, x). f x) ks)"

lemma kind_update:
  assumes "distinct (map fst ks)"
  shows "kind_total f (AList.update k x ks) + (case map_of ks k of None \<Rightarrow> 0 | Some y \<Rightarrow> f y) = kind_total f ks + f x"
  using assms by (induction ks) (auto simp: kind_total_def image_iff split: option.split)

definition view_ok :: "(string \<times> run) list \<Rightarrow> stored_data \<Rightarrow> bool" where
  "view_ok rows d \<longleftrightarrow> distinct (map fst (sd_kinds d)) \<and> kind_total sk_stored (sd_kinds d) = length rows
     \<and> kind_total sk_live (sd_kinds d) + sd_terminal d = length rows
     \<and> sd_terminal d = length (filter (\<lambda>(rid, r). terminal (rn_state r)) rows) \<and> length (sd_runs d) = length rows
     \<and> map so_summary (sd_runs d) = map (summary \<circ> snd) rows"

lemma bump_kind_total:
  assumes "distinct (map fst ks)"
  shows "distinct (map fst (bump_kind r ks))" "kind_total sk_stored (bump_kind r ks) = kind_total sk_stored ks + 1"
    "kind_total sk_live (bump_kind r ks) = kind_total sk_live ks + (if terminal (rn_state r) then 0 else 1)"
proof -
  let ?k = "row \<lparr>sk_stored = 0, sk_live = 0\<rparr> (rn_kind r) ks"
  let ?n = "?k\<lparr>sk_stored := sk_stored ?k + 1, sk_live := (if terminal (rn_state r) then sk_live ?k else sk_live ?k + 1)\<rparr>"
  have b: "bump_kind r ks = AList.update (rn_kind r) ?n ks" by (simp add: bump_kind_def Let_def)
  show "distinct (map fst (bump_kind r ks))" using assms by (simp add: b)
  show "kind_total sk_stored (bump_kind r ks) = kind_total sk_stored ks + 1"
    "kind_total sk_live (bump_kind r ks) = kind_total sk_live ks + (if terminal (rn_state r) then 0 else 1)"
    using kind_update [OF assms, of sk_stored "rn_kind r" ?n] kind_update [OF assms, of sk_live "rn_kind r" ?n]
    unfolding b by (auto simp: row_def split: option.splits)
qed

lemma note_expiry_sel [simp]:
  "sd_kinds (note_expiry t d) = sd_kinds d" "sd_terminal (note_expiry t d) = sd_terminal d" "sd_runs (note_expiry t d) = sd_runs d"
  by (simp_all add: note_expiry_def)

lemma count_image_sel [simp]:
  "sd_kinds (snd (count_image en now r (x, d))) = sd_kinds d" "sd_terminal (snd (count_image en now r (x, d))) = sd_terminal d"
  "sd_runs (snd (count_image en now r (x, d))) = sd_runs d" "so_summary (fst (count_image en now r (x, d))) = so_summary x"
  by (auto simp: count_image_def Let_def split: option.split)

lemma add_row_view: "view_ok rows d \<Longrightarrow> view_ok (rows @ [x]) (add_row en sz now v x d)"
  using bump_kind_total [of "sd_kinds d" "snd x"]
  by (cases x) (auto simp: view_ok_def add_row_def Let_def split_def)

lemma add_rows_view: "view_ok done_rows d \<Longrightarrow> view_ok (done_rows @ rows) (fold (add_row en sz now v) rows d)"
proof (induction rows arbitrary: done_rows d)
  case (Cons x rows)
  from Cons.IH [OF add_row_view [OF Cons.prems, where x = x and en = en and sz = sz and now = now and v = v]] show ?case by simp
qed simp

lemma rows_view: "view_ok (sn_runs v) (fold (add_row en sz now v) (sn_runs v) (blank_view key v s))"
  using add_rows_view [where done_rows = "[]" and d = "blank_view key v s" and en = en and sz = sz and now = now and v = v and rows = "sn_runs v"] by (simp add: view_ok_def kind_total_def blank_view_def)

lemma stored_view_terminal: "sd_terminal (stored_view en sz now key v s) = length (filter (\<lambda>(rid, r). terminal (rn_state r)) (sn_runs v))"
  using rows_view [where en = en and sz = sz and now = now and key = key and v = v and s = s] by (simp add: stored_view_def Let_def view_ok_def)

text \<open>
  The operator's view of a key is true and adds up: the kinds together count every stored run once and every live run once, the
  ended ones are the rest, and the rows shown are the twenty largest, largest first, each the summary of a stored run.
\<close>

theorem stored_view_adds_up:
  "let d = stored_view en sz now key v s in
     kind_total sk_stored (sd_kinds d) = length (sn_runs v) \<and> kind_total sk_live (sd_kinds d) + sd_terminal d = length (sn_runs v)
     \<and> sd_terminal d = length (filter (\<lambda>(rid, r). terminal (rn_state r)) (sn_runs v))
     \<and> length (sd_runs d) = min 20 (length (sn_runs v)) \<and> sd_truncated d = (length (sn_runs v) > 20)
     \<and> sorted_wrt (\<lambda>x y. so_bytes x \<ge> so_bytes y) (sd_runs d) \<and> so_summary ` set (sd_runs d) \<subseteq> (summary \<circ> snd) ` set (sn_runs v)"
proof -
  define d where "d = stored_view en sz now key v s"
  define f where "f = fold (add_row en sz now v) (sn_runs v) (blank_view key v s)"
  note ok = rows_view [where en = en and sz = sz and now = now and key = key and v = v and s = s, folded f_def]
  have d: "sd_kinds d = sd_kinds f" "sd_terminal d = sd_terminal f" "sd_runs d = take 20 (sort_key stored_rank (sd_runs f))"
    "sd_truncated d = (length (sd_runs f) > 20)"
    unfolding d_def stored_view_def Let_def f_def [symmetric] by simp_all
  have "sorted_wrt (\<lambda>x y. stored_rank x \<le> stored_rank y) (sort_key stored_rank (sd_runs f))"
    using sorted_sort_key [of stored_rank "sd_runs f"] by (simp add: sorted_map)
  then have "sorted_wrt (\<lambda>x y. stored_rank x \<le> stored_rank y) (sd_runs d)" unfolding d by (rule sorted_wrt_take)
  then have srt: "sorted_wrt (\<lambda>x y. so_bytes x \<ge> so_bytes y) (sd_runs d)"
    by (rule sorted_wrt_mono_rel [rotated]) (auto simp: stored_rank_def less_eq_prod_def)
  have "set (sd_runs d) \<subseteq> set (sd_runs f)" using set_take_subset [of 20 "sort_key stored_rank (sd_runs f)"] by (simp add: d)
  then have "so_summary ` set (sd_runs d) \<subseteq> set (map so_summary (sd_runs f))" by auto
  then have "so_summary ` set (sd_runs d) \<subseteq> (summary \<circ> snd) ` set (sn_runs v)" using ok unfolding view_ok_def by (metis list.set_map)
  then show ?thesis using ok srt unfolding d_def [symmetric] Let_def by (auto simp: d view_ok_def)
qed

section \<open>Clearing takes the ended runs and nothing else\<close>

lemma clears_split:
  "length (filter (clears m) rows) + length (filter (\<lambda>(rid, r). terminal (rn_state r) \<and> has_worker rid m) rows)
     = length (filter (\<lambda>(rid, r). terminal (rn_state r)) rows)"
  by (induction rows) (auto simp: clears_def)

lemma commit_error_data: "commit en now key v event s = (Some e, u, t) \<Longrightarrow> st_data t = st_data s"
proof -
  have "write_snapshot en key d raw evs i c s = (Some e, u, t) \<Longrightarrow> st_data t = st_data s" for d raw evs i c
    by (auto simp: write_snapshot_def Let_def split: disk_write.splits if_splits)
  then show "commit en now key v event s = (Some e, u, t) \<Longrightarrow> st_data t = st_data s"
    by (auto simp: commit_def commit_for_def Let_def split: option.splits prod.splits if_splits)
qed

lemma drain_data:
  assumes d: "drain_cleanup en ie now key w = (e, w1)" and v: "map_of (st_data (iw_store w)) key = Some v"
    and n: "\<not> has_row [] (sn_runs v)"
  shows "\<exists>v1. map_of (st_data (iw_store w1)) key = Some v1 \<and> list_all2 (stamped now) (sn_runs v) (sn_runs v1)"
proof (cases e)
  case None
  then show ?thesis using drain_keeps(1) [OF d v n] by blast
next
  case (Some x)
  obtain kept w2 where dr: "drain_ids ie key (sn_cleanup v) w = (kept, w2)" by (metis surj_pair)
  have w2: "w2 = unlink_all ie key (sn_cleanup v) w" using drain_ids_world [of ie key "sn_cleanup v" w] dr by simp
  have "commit_world en now key (v\<lparr>sn_cleanup := kept\<rparr>) None w2 = (Some x, w1)"
    using d v dr Some by (auto simp: drain_cleanup_def split: if_splits)
  then have "st_data (iw_store w1) = st_data (iw_store w)" using commit_error_data by (auto simp: commit_world_def w2 split: prod.splits)
  moreover have "list_all2 (stamped now) (sn_runs v) (sn_runs v)" by (rule list_all2_refl) (auto simp: stamped_def)
  ultimately show ?thesis using v by auto
qed

lemma sweep_without_runs:
  assumes v: "map_of (st_data (iw_store w)) key = Some v" "sn_runs v = []" and sw: "sweep_images en ie now key w = (e, w')"
  shows "\<exists>v'. map_of (st_data (iw_store w')) key = Some v' \<and> sn_runs v' = []"
proof -
  obtain e1 w1 where d: "drain_cleanup en ie now key w = (e1, w1)" by (metis surj_pair)
  obtain v1 where v1: "map_of (st_data (iw_store w1)) key = Some v1" "sn_runs v1 = []"
    using drain_data [OF d v(1)] v(2) by (auto simp: has_row_def)
  then show ?thesis using sw d
    by (auto simp: sweep_images_def Let_def split: option.splits image_folder.splits)
qed

text \<open>What is left of the rows of a key.\<close>

definition rows_left :: "gotime \<Rightarrow> manager \<Rightarrow> string \<Rightarrow> (string \<times> run) list \<Rightarrow> run_store \<Rightarrow> bool" where
  "rows_left now m key rows s \<longleftrightarrow> (\<exists>v'. map_of (st_data s) key = Some v' \<and> list_all2 (stamped now) (filter (\<lambda>x. \<not> clears m x) rows) (sn_runs v'))"

lemma stamped_trans: "list_all2 (stamped now) xs ys \<Longrightarrow> list_all2 (stamped now) ys zs \<Longrightarrow> list_all2 (stamped now) xs zs"
  by (rule list_all2_trans [of "stamped now" "stamped now" "stamped now" xs ys zs]) (auto simp: stamped_def)

lemma clear_tail_rows:
  assumes "rows_left now m key rows (iw_store w)" "sn_runs nxt = filter (\<lambda>x. \<not> clears m x) rows"
    and t: "clear_tail en ie now etext key worked nxt direct res w = ((err, res'), w')"
  shows "rows_left now m key rows (iw_store w') \<and> cr_cleared res' = cr_cleared res \<and> cr_skipped res' = cr_skipped res"
proof (cases "sn_runs nxt = []")
  case False
  then show ?thesis using assms by (auto simp: clear_tail_def rows_left_def)
next
  case True
  obtain e w2 where sw: "sweep_images en ie now key (unlink_all ie key direct w) = (e, w2)" by (metis surj_pair)
  obtain v where v: "map_of (st_data (iw_store (unlink_all ie key direct w))) key = Some v" "sn_runs v = []"
    using assms(1,2) True by (auto simp: rows_left_def)
  have "rows_left now m key rows (iw_store w2)" using sweep_without_runs [OF v sw] assms(2) True by (auto simp: rows_left_def)
  then show ?thesis using t True sw by (auto simp: clear_tail_def split: option.splits if_splits)
qed

lemma clear_store_rows:
  assumes v: "map_of (st_data (iw_store w)) key = Some v" and n: "\<not> has_row [] (sn_runs v)"
    and c: "clear_store en ie now etext key m v w = ((None, res), w')"
  shows "rows_left now m key (sn_runs v) (iw_store w') \<and> cr_cleared res = length (filter (clears m) (sn_runs v))
    \<and> cr_skipped res = length (filter (\<lambda>(rid, r). terminal (rn_state r) \<and> has_worker rid m) (sn_runs v))"
proof -
  define retries where "retries = clear_retries m key v (iw_store w)"
  define res0 where "res0 = clear_counts en m v retries"
  define direct where "direct = filter (\<lambda>rid. \<not> safe_id rid) retries"
  define intents where "intents = clear_intents m v retries"
  define nxt where "nxt = v\<lparr>sn_runs := filter (\<lambda>x. \<not> clears m x) (sn_runs v), sn_cleanup := intents\<rparr>"
  have r0: "cr_cleared res0 = length (filter (clears m) (sn_runs v))"
    "cr_skipped res0 = length (filter (\<lambda>(rid, r). terminal (rn_state r) \<and> has_worker rid m) (sn_runs v))"
    by (simp_all add: res0_def clear_counts_def)
  have same: "list_all2 (stamped now) xs xs" for xs by (rule list_all2_refl) (auto simp: stamped_def)
  note c = c [unfolded clear_store_def Let_def, folded retries_def, folded res0_def direct_def intents_def, folded nxt_def]
  show ?thesis
  proof (cases "cr_cleared res0 > 0 \<or> intents \<noteq> []")
    case False
    then have "filter (\<lambda>x. \<not> clears m x) (sn_runs v) = sn_runs v" using r0 by (auto simp: filter_empty_conv)
    then have "rows_left now m key (sn_runs v) (iw_store w)" using v same by (auto simp: rows_left_def)
    moreover have "sn_runs nxt = filter (\<lambda>x. \<not> clears m x) (sn_runs v)" by (simp add: nxt_def)
    ultimately show ?thesis using c False clear_tail_rows r0 by auto
  next
    case True
    obtain nx w1 where p: "(if cr_cleared res0 > 0 then (case fresh_id en ''e_'' (iw_store w) of
                          (epoch, s) \<Rightarrow> (nxt\<lparr>sn_epoch := epoch, sn_seq := 0, sn_events := []\<rparr>, w\<lparr>iw_store := s\<rparr>)) else (nxt, w)) = (nx, w1)"
      by (metis surj_pair)
    have nx: "sn_runs nx = filter (\<lambda>x. \<not> clears m x) (sn_runs v)" "map_of (st_data (iw_store w1)) key = Some v"
      using p v by (auto simp: fresh_id_def nxt_def split: if_splits)
    obtain w2 where cw: "commit_world en now key nx None w1 = (None, w2)"
      using c True p by (auto split: option.splits prod.splits)
    obtain u s where cs: "commit en now key nx None (iw_store w1) = (None, u, s)" and w2: "iw_store w2 = s"
      using cw by (auto simp: commit_world_def split: prod.splits)
    have "data_of (iw_store w1) key = v" using nx by (simp add: data_of_def row_def)
    then have u: "list_all2 (stamped now) (filter (\<lambda>x. \<not> clears m x) (sn_runs v)) (sn_runs u)" "map_of (st_data s) key = Some u"
      using commit_same_lives [OF cs] n nx by simp_all
    define t where "t = (if cr_cleared res0 > 0 then publish key (cleared_event now nx) (restore_cleanup key nx (iw_store w2)) else restore_cleanup key nx (iw_store w2))"
    have t: "map_of (st_data t) key = Some u" using u w2 by (simp add: t_def)
    obtain e w3 where d: "drain_cleanup en ie now key (w2\<lparr>iw_store := t\<rparr>) = (e, w3)" by (metis surj_pair)
    have nu: "\<not> has_row [] (sn_runs u)"
      using n has_row_keys [OF stamped_keys [OF u(1)]] by (auto simp: has_row_iff)
    obtain u1 where u1: "map_of (st_data (iw_store w3)) key = Some u1" "list_all2 (stamped now) (sn_runs u) (sn_runs u1)"
      using drain_data [OF d _ nu] t by auto
    have l: "rows_left now m key (sn_runs v) (iw_store w3)" using u1 stamped_trans [OF u(1)] by (auto simp: rows_left_def)
    have fin: "(case e of Some e \<Rightarrow> ((None, res0\<lparr>cr_warning := clear_warning e etext\<rparr>), w3)
         | None \<Rightarrow> clear_tail en ie now etext key True nx direct res0 w3) = ((None, res), w')"
      using c True p cw d by (auto simp: t_def split: option.splits)
    show ?thesis
    proof (cases e)
      case None
      then show ?thesis using fin clear_tail_rows [OF l nx(1)] r0 by auto
    next
      case (Some x)
      then show ?thesis using fin l r0 by auto
    qed
  qed
qed

text \<open>
  A clear that is answered without an error has taken exactly the ended runs that no worker holds: every other run of the key is as
  it was, and the runs cleared and skipped are together the ended runs the operator was shown.
\<close>

theorem clear_takes_ended:
  assumes ld: "load en now key (mg_store m) = (Inr v, s)" and ok: "map_of (st_data s) key = Some v" "snap_ok key v"
    and c: "clear_terminal en ie sz now etext key ex (m, w) = ((None, res), m', w')"
  shows "cr_cleared res + cr_skipped res = ce_terminal ex \<and> cr_cleared res = length (filter (clears m) (sn_runs v))
    \<and> (\<exists>v'. map_of (st_data (mg_store m')) key = Some v' \<and> list_all2 (stamped now) (filter (\<lambda>x. \<not> clears m x) (sn_runs v)) (sn_runs v'))"
proof -
  define d where "d = stored_view en sz now key v s"
  have dv: "data_of s key = v" using ok by (simp add: data_of_def row_def)
  have ex: "expects ex d" using c ld by (auto simp: clear_terminal_def stored_locked_def d_def split: if_splits)
  obtain w2 where cs: "clear_store en ie now etext key m v (w\<lparr>iw_store := s\<rparr>) = ((None, res), w2)" and m': "mg_store m' = iw_store w2"
    using c ld ex by (auto simp: clear_terminal_def stored_locked_def d_def dv split: if_splits prod.splits)
  have n: "\<not> has_row [] (sn_runs v)" using ok(2) by (auto simp: snap_ok_parts tables_ok_def list_all_iff row_ok_def has_row_iff safe_id_def)
  have "ce_terminal ex = length (filter (\<lambda>(rid, r). terminal (rn_state r)) (sn_runs v))"
    using ex stored_view_terminal [of en sz now key v s] by (simp add: expects_def d_def)
  then show ?thesis using clear_store_rows [OF _ n cs] ok(1) clears_split [of m "sn_runs v"] m' by (auto simp: rows_left_def)
qed

section \<open>A sample clear\<close>

definition sample_sizes :: size_env where "sample_sizes = \<lparr>sz_run = (\<lambda>_. 10), sz_held = (\<lambda>_. 0)\<rparr>"

text \<open>One run that waits, and one that has ended.\<close>

definition ended_run :: run where "ended_run = sample_run\<lparr>rn_id := ''r_b'', rn_state := Done\<rparr>"

definition mixed_snapshot :: snapshot where
  "mixed_snapshot = sample_snapshot\<lparr>sn_runs := [(''r_a'', sample_run), (''r_b'', ended_run)]\<rparr>"

definition mixed_store :: run_store where "mixed_store = sample_store\<lparr>st_data := [(''k1'', mixed_snapshot)]\<rparr>"

definition mixed_touched :: run_store where "mixed_touched = mixed_store\<lparr>st_accessed := (st_accessed mixed_store)(''k1'' := 9)\<rparr>"

definition mixed_expectation :: clear_expectation where
  "mixed_expectation = (let d = stored_view sample_run_env sample_sizes 9 ''k1'' mixed_snapshot mixed_touched in
     \<lparr>ce_cursor = sd_cursor d, ce_terminal = sd_terminal d, ce_images = sd_clear_images d, ce_cleanup = sd_retry d\<rparr>)"

definition mixed_world :: image_world where
  "mixed_world = sample_image_world [] []"

lemma mixed_load: "load en 9 ''k1'' mixed_store = (Inr mixed_snapshot, mixed_touched)"
  by (simp add: mixed_touched_def load_def mixed_store_def)

lemma mixed_data: "map_of (st_data mixed_touched) ''k1'' = Some mixed_snapshot" "data_of mixed_touched ''k1'' = mixed_snapshot"
  by (simp_all add: mixed_touched_def mixed_store_def data_of_def row_def)

lemma mixed_ok: "snap_ok ''k1'' mixed_snapshot"
  using sample_snapshot_ok
  by (simp add: mixed_snapshot_def ended_run_def snap_ok_parts log_ok_def tables_ok_def row_ok_def cleanup_ok_def maps_ok_def run_limits
      sample_run_def new_run_def valid_state_def) (simp add: safe_id_def id_char_def byte_def)

definition idle_manager :: manager where
  "idle_manager = \<lparr>mg_store = mixed_store, mg_kinds = [''chat''], mg_policies = (\<lambda>_. no_policy), mg_active = [], mg_workers = 0,
     mg_closed = False, mg_started = True, mg_sweeping = False, mg_blocked = (\<lambda>_. 0), mg_quarantined = [], mg_releases = [],
     mg_released = [], mg_positions = (\<lambda>_. [])\<rparr>"

lemma mixed_rows: "filter (clears idle_manager) (sn_runs mixed_snapshot) = [(''r_b'', ended_run)]"
  "filter (\<lambda>x. \<not> clears idle_manager x) (sn_runs mixed_snapshot) = [(''r_a'', sample_run)]"
  by (simp_all add: mixed_snapshot_def clears_def ended_run_def terminal_def has_worker_def has_row_def idle_manager_def)

definition mixed_left :: snapshot where
  "mixed_left = mixed_snapshot\<lparr>sn_runs := [(''r_a'', sample_run)], sn_cleanup := [''r_b''], sn_epoch := ''e_a'', sn_seq := 0, sn_events := []\<rparr>"

lemma mixed_commit: "\<exists>u t. commit sample_run_env 9 ''k1'' (mixed_left\<lparr>sn_epoch := e\<rparr>) None (mixed_touched\<lparr>st_ids := n\<rparr>) = (None, u, t)"
  by (simp add: commit_def commit_for_def Let_def staged_def split_def data_of_def row_def retained_budget_def reserved_bytes_def store_budget_def
        run_limits terminal_bound_def write_snapshot_def mixed_left_def mixed_snapshot_def mixed_touched_def mixed_store_def ended_run_def
        del: stamp_images.simps)

lemma mixed_clear:
  "\<exists>res m' w'. clear_terminal sample_run_env sample_image_env sample_sizes 9 (\<lambda>_. []) ''k1'' mixed_expectation (idle_manager, mixed_world) = ((None, res), m', w')"
proof -
  have l: "mg_store idle_manager = mixed_store" by (simp add: idle_manager_def)
  have ex: "expects mixed_expectation (stored_view sample_run_env sample_sizes 9 ''k1'' mixed_snapshot mixed_touched)"
    by (simp add: expects_def mixed_expectation_def Let_def)
  have st: "st_image_cleanup mixed_touched = []"
    by (simp add: mixed_touched_def mixed_store_def sample_store_def start_store_def new_store_def)
  have r: "clear_retries idle_manager ''k1'' mixed_snapshot mixed_touched = []" by (simp add: clear_retries_def st)
  have i: "clear_intents idle_manager mixed_snapshot [] = [''r_b'']"
    using mixed_rows(1) by (simp add: clear_intents_def) (simp add: mixed_snapshot_def)
  have n: "cr_cleared (clear_counts sample_run_env idle_manager mixed_snapshot []) = 1" by (simp add: clear_counts_def mixed_rows)
  have fl: "filter (\<lambda>x. \<not> clears idle_manager x) (sn_runs mixed_snapshot) = [(''r_a'', sample_run)]" by (rule mixed_rows)
  have w: "mixed_world\<lparr>iw_store := mixed_touched\<rparr>\<lparr>iw_store := s\<rparr> = mixed_world\<lparr>iw_store := s\<rparr>" for s by simp
  define e where "e = fst (fresh_id sample_run_env ''e_'' mixed_touched)"
  define n0 where "n0 = st_ids mixed_touched + 1"
  have fr: "fresh_id sample_run_env ''e_'' mixed_touched = (e, mixed_touched\<lparr>st_ids := n0\<rparr>)" by (simp add: e_def n0_def fresh_id_def)
  obtain u t where c: "commit sample_run_env 9 ''k1'' (mixed_left\<lparr>sn_epoch := e\<rparr>) None (mixed_touched\<lparr>st_ids := n0\<rparr>) = (None, u, t)"
    using mixed_commit by blast
  have nx: "mixed_snapshot\<lparr>sn_runs := [(''r_a'', sample_run)], sn_cleanup := [''r_b''], sn_epoch := e, sn_seq := 0, sn_events := []\<rparr> = mixed_left\<lparr>sn_epoch := e\<rparr>"
    by (simp add: mixed_left_def)
  have "\<exists>res w'. clear_store sample_run_env sample_image_env 9 (\<lambda>_. []) ''k1'' idle_manager mixed_snapshot (mixed_world\<lparr>iw_store := mixed_touched\<rparr>) = ((None, res), w')"
    by (simp add: clear_store_def Let_def r i n fl fr nx commit_world_def c clear_tail_def)
      (auto simp: mixed_left_def clear_tail_def Let_def split: option.splits prod.splits)
  then show ?thesis using ex by (auto simp: clear_terminal_def stored_locked_def l mixed_load mixed_data)
qed

theorem clear_takes_ended_witness:
  "\<exists>res m' w' v'. clear_terminal sample_run_env sample_image_env sample_sizes 9 (\<lambda>_. []) ''k1'' mixed_expectation (idle_manager, mixed_world) = ((None, res), m', w')
     \<and> cr_cleared res = 1 \<and> map_of (st_data (mg_store m')) ''k1'' = Some (v' :: snapshot)
     \<and> list_all2 (stamped 9) [(''r_a'', sample_run)] (sn_runs v')"
proof -
  obtain res m' w' where c: "clear_terminal sample_run_env sample_image_env sample_sizes 9 (\<lambda>_. []) ''k1'' mixed_expectation (idle_manager, mixed_world) = ((None, res), m', w')"
    using mixed_clear by blast
  have l: "load sample_run_env 9 ''k1'' (mg_store idle_manager) = (Inr mixed_snapshot, mixed_touched)" by (simp add: idle_manager_def mixed_load)
  from clear_takes_ended [OF l mixed_data(1) mixed_ok c] c show ?thesis by (auto simp: mixed_rows)
qed

end
