(* ===== verification/Speech.thy ===== *)
theory Speech
  imports Prelude "HOL-Library.Word"
begin

text \<open>
  The speech member (internal/speech): the numbers of a Chinese text spelt out before the voice model sees them (normalize.go), and the
  server that lets one generation run at a time and streams its sound (server.go). A text is the list of its code points, since the JSON
  decoder has already replaced what is not UTF-8; the Unicode classes are a parameter.
\<close>

section \<open>Numbers in Chinese text\<close>

type_synonym rune = nat
type_synonym runes = "nat list"

record unicode =
  un_han :: "rune \<Rightarrow> bool"
  un_digit :: "rune \<Rightarrow> bool"
  un_letter :: "rune \<Rightarrow> bool"
  un_space :: "rune \<Rightarrow> bool"

definition ascii_digit :: "rune \<Rightarrow> bool" where "ascii_digit c \<longleftrightarrow> 48 \<le> c \<and> c \<le> 57"
definition date_sep :: "rune \<Rightarrow> bool" where "date_sep c \<longleftrightarrow> c = 45 \<or> c = 47"

definition dot_rune :: rune where "dot_rune = 46"
definition year_rune :: rune where "year_rune = 24180"
definition month_rune :: rune where "month_rune = 26376"
definition day_rune :: rune where "day_rune = 26085"
definition point_rune :: rune where "point_rune = 28857"
definition zero_rune :: rune where "zero_rune = 38646"

definition digit_table :: "bool \<Rightarrow> runes" where
  "digit_table phone = [zero_rune, if phone then 24186 else 19968, 20108, 19977, 22235, 20116, 20845, 19971, 20843, 20061]"

text \<open>Indexing the table by anything but a digit panics: \<open>None\<close>.\<close>

fun han_digits :: "bool \<Rightarrow> runes \<Rightarrow> runes option" where
  "han_digits phone [] = Some []"
| "han_digits phone (c # cs) =
     (if ascii_digit c then (case han_digits phone cs of None \<Rightarrow> None | Some ds \<Rightarrow> Some (digit_table phone ! (c - 48) # ds)) else None)"

definition number_of_digits :: "runes \<Rightarrow> nat" where "number_of_digits = foldl (\<lambda>n c. 10 * n + (c - 48)) 0"

definition han_places :: "(nat \<times> runes) list" where
  "han_places = [(1000, [21315]), (100, [30334]), (10, [21313]), (1, [])]"

text \<open>The loop over the places: what is left, whether a zero has to be said, and what is written.\<close>

fun han_cardinal :: "(nat \<times> runes) list \<Rightarrow> nat \<Rightarrow> bool \<Rightarrow> runes \<Rightarrow> runes" where
  "han_cardinal [] n zero b = b"
| "han_cardinal ((place, name) # ps) n zero b =
     (let digit = n div place; n = n mod place in
      if digit = 0 then han_cardinal ps n (b \<noteq> []) b
      else let b = (if zero then b @ [zero_rune] else b);
               b = (if digit \<noteq> 1 \<or> place \<noteq> 10 \<or> b \<noteq> [] then b @ [digit_table False ! digit] else b)
           in han_cardinal ps n False (b @ name))"

definition han_integer :: "runes \<Rightarrow> runes option" where
  "han_integer s =
     (if length s > 4 then han_digits False s
      else case s of [] \<Rightarrow> None
        | c # _ \<Rightarrow> if c = 48 then han_digits False s else Some (han_cardinal han_places (number_of_digits s) False []))"

definition phone_number :: "runes \<Rightarrow> bool" where
  "phone_number v \<longleftrightarrow> length v = 11 \<and> v ! 0 = 49 \<and> 51 \<le> v ! 1 \<and> v ! 1 \<le> 57"

definition han_value :: "runes \<Rightarrow> runes option" where
  "han_value v =
     (if v \<noteq> [] \<and> last v = year_rune then (case han_digits False (butlast v) of None \<Rightarrow> None | Some ds \<Rightarrow> Some (ds @ [year_rune]))
      else if phone_number v then han_digits True v
      else case han_integer (takeWhile (\<lambda>c. c \<noteq> dot_rune) v) of None \<Rightarrow> None
        | Some whole \<Rightarrow>
            (case dropWhile (\<lambda>c. c \<noteq> dot_rune) v of
               [] \<Rightarrow> Some whole
             | _ # decimal \<Rightarrow> (case han_digits False decimal of None \<Rightarrow> None | Some ds \<Rightarrow> Some (whole @ [point_rune] @ ds))))"

text \<open>The two patterns, matched at the head of a text: what they take, and the rest.\<close>

definition take_digits :: "nat \<Rightarrow> runes \<Rightarrow> runes \<times> runes" where
  "take_digits k s = (let ds = takeWhile ascii_digit (take k s) in (ds, drop (length ds) s))"

definition match_date :: "runes \<Rightarrow> (runes \<times> runes \<times> runes \<times> runes) option" where
  "match_date s =
     (case take_digits 4 s of (y, s) \<Rightarrow>
        if length y < 4 then None
        else case s of [] \<Rightarrow> None
          | a # s \<Rightarrow>
              if \<not> date_sep a then None
              else case take_digits 2 s of (mo, s) \<Rightarrow>
                if mo = [] then None
                else case s of [] \<Rightarrow> None
                  | b # s \<Rightarrow>
                      if \<not> date_sep b then None
                      else case take_digits 2 s of (d, s) \<Rightarrow> if d = [] then None else Some (y, mo, d, s))"

definition match_number :: "runes \<Rightarrow> runes \<times> runes" where
  "match_number s =
     (let whole = takeWhile ascii_digit s; r = dropWhile ascii_digit s;
          decimal = (case r of [] \<Rightarrow> [] | c # t \<Rightarrow> if c = dot_rune \<and> takeWhile ascii_digit t \<noteq> [] then dot_rune # takeWhile ascii_digit t else []);
          v = whole @ decimal; r = drop (length decimal) r;
          suffix = (if whole \<noteq> [] \<and> r \<noteq> [] \<and> hd r = year_rune then [year_rune] else [])
      in (if whole = [] then ([], s) else (v @ suffix, drop (length suffix) r)))"

definition spoken_date :: "runes \<Rightarrow> runes \<Rightarrow> runes \<Rightarrow> runes" where
  "spoken_date y mo d = y @ [year_rune] @ dropWhile (\<lambda>c. c = 48) mo @ [month_rune] @ dropWhile (\<lambda>c. c = 48) d @ [day_rune]"

lemma take_digits_shorter: "take_digits k s = (ds, r) \<Longrightarrow> length r \<le> length s"
  by (auto simp: take_digits_def Let_def)

lemma match_date_shorter: "match_date s = Some (y, mo, d, r) \<Longrightarrow> length r < length s"
  unfolding match_date_def using take_digits_shorter
  by (auto split: prod.splits if_splits list.splits) (fastforce dest: take_digits_shorter)+

function speak_dates :: "runes \<Rightarrow> runes" where
  "speak_dates [] = []"
| "speak_dates (c # cs) =
     (case match_date (c # cs) of
        Some (y, mo, d, r) \<Rightarrow> spoken_date y mo d @ speak_dates r
      | None \<Rightarrow> c # speak_dates cs)"
  by pat_completeness auto
termination by (relation "measure length") (auto dest: match_date_shorter)

lemma match_number_shorter: "match_number s = (v, r) \<Longrightarrow> v \<noteq> [] \<Longrightarrow> length r < length s"
proof -
  assume m: "match_number s = (v, r)" and v: "v \<noteq> []"
  have w: "takeWhile ascii_digit s \<noteq> []" using m v by (auto simp: match_number_def Let_def split: if_splits)
  have "length (takeWhile ascii_digit s) + length (dropWhile ascii_digit s) = length s"
    by (metis length_append takeWhile_dropWhile_id)
  moreover have "length r \<le> length (dropWhile ascii_digit s)" using m w by (auto simp: match_number_def Let_def)
  ultimately show ?thesis using w by (cases "takeWhile ascii_digit s") auto
qed

function speak_numbers :: "runes \<Rightarrow> runes option" where
  "speak_numbers [] = Some []"
| "speak_numbers (c # cs) =
     (case match_number (c # cs) of (v, r) \<Rightarrow>
        if v = [] then (case speak_numbers cs of None \<Rightarrow> None | Some u \<Rightarrow> Some (c # u))
        else (case han_value v of None \<Rightarrow> None
              | Some x \<Rightarrow> (case speak_numbers r of None \<Rightarrow> None | Some u \<Rightarrow> Some (x @ u))))"
  by pat_completeness auto
termination
  by (relation "measure length") (auto dest: match_number_shorter [OF sym])

text \<open>A text without a Han character is left alone; \<open>None\<close> is a panic.\<close>

definition normalize_han :: "unicode \<Rightarrow> runes \<Rightarrow> runes option" where
  "normalize_han un s = (if \<not> list_ex (un_han un) s then Some s else speak_numbers (speak_dates s))"

definition is_chinese :: "unicode \<Rightarrow> runes \<Rightarrow> bool" where
  "is_chinese un s =
     (let han = length (filter (un_han un) s); letters = length (filter (\<lambda>c. un_han un c \<or> un_letter un c) s)
      in letters > 0 \<and> han * 10 \<ge> letters * 3)"

section \<open>What is said\<close>

text \<open>Reading a Chinese cardinal: digits wait for their place, a bare ten is one ten.\<close>

definition digit_of :: "rune \<Rightarrow> nat option" where
  "digit_of c = map_of (zip (digit_table False) [0..<10]) c"

definition place_of :: "rune \<Rightarrow> nat option" where
  "place_of c = map_of [(21315, 1000), (30334, 100), (21313, 10)] c"

fun read_cardinal :: "nat \<Rightarrow> nat \<Rightarrow> runes \<Rightarrow> nat" where
  "read_cardinal n d [] = n + d"
| "read_cardinal n d (c # cs) =
     (case place_of c of
        Some p \<Rightarrow> read_cardinal (n + (if d = 0 then 1 else d) * p) 0 cs
      | None \<Rightarrow> (case digit_of c of Some x \<Rightarrow> read_cardinal n x cs | None \<Rightarrow> read_cardinal n d cs))"

definition read_digits :: "runes \<Rightarrow> runes" where
  "read_digits s = map (\<lambda>c. case digit_of c of Some x \<Rightarrow> x + 48 | None \<Rightarrow> c) s"

lemma digit_runes:
  "digit_of 38646 = Some 0" "digit_of 19968 = Some 1" "digit_of 20108 = Some 2" "digit_of 19977 = Some 3" "digit_of 22235 = Some 4"
  "digit_of 20116 = Some 5" "digit_of 20845 = Some 6" "digit_of 19971 = Some 7" "digit_of 20843 = Some 8" "digit_of 20061 = Some 9"
  by (simp_all add: digit_of_def digit_table_def zero_rune_def upt_rec)

lemma digit_case: "(d :: nat) < 10 \<Longrightarrow> d = 0 \<or> d = 1 \<or> d = 2 \<or> d = 3 \<or> d = 4 \<or> d = 5 \<or> d = 6 \<or> d = 7 \<or> d = 8 \<or> d = 9"
  by arith

lemma table_digit: "d < 10 \<Longrightarrow> digit_of (digit_table False ! d) = Some d" "d < 10 \<Longrightarrow> place_of (digit_table False ! d) = None"
  by (auto dest!: digit_case simp: digit_runes digit_table_def zero_rune_def place_of_def)

lemma place_runes: "place_of 21315 = Some 1000" "place_of 30334 = Some 100" "place_of 21313 = Some 10" "place_of zero_rune = None" "digit_of zero_rune = Some 0"
  by (simp_all add: place_of_def zero_rune_def digit_runes)

lemma digits_spoken: "han_digits False s = Some t \<Longrightarrow> read_digits t = s"
proof (induction s arbitrary: t)
  case (Cons c cs)
  then show ?case by (auto simp: read_digits_def ascii_digit_def table_digit split: if_splits option.splits)
qed (simp add: read_digits_def)

lemma cardinal_shape:
  assumes "a < 10" "b < 10" "c < 10" "d < 10"
  shows "han_cardinal han_places (1000 * a + 100 * b + 10 * c + d) False [] =
      (let s1 = (if a = 0 then [] else [digit_table False ! a, 21315]);
           s2 = (if b = 0 then s1 else s1 @ [digit_table False ! b, 30334]);
           z3 = (s1 \<noteq> [] \<and> b = 0);
           s3 = (if c = 0 then s2 else (let t = (if z3 then s2 @ [zero_rune] else s2) in (if c \<noteq> 1 \<or> t \<noteq> [] then t @ [digit_table False ! c] else t) @ [21313]));
           z4 = (s2 \<noteq> [] \<and> c = 0)
       in if d = 0 then s3 else (if z4 then s3 @ [zero_rune] else s3) @ [digit_table False ! d])"
proof -
  have m: "r < k \<Longrightarrow> (k * q + r) div k = q \<and> (k * q + r) mod k = r" for q r k :: nat by simp
  have dv: "(1000 * a + 100 * b + 10 * c + d) div 1000 = a" "(1000 * a + 100 * b + 10 * c + d) mod 1000 = 100 * b + 10 * c + d"
    "(100 * b + 10 * c + d) div 100 = b" "(100 * b + 10 * c + d) mod 100 = 10 * c + d" "(10 * c + d) div 10 = c" "(10 * c + d) mod 10 = d"
    using m [of "100 * b + 10 * c + d" 1000 a] m [of "10 * c + d" 100 b] m [of d 10 c] assms by (simp_all add: add.assoc)
  then show ?thesis using assms by (simp add: han_places_def Let_def dv)
qed

lemma cardinal_read:
  assumes "a < 10" "b < 10" "c < 10" "d < 10"
  shows "read_cardinal 0 0 (han_cardinal han_places (1000 * a + 100 * b + 10 * c + d) False []) = 1000 * a + 100 * b + 10 * c + d"
  unfolding cardinal_shape [OF assms] Let_def using assms
  by (cases "a = 0"; cases "b = 0"; cases "c = 0"; cases "d = 0"; cases "c = 1") (simp_all add: table_digit place_runes)

lemma atoi_digits:
  assumes "list_all ascii_digit s" "s \<noteq> []" "length s \<le> 4"
  obtains a b c d where "a < 10" "b < 10" "c < 10" "d < 10" "number_of_digits s = 1000 * a + 100 * b + 10 * c + d"
proof -
  have dg: "ascii_digit x \<Longrightarrow> x - 48 < 10" for x by (auto simp: ascii_digit_def)
  consider w where "s = [w]" | w x where "s = [w, x]" | w x y where "s = [w, x, y]" | w x y z where "s = [w, x, y, z]"
    using assms(2,3) by (cases s; cases "tl s"; cases "tl (tl s)"; cases "tl (tl (tl s))") auto
  then show ?thesis
  proof cases
    case 1
    then show ?thesis using that [of 0 0 0 "w - 48"] assms(1) dg by (simp add: number_of_digits_def)
  next
    case 2
    then show ?thesis using that [of 0 0 "w - 48" "x - 48"] assms(1) dg by (simp add: number_of_digits_def)
  next
    case 3
    then show ?thesis using that [of 0 "w - 48" "x - 48" "y - 48"] assms(1) dg by (simp add: number_of_digits_def algebra_simps)
  next
    case 4
    then show ?thesis using that [of "w - 48" "x - 48" "y - 48" "z - 48"] assms(1) dg by (simp add: number_of_digits_def algebra_simps)
  qed
qed

lemma digits_total: "list_all ascii_digit s \<Longrightarrow> \<exists>t. han_digits phone s = Some t"
  by (induction s) auto

text \<open>
  A whole number in a Chinese text keeps its value: one of up to four digits is said as the cardinal that reads back as the number,
  and a longer one, or one with a leading zero, digit by digit so that no digit is lost.
\<close>

theorem han_integer_reads_back:
  assumes "list_all ascii_digit s" "s \<noteq> []"
  shows "\<exists>t. han_integer s = Some t \<and> (if length s > 4 \<or> hd s = 48 then read_digits t = s else read_cardinal 0 0 t = number_of_digits s)"
proof (cases "length s > 4 \<or> hd s = 48")
  case True
  obtain t where t: "han_digits False s = Some t" using digits_total assms(1) by blast
  have "han_integer s = han_digits False s" using True assms(2) by (cases s) (auto simp: han_integer_def)
  then show ?thesis using True t digits_spoken [OF t] by simp
next
  case False
  then have "length s \<le> 4" by simp
  with assms obtain a b c d where n: "a < 10" "b < 10" "c < 10" "d < 10" "number_of_digits s = 1000 * a + 100 * b + 10 * c + d"
    by (rule atoi_digits)
  have "han_integer s = Some (han_cardinal han_places (number_of_digits s) False [])" using False assms(2) by (cases s) (auto simp: han_integer_def)
  then show ?thesis using False cardinal_read [OF n(1-4)] n(5) by simp
qed

theorem han_integer_reads_back_witness:
  "\<exists>t. han_integer [49, 48, 49, 48] = Some t \<and> read_cardinal 0 0 t = 1010"
  using han_integer_reads_back [of "[49, 48, 49, 48]"] by (simp add: ascii_digit_def number_of_digits_def)

section \<open>When normalising panics, and what is left\<close>

definition digit_free :: "runes \<Rightarrow> bool" where "digit_free = list_all (\<lambda>c. \<not> ascii_digit c)"

lemma digit_free_simps [simp]: "digit_free []" "digit_free (c # cs) \<longleftrightarrow> \<not> ascii_digit c \<and> digit_free cs" "digit_free (s @ t) \<longleftrightarrow> digit_free s \<and> digit_free t"
  by (simp_all add: digit_free_def)

lemma digit_free_runes [simp]:
  "\<not> ascii_digit zero_rune" "\<not> ascii_digit year_rune" "\<not> ascii_digit point_rune" "\<not> ascii_digit dot_rune" "dot_rune \<noteq> year_rune"
  "d < 10 \<Longrightarrow> \<not> ascii_digit (digit_table phone ! d)"
  by (auto dest!: digit_case simp: ascii_digit_def zero_rune_def year_rune_def point_rune_def dot_rune_def digit_table_def)

lemma digits_digit_free: "han_digits phone s = Some t \<Longrightarrow> digit_free t"
proof (induction s arbitrary: t)
  case (Cons c cs)
  then have "ascii_digit c" by (auto split: if_splits)
  then have "c - 48 < 10" by (auto simp: ascii_digit_def)
  then show ?case using Cons by (auto split: if_splits option.splits)
qed simp

lemma digits_none: "han_digits phone s = None \<longleftrightarrow> \<not> list_all ascii_digit s"
  by (induction s) (auto split: option.splits)

lemma cardinal_digit_free:
  assumes "list_all ascii_digit s" "s \<noteq> []" "length s \<le> 4"
  shows "digit_free (han_cardinal han_places (number_of_digits s) False [])"
proof -
  obtain a b c d where n: "a < 10" "b < 10" "c < 10" "d < 10" "number_of_digits s = 1000 * a + 100 * b + 10 * c + d"
    using assms by (rule atoi_digits)
  have "\<not> ascii_digit 21315" "\<not> ascii_digit 30334" "\<not> ascii_digit 21313" by (simp_all add: ascii_digit_def)
  then show ?thesis unfolding n(5) cardinal_shape [OF n(1-4)] Let_def using n(1-4) by simp
qed

lemma integer_digit_free: "list_all ascii_digit s \<Longrightarrow> s \<noteq> [] \<Longrightarrow> \<exists>t. han_integer s = Some t \<and> digit_free t"
proof (cases "length s > 4 \<or> hd s = 48")
  case True
  assume s: "list_all ascii_digit s" "s \<noteq> []"
  obtain t where t: "han_digits False s = Some t" using digits_total s(1) by blast
  have "han_integer s = han_digits False s" using True s(2) by (cases s) (auto simp: han_integer_def)
  then show ?thesis using t digits_digit_free [OF t] by simp
next
  case False
  assume s: "list_all ascii_digit s" "s \<noteq> []"
  have "han_integer s = Some (han_cardinal han_places (number_of_digits s) False [])" using False s(2) by (cases s) (auto simp: han_integer_def)
  then show ?thesis using cardinal_digit_free [OF s] False by simp
qed

text \<open>What the number pattern takes: digits, perhaps a point and digits, perhaps the sign of a year.\<close>

definition number_shape :: "runes \<Rightarrow> runes \<Rightarrow> runes \<Rightarrow> runes \<Rightarrow> bool" where
  "number_shape v whole decimal suffix \<longleftrightarrow> v = whole @ decimal @ suffix \<and> whole \<noteq> [] \<and> list_all ascii_digit whole
     \<and> (decimal = [] \<or> (\<exists>ds. decimal = dot_rune # ds \<and> ds \<noteq> [] \<and> list_all ascii_digit ds)) \<and> suffix \<in> {[], [year_rune]}"

lemma taken_digits: "list_all ascii_digit (takeWhile ascii_digit s)"
  by (induction s) auto

lemma match_number_shape:
  assumes "match_number s = (v, r)" "v \<noteq> []"
  obtains whole decimal suffix where "number_shape v whole decimal suffix"
proof -
  define whole where "whole = takeWhile ascii_digit s"
  define r1 where "r1 = dropWhile ascii_digit s"
  define decimal where "decimal = (case r1 of [] \<Rightarrow> [] | c # t \<Rightarrow> if c = dot_rune \<and> takeWhile ascii_digit t \<noteq> [] then dot_rune # takeWhile ascii_digit t else [])"
  have m: "whole \<noteq> []" "\<exists>suffix. v = (whole @ decimal) @ suffix \<and> suffix \<in> {[], [year_rune]}"
    using assms unfolding match_number_def Let_def whole_def [symmetric] r1_def [symmetric] decimal_def [symmetric] by (auto split: if_splits)
  then obtain suffix where sf: "v = (whole @ decimal) @ suffix" "suffix \<in> {[], [year_rune]}" by blast
  have "decimal = [] \<or> (\<exists>ds. decimal = dot_rune # ds \<and> ds \<noteq> [] \<and> list_all ascii_digit ds)"
    by (auto simp: decimal_def taken_digits split: list.split)
  then show ?thesis using that [of whole decimal suffix] m(1) sf taken_digits [of s] by (simp add: number_shape_def whole_def)
qed

text \<open>The numbers that make the table lookup panic: a decimal said as a year, and a decimal as long as a telephone number that starts like one.\<close>

definition bad_number :: "runes \<Rightarrow> bool" where
  "bad_number v \<longleftrightarrow> dot_rune \<in> set v \<and> (last v = year_rune \<or> phone_number v)"

lemma value_cases:
  assumes "number_shape v whole decimal suffix"
  shows "han_value v = None \<longleftrightarrow> bad_number v" "han_value v = Some t \<Longrightarrow> digit_free t"
proof -
  have nd: "dot_rune \<notin> set whole" using assms by (auto simp: number_shape_def list_all_iff)
  have lw: "list_all ascii_digit whole" "whole \<noteq> []" using assms by (simp_all add: number_shape_def)
  have ld: "decimal \<noteq> [] \<Longrightarrow> last decimal \<noteq> year_rune" "last whole \<noteq> year_rune"
    using assms by (auto simp: number_shape_def list_all_iff) (metis last_in_set digit_free_runes(2))+
  obtain t0 where t0: "han_integer whole = Some t0" "digit_free t0" using integer_digit_free [OF lw] by blast
  have cut: "takeWhile (\<lambda>c. c \<noteq> dot_rune) (whole @ decimal) = whole" "dropWhile (\<lambda>c. c \<noteq> dot_rune) (whole @ decimal) = decimal"
    using nd assms by (auto simp: number_shape_def takeWhile_append dropWhile_append)
  have dd: "dot_rune \<in> set decimal \<longleftrightarrow> decimal \<noteq> []" "list_all ascii_digit decimal \<longleftrightarrow> decimal = []"
    using assms by (auto simp: number_shape_def)
  consider (year) "suffix = [year_rune]" | (num) "suffix = []" using assms by (auto simp: number_shape_def)
  then have "(han_value v = None \<longleftrightarrow> bad_number v) \<and> (han_value v = Some t \<longrightarrow> digit_free t)"
  proof cases
    case year
    have v: "v = (whole @ decimal) @ [year_rune]" using assms year by (simp add: number_shape_def)
    have hv: "han_value v = (case han_digits False (whole @ decimal) of None \<Rightarrow> None | Some ds \<Rightarrow> Some (ds @ [year_rune]))"
      unfolding v han_value_def butlast_snoc last_snoc by simp
    have "list_all ascii_digit (whole @ decimal) \<longleftrightarrow> decimal = []" using lw dd by simp
    moreover have "bad_number v \<longleftrightarrow> decimal \<noteq> []" using dd(1) nd unfolding bad_number_def v last_snoc by auto
    ultimately show ?thesis using digits_none [of False "whole @ decimal"] digits_digit_free [of False "whole @ decimal"] unfolding hv
      by (auto split: option.splits)
  next
    case num
    have v: "v = whole @ decimal" using assms num by (simp add: number_shape_def)
    have l: "last v \<noteq> year_rune" "v \<noteq> []" using ld lw(2) by (cases "decimal = []"; simp add: v)+
    show ?thesis
    proof (cases "phone_number v")
      case True
      have "list_all ascii_digit v \<longleftrightarrow> decimal = []" using lw dd by (simp add: v)
      then show ?thesis using True l digits_none [of True v] digits_digit_free [of True v t] dd(1) nd
        by (auto simp: han_value_def bad_number_def v)
    next
      case False
      have "decimal = [] \<or> (\<exists>ds u. decimal = dot_rune # ds \<and> han_digits False ds = Some u)"
        using assms digits_total by (auto simp: number_shape_def)
      then show ?thesis using False l t0 cut digits_digit_free
        by (auto simp: han_value_def bad_number_def v)
    qed
  qed
  then show "han_value v = None \<longleftrightarrow> bad_number v" "han_value v = Some t \<Longrightarrow> digit_free t" by auto
qed

text \<open>The numbers of a text, in order.\<close>

function numbers_in :: "runes \<Rightarrow> runes list" where
  "numbers_in [] = []"
| "numbers_in (c # cs) = (case match_number (c # cs) of (v, r) \<Rightarrow> if v = [] then numbers_in cs else v # numbers_in r)"
  by pat_completeness auto
termination by (relation "measure length") (auto dest: match_number_shorter [OF sym])

lemma unmatched_digit_free: "match_number (c # cs) = (v, r) \<Longrightarrow> v = [] \<longleftrightarrow> \<not> ascii_digit c"
  by (auto simp: match_number_def Let_def split: if_splits)

lemma speak_cases:
  "(speak_numbers s = None \<longleftrightarrow> (\<exists>v \<in> set (numbers_in s). bad_number v)) \<and> (\<forall>t. speak_numbers s = Some t \<longrightarrow> digit_free t)"
proof (induction s rule: numbers_in.induct)
  case (2 c cs)
  obtain v r where m: "match_number (c # cs) = (v, r)" by (metis surj_pair)
  show ?case
  proof (cases "v = []")
    case True
    with 2 m unmatched_digit_free [OF m] show ?thesis by (auto split: option.split)
  next
    case False
    obtain whole decimal suffix where "number_shape v whole decimal suffix" using match_number_shape [OF m False] by blast
    from value_cases [OF this] 2 m False show ?thesis by (auto split: option.split)
  qed
qed simp

text \<open>
  Normalising a text panics exactly when the text is Chinese and one of its numbers, once the dates are spelt out, is a decimal said
  as a year or a decimal of eleven characters that starts like a telephone number: these the digit table is indexed with the point.
\<close>

theorem normalize_panics_exactly:
  "normalize_han un s = None \<longleftrightarrow> list_ex (un_han un) s \<and> (\<exists>v \<in> set (numbers_in (speak_dates s)). bad_number v)"
  using speak_cases [of "speak_dates s"] by (simp add: normalize_han_def)

text \<open>2.5 followed by the sign of a year, and 14.15926535 followed by one Chinese character.\<close>

lemmas rune_eval = match_date_def take_digits_def Let_def match_number_def ascii_digit_def dot_rune_def year_rune_def date_sep_def

lemma decimal_year_panics: "un_han un year_rune \<Longrightarrow> normalize_han un [50, 46, 53, year_rune] = None"
proof -
  have d: "speak_dates [50, 46, 53, year_rune] = [50, 46, 53, year_rune]" by (simp add: rune_eval)
  have "numbers_in [50, 46, 53, year_rune] = [[50, 46, 53, year_rune]]" by (simp add: rune_eval)
  then show "un_han un year_rune \<Longrightarrow> ?thesis" unfolding normalize_panics_exactly d by (simp add: bad_number_def dot_rune_def)
qed

lemma long_decimal_panics: "un_han un 24180 \<Longrightarrow> normalize_han un [24180, 49, 52, 46, 49, 53, 57, 50, 54, 53, 51, 53] = None"
proof -
  let ?s = "[49, 52, 46, 49, 53, 57, 50, 54, 53, 51, 53]"
  have d: "speak_dates (24180 # ?s) = 24180 # ?s" by (simp add: rune_eval)
  have "numbers_in (24180 # ?s) = [?s]" by (simp add: rune_eval)
  then show "un_han un 24180 \<Longrightarrow> ?thesis" unfolding normalize_panics_exactly d by (simp add: bad_number_def dot_rune_def phone_number_def)
qed

text \<open>
  The Chinese voice is never given an ASCII digit: a text with a Han character that is normalised has none left, and a text without
  one is left as it is, for the English phonemizer.
\<close>

theorem han_text_has_no_digits:
  assumes "normalize_han un s = Some t"
  shows "if list_ex (un_han un) s then digit_free t else t = s"
  using assms speak_cases [of "speak_dates s"] by (auto simp: normalize_han_def split: if_splits)

theorem han_text_has_no_digits_witness:
  "\<exists>t. normalize_han \<lparr>un_han = (\<lambda>c. c = 24180), un_digit = ascii_digit, un_letter = (\<lambda>_. False), un_space = (\<lambda>c. c = 32)\<rparr> [50, 48, 50, 53, year_rune] = Some t \<and> digit_free t"
proof -
  let ?un = "\<lparr>un_han = (\<lambda>c. c = 24180), un_digit = ascii_digit, un_letter = (\<lambda>_. False), un_space = (\<lambda>c. c = 32)\<rparr>"
  have d: "speak_dates [50, 48, 50, 53, year_rune] = [50, 48, 50, 53, year_rune]" by (simp add: rune_eval)
  have "numbers_in [50, 48, 50, 53, year_rune] = [[50, 48, 50, 53, year_rune]]" by (simp add: rune_eval)
  then have "normalize_han ?un [50, 48, 50, 53, year_rune] \<noteq> None"
    unfolding normalize_panics_exactly d by (simp add: bad_number_def dot_rune_def year_rune_def)
  then obtain t where t: "normalize_han ?un [50, 48, 50, 53, year_rune] = Some t" by blast
  from han_text_has_no_digits [OF t] t show ?thesis by (simp add: year_rune_def)
qed

section \<open>One generation at a time\<close>

record speech_state =
  sp_batch :: "gotime option"
  sp_observed :: duration

definition idle_speech :: speech_state where "idle_speech = \<lparr>sp_batch = None, sp_observed = 0\<rparr>"

text \<open>\<open>time.Since\<close>, which saturates for the zero time.\<close>

definition since :: "gotime \<Rightarrow> gotime option \<Rightarrow> duration" where
  "since now t = (case t of None \<Rightarrow> max_int64 | Some t \<Rightarrow> now - t)"

definition ceil_seconds :: "duration \<Rightarrow> int" where "ceil_seconds d = - ((- d) div second)"

text \<open>Zero when the batch is the caller's, the seconds to wait otherwise.\<close>

definition start_or_retry :: "gotime \<Rightarrow> speech_state \<Rightarrow> int \<times> speech_state" where
  "start_or_retry now s =
     (if sp_batch s = None then (0, s\<lparr>sp_batch := Some now, sp_observed := 0\<rparr>)
      else if sp_observed s = 0 then (3, s)
      else (min 30 (max 1 (ceil_seconds (max (sp_observed s) (since now (sp_batch s))))), s))"

definition finish_batch :: "gotime \<Rightarrow> bool \<Rightarrow> speech_state \<Rightarrow> speech_state" where
  "finish_batch now rel s =
     s\<lparr>sp_observed := max (sp_observed s) (since now (sp_batch s)), sp_batch := (if rel then None else Some now)\<rparr>"

section \<open>Sound\<close>

text \<open>A sample is a rational number, as a float is; \<open>math.Round\<close> rounds half away from zero.\<close>

definition round_away :: "rat \<Rightarrow> int" where
  "round_away x = (if x < 0 then - \<lfloor>- x + 1 / 2\<rfloor> else \<lfloor>x + 1 / 2\<rfloor>)"

definition pcm_level :: "rat \<Rightarrow> int" where "pcm_level x = round_away (max (- 1) (min 1 x) * 32767)"

definition pcm16 :: "rat \<Rightarrow> 16 word" where "pcm16 x = word_of_int (pcm_level x)"

text \<open>\<open>binary.LittleEndian\<close>.\<close>

definition le16 :: "16 word \<Rightarrow> 8 word list" where "le16 w = [ucast w, ucast (drop_bit 8 w)]"
definition le32 :: "32 word \<Rightarrow> 8 word list" where
  "le32 w = [ucast w, ucast (drop_bit 8 w), ucast (drop_bit 16 w), ucast (drop_bit 24 w)]"

definition ascii_bytes :: "string \<Rightarrow> 8 word list" where "ascii_bytes = map (\<lambda>c. of_nat (of_char c))"

definition sample_rate :: nat where "sample_rate = 24000"

definition wave_header :: "8 word list" where
  "wave_header = ascii_bytes ''RIFF'' @ le32 4294967295 @ ascii_bytes ''WAVEfmt '' @ le32 16 @ le16 1 @ le16 1
     @ le32 (of_nat sample_rate) @ le32 (of_nat (sample_rate * 2)) @ le16 2 @ le16 16 @ ascii_bytes ''data'' @ le32 4294967295"

definition pcm_bytes :: "rat list \<Rightarrow> 8 word list" where "pcm_bytes xs = concat (map (\<lambda>x. le16 (pcm16 x)) xs)"

text \<open>A chunk of the native synthesis, and what the connection does with it. A write that fails has delivered nothing.\<close>

record speech_chunk =
  ck_samples :: "rat list"
  ck_alive :: bool
  ck_deadline :: bool
  ck_header :: bool
  ck_write :: bool
  ck_flush :: bool
  ck_now :: gotime

record speech_stream =
  ss_started :: bool
  ss_samples :: nat
  ss_type :: string
  ss_out :: "8 word list"
  ss_batch :: speech_state

definition max_samples :: nat where "max_samples = 120 * sample_rate"

text \<open>The callback of a generation: whether it failed, and the stream.\<close>

definition emit_open :: "string \<Rightarrow> bool \<Rightarrow> speech_stream \<Rightarrow> bool \<times> speech_stream" where
  "emit_open format header s =
     (if ss_started s then (False, s)
      else let s = s\<lparr>ss_started := True, ss_type := ''audio/pcm''\<rparr> in
        if format = ''pcm'' then (False, s)
        else let s = s\<lparr>ss_type := ''audio/wav''\<rparr> in
          if header then (False, s\<lparr>ss_out := ss_out s @ wave_header\<rparr>) else (True, s))"

definition emit :: "string \<Rightarrow> speech_chunk \<Rightarrow> speech_stream \<Rightarrow> bool \<times> speech_stream" where
  "emit format c s =
     (if \<not> ck_alive c then (True, s)
      else if ck_samples c = [] then (False, s)
      else let s = s\<lparr>ss_samples := ss_samples s + length (ck_samples c)\<rparr> in
        if ss_samples s > max_samples then (True, s)
        else if \<not> ck_deadline c then (True, s)
        else case emit_open format (ck_header c) s of (failed, s) \<Rightarrow>
          if failed then (True, s)
          else if \<not> ck_write c then (True, s)
          else (\<not> ck_flush c, s\<lparr>ss_out := ss_out s @ pcm_bytes (ck_samples c), ss_batch := finish_batch (ck_now c) False (ss_batch s)\<rparr>))"

text \<open>A generation stops at the first failure of its callback (cmd/infercat-speech), and may fail by itself after its chunks.\<close>

fun generate :: "string \<Rightarrow> speech_chunk list \<Rightarrow> bool \<Rightarrow> speech_stream \<Rightarrow> bool \<times> speech_stream" where
  "generate format [] native s = (\<not> native, s)"
| "generate format (c # cs) native s =
     (case emit format c s of (failed, s) \<Rightarrow> if failed then (True, s) else generate format cs native s)"

section \<open>A request\<close>

record speech_request =
  rs_model :: string
  rs_input :: runes
  rs_voice :: string
  rs_format :: string
  rs_speed :: "rat option"

text \<open>What the decoder makes of a request, and the float arithmetic of the limit; a run of the native synthesis as the request sees it.\<close>

datatype decoded_speech = NotJson | BadSpeech string | TrailingContent | SpeechInput speech_request

record speech_env =
  se_classes :: unicode
  se_voices :: "string list"
  se_limit :: "rat \<Rightarrow> rat"
  se_chunks :: "runes \<Rightarrow> nat \<Rightarrow> rat \<Rightarrow> speech_chunk list"
  se_native :: bool
  se_end :: gotime

datatype speech_answer = Refused nat string int | Sound string "8 word list" | Broken string "8 word list" | Crashed

definition input_weight :: "unicode \<Rightarrow> runes \<Rightarrow> nat" where
  "input_weight un s = sum_list (map (\<lambda>r. if un_digit un r then 8 else if r < 128 then 1 else 4) s)"

definition bad_format :: "speech_request \<Rightarrow> bool" where
  "bad_format q \<longleftrightarrow> rs_model q \<noteq> [] \<and> rs_model q \<noteq> ''kokoro'' \<or> rs_format q \<noteq> [] \<and> rs_format q \<noteq> ''wav'' \<and> rs_format q \<noteq> ''pcm''"

definition chosen_voice :: "unicode \<Rightarrow> speech_request \<Rightarrow> string" where
  "chosen_voice un q = (if rs_voice q = [] then (if is_chinese un (rs_input q) then ''zf_001'' else ''af_maple'') else rs_voice q)"

fun voice_index :: "string list \<Rightarrow> string \<Rightarrow> nat option" where
  "voice_index [] v = None"
| "voice_index (x # xs) v = (if x = v then Some 0 else map_option Suc (voice_index xs v))"

fun comma_voices :: "string list \<Rightarrow> string" where
  "comma_voices [] = []"
| "comma_voices [v] = v"
| "comma_voices (v # vs) = v @ '', '' @ comma_voices vs"

text \<open>Every check before the batch is asked for: the refusal, or the text, voice and speed; \<open>None\<close> is a panic of the normalisation.\<close>

definition check_speech :: "speech_env \<Rightarrow> speech_request \<Rightarrow> (speech_answer + runes \<times> nat \<times> rat) option" where
  "check_speech en q =
     (let un = se_classes en; speed = (case rs_speed q of None \<Rightarrow> 1 | Some x \<Rightarrow> x); lim = se_limit en speed in
      if list_all (un_space un) (rs_input q) \<or> 0 \<in> set (rs_input q) then Some (Inl (Refused 400 ''input must contain text without NUL'' 0))
      else if bad_format q then Some (Inl (Refused 400 ''model is kokoro; response_format must be wav or pcm'' 0))
      else if speed < 1 / 2 \<or> speed > 2 then Some (Inl (Refused 400 ''speed must be between 0.5 and 2'' 0))
      else case normalize_han un (rs_input q) of None \<Rightarrow> None
        | Some normalized \<Rightarrow>
            if of_nat (max (input_weight un (rs_input q)) (input_weight un normalized)) > lim
            then Some (Inl (Refused 400 (''shorten speech input: limit '' @ itoa (trunc lim)
               @ '' weighted units (ASCII 1, other scripts 4, digits 8), planned for at most 90 seconds'') 0))
            else case voice_index (se_voices en) (chosen_voice un q) of
                None \<Rightarrow> Some (Inl (Refused 400 (''voice must be one of: '' @ comma_voices (se_voices en)) 0))
              | Some v \<Rightarrow> Some (Inr (normalized, v, speed)))"

definition speech :: "speech_env \<Rightarrow> gotime \<Rightarrow> decoded_speech \<Rightarrow> speech_state \<Rightarrow> speech_answer \<times> speech_state" where
  "speech en now d s =
     (case d of
        NotJson \<Rightarrow> (Refused 415 ''Content-Type must be application/json'' 0, s)
      | BadSpeech detail \<Rightarrow> (Refused 400 (''speech JSON: '' @ detail) 0, s)
      | TrailingContent \<Rightarrow> (Refused 400 ''speech JSON has trailing content'' 0, s)
      | SpeechInput q \<Rightarrow>
          (case check_speech en q of
             None \<Rightarrow> (Crashed, s)
           | Some (Inl a) \<Rightarrow> (a, s)
           | Some (Inr (normalized, voice, speed)) \<Rightarrow>
               (case start_or_retry now s of (retry, s) \<Rightarrow>
                  if retry \<noteq> 0 then (Refused 429 ''speech member is busy'' retry, s)
                  else case generate (rs_format q) (se_chunks en normalized voice speed) (se_native en)
                         \<lparr>ss_started = False, ss_samples = 0, ss_type = [], ss_out = [], ss_batch = s\<rparr> of
                    (failed, st) \<Rightarrow>
                      (if \<not> ss_started st then Refused 500 ''speech generation failed'' 0
                       else if failed then Broken (ss_type st) (ss_out st) else Sound (ss_type st) (ss_out st),
                       finish_batch (se_end en) True (ss_batch st)))))"

section \<open>The batch belongs to one request\<close>

text \<open>The requests interleave at the lock: one asks for the batch, writes a chunk, or ends. The second part lists those that hold it.\<close>

inductive speech_step :: "speech_state \<times> nat list \<Rightarrow> speech_state \<times> nat list \<Rightarrow> bool" where
  take: "start_or_retry now s = (0, s') \<Longrightarrow> speech_step (s, hs) (s', i # hs)"
| refuse: "start_or_retry now s = (n, s') \<Longrightarrow> n \<noteq> 0 \<Longrightarrow> speech_step (s, hs) (s', hs)"
| chunk: "i \<in> set hs \<Longrightarrow> speech_step (s, hs) (finish_batch now False s, hs)"
| finish: "i \<in> set hs \<Longrightarrow> speech_step (s, hs) (finish_batch now True s, remove1 i hs)"

inductive_cases speech_stepE: "speech_step (s, hs) (s', hs')"

definition one_holder :: "speech_state \<times> nat list \<Rightarrow> bool" where
  "one_holder = (\<lambda>(s, hs). length hs \<le> 1 \<and> (sp_batch s = None \<longleftrightarrow> hs = []))"

lemma retry_range:
  "sp_batch s \<noteq> None \<Longrightarrow> 1 \<le> fst (start_or_retry now s) \<and> fst (start_or_retry now s) \<le> 30 \<and> snd (start_or_retry now s) = s"
  by (simp add: start_or_retry_def)

lemma step_one_holder:
  assumes "speech_step x y" "one_holder x"
  shows "one_holder y"
  using assms
proof (induction rule: speech_step.induct)
  case (take now s s' hs i)
  then have "sp_batch s = None" using retry_range [of s now] by (cases "sp_batch s") auto
  with take show ?case by (auto simp: one_holder_def start_or_retry_def)
next
  case (refuse now s n s' hs)
  then have "sp_batch s \<noteq> None" by (cases "sp_batch s = None") (auto simp: start_or_retry_def)
  with refuse retry_range [of s now] show ?case by (auto simp: one_holder_def)
next
  case (chunk i hs s now)
  then show ?case by (auto simp: one_holder_def finish_batch_def)
next
  case (finish i hs s now)
  then show ?case by (cases hs) (auto simp: one_holder_def finish_batch_def)
qed

lemma reach_one_holder: "speech_step\<^sup>*\<^sup>* x y \<Longrightarrow> one_holder x \<Longrightarrow> one_holder y"
  by (induction rule: rtranclp_induct) (auto dest: step_one_holder)

text \<open>
  C32. In every interleaving of requests at most one generation holds the voice model, a request is taken exactly when none does, and
  one that is turned away is told to come back in one to thirty seconds.
\<close>

theorem speech_one_at_a_time:
  assumes "speech_step\<^sup>*\<^sup>* (idle_speech, []) (s, hs)"
  shows "length hs \<le> 1 \<and> (fst (start_or_retry now s) = 0 \<longleftrightarrow> hs = []) \<and> 0 \<le> fst (start_or_retry now s) \<and> fst (start_or_retry now s) \<le> 30"
proof -
  have start: "one_holder (idle_speech, [])" by (simp add: one_holder_def idle_speech_def)
  have "one_holder (s, hs)" using assms start by (rule reach_one_holder)
  then have h: "length hs \<le> 1" "sp_batch s = None \<longleftrightarrow> hs = []" by (auto simp: one_holder_def)
  show ?thesis
  proof (cases "sp_batch s")
    case None
    then show ?thesis using h by (simp add: start_or_retry_def)
  next
    case (Some t)
    then show ?thesis using h retry_range [of s now] by auto
  qed
qed

theorem speech_one_at_a_time_witness:
  "\<exists>s. speech_step\<^sup>*\<^sup>* (idle_speech, []) (s, [7]) \<and> 1 \<le> fst (start_or_retry 9 s)"
proof -
  have "speech_step (idle_speech, []) (\<lparr>sp_batch = Some 5, sp_observed = 0\<rparr>, [7])"
    by (rule speech_step.take [of 5]) (simp add: start_or_retry_def idle_speech_def)
  then have r: "speech_step\<^sup>*\<^sup>* (idle_speech, []) (\<lparr>sp_batch = Some 5, sp_observed = 0\<rparr>, [7])" by blast
  from speech_one_at_a_time [OF r, of 9] r show ?thesis by (intro exI conjI) auto
qed

section \<open>The sound of a whole answer\<close>

lemma round_half: "0 \<le> x \<Longrightarrow> x \<le> 32767 \<Longrightarrow> 0 \<le> \<lfloor>x + 1 / 2\<rfloor> \<and> \<lfloor>x + 1 / 2\<rfloor> \<le> 32767" for x :: rat
  by (simp add: le_floor_iff floor_le_iff)

lemma round_away_bound: "- 32767 \<le> x \<Longrightarrow> x \<le> 32767 \<Longrightarrow> - 32767 \<le> round_away x \<and> round_away x \<le> 32767"
proof (cases "x < 0")
  case True
  assume "- 32767 \<le> x"
  with True round_half [of "- x"] show ?thesis unfolding round_away_def if_P [OF True] by linarith
next
  case False
  assume "x \<le> 32767"
  with False round_half [of x] show ?thesis unfolding round_away_def if_not_P [OF False] by linarith
qed

lemma pcm_level_bound: "- 32767 \<le> pcm_level x \<and> pcm_level x \<le> 32767"
  unfolding pcm_level_def by (rule round_away_bound) (auto simp: max_def min_def)

lemma sint_pcm16: "sint (pcm16 x) = pcm_level x"
  using pcm_level_bound [of x] by (simp add: pcm16_def sint_sbintrunc' signed_take_bit_int_eq_self)

lemma le16_length [simp]: "length (le16 w) = 2" by (simp add: le16_def)

lemma pcm_bytes_length [simp]: "length (pcm_bytes xs) = 2 * length xs"
  by (induction xs) (simp_all add: pcm_bytes_def)

lemma pcm_bytes_append [simp]: "pcm_bytes (xs @ ys) = pcm_bytes xs @ pcm_bytes ys" "pcm_bytes [] = []"
  by (simp_all add: pcm_bytes_def)

definition all_samples :: "speech_chunk list \<Rightarrow> rat list" where "all_samples cs = concat (map ck_samples cs)"

definition sound_prefix :: "string \<Rightarrow> 8 word list" where "sound_prefix format = (if format = ''pcm'' then [] else wave_header)"

definition stream_ok :: "string \<Rightarrow> rat list \<Rightarrow> speech_stream \<Rightarrow> bool" where
  "stream_ok format xs s \<longleftrightarrow> ss_samples s = length xs \<and> length xs \<le> max_samples \<and> (ss_started s \<longleftrightarrow> xs \<noteq> [])
     \<and> ss_out s = (if xs = [] then [] else sound_prefix format @ pcm_bytes xs)"

lemma emit_ok: "stream_ok format xs s \<Longrightarrow> emit format c s = (False, s') \<Longrightarrow> stream_ok format (xs @ ck_samples c) s'"
  by (auto simp: emit_def emit_open_def stream_ok_def sound_prefix_def Let_def split: if_splits)

lemma generate_ok: "stream_ok format xs s \<Longrightarrow> generate format cs native s = (False, s') \<Longrightarrow> stream_ok format (xs @ all_samples cs) s'"
proof (induction cs arbitrary: xs s)
  case (Cons c cs)
  obtain failed t where e: "emit format c s = (failed, t)" by (metis surj_pair)
  then have "\<not> failed" "generate format cs native t = (False, s')" using Cons.prems by (auto split: if_splits)
  then show ?case using Cons.IH [OF emit_ok [OF Cons.prems(1)]] e by (simp add: all_samples_def)
qed (simp add: all_samples_def)

text \<open>
  C31. An answer that is given as sound is whole: after the header of its format come two bytes for every sample of every chunk of the
  synthesis, at most 120 seconds of them, each level within the range of a 16-bit sample; whatever the answer, the batch is free again.
\<close>

theorem sound_is_whole:
  assumes "speech en now (SpeechInput q) s = (Sound ct out, s')"
  shows "\<exists>normalized voice speed xs. check_speech en q = Some (Inr (normalized, voice, speed))
     \<and> xs = all_samples (se_chunks en normalized voice speed) \<and> 0 < length xs \<and> length xs \<le> 120 * sample_rate
     \<and> out = sound_prefix (rs_format q) @ pcm_bytes xs \<and> length out = length (sound_prefix (rs_format q)) + 2 * length xs
     \<and> list_all (\<lambda>x. sint (pcm16 x) = pcm_level x) xs \<and> sp_batch s' = None"
proof -
  obtain normalized voice speed where c: "check_speech en q = Some (Inr (normalized, voice, speed))"
    using assms by (auto simp: speech_def check_speech_def Let_def split: option.splits sum.splits prod.splits if_splits)
  obtain retry s1 where st: "start_or_retry now s = (retry, s1)" by (metis surj_pair)
  define s0 where "s0 = \<lparr>ss_started = False, ss_samples = 0, ss_type = [], ss_out = [], ss_batch = s1\<rparr>"
  obtain failed t where g: "generate (rs_format q) (se_chunks en normalized voice speed) (se_native en) s0 = (failed, t)" by (metis surj_pair)
  have t: "ss_started t" "\<not> failed" "out = ss_out t" "s' = finish_batch (se_end en) True (ss_batch t)"
    using assms g by (auto simp: speech_def c st s0_def split: if_splits)
  have "stream_ok (rs_format q) [] s0" by (simp add: s0_def stream_ok_def)
  then have "stream_ok (rs_format q) (all_samples (se_chunks en normalized voice speed)) t" using generate_ok g t(2) by force
  then show ?thesis using t c by (auto simp: stream_ok_def max_samples_def sint_pcm16 list_all_iff finish_batch_def)
qed

definition sample_speech :: speech_env where
  "sample_speech = \<lparr>se_classes = \<lparr>un_han = (\<lambda>_. False), un_digit = ascii_digit, un_letter = (\<lambda>c. 97 \<le> c \<and> c \<le> 122), un_space = (\<lambda>c. c = 32)\<rparr>,
     se_voices = [''af_maple'', ''zf_001''], se_limit = (\<lambda>x. 600 * x),
     se_chunks = (\<lambda>_ _ _. [\<lparr>ck_samples = [1, - 2], ck_alive = True, ck_deadline = True, ck_header = True, ck_write = True, ck_flush = True, ck_now = 6\<rparr>]),
     se_native = True, se_end = 7\<rparr>"

definition sample_words :: speech_request where
  "sample_words = \<lparr>rs_model = [], rs_input = [104, 105], rs_voice = [], rs_format = ''pcm'', rs_speed = None\<rparr>"

theorem sound_is_whole_witness:
  "\<exists>s'. speech sample_speech 5 (SpeechInput sample_words) idle_speech = (Sound ''audio/pcm'' [255, 127, 1, 128], s') \<and> sp_batch s' = None"
proof -
  have c: "check_speech sample_speech sample_words = Some (Inr ([104, 105], 0, 1))"
    by (simp add: check_speech_def Let_def sample_speech_def sample_words_def bad_format_def normalize_han_def input_weight_def ascii_digit_def
        chosen_voice_def is_chinese_def)
  have "pcm_level 1 = 32767" "pcm_level (- 2) = - 32767" by (simp_all add: pcm_level_def round_away_def floor_eq_iff)
  then have b: "pcm_bytes [1, - 2] = [255, 127, 1, 128]" by (simp add: pcm_bytes_def pcm16_def le16_def drop_bit_eq_div)
  have n: "\<exists>s'. speech sample_speech 5 (SpeechInput sample_words) idle_speech = (Sound ''audio/pcm'' [255, 127, 1, 128], s')"
    unfolding speech_def decoded_speech.case c
    by (simp add: start_or_retry_def idle_speech_def)
      (simp add: sample_speech_def sample_words_def emit_def emit_open_def max_samples_def sample_rate_def b)
  then obtain s' where s': "speech sample_speech 5 (SpeechInput sample_words) idle_speech = (Sound ''audio/pcm'' [255, 127, 1, 128], s')" by blast
  from sound_is_whole [OF s'] s' show ?thesis by auto
qed

end
