(* ===== verification/Audio_Duration.thy ===== *)
theory Audio_Duration
  imports Speech
begin

text \<open>
  The length of an uploaded recording, read from its container without decoding it (internal/gateway/audio_duration.go): the data chunks
  of a WAV file or the stream information of a FLAC file. The sums stay far below 64 bits for a file that fits in memory, so the
  numbers are natural numbers; the quotient is a rational.
\<close>

section \<open>Reading the container\<close>

fun le_num :: "string \<Rightarrow> nat" where
  "le_num [] = 0"
| "le_num (c # cs) = byte c + 256 * le_num cs"

definition be_num :: "string \<Rightarrow> nat" where "be_num s = le_num (rev s)"

definition slice :: "nat \<Rightarrow> nat \<Rightarrow> string \<Rightarrow> string" where "slice i j s = take (j - i) (drop i s)"

definition flac_marker :: "string \<Rightarrow> bool" where
  "flac_marker b \<longleftrightarrow> 42 \<le> length b \<and> take 4 b = ''fLaC'' \<and> byte (b ! 4) mod 128 = 0 \<and> byte (b ! 5) = 0 \<and> byte (b ! 6) = 0 \<and> byte (b ! 7) = 34"

text \<open>The sample rate in the upper 20 of the 64 bits, the number of samples in the lower 36.\<close>

definition flac_seconds :: "string \<Rightarrow> rat option" where
  "flac_seconds b =
     (if flac_marker b then
        (let bits = be_num (slice 18 26 b); rate = bits div 2 ^ 44; samples = bits mod 2 ^ 36
         in if rate > 0 \<and> samples > 0 then Some (of_nat samples / of_nat rate) else None)
      else None)"

record wav_state =
  wv_byte_rate :: nat
  wv_align :: nat
  wv_data :: nat

text \<open>A format chunk that is accepted: its byte rate and frame size.\<close>

definition wav_format :: "string \<Rightarrow> (nat \<times> nat) option" where
  "wav_format f =
     (let format = le_num (slice 0 2 f); channels = le_num (slice 2 4 f); rate = le_num (slice 4 8 f);
          bits = le_num (slice 14 16 f); align = le_num (slice 12 14 f); byte_rate = le_num (slice 8 12 f)
      in if format \<noteq> 1 \<and> format \<noteq> 3 \<or> channels = 0 \<or> rate = 0 \<or> bits = 0 \<or> bits mod 8 \<noteq> 0
            \<or> align \<noteq> channels * (bits div 8) \<or> byte_rate \<noteq> rate * align
         then None else Some (byte_rate, align))"

definition wav_chunk :: "string \<Rightarrow> string \<Rightarrow> wav_state \<Rightarrow> wav_state option" where
  "wav_chunk name body w =
     (if name = ''fmt '' then
        (if length body < 16 then None
         else case wav_format body of None \<Rightarrow> None | Some (r, a) \<Rightarrow> Some (w\<lparr>wv_byte_rate := r, wv_align := a\<rparr>))
      else if name = ''data'' then Some (w\<lparr>wv_data := wv_data w + length body\<rparr>)
      else Some w)"

text \<open>The loop over the chunks up to \<open>e\<close>; a chunk of odd length is padded. Each round moves at least eight bytes on.\<close>

function wav_chunks :: "string \<Rightarrow> nat \<Rightarrow> nat \<Rightarrow> wav_state \<Rightarrow> wav_state option" where
  "wav_chunks b e pos w =
     (if pos + 8 \<le> e then
        (let n = le_num (slice (pos + 4) (pos + 8) b); start = pos + 8 in
         if start + n > e then None
         else case wav_chunk (slice pos (pos + 4) b) (slice start (start + n) b) w of
             None \<Rightarrow> None
           | Some w \<Rightarrow> wav_chunks b e (start + n + n mod 2) w)
      else Some w)"
  by pat_completeness auto
termination by (relation "measure (\<lambda>(b, e, pos, w). e - pos)") auto

declare wav_chunks.simps [simp del]

definition no_wav :: wav_state where "no_wav = \<lparr>wv_byte_rate = 0, wv_align = 0, wv_data = 0\<rparr>"

definition wav_seconds :: "string \<Rightarrow> rat option" where
  "wav_seconds b =
     (if length b < 12 \<or> take 4 b \<noteq> ''RIFF'' \<or> slice 8 12 b \<noteq> ''WAVE'' then None
      else let e = le_num (slice 4 8 b) + 8 in
        if e > length b \<or> e < 12 then None
        else case wav_chunks b e 12 no_wav of
            None \<Rightarrow> None
          | Some w \<Rightarrow>
              if wv_byte_rate w = 0 \<or> wv_align w = 0 \<or> wv_data w = 0 \<or> wv_data w mod wv_align w \<noteq> 0 then None
              else Some (of_nat (wv_data w) / of_nat (wv_byte_rate w)))"

definition container_seconds :: "string \<Rightarrow> rat option" where
  "container_seconds b = (case flac_seconds b of Some t \<Rightarrow> Some t | None \<Rightarrow> wav_seconds b)"

section \<open>Bounds\<close>

lemma slice_length [simp]: "length (slice i j s) = min (j - i) (length s - i)"
  by (simp add: slice_def)

lemma wav_chunks_data: "wav_chunks b e pos w = Some w' \<Longrightarrow> pos \<le> e \<Longrightarrow> wv_data w' \<le> wv_data w + (e - pos)"
proof (induction b e pos w rule: wav_chunks.induct)
  case (1 b e pos w)
  show ?case
  proof (cases "pos + 8 \<le> e")
    case False
    then show ?thesis using 1(2) by (subst (asm) wav_chunks.simps) simp
  next
    case True
    define n where "n = le_num (slice (pos + 4) (pos + 8) b)"
    obtain v where v: "pos + 8 + n \<le> e" "wav_chunk (slice pos (pos + 4) b) (slice (pos + 8) (pos + 8 + n) b) w = Some v"
      "wav_chunks b e (pos + 8 + n + n mod 2) v = Some w'"
      using 1(2) True by (subst (asm) wav_chunks.simps) (auto simp: Let_def n_def split: if_splits option.splits)
    have d: "wv_data v \<le> wv_data w + n" using v(2) by (auto simp: wav_chunk_def split: if_splits option.splits)
    show ?thesis
    proof (cases "pos + 8 + n + n mod 2 \<le> e")
      case le: True
      have "wv_data w' \<le> wv_data v + (e - (pos + 8 + n + n mod 2))"
        using 1(1) [OF True n_def refl _ v(2) v(3) le] v(1) by simp
      then show ?thesis using d v(1) le by simp
    next
      case False
      then have "w' = v" using v(3) by (subst (asm) wav_chunks.simps) simp
      then show ?thesis using d v(1) by simp
    qed
  qed
qed

text \<open>
  A recording that is measured at all has a positive length, and a WAV file no more seconds than it has bytes, whatever numbers its
  chunks hold: the loop over them ends, reads nothing past the end, and counts no byte twice.
\<close>

theorem duration_bounded:
  assumes "container_seconds b = Some t"
  shows "0 < t \<and> (flac_seconds b = None \<longrightarrow> t \<le> of_nat (length b))"
proof (cases "flac_seconds b")
  case (Some u)
  then show ?thesis using assms by (auto simp: container_seconds_def flac_seconds_def Let_def split: if_splits)
next
  case None
  define e where "e = le_num (slice 4 8 b) + 8"
  have "wav_seconds b = Some t" using assms None by (simp add: container_seconds_def)
  then obtain w where w: "wav_chunks b e 12 no_wav = Some w" "12 \<le> e" "e \<le> length b" "0 < wv_byte_rate w" "0 < wv_data w"
    "t = of_nat (wv_data w) / of_nat (wv_byte_rate w)"
    by (auto simp: wav_seconds_def Let_def e_def split: if_splits option.splits)
  have d: "wv_data w \<le> length b" using wav_chunks_data [OF w(1,2)] w(2,3) by (simp add: no_wav_def)
  have "t \<le> of_nat (wv_data w)" using w(4) by (simp add: w(6) divide_le_eq mult_le_cancel_left1)
  then show ?thesis using d w(4-6) by (auto intro: order_trans)
qed

section \<open>A file that is written is measured\<close>

fun le_text :: "nat \<Rightarrow> nat \<Rightarrow> string" where
  "le_text 0 x = []"
| "le_text (Suc n) x = char_of (x mod 256) # le_text n (x div 256)"

lemma le_text_length [simp]: "length (le_text n x) = n"
  by (induction n arbitrary: x) simp_all

lemma le_num_text: "x < 256 ^ n \<Longrightarrow> le_num (le_text n x) = x"
proof (induction n arbitrary: x)
  case (Suc n)
  then have "x div 256 < 256 ^ n" by (simp add: less_mult_imp_div_less mult.commute)
  then show ?case using Suc.IH [of "x div 256"] by (simp add: byte_def)
qed simp

text \<open>A canonical file: the format chunk and one data chunk.\<close>

definition wav_file :: "nat \<Rightarrow> nat \<Rightarrow> nat \<Rightarrow> string \<Rightarrow> string" where
  "wav_file rate channels bits pcm =
     (let align = channels * (bits div 8) in
      (''RIFF'' @ le_text 4 (36 + length pcm) @ ''WAVE'') @ (''fmt '' @ le_text 4 16)
      @ (le_text 2 1 @ le_text 2 channels @ le_text 4 rate @ le_text 4 (rate * align) @ le_text 2 align @ le_text 2 bits)
      @ (''data'' @ le_text 4 (length pcm)) @ pcm)"

lemma slice_first: "length a = k \<Longrightarrow> slice 0 k (a @ s) = a"
  by (simp add: slice_def)

lemma slice_after: "length a = k \<Longrightarrow> slice (k + i) (k + j) (a @ s) = slice i j s"
  by (simp add: slice_def)

lemma slice_inner: "length a = k \<Longrightarrow> j \<le> k \<Longrightarrow> slice i j (a @ s) = slice i j a"
  by (simp add: slice_def)

lemma wav_measured:
  assumes "0 < rate" "0 < channels" "channels < 65536" "bits \<in> {8, 16, 24, 32}" "channels * (bits div 8) < 65536"
    and "rate * (channels * (bits div 8)) < 4294967296" and "pcm \<noteq> []" "length pcm + 36 < 4294967296"
    and "length pcm mod (channels * (bits div 8)) = 0"
  shows "container_seconds (wav_file rate channels bits pcm) = Some (of_nat (length pcm) / of_nat (rate * (channels * (bits div 8))))"
proof -
  define align where "align = channels * (bits div 8)"
  define h where "h = ''RIFF'' @ le_text 4 (36 + length pcm) @ ''WAVE''"
  define c1 where "c1 = ''fmt '' @ le_text 4 16"
  define f where "f = le_text 2 1 @ le_text 2 channels @ le_text 4 rate @ le_text 4 (rate * align) @ le_text 2 align @ le_text 2 bits"
  define c2 where "c2 = ''data'' @ le_text 4 (length pcm)"
  define b where "b = h @ c1 @ f @ c2 @ pcm"
  have b: "wav_file rate channels bits pcm = b"
    unfolding wav_file_def Let_def align_def [symmetric] b_def h_def c1_def f_def c2_def by simp
  have len: "length h = 12" "length c1 = 8" "length f = 16" "length c2 = 8" by (simp_all add: h_def c1_def f_def c2_def)
  have bl: "length b = 44 + length pcm" by (simp add: b_def len)
  have al: "0 < align" "align < 65536" using assms(2,4,5) by (auto simp: align_def)
  have "rate * 1 \<le> rate * align" using al by (intro mult_le_mono2) simp
  then have "rate \<le> rate * align" by simp
  then have rt: "rate < 4294967296" using assms(6) unfolding align_def by linarith
  have fm: "wav_format f = Some (rate * align, align)"
  proof -
    have parts: "slice 0 2 f = le_text 2 1" "slice 2 4 f = le_text 2 channels" "slice 4 8 f = le_text 4 rate"
      "slice 8 12 f = le_text 4 (rate * align)" "slice 12 14 f = le_text 2 align" "slice 14 16 f = le_text 2 bits"
      by (simp_all add: f_def slice_def)
    show ?thesis unfolding wav_format_def Let_def parts
      using assms rt al by (auto simp: le_num_text align_def)
  qed
  define e where "e = 44 + length pcm"
  have sl: "slice 12 16 b = ''fmt ''" "slice 16 20 b = le_text 4 16" "slice 20 36 b = f" "slice 36 40 b = ''data''"
    "slice 40 44 b = le_text 4 (length pcm)" "slice 44 (44 + length pcm) b = pcm" "slice 4 8 b = le_text 4 (36 + length pcm)"
    "take 4 b = ''RIFF''" "slice 8 12 b = ''WAVE''"
    by (simp_all add: b_def slice_def len c1_def c2_def h_def)
  have nm: "le_num (le_text 4 16) = 16" "le_num (le_text 4 (length pcm)) = length pcm" "le_num (le_text 4 (36 + length pcm)) = 36 + length pcm"
    using assms(8) by (simp_all add: le_num_text)
  define w1 where "w1 = no_wav\<lparr>wv_byte_rate := rate * align, wv_align := align\<rparr>"
  define w2 where "w2 = w1\<lparr>wv_data := length pcm\<rparr>"
  have ck: "wav_chunk ''fmt '' f no_wav = Some w1" "wav_chunk ''data'' pcm w1 = Some w2"
    by (simp_all add: wav_chunk_def fm w1_def w2_def len no_wav_def)
  have fin: "wav_chunks b e (44 + length pcm + length pcm mod 2) w2 = Some w2" by (subst wav_chunks.simps) (simp add: e_def)
  have two: "wav_chunks b e 36 w1 = Some w2" by (subst wav_chunks.simps) (simp add: Let_def sl nm ck fin, simp add: e_def)
  have "wav_chunks b e 12 no_wav = Some w2" by (subst wav_chunks.simps) (simp add: Let_def sl nm ck two, simp add: e_def)
  then have "wav_seconds b = Some (of_nat (length pcm) / of_nat (rate * align))"
    using assms(1,7,9) al by (simp add: wav_seconds_def bl sl nm Let_def e_def [symmetric] w2_def w1_def align_def [symmetric])
      (simp add: e_def w2_def w1_def add.commute)
  moreover have "flac_seconds b = None" using sl(8) by (simp add: flac_seconds_def flac_marker_def)
  ultimately show ?thesis unfolding b by (simp add: container_seconds_def align_def)
qed

text \<open>
  C36. The length of a recording is what was recorded: a WAV file of whole frames, written with any rate, number of channels and sample
  width that its header can hold, is measured as its number of bytes over its bytes per second.
\<close>

theorem wav_duration_exact:
  assumes "0 < rate" "0 < channels" "channels < 65536" "bits \<in> {8, 16, 24, 32}" "channels * (bits div 8) < 65536"
    and "rate * (channels * (bits div 8)) < 4294967296" and "pcm \<noteq> []" "length pcm + 36 < 4294967296"
    and "length pcm mod (channels * (bits div 8)) = 0"
  shows "container_seconds (wav_file rate channels bits pcm) = Some (of_nat (length pcm) / of_nat (rate * (channels * (bits div 8))))"
  using assms by (rule wav_measured)

theorem wav_duration_exact_witness:
  "container_seconds (wav_file 8000 2 16 ''abcdefgh'') = Some (8 / 32000)"
  using wav_duration_exact [of 8000 2 16 "''abcdefgh''"] by simp

theorem duration_bounded_witness:
  "container_seconds (wav_file 8000 1 8 ''ab'') = Some (2 / 8000) \<and> (0 :: rat) < 2 / 8000"
proof -
  have m: "container_seconds (wav_file 8000 1 8 ''ab'') = Some (2 / 8000)" using wav_measured [of 8000 1 8 "''ab''"] by simp
  from duration_bounded [OF m] m show ?thesis by simp
qed

text \<open>The sound the speech member streams names no length, so as an upload it is unmeasured.\<close>

lemma stream_unmeasured:
  assumes "length pcm < 4000000000"
  shows "container_seconds (map (\<lambda>w. char_of (unat w)) wave_header @ pcm) = None"
proof -
  let ?b = "map (\<lambda>w. char_of (unat w)) wave_header @ pcm"
  have h: "take 4 ?b = ''RIFF''" "slice 4 8 ?b = [CHR 0xFF, CHR 0xFF, CHR 0xFF, CHR 0xFF]" "length ?b = 44 + length pcm"
    by (simp_all add: wave_header_def ascii_bytes_def le32_def le16_def slice_def char_of_def bit_Suc_0_iff bit_0)
  have "le_num (slice 4 8 ?b) = 4294967295" unfolding h(2) by (simp add: byte_def)
  then show ?thesis using assms h by (simp add: container_seconds_def flac_seconds_def flac_marker_def wav_seconds_def Let_def)
qed

end
