(* ===== verification/Audio_Request.thy ===== *)
theory Audio_Request
  imports Audio_Duration Pipeline_Safety Utf8
begin

text \<open>
  The audio routes (internal/gateway/audio.go): the stages of a transcription or speech request, from the managed member to the relay
  of the engine's answer, over the same request record, ledger, queue and exit as the text pipeline. Reading the multipart body, the JSON
  decoders and the dates of \<open>Retry-After\<close> are parameters; a speech input is decoded from UTF-8 here.
\<close>

section \<open>Characters\<close>

text \<open>A Go string read rune by rune: a byte that starts no character counts as one replacement character.\<close>

definition rune_value :: "string \<Rightarrow> rune" where
  "rune_value cs =
     (case map byte cs of
        [a] \<Rightarrow> a
      | [a, b] \<Rightarrow> (a mod 32) * 64 + b mod 64
      | [a, b, c] \<Rightarrow> ((a mod 16) * 64 + b mod 64) * 64 + c mod 64
      | [a, b, c, d] \<Rightarrow> (((a mod 8) * 64 + b mod 64) * 64 + c mod 64) * 64 + d mod 64
      | _ \<Rightarrow> 65533)"

function runes_of :: "string \<Rightarrow> runes" where
  "runes_of [] = []"
| "runes_of (c # cs) =
     (let n = utf8_width c in
      if n > 0 \<and> char_ok (take n (c # cs)) then rune_value (take n (c # cs)) # runes_of (drop n (c # cs))
      else 65533 # runes_of cs)"
  by pat_completeness auto
termination by (relation "measure length") auto

section \<open>What is outside\<close>

record audio_part =
  ap_name :: string
  ap_header :: string
  ap_data :: string

text \<open>How the parts of a body end: after the last one, with a part that cannot be read, or with a field that cannot.\<close>

datatype multipart_end = PartsDone | PartBroken | FieldBroken
datatype multipart_reply = NotMultipart | Multipart "audio_part list" multipart_end

text \<open>What the engine is sent.\<close>

datatype audio_payload = SpeechBody jobject | AudioForm "audio_part list"

record audio_env =
  ah_history_down :: bool
  ah_max_seconds :: rat
  ah_voices :: "string \<Rightarrow> string"
  ah_classes :: unicode
  ah_g3 :: "rat \<Rightarrow> string"
  ah_parts :: "string \<Rightarrow> multipart_reply"
  ah_measured :: "string \<Rightarrow> rat option"
  ah_text :: "string \<Rightarrow> string option"
  ah_retry_after :: string
  ah_retry_date :: "string \<Rightarrow> duration option"
  ah_disposition :: string
  ah_length :: string
  ah_pieces :: "string \<Rightarrow> string list"
  ah_partial :: "nat \<Rightarrow> bool"

definition new_audio :: audio_request where
  "new_audio = \<lparr>au_dispatched = False, au_measured = False, au_busy = False, au_delivered = False, au_client_cut = False,
     au_speech_charged = 0, au_duration = None, au_chars = 0, au_response_format = []\<rparr>"

definition edit_audio :: "(audio_request \<Rightarrow> audio_request) \<Rightarrow> request \<Rightarrow> request" where
  "edit_audio f q = q\<lparr>rq_audio := map_option f (rq_audio q)\<rparr>"

section \<open>Health and models\<close>

definition destination_info :: "env \<Rightarrow> request \<Rightarrow> engine_info option" where
  "destination_info en q = map_option (\<lambda>d. en_infos en (ds_id d)) (rq_destination q)"

definition audio_health :: "audio_env \<Rightarrow> env \<Rightarrow> stage" where
  "audio_health ax en = (\<lambda>(q, g).
     if ah_history_down ax then (Some (errf CodeUpstreamDown 1 ''the host's audio usage history is unavailable'' []), q, g)
     else case destination_info en q of
         None \<Rightarrow> (None, q, g)
       | Some info \<Rightarrow>
           if \<not> ei_healthy info
           then (Some (errf CodeUpstreamDown retry_after_upstream_down ''the host's audio engine is not answering'' []), q, g)
           else (None, q, g))"

text \<open>\<open>selectAudioModel\<close> on the request's destination.\<close>

definition request_audio_model :: "env \<Rightarrow> request \<Rightarrow> string \<Rightarrow> string" where
  "request_audio_model en q requested =
     (case (rq_destination q, destination_info en q) of
        (Some d, Some info) \<Rightarrow> select_audio_model info (ds_model d) requested
      | _ \<Rightarrow> [])"

section \<open>Reading the body\<close>

definition transcribe_limit :: int where "transcribe_limit = 26214400"

definition audio_limit_of :: "host \<Rightarrow> request \<Rightarrow> int" where
  "audio_limit_of hs q = (if rq_kind q = transcribe_endpoint then transcribe_limit else hs_max_body hs)"

definition body_exceeds :: "int \<Rightarrow> gw_error" where
  "body_exceeds n = errf CodeBodyTooLarge 0 ''request body exceeds %d bytes'' [FInt n]"

definition bad_audio :: "string \<Rightarrow> gw_error" where "bad_audio msg = errf CodeInvalidRequest 0 msg []"

text \<open>A speech body: the model is settled, a voice is filled in by the script of the input when none is named.\<close>

definition speech_voice :: "audio_env \<Rightarrow> string \<Rightarrow> string" where
  "speech_voice ax input =
     (let v = ah_voices ax (if is_chinese (ah_classes ax) (runes_of input) then ''zh'' else ''en'')
      in if v = [] then ah_voices ax ''default'' else v)"

definition read_speech :: "audio_env \<Rightarrow> env \<Rightarrow> string \<Rightarrow> request \<Rightarrow> (gw_error + string \<times> audio_payload) \<times> request" where
  "read_speech ax en raw q =
     (case en_decode en raw of
        None \<Rightarrow> (Inl (bad_audio ''speech body must be a JSON object''), q)
      | Some body \<Rightarrow>
          (let model = request_audio_model en q (as_string (jget body ''model''));
               body = jset ''model'' (JStr model) body
           in case jget body ''input'' of
                Some (JStr input) \<Rightarrow>
                  if input = [] then (Inl (bad_audio ''speech input must be a nonempty string''), q)
                  else
                    (let voice = speech_voice ax input;
                         body = (if jget body ''voice'' = None \<and> voice \<noteq> [] then jset ''voice'' (JStr voice) body else body)
                     in (Inr (model, SpeechBody body), edit_audio (\<lambda>a. a\<lparr>au_chars := int (length (runes_of input))\<rparr>) q))
              | _ \<Rightarrow> (Inl (bad_audio ''speech input must be a nonempty string''), q)))"

text \<open>The scan over the parts of a transcription: each of the three fields at most once, the file measured as it comes.\<close>

record part_scan =
  pc_file :: bool
  pc_model :: "string option"
  pc_format :: "string option"
  pc_measured :: bool
  pc_seconds :: "rat option"

definition no_parts :: part_scan where
  "no_parts = \<lparr>pc_file = False, pc_model = None, pc_format = None, pc_measured = False, pc_seconds = None\<rparr>"

definition scan_file :: "audio_env \<Rightarrow> string \<Rightarrow> part_scan \<Rightarrow> gw_error option \<times> part_scan" where
  "scan_file ax file_data s =
     (if pc_file s \<or> file_data = [] then (Some (bad_audio ''exactly one nonempty audio file is required''), s)
      else
        (let known = container_seconds file_data;
             s = s\<lparr>pc_file := True, pc_measured := (known \<noteq> None)\<rparr>;
             secs = (case known of Some t \<Rightarrow> t | None \<Rightarrow> ah_max_seconds ax)
         in if secs > ah_max_seconds ax then
              (Some (errf CodeInvalidRequest 0 ''audio duration exceeds the host's %s second per-request ceiling''
                 [FStr (ah_g3 ax (ah_max_seconds ax))]), s)
            else (None, s\<lparr>pc_seconds := Some secs\<rparr>)))"

definition scan_part :: "audio_env \<Rightarrow> audio_part \<Rightarrow> part_scan \<Rightarrow> gw_error option \<times> part_scan" where
  "scan_part ax p s =
     (if ap_name p = ''response_format'' then
        (if pc_format s \<noteq> None then (Some (bad_audio ''duplicate response_format field''), s)
         else (None, s\<lparr>pc_format := Some (ap_data p)\<rparr>))
      else if ap_name p = ''model'' then
        (if pc_model s \<noteq> None then (Some (bad_audio ''duplicate model field''), s) else (None, s\<lparr>pc_model := Some (ap_data p)\<rparr>))
      else if ap_name p = ''file'' then scan_file ax (ap_data p) s
      else (None, s))"

fun scan_parts :: "audio_env \<Rightarrow> audio_part list \<Rightarrow> multipart_end \<Rightarrow> part_scan \<Rightarrow> gw_error option \<times> part_scan" where
  "scan_parts ax [] PartsDone s = (None, s)"
| "scan_parts ax [] PartBroken s = (Some (bad_audio ''invalid multipart audio body''), s)"
| "scan_parts ax [] FieldBroken s = (Some (bad_audio ''invalid multipart audio field''), s)"
| "scan_parts ax (p # ps) e s =
     (case scan_part ax p s of (Some err, s) \<Rightarrow> (Some err, s) | (None, s) \<Rightarrow> scan_parts ax ps e s)"

definition text_of :: "string option \<Rightarrow> string" where "text_of x = (case x of Some s \<Rightarrow> s | None \<Rightarrow> [])"

text \<open>What the scan leaves on the request, also when it failed.\<close>

definition note_scan :: "part_scan \<Rightarrow> request \<Rightarrow> request" where
  "note_scan s q =
     (let q = edit_audio (\<lambda>a. a\<lparr>au_response_format := text_of (pc_format s), au_measured := pc_measured s\<rparr>) q
      in case pc_seconds s of Some t \<Rightarrow> q\<lparr>rq_ev := (rq_ev q)\<lparr>ev_reserved_seconds := t\<rparr>\<rparr> | None \<Rightarrow> q)"

definition field_part :: "string \<Rightarrow> string \<Rightarrow> audio_part" where "field_part name v = \<lparr>ap_name = name, ap_header = [], ap_data = v\<rparr>"

text \<open>The form is rebuilt with the model chosen and a format that reports the duration.\<close>

definition rebuilt_form :: "string \<Rightarrow> string \<Rightarrow> audio_part list \<Rightarrow> audio_part list" where
  "rebuilt_form model format ps =
     filter (\<lambda>p. ap_name p \<noteq> ''model'' \<and> ap_name p \<noteq> ''response_format'') ps
     @ [field_part ''model'' model, field_part ''response_format'' (if format = [] \<or> format = ''json'' then ''verbose_json'' else format)]"

definition read_transcription :: "audio_env \<Rightarrow> env \<Rightarrow> string \<Rightarrow> request \<Rightarrow> (gw_error + string \<times> audio_payload) \<times> request" where
  "read_transcription ax en raw q =
     (case ah_parts ax raw of
        NotMultipart \<Rightarrow> (Inl (bad_audio ''transcription requires multipart/form-data''), q)
      | Multipart ps e \<Rightarrow>
          (case scan_parts ax ps e no_parts of (err, s) \<Rightarrow>
             (let q = note_scan s q in
              case err of
                Some x \<Rightarrow> (Inl x, q)
              | None \<Rightarrow>
                  if \<not> pc_file s then (Inl (bad_audio ''audio file is required''), q)
                  else (let model = request_audio_model en q (text_of (pc_model s))
                        in (Inr (model, AudioForm (rebuilt_form model (text_of (pc_format s)) ps)), q)))))"

text \<open>\<open>readAudio\<close>, with what the engine will be sent.\<close>

definition read_audio_body :: "audio_env \<Rightarrow> host \<Rightarrow> env \<Rightarrow> string \<Rightarrow> request \<Rightarrow> (gw_error + audio_payload) \<times> request" where
  "read_audio_body ax hs en raw q =
     (case (if rq_kind q = speech_endpoint then read_speech ax en raw q else read_transcription ax en raw q) of
        (Inl e, q) \<Rightarrow> (Inl e, q)
      | (Inr (model, payload), q) \<Rightarrow>
          if model = [] then (Inl (errf CodeUpstreamDown retry_after_upstream_down ''the host has no audio model configured or reported'' []), q)
          else (case resolve_destination hs model q of
                  (Some e, q) \<Rightarrow> (Inl e, q)
                | (None, q) \<Rightarrow> (Inr payload, q\<lparr>rq_ev := (rq_ev q)\<lparr>ev_model := model\<rparr>\<rparr>)))"

definition read_audio :: "audio_env \<Rightarrow> host \<Rightarrow> env \<Rightarrow> request \<times> gateway \<Rightarrow> (gw_error + audio_payload) \<times> request \<times> gateway" where
  "read_audio ax hs en = (\<lambda>(q, g).
     if en_content_length en > audio_limit_of hs q then (Inl (body_exceeds (audio_limit_of hs q)), q, g)
     else
       (let q = q\<lparr>rq_buffered := True\<rparr>; g = g\<lparr>gw_bodies := gw_bodies g + 1\<rparr> in
        case en_body en of
          BodyTooLarge \<Rightarrow> (Inl (body_exceeds (audio_limit_of hs q)), q, g)
        | BodyDeadline \<Rightarrow> (Inl (bad_audio ''audio body was not received completely''), q\<lparr>rq_stalled := True\<rparr>, g)
        | BodyFailed msg \<Rightarrow> (Inl (bad_audio ''audio body was not received completely''), q, g)
        | BodyRead raw \<Rightarrow> (case read_audio_body ax hs en raw q of (r, q) \<Rightarrow> (r, q, g))))"

definition read_audio_stage :: "audio_env \<Rightarrow> host \<Rightarrow> env \<Rightarrow> stage" where
  "read_audio_stage ax hs en s =
     (case read_audio ax hs en s of (Inl e, s) \<Rightarrow> (Some e, s) | (Inr payload, s) \<Rightarrow> (None, s))"

section \<open>The ledger and the engine\<close>

definition reserve_audio :: "audio_env \<Rightarrow> env \<Rightarrow> stage" where
  "reserve_audio ax en = (\<lambda>(q, g).
     case (rq_key q, rq_adm q, rq_audio q) of
       (Some k, Some a, Some au) \<Rightarrow>
         (case key_reserve_audio (ah_g3 ax) (en_reserve_t en) (k_limits k) (rq_kind q = transcribe_endpoint)
                 (ev_reserved_seconds (rq_ev q)) (au_chars au) a (key_state_of (gw_limiter g) (k_id k)) of
            (err, a, st) \<Rightarrow> (err, q\<lparr>rq_adm := Some a\<rparr>, g\<lparr>gw_limiter := (gw_limiter g)(k_id k \<mapsto> st)\<rparr>))
     | _ \<Rightarrow> (None, q, g))"

text \<open>The request counts as dispatched once its headers were written.\<close>

definition call_audio :: "host \<Rightarrow> env \<Rightarrow> stage" where
  "call_audio hs en = (\<lambda>(q, g).
     case en_engine en of
       EngineFailed sent timed_out \<Rightarrow>
         (Some (upstream_err (en_gone_engine en) False (hs_idle_timeout hs) timed_out),
          (edit_audio (\<lambda>a. a\<lparr>au_dispatched := sent\<rparr>) q)\<lparr>rq_outcome := (if en_gone_engine en then OutcomeCut else OutcomeEngineErr)\<rparr>, g)
     | EngineReplied sent resp \<Rightarrow> (None, edit_audio (\<lambda>a. a\<lparr>au_dispatched := sent\<rparr>) q, g))"

section \<open>The relay\<close>

text \<open>\<open>strconv.Atoi\<close> without its error: nothing for a text that is no number, the end of the range for one that is too large.\<close>

definition atoi_value :: "string \<Rightarrow> int" where
  "atoi_value s =
     (let neg = (case s of c # _ \<Rightarrow> c = CHR ''-'' | [] \<Rightarrow> False);
          ds = (case s of c # r \<Rightarrow> if c = CHR ''-'' \<or> c = CHR ''+'' then r else s | [] \<Rightarrow> []);
          v = (if neg then - int (digits_value ds) else int (digits_value ds))
      in if ds \<noteq> [] \<and> list_all is_digit ds then max min_int64 (min max_int64 v) else 0)"

definition busy_retry :: "audio_env \<Rightarrow> int" where
  "busy_retry ax =
     max 0 (case ah_retry_date ax (ah_retry_after ax) of
              Some d \<Rightarrow> max 1 (ceil_seconds d)
            | None \<Rightarrow> atoi_value (ah_retry_after ax))"

definition head_field :: "string \<Rightarrow> string \<Rightarrow> writer \<Rightarrow> writer" where
  "head_field name v w = (if v = [] then w else set_header name v w)"

definition audio_head :: "string \<Rightarrow> string \<Rightarrow> string \<Rightarrow> int \<Rightarrow> request \<Rightarrow> request" where
  "audio_head ctype disposition len status q =
     write_header status
       (q\<lparr>rq_writer := head_field ''Content-Length'' len (head_field ''Content-Disposition'' disposition (head_field ''Content-Type'' ctype (rq_writer q)))\<rparr>)"

text \<open>The engine's own measure of the recording, of a JSON answer.\<close>

definition json_format :: "string \<Rightarrow> bool" where "json_format f \<longleftrightarrow> f = [] \<or> f = ''json'' \<or> f = ''verbose_json''"

definition note_duration :: "audio_env \<Rightarrow> string \<Rightarrow> audio_request \<Rightarrow> audio_request" where
  "note_duration ax raw a =
     (case ah_measured ax raw of
        Some t \<Rightarrow> if json_format (au_response_format a) \<and> t \<ge> 0 then a\<lparr>au_duration := Some t\<rparr> else a
      | None \<Rightarrow> a)"

definition engine_refusal :: "audio_env \<Rightarrow> env \<Rightarrow> engine_response \<Rightarrow> string \<Rightarrow> request \<Rightarrow> gw_error \<times> request" where
  "engine_refusal ax en resp raw q =
     (let q = q\<lparr>rq_outcome := OutcomeEngineErr\<rparr>; msg = fst (upstream_message (en_decode_error en) raw) in
      if er_status resp = 429 then
        (errf CodeUpstreamDown (busy_retry ax) ''the host's audio engine is busy: %s'' [FStr msg], edit_audio (\<lambda>a. a\<lparr>au_busy := True\<rparr>) q)
      else if er_status resp = 400 \<or> er_status resp = 422 then
        (errf CodeInvalidRequest 0 ''the host's audio engine rejected this request (HTTP %d): %s'' [FInt (er_status resp), FStr msg], q)
      else (errf CodeUpstreamError 0 ''audio engine returned HTTP %d: %s'' [FInt (er_status resp), FStr msg], q))"

definition send_answer :: "env \<Rightarrow> piece \<Rightarrow> request \<Rightarrow> gw_error option \<times> request" where
  "send_answer en p q =
     (let q = mark_ttft (en_first_t en) q in
      if fst (snd (en_io en 0)) then (None, q\<lparr>rq_writer := write_piece p (rq_writer q)\<rparr>)
      else (Some (errf CodeClientClosed 0 ''client went away'' []), q\<lparr>rq_outcome := OutcomeCut\<rparr>))"

text \<open>A transcription, and any refusal of the engine, is read whole before the friend sees a byte.\<close>

definition relay_whole :: "audio_env \<Rightarrow> env \<Rightarrow> engine_response \<Rightarrow> request \<Rightarrow> gw_error option \<times> request" where
  "relay_whole ax en resp q =
     (let (raw, failed) = read_limited (max_upstream_body + 1) resp in
      if failed \<noteq> None \<or> length raw > max_upstream_body then
        (Some (errf CodeUpstreamError 0 ''audio engine response was incomplete or too large'' []), q\<lparr>rq_outcome := OutcomeCut\<rparr>)
      else
        (let q = edit_audio (note_duration ax raw) q;
             format = (case rq_audio q of Some a \<Rightarrow> au_response_format a | None \<Rightarrow> []) in
         if er_status resp div 100 \<noteq> 2 then (let (e, q) = engine_refusal ax en resp raw q in (Some e, q))
         else if format = [] \<or> format = ''json'' then
           (case ah_text ax raw of
              None \<Rightarrow> (Some (errf CodeUpstreamError 0 ''audio engine returned invalid transcription JSON'' []), q\<lparr>rq_outcome := OutcomeEngineErr\<rparr>)
            | Some t \<Rightarrow>
                (let v = JObj [(''text'', JStr t)] in
                 send_answer en (PJson v)
                   (audio_head ''application/json'' (ah_disposition ax) (itoa (int (en_encoded_length en v))) (er_status resp) q)))
         else send_answer en (PText raw) (audio_head (er_content_type resp) (ah_disposition ax) (ah_length ax) (er_status resp) q)))"

text \<open>Speech is copied as it comes; whether the friend got any of it decides what is charged.\<close>

fun relay_pieces :: "friend_io \<Rightarrow> (nat \<Rightarrow> bool) \<Rightarrow> nat \<Rightarrow> string list \<Rightarrow> request \<Rightarrow> bool \<times> request" where
  "relay_pieces io part i [] q = (False, q)"
| "relay_pieces io part i (p # ps) q =
     (if p = [] then relay_pieces io part (i + 1) ps q
      else
        (let (now, writes, flushes) = io i; q = mark_ttft now q in
         if \<not> writes then (True, edit_audio (\<lambda>a. a\<lparr>au_delivered := au_delivered a \<or> part i\<rparr>) q)
         else
           (let q = edit_audio (\<lambda>a. a\<lparr>au_delivered := True\<rparr>) (q\<lparr>rq_writer := write_piece (PText p) (rq_writer q)\<rparr>) in
            if \<not> flushes then (True, q) else relay_pieces io part (i + 1) ps q)))"

definition relay_sound :: "audio_env \<Rightarrow> host \<Rightarrow> env \<Rightarrow> engine_response \<Rightarrow> request \<Rightarrow> gw_error option \<times> request" where
  "relay_sound ax hs en resp q =
     (let q = audio_head (er_content_type resp) (ah_disposition ax) (ah_length ax) (er_status resp) q;
          (lost, q) = relay_pieces (en_io en) (ah_partial ax) 0 (ah_pieces ax (er_body resp)) q in
      if lost then
        (Some (errf CodeClientClosed 0 ''client went away'' []), (edit_audio (\<lambda>a. a\<lparr>au_client_cut := True\<rparr>) q)\<lparr>rq_outcome := OutcomeCut\<rparr>)
      else case er_end resp of
          StreamEof \<Rightarrow> (None, q)
        | StreamError idle timed_out \<Rightarrow>
            (Some (upstream_err (en_gone_relay en) idle (hs_idle_timeout hs) timed_out),
             (edit_audio (\<lambda>a. a\<lparr>au_client_cut := en_gone_relay en \<and> \<not> idle\<rparr>) q)\<lparr>rq_outcome := OutcomeCut\<rparr>))"

definition relay_audio :: "audio_env \<Rightarrow> host \<Rightarrow> env \<Rightarrow> stage" where
  "relay_audio ax hs en = (\<lambda>(q, g).
     case en_engine en of
       EngineFailed sent timed_out \<Rightarrow> (None, q, g)
     | EngineReplied sent resp \<Rightarrow>
         (let (err, q) =
            (if rq_kind q = transcribe_endpoint \<or> er_status resp div 100 \<noteq> 2 then relay_whole ax en resp q
             else relay_sound ax hs en resp q)
          in (err, q, g)))"

section \<open>The handler\<close>

definition audio_stages :: "audio_env \<Rightarrow> host \<Rightarrow> env \<Rightarrow> stage list" where
  "audio_stages ax hs en =
     [prepare_managed en, audio_health ax en, admit_key en, read_audio_stage ax hs en, reserve_audio ax en,
      acquire_slot hs en, call_audio hs en, relay_audio ax hs en]"

definition audio_kind :: "string \<Rightarrow> string" where
  "audio_kind kind = (if kind = speech_endpoint then ''speech'' else ''transcription'')"

definition proxy_audio :: "audio_env \<Rightarrow> host \<Rightarrow> env \<Rightarrow> string \<Rightarrow> request \<times> gateway \<Rightarrow> request \<times> gateway" where
  "proxy_audio ax hs en kind = (\<lambda>(q, g).
     let ev = (rq_ev q)\<lparr>ev_kind := audio_kind kind\<rparr>;
         ev = (if kind = speech_endpoint then ev\<lparr>ev_stream := True\<rparr> else ev)
     in case run_stages en 0 (audio_stages ax hs en) (q\<lparr>rq_kind := kind, rq_audio := Some new_audio, rq_ev := ev\<rparr>, g) of
          (Some e, q, g) \<Rightarrow> (fail_request en e q, g)
        | (None, q, g) \<Rightarrow> (q\<lparr>rq_outcome := OutcomeServed\<rparr>, g))"

text \<open>The argument of \<open>serve\<close> for the audio routes.\<close>

definition audio_route :: "audio_env \<Rightarrow> host \<Rightarrow> env \<Rightarrow> served_route \<Rightarrow> request \<times> gateway \<Rightarrow> request \<times> gateway" where
  "audio_route ax hs en r s = (case r of RouteAudio kind \<Rightarrow> proxy_audio ax hs en kind s | _ \<Rightarrow> s)"

end
