(* ===== verification/Audio_Safety.thy ===== *)
theory Audio_Safety
  imports Audio_Request
begin

text \<open>
  What the audio routes guarantee, over the same shared state and exit as the text pipeline: the seconds and characters reserved for
  a request are given back with everything else it took, and what is charged is what the event says.
\<close>

section \<open>The reserved seconds and characters\<close>

definition class_reserved :: "gateway \<Rightarrow> string \<Rightarrow> string \<Rightarrow> rat" where
  "class_reserved g kid c = ms_reserved (meter c (key_state_of (gw_limiter g) kid))"

definition admitted_amount :: "string \<Rightarrow> admission \<Rightarrow> rat" where
  "admitted_amount c a = (if c = ''audio'' then ad_audio_seconds a else if c = ''speech'' then of_int (ad_speech_chars a) else 0)"

definition amount_held :: "request \<Rightarrow> string \<Rightarrow> string \<Rightarrow> rat" where
  "amount_held q kid c = (case rq_adm q of Some a \<Rightarrow> if ad_key a = kid then admitted_amount c a else 0 | None \<Rightarrow> 0)"

definition sound_class :: "string \<Rightarrow> bool" where "sound_class c \<longleftrightarrow> c = ''audio'' \<or> c = ''speech''"

text \<open>What the ledger holds of a class beyond this request is the same before and after.\<close>

definition audio_balance :: "request \<times> gateway \<Rightarrow> request \<times> gateway \<Rightarrow> bool" where
  "audio_balance s t \<longleftrightarrow> (\<forall>kid c. sound_class c \<longrightarrow>
     class_reserved (snd t) kid c - amount_held (fst t) kid c = class_reserved (snd s) kid c - amount_held (fst s) kid c)"

text \<open>The other requests give back the seconds and characters they take between two steps of this one.\<close>

definition audio_neutral :: "(gateway \<Rightarrow> gateway) \<Rightarrow> bool" where
  "audio_neutral f \<longleftrightarrow> (\<forall>g kid c. sound_class c \<longrightarrow> class_reserved (f g) kid c = class_reserved g kid c)"

lemma audio_refl [simp]: "audio_balance s s"
  by (simp add: audio_balance_def)

lemma audio_trans: "audio_balance s t \<Longrightarrow> audio_balance t u \<Longrightarrow> audio_balance s u"
  by (simp add: audio_balance_def)

lemma audio_frame:
  assumes "rq_adm q' = rq_adm q" "\<And>kid c. sound_class c \<Longrightarrow> class_reserved g' kid c = class_reserved g kid c"
  shows "audio_balance (q, g) (q', g')"
  using assms by (simp add: audio_balance_def amount_held_def)

section \<open>The stages\<close>

text \<open>What a stage may assume of the record, and what every exit from it leaves.\<close>

definition audio_plain :: "request \<Rightarrow> bool" where
  "audio_plain q \<longleftrightarrow> rq_audio q \<noteq> None \<and> rq_image q = None \<and> \<not> rq_reading q \<and> rq_destination q \<noteq> None \<and> \<not> rq_handed_off q
     \<and> (\<exists>k. rq_key q = Some k \<and> (\<forall>a. rq_adm q = Some a \<longrightarrow> ad_key a = k_id k))
     \<and> (\<forall>a. rq_adm q = Some a \<longrightarrow> ad_reserved a = 0)"

definition audio_phase :: "nat \<Rightarrow> request \<Rightarrow> bool" where
  "audio_phase i q \<longleftrightarrow> audio_plain q \<and> \<not> n_stream (rq_n q) \<and> rq_kind q \<noteq> images_endpoint \<and> (i = 0 \<longrightarrow> rq_lease q = None)
     \<and> (i \<le> 3 \<longrightarrow> \<not> rq_buffered q) \<and> (i \<le> 4 \<longrightarrow> (\<forall>a. rq_adm q = Some a \<longrightarrow> ad_audio_seconds a = 0 \<and> ad_speech_chars a = 0))
     \<and> (rq_slot q \<longleftrightarrow> 5 < i) \<and> (i \<le> 6 \<longrightarrow> rq_outcome q = OutcomeNone)"

definition taken :: "(string \<Rightarrow> int) \<Rightarrow> nat \<Rightarrow> request \<times> gateway \<Rightarrow> request \<times> gateway \<Rightarrow> bool" where
  "taken dw i s t \<longleftrightarrow> (in_balance s t \<or> i = 5 \<and> balanced_by dw s t) \<and> audio_balance s t \<and> keeps (fst s) (fst t)"

definition audio_ok :: "(string \<Rightarrow> int) \<Rightarrow> nat \<Rightarrow> stage \<Rightarrow> bool" where
  "audio_ok dw i st \<longleftrightarrow> (\<forall>q g err q' g'. audio_phase i q \<longrightarrow> st (q, g) = (err, q', g') \<longrightarrow>
     taken dw i (q, g) (q', g') \<and> audio_plain q' \<and> (err = None \<longrightarrow> audio_phase (i + 1) q'))"

lemmas audio_defs = audio_phase_def audio_plain_def keeps_def taken_def

lemma audio_ok_I:
  assumes "\<And>q g err q' g'. audio_phase i q \<Longrightarrow> st (q, g) = (err, q', g') \<Longrightarrow>
     taken dw i (q, g) (q', g') \<and> audio_plain q' \<and> (err = None \<longrightarrow> audio_phase (i + 1) q')"
  shows "audio_ok dw i st"
  using assms unfolding audio_ok_def by blast

text \<open>A stage that leaves the resources alone.\<close>

definition same_holdings :: "request \<Rightarrow> request \<Rightarrow> bool" where
  "same_holdings q q' \<longleftrightarrow> rq_adm q' = rq_adm q \<and> rq_slot q' = rq_slot q \<and> rq_destination q' = rq_destination q
     \<and> rq_lease q' = rq_lease q \<and> rq_buffered q' = rq_buffered q \<and> rq_image q' = rq_image q \<and> rq_reading q' = rq_reading q
     \<and> (rq_audio q' = None \<longleftrightarrow> rq_audio q = None) \<and> rq_handed_off q' = rq_handed_off q \<and> rq_path q' = rq_path q \<and> rq_n q' = rq_n q
     \<and> rq_kind q' = rq_kind q \<and> keeps q q'"

lemma holdings_refl [simp]: "same_holdings q q"
  by (simp add: same_holdings_def keeps_def)

lemma holdings_trans: "same_holdings a b \<Longrightarrow> same_holdings b c \<Longrightarrow> same_holdings a c"
  by (simp add: same_holdings_def keeps_def)

lemma holdings_taken: "same_holdings q q' \<Longrightarrow> taken dw i (q, g) (q', g) \<and> (audio_plain q' \<longleftrightarrow> audio_plain q)"
  by (auto simp: same_holdings_def taken_def balanced_by_def held_defs keeps_def audio_plain_def intro!: audio_frame)

lemma holdings_phase:
  "same_holdings q q' \<Longrightarrow> (i \<le> 6 \<Longrightarrow> rq_outcome q' = rq_outcome q) \<Longrightarrow> audio_phase i q \<Longrightarrow> audio_phase i q'"
  using holdings_taken [of q q'] by (auto simp: audio_phase_def same_holdings_def)

lemma holdings_edit [simp]: "same_holdings q (edit_audio f q)"
  by (simp add: same_holdings_def edit_audio_def keeps_def)

lemma edit_audio_sel [simp]:
  "rq_outcome (edit_audio f q) = rq_outcome q" "rq_ev (edit_audio f q) = rq_ev q" "rq_key (edit_audio f q) = rq_key q"
  "rq_destination (edit_audio f q) = rq_destination q" "rq_kind (edit_audio f q) = rq_kind q" "rq_adm (edit_audio f q) = rq_adm q"
  "rq_writer (edit_audio f q) = rq_writer q" "rq_slot (edit_audio f q) = rq_slot q" "rq_audio (edit_audio f q) = map_option f (rq_audio q)"
  by (simp_all add: edit_audio_def)

section \<open>Admission and the managed member\<close>

definition clean_admission :: "key \<Rightarrow> admission \<Rightarrow> bool" where
  "clean_admission k a \<longleftrightarrow> ad_key a = k_id k \<and> ad_reserved a = 0 \<and> ad_audio_seconds a = 0 \<and> ad_speech_chars a = 0"

lemma admit_classes:
  assumes "admit now kid lims l = (r, l')"
  shows "ms_reserved (meter c (key_state_of l' k)) = ms_reserved (meter c (key_state_of l k))"
    and "r = Inr a \<Longrightarrow> ad_audio_seconds a = 0 \<and> ad_speech_chars a = 0"
proof -
  obtain r0 st where e: "key_admit now kid lims False (key_state_of l kid) = (r0, st)"
    by (cases "key_admit now kid lims False (key_state_of l kid)")
  have l': "l' = l(kid \<mapsto> st)" "r = r0" using assms by (simp_all add: admit_def admit_resource_def e)
  have m: "ks_meters st = ks_meters (prune now (key_state_of l kid))" using e by (auto simp: key_admit_def Let_def split: if_splits)
  have "ms_reserved (meter c st) = ms_reserved (meter c (prune now (key_state_of l kid)))" by (simp only: meter_def m)
  then show "ms_reserved (meter c (key_state_of l' k)) = ms_reserved (meter c (key_state_of l k))" by (simp add: l')
  show "r = Inr a \<Longrightarrow> ad_audio_seconds a = 0 \<and> ad_speech_chars a = 0" using e by (auto simp: l' key_admit_def Let_def split: if_splits)
qed

lemma admit_audio:
  assumes "admit_key en (q, g) = (err, q', g')"
  shows "in_balance (q, g) (q', g') \<and> audio_balance (q, g) (q', g')
     \<and> (\<exists>a. q' = q\<lparr>rq_adm := a\<rparr> \<and> (a = rq_adm q \<or> (\<exists>b k. a = Some b \<and> rq_key q = Some k \<and> clean_admission k b)))"
proof (cases "rq_adm q = None \<and> rq_key q \<noteq> None")
  case True
  then obtain k where k: "rq_key q = Some k" "rq_adm q = None" by auto
  obtain r l where a: "admit (en_admit_t en) (k_id k) (k_limits k) (gw_limiter g) = (r, l)"
    by (cases "admit (en_admit_t en) (k_id k) (k_limits k) (gw_limiter g)")
  have c: "class_reserved (g\<lparr>gw_limiter := l\<rparr>) kid c = class_reserved g kid c" for kid c
    using admit_classes(1) [OF a] by (simp add: class_reserved_def)
  show ?thesis
  proof (cases r)
    case (Inl e)
    then have "q' = q" "g' = g\<lparr>gw_limiter := l\<rparr>" using assms by (simp_all add: admit_key_def k a)
    then show ?thesis using admit_key_step [OF assms] c by (intro conjI exI [of _ "rq_adm q"]) (auto intro: audio_frame)
  next
    case (Inr b)
    then have q': "q' = q\<lparr>rq_adm := Some b\<rparr>" "g' = g\<lparr>gw_limiter := l\<rparr>" using assms by (simp_all add: admit_key_def k a)
    have cl: "clean_admission k b" using admit_share [OF a] admit_classes(2) [OF a] Inr by (simp add: clean_admission_def)
    then have "audio_balance (q, g) (q', g')"
      using c k by (simp add: q' audio_balance_def amount_held_def admitted_amount_def clean_admission_def)
    then show ?thesis using admit_key_step [OF assms] cl k by (intro conjI exI [of _ "Some b"]) (auto simp: q')
  qed
next
  case False
  then have "q' = q" "g' = g" using assms by (auto simp: admit_key_def split: option.splits)
  then show ?thesis by (intro conjI exI [of _ "rq_adm q"]) simp_all
qed

lemma admit_phase:
  assumes "audio_phase i q" "i \<le> 2" "q' = q\<lparr>rq_adm := a\<rparr>" "a = rq_adm q \<or> (\<exists>b k. a = Some b \<and> rq_key q = Some k \<and> clean_admission k b)"
  shows "audio_phase i q' \<and> audio_plain q' \<and> keeps q q'"
  using assms by (auto simp: audio_defs clean_admission_def)

lemma admit_audio_ok: "audio_ok dw 2 (admit_key en)"
proof (rule audio_ok_I)
  fix q g err q' g'
  assume p: "audio_phase 2 q" and s: "admit_key en (q, g) = (err, q', g')"
  obtain a where b: "in_balance (q, g) (q', g')" "audio_balance (q, g) (q', g')" "q' = q\<lparr>rq_adm := a\<rparr>"
    "a = rq_adm q \<or> (\<exists>b k. a = Some b \<and> rq_key q = Some k \<and> clean_admission k b)" using admit_audio [OF s] by blast
  have f: "audio_phase 2 q'" "audio_plain q'" "keeps q q'" using admit_phase [OF p _ b(3,4)] by simp_all
  then have "audio_phase (2 + 1) q'" by (simp add: audio_phase_def)
  then show "taken dw 2 (q, g) (q', g') \<and> audio_plain q' \<and> (err = None \<longrightarrow> audio_phase (2 + 1) q')"
    using b(1,2) f by (simp add: taken_def)
qed

lemma lease_audio: "audio_balance (q, g) (q\<lparr>rq_lease := x\<rparr>, g\<lparr>gw_leases := y\<rparr>)"
  by (rule audio_frame) (simp_all add: class_reserved_def)

lemma prepare_audio_ok: "audio_ok dw 0 (prepare_managed en)"
proof (rule audio_ok_I)
  fix q g err q' g'
  assume p: "audio_phase 0 q" and s: "prepare_managed en (q, g) = (err, q', g')"
  obtain d where d: "rq_destination q = Some d" using p by (auto simp: audio_defs)
  have k: "rq_kind q \<noteq> images_endpoint" using p by (simp add: audio_phase_def)
  show "taken dw 0 (q, g) (q', g') \<and> audio_plain q' \<and> (err = None \<longrightarrow> audio_phase (0 + 1) q')"
  proof (cases "en_managed en (ds_id d) = NotManaged")
    case True
    then have "q' = q" "g' = g" using s by (simp_all add: prepare_managed_def d)
    then show ?thesis using p by (auto simp: audio_defs)
  next
    case False
    obtain e1 q1 g1 where a: "admit_key en (q, g) = (e1, q1, g1)" by (cases "admit_key en (q, g)") auto
    obtain x where b: "in_balance (q, g) (q1, g1)" "audio_balance (q, g) (q1, g1)" "q1 = q\<lparr>rq_adm := x\<rparr>"
      "x = rq_adm q \<or> (\<exists>b k. x = Some b \<and> rq_key q = Some k \<and> clean_admission k b)" using admit_audio [OF a] by blast
    have f: "audio_phase 0 q1" "audio_plain q1" "keeps q q1" using admit_phase [OF p _ b(3,4)] by simp_all
    show ?thesis
    proof (cases "e1 \<noteq> None \<or> (\<exists>msg. en_managed en (ds_id d) = LeaseFailed msg)")
      case True
      then have "q' = q1" "g' = g1" "err \<noteq> None"
        using s False k by (auto simp: prepare_managed_def d a split: managed_reply.splits option.splits)
      then show ?thesis using b f by (auto simp: taken_def)
    next
      case t: False
      then have "en_managed en (ds_id d) = Leased" using False by (cases "en_managed en (ds_id d)") auto
      then have q': "q' = q1\<lparr>rq_lease := Some (ds_id d)\<rparr>"
        "g' = g1\<lparr>gw_leases := (gw_leases g1)(ds_id d := gw_leases g1 (ds_id d) + 1)\<rparr>"
        using s t k by (simp_all add: prepare_managed_def d a)
      have l: "rq_lease q1 = None" using f(1) by (simp add: audio_phase_def)
      have "in_balance (q, g) (q', g')" unfolding q' by (rule balanced_trans [OF b(1) lease_balanced [OF l]])
      moreover have "audio_balance (q, g) (q', g')" unfolding q' by (rule audio_trans [OF b(2) lease_audio])
      ultimately show ?thesis using f by (auto simp: q' audio_defs)
    qed
  qed
qed

lemma audio_health_ok: "audio_ok dw 1 (audio_health ax en)"
proof (rule audio_ok_I)
  fix q g err q' g'
  assume p: "audio_phase 1 q" and s: "audio_health ax en (q, g) = (err, q', g')"
  then have "q' = q" "g' = g" by (auto simp: audio_health_def split: option.splits if_splits)
  then show "taken dw 1 (q, g) (q', g') \<and> audio_plain q' \<and> (err = None \<longrightarrow> audio_phase (1 + 1) q')"
    using p by (auto simp: audio_defs)
qed

section \<open>The body\<close>

lemma scan_holdings: "same_holdings q (note_scan s q) \<and> rq_outcome (note_scan s q) = rq_outcome q"
  by (auto simp: note_scan_def edit_audio_def same_holdings_def keeps_def Let_def split: option.split)

lemma read_kind_holdings:
  "same_holdings q (snd (read_speech ax en raw q)) \<and> rq_outcome (snd (read_speech ax en raw q)) = rq_outcome q"
  "same_holdings q (snd (read_transcription ax en raw q)) \<and> rq_outcome (snd (read_transcription ax en raw q)) = rq_outcome q"
  using scan_holdings [of q]
  by (auto simp: read_speech_def read_transcription_def Let_def split: option.splits json.splits multipart_reply.splits prod.splits)

lemma resolve_holdings:
  assumes "resolve_destination hs model q = (e, q')"
  shows "same_holdings (q\<lparr>rq_destination := rq_destination q'\<rparr>) q' \<and> rq_outcome q' = rq_outcome q \<and> (rq_destination q \<noteq> None \<longrightarrow> rq_destination q' \<noteq> None)"
  using assms by (auto simp: resolve_destination_def same_holdings_def keeps_def split: option.splits sum.splits)

lemma read_body_holdings:
  assumes "read_audio_body ax hs en raw q = (r, q')"
  shows "same_holdings (q\<lparr>rq_destination := rq_destination q'\<rparr>) q' \<and> rq_outcome q' = rq_outcome q \<and> (rq_destination q \<noteq> None \<longrightarrow> rq_destination q' \<noteq> None)"
proof -
  obtain r1 q1 where k: "(if rq_kind q = speech_endpoint then read_speech ax en raw q else read_transcription ax en raw q) = (r1, q1)"
    by (metis surj_pair)
  have h: "same_holdings q q1" "rq_outcome q1 = rq_outcome q"
    using read_kind_holdings [where q = q and ax = ax and en = en and raw = raw] k by (auto split: if_splits)
  show ?thesis
  proof (cases r1)
    case (Inl e)
    then show ?thesis using assms k h by (auto simp: read_audio_body_def same_holdings_def keeps_def)
  next
    case (Inr mp)
    obtain model payload where mp: "mp = (model, payload)" by (cases mp)
    obtain e2 q2 where rs: "resolve_destination hs model q1 = (e2, q2)" by (metis surj_pair)
    have "q' = q1 \<or> q' = q2 \<or> q' = q2\<lparr>rq_ev := (rq_ev q2)\<lparr>ev_model := model\<rparr>\<rparr>"
      using assms unfolding read_audio_body_def k Inr mp by (cases e2) (auto simp: rs split: if_splits)
    moreover have "same_holdings q2 (q2\<lparr>rq_ev := (rq_ev q2)\<lparr>ev_model := model\<rparr>\<rparr>)" by (simp add: same_holdings_def keeps_def)
    ultimately show ?thesis using h resolve_holdings [OF rs]
      by (elim disjE) (simp_all add: same_holdings_def keeps_def)
  qed
qed

lemma buffered_balance:
  assumes "\<not> rq_buffered q" "\<not> rq_slot q" "same_holdings (q\<lparr>rq_buffered := True, rq_destination := rq_destination q'\<rparr>) q'"
  shows "in_balance (q, g) (q', g\<lparr>gw_bodies := gw_bodies g + 1\<rparr>) \<and> audio_balance (q, g) (q', g\<lparr>gw_bodies := gw_bodies g + 1\<rparr>)"
  using assms by (auto simp: balanced_by_def held_defs same_holdings_def in_flight_of_def reserved_of_def class_reserved_def intro!: audio_frame)

lemma read_audio_ok: "audio_ok dw 3 (read_audio_stage ax hs en)"
proof (rule audio_ok_I)
  fix q g err q' g'
  assume p: "audio_phase 3 q" and s: "read_audio_stage ax hs en (q, g) = (err, q', g')"
  obtain r where r: "read_audio ax hs en (q, g) = (r, q', g')" and err: "err = None \<longleftrightarrow> (\<exists>x. r = Inr x)"
    using s by (auto simp: read_audio_stage_def split: sum.splits prod.splits)
  show "taken dw 3 (q, g) (q', g') \<and> audio_plain q' \<and> (err = None \<longrightarrow> audio_phase (3 + 1) q')"
  proof (cases "en_content_length en > audio_limit_of hs q")
    case True
    then have "q' = q" "g' = g" "err \<noteq> None" using r err by (auto simp: read_audio_def)
    then show ?thesis using p by (auto simp: audio_defs)
  next
    case False
    have "g' = g\<lparr>gw_bodies := gw_bodies g + 1\<rparr> \<and> same_holdings (q\<lparr>rq_buffered := True, rq_destination := rq_destination q'\<rparr>) q'
        \<and> rq_outcome q' = rq_outcome q \<and> (rq_destination q \<noteq> None \<longrightarrow> rq_destination q' \<noteq> None)"
      using r False read_body_holdings [where q = "q\<lparr>rq_buffered := True\<rparr>" and ax = ax and hs = hs and en = en]
      by (cases "en_body en") (auto simp: read_audio_def same_holdings_def keeps_def Let_def split: prod.splits)
    then show ?thesis using p buffered_balance [of q q' g]
      by (auto simp: audio_defs same_holdings_def)
  qed
qed

section \<open>The reservation\<close>

lemma reserve_audio_share:
  assumes "key_reserve_audio g3 now lims transcribe need chars a st = (err, a', st')" "ad_audio_seconds a = 0" "ad_speech_chars a = 0"
  shows "sound_class c \<Longrightarrow> ms_reserved (meter c st') = ms_reserved (meter c st) + admitted_amount c a'"
    and "ms_reserved (meter ''tokens'' st') = ms_reserved (meter ''tokens'' st)" and "ks_in_flight st' = ks_in_flight st"
    and "ad_key a' = ad_key a" "ad_reserved a' = ad_reserved a" "ad_detached a' = ad_detached a"
  using assms by (auto simp: key_reserve_audio_def sound_class_def admitted_amount_def Let_def split: if_splits)

lemma reserve_audio_ok: "audio_ok dw 4 (reserve_audio ax en)"
proof (rule audio_ok_I)
  fix q g err q' g'
  assume p: "audio_phase 4 q" and s: "reserve_audio ax en (q, g) = (err, q', g')"
  obtain k au where k: "rq_key q = Some k" "rq_audio q = Some au" using p by (auto simp: audio_defs)
  show "taken dw 4 (q, g) (q', g') \<and> audio_plain q' \<and> (err = None \<longrightarrow> audio_phase (4 + 1) q')"
  proof (cases "rq_adm q")
    case None
    then have "q' = q" "g' = g" using s k by (simp_all add: reserve_audio_def)
    then show ?thesis using p None by (auto simp: audio_defs)
  next
    case (Some a)
    obtain e b st where r: "key_reserve_audio (ah_g3 ax) (en_reserve_t en) (k_limits k) (rq_kind q = transcribe_endpoint)
        (ev_reserved_seconds (rq_ev q)) (au_chars au) a (key_state_of (gw_limiter g) (k_id k)) = (e, b, st)" by (metis surj_pair)
    have a0: "ad_audio_seconds a = 0" "ad_speech_chars a = 0" "ad_key a = k_id k" "ad_reserved a = 0" using p Some k by (auto simp: audio_defs)
    note sh = reserve_audio_share [OF r a0(1,2)]
    have q': "q' = q\<lparr>rq_adm := Some b\<rparr>" "g' = g\<lparr>gw_limiter := (gw_limiter g)(k_id k \<mapsto> st)\<rparr>" using s k Some r by (simp_all add: reserve_audio_def)
    have "in_balance (q, g) (q', g')"
      using sh a0 Some by (simp add: q' balanced_by_def held_defs in_flight_of_def reserved_of_def)
    moreover have "audio_balance (q, g) (q', g')"
      using sh a0 Some by (auto simp: q' audio_balance_def amount_held_def class_reserved_def admitted_amount_def)
    ultimately show ?thesis using p sh a0 k by (auto simp: audio_defs q')
  qed
qed

section \<open>The slot\<close>

text \<open>Whether there is an audio request makes no difference to the queue; nothing is said to a waiting request that is no stream.\<close>

lemma no_words: "\<not> n_stream (rq_n q) \<Longrightarrow> waiting_words en q = q"
  by (simp add: waiting_words_def)

lemma wait_result_audio [simp]: "wait_result hs en (q\<lparr>rq_audio := x\<rparr>) = wait_result hs en q"
  by (simp add: wait_result_def)

lemma acquire_audio_free:
  assumes "\<not> n_stream (rq_n q)" "acquire_slot hs en (q, g) = (err, q', g')"
  shows "acquire_slot hs en (q\<lparr>rq_audio := x\<rparr>, g) = (err, q'\<lparr>rq_audio := x\<rparr>, g')"
  using assms
  by (auto simp: acquire_slot_def wait_for_slot_def take_slot_def no_words Let_def split: option.splits entered.splits prod.splits if_splits)

lemma class_reserved_queue [simp]: "class_reserved (set_queue i sq g) kid c = class_reserved g kid c"
  by (simp add: class_reserved_def set_queue_def)

lemma acquire_frame:
  assumes "\<not> n_stream (rq_n q)" "acquire_slot hs en (q, g) = (err, q', g')" "audio_neutral (en_while_waiting en)"
  shows "same_holdings (q\<lparr>rq_slot := rq_slot q'\<rparr>) q' \<and> (\<forall>kid c. sound_class c \<longrightarrow> class_reserved g' kid c = class_reserved g kid c)"
  using assms
  by (auto simp: acquire_slot_def wait_for_slot_def take_slot_def no_words same_holdings_def keeps_def audio_neutral_def Let_def
      split: option.splits entered.splits prod.splits if_splits)

lemma acquire_audio_ok:
  assumes n: "neutral dw (en_while_waiting en)" and f: "fair_wait hs en" and a: "audio_neutral (en_while_waiting en)"
  shows "audio_ok dw 5 (acquire_slot hs en)"
proof (rule audio_ok_I)
  fix q g err q' g'
  assume p: "audio_phase 5 q" and s: "acquire_slot hs en (q, g) = (err, q', g')"
  have ns: "\<not> n_stream (rq_n q)" using p by (simp add: audio_phase_def)
  let ?q = "q\<lparr>rq_audio := None\<rparr>"
  have ph: "phase 8 ?q" using p by (auto simp: audio_defs phase_def plain_def)
  have "acquire_slot hs en (?q, g) = (err, q'\<lparr>rq_audio := None\<rparr>, g')" by (rule acquire_audio_free [OF ns s])
  with acquire_slot_ok [OF n f] ph
  have t: "in_balance (?q, g) (q'\<lparr>rq_audio := None\<rparr>, g') \<or> balanced_by dw (?q, g) (q'\<lparr>rq_audio := None\<rparr>, g')"
    "err = None \<Longrightarrow> phase 9 (q'\<lparr>rq_audio := None\<rparr>)"
    unfolding stage_ok_def by (force simp: eval_nat_numeral)+
  have b: "in_balance (q, g) (q', g') \<or> balanced_by dw (q, g) (q', g')" using t(1) by (simp add: balanced_by_def held_defs)
  have fr: "same_holdings (q\<lparr>rq_slot := rq_slot q'\<rparr>) q'" "\<And>kid c. sound_class c \<Longrightarrow> class_reserved g' kid c = class_reserved g kid c"
    using acquire_frame [OF ns s a] by blast+
  have "audio_balance (q, g) (q', g')" using fr by (intro audio_frame) (simp_all add: same_holdings_def)
  then show "taken dw 5 (q, g) (q', g') \<and> audio_plain q' \<and> (err = None \<longrightarrow> audio_phase (5 + 1) q')"
    using p b fr(1) t(2) by (auto simp: audio_defs same_holdings_def phase_def)
qed

section \<open>The engine\<close>

lemma outcome_holdings [simp]: "same_holdings q q' \<Longrightarrow> same_holdings q (q'\<lparr>rq_outcome := x\<rparr>)"
  by (simp add: same_holdings_def keeps_def)

lemma edit_holdings [simp]: "same_holdings q q' \<Longrightarrow> same_holdings q (edit_audio f q')"
  using holdings_trans holdings_edit by blast

lemma head_holdings [simp]: "same_holdings q q' \<Longrightarrow> same_holdings q (audio_head ct d l st q')"
  by (simp add: audio_head_def write_header_def same_holdings_def keeps_def)

lemma ttft_holdings [simp]: "same_holdings q q' \<Longrightarrow> same_holdings q (mark_ttft t q')"
  by (simp add: mark_ttft_def same_holdings_def keeps_def)

lemma writer_holdings [simp]: "same_holdings q q' \<Longrightarrow> same_holdings q (q'\<lparr>rq_writer := w\<rparr>)"
  by (simp add: same_holdings_def keeps_def)

lemma call_audio_ok: "audio_ok dw 6 (call_audio hs en)"
proof (rule audio_ok_I)
  fix q g err q' g'
  assume p: "audio_phase 6 q" and s: "call_audio hs en (q, g) = (err, q', g')"
  have h: "g' = g" "same_holdings q q'" "err = None \<Longrightarrow> rq_outcome q' = rq_outcome q"
    using s by (cases "en_engine en"; auto simp: call_audio_def)+
  have "err = None \<Longrightarrow> audio_phase (6 + 1) q'" using holdings_phase [OF h(2,3) p] p by (auto simp: audio_phase_def)
  then show "taken dw 6 (q, g) (q', g') \<and> audio_plain q' \<and> (err = None \<longrightarrow> audio_phase (6 + 1) q')"
    using holdings_taken [OF h(2)] h(1) p by (auto simp: audio_phase_def)
qed

lemma send_holdings: "same_holdings q0 q \<Longrightarrow> same_holdings q0 (snd (send_answer en x q))"
  by (simp add: send_answer_def Let_def)

lemma relay_whole_holdings: "same_holdings q (snd (relay_whole ax en resp q))"
  by (auto simp: relay_whole_def engine_refusal_def send_holdings Let_def split: prod.splits option.splits)

lemma relay_pieces_holdings: "same_holdings q0 q \<Longrightarrow> same_holdings q0 (snd (relay_pieces io part i ps q))"
  by (induction io part i ps q rule: relay_pieces.induct) (auto simp: Let_def split: prod.splits)

lemma relay_sound_holdings: "same_holdings q (snd (relay_sound ax hs en resp q))"
proof -
  let ?q = "audio_head (er_content_type resp) (ah_disposition ax) (ah_length ax) (er_status resp) q"
  have "same_holdings q (snd (relay_pieces (en_io en) (ah_partial ax) 0 (ah_pieces ax (er_body resp)) ?q))"
    by (rule relay_pieces_holdings) simp
  then show ?thesis by (auto simp: relay_sound_def Let_def split: prod.splits stream_end.splits)
qed

lemma relay_audio_ok: "audio_ok dw 7 (relay_audio ax hs en)"
proof (rule audio_ok_I)
  fix q g err q' g'
  assume p: "audio_phase 7 q" and s: "relay_audio ax hs en (q, g) = (err, q', g')"
  have h: "g' = g \<and> same_holdings q q'"
  proof (cases "en_engine en")
    case (EngineFailed sent timed_out)
    then show ?thesis using s by (simp add: relay_audio_def)
  next
    case (EngineReplied sent resp)
    let ?r = "if rq_kind q = transcribe_endpoint \<or> er_status resp div 100 \<noteq> 2 then relay_whole ax en resp q else relay_sound ax hs en resp q"
    have "(err, q', g') = (fst ?r, snd ?r, g)" using s EngineReplied by (auto simp: relay_audio_def split_def Let_def split: if_splits)
    then show ?thesis using relay_whole_holdings relay_sound_holdings by simp
  qed
  show "taken dw 7 (q, g) (q', g') \<and> audio_plain q' \<and> (err = None \<longrightarrow> audio_phase (7 + 1) q')"
    using holdings_taken [of q q' dw 7 g] h p by (auto simp: audio_phase_def same_holdings_def)
qed

section \<open>The chain of stages\<close>

text \<open>
  A rule for a run of stages: \<open>during i\<close> holds before the \<open>i\<close>-th, and \<open>post\<close> where one of them failed, once its missing outcome is filled in.
\<close>

lemma run_stages_rule:
  assumes step: "\<And>j q g err q' g'. j < length ss \<Longrightarrow> during (i + j) (q, g) \<Longrightarrow> (ss ! j) (q, en_between en (i + j) g) = (err, q', g') \<Longrightarrow>
      (case err of None \<Rightarrow> during (i + j + 1) (q', g')
        | Some e \<Rightarrow> post (if rq_outcome q' = OutcomeNone then q'\<lparr>rq_outcome := OutcomeRejected\<rparr> else q', g'))"
    and kept: "\<And>j q g. during j (q, g) \<Longrightarrow> \<not> rq_handed_off q"
    and "during i (q, g)" "run_stages en i ss (q, g) = (err, q', g')"
  shows "case err of None \<Rightarrow> during (i + length ss) (q', g') | Some e \<Rightarrow> post (q', g')"
  using step assms(3,4)
proof (induction ss arbitrary: i q g)
  case (Cons st ss)
  obtain e1 q1 g1 where r: "st (q, en_between en i g) = (e1, q1, g1)" by (cases "st (q, en_between en i g)") auto
  note one = Cons.prems(1) [of 0 q g e1 q1 g1]
  show ?case
  proof (cases e1)
    case (Some e)
    then show ?thesis using one Cons.prems(2,3) r by auto
  next
    case None
    then have i1: "during (Suc i) (q1, g1)" using one Cons.prems(2) r by simp
    then have rest: "run_stages en (Suc i) ss (q1, g1) = (err, q', g')" using Cons.prems(3) r None kept by auto
    have "case err of None \<Rightarrow> during (Suc i + length ss) (q', g') | Some e \<Rightarrow> post (q', g')"
    proof (rule Cons.IH [OF _ i1 rest])
      fix j q g err q' g'
      assume "j < length ss" "during (Suc i + j) (q, g)" "(ss ! j) (q, en_between en (Suc i + j) g) = (err, q', g')"
      then show "case err of None \<Rightarrow> during (Suc i + j + 1) (q', g')
        | Some e \<Rightarrow> post (if rq_outcome q' = OutcomeNone then q'\<lparr>rq_outcome := OutcomeRejected\<rparr> else q', g')"
        using Cons.prems(1) [of "Suc j" q g err q' g'] by (cases err) auto
    qed
    then show ?thesis by (cases err) simp_all
  qed
qed simp

definition audio_others_ok :: "host \<Rightarrow> env \<Rightarrow> (string \<Rightarrow> int) \<Rightarrow> bool" where
  "audio_others_ok hs en dw \<longleftrightarrow> others_ok hs en dw \<and> (\<forall>i. audio_neutral (en_between en i)) \<and> audio_neutral (en_while_waiting en)"

lemma audio_stages_ok:
  assumes "audio_others_ok hs en dw" and "j < length (audio_stages ax hs en)"
  shows "audio_ok dw j (audio_stages ax hs en ! j)"
proof -
  have "j < 8" using assms(2) by (simp add: audio_stages_def)
  then have "j \<in> {0, 1, 2, 3, 4, 5, 6, 7}" by (simp only: insert_iff empty_iff) presburger
  moreover have "audio_ok dw 5 (acquire_slot hs en)"
    using assms(1) acquire_audio_ok by (auto simp: audio_others_ok_def others_ok_def)
  ultimately show ?thesis
    by (auto simp: audio_stages_def prepare_audio_ok audio_health_ok [unfolded One_nat_def] admit_audio_ok read_audio_ok reserve_audio_ok
        call_audio_ok relay_audio_ok)
qed

definition audio_taken :: "(string \<Rightarrow> int) \<Rightarrow> request \<times> gateway \<Rightarrow> request \<times> gateway \<Rightarrow> bool" where
  "audio_taken dw s t \<longleftrightarrow> (in_balance s t \<or> balanced_by dw s t) \<and> audio_balance s t \<and> keeps (fst s) (fst t) \<and> audio_plain (fst t)"

lemma taken_outcome: "audio_taken dw s (q, g) \<Longrightarrow> audio_taken dw s (q\<lparr>rq_outcome := x\<rparr>, g)"
proof -
  have h: "same_holdings q (q\<lparr>rq_outcome := x\<rparr>)" by simp
  then have t: "in_balance (q, g) (q\<lparr>rq_outcome := x\<rparr>, g)" "audio_balance (q, g) (q\<lparr>rq_outcome := x\<rparr>, g)" "keeps q (q\<lparr>rq_outcome := x\<rparr>)"
    "audio_plain (q\<lparr>rq_outcome := x\<rparr>) = audio_plain q"
    using holdings_taken [OF h, of dw 0 g] by (simp_all add: taken_def)
  assume "audio_taken dw s (q, g)"
  then show ?thesis using t balanced_trans balanced_by_trans audio_trans keeps_trans unfolding audio_taken_def fst_conv by blast
qed

lemma stages_taken:
  assumes o: "audio_others_ok hs en dw" and p: "audio_phase 0 q" and r: "run_stages en 0 (audio_stages ax hs en) (q, g) = (err, q', g')"
  shows "audio_taken dw (q, g) (q', g')"
proof -
  define during where "during = (\<lambda>i t. audio_phase i (fst t) \<and> (in_balance (q, g) t \<or> 5 < i \<and> balanced_by dw (q, g) t) \<and> audio_balance (q, g) t \<and> keeps q (fst t))"
  have "case err of None \<Rightarrow> during (0 + length (audio_stages ax hs en)) (q', g') | Some e \<Rightarrow> audio_taken dw (q, g) (q', g')"
  proof (rule run_stages_rule [OF _ _ _ r])
    fix j q1 g1 e1 q2 g2
    assume j: "j < length (audio_stages ax hs en)" and i: "during (0 + j) (q1, g1)"
      and st: "(audio_stages ax hs en ! j) (q1, en_between en (0 + j) g1) = (e1, q2, g2)"
    let ?g = "en_between en j g1"
    have n: "in_balance (q1, g1) (q1, ?g)" "audio_balance (q1, g1) (q1, ?g)"
      using o by (auto simp: audio_others_ok_def others_ok_def audio_neutral_def intro!: balanced_neutral audio_frame)
    have one: "taken dw j (q1, ?g) (q2, g2)" "audio_plain q2" "e1 = None \<Longrightarrow> audio_phase (j + 1) q2"
      using audio_stages_ok [OF o j] i st unfolding audio_ok_def during_def by auto
    have b: "in_balance (q, g) (q2, g2) \<or> 5 < j + 1 \<and> balanced_by dw (q, g) (q2, g2)"
    proof (cases "in_balance (q1, ?g) (q2, g2)")
      case True
      then have t: "in_balance (q1, g1) (q2, g2)" using balanced_trans [OF n(1)] by blast
      have "in_balance (q, g) (q1, g1) \<or> 5 < j \<and> balanced_by dw (q, g) (q1, g1)" using i by (simp add: during_def)
      then show ?thesis using kept_then [OF _ t] by auto
    next
      case False
      then have f: "j = 5" "balanced_by dw (q1, ?g) (q2, g2)" using one(1) by (auto simp: taken_def)
      then have "in_balance (q, g) (q1, g1)" using i by (simp add: during_def)
      then show ?thesis using f balanced_trans_by [OF balanced_trans [OF _ n(1)]] by simp
    qed
    have a: "audio_balance (q, g) (q2, g2)" using i one(1) audio_trans n(2) unfolding during_def taken_def by blast
    have k: "keeps q q2" using i one(1) keeps_trans unfolding during_def taken_def by auto
    show "case e1 of None \<Rightarrow> during (0 + j + 1) (q2, g2)
      | Some e \<Rightarrow> audio_taken dw (q, g) (if rq_outcome q2 = OutcomeNone then q2\<lparr>rq_outcome := OutcomeRejected\<rparr> else q2, g2)"
    proof (cases e1)
      case None
      then show ?thesis using a b k one(3) by (simp add: during_def)
    next
      case (Some e)
      have "audio_taken dw (q, g) (q2, g2)" using a b k one(2) by (auto simp: audio_taken_def)
      then show ?thesis using Some taken_outcome by simp
    qed
  next
    show "during j (q1, g1) \<Longrightarrow> \<not> rq_handed_off q1" for j q1 g1 by (simp add: during_def audio_defs)
    show "during 0 (q, g)" using p by (simp add: during_def keeps_def)
  qed
  then show ?thesis by (cases err) (auto simp: during_def audio_taken_def audio_phase_def)
qed

section \<open>The handler\<close>

lemma fail_audio_holdings: "rq_audio q \<noteq> None \<Longrightarrow> rq_image q = None \<Longrightarrow> same_holdings q (fail_request en e q)"
  by (auto simp: fail_request_def fail_def fail_text_def same_holdings_def keeps_def Let_def)

text \<open>A request that has been let in and has taken nothing yet.\<close>

definition let_in :: "request \<Rightarrow> bool" where
  "let_in q \<longleftrightarrow> fresh q \<and> rq_destination q \<noteq> None \<and> rq_key q \<noteq> None \<and> \<not> rq_handed_off q \<and> \<not> n_stream (rq_n q)"

lemma taken_same:
  assumes "same_holdings q q'" "audio_taken dw s (q, g)"
  shows "audio_taken dw s (q', g)"
  using assms holdings_taken [OF assms(1), of dw 0 g] balanced_trans balanced_by_trans audio_trans keeps_trans
  unfolding audio_taken_def taken_def fst_conv by (metis zero_neq_numeral)

lemma proxy_audio_taken:
  assumes o: "audio_others_ok hs en dw" and l: "let_in q" and k: "kind \<noteq> images_endpoint" and r: "proxy_audio ax hs en kind (q, g) = (q', g')"
  shows "audio_taken dw (q, g) (q', g')"
proof -
  define ev where "ev = (rq_ev q)\<lparr>ev_kind := audio_kind kind\<rparr>"
  define q0 where "q0 = q\<lparr>rq_kind := kind, rq_audio := Some new_audio, rq_ev := (if kind = speech_endpoint then ev\<lparr>ev_stream := True\<rparr> else ev)\<rparr>"
  obtain err q1 g1 where s: "run_stages en 0 (audio_stages ax hs en) (q0, g) = (err, q1, g1)"
    by (cases "run_stages en 0 (audio_stages ax hs en) (q0, g)") auto
  have "audio_phase 0 q0" using l k by (auto simp: let_in_def fresh_def bare_def audio_defs q0_def)
  from stages_taken [OF o this s] have t0: "audio_taken dw (q0, g) (q1, g1)" .
  have pr: "proxy_audio ax hs en kind (q, g) = (case run_stages en 0 (audio_stages ax hs en) (q0, g) of
          (Some e, q, g) \<Rightarrow> (fail_request en e q, g) | (None, q, g) \<Rightarrow> (q\<lparr>rq_outcome := OutcomeServed\<rparr>, g))"
    unfolding proxy_audio_def q0_def ev_def Let_def by simp
  have "keeps q q0" by (simp add: q0_def ev_def keeps_def)
  moreover have "in_balance (q, g) (q0, g)" "audio_balance (q, g) (q0, g)" by (auto simp: q0_def balanced_by_def held_defs intro!: audio_frame)
  ultimately have t: "audio_taken dw (q, g) (q1, g1)"
    using t0 balanced_trans balanced_trans_by audio_trans keeps_trans unfolding audio_taken_def fst_conv by metis
  show ?thesis
  proof (cases err)
    case None
    then have "q' = q1\<lparr>rq_outcome := OutcomeServed\<rparr>" "g' = g1" using r s by (simp_all add: pr)
    then show ?thesis using taken_outcome [OF t] by simp
  next
    case (Some e)
    then have q': "q' = fail_request en e q1" "g' = g1" using r s by (simp_all add: pr)
    have "same_holdings q1 q'" unfolding q' using t by (intro fail_audio_holdings) (simp_all add: audio_taken_def audio_plain_def)
    from taken_same [OF this t] show ?thesis by (simp add: q')
  qed
qed

section \<open>The exit\<close>

lemma key_settle_audio_share:
  assumes "key_settle_audio now x a e st = (e', n, st')"
  shows "ms_reserved (meter c st') = ms_reserved (meter c st) - admitted_amount c a" "ks_in_flight st' = ks_in_flight st"
    "ev_key_id e' = ev_key_id e" "ev_endpoint e' = ev_endpoint e"
  using assms by (auto simp: key_settle_audio_def admitted_amount_def settled_seconds_def Let_def split: if_splits option.splits)

lemma settle_other_class: "c \<noteq> ''tokens'' \<Longrightarrow> ms_reserved (meter c (key_settle now a counted charged st)) = ms_reserved (meter c st)"
  by (simp add: key_settle_def Let_def)

lemma settle_admission_audio:
  assumes p: "audio_plain q" and s: "settle_admission bb now gone q g = (charged, q2, g2)"
  shows "rq_buffered q2 = rq_buffered q" "rq_no_event q2 = rq_no_event q" "rq_lease q2 = rq_lease q" "ev_key_id (rq_ev q2) = ev_key_id (rq_ev q)"
    and "g2 = g\<lparr>gw_limiter := gw_limiter g2\<rparr>"
    and "in_flight_of g2 kid = in_flight_of g kid - flight_held q kid" "reserved_of g2 kid = reserved_of g kid - reserved_held q kid"
    and "sound_class c \<Longrightarrow> class_reserved g2 kid c = class_reserved g kid c - amount_held q kid c"
proof -
  obtain au k where q: "rq_audio q = Some au" "rq_key q = Some k" "rq_image q = None" using p by (auto simp: audio_plain_def)
  have "rq_buffered q2 = rq_buffered q \<and> rq_no_event q2 = rq_no_event q \<and> rq_lease q2 = rq_lease q \<and> ev_key_id (rq_ev q2) = ev_key_id (rq_ev q)
    \<and> g2 = g\<lparr>gw_limiter := gw_limiter g2\<rparr> \<and> in_flight_of g2 kid = in_flight_of g kid - flight_held q kid
    \<and> reserved_of g2 kid = reserved_of g kid - reserved_held q kid
    \<and> (sound_class c \<longrightarrow> class_reserved g2 kid c = class_reserved g kid c - amount_held q kid c)"
  proof (cases "rq_adm q")
    case None
    then show ?thesis using s by (auto simp: settle_admission_def held_defs amount_held_def)
  next
    case (Some a)
    have ka: "ad_key a = k_id k" using p Some q by (auto simp: audio_plain_def)
    define st where "st = key_state_of (gw_limiter g) (k_id k)"
    obtain ev n st1 where au: "key_settle_audio now (audio_end_of gone q au) a (rq_ev q) st = (ev, n, st1)" by (metis surj_pair)
    obtain counted ch where row: "settle_row q a = (counted, ch)" by (metis surj_pair)
    define l where "l = (gw_limiter g)(k_id k \<mapsto> st1)"
    obtain t l2 where se: "settle now a counted ch l = (t, l2)" by (metis surj_pair)
    have g2: "g2 = g\<lparr>gw_limiter := l2\<rparr>" "q2 = q\<lparr>rq_ev := ev, rq_audio := Some (au\<lparr>au_speech_charged := n\<rparr>)\<rparr>"
      using s q Some au row se by (simp_all add: settle_admission_def settle_audio_def settle_image_def st_def l_def)
    note sa = key_settle_audio_share [OF au] and sh = settle_share [OF se]
    have l2: "l2 = l(k_id k \<mapsto> key_settle now a counted ch st1)" using se ka by (auto simp: settle_def l_def)
    have fl: "in_flight_of g2 kid = in_flight_of g kid - flight_held q kid"
      using sh [of kid] sa ka Some by (auto simp: in_flight_of_def g2 l_def st_def flight_held_def)
    have rs: "reserved_of g2 kid = reserved_of g kid - reserved_held q kid"
      using sh [of kid] sa(1) [of "''tokens''"] ka Some by (auto simp: reserved_of_def g2 l_def st_def reserved_held_def admitted_amount_def)
    have "sound_class c \<longrightarrow> class_reserved g2 kid c = class_reserved g kid c - amount_held q kid c"
      using sa(1) [of c] ka Some settle_other_class [of c now a counted ch st1]
      by (auto simp: class_reserved_def g2 l2 l_def st_def amount_held_def sound_class_def)
    then show ?thesis using fl rs sa g2 by simp
  qed
  then show "rq_buffered q2 = rq_buffered q" "rq_no_event q2 = rq_no_event q" "rq_lease q2 = rq_lease q" "ev_key_id (rq_ev q2) = ev_key_id (rq_ev q)"
    and "g2 = g\<lparr>gw_limiter := gw_limiter g2\<rparr>"
    and "in_flight_of g2 kid = in_flight_of g kid - flight_held q kid" "reserved_of g2 kid = reserved_of g kid - reserved_held q kid"
    and "sound_class c \<Longrightarrow> class_reserved g2 kid c = class_reserved g kid c - amount_held q kid c" by blast+
qed

lemma finish_audio_gives_back:
  assumes p: "audio_plain q" and f: "finish bb cap t1 t2 gone q g = g'"
  shows "in_flight_of g' kid = in_flight_of g kid - flight_held q kid
     \<and> reserved_of g' kid = reserved_of g kid - reserved_held q kid
     \<and> (sound_class c \<longrightarrow> class_reserved g' kid c = class_reserved g kid c - amount_held q kid c)
     \<and> holders (gw_queues g' i) = holders (gw_queues g i) - slot_held q i
     \<and> gw_leases g' i = gw_leases g i - lease_held q i
     \<and> gw_bodies g' = gw_bodies g - body_held q
     \<and> (\<exists>ev. gw_recorded g' = gw_recorded g @ (if rq_no_event q then [] else [ev]) \<and> length (ev_endpoint ev) \<le> 64
          \<and> ev_key_id ev = ev_key_id (rq_ev q))"
proof -
  define g1 where "g1 = release_slot cap q g"
  obtain charged q2 g2 where s: "settle_admission bb t1 gone q g1 = (charged, q2, g2)" by (cases "settle_admission bb t1 gone q g1") auto
  note sa = settle_admission_audio [OF p s]
  have nr: "\<not> rq_reading q" using p by (simp add: audio_plain_def)
  note ff = finish_fields [OF s [unfolded g1_def] nr sa(1-3) f, of i]
  have g1: "in_flight_of g1 kid = in_flight_of g kid" "reserved_of g1 kid = reserved_of g kid" "class_reserved g1 kid c = class_reserved g kid c"
    by (simp_all add: g1_def in_flight_of_def reserved_of_def class_reserved_def release_slot_queues)
  have g2: "gw_queues g2 = gw_queues g1" "gw_leases g2 = gw_leases g1" "gw_bodies g2 = gw_bodies g1" "gw_recorded g2 = gw_recorded g1"
    using arg_cong [OF sa(5), of gw_queues] arg_cong [OF sa(5), of gw_leases] arg_cong [OF sa(5), of gw_bodies]
      arg_cong [OF sa(5), of gw_recorded] by simp_all
  have l: "in_flight_of g' kid = in_flight_of g2 kid" "reserved_of g' kid = reserved_of g2 kid" "class_reserved g' kid c = class_reserved g2 kid c"
    using ff by (simp_all add: in_flight_of_def reserved_of_def class_reserved_def)
  have fe: "length (ev_endpoint (final_event t2 charged q2)) \<le> 64 \<and> ev_key_id (final_event t2 charged q2) = ev_key_id (rq_ev q)"
    by (simp add: final_event_def max_endpoint_len_def sa(4) Let_def)
  show ?thesis using l g1 sa(6,7,8) fe ff g2 by (simp add: g1_def release_slot_queues) blast
qed

lemma finish_unadmitted:
  assumes "bare q" "rq_adm q = None" and f: "finish bb cap t1 t2 gone q g = g'"
  shows "class_reserved g' kid c = class_reserved g kid c"
proof -
  have s: "settle_admission bb t1 gone q (release_slot cap q g) = (0, q, release_slot cap q g)" using assms(2) by (simp add: settle_admission_def)
  have "\<not> rq_reading q" using assms(1) by (simp add: bare_def)
  from finish_fields [OF s this _ _ _ f] show ?thesis by (simp add: class_reserved_def release_slot_queues)
qed

section \<open>An audio request gives back what it takes\<close>

lemma route_audio_kind: "route_of m p up b = RouteAudio kind \<Longrightarrow> kind \<noteq> images_endpoint \<and> b"
  by (auto simp: route_of_def endpoint_defs split: if_splits)

lemma authenticate_frame:
  assumes "authenticate_request en (q, g) = (err, q', g')"
  shows "rq_handed_off q' = rq_handed_off q" "rq_n q' = rq_n q" "class_reserved g' kid c = class_reserved g kid c"
  using assms
  by (auto simp: authenticate_request_def class_reserved_def see_request_def touch_share Let_def split: option.splits sum.splits status.splits)

lemma serve_audio:
  assumes o: "audio_others_ok hs en dw" and rt: "route_of m p up (route (hs_router hs) p \<noteq> None) = RouteAudio kind"
    and s: "serve hs en dec up (audio_route ax hs en) (new_request now (hs_router hs) m p, g) = (q', g')"
  shows "(in_balance (new_request now (hs_router hs) m p, g) (q', g') \<or> balanced_by dw (new_request now (hs_router hs) m p, g) (q', g'))
     \<and> audio_balance (new_request now (hs_router hs) m p, g) (q', g') \<and> rq_no_event q' = unknown_secret en
     \<and> ev_key_id (rq_ev q') = known_key en \<and> (audio_plain q' \<or> bare q' \<and> rq_adm q' = None)"
proof -
  let ?q = "new_request now (hs_router hs) m p"
  have n: "fresh ?q" "\<not> rq_no_event ?q" "ev_key_id (rq_ev ?q) = []" "rq_destination ?q = route (hs_router hs) p" "rq_path ?q = p" "rq_method ?q = m"
    using new_request_fresh by blast+
  have n2: "\<not> rq_handed_off ?q" "\<not> n_stream (rq_n ?q)" by (simp_all add: new_request_def no_normalized_def Let_def)
  have ad: "adapter_ok en" using o by (simp add: audio_others_ok_def others_ok_def)
  obtain e1 q1 g1 where a: "authenticate_request en (?q, g) = (e1, q1, g1)" by (cases "authenticate_request en (?q, g)") auto
  note au = authenticate_ok [OF n(1-3) a] and fr = authenticate_frame [OF a]
  have adm: "rq_adm q1 = None" "rq_adm ?q = None" "bare q1" using au n(1) by (simp_all add: fresh_def)
  have ab: "audio_balance (?q, g) (q1, g1)" using adm fr(3) by (intro audio_frame) simp_all
  show ?thesis
  proof (cases e1)
    case (Some e)
    then have q': "q' = fail_request en e q1" "g' = g1" using s by (simp_all add: serve_def a)
    note f = fail_request_same [OF adm(3) ad, of e]
    have "in_balance (?q, g) (q', g')" using au balanced_trans same_balanced [of q1 q' g1] f unfolding q' by blast
    moreover have "audio_balance (?q, g) (q', g')"
      using ab f audio_frame [of q' q1 g1 g1] unfolding q' by (auto intro: audio_trans simp: same_resources_def)
    moreover have "bare q' \<and> rq_adm q' = None" using f adm unfolding q' by (simp add: same_resources_def bare_def)
    ultimately show ?thesis using au f unfolding q' by (simp add: keeps_def)
  next
    case None
    have "serve hs en dec up (audio_route ax hs en) (?q, g) = audio_route ax hs en (RouteAudio kind) (q1, g1)"
      using None au n rt by (simp add: serve_def a)
    then have pr: "proxy_audio ax hs en kind (q1, g1) = (q', g')" using s by (simp add: audio_route_def)
    have "let_in q1" using None au n n2 fr(1,2) route_audio_kind [OF rt] by (auto simp: let_in_def)
    from proxy_audio_taken [OF o this _ pr] route_audio_kind [OF rt] have t: "audio_taken dw (q1, g1) (q', g')" by simp
    have "in_balance (?q, g) (q', g') \<or> balanced_by dw (?q, g) (q', g')"
      using t au balanced_trans balanced_trans_by unfolding audio_taken_def by blast
    then show ?thesis using t au audio_trans [OF ab] by (auto simp: audio_taken_def keeps_def)
  qed
qed


text \<open>A host with a speech engine, and a friend who asks it to speak.\<close>

definition speaking_host :: host where
  "speaking_host = sample_host\<lparr>hs_router := new_router \<lparr>cf_embed = False, cf_images = False, cf_image_model = [], cf_transcribe = False,
       cf_transcribe_model = [], cf_speech = True, cf_speech_model = ''kokoro'', cf_models_pinned = [], cf_log_prompts = False\<rparr>\<rparr>"

definition sample_audio :: audio_env where
  "sample_audio = \<lparr>ah_history_down = False, ah_max_seconds = 300, ah_voices = (\<lambda>_. []),
     ah_classes = \<lparr>un_han = (\<lambda>_. False), un_digit = ascii_digit, un_letter = (\<lambda>_. True), un_space = (\<lambda>c. c = 32)\<rparr>, ah_g3 = (\<lambda>_. []),
     ah_parts = (\<lambda>_. NotMultipart), ah_measured = (\<lambda>_. None), ah_text = (\<lambda>_. None), ah_retry_after = [], ah_retry_date = (\<lambda>_. None),
     ah_disposition = [], ah_length = [], ah_pieces = (\<lambda>b. [b]), ah_partial = (\<lambda>_. False)\<rparr>"

definition speaking_env :: env where
  "speaking_env = (sample_env ''Bearer s'')\<lparr>en_decode := (\<lambda>_. Some [(''input'', JStr ''hi'')])\<rparr>"


section \<open>What is charged is what is written\<close>

definition today_of :: "string \<Rightarrow> key_state \<Rightarrow> rat" where "today_of c st = ms_today (meter c st)"

definition charged_class :: "string \<Rightarrow> event \<Rightarrow> rat" where
  "charged_class c ev =
     (case ev_meters ev of None \<Rightarrow> 0 | Some ms \<Rightarrow> sum_list (map um_charged (filter (\<lambda>m. um_class m = c) ms)))"

lemma today_prune_twice: "ks_day st = truncate_day now \<Longrightarrow> today_of c (prune now st) = today_of c st"
  by (simp add: today_of_def)

lemma today_settle_other: "c \<noteq> ''tokens'' \<Longrightarrow> today_of c (key_settle now a counted charged st) = today_of c (prune now st)"
  by (simp add: today_of_def key_settle_def Let_def)

text \<open>What the audio ledger adds to the day, and what it writes on the event.\<close>

lemma key_settle_audio_today:
  assumes "key_settle_audio now x a e st = (e', n, st')"
  shows "today_of ''audio'' st' = today_of ''audio'' (prune now st) + (if ae_dispatched x \<and> \<not> ae_speech x then ev_seconds e' else 0)"
    and "today_of ''speech'' st' = today_of ''speech'' (prune now st) + of_int n"
    and "ks_day st' = truncate_day now" and "ev_settled_at e' = now" and "ev_meters e' = ev_meters e" "ev_kind e' = ev_kind e"
    and "ae_dispatched x \<and> \<not> ae_speech x \<or> ev_seconds e' = ev_seconds e" "n = 0 \<or> ev_characters e' = n"
  using assms
  by (auto simp: key_settle_audio_def today_of_def settled_seconds_def Let_def simp del: prune_sel(7) split: if_splits option.splits)

lemma charged_final_audio:
  assumes "ev_meters (rq_ev q) = None" "rq_audio q = Some au"
  shows "charged_class ''audio'' (final_event t ch q) = (if au_dispatched au then ev_seconds (rq_ev q) else 0)"
    and "au_speech_charged au = 0 \<or> ev_characters (rq_ev q) = au_speech_charged au
      \<Longrightarrow> charged_class ''speech'' (final_event t ch q) = of_int (au_speech_charged au)"
  using assms by (auto simp: charged_class_def final_event_def resource_meters_def charge_meter_def Let_def)

text \<open>
  C6. The audio ledger and the log agree. What the exit of an audio request adds to the key's seconds and characters of the day is what
  the event it records says was charged, on the event's accounting time, so the counters rebuilt from the log after a restart are the
  ones the host had; and a request the engine was never given is charged nothing.
\<close>

theorem audio_ledger_agrees_with_log:
  assumes p: "audio_plain q" and a: "rq_adm q = Some a" "rq_audio q = Some au" and e: "\<not> rq_no_event q" "ev_meters (rq_ev q) = None"
      "ev_seconds (rq_ev q) = 0" and t: "settle_t \<noteq> 0" and c: "c \<in> {''audio'', ''speech''}"
    and f: "finish bb cap settle_t end_t gone q g = g'"
  shows "\<exists>ev. gw_recorded g' = gw_recorded g @ [ev] \<and> accounting_time ev = settle_t
     \<and> today_of c (key_state_of (gw_limiter g') (ad_key a)) =
         today_of c (prune settle_t (key_state_of (gw_limiter g) (ad_key a))) + charged_class c ev
     \<and> (\<not> au_dispatched au \<longrightarrow> charged_class c ev = 0)"
proof -
  define g1 where "g1 = release_slot cap q g"
  obtain charged q2 g2 where s: "settle_admission bb settle_t gone q g1 = (charged, q2, g2)" by (cases "settle_admission bb settle_t gone q g1") auto
  note sa = settle_admission_audio [OF p s]
  have nr: "\<not> rq_reading q" using p by (simp add: audio_plain_def)
  note ff = finish_fields [OF s [unfolded g1_def] nr sa(1-3) f]
  obtain k where k: "rq_key q = Some k" "rq_image q = None" "ad_key a = k_id k" using p a by (auto simp: audio_plain_def)
  define st where "st = key_state_of (gw_limiter g) (k_id k)"
  have l1: "gw_limiter g1 = gw_limiter g" by (simp add: g1_def release_slot_queues)
  obtain ev n st1 where au: "key_settle_audio settle_t (audio_end_of gone q au) a (rq_ev q) st = (ev, n, st1)" by (metis surj_pair)
  obtain counted ch where row: "settle_row q a = (counted, ch)" by (metis surj_pair)
  obtain t2 l2 where se: "settle settle_t a counted ch ((gw_limiter g)(k_id k \<mapsto> st1)) = (t2, l2)" by (metis surj_pair)
  have g2: "gw_limiter g2 = l2" "q2 = q\<lparr>rq_ev := ev, rq_audio := Some (au\<lparr>au_speech_charged := n\<rparr>)\<rparr>"
    using s k a au row se by (auto simp: settle_admission_def settle_audio_def settle_image_def st_def l1)
  have l2: "key_state_of l2 (k_id k) = key_settle settle_t a counted ch st1" using se k by (auto simp: settle_def)
  note ka = key_settle_audio_today [OF au]
  have td: "today_of c (key_state_of (gw_limiter g') (k_id k)) = today_of c st1"
    using ff g2(1) l2 c ka(3) by (auto simp: today_settle_other today_prune_twice)
  have x: "ae_dispatched (audio_end_of gone q au) = au_dispatched au" by (simp add: audio_end_of_def)
  let ?ev = "final_event end_t charged q2"
  have "charged_class c ?ev = today_of c st1 - today_of c (prune settle_t st)"
    using charged_final_audio [of q2 "au\<lparr>au_speech_charged := n\<rparr>" end_t charged] ka(1,2,5,7,8) e c x by (auto simp: g2)
  moreover have "accounting_time ?ev = settle_t" using ka(4) t by (simp add: accounting_time_def final_event_def g2 is_zero_def Let_def)
  moreover have "\<not> au_dispatched au \<Longrightarrow> charged_class c ?ev = 0"
    using charged_final_audio [of q2 "au\<lparr>au_speech_charged := n\<rparr>" end_t charged] ka(5,8) e c au x
    by (auto simp: g2 key_settle_audio_def Let_def)
  moreover have "gw_recorded g' = gw_recorded g @ [?ev]"
    using ff e arg_cong [OF sa(5), of gw_recorded] by (simp add: g1_def release_slot_queues)
  ultimately show ?thesis using td k by (intro exI [of _ ?ev]) (simp add: st_def)
qed

text \<open>Five characters of speech that were served.\<close>

definition sample_spoken :: request where
  "sample_spoken = sample_request\<lparr>rq_adm := Some (sample_admission\<lparr>ad_speech_chars := 5\<rparr>), rq_kind := speech_endpoint, rq_outcome := OutcomeServed,
     rq_key := Some (sample_body_key\<lparr>k_id := ad_key sample_admission\<rparr>), rq_destination := Some text_destination,
     rq_audio := Some (new_audio\<lparr>au_dispatched := True\<rparr>)\<rparr>"

theorem audio_ledger_agrees_with_log_witness:
  "let g' = finish 0 1 9 9 False sample_spoken idle_gateway in
     \<exists>ev. gw_recorded g' = [ev] \<and> accounting_time ev = 9 \<and> today_of ''speech'' (key_state_of (gw_limiter g') (ad_key sample_admission)) = charged_class ''speech'' ev"
proof -
  have p: "audio_plain sample_spoken"
    by (simp add: audio_plain_def sample_spoken_def sample_request_def new_request_def Let_def sample_admission_def split: option.split)
  have q: "rq_adm sample_spoken = Some (sample_admission\<lparr>ad_speech_chars := 5\<rparr>)" "rq_audio sample_spoken = Some (new_audio\<lparr>au_dispatched := True\<rparr>)"
    "\<not> rq_no_event sample_spoken" "ev_meters (rq_ev sample_spoken) = None" "ev_seconds (rq_ev sample_spoken) = 0"
    by (simp_all add: sample_spoken_def sample_request_def new_request_def empty_event_def Let_def split: option.split)
  have z: "today_of ''speech'' (prune 9 (key_state_of (gw_limiter idle_gateway) (ad_key sample_admission))) = 0"
    by (simp add: today_of_def idle_gateway_def key_state_of_def new_limiter_def new_key_state_def meter_def zero_meter_def prune_def prune_meter_def Let_def)
  have r: "gw_recorded idle_gateway = []" by (simp add: idle_gateway_def)
  from audio_ledger_agrees_with_log [OF p q _ _ refl, of 9 "''speech''" 0 1 9 False idle_gateway] z r
  show ?thesis by (auto simp: Let_def)
qed

section \<open>What a transcription reserves and sends\<close>

definition part_seconds :: "audio_env \<Rightarrow> audio_part \<Rightarrow> rat" where
  "part_seconds ax p = (case container_seconds (ap_data p) of Some t \<Rightarrow> t | None \<Rightarrow> ah_max_seconds ax)"

definition file_parts :: "audio_part list \<Rightarrow> audio_part list" where "file_parts = filter (\<lambda>p. ap_name p = ''file'')"

lemma scan_file_done:
  "scan_file ax d s = (None, s') \<Longrightarrow> \<not> pc_file s \<and> d \<noteq> [] \<and> pc_file s'
     \<and> pc_seconds s' = Some (case container_seconds d of Some t \<Rightarrow> t | None \<Rightarrow> ah_max_seconds ax)
     \<and> (case container_seconds d of Some t \<Rightarrow> t | None \<Rightarrow> ah_max_seconds ax) \<le> ah_max_seconds ax
     \<and> pc_model s' = pc_model s \<and> pc_format s' = pc_format s"
  by (auto simp: scan_file_def Let_def not_less split: if_splits option.splits)

lemma scan_part_done:
  assumes "scan_part ax p s = (None, s')"
  shows "if ap_name p = ''file'' then \<not> pc_file s \<and> ap_data p \<noteq> [] \<and> pc_file s' \<and> pc_seconds s' = Some (part_seconds ax p) \<and> part_seconds ax p \<le> ah_max_seconds ax
    else pc_file s' = pc_file s \<and> pc_seconds s' = pc_seconds s"
  using assms scan_file_done [of ax "ap_data p" s s'] by (auto simp: scan_part_def part_seconds_def split: if_splits)

lemma scan_parts_done:
  "scan_parts ax ps e s = (None, s') \<Longrightarrow>
     e = PartsDone \<and> (if file_parts ps = [] then pc_file s' = pc_file s \<and> pc_seconds s' = pc_seconds s
        else \<exists>p. file_parts ps = [p] \<and> \<not> pc_file s \<and> ap_data p \<noteq> [] \<and> pc_file s' \<and> pc_seconds s' = Some (part_seconds ax p)
          \<and> part_seconds ax p \<le> ah_max_seconds ax)"
proof (induction ps arbitrary: s)
  case Nil
  then show ?case by (cases e) (simp_all add: file_parts_def)
next
  case (Cons p ps)
  obtain s1 where s1: "scan_part ax p s = (None, s1)" "scan_parts ax ps e s1 = (None, s')"
    using Cons.prems by (auto split: prod.splits option.splits)
  show ?case
  proof (cases "ap_name p = ''file''")
    case True
    then have "file_parts (p # ps) = p # file_parts ps" by (simp add: file_parts_def)
    then show ?thesis using scan_part_done [OF s1(1)] Cons.IH [OF s1(2)] True by (auto split: if_splits)
  next
    case False
    then have "file_parts (p # ps) = file_parts ps" by (simp add: file_parts_def)
    then show ?thesis using scan_part_done [OF s1(1)] Cons.IH [OF s1(2)] False by (simp split: if_splits)
  qed
qed

text \<open>
  C35. A transcription that is accepted has exactly one file, which is not empty; the seconds it reserves are those the container of the
  file holds, or the ceiling of the host when it cannot be measured, and never more than the ceiling; and the engine is sent the friend's
  fields in their order, with the model that was chosen and a format in the place of the friend's.
\<close>

theorem transcription_reserves_its_length:
  assumes "read_transcription ax en raw q = (Inr (model, payload), q')"
  shows "\<exists>ps p. ah_parts ax raw = Multipart ps PartsDone \<and> filter (\<lambda>p. ap_name p = ''file'') ps = [p] \<and> ap_data p \<noteq> []
     \<and> ev_reserved_seconds (rq_ev q') = (case container_seconds (ap_data p) of Some t \<Rightarrow> t | None \<Rightarrow> ah_max_seconds ax)
     \<and> ev_reserved_seconds (rq_ev q') \<le> ah_max_seconds ax
     \<and> (\<exists>format. payload = AudioForm (filter (\<lambda>p. ap_name p \<noteq> ''model'' \<and> ap_name p \<noteq> ''response_format'') ps
          @ [field_part ''model'' model, field_part ''response_format'' format]) \<and> format \<noteq> [])"
proof -
  obtain ps e where m: "ah_parts ax raw = Multipart ps e"
    using assms by (cases "ah_parts ax raw") (auto simp: read_transcription_def)
  obtain err s where sc: "scan_parts ax ps e no_parts = (err, s)" by (metis surj_pair)
  have r: "err = None" "pc_file s" "q' = note_scan s q" "payload = AudioForm (rebuilt_form model (text_of (pc_format s)) ps)"
    using assms m sc by (auto simp: read_transcription_def Let_def split: option.splits if_splits)
  note sd = scan_parts_done [OF sc [unfolded r(1)]]
  obtain p where p: "e = PartsDone" "file_parts ps = [p]" "ap_data p \<noteq> []" "pc_seconds s = Some (part_seconds ax p)" "part_seconds ax p \<le> ah_max_seconds ax"
    using sd r(2) by (auto simp: no_parts_def split: if_splits)
  have "ev_reserved_seconds (rq_ev q') = part_seconds ax p" by (simp add: r(3) note_scan_def p(4) Let_def)
  then show ?thesis using m p r(4) by (auto simp: file_parts_def part_seconds_def rebuilt_form_def)
qed

definition form_audio :: audio_env where
  "form_audio = sample_audio\<lparr>ah_parts := (\<lambda>_. Multipart [field_part ''file'' (wav_file 8000 2 8 ''ab''), field_part ''model'' ''w''] PartsDone)\<rparr>"

theorem transcription_reserves_its_length_witness:
  "\<exists>q' out. read_transcription form_audio speaking_env ''x'' sample_spoken = (Inr (''m'', AudioForm out), q') \<and> ev_reserved_seconds (rq_ev q') = 2 / 16000"
proof -
  have m: "container_seconds (wav_file 8000 2 8 ''ab'') = Some (2 / 16000)" using wav_measured [of 8000 2 8 "''ab''"] by simp
  have n: "wav_file 8000 2 8 ''ab'' \<noteq> []" by (simp add: wav_file_def Let_def)
  have f: "ah_max_seconds form_audio = 300" "ah_parts form_audio ''x'' = Multipart [field_part ''file'' (wav_file 8000 2 8 ''ab''), field_part ''model'' ''w''] PartsDone"
    by (simp_all add: form_audio_def sample_audio_def)
  have d: "rq_destination sample_spoken = Some text_destination" by (simp add: sample_spoken_def)
  have i: "destination_info speaking_env sample_spoken = Some sample_info"
    by (simp add: destination_info_def d speaking_env_def sample_env_def)
  have sel: "request_audio_model speaking_env r ''w'' = ''m''" if "rq_destination r = Some text_destination" for r
    using that by (simp add: request_audio_model_def select_audio_model_def destination_info_def speaking_env_def sample_env_def sample_info_def engine_audio_model_def text_destination_def)
  define sc where "sc = snd (scan_parts form_audio [field_part ''file'' (wav_file 8000 2 8 ''ab''), field_part ''model'' ''w''] PartsDone no_parts)"
  have sc: "scan_parts form_audio [field_part ''file'' (wav_file 8000 2 8 ''ab''), field_part ''model'' ''w''] PartsDone no_parts = (None, sc)"
    "pc_file sc" "pc_model sc = Some ''w''"
    unfolding sc_def by (simp_all add: scan_part_def scan_file_def field_part_def no_parts_def n m f Let_def)
  have nd: "rq_destination (note_scan sc sample_spoken) = Some text_destination"
    using scan_holdings [of sample_spoken sc] d by (simp add: same_holdings_def)
  have "\<exists>q' out. read_transcription form_audio speaking_env ''x'' sample_spoken = (Inr (''m'', AudioForm out), q')"
    by (simp add: read_transcription_def f sc Let_def text_of_def sel [OF nd] del: scan_parts.simps)
  then obtain q' out where r: "read_transcription form_audio speaking_env ''x'' sample_spoken = (Inr (''m'', AudioForm out), q')" by blast
  from transcription_reserves_its_length [OF r] r f(2) m show ?thesis by (auto simp: field_part_def)
qed

end
