(* ===== verification/Run_Step.thy ===== *)
theory Run_Step
  imports Pipeline_Safety Run_Manager
begin

text \<open>
  One step of a run through the request pipeline (\<open>ExecuteStep\<close> and \<open>runSink\<close> of internal/gateway/runs.go, agent_message.go): the
  step's input is a request of its key, its answer goes to a buffer instead of a friend, and the exit of the request settles it before
  the run sees the result. JSON is a parameter, and so are the image handler and how a writer's pieces become bytes.
\<close>

section \<open>The sink\<close>

datatype sink_error = SinkGone | SinkLimit | SinkRefused run_error

record sink =
  sk_bytes :: string
  sk_error :: "sink_error option"

definition new_sink :: sink where "new_sink = \<lparr>sk_bytes = [], sk_error = None\<rparr>"

text \<open>\<open>gone\<close> is whether the context of the step has ended; \<open>ob\<close> is the run's own reader of the bytes, which may refuse them.\<close>

definition sink_write :: "(string \<Rightarrow> string \<Rightarrow> run_error option) \<Rightarrow> bool \<times> string \<Rightarrow> sink \<Rightarrow> sink" where
  "sink_write ob = (\<lambda>(gone, p) s.
     let s = (if gone then s\<lparr>sk_error := Some SinkGone\<rparr>
              else if length (sk_bytes s) + length p > max_output then s\<lparr>sk_error := Some SinkLimit\<rparr> else s)
     in if sk_error s \<noteq> None then s
        else (case ob (sk_bytes s) p of
                Some e \<Rightarrow> s\<lparr>sk_error := Some (SinkRefused e)\<rparr>
              | None \<Rightarrow> s\<lparr>sk_bytes := sk_bytes s @ p\<rparr>))"

definition sink_after :: "(string \<Rightarrow> string \<Rightarrow> run_error option) \<Rightarrow> (bool \<times> string) list \<Rightarrow> sink" where
  "sink_after ob ws = fold (sink_write ob) ws new_sink"

lemma sink_write_error: "sk_error s \<noteq> None \<Longrightarrow> sk_bytes (sink_write ob w s) = sk_bytes s \<and> sk_error (sink_write ob w s) \<noteq> None"
  by (cases w) (auto simp: sink_write_def Let_def)

lemma sink_writes_error: "sk_error s \<noteq> None \<Longrightarrow> sk_bytes (fold (sink_write ob) ws s) = sk_bytes s \<and> sk_error (fold (sink_write ob) ws s) \<noteq> None"
  by (induction ws arbitrary: s) (use sink_write_error in auto)

lemma sink_write_cases:
  assumes "sk_error s = None"
  shows "sk_error (sink_write ob (gone, p) s) \<noteq> None \<and> sk_bytes (sink_write ob (gone, p) s) = sk_bytes s
    \<or> sink_write ob (gone, p) s = s\<lparr>sk_bytes := sk_bytes s @ p\<rparr> \<and> \<not> gone \<and> length (sk_bytes s @ p) \<le> max_output"
  using assms by (auto simp: sink_write_def Let_def split: option.split)

lemma sink_fold:
  assumes "sk_error s = None" and "length (sk_bytes s) \<le> max_output"
  shows "\<exists>n. sk_bytes (fold (sink_write ob) ws s) = sk_bytes s @ concat (map snd (take n ws))
     \<and> length (sk_bytes (fold (sink_write ob) ws s)) \<le> max_output \<and> list_all (\<lambda>w. \<not> fst w) (take n ws)
     \<and> (sk_error (fold (sink_write ob) ws s) = None \<longrightarrow> n = length ws)"
  using assms
proof (induction ws arbitrary: s)
  case Nil
  then show ?case by simp
next
  case (Cons w ws)
  obtain gone p where w: "w = (gone, p)" by (cases w)
  from sink_write_cases [OF Cons.prems(1), of ob gone p] show ?case
  proof (elim disjE conjE)
    assume e: "sk_error (sink_write ob (gone, p) s) \<noteq> None" "sk_bytes (sink_write ob (gone, p) s) = sk_bytes s"
    then show ?thesis using sink_writes_error [OF e(1), of ob ws] Cons.prems by (intro exI [of _ 0]) (simp add: w)
  next
    assume k: "sink_write ob (gone, p) s = s\<lparr>sk_bytes := sk_bytes s @ p\<rparr>" "\<not> gone" "length (sk_bytes s @ p) \<le> max_output"
    define t where "t = s\<lparr>sk_bytes := sk_bytes s @ p\<rparr>"
    have t: "sk_error t = None" "length (sk_bytes t) \<le> max_output" "sk_bytes t = sk_bytes s @ p"
      using k(3) Cons.prems by (simp_all add: t_def)
    obtain n where "sk_bytes (fold (sink_write ob) ws t) = sk_bytes t @ concat (map snd (take n ws))
     \<and> length (sk_bytes (fold (sink_write ob) ws t)) \<le> max_output \<and> list_all (\<lambda>w. \<not> fst w) (take n ws)
     \<and> (sk_error (fold (sink_write ob) ws t) = None \<longrightarrow> n = length ws)" using Cons.IH [OF t(1,2)] ..
    moreover have "sink_write ob w s = t" using k(1) by (simp add: w t_def)
    ultimately show ?thesis using k(2) t(3) by (intro exI [of _ "Suc n"]) (auto simp: w)
  qed
qed

text \<open>What the sink holds is the beginning of what was written, at most the limit of an output, and all of it when it reports no error.\<close>

lemma sink_holds_beginning:
  "\<exists>n. sk_bytes (sink_after ob ws) = concat (map snd (take n ws)) \<and> length (sk_bytes (sink_after ob ws)) \<le> max_output
     \<and> (sk_error (sink_after ob ws) = None \<longrightarrow> n = length ws)"
  using sink_fold [of new_sink ob ws] by (auto simp: sink_after_def new_sink_def max_output_def)

section \<open>The message of an agent's model\<close>

record tool_call =
  tc_id :: string
  tc_type :: string
  tc_name :: string
  tc_arguments :: string

definition no_tool_call :: tool_call where "no_tool_call = \<lparr>tc_id = [], tc_type = [], tc_name = [], tc_arguments = []\<rparr>"

record message_choice =
  mc_content :: string
  mc_calls :: "(int \<times> tool_call) list"
  mc_finish :: string

record agent_message =
  am_text :: string
  am_calls :: "tool_call list"
  am_finish :: string

definition first_text :: "string \<Rightarrow> string \<Rightarrow> string" where "first_text a b = (if a = [] then b else a)"

definition merge_call :: "tool_call \<Rightarrow> tool_call \<Rightarrow> tool_call" where
  "merge_call d c = \<lparr>tc_id = first_text (tc_id c) (tc_id d), tc_type = first_text (tc_type c) (tc_type d),
     tc_name = first_text (tc_name c) (tc_name d), tc_arguments = tc_arguments c @ tc_arguments d\<rparr>"

text \<open>The list grows up to the index of a call.\<close>

definition grow_calls :: "nat \<Rightarrow> tool_call list \<Rightarrow> tool_call list" where
  "grow_calls i cs = cs @ replicate (i + 1 - length cs) no_tool_call"

fun message_calls :: "(int \<times> tool_call) list \<Rightarrow> tool_call list \<Rightarrow> run_error + tool_call list" where
  "message_calls [] cs = Inr cs"
| "message_calls ((i, d) # ds) cs =
     (if i < 0 \<or> i > 127 then Inl ErrLimit
      else (let cs = grow_calls (nat i) cs in message_calls ds (cs[nat i := merge_call d (cs ! nat i)])))"

fun message_choices :: "message_choice list \<Rightarrow> agent_message \<Rightarrow> run_error + agent_message" where
  "message_choices [] m = Inr m"
| "message_choices (c # cs) m =
     (case message_calls (mc_calls c) (am_calls m) of
        Inl e \<Rightarrow> Inl e
      | Inr calls \<Rightarrow>
          message_choices cs \<lparr>am_text = am_text m @ mc_content c, am_calls = calls,
             am_finish = (if mc_finish c = [] then am_finish m else mc_finish c)\<rparr>)"

text \<open>One line of the stream; \<open>decode\<close> gives nothing for a frame that is no JSON object or carries an error.\<close>

definition message_line :: "(string \<Rightarrow> message_choice list option) \<Rightarrow> string \<Rightarrow> agent_message \<Rightarrow> run_error + agent_message" where
  "message_line decode l m =
     (let line = trim_space l in
      if \<not> has_prefix ''data:'' line then Inr m
      else (let payload = trim_space (drop 5 line) in
            if payload = ''[DONE]'' then Inr m
            else (case decode payload of None \<Rightarrow> Inl ErrInvalid | Some cs \<Rightarrow> message_choices cs m)))"

text \<open>The scanner's lines: one that does not fit into its buffer ends the scan with an error.\<close>

fun message_lines :: "(string \<Rightarrow> message_choice list option) \<Rightarrow> string list \<Rightarrow> agent_message \<Rightarrow> run_error + agent_message" where
  "message_lines decode [] m = (if am_finish m = [] then Inl ErrInvalid else Inr m)"
| "message_lines decode (l # ls) m =
     (if length l \<ge> max_output then Inl ErrInvalid
      else (case message_line decode l m of Inl e \<Rightarrow> Inl e | Inr m \<Rightarrow> message_lines decode ls m))"

definition agent_message_of ::
    "(string \<Rightarrow> message_choice list option) \<Rightarrow> (agent_message \<Rightarrow> string) \<Rightarrow> string \<Rightarrow> run_error + string" where
  "agent_message_of decode encode raw =
     (case message_lines decode (split_on (CHR 0x0A) raw) \<lparr>am_text = [], am_calls = [], am_finish = []\<rparr> of
        Inl e \<Rightarrow> Inl e
      | Inr m \<Rightarrow> if length (encode m) > max_output then Inl ErrLimit else Inr (encode m))"

text \<open>A stream that gives no message is kept as the end of its bytes; \<open>fallback\<close> is the JSON around them.\<close>

definition agent_record ::
    "(string \<Rightarrow> message_choice list option) \<Rightarrow> (agent_message \<Rightarrow> string) \<Rightarrow> (string \<Rightarrow> string) \<Rightarrow> string \<Rightarrow> string" where
  "agent_record decode encode fallback raw =
     (case agent_message_of decode encode raw of
        Inr r \<Rightarrow> r
      | Inl e \<Rightarrow> fallback (drop (length raw - 65536) raw))"

lemma message_calls_bounded: "message_calls ds cs = Inr cs' \<Longrightarrow> length cs \<le> 128 \<Longrightarrow> length cs' \<le> 128"
proof (induction ds cs rule: message_calls.induct)
  case (2 i d ds cs)
  then show ?case by (auto simp: Let_def grow_calls_def nat_le_iff split: if_splits)
qed simp

lemma message_choices_bounded: "message_choices cs m = Inr m' \<Longrightarrow> length (am_calls m) \<le> 128 \<Longrightarrow> length (am_calls m') \<le> 128"
  by (induction cs m rule: message_choices.induct) (auto split: sum.splits dest: message_calls_bounded)

section \<open>The step\<close>

record step_env =
  xv_valid :: "string \<Rightarrow> bool"
  xv_agent :: bool
  xv_writes :: "writer \<Rightarrow> (bool \<times> string) list"
  xv_observe :: "string \<Rightarrow> string \<Rightarrow> run_error option"
  xv_encode :: "json \<Rightarrow> string"
  xv_quote :: "string \<Rightarrow> string"
  xv_record :: "string \<Rightarrow> string"
  xv_image :: "string \<Rightarrow> string \<Rightarrow> request \<times> gateway \<Rightarrow> request \<times> gateway"
  xv_panic :: "nat option"

datatype step_error =
    StepCause string | StepRun run_error | StepStore string | StepPanic | StepInner gw_error | StepSink sink_error | StepEnded string string

text \<open>The request of a step: its body is the step's input, and nothing about it is read from a connection.\<close>

definition step_request_env :: "string \<Rightarrow> env \<Rightarrow> env" where
  "step_request_env inp en = en\<lparr>en_body := BodyRead inp, en_content_length := int (length inp)\<rparr>"

text \<open>
  \<open>proxy\<close> when the stage \<open>xv_panic\<close> panics, if it is reached: the stages before it have run, and only the deferred exit follows.
\<close>

definition panicking_proxy :: "host \<Rightarrow> env \<Rightarrow> nat \<Rightarrow> string \<Rightarrow> request \<times> gateway \<Rightarrow> bool \<times> request \<times> gateway" where
  "panicking_proxy hs en j kind = (\<lambda>(q, g).
     case run_stages en 0 (take j (proxy_stages hs en)) (q\<lparr>rq_kind := kind\<rparr>, g) of
       (Some e, q, g) \<Rightarrow> (False, fail_request en e q, g)
     | (None, q, g) \<Rightarrow> (\<not> rq_handed_off q, q, g))"

definition step_proxy :: "step_env \<Rightarrow> host \<Rightarrow> env \<Rightarrow> string \<Rightarrow> request \<times> gateway \<Rightarrow> bool \<times> request \<times> gateway" where
  "step_proxy xv hs en kind s =
     (case xv_panic xv of Some j \<Rightarrow> panicking_proxy hs en j kind s | None \<Rightarrow> (False, proxy hs en kind s))"

text \<open>Whether the engine's response had come when the pipeline ended: every stage before the engine call went through.\<close>

definition engine_answered :: "step_env \<Rightarrow> host \<Rightarrow> env \<Rightarrow> string \<Rightarrow> request \<times> gateway \<Rightarrow> bool" where
  "engine_answered xv hs en kind = (\<lambda>(q, g).
     (case en_engine en of EngineReplied sent resp \<Rightarrow> True | EngineFailed sent timed_out \<Rightarrow> False)
     \<and> (case xv_panic xv of Some j \<Rightarrow> j > 9 | None \<Rightarrow> True)
     \<and> (case run_stages en 0 (take 9 (proxy_stages hs en)) (q\<lparr>rq_kind := kind\<rparr>, g) of
          (err, q, g) \<Rightarrow> err = None \<and> \<not> rq_handed_off q))"

text \<open>The event as the exit leaves it on the request.\<close>

definition finished_event :: "duration \<Rightarrow> int \<Rightarrow> gotime \<Rightarrow> gotime \<Rightarrow> bool \<Rightarrow> request \<Rightarrow> gateway \<Rightarrow> event" where
  "finished_event backoff_base cap settle_t end_t gone q g =
     (case settle_admission backoff_base settle_t gone q (release_slot cap q (release_reading q g)) of
        (charged, q, g) \<Rightarrow>
          if rq_no_event q
          then (rq_ev q)\<lparr>ev_meters := (let ms = resource_meters (rq_ev q) in if ms = [] then None else Some (map (charge_meter q charged) ms))\<rparr>
          else final_event end_t charged q)"

definition finished :: "host \<Rightarrow> env \<Rightarrow> request \<times> gateway \<Rightarrow> event \<times> gateway" where
  "finished hs en = (\<lambda>(q, g).
     let cap = (case rq_destination q of Some d \<Rightarrow> queue_cap d (en_infos en (ds_id d)) | None \<Rightarrow> 0)
     in (finished_event (hs_backoff_base hs) cap (en_settle_t en) (en_end_t en) (en_gone_finish en) q g, finish_request hs en (q, g)))"

text \<open>The key as it is now; \<open>None\<close> is a store that cannot be read.\<close>

definition find_key :: "string \<Rightarrow> key list \<Rightarrow> key option" where "find_key kid ks = find (\<lambda>k. k_id k = kid) ks"

text \<open>
  From the new request to the end of its handler: an error of the step itself, whether the handler panicked, whether the engine had
  answered, the request and the gateway.
\<close>

definition run_step_request ::
    "step_env \<Rightarrow> host \<Rightarrow> env \<Rightarrow> string + key list \<Rightarrow> string \<Rightarrow> step \<Rightarrow> request \<times> gateway
     \<Rightarrow> step_error option \<times> bool \<times> bool \<times> request \<times> gateway" where
  "run_step_request xv hs en all_keys kid st = (\<lambda>(q, g).
     case all_keys of
       Inl e \<Rightarrow> (Some (StepStore e), False, False, fail_request en (errf CodeUpstreamDown 1 ''key store unavailable'' []) q, g)
     | Inr ks \<Rightarrow>
         (case find_key kid ks of
            None \<Rightarrow> (Some (StepCause ''key_revoked''), False, False, q\<lparr>rq_no_event := True\<rparr>, g)
          | Some k \<Rightarrow>
              (let q = q\<lparr>rq_key := Some k, rq_ev := (rq_ev q)\<lparr>ev_key_id := kid\<rparr>\<rparr> in
               if xv_agent xv \<and> \<not> k_agent k then
                 (Some (StepCause ''key_revoked''), False, False,
                  fail_request en (errf CodeInvalidRequest 0 ''agent capability is off for this key'' []) q, g)
               else if k_status k \<noteq> Active then
                 (Some (StepCause ''key_revoked''), False, False,
                  fail_request en (errf (if k_status k = Revoked then CodeKeyRevoked else CodeKeyPaused) 0 ''key is not active'' []) q, g)
               else if sp_route st = images_endpoint then
                 (None, False, False, xv_image xv (sp_run_id st) (sp_input st) (q, g))
               else (None, fst (step_proxy xv hs en (sp_route st) (q, g)), engine_answered xv hs en (sp_route st) (q, g),
                     snd (step_proxy xv hs en (sp_route st) (q, g))))))"

text \<open>What the deferred function makes of it.\<close>

definition step_failure :: "step \<Rightarrow> step_error option \<Rightarrow> bool \<Rightarrow> request \<Rightarrow> event \<Rightarrow> sink \<Rightarrow> step_error option" where
  "step_failure st err panicked q ev sk =
     (let err = (if panicked then Some StepPanic else err);
          err = (case rq_inner_error q of Some e \<Rightarrow> if sp_purpose st = ''chat'' then Some (StepInner e) else err | None \<Rightarrow> err);
          err = (case sk_error sk of Some e \<Rightarrow> Some (StepSink e) | None \<Rightarrow> err)
      in if err = None \<and> rq_outcome q \<noteq> OutcomeServed then Some (StepEnded (ev_code ev) (sk_bytes sk)) else err)"

definition step_output :: "step_env \<Rightarrow> request \<Rightarrow> string \<Rightarrow> string" where
  "step_output xv q raw = (if \<not> n_stream (rq_n q) then raw else if xv_agent xv then xv_record xv raw else xv_quote xv raw)"

definition step_outcome :: "step_env \<Rightarrow> step_error option \<Rightarrow> request \<Rightarrow> sink \<Rightarrow> step_error option \<times> string" where
  "step_outcome xv err q sk =
     (case err of
        Some e \<Rightarrow> (Some e, case rq_image q of Some im \<Rightarrow> (case ir_failure im of Some f \<Rightarrow> xv_encode xv f | None \<Rightarrow> []) | None \<Rightarrow> [])
      | None \<Rightarrow> if length (step_output xv q (sk_bytes sk)) > max_output then (Some (StepRun ErrLimit), [])
                else (None, step_output xv q (sk_bytes sk)))"

definition no_step_result :: step_result where
  "no_step_result = \<lparr>sr_output = [], sr_usage = empty_event, sr_dispatched = False, sr_settled = False\<rparr>"

definition execute_step ::
    "step_env \<Rightarrow> host \<Rightarrow> env \<Rightarrow> string + key list \<Rightarrow> gotime \<Rightarrow> string \<Rightarrow> step \<Rightarrow> gateway \<Rightarrow> (step_error option \<times> step_result) \<times> gateway" where
  "execute_step xv hs en all_keys now kid st g =
     (if length (sp_input st) > max_input \<or> \<not> xv_valid xv (sp_input st) then ((Some (StepCause ''step_invalid''), no_step_result), g)
      else if sp_route st \<noteq> chat_endpoint \<and> sp_route st \<noteq> embeddings_endpoint \<and> sp_route st \<noteq> images_endpoint
      then ((Some (StepRun ErrInvalid), no_step_result), g)
      else
        (let en = step_request_env (sp_input st) en;
             q = new_request now (hs_router hs) ''POST'' (sp_route st);
             q = (if sp_route st = images_endpoint then q\<lparr>rq_image := Some (new_image_request (sp_run_id st))\<rparr> else q)
         in case run_step_request xv hs en all_keys kid st (q, g) of (err, panicked, answered, q, g) \<Rightarrow>
            (case finished hs en (q, en_between en 11 g) of (ev, g) \<Rightarrow>
              (let sk = sink_after (xv_observe xv) (xv_writes xv (rq_writer q));
                   (err, out) = step_outcome xv (step_failure st err panicked q ev sk) q sk
               in ((err, \<lparr>sr_output = out, sr_usage = ev,
                          sr_dispatched = (if rq_image q = None then rq_dispatched q \<or> answered else rq_dispatched q),
                          sr_settled = True\<rparr>), g)))))"

section \<open>A step gives back what it takes\<close>

lemma step_proxy_ok:
  assumes o: "others_ok hs en dw" and p: "phase 0 q" and r: "step_proxy xv hs en kind (q, g) = (panicked, q', g')"
  shows "(in_balance (q, g) (q', g') \<or> True \<and> balanced_by dw (q, g) (q', g')) \<and> bare q' \<and> keeps q q'"
proof (cases "xv_panic xv")
  case None
  then have "proxy hs en kind (q, g) = (q', g')" using r by (simp add: step_proxy_def)
  from proxy_ok [OF o p this] show ?thesis by simp
next
  case (Some j)
  let ?q = "q\<lparr>rq_kind := kind\<rparr>" and ?ss = "take j (proxy_stages hs en)"
  have k: "same_resources q ?q" "keeps q ?q" by (simp_all add: same_resources_def keeps_def)
  obtain err q1 g1 where s: "run_stages en 0 ?ss (?q, g) = (err, q1, g1)" by (cases "run_stages en 0 ?ss (?q, g)") auto
  have n: "neutral (\<lambda>_. 0) (en_between en i)" for i using o by (simp add: others_ok_def)
  have st: "stage_ok dw (0 + i) (?ss ! i)" if "i < length ?ss" for i using proxy_stages_ok [OF o, of i] that by simp
  have ph: "phase 0 ?q" using p same_phase [OF k(1), of 0] by blast
  from run_stages_ok [OF n st ph s]
  have m: "in_balance (?q, g) (q1, g1) \<or> balanced_by dw (?q, g) (q1, g1)" "plain q1" "keeps ?q q1" by simp_all
  have b: "in_balance (q, g) (q1, g1) \<or> True \<and> balanced_by dw (q, g) (q1, g1)"
    using m(1) same_balanced [OF k(1), of g] balanced_trans balanced_trans_by by blast
  show ?thesis
  proof (cases err)
    case None
    then have "q' = q1" "g' = g1" using r s by (simp_all add: step_proxy_def panicking_proxy_def Some)
    then show ?thesis using b plain_bare [OF m(2)] keeps_trans [OF k(2) m(3)] by simp
  next
    case (Some e)
    then have q': "q' = fail_request en e q1" "g' = g1" using r s \<open>xv_panic xv = Some j\<close> by (simp_all add: step_proxy_def panicking_proxy_def)
    have f: "same_resources q1 q'" "keeps q1 q'"
      using fail_request_same [OF plain_bare [OF m(2)]] o unfolding q' by (simp_all add: others_ok_def)
    show ?thesis using kept_then [OF b same_balanced [OF f(1), of g1]] q'(2) same_phase [OF f(1)] m(2) plain_bare
        keeps_trans [OF k(2) keeps_trans [OF m(3) f(2)]] by simp
  qed
qed

text \<open>What is known of the request of a step when its handler is over, whichever way it took.\<close>

lemma run_step_ok:
  assumes o: "others_ok hs en dw" and f: "fresh q" "rq_destination q \<noteq> None" "\<not> rq_no_event q" and i: "sp_route st \<noteq> images_endpoint"
    and r: "run_step_request xv hs en all_keys kid st (q, g) = (err, panicked, answered, q', g')"
  shows "(in_balance (q, g) (q', g') \<or> True \<and> balanced_by dw (q, g) (q', g')) \<and> bare q'
     \<and> (case all_keys of Inl e \<Rightarrow> \<not> rq_no_event q'
        | Inr ks \<Rightarrow> if find_key kid ks = None then rq_no_event q' else \<not> rq_no_event q' \<and> ev_key_id (rq_ev q') = kid)"
proof -
  have ad: "adapter_ok en" using o by (simp add: others_ok_def)
  have failed: "in_balance (q, g) (fail_request en e p, g) \<and> bare (fail_request en e p) \<and> keeps p (fail_request en e p)"
    if "same_resources q p" for e p
  proof -
    have b: "bare p" using that f(1) by (simp add: same_resources_def fresh_def bare_def)
    note s = fail_request_same [OF b ad, of e]
    have "same_resources q (fail_request en e p)" using same_trans [OF that] s by blast
    from same_balanced [OF this, of g] show ?thesis using s b by (auto simp: same_resources_def bare_def)
  qed
  show ?thesis
  proof (cases all_keys)
    case (Inl e)
    then have "q' = fail_request en (errf CodeUpstreamDown 1 ''key store unavailable'' []) q" "g' = g"
      using r by (simp_all add: run_step_request_def)
    then show ?thesis using failed [of q] f(3) Inl by (simp add: same_resources_def keeps_def)
  next
    case (Inr ks)
    show ?thesis
    proof (cases "find_key kid ks")
      case None
      then have "q' = q\<lparr>rq_no_event := True\<rparr>" "g' = g" using r Inr by (simp_all add: run_step_request_def)
      then show ?thesis using f(1) None Inr by (simp add: fresh_def bare_def balanced_by_def held_defs)
    next
      case (Some k)
      define p where "p = q\<lparr>rq_key := Some k, rq_ev := (rq_ev q)\<lparr>ev_key_id := kid\<rparr>\<rparr>"
      have p: "same_resources q p" "fresh p" "rq_destination p \<noteq> None" "\<not> rq_no_event p" "ev_key_id (rq_ev p) = kid"
        using f by (simp_all add: p_def same_resources_def fresh_def bare_def)
      have fin: "(in_balance (q, g) (q', g') \<or> True \<and> balanced_by dw (q, g) (q', g')) \<and> bare q' \<and> keeps p q'"
      proof (cases "\<exists>e. q' = fail_request en e p \<and> g' = g")
        case True
        then show ?thesis using failed [OF p(1)] by auto
      next
        case False
        then have sp: "snd (step_proxy xv hs en (sp_route st) (p, g)) = (q', g')"
          using r Inr Some i by (auto simp: run_step_request_def p_def Let_def split: if_splits)
        then have "step_proxy xv hs en (sp_route st) (p, g) = (fst (step_proxy xv hs en (sp_route st) (p, g)), q', g')" by (metis prod.collapse)
        from step_proxy_ok [OF o fresh_phase [OF p(2,3)] this] same_balanced [OF p(1), of g] show ?thesis
          using balanced_trans [of "(q, g)" "(p, g)" "(q', g')"] balanced_trans_by [of "(q, g)" "(p, g)" dw "(q', g')"] by blast
      qed
      then show ?thesis using p Inr Some by (simp add: keeps_def)
    qed
  qed
qed

text \<open>The event the step reports is the one the exit records.\<close>

lemma finished_recorded:
  assumes "bare q" and "finished hs en (q, g) = (ev, g')"
  shows "gw_recorded g' = gw_recorded g @ (if rq_no_event q then [] else [ev]) \<and> ev_key_id ev = ev_key_id (rq_ev q)"
proof -
  define cap where "cap = (case rq_destination q of Some d \<Rightarrow> queue_cap d (en_infos en (ds_id d)) | None \<Rightarrow> 0)"
  have nr: "\<not> rq_reading q" using assms(1) by (simp add: bare_def)
  then have rr: "release_reading q g = g" by (simp add: release_reading_def split: option.splits)
  obtain charged q2 g2 where s: "settle_admission (hs_backoff_base hs) (en_settle_t en) (en_gone_finish en) q (release_slot cap q g) = (charged, q2, g2)"
    by (cases "settle_admission (hs_backoff_base hs) (en_settle_t en) (en_gone_finish en) q (release_slot cap q g)") auto
  note sb = settle_admission_bare [OF assms(1) s]
  have q2: "rq_buffered q2 = rq_buffered q" "rq_no_event q2 = rq_no_event q" "rq_lease q2 = rq_lease q"
    "ev_key_id (rq_ev q2) = ev_key_id (rq_ev q)"
    by (simp_all add: sb(1) split: option.splits)
  have g': "finish (hs_backoff_base hs) cap (en_settle_t en) (en_end_t en) (en_gone_finish en) q g = g'"
    and ev: "ev = finished_event (hs_backoff_base hs) cap (en_settle_t en) (en_end_t en) (en_gone_finish en) q g"
    using assms(2) by (simp_all add: finished_def finish_request_def cap_def Let_def)
  note ff = finish_fields [OF s nr q2(1-3) g', of "[]"]
  have "gw_recorded g2 = gw_recorded g" using arg_cong [OF sb(2), of gw_recorded] by (simp add: release_slot_queues)
  moreover have "ev = (if rq_no_event q then (rq_ev q2)\<lparr>ev_meters := (let ms = resource_meters (rq_ev q2) in if ms = [] then None else Some (map (charge_meter q2 charged) ms))\<rparr>
      else final_event (en_end_t en) charged q2)"
    by (simp add: ev finished_event_def rr s q2(2))
  ultimately show ?thesis using ff q2 by (auto simp: final_event_def Let_def)
qed

text \<open>
  C0. A step of a run is settled when its result is seen. Whatever way a step goes (key gone or paused, agents off, refusal at a stage,
  a panic in one, engine failure, success), when \<open>ExecuteStep\<close> returns the key's requests in flight and reservation, the buffered bodies,
  the members held and the running requests are what they were, and the usage the run is told is the one event recorded under its
  key, none only when the key does not exist any more.
\<close>

theorem step_settles_once:
  assumes o: "others_ok hs (step_request_env (sp_input st) en) dw" and rt: "hs_router hs = new_router cfg"
    and k: "sp_route st = chat_endpoint \<or> sp_route st = embeddings_endpoint"
    and x: "execute_step xv hs en all_keys now kid st g = ((err, res), g')" and v: "length (sp_input st) \<le> max_input" "xv_valid xv (sp_input st)"
  shows "in_flight_of g' u = in_flight_of g u \<and> reserved_of g' u = reserved_of g u \<and> gw_bodies g' = gw_bodies g \<and> gw_leases g' i = gw_leases g i
     \<and> (holders (gw_queues g' i) = holders (gw_queues g i) \<or> holders (gw_queues g' i) = holders (gw_queues g i) + dw i)
     \<and> sr_settled res \<and> length (sr_output res) \<le> max_output
     \<and> gw_recorded g' = gw_recorded g @ (case all_keys of Inr ks \<Rightarrow> if find_key kid ks = None then [] else [sr_usage res] | Inl e \<Rightarrow> [sr_usage res])
     \<and> (\<forall>ks. all_keys = Inr ks \<longrightarrow> find_key kid ks \<noteq> None \<longrightarrow> ev_key_id (sr_usage res) = kid)"
proof -
  let ?en = "step_request_env (sp_input st) en" and ?q = "new_request now (hs_router hs) ''POST'' (sp_route st)"
  have ni: "sp_route st \<noteq> images_endpoint" using k by (auto simp: endpoint_defs)
  obtain e1 pan ans q1 g1 where s: "run_step_request xv hs ?en all_keys kid st (?q, g) = (e1, pan, ans, q1, g1)"
    by (cases "run_step_request xv hs ?en all_keys kid st (?q, g)") auto
  let ?g = "en_between ?en 11 g1"
  obtain ev g2 where f: "finished hs ?en (q1, ?g) = (ev, g2)" by (cases "finished hs ?en (q1, ?g)")
  let ?sk = "sink_after (xv_observe xv) (xv_writes xv (rq_writer q1))"
  have nr: "\<not> (sp_route st \<noteq> chat_endpoint \<and> sp_route st \<noteq> embeddings_endpoint \<and> sp_route st \<noteq> images_endpoint)" using k by blast
  have nv: "\<not> (length (sp_input st) > max_input \<or> \<not> xv_valid xv (sp_input st))" using v by simp
  have r: "g' = g2" "sr_usage res = ev" "sr_settled res" "step_outcome xv (step_failure st e1 pan q1 ev ?sk) q1 ?sk = (err, sr_output res)"
    using x unfolding execute_step_def Let_def if_not_P [OF nv] if_not_P [OF nr] if_not_P [OF ni] s f prod.case
    by (auto split: prod.splits)
  note n = new_request_fresh [of now "hs_router hs" "''POST''" "sp_route st"]
  have d: "rq_destination ?q \<noteq> None"
    using n rt k proxy_route_destination [of "''POST''" "sp_route st" "[]" True "sp_route st" cfg]
    by (auto simp: route_of_def is_image_route_def is_run_route_def has_prefix_def endpoint_defs)
  have fr: "fresh ?q" "\<not> rq_no_event ?q" using n by blast+
  note rs = run_step_ok [OF o fr(1) d fr(2) ni s]
  have "in_balance (q1, g1) (q1, ?g)" using o by (intro balanced_neutral) (simp add: others_ok_def)
  then have b: "in_balance (?q, g) (q1, ?g) \<or> True \<and> balanced_by dw (?q, g) (q1, ?g)" using rs kept_then by blast
  have bq: "bare q1" using rs by blast
  from f obtain cap where fi: "finish (hs_backoff_base hs) cap (en_settle_t ?en) (en_end_t ?en) (en_gone_finish ?en) q1 ?g = g2"
    by (auto simp: finished_def finish_request_def Let_def)
  note gb = finish_gives_back [OF bq fi, of u i]
  note h = fresh_holds_nothing [OF fr(1), of u i]
  have given: "in_flight_of g' u = in_flight_of g u \<and> reserved_of g' u = reserved_of g u \<and> gw_bodies g' = gw_bodies g \<and> gw_leases g' i = gw_leases g i
     \<and> (holders (gw_queues g' i) = holders (gw_queues g i) \<or> holders (gw_queues g' i) = holders (gw_queues g i) + dw i)"
    using b gb h unfolding r(1) by (elim disjE conjE) (simp_all add: balanced_by_def)
  have "gw_recorded ?g = gw_recorded g" using b by (auto simp: balanced_by_def)
  then have rec: "gw_recorded g' = gw_recorded g @ (if rq_no_event q1 then [] else [sr_usage res])" "ev_key_id (sr_usage res) = ev_key_id (rq_ev q1)"
    using finished_recorded [OF bq f] r(1,2) by simp_all
  have "length (sr_output res) \<le> max_output"
    using r(4) bq by (auto simp: step_outcome_def bare_def split: option.splits if_splits)
  then show ?thesis using given rec rs r(3) by (cases all_keys) (auto split: if_splits)
qed

definition sample_step :: step where
  "sample_step = \<lparr>sp_purpose = ''chat'', sp_run_id = ''r_1'', sp_route = chat_endpoint, sp_input = ''{}''\<rparr>"

definition sample_step_env :: step_env where
  "sample_step_env = \<lparr>xv_valid = (\<lambda>_. True), xv_agent = False, xv_writes = (\<lambda>_. [(False, ''{}'')]), xv_observe = (\<lambda>_ _. None),
     xv_encode = (\<lambda>_. []), xv_quote = (\<lambda>x. x), xv_record = (\<lambda>x. x), xv_image = (\<lambda>_ _ s. s), xv_panic = Some 9\<rparr>"

theorem step_settles_once_witness:
  "\<forall>u. let r = execute_step sample_step_env sample_host (sample_env []) (Inr [sample_body_key]) 1 (k_id sample_body_key) sample_step idle_gateway;
        g' = snd r
     in in_flight_of g' u = 0 \<and> gw_bodies g' = 0 \<and> gw_recorded g' = [sr_usage (snd (fst r))] \<and> sr_settled (snd (fst r))"
proof (intro allI)
  fix u
  let ?r = "execute_step sample_step_env sample_host (sample_env []) (Inr [sample_body_key]) 1 (k_id sample_body_key) sample_step idle_gateway"
  have o: "others_ok sample_host (step_request_env (sp_input sample_step) (sample_env [])) (\<lambda>_. 0)"
    by (auto simp: others_ok_def neutral_def fair_wait_def adapter_ok_def sample_env_def step_request_env_def same_resources_def
        same_but_outcome_def keeps_def wait_result_def wait_slot_def Let_def)
  have x: "?r = ((fst (fst ?r), snd (fst ?r)), snd ?r)" by simp
  have k: "find_key (k_id sample_body_key) [sample_body_key] = Some sample_body_key" by (simp add: find_key_def)
  from step_settles_once [OF o _ _ x, where u = u and i = "[]"] k
  show "let r = ?r; g' = snd r
     in in_flight_of g' u = 0 \<and> gw_bodies g' = 0 \<and> gw_recorded g' = [sr_usage (snd (fst r))] \<and> sr_settled (snd (fst r))"
    by (simp add: sample_host_def sample_step_def sample_step_env_def max_input_def Let_def idle_gateway_def in_flight_of_def new_limiter_def
        key_state_of_def new_key_state_def)
qed

text \<open>A step without error was served, nothing panicked, and its output is made of all the bytes the pipeline wrote.\<close>

lemma step_success_is_whole:
  assumes "step_outcome xv (step_failure st e pan q ev (sink_after ob ws)) q (sink_after ob ws) = (None, out)"
  shows "\<not> pan \<and> e = None \<and> rq_outcome q = OutcomeServed \<and> (sp_purpose st = ''chat'' \<longrightarrow> rq_inner_error q = None)
     \<and> out = step_output xv q (concat (map snd ws))"
proof -
  have f: "step_failure st e pan q ev (sink_after ob ws) = None" "out = step_output xv q (sk_bytes (sink_after ob ws))"
    using assms by (auto simp: step_outcome_def split: option.splits if_splits)
  have g: "sk_error (sink_after ob ws) = None" "\<not> pan" "e = None" "rq_outcome q = OutcomeServed" "sp_purpose st = ''chat'' \<longrightarrow> rq_inner_error q = None"
    using f(1) by (auto simp: step_failure_def Let_def split: option.splits if_splits)
  obtain n where "sk_bytes (sink_after ob ws) = concat (map snd (take n ws)) \<and> length (sk_bytes (sink_after ob ws)) \<le> max_output
     \<and> (sk_error (sink_after ob ws) = None \<longrightarrow> n = length ws)" using sink_holds_beginning [of ob ws] ..
  then show ?thesis using f(2) g by auto
qed

end
