(* ===== verification/Run_Follow.thy ===== *)
theory Run_Follow
  imports Pipeline_Safety Chat_Run Run_Restart
begin

text \<open>
  The two connections that follow runs: the stream of a key's run events (\<open>runEvents\<close> of internal/gateway/runs.go) and the chat
  whose answer comes from a run (\<open>followChat\<close> and \<open>chatDelta\<close> of chat_run.go). A \<open>select\<close> is a list of what it chose in turn, with what the
  writes of that turn did (whether the write and the flush went through); a list that ends leaves the handler waiting.
\<close>

definition put_text :: "string \<Rightarrow> bool \<times> bool \<Rightarrow> request \<Rightarrow> bool \<times> request" where
  "put_text t io q = (fst io \<and> snd io, if fst io then q\<lparr>rq_writer := write_piece (PText t) (rq_writer q)\<rparr> else q)"

section \<open>The event stream\<close>

text \<open>What one turn of the stream shows: an event, or nothing but a sign of life; \<open>enc\<close> is the JSON of an event.\<close>

definition stream_text :: "(run_event \<Rightarrow> string) \<Rightarrow> run_event option \<Rightarrow> string" where
  "stream_text enc z =
     (case z of
        Some e \<Rightarrow> ''id: '' @ re_cursor e @ nl @ ''event: run'' @ nl @ ''data: '' @ enc e @ nl2
      | None \<Rightarrow> '': keepalive'' @ nl2)"

datatype event_select = RuntimeStopped | FriendLeft | ChannelClosed | Arrived run_event | KeepAlive

definition shown :: "event_select \<Rightarrow> run_event option" where
  "shown sel = (case sel of Arrived e \<Rightarrow> Some e | _ \<Rightarrow> None)"

definition ends_stream :: "event_select \<Rightarrow> bool" where
  "ends_stream sel \<longleftrightarrow> (case sel of Arrived e \<Rightarrow> False | KeepAlive \<Rightarrow> False | _ \<Rightarrow> True)"

fun replay_events :: "(run_event \<Rightarrow> string) \<Rightarrow> (nat \<Rightarrow> bool \<times> bool) \<Rightarrow> nat \<Rightarrow> run_event list \<Rightarrow> request \<Rightarrow> bool \<times> request" where
  "replay_events enc io i [] q = (True, q)"
| "replay_events enc io i (e # es) q =
     (case put_text (stream_text enc (Some e)) (io i) q of
        (True, q) \<Rightarrow> replay_events enc io (i + 1) es q
      | (False, q) \<Rightarrow> (False, q))"

text \<open>Every turn after the replay authenticates again, with the environment of that moment, before anything is written.\<close>

fun follow_events :: "(run_event \<Rightarrow> string) \<Rightarrow> (event_select \<times> env \<times> bool \<times> bool) list \<Rightarrow> request \<times> gateway \<Rightarrow> request \<times> gateway" where
  "follow_events enc [] s = s"
| "follow_events enc ((sel, en, io) # xs) s =
     (if ends_stream sel then s
      else (case authenticate_request en s of
              (Some e, q, g) \<Rightarrow> (fail_request en e q, g)
            | (None, q, g) \<Rightarrow>
                (case put_text (stream_text enc (shown sel)) io q of
                   (True, q) \<Rightarrow> follow_events enc xs (q, g)
                 | (False, q) \<Rightarrow> (q, g))))"

text \<open>The cursor comes in a header or in the query; two that differ, or one that is too long, are refused.\<close>

definition event_cursor :: "string \<Rightarrow> string \<Rightarrow> run_error + string" where
  "event_cursor header query =
     (let cursor = (if header = [] then query else header) in
      if header \<noteq> [] \<and> query \<noteq> [] \<and> query \<noteq> header then Inl ErrInvalid
      else if length cursor > 100 then Inl ErrInvalid else Inr cursor)"

definition stream_event_head :: "request \<Rightarrow> request" where
  "stream_event_head q =
     (let w = set_header ''Content-Type'' ''text/event-stream'' (rq_writer q);
          w = set_header ''Cache-Control'' ''no-store'' w;
          w = set_header ''X-Accel-Buffering'' ''no'' w
      in write_header 200 (q\<lparr>rq_writer := w\<rparr>))"

text \<open>\<open>others\<close> is what happens to the store while the stream is open; the subscription is given up at the end.\<close>

definition run_events ::
    "run_env \<Rightarrow> (run_event \<Rightarrow> string) \<Rightarrow> env \<Rightarrow> gotime \<Rightarrow> string \<Rightarrow> string \<Rightarrow> (nat \<Rightarrow> bool \<times> bool) \<Rightarrow> (event_select \<times> env \<times> bool \<times> bool) list
     \<Rightarrow> (run_store \<Rightarrow> run_store) \<Rightarrow> request \<times> gateway \<times> run_store \<Rightarrow> request \<times> gateway \<times> run_store" where
  "run_events re enc en now header query io xs others = (\<lambda>(q, g, s).
     case rq_key q of
       None \<Rightarrow> (q, g, s)
     | Some k \<Rightarrow>
         (case event_cursor header query of
            Inl e \<Rightarrow> (fail_request en (run_gw_error e) q, g, s)
          | Inr cursor \<Rightarrow>
              (case subscribe re now (k_id k) cursor s of
                 (Inl e, s) \<Rightarrow> (fail_request en (run_gw_error e) q, g, s)
               | (Inr (replay, n), s) \<Rightarrow>
                   (case replay_events enc io 0 replay (stream_event_head q) of
                      (False, q) \<Rightarrow> (q, g, unsubscribe (k_id k) n (others s))
                    | (True, q) \<Rightarrow>
                        (case follow_events enc xs (q, g) of (q, g) \<Rightarrow> (q, g, unsubscribe (k_id k) n (others s)))))))"

subsection \<open>What the friend sees\<close>

definition key_alive :: "env \<Rightarrow> bool" where
  "key_alive en \<longleftrightarrow> (\<exists>s k. bearer (en_auth en) = Some s \<and> en_lookup en s = Inr (Some k) \<and> k_status k = Active)"

definition stream_pieces :: "(run_event \<Rightarrow> string) \<Rightarrow> run_event option list \<Rightarrow> piece list" where
  "stream_pieces enc zs = map (\<lambda>z. PText (stream_text enc z)) zs"

definition body_of :: "request \<Rightarrow> piece list" where "body_of q = wr_body (rq_writer q)"

lemma put_text_body: "put_text t io q = (b, q') \<Longrightarrow>
    body_of q' = body_of q @ (if fst io then [PText t] else []) \<and> (b \<longrightarrow> fst io) \<and> q' = q\<lparr>rq_writer := rq_writer q'\<rparr>"
  by (auto simp: put_text_def body_of_def)

lemma replay_body: "replay_events enc io i es q = (b, q') \<Longrightarrow>
    \<exists>r. body_of q' = body_of q @ stream_pieces enc (map Some (take r es)) \<and> (b \<longrightarrow> r = length es) \<and> q' = q\<lparr>rq_writer := rq_writer q'\<rparr>"
proof (induction es arbitrary: i q)
  case Nil
  then show ?case by (simp add: stream_pieces_def)
next
  case (Cons e es)
  obtain b1 q1 where p: "put_text (stream_text enc (Some e)) (io i) q = (b1, q1)" by (cases "put_text (stream_text enc (Some e)) (io i) q")
  note pb = put_text_body [OF p]
  show ?case
  proof (cases b1)
    case True
    then have "replay_events enc io (i + 1) es q1 = (b, q')" using Cons.prems p by simp
    from Cons.IH [OF this] obtain r where r: "body_of q' = body_of q1 @ stream_pieces enc (map Some (take r es))" "b \<longrightarrow> r = length es"
      "q' = q1\<lparr>rq_writer := rq_writer q'\<rparr>" by blast
    have "q' = q\<lparr>rq_writer := rq_writer q'\<rparr>" using r(3) pb by (metis request.update_convs(26) request.surjective)
    then show ?thesis using r pb True by (intro exI [of _ "Suc r"]) (simp add: stream_pieces_def)
  next
    case False
    then have "b = False" "q' = q1" using Cons.prems p by simp_all
    then show ?thesis using pb by (intro exI [of _ "if fst (io i) then 1 else 0"]) (simp add: stream_pieces_def)
  qed
qed

text \<open>Once the head is out, a failure is an event of the stream, or nothing when the friend has gone.\<close>

definition error_pieces :: "gw_error \<Rightarrow> piece list" where
  "error_pieces e = [PText ''data: '', PJson (error_json e True), PText (nl2 @ ''data: [DONE]'' @ nl2)]"

definition stream_open :: "request \<Rightarrow> bool" where
  "stream_open q \<longleftrightarrow> bare q \<and> rq_wrote_header q \<and> rq_path q \<noteq> responses_endpoint"

lemma fail_open: "stream_open q \<Longrightarrow> \<exists>tail. body_of (fail_request en e q) = body_of q @ tail \<and> (tail = [] \<or> tail = error_pieces e)"
  by (auto simp: stream_open_def bare_def fail_request_def fail_def fail_text_def body_of_def error_pieces_def write_stream_error_def
      write_piece_def Let_def)

lemma authenticate_open:
  "authenticate_request en (q, g) = (err, q', g') \<Longrightarrow>
    body_of q' = body_of q \<and> stream_open q' = stream_open q \<and> (err = None \<longleftrightarrow> key_alive en)"
  by (cases "bearer (en_auth en)")
    (auto simp: authenticate_request_def key_alive_def body_of_def stream_open_def bare_def Let_def split: option.splits sum.splits status.splits)

lemma put_text_open: "put_text t io q = (b, q') \<Longrightarrow> stream_open q' = stream_open q"
  by (cases "fst io") (auto simp: put_text_def stream_open_def bare_def)

lemma follow_body:
  assumes "follow_events enc xs (q, g) = (q', g')" and "stream_open q"
  shows "\<exists>n tail. body_of q' = body_of q @ stream_pieces enc (map (shown \<circ> fst) (take n xs)) @ tail
     \<and> list_all (\<lambda>(sel, en, io). \<not> ends_stream sel \<and> key_alive en) (take n xs)
     \<and> (tail = [] \<or> (\<exists>e. tail = error_pieces e) \<and> n < length xs \<and> \<not> key_alive (fst (snd (xs ! n))))"
  using assms
proof (induction xs arbitrary: q g)
  case Nil
  then show ?case by (intro exI [of _ 0] exI [of _ "[]"]) (simp add: stream_pieces_def)
next
  case (Cons x xs)
  obtain sel en io where x: "x = (sel, en, io)" by (cases x) auto
  have stop: ?case if "body_of q' = body_of q @ tail" "tail = [] \<or> (\<exists>e. tail = error_pieces e) \<and> \<not> key_alive en" for tail
    using that by (intro exI [of _ 0] exI [of _ tail]) (auto simp: stream_pieces_def x)
  show ?case
  proof (cases "ends_stream sel")
    case True
    then show ?thesis using Cons.prems(1) by (intro stop [of "[]"]) (simp_all add: x)
  next
    case on: False
    obtain err q1 g1 where a: "authenticate_request en (q, g) = (err, q1, g1)" by (cases "authenticate_request en (q, g)") auto
    note au = authenticate_open [OF a]
    show ?thesis
    proof (cases err)
      case (Some e)
      then have "q' = fail_request en e q1" using Cons.prems(1) on by (simp add: x a)
      then obtain tail where "body_of q' = body_of q1 @ tail" "tail = [] \<or> tail = error_pieces e"
        using fail_open [of q1 en e] au Cons.prems(2) by auto
      then show ?thesis using au Some by (intro stop [of tail]) auto
    next
      case None
      obtain b q2 where p: "put_text (stream_text enc (shown sel)) io q1 = (b, q2)" by (cases "put_text (stream_text enc (shown sel)) io q1")
      note pb = put_text_body [OF p]
      have al: "key_alive en" using au None by simp
      show ?thesis
      proof (cases b)
        case False
        then have q': "q' = q2" using Cons.prems(1) on None by (simp add: x a p)
        show ?thesis
        proof (cases "fst io")
          case True
          then show ?thesis using pb au q' on al by (intro exI [of _ 1] exI [of _ "[]"]) (simp add: stream_pieces_def x)
        next
          case no: False
          then show ?thesis using pb au q' by (intro stop [of "[]"]) simp_all
        qed
      next
        case True
        then have f: "follow_events enc xs (q2, g1) = (q', g')" using Cons.prems(1) on None by (simp add: x a p)
        have "stream_open q2" using put_text_open [OF p] au Cons.prems(2) by simp
        from Cons.IH [OF f this] obtain n tail where "body_of q' = body_of q2 @ stream_pieces enc (map (shown \<circ> fst) (take n xs)) @ tail"
          "list_all (\<lambda>(sel, en, io). \<not> ends_stream sel \<and> key_alive en) (take n xs)"
          "tail = [] \<or> (\<exists>e. tail = error_pieces e) \<and> n < length xs \<and> \<not> key_alive (fst (snd (xs ! n)))" by blast
        then show ?thesis using pb au on al True
          by (intro exI [of _ "Suc n"] exI [of _ tail]) (simp add: stream_pieces_def x)
      qed
    qed
  qed
qed

lemma open_writer: "q' = q\<lparr>rq_writer := w\<rparr> \<Longrightarrow> stream_open q' = stream_open q"
  by (simp add: stream_open_def bare_def)

lemma head_open: "bare q \<Longrightarrow> rq_path q \<noteq> responses_endpoint \<Longrightarrow> stream_open (stream_event_head q) \<and> body_of (stream_event_head q) = body_of q"
  by (simp add: stream_event_head_def stream_open_def bare_def write_header_def body_of_def Let_def)

text \<open>
  C0. A key that is switched off sees no more events. The friend's stream shows the replay of the subscription from its beginning and
  then, turn by turn and in order, what arrived; every event after the replay was shown under an authentication made for it, by a key that
  was active at that moment, and when that fails the stream ends with one error. The subscription is given up at the end, whatever happened.
\<close>

theorem events_under_live_key:
  assumes r: "run_events re enc en now header query io xs others (q, g, s) = (q', g', s')" and k: "rq_key q = Some k"
    and c: "event_cursor header query = Inr cursor" and u: "subscribe re now (k_id k) cursor s = (Inr (replay, m), s1)"
    and b: "bare q" "rq_path q \<noteq> responses_endpoint"
  shows "(\<exists>i n tail. body_of q' = body_of q @ stream_pieces enc (map Some (take i replay) @ map (shown \<circ> fst) (take n xs)) @ tail
     \<and> (n > 0 \<or> tail \<noteq> [] \<longrightarrow> i = length replay)
     \<and> list_all (\<lambda>(sel, en, io). \<not> ends_stream sel \<and> key_alive en) (take n xs)
     \<and> (tail = [] \<or> (\<exists>e. tail = error_pieces e) \<and> n < length xs \<and> \<not> key_alive (fst (snd (xs ! n)))))
     \<and> (k_id k, m) \<notin> set (st_subs s')"
proof -
  obtain ok q1 where p: "replay_events enc io 0 replay (stream_event_head q) = (ok, q1)"
    by (cases "replay_events enc io 0 replay (stream_event_head q)")
  from replay_body [OF p] obtain i where i: "body_of q1 = body_of (stream_event_head q) @ stream_pieces enc (map Some (take i replay))"
    "ok \<longrightarrow> i = length replay" "q1 = (stream_event_head q)\<lparr>rq_writer := rq_writer q1\<rparr>" by blast
  note h = head_open [OF b]
  have "stream_open q1" using open_writer [OF i(3)] h by simp
  have un: "(k_id k, m) \<notin> set (st_subs (unsubscribe (k_id k) m t))" for t by (simp add: unsubscribe_def)
  show ?thesis
  proof (cases ok)
    case False
    then have "q' = q1" "s' = unsubscribe (k_id k) m (others s1)" using r by (simp_all add: run_events_def k c u p)
    then show ?thesis using i h un by (intro conjI exI [of _ i] exI [of _ 0] exI [of _ "[]"]) simp_all
  next
    case True
    obtain q2 g2 where f: "follow_events enc xs (q1, g) = (q2, g2)" by (cases "follow_events enc xs (q1, g)")
    have e: "q' = q2" "s' = unsubscribe (k_id k) m (others s1)" using r True by (simp_all add: run_events_def k c u p f)
    from follow_body [OF f \<open>stream_open q1\<close>] obtain n tail where
      "body_of q2 = body_of q1 @ stream_pieces enc (map (shown \<circ> fst) (take n xs)) @ tail"
      "list_all (\<lambda>(sel, en, io). \<not> ends_stream sel \<and> key_alive en) (take n xs)"
      "tail = [] \<or> (\<exists>e. tail = error_pieces e) \<and> n < length xs \<and> \<not> key_alive (fst (snd (xs ! n)))" by blast
    then show ?thesis using i h un True e
      by (intro conjI exI [of _ i] exI [of _ n] exI [of _ tail]) (simp_all add: stream_pieces_def)
  qed
qed

definition sample_follower :: request where
  "sample_follower = (new_request 1 (hs_router sample_host) ''GET'' ''/v1/events'')\<lparr>rq_key := Some (sample_body_key\<lparr>k_id := ''k1''\<rparr>)\<rparr>"

lemma sample_follower_sel [simp]:
  "bare sample_follower" "rq_path sample_follower = ''/v1/events''" "rq_key sample_follower = Some (sample_body_key\<lparr>k_id := ''k1''\<rparr>)"
  "body_of sample_follower = []"
  by (simp_all add: sample_follower_def new_request_def bare_def body_of_def new_writer_def Let_def split: option.splits)

theorem events_under_live_key_witness:
  "\<exists>q' g' s' tail. run_events sample_run_env (\<lambda>_. ''{}'') (sample_env ''Bearer s'') 5 ''e_a:0'' [] (\<lambda>_. (True, True))
       [(KeepAlive, sample_env [], True, True)] (\<lambda>s. s) (sample_follower, idle_gateway, sample_store) = (q', g', s')
     \<and> body_of q' = tail \<and> (tail = [] \<or> (\<exists>e. tail = error_pieces e)) \<and> (''k1'', 0) \<notin> set (st_subs s')"
proof -
  obtain t w u where c: "subscribe sample_run_env 5 ''k1'' ''e_a:0'' sample_store = (Inr ([], 0), t)"
    using sample_subscribe by blast
  let ?r = "run_events sample_run_env (\<lambda>_. ''{}'') (sample_env ''Bearer s'') 5 ''e_a:0'' [] (\<lambda>_. (True, True))
       [(KeepAlive, sample_env [], True, True)] (\<lambda>s. s) (sample_follower, idle_gateway, sample_store)"
  obtain q' g' s' where r: "?r = (q', g', s')" by (cases ?r) auto
  have d: "\<not> key_alive (sample_env [])" by (simp add: key_alive_def sample_env_def bearer_def string_fields_def words_from.simps)
  have k: "rq_key sample_follower = Some (sample_body_key\<lparr>k_id := ''k1''\<rparr>)" "subscribe sample_run_env 5 (k_id (sample_body_key\<lparr>k_id := ''k1''\<rparr>)) ''e_a:0'' sample_store = (Inr ([], 0), t)"
    "rq_path sample_follower \<noteq> responses_endpoint" using c by (simp_all add: responses_endpoint_def)
  from events_under_live_key [OF r k(1) _ k(2) _ k(3)]
  obtain n tail where n: "body_of q' = stream_pieces (\<lambda>_. ''{}'') (map (shown \<circ> fst) (take n [(KeepAlive, sample_env [], True, True)])) @ tail"
    "list_all (\<lambda>(sel, en, io). \<not> ends_stream sel \<and> key_alive en) (take n [(KeepAlive, sample_env [], True, True)])"
    "tail = [] \<or> (\<exists>e. tail = error_pieces e)" "(''k1'', 0) \<notin> set (st_subs s')"
    by (auto simp: event_cursor_def)
  have "n = 0" using n(2) d by (cases n) auto
  then show ?thesis using r n by (simp add: stream_pieces_def)
qed

section \<open>A chat that follows its run\<close>

text \<open>What the consumer of the run left behind when it closed the delivery.\<close>

record chat_end =
  ch_error :: "run_error option"
  ch_finish :: string
  ch_usage :: json
  ch_output :: json

text \<open>
  \<open>FollowPoll\<close> looks at the run in the store of that moment, and then whether the delivery is closed by now; \<open>FollowDone\<close> is the
  closed delivery with the deltas still in its channel.
\<close>

datatype follow_select = FollowGone | FollowDelta chat_delta | FollowPoll manager bool | FollowTick | FollowDone "chat_delta list"
datatype confirm_select = ConfirmGone | ConfirmDeadline | ConfirmPoll

record follow_env =
  fe_store :: run_env
  fe_now :: gotime
  fe_env :: env
  fe_key :: string
  fe_run :: string
  fe_delta :: "chat_delta \<Rightarrow> string"
  fe_encode :: "json \<Rightarrow> string"
  fe_end :: chat_end

definition follow_stream :: "request \<Rightarrow> bool" where "follow_stream q = as_bool (jget (n_body (rq_n q)) ''stream'')"

definition run_line :: "follow_env \<Rightarrow> string" where
  "run_line fe = ''event: run'' @ nl @ ''data: '' @ fe_encode fe (JObj [(''run_id'', JStr (fe_run fe))]) @ nl2"

definition delta_line :: "follow_env \<Rightarrow> chat_delta \<Rightarrow> string" where "delta_line fe d = ''data: '' @ fe_delta fe d @ nl2"

definition final_line :: "follow_env \<Rightarrow> string" where
  "final_line fe = ''data: '' @ fe_encode fe (JObj [(''id'', JStr (fe_run fe)),
     (''choices'', JArr [JObj [(''index'', JNum ''0''), (''delta'', JObj []), (''finish_reason'', JStr (ch_finish (fe_end fe)))]]),
     (''usage'', ch_usage (fe_end fe))]) @ nl2 @ ''data: [DONE]'' @ nl2"

definition ended_error :: "run \<Rightarrow> gw_error" where
  "ended_error r = errf CodeUpstreamError 0 ''host-tool chat ended: %s'' [FStr (rn_reason r)]"

definition fail_follow :: "follow_env \<Rightarrow> gw_error \<Rightarrow> request \<Rightarrow> request" where "fail_follow fe e q = fail_request (fe_env fe) e q"

text \<open>The run has ended: only a durable \<open>Done\<close> of a consumer without error is announced.\<close>

definition announce :: "follow_env \<Rightarrow> (bool \<times> bool) \<Rightarrow> run \<Rightarrow> request \<Rightarrow> request" where
  "announce fe io r q =
     (if rn_state r \<noteq> Done \<or> ch_error (fe_end fe) \<noteq> None then
        fail_follow fe (case ch_error (fe_end fe) of Some (ErrGateway e) \<Rightarrow> e | _ \<Rightarrow> ended_error r) q
      else if follow_stream q then snd (put_text (final_line fe) io q)
      else write_json (en_encoded_length (fe_env fe)) (ch_output (fe_end fe)) q)"

fun confirm_run :: "follow_env \<Rightarrow> (bool \<times> bool) \<Rightarrow> (manager \<times> confirm_select) list \<Rightarrow> request \<Rightarrow> request" where
  "confirm_run fe io [] q = q"
| "confirm_run fe io ((m, sel) # xs) q =
     (case fst (get_run (fe_store fe) (fe_now fe) (fe_key fe) (fe_run fe) (mg_store m)) of
        Inl e \<Rightarrow> fail_follow fe (run_gw_error e) q
      | Inr r \<Rightarrow>
          if terminal (rn_state r) then announce fe io r q
          else (case sel of
                  ConfirmGone \<Rightarrow> q
                | ConfirmDeadline \<Rightarrow> fail_follow fe (errf CodeUpstreamError 0 ''chat completion was not confirmed'' []) q
                | ConfirmPoll \<Rightarrow> confirm_run fe io xs q))"

fun drain_deltas :: "follow_env \<Rightarrow> (nat \<Rightarrow> bool \<times> bool) \<Rightarrow> nat \<Rightarrow> chat_delta list \<Rightarrow> request \<Rightarrow> (bool \<times> nat) \<times> request" where
  "drain_deltas fe io i [] q = ((True, i), q)"
| "drain_deltas fe io i (d # ds) q =
     (if \<not> follow_stream q then drain_deltas fe io i ds q
      else (case put_text (delta_line fe d) (io i) q of
              (True, q) \<Rightarrow> drain_deltas fe io (i + 1) ds q
            | (False, q) \<Rightarrow> ((False, i), q)))"

fun follow_loop :: "follow_env \<Rightarrow> (nat \<Rightarrow> bool \<times> bool) \<Rightarrow> (manager \<times> confirm_select) list \<Rightarrow> nat \<Rightarrow> follow_select list \<Rightarrow> request \<Rightarrow> request" where
  "follow_loop fe io cs i [] q = q"
| "follow_loop fe io cs i (sel # xs) q =
     (case sel of
        FollowGone \<Rightarrow> q
      | FollowDelta d \<Rightarrow>
          if \<not> follow_stream q then follow_loop fe io cs i xs q
          else (case put_text (delta_line fe d) (io i) q of
                  (True, q) \<Rightarrow> follow_loop fe io cs (i + 1) xs q
                | (False, q) \<Rightarrow> q)
      | FollowPoll m closing \<Rightarrow>
          (case fst (get_run (fe_store fe) (fe_now fe) (fe_key fe) (fe_run fe) (mg_store m)) of
             Inl e \<Rightarrow> fail_follow fe (run_gw_error e) q
           | Inr r \<Rightarrow>
               if (rn_state r = Failed \<or> rn_state r = Cancelled) \<and> \<not> closing then fail_follow fe (ended_error r) q
               else follow_loop fe io cs i xs q)
      | FollowTick \<Rightarrow>
          if \<not> follow_stream q then follow_loop fe io cs i xs q
          else (case put_text ('': running'' @ nl2) (io i) q of
                  (True, q) \<Rightarrow> follow_loop fe io cs (i + 1) xs q
                | (False, q) \<Rightarrow> q)
      | FollowDone ds \<Rightarrow>
          (case drain_deltas fe io i ds q of
             ((False, i), q) \<Rightarrow> q
           | ((True, i), q) \<Rightarrow> confirm_run fe (io i) cs q))"

text \<open>The handler; whatever it did, the run is cancelled at the end, in the manager of that moment.\<close>

definition follow_chat ::
    "follow_env \<Rightarrow> (nat \<Rightarrow> bool \<times> bool) \<Rightarrow> (manager \<times> confirm_select) list \<Rightarrow> follow_select list \<Rightarrow> request \<times> manager \<Rightarrow> request \<times> manager" where
  "follow_chat fe io cs xs = (\<lambda>(q, m).
     ((if follow_stream q then
         (case put_text (run_line fe) (io 0) (stream_head q) of
            (True, q) \<Rightarrow> follow_loop fe io cs 1 xs q
          | (False, q) \<Rightarrow> q)
       else follow_loop fe io cs 0 xs q),
      snd (cancel_run (fe_store fe) (fe_now fe) (fe_key fe) (fe_run fe) m)))"

subsection \<open>What is announced\<close>

fun lines_before :: "follow_env \<Rightarrow> follow_select list \<Rightarrow> string list" where
  "lines_before fe [] = []"
| "lines_before fe (sel # xs) =
     (case sel of
        FollowDelta d \<Rightarrow> delta_line fe d # lines_before fe xs
      | FollowTick \<Rightarrow> ('': running'' @ nl2) # lines_before fe xs
      | FollowPoll m closing \<Rightarrow> lines_before fe xs
      | _ \<Rightarrow> [])"

text \<open>The run was read as done, from the store, while the handler waited for the confirmation.\<close>

definition read_done :: "follow_env \<Rightarrow> (manager \<times> confirm_select) list \<Rightarrow> bool" where
  "read_done fe cs \<longleftrightarrow> (\<exists>m sel r. (m, sel) \<in> set cs \<and> rn_state r = Done
     \<and> fst (get_run (fe_store fe) (fe_now fe) (fe_key fe) (fe_run fe) (mg_store m)) = Inr r)"

definition chat_tail :: "follow_env \<Rightarrow> (manager \<times> confirm_select) list \<Rightarrow> bool \<Rightarrow> piece list \<Rightarrow> bool" where
  "chat_tail fe cs whole tail \<longleftrightarrow> tail = [] \<or> (\<exists>e. tail = error_pieces e)
     \<or> tail = [PText (final_line fe)] \<and> whole \<and> ch_error (fe_end fe) = None \<and> read_done fe cs"

lemma put_text_follow: "put_text t io q = (b, q') \<Longrightarrow> follow_stream q' = follow_stream q \<and> stream_open q' = stream_open q"
  using put_text_open [of t io q b q'] by (cases "fst io") (auto simp: put_text_def follow_stream_def)

lemma confirm_body:
  assumes "stream_open q" and "follow_stream q"
  shows "\<exists>tail. body_of (confirm_run fe io cs q) = body_of q @ tail \<and> chat_tail fe cs True tail"
proof (induction cs)
  case Nil
  show ?case by (intro exI [of _ "[]"]) (simp add: chat_tail_def)
next
  case (Cons c cs)
  obtain m sel where c: "c = (m, sel)" by (cases c)
  let ?g = "fst (get_run (fe_store fe) (fe_now fe) (fe_key fe) (fe_run fe) (mg_store m))"
  have failed: ?case if "confirm_run fe io (c # cs) q = fail_follow fe e q" for e
    using fail_open [OF assms(1), of "fe_env fe" e] that by (auto simp: fail_follow_def chat_tail_def)
  show ?case
  proof (cases ?g)
    case (Inl e)
    then show ?thesis by (intro failed [of "run_gw_error e"]) (simp add: c)
  next
    case (Inr r)
    show ?thesis
    proof (cases "terminal (rn_state r)")
      case True
      show ?thesis
      proof (cases "rn_state r \<noteq> Done \<or> ch_error (fe_end fe) \<noteq> None")
        case bad: True
        show ?thesis by (rule failed, simp only: c confirm_run.simps Inr sum.case True if_True announce_def bad)
      next
        case False
        then have "read_done fe (c # cs)" using Inr by (auto simp: read_done_def c)
        moreover obtain b q1 where p: "put_text (final_line fe) io q = (b, q1)" by (cases "put_text (final_line fe) io q")
        have "confirm_run fe io (c # cs) q = q1" using False True assms(2) by (simp add: c Inr announce_def p)
        ultimately show ?thesis using put_text_body [OF p] False
          by (intro exI [of _ "if fst io then [PText (final_line fe)] else []"]) (simp add: chat_tail_def)
      qed
    next
      case go: False
      have more: "chat_tail fe cs True tail \<Longrightarrow> chat_tail fe (c # cs) True tail" for tail
        by (auto simp: chat_tail_def read_done_def)
      show ?thesis
      proof (cases sel)
        case ConfirmGone
        then show ?thesis using go by (intro exI [of _ "[]"]) (simp add: c Inr chat_tail_def)
      next
        case ConfirmDeadline
        then show ?thesis using go by (intro failed) (simp add: c Inr)
      next
        case ConfirmPoll
        then have "confirm_run fe io (c # cs) q = confirm_run fe io cs q" using go by (simp add: c Inr)
        then show ?thesis using Cons.IH more by auto
      qed
    qed
  qed
qed

lemma drain_body:
  assumes "drain_deltas fe io i ds q = ((b, j), q')" and "follow_stream q"
  shows "\<exists>n. body_of q' = body_of q @ map (PText \<circ> delta_line fe) (take n ds) \<and> (b \<longrightarrow> n = length ds)
     \<and> follow_stream q' \<and> stream_open q' = stream_open q"
  using assms
proof (induction ds arbitrary: i q)
  case Nil
  then show ?case by simp
next
  case (Cons d ds)
  obtain b1 q1 where p: "put_text (delta_line fe d) (io i) q = (b1, q1)" by (cases "put_text (delta_line fe d) (io i) q")
  note pb = put_text_body [OF p] and pf = put_text_follow [OF p]
  show ?case
  proof (cases b1)
    case True
    then have "drain_deltas fe io (i + 1) ds q1 = ((b, j), q')" using Cons.prems p by simp
    from Cons.IH [OF this] pf Cons.prems(2) obtain n where
      "body_of q' = body_of q1 @ map (PText \<circ> delta_line fe) (take n ds)" "b \<longrightarrow> n = length ds" "follow_stream q'" "stream_open q' = stream_open q1"
      by blast
    then show ?thesis using pb pf True by (intro exI [of _ "Suc n"]) simp
  next
    case False
    then have "\<not> b" "q' = q1" using Cons.prems p by simp_all
    then show ?thesis using pb pf Cons.prems(2) by (intro exI [of _ "if fst (io i) then 1 else 0"]) simp
  qed
qed

text \<open>The loop of a stream: lines in their order, then at most one end.\<close>

definition follow_shape :: "follow_env \<Rightarrow> (manager \<times> confirm_select) list \<Rightarrow> follow_select list \<Rightarrow> request \<Rightarrow> request \<Rightarrow> bool" where
  "follow_shape fe cs xs q q' \<longleftrightarrow> (\<exists>ts tail. body_of q' = body_of q @ map PText ts @ tail
     \<and> chat_tail fe cs (\<exists>ds. FollowDone ds \<in> set xs \<and> ts = lines_before fe xs @ map (delta_line fe) ds) tail)"

lemma follow_shape_stop: "body_of q' = body_of q @ map PText ts @ tail \<Longrightarrow> tail = [] \<or> (\<exists>e. tail = error_pieces e) \<Longrightarrow> follow_shape fe cs xs q q'"
  unfolding follow_shape_def chat_tail_def by blast

lemma follow_shape_step:
  assumes "follow_shape fe cs xs q1 q'" and "body_of q1 = body_of q @ map PText us"
    and "\<And>ds. lines_before fe (sel # xs) = us @ lines_before fe xs"
  shows "follow_shape fe cs (sel # xs) q q'"
proof -
  from assms(1) obtain ts tail where t: "body_of q' = body_of q1 @ map PText ts @ tail"
    "chat_tail fe cs (\<exists>ds. FollowDone ds \<in> set xs \<and> ts = lines_before fe xs @ map (delta_line fe) ds) tail" unfolding follow_shape_def by blast
  show ?thesis unfolding follow_shape_def
  proof (intro exI conjI)
    show "body_of q' = body_of q @ map PText (us @ ts) @ tail" using t(1) assms(2) by simp
    show "chat_tail fe cs (\<exists>ds. FollowDone ds \<in> set (sel # xs) \<and> us @ ts = lines_before fe (sel # xs) @ map (delta_line fe) ds) tail"
      using t(2) assms(3) by (auto simp: chat_tail_def)
  qed
qed

lemma follow_loop_shape: "stream_open q \<Longrightarrow> follow_stream q \<Longrightarrow> follow_shape fe cs xs q (follow_loop fe io cs i xs q)"
proof (induction xs arbitrary: i q)
  case Nil
  show ?case by (rule follow_shape_stop [of _ _ "[]" "[]"]) simp_all
next
  case (Cons sel xs)
  have line: ?case if l: "lines_before fe (sel # xs) = t # lines_before fe xs"
      and f: "follow_loop fe io cs i (sel # xs) q = (case put_text t (io i) q of (True, q) \<Rightarrow> follow_loop fe io cs (i + 1) xs q | (False, q) \<Rightarrow> q)" for t
  proof -
    obtain b q1 where p: "put_text t (io i) q = (b, q1)" by (cases "put_text t (io i) q")
    note pb = put_text_body [OF p] and pf = put_text_follow [OF p]
    show ?thesis
    proof (cases b)
      case True
      then have "follow_shape fe cs xs q1 (follow_loop fe io cs i (sel # xs) q)" using Cons.IH [of q1 "i + 1"] pf Cons.prems f p by simp
      from follow_shape_step [OF this, of q "[t]"] pb True l show ?thesis by simp
    next
      case False
      then show ?thesis using pb f p by (intro follow_shape_stop [of _ _ "if fst (io i) then [t] else []" "[]"]) simp_all
    qed
  qed
  have failed: ?case if "follow_loop fe io cs i (sel # xs) q = fail_follow fe e q" for e
    using fail_open [OF Cons.prems(1), of "fe_env fe" e] that by (auto simp: fail_follow_def intro: follow_shape_stop [of _ _ "[]"])
  show ?case
  proof (cases sel)
    case FollowGone
    then show ?thesis by (intro follow_shape_stop [of _ _ "[]" "[]"]) simp_all
  next
    case (FollowDelta d)
    then show ?thesis using Cons.prems(2) by (intro line) simp_all
  next
    case FollowTick
    then show ?thesis using Cons.prems(2) by (intro line) simp_all
  next
    case (FollowPoll m closing)
    show ?thesis
    proof (cases "fst (get_run (fe_store fe) (fe_now fe) (fe_key fe) (fe_run fe) (mg_store m))")
      case (Inl e)
      then show ?thesis by (intro failed) (simp add: FollowPoll)
    next
      case (Inr r)
      show ?thesis
      proof (cases "(rn_state r = Failed \<or> rn_state r = Cancelled) \<and> \<not> closing")
        case True
        then show ?thesis by (intro failed) (simp add: FollowPoll Inr)
      next
        case False
        then have "follow_loop fe io cs i (sel # xs) q = follow_loop fe io cs i xs q" by (auto simp: FollowPoll Inr)
        then show ?thesis using follow_shape_step [OF Cons.IH [OF Cons.prems], of q "[]" sel i] by (simp add: FollowPoll)
      qed
    qed
  next
    case (FollowDone ds)
    obtain b j q1 where d: "drain_deltas fe io i ds q = ((b, j), q1)" by (metis prod.collapse)
    from drain_body [OF d Cons.prems(2)] obtain n where n: "body_of q1 = body_of q @ map (PText \<circ> delta_line fe) (take n ds)"
      "b \<longrightarrow> n = length ds" "follow_stream q1" "stream_open q1 = stream_open q" by blast
    show ?thesis
    proof (cases b)
      case False
      then show ?thesis using n(1) d by (intro follow_shape_stop [of _ _ "map (delta_line fe) (take n ds)" "[]"]) (simp_all add: FollowDone)
    next
      case True
      then have f: "follow_loop fe io cs i (sel # xs) q = confirm_run fe (io j) cs q1" by (simp add: FollowDone d)
      from confirm_body [of q1 fe "io j" cs] n Cons.prems obtain tail where
        t: "body_of (confirm_run fe (io j) cs q1) = body_of q1 @ tail" "chat_tail fe cs True tail" by blast
      show ?thesis unfolding follow_shape_def f
      proof (intro exI conjI)
        show "body_of (confirm_run fe (io j) cs q1) = body_of q @ map PText (map (delta_line fe) ds) @ tail" using t(1) n True by simp
        show "chat_tail fe cs (\<exists>ds'. FollowDone ds' \<in> set (sel # xs) \<and> map (delta_line fe) ds = lines_before fe (sel # xs) @ map (delta_line fe) ds') tail"
          using t(2) by (auto simp: chat_tail_def FollowDone)
      qed
    qed
  qed
qed

lemma stream_head_open: "bare q \<Longrightarrow> rq_path q \<noteq> responses_endpoint \<Longrightarrow>
    stream_open (stream_head q) \<and> body_of (stream_head q) = body_of q \<and> follow_stream (stream_head q) = follow_stream q"
  by (simp add: stream_head_def stream_open_def bare_def write_header_def body_of_def follow_stream_def Let_def)

text \<open>
  C0. A streamed chat is announced as finished only when its run is durably done. The friend is sent the run's name, then in their order
  the deltas and signs of life, then at most one end. The closing frame with [DONE] is sent only after the store was read and held the run
  as done, after a consumer without error, and after every delta of the answer; every other end is an error or silence. Whatever
  happened, the run is cancelled on the way out.
\<close>

theorem chat_done_is_durable:
  assumes f: "follow_chat fe io cs xs (q, m) = (q', m')" and b: "bare q" "rq_path q \<noteq> responses_endpoint" and st: "follow_stream q"
  shows "(\<exists>ts tail. body_of q' = body_of q @ map PText ts @ tail
     \<and> (tail = [] \<or> (\<exists>e. tail = error_pieces e)
        \<or> tail = [PText (final_line fe)] \<and> ch_error (fe_end fe) = None \<and> read_done fe cs
          \<and> (\<exists>ds. FollowDone ds \<in> set xs \<and> ts = run_line fe # lines_before fe xs @ map (delta_line fe) ds)))
     \<and> m' = snd (cancel_run (fe_store fe) (fe_now fe) (fe_key fe) (fe_run fe) m)"
proof -
  note h = stream_head_open [OF b]
  obtain ok q1 where p: "put_text (run_line fe) (io 0) (stream_head q) = (ok, q1)" by (cases "put_text (run_line fe) (io 0) (stream_head q)")
  note pb = put_text_body [OF p] and pf = put_text_follow [OF p]
  have m': "m' = snd (cancel_run (fe_store fe) (fe_now fe) (fe_key fe) (fe_run fe) m)" using f by (simp add: follow_chat_def)
  show ?thesis
  proof (cases ok)
    case False
    then have "q' = q1" using f st p by (simp add: follow_chat_def)
    then show ?thesis using pb h m'
      by (intro conjI exI [of _ "if fst (io 0) then [run_line fe] else []"] exI [of _ "[]"]) simp_all
  next
    case True
    then have q': "q' = follow_loop fe io cs 1 xs q1" using f st p by (simp add: follow_chat_def)
    from follow_loop_shape [of q1 fe cs xs io 1] h pf st obtain ts tail where
      t: "body_of q' = body_of q1 @ map PText ts @ tail" "chat_tail fe cs (\<exists>ds. FollowDone ds \<in> set xs \<and> ts = lines_before fe xs @ map (delta_line fe) ds) tail"
      by (auto simp: follow_shape_def q')
    have "body_of q' = body_of q @ map PText (run_line fe # ts) @ tail" using t(1) pb h True by simp
    then show ?thesis using t(2) m' unfolding chat_tail_def by blast
  qed
qed

definition sample_follow :: follow_env where
  "sample_follow = \<lparr>fe_store = sample_run_env, fe_now = 5, fe_env = sample_env [], fe_key = ''k1'', fe_run = ''r_a'', fe_delta = (\<lambda>_. ''{}''),
     fe_encode = (\<lambda>_. ''{}''), fe_end = \<lparr>ch_error = None, ch_finish = ''stop'', ch_usage = JNull, ch_output = JNull\<rparr>\<rparr>"

definition done_manager :: manager where
  "done_manager = chat_manager\<lparr>mg_store := sample_store\<lparr>st_data := [(''k1'', sample_snapshot\<lparr>sn_runs := [(''r_a'', sample_run\<lparr>rn_state := Done\<rparr>)]\<rparr>)]\<rparr>\<rparr>"

theorem chat_done_is_durable_witness:
  "\<exists>q. follow_stream q \<and> bare q
     \<and> body_of (fst (follow_chat sample_follow (\<lambda>_. (True, True)) [(done_manager, ConfirmPoll)] [FollowTick, FollowDone []] (q, done_manager)))
         = [PText (run_line sample_follow), PText ('': running'' @ nl2), PText (final_line sample_follow)]
     \<and> read_done sample_follow [(done_manager, ConfirmPoll)]
     \<and> snd (follow_chat sample_follow (\<lambda>_. (True, True)) [(done_manager, ConfirmPoll)] [FollowTick, FollowDone []] (q, done_manager))
         = snd (cancel_run sample_run_env 5 ''k1'' ''r_a'' done_manager)"
proof -
  define q where "q = (new_request 1 (hs_router sample_host) ''POST'' chat_endpoint)\<lparr>rq_n := no_normalized\<lparr>n_body := [(''stream'', JBool True)]\<rparr>\<rparr>"
  have q: "follow_stream q" "bare q" "rq_path q \<noteq> responses_endpoint" "body_of q = []"
    by (simp_all add: q_def new_request_def follow_stream_def bare_def body_of_def new_writer_def endpoint_defs responses_endpoint_def Let_def
        split: option.splits)
  let ?f = "follow_chat sample_follow (\<lambda>_. (True, True)) [(done_manager, ConfirmPoll)] [FollowTick, FollowDone []] (q, done_manager)"
  have g: "fst (get_run sample_run_env 5 ''k1'' ''r_a'' (mg_store done_manager)) = Inr (sample_run\<lparr>rn_state := Done\<rparr>)"
    by (simp add: get_run_def load_def done_manager_def sample_store_def start_store_def new_store_def safe_id_def id_char_def byte_def Let_def)
  have b: "body_of (fst ?f) = [PText (run_line sample_follow), PText ('': running'' @ nl2), PText (final_line sample_follow)]"
    using q g stream_head_open [OF q(2,3)]
    by (simp add: follow_chat_def put_text_def sample_follow_def announce_def follow_stream_def body_of_def write_piece_def)
  from chat_done_is_durable [OF prod.collapse [symmetric] q(2,3,1), of sample_follow "\<lambda>_. (True, True)" "[(done_manager, ConfirmPoll)]" "[FollowTick, FollowDone []]" done_manager]
  have "snd ?f = snd (cancel_run sample_run_env 5 ''k1'' ''r_a'' done_manager)" by (simp add: sample_follow_def)
  moreover have "read_done sample_follow [(done_manager, ConfirmPoll)]" using g by (auto simp: read_done_def sample_follow_def)
  ultimately show ?thesis using q b by blast
qed

end
