(* ===== verification/Run_Routes.thy ===== *)
theory Run_Routes
  imports Run_Follow Run_Images Run_Drive
begin

text \<open>
  The HTTP routes of runs and images (\<open>runRoute\<close> of internal/gateway/runs.go, run_detail.go, \<open>imageRoute\<close> and \<open>imageJobs\<close> of images.go):
  submitting, listing, reading, cancelling and approving runs, reading and discarding images, and the image call that waits for its runs.
  Decoded bodies and the JSON of an answer are parameters; the handlers work on the run manager and the image files.
\<close>

section \<open>What is outside\<close>

record run_submission =
  ri_kind :: string
  ri_client :: "string option"
  ri_priority :: string
  ri_input :: string

record image_submission_body =
  ib_client :: string
  ib_prompts :: "string list"
  ib_prompt :: string
  ib_conversation :: string
  ib_n :: int
  ib_size :: string
  ib_model :: string
  ib_format :: string

datatype run_answer =
    AnswerId string | AnswerRows "run_summary list" | AnswerDetail run_detail | AnswerRun run | AnswerJob run nat
  | AnswerJobs "(run \<times> nat) list" | AnswerRuns "run list" | AnswerDiscarded | AnswerImages int "string list"

text \<open>
  The body that arrived, when it was one bounded request; the admission of an image batch as the manager's policy prepares it; the
  engine's offer to the key; the turns of an event stream.
\<close>

record route_env =
  rv_store :: run_env
  rv_image :: image_env
  rv_now :: gotime
  rv_env :: env
  rv_submission :: "run_submission option"
  rv_images :: "image_submission_body option"
  rv_approval :: "(string \<times> bool) option"
  rv_download :: bool
  rv_admission :: "key_state batch_hook option"
  rv_offer :: "gw_error + image_offer"
  rv_image_input :: "string \<Rightarrow> string \<Rightarrow> string \<Rightarrow> string"
  rv_json :: "run_answer \<Rightarrow> json"
  rv_failure :: "string \<Rightarrow> (string \<times> int) option"
  rv_base64 :: "string \<Rightarrow> string"
  rv_event :: "run_event \<Rightarrow> string"
  rv_last_event :: string
  rv_cursor :: string
  rv_io :: "nat \<Rightarrow> bool \<times> bool"
  rv_turns :: "(event_select \<times> env \<times> bool \<times> bool) list"
  rv_others :: "run_store \<Rightarrow> run_store"

text \<open>The manager holds the store; the files of the images are beside it.\<close>

type_synonym run_world = "manager \<times> image_world"
type_synonym run_handler = "request \<times> gateway \<times> run_world \<Rightarrow> request \<times> gateway \<times> run_world"

definition on_store :: "(run_store \<Rightarrow> 'a \<times> run_store) \<Rightarrow> run_world \<Rightarrow> 'a \<times> run_world" where
  "on_store f = (\<lambda>(m, w). case f (mg_store m) of (a, s) \<Rightarrow> (a, m\<lparr>mg_store := s\<rparr>, w))"

definition on_images :: "(image_world \<Rightarrow> 'a \<times> image_world) \<Rightarrow> run_world \<Rightarrow> 'a \<times> run_world" where
  "on_images f = (\<lambda>(m, w). case f (w\<lparr>iw_store := mg_store m\<rparr>) of (a, w) \<Rightarrow> (a, m\<lparr>mg_store := iw_store w\<rparr>, w))"

section \<open>Answers\<close>

definition refuse :: "route_env \<Rightarrow> gw_error \<Rightarrow> run_handler" where
  "refuse rv e = (\<lambda>(q, g, w). (fail_request (rv_env rv) e q, g, w))"

definition no_store :: "request \<Rightarrow> request" where
  "no_store q = q\<lparr>rq_writer := set_header ''Cache-Control'' ''no-store'' (rq_writer q)\<rparr>"

definition send_json :: "int \<Rightarrow> json \<Rightarrow> request \<Rightarrow> request" where
  "send_json status v q =
     (let q = write_header status (q\<lparr>rq_outcome := OutcomeServed, rq_writer := set_header ''Content-Type'' ''application/json'' (rq_writer q)\<rparr>)
      in q\<lparr>rq_writer := write_piece (PJson v) (rq_writer q)\<rparr>)"

text \<open>An image run is shown with its place in the queue.\<close>

definition shown_answer :: "manager \<Rightarrow> run_answer \<Rightarrow> run_answer" where
  "shown_answer m a =
     (case a of
        AnswerRun r \<Rightarrow> if rn_kind r = ''image'' then AnswerJob r (if rn_state r = Queued then position ''image'' (rn_id r) m else 0) else a
      | _ \<Rightarrow> a)"

text \<open>The end of \<open>runRoute\<close>: a run that ended meanwhile is the answer, not an error.\<close>

definition answer_run_route :: "route_env \<Rightarrow> int \<Rightarrow> run_error + run_answer \<Rightarrow> run_handler" where
  "answer_run_route rv status res = (\<lambda>(q, g, w).
     case res of
       Inl (CommittedTerminal r) \<Rightarrow> (send_json 200 (rv_json rv (shown_answer (fst w) (AnswerRun r))) q, g, w)
     | Inl e \<Rightarrow> refuse rv (run_gw_error e) (q, g, w)
     | Inr a \<Rightarrow> (send_json status (rv_json rv (shown_answer (fst w) a)) q, g, w))"

text \<open>\<open>admitImageHTTP\<close>: a control request spends a message of the key's minute.\<close>

definition admit_control :: "route_env \<Rightarrow> key \<Rightarrow> request \<times> gateway \<Rightarrow> gw_error option \<times> request \<times> gateway" where
  "admit_control rv k = (\<lambda>(q, g).
     case admit_image_http (en_admit_t (rv_env rv)) (k_id k) (k_limits k) (gw_limiter g) of
       (Inl e, l) \<Rightarrow> (Some e, q, g\<lparr>gw_limiter := l\<rparr>)
     | (Inr a, l) \<Rightarrow> (None, q\<lparr>rq_adm := Some a\<rparr>, g\<lparr>gw_limiter := l\<rparr>))"

text \<open>A handler behind that admission; the request's kind is its path.\<close>

definition admitted :: "route_env \<Rightarrow> key \<Rightarrow> run_handler \<Rightarrow> run_handler" where
  "admitted rv k h = (\<lambda>(q, g, w).
     case admit_control rv k (q\<lparr>rq_kind := rq_path q\<rparr>, g) of
       (Some e, q, g) \<Rightarrow> refuse rv e (q, g, w)
     | (None, q, g) \<Rightarrow> h (q, g, w))"

section \<open>Submitting\<close>

text \<open>The batch is created in the manager; an image batch takes its hold on the key's ledger in the same step.\<close>

definition submit_here ::
    "route_env \<Rightarrow> string \<Rightarrow> string \<Rightarrow> string \<Rightarrow> string list \<Rightarrow> string list \<Rightarrow> gateway \<times> run_world \<Rightarrow> (run_error + run list) \<times> gateway \<times> run_world" where
  "submit_here rv kid kind priority inputs correlation = (\<lambda>(g, m, w).
     if kind = ''image'' then
       (case submit_batch (rv_store rv) (rv_now rv) kid kind priority inputs correlation (rv_admission rv) (m, key_state_of (gw_limiter g) kid) of
          (res, m, st) \<Rightarrow> (res, g\<lparr>gw_limiter := (gw_limiter g)(kid \<mapsto> st)\<rparr>, m, w))
     else (case submit_batch (rv_store rv) (rv_now rv) kid kind priority inputs correlation (None :: unit batch_hook option) (m, ()) of
             (res, m, _) \<Rightarrow> (res, g, m, w)))"

definition buffer_submission :: "request \<times> gateway \<Rightarrow> request \<times> gateway" where
  "buffer_submission = (\<lambda>(q, g). (q\<lparr>rq_buffered := True\<rparr>, g\<lparr>gw_bodies := gw_bodies g + 1\<rparr>))"

definition submit_route :: "route_env \<Rightarrow> key \<Rightarrow> run_handler" where
  "submit_route rv k = (\<lambda>(q, g, w).
     case buffer_submission (q, g) of (q, g) \<Rightarrow>
       if gw_bodies g > max_live_host then refuse rv (errf CodeConcurrencyLimited 1 ''run submissions are busy'' []) (q, g, w)
       else (case rv_submission rv of
               None \<Rightarrow> refuse rv (errf CodeInvalidRequest 0 ''expected one bounded run request'' []) (q, g, w)
             | Some inp \<Rightarrow>
                 if ri_kind inp = ''agent'' \<and> \<not> k_agent k then
                   refuse rv (errf CodeInvalidRequest 0 ''agent capability is off for this key'' []) (q, g, w)
                 else if ri_kind inp = ''agent'' \<and> ''agent'' \<notin> set (mg_kinds (fst w)) then refuse rv (run_gw_error ErrAgentUnavailable) (q, g, w)
                 else (case submit_here rv (k_id k) (ri_kind inp) (ri_priority inp) [ri_input inp]
                              (case ri_client inp of Some c \<Rightarrow> [c] | None \<Rightarrow> []) (g, w) of
                         (res, g, w) \<Rightarrow>
                           answer_run_route rv 202 (case res of Inl e \<Rightarrow> Inl e | Inr rows \<Rightarrow> Inr (AnswerId (rn_id (hd rows)))) (q, g, w))))"

section \<open>Reading and ending a run\<close>

definition list_route :: "route_env \<Rightarrow> key \<Rightarrow> run_handler" where
  "list_route rv k = (\<lambda>(q, g, w).
     case on_store (list_runs (rv_store rv) (rv_now rv) (k_id k)) w of
       (res, w) \<Rightarrow> answer_run_route rv 200 (case res of Inl e \<Rightarrow> Inl e | Inr rows \<Rightarrow> Inr (AnswerRows (sort_key (\<lambda>r. - sm_created r) rows))) (q, g, w))"

definition read_route :: "route_env \<Rightarrow> key \<Rightarrow> string \<Rightarrow> run_handler" where
  "read_route rv k rid = (\<lambda>(q, g, w).
     case on_store (detail (rv_store rv) (rv_now rv) (k_id k) rid) w of
       (res, w) \<Rightarrow>
         answer_run_route rv 200
           (case res of Inl e \<Rightarrow> Inl e | Inr d \<Rightarrow> Inr (if rn_kind (de_run d) = ''image'' then AnswerRun (de_run d) else AnswerDetail d)) (q, g, w))"

text \<open>A cancellation that came too late is answered with the run, unless it is still live.\<close>

definition cancel_answer :: "route_env \<Rightarrow> key \<Rightarrow> string \<Rightarrow> run_world \<Rightarrow> (run_error + run) \<times> run_world" where
  "cancel_answer rv k rid = (\<lambda>(m, w).
     case cancel_run (rv_store rv) (rv_now rv) (k_id k) rid m of
       ((None, r), m) \<Rightarrow> (Inr r, m, w)
     | ((Some ErrConflict, _), m) \<Rightarrow>
         (case on_store (get_run (rv_store rv) (rv_now rv) (k_id k) rid) (m, w) of
            (Inl e, w) \<Rightarrow> (Inl e, w)
          | (Inr r, w) \<Rightarrow> (if terminal (rn_state r) then Inr r else Inl ErrConflict, w))
     | ((Some e, _), m) \<Rightarrow> (Inl e, m, w))"

definition delete_route :: "route_env \<Rightarrow> key \<Rightarrow> string \<Rightarrow> run_handler" where
  "delete_route rv k rid = (\<lambda>(q, g, w).
     case cancel_answer rv k rid w of
       (res, w) \<Rightarrow> answer_run_route rv 200 (case res of Inl e \<Rightarrow> Inl e | Inr r \<Rightarrow> Inr (AnswerRun r)) (q, g, w))"

text \<open>\<open>runDetail\<close>: a captured output, or the answer to an approval.\<close>

definition output_route :: "route_env \<Rightarrow> key \<Rightarrow> string \<Rightarrow> string \<Rightarrow> run_handler" where
  "output_route rv k rid oid = (\<lambda>(q, g, w).
     case on_store (captured_output (rv_store rv) (rv_now rv) (k_id k) rid oid) w of
       (Inl e, w) \<Rightarrow> refuse rv (run_gw_error e) (q, g, w)
     | (Inr c, w) \<Rightarrow>
         (let wr = set_header ''X-Content-Type-Options'' ''nosniff'' (set_header ''Content-Type'' (ca_mime c) (rq_writer q));
              q = write_header 200 (q\<lparr>rq_outcome := OutcomeServed, rq_writer := wr\<rparr>)
          in (q\<lparr>rq_writer := write_piece (PText (ca_data c)) (rq_writer q)\<rparr>, g, w)))"

definition approval_route :: "route_env \<Rightarrow> key \<Rightarrow> string \<Rightarrow> run_handler" where
  "approval_route rv k rid = (\<lambda>(q, g, m, w).
     case rv_approval rv of
       None \<Rightarrow> refuse rv (run_gw_error ErrInvalid) (q, g, m, w)
     | Some (aid, allow) \<Rightarrow>
         (case answer_run (rv_store rv) (rv_now rv) (k_id k) rid aid allow m of
            ((err, _), m) \<Rightarrow>
              if err \<noteq> None \<and> \<not> committed_terminal (the err) then refuse rv (run_gw_error (the err)) (q, g, m, w)
              else (case on_store (detail (rv_store rv) (rv_now rv) (k_id k) rid) (m, w) of
                      (Inl e, w) \<Rightarrow> refuse rv (run_gw_error e) (q, g, w)
                    | (Inr d, w) \<Rightarrow> (send_json 200 (rv_json rv (AnswerDetail d)) q, g, w))))"

definition detail_route :: "route_env \<Rightarrow> key \<Rightarrow> string list \<Rightarrow> run_handler" where
  "detail_route rv k parts = (\<lambda>(q, g, w).
     case parts of
       [rid, what, oid] \<Rightarrow> if what = ''outputs'' \<and> rq_method q = ''GET'' then output_route rv k rid oid (q, g, w)
                           else refuse rv (run_gw_error ErrNotFound) (q, g, w)
     | [rid, what] \<Rightarrow> if what = ''approval'' \<and> rq_method q = ''POST'' then approval_route rv k rid (q, g, w)
                      else refuse rv (run_gw_error ErrNotFound) (q, g, w)
     | _ \<Rightarrow> refuse rv (run_gw_error ErrNotFound) (q, g, w))"

text \<open>The routes under a run's path. Reads, cancellations and approvals are admitted first.\<close>

definition one_run_route :: "route_env \<Rightarrow> key \<Rightarrow> run_handler" where
  "one_run_route rv k = (\<lambda>(q, g, w).
     let parts = split_on (CHR ''/'') (drop 9 (rq_path q));
         h = (if length parts > 1 then detail_route rv k parts
              else if rq_method q = ''GET'' then read_route rv k (hd parts)
              else if rq_method q = ''DELETE'' then delete_route rv k (hd parts)
              else answer_run_route rv 200 (Inl ErrNotFound))
     in if rq_method q = ''GET'' \<or> rq_method q = ''DELETE'' \<or> has_suffix ''/approval'' (rq_path q)
        then admitted rv k h (q, g, w) else h (q, g, w))"

definition event_route :: "route_env \<Rightarrow> run_handler" where
  "event_route rv = (\<lambda>(q, g, m, w).
     case run_events (rv_store rv) (rv_event rv) (rv_env rv) (rv_now rv) (rv_last_event rv) (rv_cursor rv) (rv_io rv) (rv_turns rv)
            (rv_others rv) (q, g, mg_store m) of
       (q, g, s) \<Rightarrow> (q, g, m\<lparr>mg_store := s\<rparr>, w))"

definition run_route :: "route_env \<Rightarrow> key \<Rightarrow> run_handler" where
  "run_route rv k = (\<lambda>(q, g, w).
     let q = no_store q in
     if rq_method q = ''GET'' \<and> rq_path q = ''/v1/events'' then event_route rv (q, g, w)
     else if rq_method q = ''POST'' \<and> rq_path q = ''/v1/runs'' then submit_route rv k (q, g, w)
     else if rq_method q = ''GET'' \<and> rq_path q = ''/v1/runs'' then admitted rv k (list_route rv k) (q, g, w)
     else if has_prefix ''/v1/runs/'' (rq_path q) then one_run_route rv k (q, g, w)
     else answer_run_route rv 200 (Inl ErrNotFound) (q, g, w))"

text \<open>Without a run manager there are no runs.\<close>

definition run_routes :: "route_env \<Rightarrow> bool \<Rightarrow> key \<Rightarrow> run_handler" where
  "run_routes rv available k s =
     (if available then run_route rv k s else refuse rv (errf CodeNotFound 0 ''runs unavailable'' []) s)"

text \<open>\<open>serveHTTP\<close> for the routes of runs and images: authentication, the handler \<open>h\<close> of the key, the exit.\<close>

definition serve_control ::
    "host \<Rightarrow> env \<Rightarrow> (key \<Rightarrow> run_handler) \<Rightarrow> gotime \<Rightarrow> string \<Rightarrow> string \<Rightarrow> gateway \<times> run_world \<Rightarrow> request \<times> gateway \<times> run_world" where
  "serve_control hs en h now m p = (\<lambda>(g, w).
     case (case authenticate_request en (new_request now (hs_router hs) m p, g) of
             (Some e, q, g) \<Rightarrow> (fail_request en e q, g, w)
           | (None, q, g) \<Rightarrow> (case rq_key q of Some k \<Rightarrow> h k (q, g, w) | None \<Rightarrow> (q, g, w))) of
       (q, g, w) \<Rightarrow> (q, finish_request hs en (q, en_between en 11 g), w))"

section \<open>A control request gives back what it takes\<close>

text \<open>The parts of a key's ledger that a hold on the image budget does not touch.\<close>

definition steady :: "key_state \<Rightarrow> key_state \<Rightarrow> bool" where
  "steady st st' \<longleftrightarrow> ks_in_flight st' = ks_in_flight st \<and> ms_reserved (meter ''tokens'' st') = ms_reserved (meter ''tokens'' st)"

definition steady_hook :: "key_state batch_hook option \<Rightarrow> bool" where
  "steady_hook hook \<longleftrightarrow> (\<forall>f rows st r st'. hook = Some f \<longrightarrow> f rows st = (r, st') \<longrightarrow>
     steady st st' \<and> (\<forall>undo x. r = Inr undo \<longrightarrow> steady x (undo x)))"

lemma steady_refl [simp]: "steady st st"
  by (simp add: steady_def)

lemma steady_trans: "steady a b \<Longrightarrow> steady b c \<Longrightarrow> steady a c"
  by (simp add: steady_def)

lemma release_fold_steady: "steady x (fold (\<lambda>r. release_image_reservation (rn_id r)) rows x)"
proof (induction rows arbitrary: x)
  case (Cons r rows)
  have "steady x (release_image_reservation (rn_id r) x)" by (simp add: steady_def release_image_reservation_def meter_def)
  then show ?case using steady_trans [OF _ Cons.IH] by simp
qed simp

text \<open>The hook the image policy prepares is of that kind.\<close>

lemma image_hook_steady: "steady_hook (Some (image_hook now lims))"
  unfolding steady_hook_def
proof (intro allI impI)
  fix f rows st r st' assume "Some (image_hook now lims) = Some f" and h: "f rows st = (r, st')"
  then have h: "image_hook now lims rows st = (r, st')" by simp
  obtain e st1 where ri: "reserve_images now lims (map rn_id rows) st = (e, st1)" by (cases "reserve_images now lims (map rn_id rows) st")
  have "steady st st1" using ri
    by (auto simp: reserve_images_def steady_def meter_def prune_def Let_def split: if_splits)
  then show "steady st st' \<and> (\<forall>undo x. r = Inr undo \<longrightarrow> steady x (undo x))"
    using h release_fold_steady by (cases e) (auto simp: image_hook_def ri)
qed

lemma create_batch_steady:
  assumes "create_batch re now key kind priority inputs cap correlation hook (s, st) = (res, t, st')" and "steady_hook hook"
  shows "steady st st'"
proof -
  have h: "steady st x" if "(case hook of None \<Rightarrow> (Inr id, st) | Some f \<Rightarrow> f rows st) = (r, x)" for rows r x
    using that assms(2) by (auto simp: steady_hook_def split: option.splits)
  have u: "steady st (undo x)" if "(case hook of None \<Rightarrow> (Inr id, st) | Some f \<Rightarrow> f rows st) = (Inr undo, x)" for rows undo x
  proof -
    have "steady x (undo x)" using that assms(2) by (auto simp: steady_hook_def split: option.splits)
    then show ?thesis using h [OF that] steady_trans by blast
  qed
  show ?thesis using assms(1) h u unfolding create_batch_def
    by (auto split: option.splits sum.splits prod.splits if_splits)
qed

lemma submit_batch_steady:
  assumes "submit_batch re now key kind priority inputs correlation hook (m, st) = (res, m', st')" and "steady_hook hook"
  shows "steady st st'"
  using assms create_batch_steady [OF _ assms(2)] unfolding submit_batch_def
  by (auto simp: Let_def split: option.splits sum.splits prod.splits if_splits)

definition handler_ok :: "(request \<Rightarrow> bool) \<Rightarrow> run_handler \<Rightarrow> bool" where
  "handler_ok P h \<longleftrightarrow> (\<forall>q g w q' g' w'. P q \<longrightarrow> h (q, g, w) = (q', g', w') \<longrightarrow> in_balance (q, g) (q', g') \<and> bare q')"

definition calm :: "request \<Rightarrow> bool" where
  "calm q \<longleftrightarrow> bare q \<and> rq_adm q = None \<and> \<not> rq_buffered q"

lemma handler_okI:
  assumes "\<And>q g w q' g' w'. P q \<Longrightarrow> h (q, g, w) = (q', g', w') \<Longrightarrow> in_balance (q, g) (q', g') \<and> bare q'"
  shows "handler_ok P h"
  using assms unfolding handler_ok_def by blast

lemma handler_okD: "handler_ok P h \<Longrightarrow> P q \<Longrightarrow> h (q, g, w) = (q', g', w') \<Longrightarrow> in_balance (q, g) (q', g') \<and> bare q'"
  unfolding handler_ok_def by blast

lemma same_gives: "same_resources q q' \<Longrightarrow> bare q \<Longrightarrow> in_balance (q, g) (q', g) \<and> bare q'"
  using same_balanced [of q q' g] by (simp add: same_resources_def bare_def)

text \<open>An outcome and what is written are no resources.\<close>

lemma writer_gives: "bare q \<Longrightarrow> in_balance (q, g) (q\<lparr>rq_outcome := x, rq_writer := wr, rq_wrote_header := b, rq_ev := ev\<rparr>, g)
    \<and> bare (q\<lparr>rq_outcome := x, rq_writer := wr, rq_wrote_header := b, rq_ev := ev\<rparr>)"
  by (simp add: balanced_by_def held_defs bare_def)

lemma refuse_ok: "adapter_ok (rv_env rv) \<Longrightarrow> handler_ok bare (refuse rv e)"
proof (rule handler_okI)
  fix q g w q' g' w' assume a: "adapter_ok (rv_env rv)" "bare q" "refuse rv e (q, g, w) = (q', g', w')"
  then show "in_balance (q, g) (q', g') \<and> bare q'"
    using fail_request_same [OF a(2,1), of e] same_gives [of q "fail_request (rv_env rv) e q" g] by (auto simp: refuse_def)
qed

lemma send_json_gives: "bare q \<Longrightarrow> in_balance (q, g) (send_json st v q, g) \<and> bare (send_json st v q)"
  by (simp add: send_json_def write_header_def balanced_by_def held_defs bare_def Let_def)

lemma answer_ok: "adapter_ok (rv_env rv) \<Longrightarrow> handler_ok bare (answer_run_route rv st res)"
proof (rule handler_okI)
  fix q g w q' g' w' assume a: "adapter_ok (rv_env rv)" "bare q" "answer_run_route rv st res (q, g, w) = (q', g', w')"
  show "in_balance (q, g) (q', g') \<and> bare q'"
  proof (cases res)
    case (Inr x)
    then show ?thesis using a send_json_gives [of q g] by (auto simp: answer_run_route_def)
  next
    case (Inl e)
    show ?thesis
    proof (cases "committed_terminal e")
      case True
      then show ?thesis using a Inl send_json_gives [of q g] by (auto simp: answer_run_route_def committed_terminal_def split: run_error.splits)
    next
      case False
      then have "refuse rv (run_gw_error e) (q, g, w) = (q', g', w')" using a(3) Inl
        by (auto simp: answer_run_route_def committed_terminal_def split: run_error.splits)
      then show ?thesis using handler_okD [OF refuse_ok [OF a(1)] a(2)] by blast
    qed
  qed
qed

lemma list_route_ok:
  assumes "adapter_ok (rv_env rv)"
  shows "handler_ok bare (list_route rv k)"
  by (rule handler_okI) (auto simp: list_route_def split: prod.splits dest: handler_okD [OF answer_ok [OF assms]])

lemma read_route_ok:
  assumes "adapter_ok (rv_env rv)"
  shows "handler_ok bare (read_route rv k rid)"
  by (rule handler_okI) (auto simp: read_route_def split: prod.splits dest: handler_okD [OF answer_ok [OF assms]])

lemma delete_route_ok:
  assumes "adapter_ok (rv_env rv)"
  shows "handler_ok bare (delete_route rv k rid)"
  by (rule handler_okI) (auto simp: delete_route_def split: prod.splits dest: handler_okD [OF answer_ok [OF assms]])

lemma output_route_ok: "adapter_ok (rv_env rv) \<Longrightarrow> handler_ok bare (output_route rv k rid oid)"
proof (rule handler_okI)
  fix q g w q' g' w' assume a: "adapter_ok (rv_env rv)" "bare q" "output_route rv k rid oid (q, g, w) = (q', g', w')"
  obtain res w1 where o: "on_store (captured_output (rv_store rv) (rv_now rv) (k_id k) rid oid) w = (res, w1)"
    by (cases "on_store (captured_output (rv_store rv) (rv_now rv) (k_id k) rid oid) w")
  show "in_balance (q, g) (q', g') \<and> bare q'"
  proof (cases res)
    case (Inl e)
    then show ?thesis using a handler_okD [OF refuse_ok [OF a(1)] a(2)] by (simp add: output_route_def o)
  next
    case (Inr c)
    then show ?thesis using a(2,3) by (auto simp: output_route_def o write_header_def balanced_by_def held_defs bare_def Let_def)
  qed
qed

lemma approval_route_ok: "adapter_ok (rv_env rv) \<Longrightarrow> handler_ok bare (approval_route rv k rid)"
proof (rule handler_okI)
  fix q g w q' g' w' assume a: "adapter_ok (rv_env rv)" "bare q" "approval_route rv k rid (q, g, w) = (q', g', w')"
  have "(\<exists>e w1. refuse rv e (q, g, w1) = (q', g', w')) \<or> (\<exists>v. q' = send_json 200 v q \<and> g' = g)"
    using a(3) by (cases w) (auto simp: approval_route_def split: option.splits prod.splits sum.splits if_splits)
  then show "in_balance (q, g) (q', g') \<and> bare q'"
    using handler_okD [OF refuse_ok [OF a(1)] a(2)] send_json_gives [OF a(2), of g] by blast
qed

lemma detail_route_ok: "adapter_ok (rv_env rv) \<Longrightarrow> handler_ok bare (detail_route rv k parts)"
proof (rule handler_okI)
  fix q g w q' g' w' assume a: "adapter_ok (rv_env rv)" "bare q" "detail_route rv k parts (q, g, w) = (q', g', w')"
  have "(\<exists>e. refuse rv e (q, g, w) = (q', g', w')) \<or> (\<exists>rid oid. output_route rv k rid oid (q, g, w) = (q', g', w'))
     \<or> (\<exists>rid. approval_route rv k rid (q, g, w) = (q', g', w'))"
    using a(3) by (cases w) (auto simp: detail_route_def split: list.splits if_splits)
  then show "in_balance (q, g) (q', g') \<and> bare q'"
    by (elim disjE exE) (erule handler_okD [OF refuse_ok [OF a(1)] a(2)] handler_okD [OF output_route_ok [OF a(1)] a(2)]
      handler_okD [OF approval_route_ok [OF a(1)] a(2)])+
qed

text \<open>The admission of a control request holds nothing of the ledger but its place in the minute.\<close>

lemma admit_control_gives:
  assumes "admit_control rv k (q, g) = (err, q', g')" and "bare q" and "rq_adm q = None"
  shows "in_balance (q, g) (q', g') \<and> bare q'"
proof -
  obtain r st where e: "key_admit (en_admit_t (rv_env rv)) (k_id k) (k_limits k) True (key_state_of (gw_limiter g) (k_id k)) = (r, st)"
    by (cases "key_admit (en_admit_t (rv_env rv)) (k_id k) (k_limits k) True (key_state_of (gw_limiter g) (k_id k))")
  have st: "steady (key_state_of (gw_limiter g) (k_id k)) st" "\<forall>a. r = Inr a \<longrightarrow> ad_detached a \<and> ad_reserved a = 0"
    using e by (auto simp: key_admit_def steady_def Let_def meter_def prune_def split: if_splits)
  have g': "g' = g\<lparr>gw_limiter := (gw_limiter g)(k_id k \<mapsto> st)\<rparr>" and q': "q' = q \<or> (\<exists>a. r = Inr a \<and> q' = q\<lparr>rq_adm := Some a\<rparr>)"
    using assms(1) by (auto simp: admit_control_def admit_image_http_def admit_resource_def e split: sum.splits)
  show ?thesis using q' st assms(2,3)
    by (auto simp: g' balanced_by_def held_defs bare_def steady_def in_flight_of_def reserved_of_def)
qed

lemma admitted_ok:
  assumes a: "adapter_ok (rv_env rv)" and h: "handler_ok bare h"
  shows "handler_ok calm (admitted rv k h)"
proof (rule handler_okI)
  fix q g w q' g' w' assume c: "calm q" and s: "admitted rv k h (q, g, w) = (q', g', w')"
  let ?q = "q\<lparr>rq_kind := rq_path q\<rparr>"
  obtain err q1 g1 where ad: "admit_control rv k (?q, g) = (err, q1, g1)" by (cases "admit_control rv k (?q, g)") auto
  have b: "in_balance (q, g) (?q, g)" "bare ?q" "rq_adm ?q = None" using c by (simp_all add: calm_def bare_def balanced_by_def held_defs)
  note g1 = admit_control_gives [OF ad b(2,3)]
  have "in_balance (q1, g1) (q', g') \<and> bare q'"
  proof (cases err)
    case None
    then show ?thesis using s ad g1 handler_okD [OF h, of q1 g1 w q' g' w'] by (simp add: admitted_def)
  next
    case (Some e)
    then show ?thesis using s ad g1 handler_okD [OF refuse_ok [OF a], of q1 e g1 w q' g' w'] by (simp add: admitted_def)
  qed
  then show "in_balance (q, g) (q', g') \<and> bare q'" using b(1) g1 balanced_trans by blast
qed

lemma one_run_route_ok:
  assumes "adapter_ok (rv_env rv)"
  shows "handler_ok calm (one_run_route rv k)"
proof (rule handler_okI)
  fix q g w q' g' w' assume c: "calm q" and s: "one_run_route rv k (q, g, w) = (q', g', w')"
  define h where "h = (let parts = split_on (CHR ''/'') (drop 9 (rq_path q)) in
      if length parts > 1 then detail_route rv k parts
      else if rq_method q = ''GET'' then read_route rv k (hd parts)
      else if rq_method q = ''DELETE'' then delete_route rv k (hd parts)
      else answer_run_route rv 200 (Inl ErrNotFound))"
  have h: "handler_ok bare h" using detail_route_ok [OF assms] read_route_ok [OF assms] delete_route_ok [OF assms] answer_ok [OF assms]
    by (simp add: h_def Let_def)
  have "admitted rv k h (q, g, w) = (q', g', w') \<or> h (q, g, w) = (q', g', w')"
    using s by (auto simp: one_run_route_def h_def Let_def split: if_splits)
  then show "in_balance (q, g) (q', g') \<and> bare q'"
  proof (elim disjE)
    assume "admitted rv k h (q, g, w) = (q', g', w')"
    then show ?thesis by (rule handler_okD [OF admitted_ok [OF assms h] c])
  next
    assume "h (q, g, w) = (q', g', w')"
    then show ?thesis using c by (intro handler_okD [OF h]) (simp_all add: calm_def)
  qed
qed

lemma submit_here_gives:
  assumes "submit_here rv kid kind priority inputs correlation (g, w) = (res, g', w')" and "steady_hook (rv_admission rv)"
  shows "in_balance (q, g) (q, g')"
proof (cases "kind = ''image''")
  case False
  then show ?thesis using assms(1) by (cases w) (auto simp: submit_here_def split: prod.splits)
next
  case True
  obtain m iw where w: "w = (m, iw)" by (cases w)
  obtain r m1 st where b: "submit_batch (rv_store rv) (rv_now rv) kid kind priority inputs correlation (rv_admission rv) (m, key_state_of (gw_limiter g) kid) = (r, m1, st)"
    by (metis prod.collapse)
  have "g' = g\<lparr>gw_limiter := (gw_limiter g)(kid \<mapsto> st)\<rparr>" using assms(1) b True by (simp add: submit_here_def w)
  then show ?thesis using submit_batch_steady [OF b assms(2)]
    by (auto simp: balanced_by_def steady_def in_flight_of_def reserved_of_def)
qed

lemma submit_route_ok:
  assumes a: "adapter_ok (rv_env rv)" and h: "steady_hook (rv_admission rv)"
  shows "handler_ok calm (submit_route rv k)"
proof (rule handler_okI)
  fix q g w q' g' w' assume c: "calm q" and s: "submit_route rv k (q, g, w) = (q', g', w')"
  let ?q = "q\<lparr>rq_buffered := True\<rparr>" and ?g = "g\<lparr>gw_bodies := gw_bodies g + 1\<rparr>"
  have b: "in_balance (q, g) (?q, ?g)" "bare ?q"
    using c by (simp_all add: calm_def bare_def balanced_by_def held_defs in_flight_of_def reserved_of_def)
  have "(\<exists>e. refuse rv e (?q, ?g, w) = (q', g', w'))
      \<or> (\<exists>kind pri ins cs st ans. answer_run_route rv st ans (?q, snd (submit_here rv (k_id k) kind pri ins cs (?g, w))) = (q', g', w'))"
    using s unfolding submit_route_def buffer_submission_def
    by (cases "rv_submission rv") (auto simp: split_def Let_def split: if_splits)
  then show "in_balance (q, g) (q', g') \<and> bare q'"
  proof (elim disjE exE)
    fix e assume "refuse rv e (?q, ?g, w) = (q', g', w')"
    then show ?thesis using handler_okD [OF refuse_ok [OF a] b(2)] b(1) balanced_trans by blast
  next
    fix kind pri ins cs st ans
    assume r: "answer_run_route rv st ans (?q, snd (submit_here rv (k_id k) kind pri ins cs (?g, w))) = (q', g', w')"
    obtain res g1 w1 where sh: "submit_here rv (k_id k) kind pri ins cs (?g, w) = (res, g1, w1)" by (metis prod.collapse)
    from submit_here_gives [OF sh h, of ?q] have "in_balance (q, g) (?q, g1)" using b(1) balanced_trans by blast
    moreover have "answer_run_route rv st ans (?q, g1, w1) = (q', g', w')" using r sh by simp
    ultimately show ?thesis using handler_okD [OF answer_ok [OF a] b(2)] balanced_trans by blast
  qed
qed

text \<open>The stream authenticates again and again, which changes when the key was last seen.\<close>

lemma authenticate_gives:
  assumes "authenticate_request en (q, g) = (err, q', g')" and "bare q"
  shows "in_balance (q, g) (q', g') \<and> bare q'"
proof -
  obtain ne k ev where q': "q' = q\<lparr>rq_no_event := ne, rq_key := k, rq_ev := ev\<rparr>" and g': "g' = g \<or> (\<exists>i. g' = see_request en i g)"
  proof -
    have "(\<exists>ne k ev. q' = q\<lparr>rq_no_event := ne, rq_key := k, rq_ev := ev\<rparr>) \<and> (g' = g \<or> (\<exists>i. g' = see_request en i g))"
    proof (cases "bearer (en_auth en)")
      case None
      then show ?thesis using assms(1) by (auto simp: authenticate_request_def intro!: exI [of _ "rq_key q"] exI [of _ "rq_ev q"])
    next
      case (Some s)
      show ?thesis
      proof (cases "en_lookup en s")
        case (Inl e)
        then show ?thesis using assms(1) Some
          by (auto simp: authenticate_request_def intro!: exI [of _ "rq_no_event q"] exI [of _ "rq_key q"] exI [of _ "rq_ev q"])
      next
        case (Inr x)
        show ?thesis
        proof (cases x)
          case None
          then show ?thesis using assms(1) Some Inr
            by (auto simp: authenticate_request_def intro!: exI [of _ "rq_key q"] exI [of _ "rq_ev q"])
        next
          case k: (Some k)
          have "q' = q\<lparr>rq_no_event := rq_no_event q, rq_key := Some k, rq_ev := (rq_ev q)\<lparr>ev_key_id := k_id k\<rparr>\<rparr> \<and> g' = see_request en (k_id k) g"
            using assms(1) Some Inr k by (cases "k_status k") (auto simp: authenticate_request_def Let_def)
          then show ?thesis by blast
        qed
      qed
    qed
    then show ?thesis using that by blast
  qed
  have "in_balance (q, g) (q', g)" "bare q'" using assms(2) by (simp_all add: q' balanced_by_def held_defs bare_def)
  then show ?thesis using g' see_request_balanced balanced_trans by blast
qed

lemma put_text_gives: "put_text t io q = (b, q') \<Longrightarrow> bare q \<Longrightarrow> in_balance (q, g) (q', g) \<and> bare q'"
  by (cases "fst io") (auto simp: put_text_def balanced_by_def held_defs bare_def)

lemma replay_gives: "replay_events enc io i es q = (b, q') \<Longrightarrow> bare q \<Longrightarrow> in_balance (q, g) (q', g) \<and> bare q'"
proof (induction es arbitrary: i q)
  case (Cons e es)
  obtain b1 q1 where p: "put_text (stream_text enc (Some e)) (io i) q = (b1, q1)" by (cases "put_text (stream_text enc (Some e)) (io i) q")
  note g1 = put_text_gives [OF p Cons.prems(2), of g]
  show ?case
  proof (cases b1)
    case True
    then have "replay_events enc io (i + 1) es q1 = (b, q')" using Cons.prems(1) p by simp
    then show ?thesis using Cons.IH g1 balanced_trans by blast
  next
    case False
    then show ?thesis using Cons.prems(1) p g1 by simp
  qed
qed simp

lemma follow_gives:
  "follow_events enc xs (q, g) = (q', g') \<Longrightarrow> bare q \<Longrightarrow> list_all (\<lambda>(sel, en, io). adapter_ok en) xs \<Longrightarrow> in_balance (q, g) (q', g') \<and> bare q'"
proof (induction xs arbitrary: q g)
  case (Cons x xs)
  obtain sel en io where x: "x = (sel, en, io)" by (cases x) auto
  show ?case
  proof (cases "ends_stream sel")
    case True
    then show ?thesis using Cons.prems by (simp add: x)
  next
    case False
    obtain err q1 g1 where a: "authenticate_request en (q, g) = (err, q1, g1)" by (cases "authenticate_request en (q, g)") auto
    note g1 = authenticate_gives [OF a Cons.prems(2)]
    show ?thesis
    proof (cases err)
      case (Some e)
      have "in_balance (q1, g1) (fail_request en e q1, g1) \<and> bare (fail_request en e q1)"
        using fail_request_same [of q1 en e] g1 Cons.prems(3) same_gives [of q1 "fail_request en e q1" g1] by (simp add: x)
      then show ?thesis using Cons.prems(1) False g1 balanced_trans by (simp add: x a Some) blast
    next
      case None
      obtain b q2 where p: "put_text (stream_text enc (shown sel)) io q1 = (b, q2)" by (cases "put_text (stream_text enc (shown sel)) io q1")
      have "bare q1" using g1 by blast
      note g2 = put_text_gives [OF p this, of g1]
      have "in_balance (q2, g1) (q', g') \<and> bare q'"
      proof (cases b)
        case True
        then have "follow_events enc xs (q2, g1) = (q', g')" using Cons.prems(1) False None by (simp add: x a p)
        then show ?thesis using Cons.IH g2 Cons.prems(3) by simp
      next
        case nb: False
        then show ?thesis using Cons.prems(1) False None g2 by (simp add: x a p)
      qed
      then show ?thesis using g1 g2 balanced_trans by blast
    qed
  qed
qed simp

lemma event_route_ok:
  assumes a: "adapter_ok (rv_env rv)" and t: "list_all (\<lambda>(sel, en, io). adapter_ok en) (rv_turns rv)"
  shows "handler_ok bare (event_route rv)"
proof (rule handler_okI)
  fix q g w q' g' w' assume b: "bare q" and s: "event_route rv (q, g, w) = (q', g', w')"
  obtain m iw where w: "w = (m, iw)" by (cases w)
  obtain s' where e: "run_events (rv_store rv) (rv_event rv) (rv_env rv) (rv_now rv) (rv_last_event rv) (rv_cursor rv) (rv_io rv) (rv_turns rv)
            (rv_others rv) (q, g, mg_store m) = (q', g', s')"
    using s by (auto simp: event_route_def w split: prod.splits)
  have f: "in_balance (q, g) (fail_request (rv_env rv) x q, g) \<and> bare (fail_request (rv_env rv) x q)" for x
    using fail_request_same [OF b a, of x] same_gives b by blast
  have h: "in_balance (q, g) (stream_event_head q, g) \<and> bare (stream_event_head q)"
    using b by (simp add: stream_event_head_def write_header_def balanced_by_def held_defs bare_def Let_def)
  show "in_balance (q, g) (q', g') \<and> bare q'"
  proof (cases "rq_key q")
    case None
    then show ?thesis using e b by (simp add: run_events_def)
  next
    case k: (Some k)
    show ?thesis
    proof (cases "event_cursor (rv_last_event rv) (rv_cursor rv)")
      case (Inl x)
      then show ?thesis using e f [of "run_gw_error x"] by (auto simp: run_events_def k)
    next
      case c: (Inr cursor)
      obtain r s1 where u: "subscribe (rv_store rv) (rv_now rv) (k_id k) cursor (mg_store m) = (r, s1)" by (metis surj_pair)
      show ?thesis
      proof (cases r)
        case (Inl x)
        then show ?thesis using e f [of "run_gw_error x"] by (auto simp: run_events_def k c u)
      next
        case (Inr p)
        obtain replay n where p: "p = (replay, n)" by (cases p)
        obtain ok q1 where re: "replay_events (rv_event rv) (rv_io rv) 0 replay (stream_event_head q) = (ok, q1)" by (metis surj_pair)
        note g1 = replay_gives [OF re, of g]
        show ?thesis
        proof (cases ok)
          case False
          then show ?thesis using e g1 h balanced_trans by (simp add: run_events_def k c u Inr p re) blast
        next
          case True
          obtain q2 g2 where fo: "follow_events (rv_event rv) (rv_turns rv) (q1, g) = (q2, g2)" by (metis surj_pair)
          then have "q' = q2" "g' = g2" using e True by (simp_all add: run_events_def k c u Inr p re)
          then show ?thesis using follow_gives [OF fo _ t] g1 h balanced_trans by blast
        qed
      qed
    qed
  qed
qed

definition control_ok :: "host \<Rightarrow> env \<Rightarrow> route_env \<Rightarrow> bool" where
  "control_ok hs en rv \<longleftrightarrow> neutral (\<lambda>_. 0) (en_between en 11) \<and> adapter_ok en \<and> adapter_ok (rv_env rv)
     \<and> list_all (\<lambda>(sel, en, io). adapter_ok en) (rv_turns rv) \<and> steady_hook (rv_admission rv)"

lemma run_routes_ok:
  assumes "control_ok hs en rv"
  shows "handler_ok calm (run_routes rv available k)"
proof (rule handler_okI)
  fix q g w q' g' w' assume c: "calm q" and s: "run_routes rv available k (q, g, w) = (q', g', w')"
  have a: "adapter_ok (rv_env rv)" and t: "list_all (\<lambda>(sel, en, io). adapter_ok en) (rv_turns rv)" and hk: "steady_hook (rv_admission rv)"
    using assms by (simp_all add: control_ok_def)
  let ?q = "no_store q"
  have n: "in_balance (q, g) (?q, g)" "calm ?q" "bare ?q" using c by (simp_all add: no_store_def calm_def bare_def balanced_by_def held_defs)
  have cb: "bare q" using c by (simp add: calm_def)
  show "in_balance (q, g) (q', g') \<and> bare q'"
  proof (cases available)
    case False
    then show ?thesis using s handler_okD [OF refuse_ok [OF a] cb] by (simp add: run_routes_def)
  next
    case True
    have "event_route rv (?q, g, w) = (q', g', w') \<or> submit_route rv k (?q, g, w) = (q', g', w')
        \<or> admitted rv k (list_route rv k) (?q, g, w) = (q', g', w') \<or> one_run_route rv k (?q, g, w) = (q', g', w')
        \<or> answer_run_route rv 200 (Inl ErrNotFound) (?q, g, w) = (q', g', w')"
      using s True by (auto simp: run_routes_def run_route_def Let_def split: if_splits)
    then have "in_balance (?q, g) (q', g') \<and> bare q'"
      by (elim disjE) (erule handler_okD [OF event_route_ok [OF a t] n(3)] handler_okD [OF submit_route_ok [OF a hk] n(2)]
          handler_okD [OF admitted_ok [OF a list_route_ok [OF a]] n(2)] handler_okD [OF one_run_route_ok [OF a] n(2)]
          handler_okD [OF answer_ok [OF a] n(3)])+
    then show ?thesis using n(1) balanced_trans by blast
  qed
qed

text \<open>
  C0. A control request gives back what it takes. Whatever a request to the run routes does (submits a run, also an image run with its
  hold on the budget, lists, reads, cancels, approves, follows the events, or is refused anywhere), once it has left through the exit
  the requests in flight and reservations of every key, the buffered bodies, the members held and the running requests are what they
  were, and at most one event has been recorded.
\<close>

theorem control_gives_back:
  assumes o: "control_ok hs en rv"
    and r: "serve_control hs en (run_routes rv available) now m p (g, w) = (q, g', w')"
  shows "in_flight_of g' kid = in_flight_of g kid \<and> reserved_of g' kid = reserved_of g kid \<and> gw_bodies g' = gw_bodies g
     \<and> gw_leases g' i = gw_leases g i \<and> holders (gw_queues g' i) = holders (gw_queues g i)
     \<and> (\<exists>evs. gw_recorded g' = gw_recorded g @ evs \<and> length evs \<le> 1)"
proof -
  let ?q = "new_request now (hs_router hs) m p"
  note n = new_request_fresh [of now "hs_router hs" m p]
  have fr: "fresh ?q" "\<not> rq_no_event ?q" "ev_key_id (rq_ev ?q) = []" using n by blast+
  have ad: "adapter_ok en" using o by (simp add: control_ok_def)
  obtain err q1 g1 where a: "authenticate_request en (?q, g) = (err, q1, g1)" by (cases "authenticate_request en (?q, g)") auto
  note au = authenticate_ok [OF fr a]
  have calm1: "calm q1" using au by (simp add: calm_def fresh_def)
  define h where "h = (case err of Some e \<Rightarrow> (fail_request en e q1, g1, w)
      | None \<Rightarrow> (case rq_key q1 of Some k \<Rightarrow> run_routes rv available k (q1, g1, w) | None \<Rightarrow> (q1, g1, w)))"
  obtain q2 g2 w2 where h2: "h = (q2, g2, w2)" by (cases h) auto
  have "in_balance (q1, g1) (q2, g2) \<and> bare q2"
  proof (cases err)
    case (Some e)
    have "bare q1" using calm1 by (simp add: calm_def)
    then show ?thesis using h2 Some fail_request_same [OF _ ad, of q1 e] same_gives [of q1 "fail_request en e q1" g1] by (auto simp: h_def)
  next
    case None
    then show ?thesis using h2 calm1 handler_okD [OF run_routes_ok [OF o] calm1] by (cases "rq_key q1") (auto simp: h_def calm_def)
  qed
  moreover have "in_balance (q2, g2) (q2, en_between en 11 g2)" using o by (intro balanced_neutral) (simp add: control_ok_def)
  ultimately have b: "in_balance (?q, g) (q2, en_between en 11 g2)" "bare q2" using au balanced_trans by blast+
  have s: "q = q2" "finish_request hs en (q2, en_between en 11 g2) = g'"
    using r h2 a by (cases err; auto simp: serve_control_def h_def split: option.splits)+
  from s(2) obtain cap where "finish (hs_backoff_base hs) cap (en_settle_t en) (en_end_t en) (en_gone_finish en) q2 (en_between en 11 g2) = g'"
    by (auto simp: finish_request_def Let_def)
  note gb = finish_gives_back [OF b(2) this, of kid i]
  note hn = fresh_holds_nothing [OF fr(1), of kid i]
  obtain ev where ev: "gw_recorded g' = gw_recorded (en_between en 11 g2) @ (if rq_no_event q2 then [] else [ev])" using gb by blast
  have "\<exists>evs. gw_recorded g' = gw_recorded g @ evs \<and> length evs \<le> 1"
    using ev b(1) by (intro exI [of _ "if rq_no_event q2 then [] else [ev]"]) (simp add: balanced_by_def)
  then show ?thesis using gb hn b(1) by (simp add: balanced_by_def)
qed

definition sample_route :: "run_submission option \<Rightarrow> route_env" where
  "sample_route sub = \<lparr>rv_store = sample_run_env, rv_image = sample_image_env, rv_now = 6, rv_env = sample_env ''Bearer s'', rv_submission = sub,
     rv_images = None, rv_approval = None, rv_download = False, rv_admission = Some (image_hook 6 default_limits),
     rv_offer = Inl (errf CodeNotFound 0 [] []), rv_image_input = (\<lambda>_ _ _. []), rv_json = (\<lambda>_. JNull), rv_failure = (\<lambda>_. None),
     rv_base64 = (\<lambda>x. x), rv_event = (\<lambda>_. []), rv_last_event = [], rv_cursor = [], rv_io = (\<lambda>_. (True, True)), rv_turns = [],
     rv_others = (\<lambda>s. s)\<rparr>"

lemma sample_control_ok: "control_ok sample_host (sample_env ''Bearer s'') (sample_route sub)"
  using image_hook_steady sample_others_ok [of "''Bearer s''"] by (simp add: control_ok_def sample_route_def others_ok_def)

theorem control_gives_back_witness:
  "\<forall>kid. let g' = fst (snd (serve_control sample_host (sample_env ''Bearer s'')
         (run_routes (sample_route (Some \<lparr>ri_kind = ''chat'', ri_client = None, ri_priority = [], ri_input = ''x''\<rparr>)) True)
         1 ''POST'' ''/v1/runs'' (idle_gateway, sample_manager, sample_image_world [] [])))
     in in_flight_of g' kid = 0 \<and> gw_bodies g' = 0 \<and> length (gw_recorded g') \<le> 1"
proof (intro allI)
  fix kid
  let ?s = "serve_control sample_host (sample_env ''Bearer s'')
         (run_routes (sample_route (Some \<lparr>ri_kind = ''chat'', ri_client = None, ri_priority = [], ri_input = ''x''\<rparr>)) True)
         1 ''POST'' ''/v1/runs'' (idle_gateway, sample_manager, sample_image_world [] [])"
  obtain q g' w' where s: "?s = (q, g', w')" by (cases ?s) auto
  note g = control_gives_back [OF sample_control_ok s, of kid "[]"]
  have i: "in_flight_of idle_gateway kid = 0" "gw_bodies idle_gateway = 0" "gw_recorded idle_gateway = []"
    by (simp_all add: idle_gateway_def in_flight_of_def new_limiter_def key_state_of_def new_key_state_def)
  have "in_flight_of g' kid = 0 \<and> gw_bodies g' = 0 \<and> length (gw_recorded g') \<le> 1"
    using g unfolding i by auto
  then show "let g' = fst (snd ?s) in in_flight_of g' kid = 0 \<and> gw_bodies g' = 0 \<and> length (gw_recorded g') \<le> 1"
    unfolding s Let_def fst_conv snd_conv .
qed

text \<open>
  What an answered cancellation says is true: the run shown has ended, or carries the mark and still has its worker; a request that came
  too late is answered with the run as it ended.
\<close>

theorem delete_answered:
  assumes "store_ok (mg_store m)" and "env_ok (rv_store rv)" and c: "cancel_answer rv k rid (m, w) = (Inr r, m', w')"
  shows "terminal (rn_state r) \<or> rn_cancel_requested r \<and> has_worker rid m"
proof -
  obtain err x m1 where x: "cancel_run (rv_store rv) (rv_now rv) (k_id k) rid m = ((err, x), m1)" by (metis prod.collapse)
  show ?thesis
  proof (cases err)
    case None
    then have "x = r" using c x by (simp add: cancel_answer_def)
    then show ?thesis using cancel_takes_effect [OF assms(1,2), of "rv_now rv" "k_id k" rid r m1] x None by simp
  next
    case (Some e)
    then have "e = ErrConflict" using c x by (cases e) (auto simp: cancel_answer_def)
    then show ?thesis using c x Some by (auto simp: cancel_answer_def split: prod.splits sum.splits if_splits)
  qed
qed

end
