(* ===== verification/Spec2Isabelle.thy ===== *)
theory Spec2Isabelle
  imports Gateway_Errors Key_Store Admin_Key Invite Limiter Usage_Recorder Pipeline_Safety Run_Restart Run_Drive Responses_Whole Chat_Run Run_Stored Audio_Safety Run_Step Run_Routes
begin

text \<open>
  Infercat shares a host's inference engine with friends. A friend holds an invite (a host address and a secret); the host
  keeps the digests of the secrets with per-key limits, serves requests through a gateway in front of the engines, meters what
  each friend uses, and runs longer work (images, chats, agents) as durable runs. This library models that core.

  \<^bold>\<open>Parts and theories.\<close>
    \<^item> \<open>Prelude\<close>, \<open>Json\<close>: Go time as integers of nanoseconds, decimal text, byte strings, string functions of the Go library that
      the code calls, JSON values as ordered members.
    \<^item> \<open>Keys\<close>, \<open>Key_Store\<close> (internal/keys): limits, budgets, secrets and digests; \<open>FileStore\<close> over an explicit disk and clock: reload,
      lookup, add, rotate, status and limits, reference resolution.
    \<^item> \<open>Invite\<close> (internal/invite), \<open>Admin_Key\<close> (internal/adminkey): the invite text and the key of the remote console.
    \<^item> \<open>Gateway_Errors\<close> (gateway/errors.go): codes, statuses, the error body, and writing it before and after the stream head.
    \<^item> \<open>Limiter\<close> (gateway/limits.go, the ledger of audio.go): the per-key ledger: admission, reservation, settlement, counters.
    \<^item> \<open>Slot_Queue\<close> (gateway/queue.go): the queue of one destination and the interleavings of its operations.
    \<^item> \<open>Usage\<close>, \<open>Usage_Recorder\<close> (internal/usage): events, statistics, the log reader, and the bounded recorder.
    \<^item> \<open>Body\<close> (gateway/proxy.go, request.go): shaping the request body and fitting it into the context of the engine.
    \<^item> \<open>Router\<close> (gateway/destination.go, sessions.go): destinations, routes, model resolution, live sessions.
    \<^item> \<open>Image_Ledger\<close> (gateway/images.go): offers, the daily image budget with holds, the classification of an engine answer, the
      backoff of a suspect engine.
    \<^item> \<open>Exchange\<close>, \<open>Relay\<close>, \<open>Pipeline\<close>, \<open>Pipeline_Safety\<close> (gateway/request.go, proxy.go): a request record, what it writes, its one exit
      \<open>finish\<close>; the body and event-stream relays; every stage from authentication to the usage event, with a panic at any stage.
    \<^item> \<open>Audio_Duration\<close>, \<open>Audio_Request\<close>, \<open>Audio_Safety\<close> (gateway/audio_duration.go, audio.go): the length of a recording read from its
      container; the stages of a transcription or speech request over the same record, ledger, queue and exit, with its own relays.
    \<^item> \<open>Responses\<close>, \<open>Responses_Output\<close>, \<open>Responses_Stream\<close>, \<open>Responses_Whole\<close> (gateway/responses.go, responses_stream.go): the adapter
      that takes a Responses request to a chat request and the engine's chunks back to the items and events of a response.
    \<^item> \<open>Host_Tools\<close>, \<open>Search\<close>, \<open>Image_Batch\<close>, \<open>Chat_Run\<close>, \<open>Utf8\<close> (gateway/host_tools.go, search.go, chat_run.go, prepareImageBatch of
      images.go): the tools a chat may use, the accumulator of the engine's stream, the text and the daily budget of a web search, the
      admission of an image batch, the hand-off of a chat to a run and the rounds of that run with its deliveries.
    \<^item> \<open>Run_Types\<close>, \<open>Run_Store\<close>, \<open>Run_Store_Safety\<close>, \<open>Run_Changes\<close>, \<open>Run_Retained\<close>, \<open>Run_Restart\<close> (internal/run/types.go, store.go,
      retained.go, maintenance.go, cleanup.go, detail.go): the durable store of runs: loading and checking a key, recovery,
      commits under the byte budget, batches, leases, subscriptions.
    \<^item> \<open>Run_Images\<close>, \<open>Run_Stored\<close> (internal/run/images.go, cleanup.go, stored.go): the artifact files of image runs, their budget and
      sweep, what a key has stored, and clearing it.
    \<^item> \<open>Speech\<close> (internal/speech): numbers spelt out in Chinese text, the checks of a speech request, one generation at a time, and its sound.
    \<^item> \<open>Run_Manager\<close>, \<open>Run_Life\<close>, \<open>Run_Drive\<close> (internal/run/manager.go, consumer.go, join.go): policies, the serial queue,
      submission, cancellation, attempts, the driving loop, approvals, join timers, quarantine, shutdown and the sweep.

    \<^item> \<open>Run_Step\<close> (ExecuteStep and runSink of gateway/runs.go, agent_message.go): the request a run makes of its own gateway, the sink it
      writes into and the message kept of an agent's stream.
    \<^item> \<open>Run_Follow\<close>, \<open>Run_Routes\<close> (gateway/runs.go, run_detail.go, followChat of chat_run.go): the stream of run events, the handler that
      waits for a chat run, and the routes that submit, list, read, cancel and approve runs, from authentication to the exit.

  \<^bold>\<open>How they interact.\<close> A request is authenticated against the key store, admitted and reserved in the ledger of its key, shaped,
  counted, queued at its destination, relayed, and at its exit everything it held goes back and one event is recorded. The run
  manager submits batches through the store (whose admission hook is where the image ledger reserves) and drives each run
  through attempts; an attempt is a request through the same gateway. A chat with host tools is handed off by the pipeline to a run
  whose rounds call the engine, search, and submit image batches. State is passed explicitly: the gateway record
  holds ledgers and queues, the manager record holds the store.

  \<^bold>\<open>What the lemmas show.\<close> Conservation and ceilings of the ledgers and queues under any sequence of operations; the pipeline
  gives everything back and charges what it logs, for text and for audio, and a recording is charged its length; the store invariant \<open>store_ok\<close> is kept by every operation; an answered
  change survives a restart; the edits of the manager (interface \<open>life_edit\<close>, which extends \<open>run_edit\<close>) refine the abstract life of
  a run; the image loop ends; a Responses stream adds up to its items, however it is cut; a chat run ends within
  its rounds and answers only with a whole reply, claims its delivery once, and searches within the daily budget; a subscription has no gap;
  image files stay within their budget, are read back as they were put and are swept only when no run names them; a clear takes the ended runs
  alone; a step of a run settles once before its result is seen; an event stream shows lines only under a live key; a chat is announced as done
  only when its run durably is; a request to the run routes gives back what it took; exactly which numbers of a text make its normalisation panic; round trips of invites and of the usage log.

  \<^bold>\<open>Modelling conventions.\<close> Errors are values of sums; a Go panic is an error value that every caller passes on up to one that recovers.
  Times and budgets are integers: Go's int has 64 bits and the amounts compared stay far below its bounds (a limit written by
  hand near \<open>2^63\<close> is outside the model). Maps of the code whose
  iteration order does not matter are association lists or functions. Loops are recursive; the driving loop of a run is bounded by a
  number of rounds (the chat loop by its own limit of four), and \<open>image_drive_ends\<close> shows that two rounds are enough for the image kind. Concurrency is
  interleaving: operations under a mutex are atomic steps, and what happens between them is a sequence of such steps.

  \<^bold>\<open>Parameters.\<close> JSON encoding and decoding of stored snapshots, SHA-256, the random source, the outcome of each disk write, MIME
  parsing, the engine's answers, the token counter and the handlers outside the text and audio pipelines.

  \<^bold>\<open>Not modelled.\<close> The HTTP handlers of
  the image routes; the tunnel, bridge, machine service and admin transports; the
  managed engines (processes, downloads, archives); the agent adapter; the command line, consoles and settings files. These are mostly process,
  socket, file and terminal handling around the core.
\<close>

end
